(* ===== verification/Py_Base.thy ===== *)
theory Py_Base
  imports Main Complex_Main "HOL-Library.AList" "HOL-Library.List_Lexorder" "HOL-Library.Char_ord"
    "HOL-Library.Product_Lexorder" "HOL-Library.Multiset"
begin

text \<open>
  The prelude of the development: what the Python sources take from the language itself.

  \<^item> errors as values (\<open>error\<close>), and executions that either return or raise, in both cases
    with the state the code leaves behind (\<open>outcome\<close>): an exception in Python does not undo the
    assignments made before it;
  \<^item> sequencing, loops and checks over such executions, with one weakest-precondition equation
    each, collected in \<open>wp_eqs\<close>;
  \<^item> insertion-ordered dictionaries (\<open>dict_get\<close>, \<open>dict_set\<close>, \<open>dict_pop\<close>, \<open>dict_adjust\<close>) with
    their laws, stated as the locale \<open>ordered_dict\<close> and interpreted on the implementation;
  \<^item> decimal printing of integers (\<open>py_str_int\<close>) and ceiling division.
\<close>

named_theorems wp_eqs \<open>weakest-precondition equations of the execution combinators\<close>
named_theorems frame \<open>rules for what an execution leaves unchanged\<close>
named_theorems dict_simps \<open>lookups and keys after a dictionary operation\<close>

section \<open>Errors and executions\<close>

datatype error =
    AssertionError
  | KeyError
  | IndexError
  | ValueError
  | RuntimeError
  | AttributeError
  | TypeError
  | UnboundLocalError
  | NotImplementedError
  | ZeroDivisionError
  | QueueBlocked
  | RedisError
  | TimeoutError
  | StopIteration
  | OutOfFuel
  | GenericException

datatype ('s, 'a) outcome = Ok 'a 's | Raise error 's

type_synonym ('s, 'a) exec = "'s \<Rightarrow> ('s, 'a) outcome"

definition ret :: "'a \<Rightarrow> ('s, 'a) exec" where
  "ret a = (\<lambda>s. Ok a s)"

definition raise :: "error \<Rightarrow> ('s, 'a) exec" where
  "raise e = (\<lambda>s. Raise e s)"

definition bnd :: "('s, 'a) exec \<Rightarrow> ('a \<Rightarrow> ('s, 'b) exec) \<Rightarrow> ('s, 'b) exec" where
  "bnd m f = (\<lambda>s. case m s of Ok a s' \<Rightarrow> f a s' | Raise e s' \<Rightarrow> Raise e s')"

definition gets :: "('s \<Rightarrow> 'a) \<Rightarrow> ('s, 'a) exec" where
  "gets f = (\<lambda>s. Ok (f s) s)"

definition modify :: "('s \<Rightarrow> 's) \<Rightarrow> ('s, unit) exec" where
  "modify f = (\<lambda>s. Ok () (f s))"

definition check :: "error \<Rightarrow> bool \<Rightarrow> ('s, unit) exec" where
  "check e b = (if b then ret () else raise e)"

abbreviation py_assert :: "bool \<Rightarrow> ('s, unit) exec" where
  "py_assert b \<equiv> check AssertionError b"

definition guarded :: "bool \<Rightarrow> ('s, unit) exec \<Rightarrow> ('s, unit) exec" where
  "guarded b m = (if b then m else ret ())"

text \<open>\<open>with_state\<close> runs an execution that is computed from the current state.\<close>

definition with_state :: "('s \<Rightarrow> ('s, 'a) exec) \<Rightarrow> ('s, 'a) exec" where
  "with_state f = (\<lambda>s. f s s)"

definition lift_sum :: "error + 'a \<Rightarrow> ('s, 'a) exec" where
  "lift_sum r = (case r of Inl e \<Rightarrow> raise e | Inr a \<Rightarrow> ret a)"

text \<open>\<open>try_except m h\<close>: \<open>h\<close> continues from the state in which \<open>m\<close> raised.\<close>

definition try_except :: "('s, 'a) exec \<Rightarrow> (error \<Rightarrow> ('s, 'a) exec) \<Rightarrow> ('s, 'a) exec" where
  "try_except m h = (\<lambda>s. case m s of Ok a s' \<Rightarrow> Ok a s' | Raise e s' \<Rightarrow> h e s')"

fun block :: "('s, unit) exec list \<Rightarrow> ('s, unit) exec" where
  "block [] = ret ()"
| "block (m # ms) = bnd m (\<lambda>_. block ms)"

fun for_each :: "'x list \<Rightarrow> ('x \<Rightarrow> ('s, unit) exec) \<Rightarrow> ('s, unit) exec" where
  "for_each [] f = ret ()"
| "for_each (x # xs) f = bnd (f x) (\<lambda>_. for_each xs f)"

text \<open>\<open>sum_filter\<close> is a comprehension's \<open>if\<close> whose test may raise.\<close>

fun sum_filter :: "('x \<Rightarrow> error + bool) \<Rightarrow> 'x list \<Rightarrow> error + 'x list" where
  "sum_filter p [] = Inr []"
| "sum_filter p (x # xs) =
     (case p x of Inl e \<Rightarrow> Inl e
      | Inr b \<Rightarrow> (case sum_filter p xs of Inl e \<Rightarrow> Inl e
                  | Inr ys \<Rightarrow> Inr (if b then x # ys else ys)))"

lemma sum_filter_total:
  "(\<And>x. x \<in> set xs \<Longrightarrow> p x = Inr (q x)) \<Longrightarrow> sum_filter p xs = Inr (filter q xs)"
  by (induction xs) auto

text \<open>Pure code that may raise: a value or the error it stops with.\<close>

definition ebind :: "error + 'a \<Rightarrow> ('a \<Rightarrow> error + 'b) \<Rightarrow> error + 'b" where
  "ebind r f = (case r of Inl e \<Rightarrow> Inl e | Inr a \<Rightarrow> f a)"

definition ensure :: "error \<Rightarrow> bool \<Rightarrow> error + 'a \<Rightarrow> error + 'a" where
  "ensure e b r = (if b then r else Inl e)"

fun efold :: "('x \<Rightarrow> 'a \<Rightarrow> error + 'a) \<Rightarrow> 'x list \<Rightarrow> 'a \<Rightarrow> error + 'a" where
  "efold f [] a = Inr a"
| "efold f (x # xs) a = ebind (f x a) (efold f xs)"

text \<open>A list comprehension whose expression may raise.\<close>

definition emap :: "('x \<Rightarrow> error + 'y) \<Rightarrow> 'x list \<Rightarrow> error + 'y list" where
  "emap f xs = efold (\<lambda>x acc. ebind (f x) (\<lambda>y. Inr (acc @ [y]))) xs []"

lemma emap_Inr_iff: "emap f xs = Inr ys \<longleftrightarrow> list_all2 (\<lambda>x y. f x = Inr y) xs ys"
proof -
  have "efold (\<lambda>x acc. ebind (f x) (\<lambda>y. Inr (acc @ [y]))) xs acc = Inr ys
      \<longleftrightarrow> (\<exists>zs. ys = acc @ zs \<and> list_all2 (\<lambda>x y. f x = Inr y) xs zs)" for acc
  proof (induction xs arbitrary: acc)
    case (Cons x xs)
    then show ?case by (cases "f x") (auto simp: ebind_def list_all2_Cons1)
  qed auto
  then show ?thesis by (simp add: emap_def)
qed

lemma ebind_simps [simp]: "ebind (Inl e) f = Inl e" "ebind (Inr a) f = f a"
  by (simp_all add: ebind_def)

lemma ebind_cong [fundef_cong]:
  "r = r' \<Longrightarrow> (\<And>a. r' = Inr a \<Longrightarrow> f a = f' a) \<Longrightarrow> ebind r f = ebind r' f'"
  by (cases r') auto

lemma ebind_Inr_iff: "ebind r f = Inr b \<longleftrightarrow> (\<exists>a. r = Inr a \<and> f a = Inr b)"
  by (cases r) auto

lemma ensure_Inr_iff: "ensure e b r = Inr a \<longleftrightarrow> b \<and> r = Inr a"
  by (simp add: ensure_def)

lemma ensure_True [simp]: "ensure e True r = r" "ensure e False r = Inl e"
  by (simp_all add: ensure_def)

subsection \<open>Running an execution\<close>

fun final :: "('s, 'a) outcome \<Rightarrow> 's" where
  "final (Ok a s) = s"
| "final (Raise e s) = s"

fun returned :: "('s, 'a) outcome \<Rightarrow> 'a option" where
  "returned (Ok a s) = Some a"
| "returned (Raise e s) = None"

fun raised :: "('s, 'a) outcome \<Rightarrow> error option" where
  "raised (Ok a s) = None"
| "raised (Raise e s) = Some e"

lemma ret_run [simp]: "ret a s = Ok a s"
  by (simp add: ret_def)

lemma raise_run [simp]: "raise e s = Raise e s"
  by (simp add: raise_def)

lemma gets_run [simp]: "gets f s = Ok (f s) s"
  by (simp add: gets_def)

lemma modify_run [simp]: "modify f s = Ok () (f s)"
  by (simp add: modify_def)

lemma with_state_run [simp]: "with_state f s = f s s"
  by (simp add: with_state_def)

lemma check_run [simp]: "check e b s = (if b then Ok () s else Raise e s)"
  by (simp add: check_def)

lemma guarded_run [simp]: "guarded b m s = (if b then m s else Ok () s)"
  by (simp add: guarded_def)

lemma lift_sum_run [simp]:
  "lift_sum (Inl e) s = Raise e s" "lift_sum (Inr a) s = Ok a s"
  by (simp_all add: lift_sum_def)

lemma bnd_Ok [simp]: "m s = Ok a s' \<Longrightarrow> bnd m f s = f a s'"
  by (simp add: bnd_def)

lemma bnd_Raise [simp]: "m s = Raise e s' \<Longrightarrow> bnd m f s = Raise e s'"
  by (simp add: bnd_def)

lemma bnd_Ok_const [simp]: "bnd (Ok a) f = f a"
  by (simp add: bnd_def)

lemma bnd_Raise_const [simp]: "bnd (Raise e) f = Raise e"
  by (simp add: bnd_def)

lemma bnd_cong [fundef_cong]:
  "s = s' \<Longrightarrow> m s' = m' s' \<Longrightarrow> (\<And>a t. m' s' = Ok a t \<Longrightarrow> f a t = f' a t) \<Longrightarrow> bnd m f s = bnd m' f' s'"
  by (auto simp: bnd_def split: outcome.split)

lemma bnd_assoc: "bnd (bnd m f) g = bnd m (\<lambda>a. bnd (f a) g)"
  by (auto simp: bnd_def split: outcome.splits)

lemma bnd_eq_OkD: "bnd m f s = Ok b t \<Longrightarrow> \<exists>a s'. m s = Ok a s' \<and> f a s' = Ok b t"
  by (auto simp: bnd_def split: outcome.splits)

lemma bnd_eq_Ok_iff: "bnd m f s = Ok b t \<longleftrightarrow> (\<exists>a s'. m s = Ok a s' \<and> f a s' = Ok b t)"
  by (auto simp: bnd_def split: outcome.splits)

lemma for_each_append: "for_each (xs @ ys) f = bnd (for_each xs f) (\<lambda>_. for_each ys f)"
  by (induction xs) (simp_all add: bnd_assoc)

text \<open>A loop whose body cannot raise is a fold over the state.\<close>

lemma for_each_modify: "for_each xs (\<lambda>x. modify (f x)) s = Ok () (fold f xs s)"
  by (induction xs arbitrary: s) simp_all

lemma for_each_cong_run:
  "(\<And>x t. x \<in> set xs \<Longrightarrow> P t \<Longrightarrow> f x t = Ok () (g x t) \<and> P (g x t)) \<Longrightarrow> P s \<Longrightarrow>
   for_each xs f s = Ok () (fold g xs s) \<and> P (fold g xs s)"
  by (induction xs arbitrary: s) auto

subsection \<open>Weakest preconditions\<close>

definition wp :: "('s, 'a) exec \<Rightarrow> ('a \<Rightarrow> 's \<Rightarrow> bool) \<Rightarrow> (error \<Rightarrow> 's \<Rightarrow> bool) \<Rightarrow> 's \<Rightarrow> bool" where
  "wp m Q E s = (case m s of Ok a s' \<Rightarrow> Q a s' | Raise e s' \<Rightarrow> E e s')"

lemma wp_ret [wp_eqs]: "wp (ret a) Q E s = Q a s" "wp (Ok a) Q E s = Q a s"
  by (simp_all add: wp_def)

lemma wp_raise [wp_eqs]: "wp (raise e) Q E s = E e s" "wp (Raise e) Q E s = E e s"
  by (simp_all add: wp_def)

lemma wp_bnd [wp_eqs]: "wp (bnd m f) Q E s = wp m (\<lambda>a. wp (f a) Q E) E s"
  by (simp add: wp_def bnd_def split: outcome.split)

lemma wp_gets [wp_eqs]: "wp (gets f) Q E s = Q (f s) s"
  by (simp add: wp_def)

lemma wp_modify [wp_eqs]: "wp (modify f) Q E s = Q () (f s)"
  by (simp add: wp_def)

lemma wp_check [wp_eqs]: "wp (check e b) Q E s = (if b then Q () s else E e s)"
  by (simp add: wp_def)

lemma wp_guarded [wp_eqs]: "wp (guarded b m) Q E s = (if b then wp m Q E s else Q () s)"
  by (simp add: wp_def)

lemma wp_with_state [wp_eqs]: "wp (with_state f) Q E s = wp (f s) Q E s"
  by (simp add: wp_def)

lemma wp_lift_sum [wp_eqs]:
  "wp (lift_sum r) Q E s = (case r of Inl e \<Rightarrow> E e s | Inr a \<Rightarrow> Q a s)"
  by (simp add: wp_def lift_sum_def split: sum.split)

lemma wp_try_except [wp_eqs]:
  "wp (try_except m h) Q E s = wp m Q (\<lambda>e. wp (h e) Q E) s"
  by (simp add: wp_def try_except_def split: outcome.split)

lemma wp_block_Nil [wp_eqs]: "wp (block []) Q E s = Q () s"
  by (simp add: wp_def)

lemma wp_block_Cons [wp_eqs]: "wp (block (m # ms)) Q E s = wp m (\<lambda>_. wp (block ms) Q E) E s"
  by (simp add: wp_bnd)

lemma wp_if [wp_eqs]: "wp (if b then m else m') Q E s = (if b then wp m Q E s else wp m' Q E s)"
  by simp

lemma wp_conseq:
  "wp m Q E s \<Longrightarrow> (\<And>a t. Q a t \<Longrightarrow> Q' a t) \<Longrightarrow> (\<And>e t. E e t \<Longrightarrow> E' e t) \<Longrightarrow> wp m Q' E' s"
  by (auto simp: wp_def split: outcome.splits)

lemma wp_conj: "wp m Q E s \<Longrightarrow> wp m Q' E' s \<Longrightarrow> wp m (\<lambda>a t. Q a t \<and> Q' a t) (\<lambda>e t. E e t \<and> E' e t) s"
  by (auto simp: wp_def split: outcome.splits)

lemma wp_Ok: "wp m Q E s \<Longrightarrow> m s = Ok a t \<Longrightarrow> Q a t"
  by (simp add: wp_def)

lemma wp_Raise: "wp m Q E s \<Longrightarrow> m s = Raise e t \<Longrightarrow> E e t"
  by (simp add: wp_def)

text \<open>A loop keeps what its body keeps; \<open>wp_for_each\<close> tracks the elements already done.\<close>

lemma wp_for_each:
  assumes step: "\<And>done x todo t. xs = done @ x # todo \<Longrightarrow> I done t \<Longrightarrow> wp (f x) (\<lambda>_. I (done @ [x])) E t"
    and init: "I [] s"
    and post: "\<And>t. I xs t \<Longrightarrow> Q () t"
  shows "wp (for_each xs f) Q E s"
proof -
  have "wp (for_each ys f) (\<lambda>_. I (ds @ ys)) E t" if "I ds t" "xs = ds @ ys" for ds ys t
    using that
  proof (induction ys arbitrary: ds t)
    case Nil
    then show ?case by (simp add: wp_ret)
  next
    case (Cons y ys)
    have "wp (f y) (\<lambda>_. I (ds @ [y])) E t"
      using step [of ds y ys t] Cons.prems by simp
    then have "wp (f y) (\<lambda>_. wp (for_each ys f) (\<lambda>_. I (ds @ y # ys)) E) E t"
      by (rule wp_conseq) (use Cons.IH [of "ds @ [y]"] Cons.prems in auto)
    then show ?case by (simp add: wp_bnd)
  qed
  from this [of "[]" s xs] init have "wp (for_each xs f) (\<lambda>_. I xs) E s" by simp
  then show ?thesis by (rule wp_conseq) (auto intro: post)
qed

lemma wp_for_each_inv:
  assumes "\<And>x t. x \<in> set xs \<Longrightarrow> I t \<Longrightarrow> wp (f x) (\<lambda>_. I) E t" and "I s" and "\<And>t. I t \<Longrightarrow> Q () t"
  shows "wp (for_each xs f) Q E s"
  by (rule wp_for_each [where I = "\<lambda>_. I"]) (use assms in auto)

subsection \<open>What an execution leaves unchanged\<close>

text \<open>\<open>keeps g m\<close>: whether \<open>m\<close> returns or raises, the observation \<open>g\<close> of the state is what it was.\<close>

definition keeps :: "('s \<Rightarrow> 'o) \<Rightarrow> ('s, 'a) exec \<Rightarrow> bool" where
  "keeps g m \<longleftrightarrow> (\<forall>s. g (final (m s)) = g s)"

lemma keepsI: "(\<And>s. g (final (m s)) = g s) \<Longrightarrow> keeps g m"
  by (simp add: keeps_def)

lemma keepsD: "keeps g m \<Longrightarrow> g (final (m s)) = g s"
  by (simp add: keeps_def)

lemma keeps_Ok: "keeps g m \<Longrightarrow> m s = Ok a t \<Longrightarrow> g t = g s"
  by (metis final.simps(1) keepsD)

lemma keeps_Raise: "keeps g m \<Longrightarrow> m s = Raise e t \<Longrightarrow> g t = g s"
  by (metis final.simps(2) keepsD)

lemma keeps_bnd [frame]: "keeps g m \<Longrightarrow> (\<And>a. keeps g (f a)) \<Longrightarrow> keeps g (bnd m f)"
  unfolding keeps_def bnd_def by (metis final.simps outcome.case outcome.exhaust)

lemma keeps_basic [frame]: "keeps g (ret a)" "keeps g (raise e)" "keeps g (gets f)" "keeps g (check e b)"
    "keeps g (lift_sum r)" "keeps g (Ok a)" "keeps g (Raise e)"
  by (auto simp: keeps_def lift_sum_def split: sum.split)

lemma keeps_modify: "keeps g (modify f) \<longleftrightarrow> (\<forall>s. g (f s) = g s)"
  by (simp add: keeps_def)

lemma keeps_with_state [frame]: "(\<And>s. keeps g (f s)) \<Longrightarrow> keeps g (with_state f)"
  by (simp add: keeps_def)

lemma keeps_guarded [frame]: "(b \<Longrightarrow> keeps g m) \<Longrightarrow> keeps g (guarded b m)"
  by (simp add: keeps_def)

lemma keeps_if [frame]: "(b \<Longrightarrow> keeps g m) \<Longrightarrow> (\<not> b \<Longrightarrow> keeps g m') \<Longrightarrow> keeps g (if b then m else m')"
  by simp

lemma keeps_block [frame]: "keeps g (block [])" "keeps g m \<Longrightarrow> keeps g (block ms) \<Longrightarrow> keeps g (block (m # ms))"
  by (auto intro: frame)

lemma keeps_for_each [frame]: "(\<And>x. x \<in> set xs \<Longrightarrow> keeps g (f x)) \<Longrightarrow> keeps g (for_each xs f)"
  by (induction xs) (auto intro: frame)

lemma keeps_try_except [frame]: "keeps g m \<Longrightarrow> (\<And>e. keeps g (h e)) \<Longrightarrow> keeps g (try_except m h)"
  unfolding keeps_def try_except_def by (metis final.simps outcome.case outcome.exhaust)

lemma keeps_case_option [frame]:
  "(x = None \<Longrightarrow> keeps g m) \<Longrightarrow> (\<And>y. x = Some y \<Longrightarrow> keeps g (f y)) \<Longrightarrow> keeps g (case x of None \<Rightarrow> m | Some y \<Rightarrow> f y)"
  by (cases x) simp_all

lemma keeps_case_list [frame]:
  "(xs = [] \<Longrightarrow> keeps g m) \<Longrightarrow> (\<And>y ys. xs = y # ys \<Longrightarrow> keeps g (h y ys)) \<Longrightarrow>
     keeps g (case xs of [] \<Rightarrow> m | y # ys \<Rightarrow> h y ys)"
  by (cases xs) simp_all

lemma keeps_case_prod [frame]:
  "(\<And>a b. z = (a, b) \<Longrightarrow> keeps g (p a b)) \<Longrightarrow> keeps g (case z of (a, b) \<Rightarrow> p a b)"
  by (cases z) simp

lemma keeps_let [frame]: "(\<And>x. x = v \<Longrightarrow> keeps g (f x)) \<Longrightarrow> keeps g (let x = v in f x)"
  by simp

subsection \<open>How an execution changes the state\<close>

text \<open>\<open>maintains I m\<close>: an invariant survives, whether \<open>m\<close> returns or raises. \<open>evolves R m\<close> relates the state before
  to the state after; for a reflexive and transitive \<open>R\<close> it composes, which is the locale \<open>evolution\<close>.\<close>

definition maintains :: "('s \<Rightarrow> bool) \<Rightarrow> ('s, 'a) exec \<Rightarrow> bool" where
  "maintains I m \<longleftrightarrow> (\<forall>s. I s \<longrightarrow> I (final (m s)))"

named_theorems invar \<open>rules for invariants of executions\<close>

lemma maintainsD: "maintains I m \<Longrightarrow> I s \<Longrightarrow> I (final (m s))"
  by (simp add: maintains_def)

lemma maintains_keeps: "keeps g m \<Longrightarrow> maintains (\<lambda>s. P (g s)) m"
  by (simp add: maintains_def keeps_def)

lemma maintains_bnd [invar]: "maintains I m \<Longrightarrow> (\<And>a. maintains I (f a)) \<Longrightarrow> maintains I (bnd m f)"
  unfolding maintains_def bnd_def by (metis final.simps outcome.case outcome.exhaust)

lemma maintains_basic [invar]: "maintains I (ret a)" "maintains I (raise e)" "maintains I (gets f)" "maintains I (check e b)"
    "maintains I (lift_sum r)" "maintains I (Ok a)" "maintains I (Raise e)"
  by (auto simp: maintains_def lift_sum_def split: sum.split)

lemma maintains_modify: "maintains I (modify f) \<longleftrightarrow> (\<forall>s. I s \<longrightarrow> I (f s))"
  by (simp add: maintains_def)

lemma maintains_with_state: "(\<And>s. I s \<Longrightarrow> I (final (f s s))) \<Longrightarrow> maintains I (with_state f)"
  by (simp add: maintains_def)

lemma maintains_with_state_all [invar]: "(\<And>s. maintains I (f s)) \<Longrightarrow> maintains I (with_state f)"
  by (simp add: maintains_def)

lemma maintains_guarded [invar]: "(b \<Longrightarrow> maintains I m) \<Longrightarrow> maintains I (guarded b m)"
  by (simp add: maintains_def)

lemma maintains_if [invar]: "(b \<Longrightarrow> maintains I m) \<Longrightarrow> (\<not> b \<Longrightarrow> maintains I m') \<Longrightarrow> maintains I (if b then m else m')"
  by simp

lemma maintains_block [invar]: "maintains I (block [])" "maintains I m \<Longrightarrow> maintains I (block ms) \<Longrightarrow> maintains I (block (m # ms))"
  by (auto intro: invar)

lemma maintains_for_each [invar]: "(\<And>x. x \<in> set xs \<Longrightarrow> maintains I (f x)) \<Longrightarrow> maintains I (for_each xs f)"
  by (induction xs) (auto intro: invar)

lemma maintains_try_except [invar]: "maintains I m \<Longrightarrow> (\<And>e. maintains I (h e)) \<Longrightarrow> maintains I (try_except m h)"
  unfolding maintains_def try_except_def by (metis final.simps outcome.case outcome.exhaust)

lemma maintains_case_option [invar]:
  "(x = None \<Longrightarrow> maintains I m) \<Longrightarrow> (\<And>y. x = Some y \<Longrightarrow> maintains I (f y)) \<Longrightarrow> maintains I (case x of None \<Rightarrow> m | Some y \<Rightarrow> f y)"
  by (cases x) simp_all

lemma maintains_case_list [invar]:
  "(xs = [] \<Longrightarrow> maintains I m) \<Longrightarrow> (\<And>y ys. xs = y # ys \<Longrightarrow> maintains I (h y ys)) \<Longrightarrow>
   maintains I (case xs of [] \<Rightarrow> m | y # ys \<Rightarrow> h y ys)"
  by (cases xs) simp_all

lemma maintains_case_prod [invar]: "(\<And>a b. z = (a, b) \<Longrightarrow> maintains I (p a b)) \<Longrightarrow> maintains I (case z of (a, b) \<Rightarrow> p a b)"
  by (cases z) simp

definition evolves :: "('s \<Rightarrow> 's \<Rightarrow> bool) \<Rightarrow> ('s, 'a) exec \<Rightarrow> bool" where
  "evolves R m \<longleftrightarrow> (\<forall>s. R s (final (m s)))"

locale evolution =
  fixes R :: "'s \<Rightarrow> 's \<Rightarrow> bool"
  assumes R_refl: "R s s"
    and R_trans: "R s t \<Longrightarrow> R t u \<Longrightarrow> R s u"
begin

lemma bnd: "evolves R m \<Longrightarrow> (\<And>a. evolves R (f a)) \<Longrightarrow> evolves R (bnd m f)"
  unfolding evolves_def bnd_def using R_trans by (metis final.simps outcome.case outcome.exhaust)

lemma basic: "evolves R (ret a)" "evolves R (raise e)" "evolves R (gets f)" "evolves R (check e b)" "evolves R (lift_sum r)"
    "evolves R (Ok a)" "evolves R (Raise e)"
  by (auto simp: evolves_def lift_sum_def R_refl split: sum.split)

lemma modify: "(\<And>s. R s (f s)) \<Longrightarrow> evolves R (modify f)"
  by (simp add: evolves_def)

lemma with_state: "(\<And>s. evolves R (f s)) \<Longrightarrow> evolves R (with_state f)"
  by (simp add: evolves_def)

lemma with_this_state: "(\<And>s. R s (final (f s s))) \<Longrightarrow> evolves R (with_state f)"
  by (simp add: evolves_def)

lemma guarded: "(b \<Longrightarrow> evolves R m) \<Longrightarrow> evolves R (guarded b m)"
  by (simp add: evolves_def R_refl)

lemma if_then: "(b \<Longrightarrow> evolves R m) \<Longrightarrow> (\<not> b \<Longrightarrow> evolves R m') \<Longrightarrow> evolves R (if b then m else m')"
  by simp

lemma block: "evolves R (block [])" "evolves R m \<Longrightarrow> evolves R (block ms) \<Longrightarrow> evolves R (block (m # ms))"
  by (auto intro: bnd basic)

lemma for_each: "(\<And>x. x \<in> set xs \<Longrightarrow> evolves R (f x)) \<Longrightarrow> evolves R (for_each xs f)"
  by (induction xs) (auto intro: bnd basic)

lemma try_except: "evolves R m \<Longrightarrow> (\<And>e. evolves R (h e)) \<Longrightarrow> evolves R (try_except m h)"
  unfolding evolves_def try_except_def using R_trans by (metis final.simps outcome.case outcome.exhaust)

lemma case_option:
  "(x = None \<Longrightarrow> evolves R m) \<Longrightarrow> (\<And>y. x = Some y \<Longrightarrow> evolves R (f y)) \<Longrightarrow> evolves R (case x of None \<Rightarrow> m | Some y \<Rightarrow> f y)"
  by (cases x) simp_all

lemma case_list:
  "(xs = [] \<Longrightarrow> evolves R m) \<Longrightarrow> (\<And>y ys. xs = y # ys \<Longrightarrow> evolves R (f y ys)) \<Longrightarrow>
   evolves R (case xs of [] \<Rightarrow> m | y # ys \<Rightarrow> f y ys)"
  by (cases xs) simp_all

lemma case_prod: "(\<And>a b. z = (a, b) \<Longrightarrow> evolves R (p a b)) \<Longrightarrow> evolves R (case z of (a, b) \<Rightarrow> p a b)"
  by (cases z) simp

lemma keeps: "keeps g m \<Longrightarrow> (\<And>s t. g t = g s \<Longrightarrow> R s t) \<Longrightarrow> evolves R m"
  by (simp add: keeps_def evolves_def)

lemmas steps = bnd basic with_state guarded if_then block for_each try_except case_option case_list case_prod

end

section \<open>Insertion-ordered dictionaries\<close>

type_synonym ('k, 'v) dict = "('k \<times> 'v) list"

definition dict_get :: "('k, 'v) dict \<Rightarrow> 'k \<Rightarrow> 'v option" where
  "dict_get d k = map_of d k"

definition dict_keys :: "('k, 'v) dict \<Rightarrow> 'k list" where
  "dict_keys d = map fst d"

definition dict_values :: "('k, 'v) dict \<Rightarrow> 'v list" where
  "dict_values d = map snd d"

text \<open>\<open>d[k] = v\<close>: an existing key keeps its position, a new one goes last.\<close>

definition dict_set :: "'k \<Rightarrow> 'v \<Rightarrow> ('k, 'v) dict \<Rightarrow> ('k, 'v) dict" where
  "dict_set k v d = AList.update k v d"

definition dict_pop :: "'k \<Rightarrow> ('k, 'v) dict \<Rightarrow> ('k, 'v) dict" where
  "dict_pop k d = AList.delete k d"

text \<open>\<open>dict_adjust\<close>: a mutation of the object stored under a key.\<close>

definition dict_adjust :: "'k \<Rightarrow> ('v \<Rightarrow> 'v) \<Rightarrow> ('k, 'v) dict \<Rightarrow> ('k, 'v) dict" where
  "dict_adjust k f d = map (\<lambda>(k', v). (k', if k' = k then f v else v)) d"

definition dict_wf :: "('k, 'v) dict \<Rightarrow> bool" where
  "dict_wf d \<longleftrightarrow> distinct (dict_keys d)"

lemma dict_get_set [dict_simps]: "dict_get (dict_set k v d) k' = (if k' = k then Some v else dict_get d k')"
  by (simp add: dict_get_def dict_set_def update_conv')

lemma dict_get_pop [dict_simps]: "dict_get (dict_pop k d) k' = (if k' = k then None else dict_get d k')"
  by (simp add: dict_get_def dict_pop_def delete_conv')

lemma dict_get_adjust [dict_simps]:
  "dict_get (dict_adjust k f d) k' = (if k' = k then map_option f (dict_get d k) else dict_get d k')"
  by (induction d) (auto simp: dict_get_def dict_adjust_def)

lemma dict_keys_adjust [simp]: "dict_keys (dict_adjust k f d) = dict_keys d"
  by (induction d) (auto simp: dict_keys_def dict_adjust_def)

lemma length_dict_adjust [simp]: "length (dict_adjust k f d) = length d"
  by (simp add: dict_adjust_def)

lemma dict_keys_set:
  "dict_keys (dict_set k v d) = (if k \<in> set (dict_keys d) then dict_keys d else dict_keys d @ [k])"
  by (simp add: dict_keys_def dict_set_def update_keys)

lemma dict_keys_pop: "dict_keys (dict_pop k d) = filter (\<lambda>k'. k' \<noteq> k) (dict_keys d)"
  by (simp add: dict_keys_def dict_pop_def delete_keys removeAll_filter_not_eq)
    (metis (mono_tags, lifting) filter_cong)

lemma dict_get_None_iff: "dict_get d k = None \<longleftrightarrow> k \<notin> set (dict_keys d)"
  by (auto simp: dict_get_def dict_keys_def map_of_eq_None_iff)

lemma dict_get_Some_key: "dict_get d k = Some v \<Longrightarrow> k \<in> set (dict_keys d)"
  by (metis dict_get_None_iff option.distinct(1))

lemma dict_key_get: "k \<in> set (dict_keys d) \<Longrightarrow> \<exists>v. dict_get d k = Some v"
  by (metis dict_get_None_iff not_None_eq)

lemma dict_get_mem: "dict_wf d \<Longrightarrow> dict_get d k = Some v \<longleftrightarrow> (k, v) \<in> set d"
  by (simp add: dict_wf_def dict_keys_def dict_get_def)

lemma dict_wf_Nil [simp]: "dict_wf []"
  by (simp add: dict_wf_def dict_keys_def)

lemma dict_wf_set [simp]: "dict_wf d \<Longrightarrow> dict_wf (dict_set k v d)"
  by (auto simp: dict_wf_def dict_keys_set)

lemma dict_wf_pop [simp]: "dict_wf d \<Longrightarrow> dict_wf (dict_pop k d)"
  by (simp add: dict_wf_def dict_keys_pop)

lemma dict_wf_adjust [simp]: "dict_wf (dict_adjust k f d) = dict_wf d"
  by (simp add: dict_wf_def)

lemma dict_get_Nil [simp]: "dict_get [] k = None"
  by (simp add: dict_get_def)

text \<open>
  The contract the managers rely on, as a locale: lookups after a store, a removal and an
  in-place mutation, and the order in which the keys come. Its clients' lemmas are proved once
  inside it.
\<close>

locale ordered_dict =
  fixes lookup :: "'d \<Rightarrow> 'k \<Rightarrow> 'v option"
    and store :: "'k \<Rightarrow> 'v \<Rightarrow> 'd \<Rightarrow> 'd"
    and remove :: "'k \<Rightarrow> 'd \<Rightarrow> 'd"
    and adjust :: "'k \<Rightarrow> ('v \<Rightarrow> 'v) \<Rightarrow> 'd \<Rightarrow> 'd"
    and keys :: "'d \<Rightarrow> 'k list"
  assumes lookup_store: "lookup (store k v d) k' = (if k' = k then Some v else lookup d k')"
    and lookup_remove: "lookup (remove k d) k' = (if k' = k then None else lookup d k')"
    and lookup_adjust: "lookup (adjust k f d) k' = (if k' = k then map_option f (lookup d k) else lookup d k')"
    and keys_store: "keys (store k v d) = (if k \<in> set (keys d) then keys d else keys d @ [k])"
    and keys_remove: "keys (remove k d) = filter (\<lambda>k'. k' \<noteq> k) (keys d)"
    and keys_adjust: "keys (adjust k f d) = keys d"
    and lookup_keys: "lookup d k = None \<longleftrightarrow> k \<notin> set (keys d)"
begin

text \<open>Folding a mutation over names touches exactly the entries named, in place.\<close>

lemma keys_fold_adjust: "keys (fold (\<lambda>k. adjust k (f k)) ks d) = keys d"
  by (induction ks arbitrary: d) (auto simp: keys_adjust)

lemma lookup_fold_adjust:
  "distinct ks \<Longrightarrow> lookup (fold (\<lambda>k. adjust k (f k)) ks d) k'
     = (if k' \<in> set ks then map_option (f k') (lookup d k') else lookup d k')"
  by (induction ks arbitrary: d) (auto simp: lookup_adjust)

lemma lookup_fold_adjust_idem:
  assumes "\<And>v. g (g v) = g v"
  shows "lookup (fold (\<lambda>k. adjust k g) ks d) k' = (if k' \<in> set ks then map_option g (lookup d k') else lookup d k')"
  by (induction ks arbitrary: d) (auto simp: lookup_adjust assms option.map_comp comp_def)

lemma lookup_fold_store:
  "lookup (fold (\<lambda>k. store k v) ks d) k' = (if k' \<in> set ks then Some v else lookup d k')"
  by (induction ks arbitrary: d) (auto simp: lookup_store)

lemma keys_fold_store_subset:
  "set ks \<subseteq> set (keys d) \<Longrightarrow> keys (fold (\<lambda>k. store k v) ks d) = keys d"
  by (induction ks arbitrary: d) (auto simp: keys_store)

lemma lookup_fold_remove:
  "lookup (fold remove ks d) k' = (if k' \<in> set ks then None else lookup d k')"
  by (induction ks arbitrary: d) (auto simp: lookup_remove)

lemma store_then_remove: "k \<notin> set (keys d) \<Longrightarrow> keys (remove k (store k v d)) = keys d"
  by (auto simp: keys_store keys_remove filter_id_conv)

end

interpretation pydict: ordered_dict dict_get dict_set dict_pop dict_adjust dict_keys
  by unfold_locales (auto simp: dict_simps dict_keys_set dict_keys_pop dict_get_None_iff)

section \<open>Decimal printing and ceiling division\<close>

fun nat_digits :: "nat \<Rightarrow> string" where
  "nat_digits n = (if n < 10 then [char_of (48 + n)] else nat_digits (n div 10) @ [char_of (48 + n mod 10)])"

declare nat_digits.simps [simp del]

text \<open>\<open>str(i)\<close> on an integer.\<close>

definition py_str_int :: "int \<Rightarrow> string" where
  "py_str_int i = (if i < 0 then CHR ''-'' # nat_digits (nat (- i)) else nat_digits (nat i))"

text \<open>\<open>math.ceil(a / b)\<close> for a positive \<open>b\<close>, on exact quotients.\<close>

definition ceil_div :: "int \<Rightarrow> int \<Rightarrow> int" where
  "ceil_div a b = - ((- a) div b)"

fun digits_value :: "string \<Rightarrow> nat" where
  "digits_value s = foldl (\<lambda>n c. 10 * n + (of_char c - 48)) 0 s"

lemma digits_value_snoc: "digits_value (s @ [c]) = 10 * digits_value s + (of_char c - 48)"
  by simp

declare digits_value.simps [simp del]

lemma of_char_digit: "n < 10 \<Longrightarrow> of_char (char_of (48 + n :: nat)) = 48 + n"
  by simp

lemma nat_digits_value: "digits_value (nat_digits n) = n"
proof (induction n rule: nat_digits.induct)
  case (1 n)
  show ?case
  proof (cases "n < 10")
    case True
    then have "digits_value (nat_digits n) = of_char (char_of (48 + n)) - 48"
      by (simp add: nat_digits.simps [of n] digits_value.simps)
    then show ?thesis using True by (simp add: of_char_digit)
  next
    case False
    then show ?thesis using 1
      by (simp add: nat_digits.simps [of n] digits_value_snoc)
  qed
qed

lemma nat_digits_inj: "nat_digits m = nat_digits n \<Longrightarrow> m = n"
  by (metis nat_digits_value)

lemma nat_digits_first: "\<exists>c cs. nat_digits n = c # cs \<and> (48 :: nat) \<le> of_char c"
proof (induction n rule: nat_digits.induct)
  case (1 n)
  show ?case
  proof (cases "n < 10")
    case True
    then show ?thesis by (simp add: nat_digits.simps [of n])
  next
    case False
    with 1 show ?thesis by (auto simp: nat_digits.simps [of n])
  qed
qed

lemma nat_digits_no_minus: "nat_digits n \<noteq> CHR ''-'' # cs"
  using nat_digits_first [of n] by auto

lemma py_str_int_inj: "py_str_int i = py_str_int j \<Longrightarrow> i = j"
  using nat_digits_no_minus [of "nat i"] nat_digits_no_minus [of "nat j"]
  by (auto simp: py_str_int_def dest!: nat_digits_inj dest: sym split: if_splits)

lemma floor_div_bounds:
  fixes x y :: int
  assumes "0 < y"
  shows "x div y * y \<le> x" "x < x div y * y + y"
  using div_mult_mod_eq [of x y] pos_mod_bound [OF assms, of x] pos_mod_sign [OF assms, of x]
  by linarith+

lemma ceil_div_le: "0 < b \<Longrightarrow> a \<le> ceil_div a b * b"
proof -
  assume "0 < b"
  then have "(- a) div b * b \<le> - a"
    using div_mult_mod_eq [of "- a" b] pos_mod_sign [of b "- a"] by linarith
  then show ?thesis by (simp add: ceil_div_def)
qed

lemma ceil_div_lt: "0 < b \<Longrightarrow> (ceil_div a b - 1) * b < a"
proof -
  assume b: "0 < b"
  have "- a < (- a) div b * b + b"
    using div_mult_mod_eq [of "- a" b] pos_mod_bound [OF b, of "- a"] by linarith
  then show ?thesis by (simp add: ceil_div_def left_diff_distrib)
qed

lemma ceil_div_nonneg: "0 < b \<Longrightarrow> 0 \<le> a \<Longrightarrow> 0 \<le> ceil_div a b"
  using ceil_div_le [of b a] by (metis mult_le_0_iff nle_le order.trans mult_nonneg_nonpos2 linorder_not_le mult_less_0_iff)

lemma ceil_div_pos: "0 < b \<Longrightarrow> 0 < a \<Longrightarrow> 0 < ceil_div a b"
  by (simp add: ceil_div_def pos_imp_zdiv_neg_iff)

lemma ceil_div_ceiling: "0 < b \<Longrightarrow> ceil_div a b = \<lceil>rat_of_int a / rat_of_int b\<rceil>"
proof -
  assume b: "0 < b"
  have "\<lceil>rat_of_int a / rat_of_int b\<rceil> = ceil_div a b"
  proof (rule ceiling_unique)
    show "rat_of_int (ceil_div a b) - 1 < rat_of_int a / rat_of_int b"
      using ceil_div_lt [OF b, of a] b
      by (simp add: pos_less_divide_eq)
        (metis of_int_1 of_int_diff of_int_less_iff of_int_mult)
    show "rat_of_int a / rat_of_int b \<le> rat_of_int (ceil_div a b)"
      using ceil_div_le [OF b, of a] b
      by (simp add: pos_divide_le_eq) (metis of_int_le_iff of_int_mult)
  qed
  then show ?thesis by simp
qed

end
