(* ===== verification/Arith_Utils.thy ===== *)
theory Arith_Utils
  imports Py_Base
begin

text \<open>
  \<open>cosmos_rl/utils/arithmetic.py\<close>: ceiling division, the powers of two around a number, and
  rounding to a multiple. Python's integers are unbounded and \<open>//\<close> rounds towards minus
  infinity, which is \<open>div\<close> on \<open>int\<close>; a zero divisor raises.
\<close>

definition cdiv :: "int \<Rightarrow> int \<Rightarrow> error + int" where
  "cdiv a b = ensure ZeroDivisionError (b \<noteq> 0) (Inr (- (a div - b)))"

text \<open>\<open>int.bit_length\<close> of a non-negative number.\<close>

fun bit_length :: "nat \<Rightarrow> nat" where
  "bit_length n = (if n = 0 then 0 else Suc (bit_length (n div 2)))"

declare bit_length.simps [simp del]

definition next_power_of_2 :: "int \<Rightarrow> int" where
  "next_power_of_2 n = (if n < 1 then 1 else 2 ^ bit_length (nat (n - 1)))"

definition prev_power_of_2 :: "int \<Rightarrow> int" where
  "prev_power_of_2 n = (if n \<le> 0 then 0 else 2 ^ (bit_length (nat n) - 1))"

definition round_up :: "int \<Rightarrow> int \<Rightarrow> error + int" where
  "round_up x y = ensure ZeroDivisionError (y \<noteq> 0) (Inr (((x + y - 1) div y) * y))"

definition round_down :: "int \<Rightarrow> int \<Rightarrow> error + int" where
  "round_down x y = ensure ZeroDivisionError (y \<noteq> 0) (Inr ((x div y) * y))"

section \<open>Bit lengths and powers of two\<close>

lemma bit_length_upper: "n < 2 ^ bit_length n"
proof (induction n rule: bit_length.induct)
  case (1 n)
  show ?case
  proof (cases "n = 0")
    case True
    then show ?thesis by (simp add: bit_length.simps)
  next
    case False
    with 1 have "n div 2 < 2 ^ bit_length (n div 2)" by simp
    then have "n < 2 * 2 ^ bit_length (n div 2)" by linarith
    with False show ?thesis by (simp add: bit_length.simps [of n])
  qed
qed

lemma bit_length_pos: "0 < n \<Longrightarrow> 0 < bit_length n"
  by (subst bit_length.simps) simp

lemma bit_length_lower: "0 < n \<Longrightarrow> 2 ^ (bit_length n - 1) \<le> n"
proof (induction n rule: bit_length.induct)
  case (1 n)
  show ?case
  proof (cases "n div 2 = 0")
    case True
    then have "n = 1" using "1.prems" by linarith
    then show ?thesis by (simp add: bit_length.simps)
  next
    case False
    with 1 have ih: "2 ^ (bit_length (n div 2) - 1) \<le> n div 2" by simp
    have "bit_length n - 1 = Suc (bit_length (n div 2) - 1)"
      using "1.prems" False bit_length_pos [of "n div 2"] by (simp add: bit_length.simps [of n])
    then show ?thesis using ih by simp
  qed
qed

lemma power_of_2_le_iff: "n < 2 ^ k \<Longrightarrow> 2 ^ j \<le> n \<Longrightarrow> (j :: nat) < k" for n :: nat
  by (meson le_less_trans nat_power_less_imp_less pos2)

text \<open>\<open>next_power_of_2\<close> returns the least power of two that is at least \<open>n\<close>.\<close>

theorem next_power_of_2_least:
  assumes "1 \<le> n"
  shows "n \<le> next_power_of_2 n \<and> (\<exists>k. next_power_of_2 n = 2 ^ k)
    \<and> (\<forall>j. n \<le> 2 ^ j \<longrightarrow> next_power_of_2 n \<le> 2 ^ j)"
proof -
  define m where "m = nat (n - 1)"
  have n: "n = int m + 1" using assms by (simp add: m_def)
  have eq: "next_power_of_2 n = 2 ^ bit_length m"
    using assms by (simp add: next_power_of_2_def m_def)
  have "m < 2 ^ bit_length m" by (rule bit_length_upper)
  then have "n \<le> int (2 ^ bit_length m)" using n by linarith
  then have le: "n \<le> 2 ^ bit_length m" by (simp only: of_nat_power of_nat_numeral)
  have least: "2 ^ bit_length m \<le> (2 :: int) ^ j" if j: "n \<le> 2 ^ j" for j
  proof (cases "m = 0")
    case True
    then show ?thesis by (simp add: bit_length.simps)
  next
    case False
    have "n \<le> int (2 ^ j)" using j by (simp only: of_nat_power of_nat_numeral)
    then have "m < 2 ^ j" using n by linarith
    moreover have "2 ^ (bit_length m - 1) \<le> m" using False bit_length_lower [of m] by simp
    ultimately have "bit_length m - 1 < j" by (rule power_of_2_le_iff)
    then show ?thesis by (simp add: power_increasing)
  qed
  show ?thesis using eq le least by auto
qed

theorem next_power_of_2_least_witness:
  "next_power_of_2 37 = 64 \<and> (37 :: int) \<le> next_power_of_2 37"
  using next_power_of_2_least [of 37]
  by (simp add: next_power_of_2_def bit_length.simps)

lemma prev_power_of_2_greatest:
  assumes "1 \<le> n"
  shows "prev_power_of_2 n \<le> n \<and> n < 2 * prev_power_of_2 n"
proof -
  have pos: "0 < nat n" using assms by simp
  have "2 ^ (bit_length (nat n) - 1) \<le> nat n" using pos by (rule bit_length_lower)
  then have "int (2 ^ (bit_length (nat n) - 1)) \<le> n" by (simp add: le_nat_iff)
  moreover have "nat n < 2 * 2 ^ (bit_length (nat n) - 1)"
    using bit_length_upper [of "nat n"] bit_length_pos [OF pos]
    by (metis Suc_pred' power_Suc)
  then have "n < int (2 * 2 ^ (bit_length (nat n) - 1))" using assms by linarith
  ultimately show ?thesis using assms by (simp add: prev_power_of_2_def)
qed

section \<open>Division and rounding\<close>

lemma cdiv_ceil: "0 < b \<Longrightarrow> cdiv a b = Inr (ceil_div a b)"
  by (simp add: cdiv_def ceil_div_def) (metis div_minus_minus minus_minus)

lemma round_down_le: "0 < y \<Longrightarrow> \<exists>r. round_down x y = Inr r \<and> r \<le> x \<and> x < r + y \<and> y dvd r"
  using floor_div_bounds [of y x] by (simp add: round_down_def)

text \<open>\<open>round_up\<close> returns the least multiple of \<open>y\<close> that is at least \<open>x\<close>.\<close>

theorem round_up_least:
  assumes "0 < y"
  shows "\<exists>r. round_up x y = Inr r \<and> x \<le> r \<and> r < x + y \<and> y dvd r
    \<and> (\<forall>m. y dvd m \<and> x \<le> m \<longrightarrow> r \<le> m)"
proof -
  define r where "r = ((x + y - 1) div y) * y"
  have run: "round_up x y = Inr r" using assms by (simp add: round_up_def r_def)
  have lo: "x \<le> r" and hi: "r < x + y"
    using floor_div_bounds [OF assms, of "x + y - 1"] by (simp_all add: r_def)
  have "r \<le> m" if m: "y dvd m" "x \<le> m" for m
  proof -
    have "r - m < y" using hi m(2) by linarith
    moreover have "y dvd r - m" using m(1) by (simp add: r_def)
    ultimately show ?thesis using assms zdvd_imp_le [of y "r - m"] by linarith
  qed
  then show ?thesis using run lo hi by (auto simp: r_def)
qed

theorem round_up_least_witness: "\<exists>r. round_up 37 8 = Inr r \<and> (37 :: int) \<le> r \<and> r = 40"
  using round_up_least [of 8 37] by (simp add: round_up_def)

end
