(* ===== verification/Dim_Slice.thy ===== *)
theory Dim_Slice
  imports Py_Base
begin

text \<open>
  \<open>cosmos_rl/utils/dim_slice_info.py\<close>: the arithmetic behind peer-to-peer weight transfer. A shard of
  a tensor along one dimension is a slice \<open>offset/total_size\<close> of \<open>slen\<close> units; the overlap of
  a policy shard with a rollout shard is computed by bringing both to a common denominator,
  intersecting, and expressing the intersection relative to each side. The last part shows that
  the two relative slices select the same elements of the global dimension.
\<close>

section \<open>Slices\<close>

record slice =
  offset :: int
  total_size :: int
  dim :: string
  slen :: int

text \<open>The dictionaries slices are sent as; a key may be absent.\<close>

record slice_dict =
  d_offset :: "int option"
  d_total_size :: "int option"
  d_dim :: "string option"
  d_length :: "int option"

definition mk_slice :: "int \<Rightarrow> int \<Rightarrow> string \<Rightarrow> int \<Rightarrow> slice" where
  "mk_slice off tot d len = \<lparr>offset = off, total_size = tot, dim = d, slen = len\<rparr>"

definition to_dict :: "slice \<Rightarrow> slice_dict" where
  "to_dict s = \<lparr>d_offset = Some (offset s), d_total_size = Some (total_size s),
     d_dim = Some (dim s), d_length = Some (slen s)\<rparr>"

definition from_dict :: "slice_dict \<Rightarrow> error + slice" where
  "from_dict d =
     (case d_offset d of None \<Rightarrow> Inl KeyError
      | Some off \<Rightarrow> (case d_total_size d of None \<Rightarrow> Inl KeyError
      | Some tot \<Rightarrow>
          Inr (mk_slice off tot
                 (case d_dim d of None \<Rightarrow> [] | Some n \<Rightarrow> n)
                 (case d_length d of None \<Rightarrow> 1 | Some l \<Rightarrow> l))))"

definition simplify :: "slice \<Rightarrow> error + slice" where
  "simplify s =
     (let common = gcd (gcd (offset s) (total_size s)) (slen s) in
      ensure ZeroDivisionError (common \<noteq> 0)
        (Inr (mk_slice (offset s div common) (total_size s div common) (dim s) (slen s div common))))"

section \<open>Slicing a tensor\<close>

text \<open>A tensor as its shape and its elements by index; a view reads the base tensor's elements.\<close>

record 'a tensor =
  shape :: "int list"
  elems :: "int list \<Rightarrow> 'a"

text \<open>Python's clamping of \<open>slice(start, stop)\<close> over a dimension of \<open>n\<close> elements.\<close>

definition slice_bound :: "int \<Rightarrow> int \<Rightarrow> int" where
  "slice_bound n i = (if i < 0 then max 0 (n + i) else min n i)"

definition narrow :: "nat \<Rightarrow> int \<Rightarrow> int \<Rightarrow> 'a tensor \<Rightarrow> 'a tensor" where
  "narrow idx start stop t =
     (let n = shape t ! idx; lo = slice_bound n start; hi = slice_bound n stop in
      \<lparr>shape = (shape t)[idx := max 0 (hi - lo)],
       elems = (\<lambda>ix. elems t (ix[idx := ix ! idx + lo]))\<rparr>)"

definition slice_tensor_with_strategy :: "'a tensor \<Rightarrow> nat \<Rightarrow> slice \<Rightarrow> error + 'a tensor" where
  "slice_tensor_with_strategy view idx st =
     ensure IndexError (idx < length (shape view))
     (ensure ZeroDivisionError (total_size st \<noteq> 0)
     (ensure AssertionError (shape view ! idx mod total_size st = 0)
       (let start = shape view ! idx div total_size st * offset st;
            len = shape view ! idx div total_size st * slen st
        in Inr (narrow idx start (start + len) view))))"

text \<open>A strategy is a slice or the dictionary of one.\<close>

definition slice_tensor_with_strategies :: "'a tensor \<Rightarrow> (nat \<times> (slice_dict + slice)) list \<Rightarrow> error + 'a tensor" where
  "slice_tensor_with_strategies t strategies =
     efold (\<lambda>(idx, split) view.
        ebind (case split of Inl d \<Rightarrow> from_dict d | Inr s \<Rightarrow> Inr s)
          (\<lambda>s. slice_tensor_with_strategy view idx s)) strategies t"

section \<open>Overlaps\<close>

definition get_unified_rank_info :: "slice \<Rightarrow> slice \<Rightarrow> error + (slice \<times> slice)" where
  "get_unified_rank_info a b =
     (let size = max (total_size a) (total_size b) in
      ensure ZeroDivisionError (total_size a \<noteq> 0)
      (ensure AssertionError (size mod total_size a = 0)
      (ensure ZeroDivisionError (total_size b \<noteq> 0)
      (ensure AssertionError (size mod total_size b = 0)
        (let scale_a = size div total_size a;
             scale_b = size div total_size b
         in Inr (mk_slice (offset a * scale_a) (total_size a * scale_a) (dim a) (slen a * scale_a),
                 mk_slice (offset b * scale_b) (total_size b * scale_b) (dim b) (slen b * scale_b)))))))"

definition rank_overlap :: "slice \<Rightarrow> slice \<Rightarrow> error + slice option" where
  "rank_overlap a b =
     ebind (get_unified_rank_info a b) (\<lambda>(a_new, b_new).
       ensure AssertionError (total_size a_new = total_size b_new)
         (let left = max (offset a_new) (offset b_new);
              right = min (offset a_new + slen a_new) (offset b_new + slen b_new)
          in Inr (if left < right
                  then Some (mk_slice left (total_size a_new) (dim a_new) (right - left))
                  else None)))"

definition relative_rank :: "slice \<Rightarrow> slice \<Rightarrow> error + slice" where
  "relative_rank smaller larger =
     ebind (get_unified_rank_info smaller larger) (\<lambda>(s, l).
       ensure AssertionError (offset s \<ge> offset l)
       (ensure AssertionError (offset s + slen s \<le> offset l + slen l)
         (Inr (mk_slice (offset s - offset l) (slen l) (dim s) (slen s)))))"

definition merge_rank :: "slice \<Rightarrow> slice \<Rightarrow> error + slice" where
  "merge_rank outter inner =
     ensure AssertionError (slen outter = 1 \<or> slen outter = 0)
       (Inr (mk_slice (offset outter * total_size inner + offset inner)
               (total_size outter * total_size inner) (dim outter) (slen inner * slen outter)))"

definition tensor_overlap_info_at_dim ::
  "(nat \<rightharpoonup> slice) \<Rightarrow> (nat \<rightharpoonup> slice) \<Rightarrow> nat \<Rightarrow> error + (slice \<times> slice) option" where
  "tensor_overlap_info_at_dim policy_rank rollout_rank d =
     (let p = (case policy_rank d of None \<Rightarrow> mk_slice 0 1 [] 1 | Some p \<Rightarrow> p);
          r = (case rollout_rank d of None \<Rightarrow> mk_slice 0 1 [] 1 | Some r \<Rightarrow> r) in
      ebind (get_unified_rank_info p r) (\<lambda>(p_new, r_new).
      ebind (rank_overlap p_new r_new) (\<lambda>ov.
        case ov of
          None \<Rightarrow> Inr None
        | Some overlap \<Rightarrow>
            ebind (relative_rank overlap r_new) (\<lambda>overlap_r.
            ebind (relative_rank overlap p_new) (\<lambda>overlap_p.
            ebind (simplify overlap_p) (\<lambda>sp.
            ebind (simplify overlap_r) (\<lambda>sr.
              Inr (Some (sp, sr)))))))))"

section \<open>Shards of a distributed tensor\<close>

datatype placement = Shard nat | Strided_Shard nat | Replicate | Other_Placement

text \<open>What the code reads of a \<open>torch\<close> tensor; \<open>placements\<close> onward exist on a DTensor only.\<close>

record param_meta =
  is_dtensor :: bool
  global_shape :: "int list"
  mesh_dim_names :: "string list"
  placements :: "placement list"
  chunks :: "(int list \<times> int list) list"
  local_rank :: nat

fun placement_dims :: "(string \<times> placement) list \<Rightarrow> (string, nat) dict \<Rightarrow> error + (string, nat) dict" where
  "placement_dims [] dims = Inr dims"
| "placement_dims ((n, Shard d) # ps) dims = placement_dims ps (dict_set n d dims)"
| "placement_dims ((n, Strided_Shard d) # ps) dims = placement_dims ps (dict_set n d dims)"
| "placement_dims ((n, Replicate) # ps) dims = placement_dims ps dims"
| "placement_dims ((n, Other_Placement) # ps) dims = Inl ValueError"

fun dims_rank_info :: "nat \<Rightarrow> (int \<times> int \<times> int) list \<Rightarrow> (nat, slice_dict) dict \<Rightarrow> error + (nat, slice_dict) dict" where
  "dims_rank_info idx [] info = Inr info"
| "dims_rank_info idx ((g_size, off, len) # rest) info =
     (if g_size = len
      then ensure AssertionError (off = 0) (dims_rank_info (Suc idx) rest info)
      else dims_rank_info (Suc idx) rest (dict_set idx (to_dict (mk_slice off g_size [] len)) info))"

definition extract_infomation_from_dtensor ::
  "param_meta \<Rightarrow> error + ((nat, slice_dict) dict \<times> (string, nat) dict)" where
  "extract_infomation_from_dtensor param =
     (if \<not> is_dtensor param then Inr ([], [])
      else ensure AssertionError (length (placements param) = length (mesh_dim_names param))
        (ebind (placement_dims (zip (mesh_dim_names param) (placements param)) []) (\<lambda>dims_map.
          ensure AssertionError (length (chunks param) = 1)
          (let (offsets, sizes) = hd (chunks param) in
           ensure AssertionError
             (length offsets = length sizes \<and> length sizes = length (global_shape param)
              \<and> length (global_shape param) = local_rank param)
             (ebind (dims_rank_info 0 (zip (global_shape param) (zip offsets sizes)) []) (\<lambda>info.
                Inr (info, dims_map)))))))"

section \<open>Merging consecutive dimensions\<close>

text \<open>
  \<open>merged\<close> maps a dimension to the size of its group and the group; the second loop emits a
  group's size at its first dimension and skips the others.
\<close>

fun group_size_of :: "int list \<Rightarrow> nat list \<Rightarrow> error + int" where
  "group_size_of sh [] = Inr 1"
| "group_size_of sh (i # is) =
     ensure IndexError (i < length sh) (ebind (group_size_of sh is) (\<lambda>m. Inr (sh ! i * m)))"

fun merged_dims :: "int list \<Rightarrow> nat list list \<Rightarrow> (nat, int \<times> nat list) dict \<Rightarrow> error + (nat, int \<times> nat list) dict" where
  "merged_dims sh [] merged = Inr merged"
| "merged_dims sh (dims # rest) merged =
     ebind (group_size_of sh dims) (\<lambda>merged_size.
       merged_dims sh rest (fold (\<lambda>i. dict_set i (merged_size, dims)) dims merged))"

fun new_shape :: "int list \<Rightarrow> (nat, int \<times> nat list) dict \<Rightarrow> nat list \<Rightarrow> nat set \<Rightarrow> int list" where
  "new_shape sh merged [] handled = []"
| "new_shape sh merged (i # is) handled =
     (case dict_get merged i of
        Some (sz, dims) \<Rightarrow>
          (if i \<notin> handled then sz # new_shape sh merged is (handled \<union> set dims)
           else new_shape sh merged is handled)
      | None \<Rightarrow> sh ! i # new_shape sh merged is handled)"

definition merge_continuous_dims :: "int list \<Rightarrow> nat list list \<Rightarrow> error + int list" where
  "merge_continuous_dims sh dims_list =
     ebind (merged_dims sh dims_list []) (\<lambda>merged. Inr (new_shape sh merged [0..<length sh] {}))"

section \<open>What a slice selects\<close>

definition valid_slice :: "slice \<Rightarrow> bool" where
  "valid_slice s \<longleftrightarrow> 0 < total_size s \<and> 0 \<le> offset s \<and> 0 \<le> slen s \<and> offset s + slen s \<le> total_size s"

text \<open>A slice of a dimension with \<open>n\<close> elements starts at \<open>start_of\<close> and has \<open>count_of\<close> elements.\<close>

definition start_of :: "int \<Rightarrow> slice \<Rightarrow> int" where
  "start_of n s = n div total_size s * offset s"

definition count_of :: "int \<Rightarrow> slice \<Rightarrow> int" where
  "count_of n s = n div total_size s * slen s"

definition window :: "nat \<Rightarrow> int \<Rightarrow> int \<Rightarrow> 'a tensor \<Rightarrow> 'a tensor" where
  "window d lo len t =
     \<lparr>shape = (shape t)[d := len], elems = (\<lambda>ix. elems t (ix[d := ix ! d + lo]))\<rparr>"

lemma window_window: "window d lo2 len2 (window d lo1 len1 t) = window d (lo1 + lo2) len2 t"
proof -
  have "ix[d := ix ! d + lo2, d := ix[d := ix ! d + lo2] ! d + lo1] = ix[d := ix ! d + (lo1 + lo2)]"
    for ix :: "int list"
    by (cases "d < length ix") (simp_all add: list_update_beyond add.assoc add.commute)
  then show ?thesis by (simp add: window_def)
qed

lemma from_dict_to_dict: "from_dict (to_dict s) = Inr s"
  by (simp add: from_dict_def to_dict_def mk_slice_def)

lemma slice_end_le:
  assumes "valid_slice s" "total_size s dvd n" "0 \<le> n"
  shows "0 \<le> start_of n s" "0 \<le> count_of n s" "start_of n s + count_of n s \<le> n"
proof -
  have q: "0 \<le> n div total_size s"
    using assms by (simp add: valid_slice_def pos_imp_zdiv_nonneg_iff)
  show "0 \<le> start_of n s" "0 \<le> count_of n s"
    using q assms(1) by (simp_all add: start_of_def count_of_def valid_slice_def)
  have "n div total_size s * (offset s + slen s) \<le> n div total_size s * total_size s"
    using q assms(1) by (intro mult_left_mono) (auto simp: valid_slice_def)
  then show "start_of n s + count_of n s \<le> n"
    using assms(2) by (simp add: start_of_def count_of_def distrib_left)
qed

lemma slice_tensor_run:
  assumes "d < length (shape t)" and s: "valid_slice s" "total_size s dvd shape t ! d" "0 \<le> shape t ! d"
  shows "slice_tensor_with_strategy t d s
     = Inr (window d (start_of (shape t ! d) s) (count_of (shape t ! d) s) t)"
  using assms(1) s slice_end_le [OF s]
  by (simp add: slice_tensor_with_strategy_def narrow_def window_def slice_bound_def start_of_def
      count_of_def valid_slice_def ensure_def dvd_imp_mod_0 Let_def)

section \<open>Correctness of the overlap\<close>

definition rank_at :: "(nat \<rightharpoonup> slice) \<Rightarrow> nat \<Rightarrow> slice" where
  "rank_at m d = (case m d of None \<Rightarrow> mk_slice 0 1 [] 1 | Some s \<Rightarrow> s)"

definition compatible :: "slice \<Rightarrow> slice \<Rightarrow> bool" where
  "compatible a b \<longleftrightarrow> total_size a dvd total_size b \<or> total_size b dvd total_size a"

lemma unify_run:
  assumes "valid_slice a" "valid_slice b" "compatible a b"
  defines "T \<equiv> max (total_size a) (total_size b)"
  shows "get_unified_rank_info a b =
    Inr (mk_slice (offset a * (T div total_size a)) T (dim a) (slen a * (T div total_size a)),
         mk_slice (offset b * (T div total_size b)) T (dim b) (slen b * (T div total_size b)))"
    and "total_size a dvd T" "total_size b dvd T"
proof -
  have ab: "total_size a dvd T" "total_size b dvd T"
    using assms(1-3) zdvd_imp_le [of "total_size a" "total_size b"] zdvd_imp_le [of "total_size b" "total_size a"]
    by (auto simp: T_def compatible_def valid_slice_def max_def)
  then show "total_size a dvd T" "total_size b dvd T" .
  show "get_unified_rank_info a b =
    Inr (mk_slice (offset a * (T div total_size a)) T (dim a) (slen a * (T div total_size a)),
         mk_slice (offset b * (T div total_size b)) T (dim b) (slen b * (T div total_size b)))"
    using assms(1,2) ab
    by (simp add: get_unified_rank_info_def T_def [symmetric] valid_slice_def ensure_def Let_def dvd_imp_mod_0)
qed

definition scaled :: "int \<Rightarrow> slice \<Rightarrow> slice" where
  "scaled T s = mk_slice (offset s * (T div total_size s)) T (dim s) (slen s * (T div total_size s))"

lemma mk_slice_sel [simp]:
  "offset (mk_slice off tot d l) = off" "total_size (mk_slice off tot d l) = tot"
  "dim (mk_slice off tot d l) = d" "slen (mk_slice off tot d l) = l"
  by (simp_all add: mk_slice_def)

lemma scaled_valid:
  assumes "valid_slice s" "total_size s dvd T" "0 < T"
  shows "valid_slice (scaled T s)" "total_size (scaled T s) = T"
proof -
  obtain k where k: "T = total_size s * k" using assms(2) by (auto simp: dvd_def)
  with assms have "0 < k" by (auto simp: valid_slice_def zero_less_mult_iff)
  moreover have "(offset s + slen s) * k \<le> total_size s * k"
    using assms(1) \<open>0 < k\<close> by (intro mult_right_mono) (auto simp: valid_slice_def)
  ultimately show "valid_slice (scaled T s)" "total_size (scaled T s) = T"
    using assms(1,3) k by (auto simp: scaled_def valid_slice_def distrib_right)
qed

lemma scaled_same:
  assumes "total_size s dvd T" "T dvd n" "0 < T" "valid_slice s"
  shows "start_of n (scaled T s) = start_of n s" "count_of n (scaled T s) = count_of n s"
proof -
  have "n div total_size s = (n div T) * (T div total_size s)"
    using assms(1,2,3) by (auto simp: dvd_def)
  then show "start_of n (scaled T s) = start_of n s" "count_of n (scaled T s) = count_of n s"
    by (simp_all add: start_of_def count_of_def scaled_def mult.assoc mult.commute mult.left_commute)
qed

text \<open>Lowest terms: a simplified slice selects the same elements of any dimension it is used on.\<close>

lemma simplify_run:
  assumes "valid_slice s" "0 \<le> u"
  shows "\<exists>s'. simplify s = Inr s' \<and> valid_slice s' \<and> total_size s' dvd u * total_size s
    \<and> start_of (u * total_size s) s' = u * offset s \<and> count_of (u * total_size s) s' = u * slen s"
proof -
  define g where "g = gcd (gcd (offset s) (total_size s)) (slen s)"
  have g: "0 < g" using assms(1) by (simp add: g_def valid_slice_def)
  obtain o' t' l' where eqs: "offset s = g * o'" "total_size s = g * t'" "slen s = g * l'"
    unfolding g_def by (metis dvd_def gcd_dvd1 gcd_dvd2 dvd_trans)
  have t': "0 < t'" using assms(1) g eqs by (simp add: valid_slice_def zero_less_mult_iff)
  have divs: "offset s div g = o'" "total_size s div g = t'" "slen s div g = l'" using g eqs by simp_all
  have run: "simplify s = Inr (mk_slice o' t' (dim s) l')"
    using g divs by (simp add: simplify_def g_def [symmetric] Let_def)
  have valid: "valid_slice (mk_slice o' t' (dim s) l')"
    using assms(1) g t' eqs
    by (auto simp: valid_slice_def zero_le_mult_iff distrib_left [symmetric] simp del: distrib_left)
  have "u * (g * t') div t' = u * g" using t' by (simp add: mult.assoc [symmetric])
  then show ?thesis using run valid eqs
    by (intro exI [of _ "mk_slice o' t' (dim s) l'"]) (simp add: start_of_def count_of_def mult.assoc)
qed

text \<open>Two slices over the same denominator are already unified.\<close>

lemma unify_same:
  assumes "valid_slice a" "valid_slice b" "total_size a = total_size b"
  shows "get_unified_rank_info a b = Inr (a, b)"
  using assms unify_run(1) [of a b]
  by (simp add: compatible_def valid_slice_def mk_slice_def)

definition overlap_of :: "slice \<Rightarrow> slice \<Rightarrow> slice option" where
  "overlap_of a b =
     (let left = max (offset a) (offset b); right = min (offset a + slen a) (offset b + slen b) in
      if left < right then Some (mk_slice left (total_size a) (dim a) (right - left)) else None)"

lemma rank_overlap_same:
  assumes "valid_slice a" "valid_slice b" "total_size a = total_size b"
  shows "rank_overlap a b = Inr (overlap_of a b)"
  using assms by (simp add: rank_overlap_def unify_same overlap_of_def Let_def)

lemma overlap_of_valid:
  assumes "valid_slice a" "valid_slice b" "overlap_of a b = Some ov"
  shows "valid_slice ov" "total_size ov = total_size a"
    "offset a \<le> offset ov" "offset ov + slen ov \<le> offset a + slen a"
    "offset b \<le> offset ov" "offset ov + slen ov \<le> offset b + slen b"
  using assms by (auto simp: overlap_of_def valid_slice_def Let_def split: if_splits)

text \<open>A relative slice, simplified, addresses its elements inside the larger one.\<close>

lemma relative_simplified:
  assumes ov: "valid_slice ov" and l: "valid_slice l" and tot: "total_size ov = total_size l"
    and inside: "offset l \<le> offset ov" "offset ov + slen ov \<le> offset l + slen l" "0 < slen ov"
    and n: "total_size l dvd n" "0 \<le> n"
  shows "\<exists>r s. relative_rank ov l = Inr r \<and> simplify r = Inr s \<and> valid_slice s
    \<and> total_size s dvd count_of n l
    \<and> start_of n l + start_of (count_of n l) s = start_of n ov
    \<and> count_of (count_of n l) s = count_of n ov"
proof -
  define r where "r = mk_slice (offset ov - offset l) (slen l) (dim ov) (slen ov)"
  have run: "relative_rank ov l = Inr r"
    using ov l tot inside by (simp add: relative_rank_def unify_same r_def)
  have valid: "valid_slice r" using ov l inside by (auto simp: r_def valid_slice_def)
  have u: "0 \<le> n div total_size l"
    using l n(2) by (simp add: valid_slice_def pos_imp_zdiv_nonneg_iff)
  from simplify_run [OF valid u] obtain s where s: "simplify r = Inr s" "valid_slice s"
    "total_size s dvd n div total_size l * slen l"
    "start_of (n div total_size l * slen l) s = n div total_size l * (offset ov - offset l)"
    "count_of (n div total_size l * slen l) s = n div total_size l * slen ov"
    by (auto simp: r_def)
  then show ?thesis using run tot
    by (intro exI [of _ r] exI [of _ s]) (auto simp: start_of_def count_of_def right_diff_distrib)
qed

lemma overlap_of_positive: "overlap_of a b = Some ov \<Longrightarrow> 0 < slen ov"
  by (auto simp: overlap_of_def Let_def split: if_splits)

definition covers :: "int \<Rightarrow> slice \<Rightarrow> int set" where
  "covers n s = {start_of n s ..< start_of n s + count_of n s}"

lemma scale_interval:
  fixes u :: int
  assumes "0 < u"
  shows "{u * a ..< u * b} \<inter> {u * c ..< u * d} = {u * max a c ..< u * min b d}"
proof -
  have "max (u * a) (u * c) = u * max a c" "min (u * b) (u * d) = u * min b d"
    using assms by (simp_all add: max_def min_def)
  then show ?thesis by (simp add: Int_atLeastLessThan)
qed

lemma overlap_covers:
  assumes a: "valid_slice a" "valid_slice b" "total_size a = total_size b"
    and n: "total_size a dvd n" "0 < n"
  shows "covers n a \<inter> covers n b = (case overlap_of a b of None \<Rightarrow> {} | Some ov \<Rightarrow> covers n ov)"
proof -
  define u where "u = n div total_size a"
  have u: "0 < u"
    using a(1) n by (auto simp: u_def valid_slice_def dvd_def zero_less_mult_iff)
  have ub: "n div total_size b = u" using a(3) by (simp add: u_def)
  have "covers n a \<inter> covers n b
      = {u * max (offset a) (offset b) ..< u * min (offset a + slen a) (offset b + slen b)}"
    unfolding covers_def start_of_def count_of_def ub u_def [symmetric] distrib_left [symmetric]
    by (rule scale_interval [OF u])
  then show ?thesis using u
    by (auto simp: overlap_of_def Let_def covers_def start_of_def count_of_def u_def [symmetric]
        distrib_left [symmetric] simp del: distrib_left)
qed

text \<open>The whole computation at one dimension, for shards whose denominators fit together.\<close>

lemma tensor_overlap_run:
  assumes p: "valid_slice (rank_at P d)" and r: "valid_slice (rank_at R d)"
    and pr: "compatible (rank_at P d) (rank_at R d)"
    and n: "total_size (rank_at P d) dvd n" "total_size (rank_at R d) dvd n" "0 < n"
  defines "p \<equiv> rank_at P d" and "r \<equiv> rank_at R d"
  shows "(tensor_overlap_info_at_dim P R d = Inr None \<and> covers n p \<inter> covers n r = {}) \<or>
    (\<exists>sp sr. tensor_overlap_info_at_dim P R d = Inr (Some (sp, sr))
       \<and> valid_slice sp \<and> valid_slice sr
       \<and> total_size sp dvd count_of n p \<and> total_size sr dvd count_of n r
       \<and> start_of n p + start_of (count_of n p) sp = start_of n r + start_of (count_of n r) sr
       \<and> count_of (count_of n p) sp = count_of (count_of n r) sr
       \<and> covers n p \<inter> covers n r
           = {start_of n p + start_of (count_of n p) sp ..<
              start_of n p + start_of (count_of n p) sp + count_of (count_of n p) sp})"
proof -
  define T where "T = max (total_size p) (total_size r)"
  have pv: "valid_slice p" "valid_slice r" "compatible p r" using p r pr by (simp_all add: p_def r_def)
  have pn: "total_size p dvd n" "total_size r dvd n" using n by (simp_all add: p_def r_def)
  note up = unify_run [OF pv, folded T_def]
  have T: "0 < T" "T dvd n" using pv pn by (auto simp: T_def valid_slice_def max_def)
  define p' where "p' = scaled T p"
  define r' where "r' = scaled T r"
  have unified: "get_unified_rank_info p r = Inr (p', r')"
    using up(1) by (simp add: p'_def r'_def scaled_def)
  have valid: "valid_slice p'" "valid_slice r'" and tot: "total_size p' = T" "total_size r' = T"
    using scaled_valid [OF pv(1) up(2) T(1)] scaled_valid [OF pv(2) up(3) T(1)]
    by (simp_all add: p'_def r'_def)
  have same: "start_of n p' = start_of n p" "count_of n p' = count_of n p"
    "start_of n r' = start_of n r" "count_of n r' = count_of n r"
    using scaled_same [OF up(2) T(2,1) pv(1)] scaled_same [OF up(3) T(2,1) pv(2)]
    by (simp_all add: p'_def r'_def)
  have cov: "covers n p \<inter> covers n r = (case overlap_of p' r' of None \<Rightarrow> {} | Some ov \<Rightarrow> covers n ov)"
    using overlap_covers [of p' r' n] valid tot T n(3) same by (simp add: covers_def)
  have ov_run: "rank_overlap p' r' = Inr (overlap_of p' r')"
    using rank_overlap_same valid tot by simp
  have start: "tensor_overlap_info_at_dim P R d =
     (case overlap_of p' r' of None \<Rightarrow> Inr None | Some ov \<Rightarrow>
       ebind (relative_rank ov r') (\<lambda>overlap_r. ebind (relative_rank ov p') (\<lambda>overlap_p.
       ebind (simplify overlap_p) (\<lambda>sp. ebind (simplify overlap_r) (\<lambda>sr. Inr (Some (sp, sr)))))))"
    using unified ov_run
    by (simp add: tensor_overlap_info_at_dim_def p_def r_def rank_at_def Let_def mk_slice_def cong: option.case_cong)
  show ?thesis
  proof (cases "overlap_of p' r'")
    case None
    then show ?thesis using start cov by simp
  next
    case (Some ov)
    note ov = overlap_of_valid [OF valid Some] overlap_of_positive [OF Some]
    obtain rr sr where R: "relative_rank ov r' = Inr rr" "simplify rr = Inr sr" "valid_slice sr"
      "total_size sr dvd count_of n r'" "start_of n r' + start_of (count_of n r') sr = start_of n ov"
      "count_of (count_of n r') sr = count_of n ov"
      using relative_simplified [of ov r' n] ov valid tot T n by auto
    obtain rp sp where Pp: "relative_rank ov p' = Inr rp" "simplify rp = Inr sp" "valid_slice sp"
      "total_size sp dvd count_of n p'" "start_of n p' + start_of (count_of n p') sp = start_of n ov"
      "count_of (count_of n p') sp = count_of n ov"
      using relative_simplified [of ov p' n] ov valid tot T n by auto
    have "tensor_overlap_info_at_dim P R d = Inr (Some (sp, sr))"
      using start Some R Pp by simp
    then show ?thesis using R Pp same cov Some by (auto simp: covers_def)
  qed
qed

section \<open>The two ends of a transfer agree\<close>

lemma slice_of_window:
  assumes "d < length (shape t)" "valid_slice s" "total_size s dvd len" "0 \<le> len"
  shows "slice_tensor_with_strategy (window d lo len t) d s
    = Inr (window d (lo + start_of len s) (count_of len s) t)"
proof -
  have "shape (window d lo len t) ! d = len" "d < length (shape (window d lo len t))"
    using assms(1) by (simp_all add: window_def)
  then show ?thesis using slice_tensor_run [of d "window d lo len t" s] assms(2-)
    by (simp add: window_window)
qed

text \<open>The slices the planner computes for the sender and the receiver at one dimension select
  the very same elements of the full tensor out of each side's local shard (a refinement of the
  intersection of the two shards), and it reports no overlap only when the shards are disjoint.\<close>

theorem transfer_consistent:
  fixes g :: "'a tensor"
  assumes "d < length (shape g)" "0 < shape g ! d"
    and "valid_slice (rank_at P d)" "valid_slice (rank_at R d)" "compatible (rank_at P d) (rank_at R d)"
    and "total_size (rank_at P d) dvd shape g ! d" "total_size (rank_at R d) dvd shape g ! d"
  shows "\<exists>vp vr. slice_tensor_with_strategy g d (rank_at P d) = Inr vp
    \<and> slice_tensor_with_strategy g d (rank_at R d) = Inr vr
    \<and> (case tensor_overlap_info_at_dim P R d of
         Inl e \<Rightarrow> False
       | Inr None \<Rightarrow> covers (shape g ! d) (rank_at P d) \<inter> covers (shape g ! d) (rank_at R d) = {}
       | Inr (Some (sp, sr)) \<Rightarrow>
           (\<exists>t. slice_tensor_with_strategy vp d sp = Inr t \<and> slice_tensor_with_strategy vr d sr = Inr t
              \<and> shape t ! d = int (card (covers (shape g ! d) (rank_at P d) \<inter> covers (shape g ! d) (rank_at R d)))))"
proof -
  define n where "n = shape g ! d"
  define p where "p = rank_at P d"
  define r where "r = rank_at R d"
  have n: "0 < n" using assms(2) by (simp add: n_def)
  have pr: "valid_slice p" "valid_slice r" "total_size p dvd n" "total_size r dvd n"
    using assms by (simp_all add: n_def p_def r_def)
  have run: "slice_tensor_with_strategy g d p = Inr (window d (start_of n p) (count_of n p) g)"
    "slice_tensor_with_strategy g d r = Inr (window d (start_of n r) (count_of n r) g)"
    using slice_tensor_run [OF assms(1)] pr n by (simp_all add: n_def)
  have nonneg: "0 \<le> count_of n p" "0 \<le> count_of n r"
    using slice_end_le [OF pr(1,3)] slice_end_le [OF pr(2,4)] n by simp_all
  consider (none) "tensor_overlap_info_at_dim P R d = Inr None" "covers n p \<inter> covers n r = {}"
    | (some) sp sr where "tensor_overlap_info_at_dim P R d = Inr (Some (sp, sr))"
       "valid_slice sp" "valid_slice sr" "total_size sp dvd count_of n p" "total_size sr dvd count_of n r"
       "start_of n p + start_of (count_of n p) sp = start_of n r + start_of (count_of n r) sr"
       "count_of (count_of n p) sp = count_of (count_of n r) sr"
       "covers n p \<inter> covers n r = {start_of n p + start_of (count_of n p) sp ..<
              start_of n p + start_of (count_of n p) sp + count_of (count_of n p) sp}"
    using tensor_overlap_run [of P d R n] assms n by (auto simp: n_def p_def r_def)
  then show ?thesis
  proof cases
    case none
    then show ?thesis using run by (simp add: n_def p_def r_def)
  next
    case some
    define t where "t = window d (start_of n p + start_of (count_of n p) sp) (count_of (count_of n p) sp) g"
    have "0 \<le> count_of (count_of n p) sp"
      using slice_end_le(2) [OF some(2,4) nonneg(1)] .
    then have "shape t ! d = int (card (covers n p \<inter> covers n r))"
      using some(8) assms(1) by (simp add: t_def window_def)
    moreover have "slice_tensor_with_strategy (window d (start_of n p) (count_of n p) g) d sp = Inr t"
      using slice_of_window [OF assms(1) some(2,4) nonneg(1)] by (simp add: t_def)
    moreover have "slice_tensor_with_strategy (window d (start_of n r) (count_of n r) g) d sr = Inr t"
      using slice_of_window [OF assms(1) some(3,5) nonneg(2)] some(6,7) by (simp add: t_def)
    ultimately show ?thesis using run some(1) by (simp add: n_def p_def r_def)
  qed
qed

theorem transfer_consistent_witness:
  "\<exists>sp sr t. tensor_overlap_info_at_dim [0 \<mapsto> mk_slice 1 2 [] 1] [0 \<mapsto> mk_slice 2 4 [] 1] 0 = Inr (Some (sp, sr))
     \<and> shape (t :: int tensor) ! 0 = 2"
proof -
  let ?P = "[0 \<mapsto> mk_slice 1 2 [] 1] :: nat \<rightharpoonup> slice" and ?R = "[0 \<mapsto> mk_slice 2 4 [] 1] :: nat \<rightharpoonup> slice"
  let ?g = "\<lparr>shape = [8, 3], elems = (\<lambda>ix. ix ! 0)\<rparr> :: int tensor"
  have run: "tensor_overlap_info_at_dim ?P ?R 0 = Inr (Some (mk_slice 0 2 [] 1, mk_slice 0 1 [] 1))"
    by (simp add: tensor_overlap_info_at_dim_def get_unified_rank_info_def rank_overlap_def
        relative_rank_def simplify_def ensure_def Let_def)
  have cov: "covers 8 (rank_at ?P 0) \<inter> covers 8 (rank_at ?R 0) = {4 ..< 6}"
    by (simp add: covers_def start_of_def count_of_def rank_at_def)
  have "\<exists>t :: int tensor. shape t ! 0 = 2"
    using transfer_consistent [of 0 ?g ?P ?R] run cov
    by (auto simp: rank_at_def valid_slice_def compatible_def)
  with run show ?thesis by blast
qed

text \<open>Slicing with the merge of an outer and an inner slice is slicing twice.\<close>

theorem merge_rank_compose:
  fixes g :: "'a tensor"
  assumes "d < length (shape g)" "0 < shape g ! d" "valid_slice a" "valid_slice b" "slen a = 1"
    and "total_size a * total_size b dvd shape g ! d"
  shows "\<exists>m v t. merge_rank a b = Inr m \<and> slice_tensor_with_strategy g d a = Inr v
    \<and> slice_tensor_with_strategy v d b = Inr t \<and> slice_tensor_with_strategy g d m = Inr t"
proof -
  define n where "n = shape g ! d"
  define m where "m = mk_slice (offset a * total_size b + offset b) (total_size a * total_size b) (dim a) (slen b)"
  have pos: "0 < total_size a" "0 < total_size b" "0 < n" using assms by (simp_all add: valid_slice_def n_def)
  obtain k where k: "n = total_size a * total_size b * k" using assms(6) by (auto simp: n_def dvd_def)
  have "(offset a + 1) * total_size b \<le> total_size a * total_size b"
    using assms(3,5) pos(2) by (intro mult_right_mono) (simp_all add: valid_slice_def)
  then have m: "valid_slice m" "total_size m dvd n"
    using assms(3-6) pos by (auto simp: m_def valid_slice_def n_def distrib_right)
  have qa: "n div total_size a = total_size b * k" using k pos by (simp add: mult.assoc)
  have qm: "n div total_size m = k" using k pos by (simp add: m_def)
  have cnt: "count_of n a = total_size b * k" using assms(5) qa by (simp add: count_of_def)
  have eqs: "start_of n m = start_of n a + start_of (count_of n a) b" "count_of n m = count_of (count_of n a) b"
    using cnt qa qm pos assms(5)
    by (simp_all add: start_of_def count_of_def m_def distrib_left mult.assoc mult.commute mult.left_commute)
  have nonneg: "0 \<le> count_of n a" using slice_end_le [of a n] assms(3) k pos by auto
  have "merge_rank a b = Inr m" using assms(5) by (simp add: merge_rank_def m_def)
  moreover have "slice_tensor_with_strategy g d a = Inr (window d (start_of n a) (count_of n a) g)"
    "slice_tensor_with_strategy g d m = Inr (window d (start_of n m) (count_of n m) g)"
    using slice_tensor_run [OF assms(1)] assms(3) m k pos(3) by (auto simp: n_def [symmetric])
  moreover have "slice_tensor_with_strategy (window d (start_of n a) (count_of n a) g) d b
      = Inr (window d (start_of n m) (count_of n m) g)"
    using slice_of_window [OF assms(1,4) _ nonneg] cnt eqs by simp
  ultimately show ?thesis by blast
qed

theorem merge_rank_compose_witness:
  "\<exists>m. merge_rank (mk_slice 1 2 [] 1) (mk_slice 2 3 [] 1) = Inr m \<and> offset m = 5 \<and> total_size m = 6"
  using merge_rank_compose [of 0 "\<lparr>shape = [12], elems = (\<lambda>ix. ix ! 0)\<rparr>" "mk_slice 1 2 [] 1" "mk_slice 2 3 [] 1"]
  by (auto simp: merge_rank_def valid_slice_def)

section \<open>Merging dimensions keeps the number of elements\<close>

lemma group_size_of_run: "\<forall>i\<in>set ds. i < length sh \<Longrightarrow> group_size_of sh ds = Inr (\<Prod>i\<leftarrow>ds. sh ! i)"
  by (induction ds) auto

lemma dict_get_fold_set:
  "dict_get (fold (\<lambda>i. dict_set i v) ks m) i = (if i \<in> set ks then Some v else dict_get m i)"
  by (rule pydict.lookup_fold_store)

lemma merged_dims_run:
  assumes "\<forall>ds\<in>set dl. \<forall>i\<in>set ds. i < length sh" "distinct (concat dl)"
  shows "\<exists>M. merged_dims sh dl M0 = Inr M \<and>
    (\<forall>i. dict_get M i = (case find (\<lambda>ds. i \<in> set ds) dl of
        Some ds \<Rightarrow> Some (\<Prod>j\<leftarrow>ds. sh ! j, ds) | None \<Rightarrow> dict_get M0 i))"
  using assms
proof (induction dl arbitrary: M0)
  case Nil
  then show ?case by simp
next
  case (Cons ds dl)
  define M1 where "M1 = fold (\<lambda>i. dict_set i (\<Prod>j\<leftarrow>ds. sh ! j, ds)) ds M0"
  obtain M where M: "merged_dims sh dl M1 = Inr M"
    "\<forall>i. dict_get M i = (case find (\<lambda>ds. i \<in> set ds) dl of
        Some ds \<Rightarrow> Some (\<Prod>j\<leftarrow>ds. sh ! j, ds) | None \<Rightarrow> dict_get M1 i)"
    using Cons.IH [of M1] Cons.prems by auto
  have later: "find (\<lambda>ds. i \<in> set ds) dl = None" if "i \<in> set ds" for i
    using that Cons.prems(2) by (auto simp: find_None_iff)
  have "merged_dims sh (ds # dl) M0 = Inr M"
    using M(1) Cons.prems(1) by (simp add: group_size_of_run M1_def)
  then show ?case using M(2) later
    by (auto simp: M1_def dict_get_fold_set split: option.split)
qed

lemma prod_list_distinct: "distinct ds \<Longrightarrow> (\<Prod>j\<leftarrow>ds. f j) = (\<Prod>j\<in>set ds. f j :: int)"
  by (simp add: prod.distinct_set_conv_list)

lemma new_shape_prod:
  assumes "distinct is"
    and groups: "\<And>i v ds. dict_get M i = Some (v, ds) \<Longrightarrow>
      i \<in> set ds \<and> distinct ds \<and> v = (\<Prod>j\<leftarrow>ds. sh ! j) \<and> (\<forall>k\<in>set ds. dict_get M k = Some (v, ds))"
    and todo: "\<And>i v ds. i \<in> set is \<Longrightarrow> dict_get M i = Some (v, ds) \<Longrightarrow>
      (if i \<in> handled then set ds \<subseteq> handled else set ds \<inter> handled = {} \<and> set ds \<subseteq> set is)"
    and hdl: "\<And>i. i \<in> handled \<Longrightarrow> dict_get M i \<noteq> None"
  shows "prod_list (new_shape sh M is handled) = (\<Prod>j \<in> set is - handled. sh ! j)"
  using assms(1) todo hdl
proof (induction "is" arbitrary: handled)
  case Nil
  then show ?case by simp
next
  case (Cons i js)
  show ?case
  proof (cases "dict_get M i")
    case None
    then have i: "i \<notin> handled" using Cons.prems(3) [of i] by auto
    have "prod_list (new_shape sh M js handled) = (\<Prod>j \<in> set js - handled. sh ! j)"
    proof (rule Cons.IH)
      fix k v ds assume k: "k \<in> set js" "dict_get M k = Some (v, ds)"
      then have "i \<notin> set ds" using groups [OF k(2)] None by auto
      then show "if k \<in> handled then set ds \<subseteq> handled else set ds \<inter> handled = {} \<and> set ds \<subseteq> set js"
        using Cons.prems(2) [of k v ds] k by auto
    qed (use Cons.prems in auto)
    moreover have "set (i # js) - handled = insert i (set js - handled)" "i \<notin> set js - handled"
      using i Cons.prems(1) by auto
    ultimately show ?thesis using None by simp
  next
    case (Some vd)
    obtain v ds where vd: "vd = (v, ds)" by (cases vd)
    note g = groups [OF Some [unfolded vd]]
    show ?thesis
    proof (cases "i \<in> handled")
      case True
      have "prod_list (new_shape sh M js handled) = (\<Prod>j \<in> set js - handled. sh ! j)"
      proof (rule Cons.IH)
        fix k w es assume k: "k \<in> set js" "dict_get M k = Some (w, es)"
        show "if k \<in> handled then set es \<subseteq> handled else set es \<inter> handled = {} \<and> set es \<subseteq> set js"
          using Cons.prems(2) [of k w es] k True by (auto simp: disjoint_iff split: if_splits)
      qed (use Cons.prems in auto)
      moreover have "set (i # js) - handled = set js - handled" using True by auto
      ultimately show ?thesis using True Some vd by simp
    next
      case False
      have fresh: "set ds \<inter> handled = {}" "set ds \<subseteq> set (i # js)"
        using Cons.prems(2) [of i v ds] Some vd False by auto
      have "prod_list (new_shape sh M js (handled \<union> set ds)) = (\<Prod>j \<in> set js - (handled \<union> set ds). sh ! j)"
      proof (rule Cons.IH)
        fix k w es assume k: "k \<in> set js" "dict_get M k = Some (w, es)"
        show "if k \<in> handled \<union> set ds then set es \<subseteq> handled \<union> set ds
              else set es \<inter> (handled \<union> set ds) = {} \<and> set es \<subseteq> set js"
        proof (cases "k \<in> set ds")
          case True
          then have "es = ds" using g k(2) by auto
          then show ?thesis using True by auto
        next
          case out: False
          have "set es \<inter> set ds = {}"
          proof (rule ccontr)
            assume "set es \<inter> set ds \<noteq> {}"
            then obtain x where x: "x \<in> set es" "x \<in> set ds" by auto
            have "es = ds" using x groups [OF k(2)] g by auto
            then show False using groups [OF k(2)] out by auto
          qed
          moreover from this have "i \<notin> set es" using g by blast
          ultimately show ?thesis using Cons.prems(2) [of k w es] k out by auto
        qed
      qed (use Cons.prems g in auto)
      moreover have "set (i # js) - handled = set ds \<union> (set js - (handled \<union> set ds))"
        using fresh g False by auto
      moreover have "(\<Prod>j \<in> set ds \<union> (set js - (handled \<union> set ds)). sh ! j)
          = (\<Prod>j \<in> set ds. sh ! j) * (\<Prod>j \<in> set js - (handled \<union> set ds). sh ! j)"
        by (rule prod.union_disjoint) auto
      ultimately show ?thesis using False Some vd g
        by (simp add: prod_list_distinct)
    qed
  qed
qed

text \<open>Merging disjoint groups of dimensions never fails and keeps the number of elements, which is
  what the reshape of the tensor to the new shape needs.\<close>

theorem merge_continuous_dims_numel:
  assumes "\<forall>ds\<in>set dims_list. \<forall>i\<in>set ds. i < length sh" "distinct (concat dims_list)"
  shows "\<exists>ns. merge_continuous_dims sh dims_list = Inr ns \<and> prod_list ns = prod_list sh"
proof -
  obtain M where M: "merged_dims sh dims_list [] = Inr M"
    "\<forall>i. dict_get M i = (case find (\<lambda>ds. i \<in> set ds) dims_list of
        Some ds \<Rightarrow> Some (\<Prod>j\<leftarrow>ds. sh ! j, ds) | None \<Rightarrow> None)"
    using merged_dims_run [OF assms, of "[]"] unfolding dict_get_Nil by blast
  have uniq: "ds = es" if "ds \<in> set dims_list" "es \<in> set dims_list" "x \<in> set ds" "x \<in> set es" for ds es x
    using assms(2) that by (auto simp: distinct_concat_iff)
  have found: "ds \<in> set dims_list \<and> i \<in> set ds \<and> v = (\<Prod>j\<leftarrow>ds. sh ! j)"
    if "dict_get M i = Some (v, ds)" for i v ds
    using that M(2) by (auto split: option.splits simp: find_Some_iff)
  have get: "dict_get M k = Some (\<Prod>j\<leftarrow>ds. sh ! j, ds)" if k: "ds \<in> set dims_list" "k \<in> set ds" for k ds
  proof (cases "find (\<lambda>ds. k \<in> set ds) dims_list")
    case None
    then show ?thesis using k by (auto simp: find_None_iff)
  next
    case (Some es)
    then have "es = ds" using uniq [of es ds k] k by (auto simp: find_Some_iff)
    then show ?thesis using Some M(2) by simp
  qed
  have "prod_list (new_shape sh M [0..<length sh] {}) = (\<Prod>j \<in> set [0..<length sh] - {}. sh ! j)"
  proof (rule new_shape_prod)
    fix i v ds assume "dict_get M i = Some (v, ds)"
    with found have f: "ds \<in> set dims_list" "i \<in> set ds" "v = (\<Prod>j\<leftarrow>ds. sh ! j)" by blast+
    then show "i \<in> set ds \<and> distinct ds \<and> v = (\<Prod>j\<leftarrow>ds. sh ! j) \<and> (\<forall>k\<in>set ds. dict_get M k = Some (v, ds))"
      using get assms(2) by (auto simp: distinct_concat_iff)
    show "if i \<in> {} then set ds \<subseteq> {} else set ds \<inter> {} = {} \<and> set ds \<subseteq> set [0..<length sh]"
      using f assms(1) by auto
  qed auto
  also have "\<dots> = prod_list (map ((!) sh) [0..<length sh])"
    by (simp add: prod.distinct_set_conv_list [symmetric])
  also have "\<dots> = prod_list sh" by (simp add: map_nth)
  finally show ?thesis using M(1) by (simp add: merge_continuous_dims_def)
qed

theorem merge_continuous_dims_numel_witness:
  "\<exists>ns. merge_continuous_dims [2, 3, 4, 5] [[1, 2]] = Inr ns \<and> prod_list ns = (120 :: int)"
  using merge_continuous_dims_numel [of "[[1, 2]]" "[2, 3, 4, 5]"] by simp

end
