(* ===== verification/Seq_Balance.thy ===== *)
theory Seq_Balance
  imports Py_Base
begin

text \<open>
  \<open>cosmos_rl/utils/balance_seqlen.py\<close>: splitting sequences into mini-batches of similar token
  counts with the Karmarkar-Karp differencing method. A \<open>kset\<close> is the code's \<open>Set\<close>, a
  \<open>kstate\<close> its \<open>State\<close>; Python compares \<open>Set\<close>s with \<open>__lt__\<close>, which is the order of the
  type class instance here. The heap of states is kept through the documented contract of \<open>heapq\<close>
  (pop returns a smallest element), stated as the locale \<open>min_queue\<close>.

  The lemmas show that every index lands in exactly one partition, that no partition is empty,
  and that two partitions never differ by more than the longest sequence.
\<close>

section \<open>Sets of items and their order\<close>

datatype kset = KSet (ksum: int) (kitems: "(nat \<times> int) list")

definition kset_add :: "nat \<Rightarrow> int \<Rightarrow> kset \<Rightarrow> kset" where
  "kset_add idx val s = KSet (ksum s + val) (kitems s @ [(idx, val)])"

definition kset_merge :: "kset \<Rightarrow> kset \<Rightarrow> kset" where
  "kset_merge s other = fold (\<lambda>(idx, val). kset_add idx val) (kitems other) s"

definition kset_lt :: "kset \<Rightarrow> kset \<Rightarrow> bool" where
  "kset_lt a b =
     (if ksum a \<noteq> ksum b then ksum a < ksum b
      else if length (kitems a) \<noteq> length (kitems b) then length (kitems a) < length (kitems b)
      else kitems a < kitems b)"

instantiation kset :: linorder
begin

definition less_kset :: "kset \<Rightarrow> kset \<Rightarrow> bool" where
  "less_kset a b = kset_lt a b"

definition less_eq_kset :: "kset \<Rightarrow> kset \<Rightarrow> bool" where
  "less_eq_kset a b = (kset_lt a b \<or> a = b)"

instance
proof
  fix a b c :: kset
  show "(a < b) = (a \<le> b \<and> \<not> b \<le> a)"
    by (auto simp: less_kset_def less_eq_kset_def kset_lt_def split: if_splits)
  show "a \<le> a" by (simp add: less_eq_kset_def)
  show "a \<le> b \<Longrightarrow> b \<le> c \<Longrightarrow> a \<le> c"
    by (auto simp: less_eq_kset_def kset_lt_def split: if_splits)
  show "a \<le> b \<Longrightarrow> b \<le> a \<Longrightarrow> a = b"
    by (auto simp: less_eq_kset_def kset_lt_def split: if_splits)
  show "a \<le> b \<or> b \<le> a"
    by (auto simp: less_eq_kset_def kset_lt_def intro: kset.expand split: if_splits)
qed

end

text \<open>\<open>sorted(xs, reverse=True)\<close>.\<close>

definition sort_desc :: "'a::linorder list \<Rightarrow> 'a list" where
  "sort_desc xs = rev (sort xs)"

section \<open>States\<close>

datatype kstate = KState (ksets: "kset list")

definition mk_state :: "(nat \<times> int) list \<Rightarrow> nat \<Rightarrow> error + kstate" where
  "mk_state items k =
     ensure AssertionError (length items = 1 \<or> length items = k)
     (ensure IndexError (length items \<le> k)
       (Inr (KState (sort_desc
          (map (\<lambda>(idx, seqlen). kset_add idx seqlen (KSet 0 [])) items
           @ replicate (k - length items) (KSet 0 []))))))"

definition get_partitions :: "kstate \<Rightarrow> nat list list" where
  "get_partitions st = map (\<lambda>s. map fst (kitems s)) (ksets st)"

definition state_merge :: "kstate \<Rightarrow> kstate \<Rightarrow> kstate" where
  "state_merge st other = KState (sort_desc (map2 kset_merge (ksets st) (rev (ksets other))))"

definition spread :: "kstate \<Rightarrow> int" where
  "spread st = ksum (hd (ksets st)) - ksum (last (ksets st))"

definition state_lt :: "kstate \<Rightarrow> kstate \<Rightarrow> bool" where
  "state_lt a b =
     (if spread a \<noteq> spread b then spread a > spread b else hd (ksets a) > hd (ksets b))"

section \<open>The priority queue\<close>

definition heappush :: "kstate list \<Rightarrow> kstate \<Rightarrow> kstate list" where
  "heappush q x = q @ [x]"

definition heappop :: "kstate list \<Rightarrow> error + (kstate \<times> kstate list)" where
  "heappop q =
     (case q of [] \<Rightarrow> Inl IndexError
      | x # xs \<Rightarrow> (let m = fold (\<lambda>y m. if state_lt y m then y else m) xs x in Inr (m, remove1 m q)))"

locale min_queue =
  fixes push :: "'q \<Rightarrow> 'x \<Rightarrow> 'q"
    and pop :: "'q \<Rightarrow> error + ('x \<times> 'q)"
    and content :: "'q \<Rightarrow> 'x multiset"
    and lt :: "'x \<Rightarrow> 'x \<Rightarrow> bool"
  assumes content_push: "content (push q x) = add_mset x (content q)"
    and pop_some: "content q \<noteq> {#} \<Longrightarrow> \<exists>x q'. pop q = Inr (x, q') \<and> content q = add_mset x (content q')
        \<and> (\<forall>y \<in># content q. \<not> lt y x)"
    and pop_none: "content q = {#} \<Longrightarrow> pop q = Inl IndexError"
begin

lemma content_push_all: "content (fold (\<lambda>x q. push q x) xs q) = mset xs + content q"
  by (induction xs arbitrary: q) (simp_all add: content_push)

text \<open>Popping the two smallest and pushing what they merge to.\<close>

lemma pop_twice:
  assumes "size (content q) > 1"
  shows "\<exists>x y q1 q2. pop q = Inr (x, q1) \<and> pop q1 = Inr (y, q2)
    \<and> content q = add_mset x (add_mset y (content q2))
    \<and> (\<forall>z. content (push q2 z) = add_mset z (content q2))
    \<and> size (content q2) = size (content q) - 2"
proof -
  have "content q \<noteq> {#}" using assms by auto
  then obtain x q1 where x: "pop q = Inr (x, q1)" "content q = add_mset x (content q1)"
    using pop_some by blast
  then have "content q1 \<noteq> {#}" using assms by auto
  then obtain y q2 where "pop q1 = Inr (y, q2)" "content q1 = add_mset y (content q2)"
    using pop_some by blast
  with x show ?thesis by (auto simp: content_push)
qed

end

definition state_key :: "kstate \<Rightarrow> int \<times> kset" where
  "state_key s = (spread s, hd (ksets s))"

lemma state_lt_key: "state_lt a b \<longleftrightarrow> state_key b < state_key a"
  by (auto simp: state_lt_def state_key_def)

lemma fold_min_mem: "fold (\<lambda>y m. if lt y m then y else m) xs x \<in> insert x (set xs)"
proof (induction xs arbitrary: x)
  case Nil
  then show ?case by simp
next
  case (Cons y ys)
  then show ?case using Cons.IH [of y] Cons.IH [of x] by auto
qed

lemma fold_min_least:
  fixes key :: "'x \<Rightarrow> 'b::linorder"
  assumes "\<And>a b. lt a b \<longleftrightarrow> key b < key a"
  shows "\<forall>y \<in> insert x (set xs). key y \<le> key (fold (\<lambda>y m. if lt y m then y else m) xs x)"
proof (induction xs arbitrary: x)
  case Nil
  then show ?case by simp
next
  case (Cons y ys)
  show ?case using Cons.IH [of y] Cons.IH [of x] assms by (auto simp: not_less)
qed

lemma heappop_some:
  assumes "q \<noteq> []"
  shows "\<exists>x q'. heappop q = Inr (x, q') \<and> mset q = add_mset x (mset q') \<and> (\<forall>y \<in># mset q. \<not> state_lt y x)"
proof -
  obtain a as where q: "q = a # as" using assms by (cases q) auto
  define m where "m = fold (\<lambda>y m. if state_lt y m then y else m) as a"
  have "m \<in> set q" using fold_min_mem [of state_lt as a] by (simp add: q m_def)
  then have "mset q = add_mset m (mset (remove1 m q))" by simp
  moreover have "\<forall>y \<in># mset q. \<not> state_lt y m"
    using fold_min_least [OF state_lt_key, where x = a and xs = as]
    by (simp add: state_lt_key not_less) (simp add: q m_def state_lt_key)
  moreover have "heappop q = Inr (m, remove1 m q)"
    unfolding heappop_def q m_def Let_def by simp
  ultimately show ?thesis by blast
qed

interpretation kkq: min_queue heappush heappop mset state_lt
  by unfold_locales (use heappop_some in \<open>auto simp: heappush_def heappop_def\<close>)

section \<open>Karmarkar-Karp\<close>

lemma heappop_length: "heappop q = Inr (x, q') \<Longrightarrow> length q = Suc (length q')"
proof -
  assume run: "heappop q = Inr (x, q')"
  then have "q \<noteq> []" by (auto simp: heappop_def)
  from heappop_some [OF this] run have "mset q = add_mset x (mset q')" by auto
  then have "size (mset q) = Suc (size (mset q'))" by simp
  then show ?thesis by (simp only: size_mset)
qed

function (sequential) kk_loop :: "kstate list \<Rightarrow> error + kstate list" where
  "kk_loop q =
     (if 1 < length q
      then ebind (heappop q) (\<lambda>(state0, q1).
           ebind (heappop q1) (\<lambda>(state1, q2).
             kk_loop (heappush q2 (state_merge state0 state1))))
      else Inr q)"
  by pat_completeness auto
termination
  by (relation "measure length") (auto simp: heappush_def dest!: heappop_length)

declare kk_loop.simps [simp del]

definition sorted_seqlens :: "int list \<Rightarrow> (int \<times> nat) list" where
  "sorted_seqlens seqlen_list = sort (map (\<lambda>(i, seqlen). (seqlen, i)) (enumerate 0 seqlen_list))"

text \<open>The runs of \<open>k\<close> consecutive entries that the equal-size variant starts from.\<close>

fun chunks_of :: "nat \<Rightarrow> nat \<Rightarrow> 'a list \<Rightarrow> 'a list list" where
  "chunks_of 0 k xs = []"
| "chunks_of (Suc m) k xs = take k xs # chunks_of m k (drop k xs)"

definition initial_items :: "int list \<Rightarrow> nat \<Rightarrow> bool \<Rightarrow> (nat \<times> int) list list" where
  "initial_items seqlen_list k equal_size =
     (let xs = map (\<lambda>(seqlen, idx). (idx, seqlen)) (sorted_seqlens seqlen_list) in
      if equal_size then chunks_of (length xs div k) k xs else map (\<lambda>x. [x]) xs)"

definition karmarkar_karp :: "int list \<Rightarrow> nat \<Rightarrow> bool \<Rightarrow> error + nat list list" where
  "karmarkar_karp seqlen_list k equal_size =
     ensure ZeroDivisionError (equal_size \<longrightarrow> k \<noteq> 0)
     (ensure AssertionError (equal_size \<longrightarrow> length seqlen_list mod k = 0)
     (ebind (efold (\<lambda>items q. ebind (mk_state items k) (\<lambda>st. Inr (heappush q st)))
               (initial_items seqlen_list k equal_size) []) (\<lambda>states_pq.
      ebind (kk_loop states_pq) (\<lambda>q.
      case q of [] \<Rightarrow> Inl IndexError
      | final_state # _ \<Rightarrow>
          (let partitions = get_partitions final_state in
           ensure AssertionError
             (equal_size \<longrightarrow> (\<forall>p \<in> set partitions. length p * k = length seqlen_list))
             (Inr partitions))))))"

definition check_and_sort_partitions :: "nat \<Rightarrow> nat \<Rightarrow> nat list list \<Rightarrow> error + nat list list" where
  "check_and_sort_partitions n k partitions =
     ensure AssertionError (length partitions = k)
     (ensure AssertionError (\<forall>p \<in> set partitions. 0 < length p)
     (ensure AssertionError (set (concat partitions) = set [0..<n])
       (Inr (map sort partitions))))"

definition get_seqlen_balanced_partitions :: "int list \<Rightarrow> nat \<Rightarrow> bool \<Rightarrow> error + nat list list" where
  "get_seqlen_balanced_partitions seqlen_list k equal_size =
     ensure AssertionError (k \<le> length seqlen_list)
     (ebind (karmarkar_karp seqlen_list k equal_size)
        (check_and_sort_partitions (length seqlen_list) k))"

section \<open>Invariants of a state\<close>

definition kset_ok :: "kset \<Rightarrow> bool" where
  "kset_ok s \<longleftrightarrow> ksum s = sum_list (map snd (kitems s)) \<and> (\<forall>x \<in> set (kitems s). 0 \<le> snd x)"

abbreviation filled :: "kset \<Rightarrow> bool" where
  "filled s \<equiv> kitems s \<noteq> []"

definition items_of :: "kstate \<Rightarrow> (nat \<times> int) list" where
  "items_of st = concat (map kitems (ksets st))"

definition state_inv :: "nat \<Rightarrow> kstate \<Rightarrow> bool" where
  "state_inv k st \<longleftrightarrow> length (ksets st) = k \<and> (\<forall>s \<in> set (ksets st). kset_ok s) \<and> sorted (rev (ksets st))
     \<and> length (filter filled (ksets st)) = min k (length (items_of st))"

lemma kset_merge_eq:
  "kset_merge s t = KSet (ksum s + sum_list (map snd (kitems t))) (kitems s @ kitems t)"
proof -
  have "fold (\<lambda>(idx, val). kset_add idx val) xs s = KSet (ksum s + sum_list (map snd xs)) (kitems s @ xs)"
    for xs s by (induction xs arbitrary: s) (auto simp: kset_add_def)
  then show ?thesis by (simp add: kset_merge_def)
qed

lemma kset_ok_merge: "kset_ok a \<Longrightarrow> kset_ok b \<Longrightarrow> kset_ok (kset_merge a b)"
  by (auto simp: kset_ok_def kset_merge_eq)

lemma mset_sort_desc [simp]: "mset (sort_desc xs) = mset xs"
  by (simp add: sort_desc_def)

lemma set_sort_desc [simp]: "set (sort_desc xs) = set xs"
  by (simp add: sort_desc_def)

lemma length_sort_desc [simp]: "length (sort_desc xs) = length xs"
  by (simp add: sort_desc_def)

lemma sorted_rev_sort_desc [simp]: "sorted (rev (sort_desc xs))"
  by (simp add: sort_desc_def)

lemma filter_sort_desc: "length (filter P (sort_desc xs)) = length (filter P xs)"
  by (metis mset_filter mset_sort_desc size_mset)

lemma mset_concat_perm: "mset xs = mset ys \<Longrightarrow> mset (concat (map f xs)) = mset (concat (map f ys))"
proof -
  assume "mset xs = mset ys"
  then have "sum_mset (mset (map (mset \<circ> f) xs)) = sum_mset (mset (map (mset \<circ> f) ys))" by simp
  then show ?thesis by (simp only: sum_mset_sum_list mset_concat map_map)
qed

lemma mset_concat_sort_desc: "mset (concat (map f (sort_desc xs))) = mset (concat (map f xs))"
  by (rule mset_concat_perm) simp

lemma length_concat_sort_desc: "length (concat (map f (sort_desc xs))) = length (concat (map f xs))"
  by (metis mset_concat_sort_desc size_mset)

text \<open>Filled sets come before empty ones.\<close>

lemma empty_below: "kset_ok a \<Longrightarrow> kset_ok b \<Longrightarrow> a \<le> b \<Longrightarrow> kitems b = [] \<Longrightarrow> kitems a = []"
proof -
  assume ok: "kset_ok a" "kset_ok b" and le: "a \<le> b" and b: "kitems b = []"
  have "0 \<le> sum_list (map snd (kitems a))"
    by (rule sum_list_nonneg) (use ok in \<open>auto simp: kset_ok_def\<close>)
  then show "kitems a = []"
    using ok le b by (auto simp: kset_ok_def less_eq_kset_def kset_lt_def split: if_splits)
qed

lemma filter_prefix:
  assumes "\<And>i j. i < j \<Longrightarrow> j < length xs \<Longrightarrow> P (xs ! j) \<Longrightarrow> P (xs ! i)"
  shows "xs = filter P xs @ filter (\<lambda>x. \<not> P x) xs"
  using assms
proof (induction xs)
  case Nil
  then show ?case by simp
next
  case (Cons x xs)
  have ih: "xs = filter P xs @ filter (\<lambda>x. \<not> P x) xs"
    by (rule Cons.IH) (metis Cons.prems Suc_less_eq length_Cons nth_Cons_Suc)
  show ?case
  proof (cases "P x")
    case True
    then show ?thesis using ih by simp
  next
    case False
    have "\<not> P y" if "y \<in> set xs" for y
      using that Cons.prems [of 0] False by (fastforce simp: in_set_conv_nth)
    then have "filter P xs = []" by simp
    then show ?thesis using False ih by simp
  qed
qed

lemma filled_prefix:
  assumes "\<forall>s \<in> set xs. kset_ok s" "sorted (rev xs)" "i < length xs"
  shows "filled (xs ! i) \<longleftrightarrow> i < length (filter filled xs)"
proof -
  have "filled (xs ! a)" if "a < b" "b < length xs" "filled (xs ! b)" for a b
  proof -
    have "xs ! b \<le> xs ! a" using assms(2) that by (simp add: sorted_rev_iff_nth_mono)
    then show ?thesis using empty_below [of "xs ! b" "xs ! a"] that assms(1) by auto
  qed
  then have eq: "xs = filter filled xs @ filter (\<lambda>x. \<not> filled x) xs" by (rule filter_prefix)
  show ?thesis
  proof (cases "i < length (filter filled xs)")
    case True
    then have "xs ! i = filter filled xs ! i" by (subst eq) (simp add: nth_append)
    then show ?thesis using True nth_mem [OF True] by auto
  next
    case False
    define j where "j = i - length (filter filled xs)"
    have "length (filter filled xs) + length (filter (\<lambda>x. \<not> filled x) xs) = length xs"
      using eq by (metis length_append)
    then have j: "j < length (filter (\<lambda>x. \<not> filled x) xs)" using False assms(3) by (simp add: j_def)
    have "xs ! i = filter (\<lambda>x. \<not> filled x) xs ! j"
      by (subst eq) (use False in \<open>simp add: nth_append j_def\<close>)
    then show ?thesis using False nth_mem [OF j] by auto
  qed
qed

lemma card_two_ends:
  assumes "m \<le> k" "p \<le> k"
  shows "card {i. i < k \<and> (i < m \<or> k - Suc i < p)} = min k (m + p)"
proof (cases "m + p \<le> k")
  case True
  have "{i. i < k \<and> (i < m \<or> k - Suc i < p)} = {..<m} \<union> {k - p..<k}" using assms by auto
  moreover have "{..<m} \<inter> {k - p..<k} = {}" using True by auto
  ultimately show ?thesis using True assms by (simp add: card_Un_disjoint)
next
  case False
  then have "{i. i < k \<and> (i < m \<or> k - Suc i < p)} = {..<k}" by auto
  then show ?thesis using False by simp
qed

lemma length_concat_map2_merge:
  "length xs = length ys \<Longrightarrow>
   mset (concat (map kitems (map2 kset_merge xs ys))) = mset (concat (map kitems xs)) + mset (concat (map kitems ys))"
  by (induction xs ys rule: list_induct2) (simp_all add: kset_merge_eq)

lemma state_merge_items:
  assumes "length (ksets a) = length (ksets b)"
  shows "mset (items_of (state_merge a b)) = mset (items_of a) + mset (items_of b)"
proof -
  have "length (ksets a) = length (rev (ksets b))" using assms by simp
  from length_concat_map2_merge [OF this]
  have "mset (items_of (state_merge a b))
      = mset (concat (map kitems (ksets a))) + mset (concat (map kitems (rev (ksets b))))"
    unfolding items_of_def state_merge_def kstate.sel mset_concat_sort_desc .
  moreover have "mset (concat (map kitems (rev (ksets b)))) = mset (concat (map kitems (ksets b)))"
    by (rule mset_concat_perm) simp
  ultimately show ?thesis by (simp only: items_of_def)
qed

lemma state_merge_inv:
  assumes "state_inv k a" "state_inv k b"
  shows "state_inv k (state_merge a b)"
proof -
  let ?A = "ksets a" and ?B = "ksets b"
  have len: "length ?A = k" "length ?B = k" using assms by (simp_all add: state_inv_def)
  define m where "m = length (filter filled ?A)"
  define p where "p = length (filter filled ?B)"
  have mp: "m = min k (length (items_of a))" "p = min k (length (items_of b))"
    using assms by (simp_all add: state_inv_def m_def p_def)
  have A: "filled (?A ! i) \<longleftrightarrow> i < m" if "i < k" for i
    using filled_prefix [of ?A i] assms(1) that by (simp add: state_inv_def m_def)
  have B: "filled (?B ! i) \<longleftrightarrow> i < p" if "i < k" for i
    using filled_prefix [of ?B i] assms(2) that by (simp add: state_inv_def p_def)
  define M where "M = map2 kset_merge ?A (rev ?B)"
  have lenM: "length M = k" using len by (simp add: M_def)
  have nth: "filled (M ! i) \<longleftrightarrow> i < m \<or> k - Suc i < p" if "i < k" for i
    using that len A [OF that] B [of "k - Suc i"] by (simp add: M_def kset_merge_eq rev_nth)
  then have "{i. i < length M \<and> filled (M ! i)} = {i. i < k \<and> (i < m \<or> k - Suc i < p)}"
    using lenM by auto
  then have "length (filter filled M) = card {i. i < k \<and> (i < m \<or> k - Suc i < p)}"
    unfolding length_filter_conv_card by simp
  also have "\<dots> = min k (m + p)" by (rule card_two_ends) (simp_all add: mp)
  also have "\<dots> = min k (length (items_of a) + length (items_of b))"
    unfolding mp by (auto simp: min_def)
  also have "\<dots> = min k (length (items_of (state_merge a b)))"
    using arg_cong [OF state_merge_items [of a b], of size] len by (simp only: size_mset size_union)
  finally have count: "length (filter filled (ksets (state_merge a b))) = min k (length (items_of (state_merge a b)))"
    by (simp add: state_merge_def filter_sort_desc M_def)
  have "\<forall>s \<in> set (ksets (state_merge a b)). kset_ok s"
  proof
    fix s assume "s \<in> set (ksets (state_merge a b))"
    then obtain x y where "s = kset_merge x y" "(x, y) \<in> set (zip ?A (rev ?B))"
      by (auto simp: state_merge_def)
    moreover from this have "x \<in> set ?A" "y \<in> set ?B"
      by (auto dest: set_zip_leftD set_zip_rightD)
    ultimately show "kset_ok s" using assms by (simp add: state_inv_def kset_ok_merge)
  qed
  then show ?thesis using count len by (simp add: state_inv_def state_merge_def)
qed

section \<open>What the loop keeps\<close>

text \<open>\<open>state_good k L e st\<close>: the invariant, sums within \<open>L\<close> of each other and, if \<open>e\<close>, equal counts.\<close>

definition sums_within :: "int \<Rightarrow> kset list \<Rightarrow> bool" where
  "sums_within L xs \<longleftrightarrow> (\<forall>s \<in> set xs. \<forall>t \<in> set xs. ksum s - ksum t \<le> L)"

definition same_counts :: "kset list \<Rightarrow> bool" where
  "same_counts xs \<longleftrightarrow> (\<forall>s \<in> set xs. \<forall>t \<in> set xs. length (kitems s) = length (kitems t))"

definition state_good :: "nat \<Rightarrow> int \<Rightarrow> bool \<Rightarrow> kstate \<Rightarrow> bool" where
  "state_good k L e st \<longleftrightarrow> state_inv k st \<and> sums_within L (ksets st) \<and> (e \<longrightarrow> same_counts (ksets st))"

lemma kset_le_sum: "a \<le> b \<Longrightarrow> ksum a \<le> ksum b"
  by (auto simp: less_eq_kset_def kset_lt_def split: if_splits)

lemma in_merged:
  assumes "length xs = k" "length ys = k" "s \<in> set (map2 kset_merge xs (rev ys))"
  shows "\<exists>i < k. s = kset_merge (xs ! i) (ys ! (k - Suc i))"
  using assms by (auto simp: set_zip rev_nth)

lemma merged_sums_ordered:
  assumes "length xs = k" "length ys = k" "sorted (rev xs)" "sorted (rev ys)"
    and "sums_within L xs" "sums_within L ys" "i < k" "j < k" "i \<le> j"
  shows "\<bar>(ksum (xs ! i) + ksum (ys ! (k - Suc i))) - (ksum (xs ! j) + ksum (ys ! (k - Suc j)))\<bar> \<le> L"
proof -
  have "ksum (xs ! j) \<le> ksum (xs ! i)" "ksum (ys ! (k - Suc i)) \<le> ksum (ys ! (k - Suc j))"
    using assms by (auto intro!: kset_le_sum simp: sorted_rev_iff_nth_mono)
  moreover have "ksum (xs ! i) - ksum (xs ! j) \<le> L" "ksum (ys ! (k - Suc j)) - ksum (ys ! (k - Suc i)) \<le> L"
    using assms by (auto simp: sums_within_def)
  ultimately show ?thesis by linarith
qed

lemma sums_within_merge:
  assumes "length xs = k" "length ys = k" "sorted (rev xs)" "sorted (rev ys)"
    and "sums_within L xs" "sums_within L ys" and ok: "\<forall>y \<in> set ys. kset_ok y"
  shows "sums_within L (map2 kset_merge xs (rev ys))"
  unfolding sums_within_def
proof (intro ballI)
  fix s t assume "s \<in> set (map2 kset_merge xs (rev ys))" "t \<in> set (map2 kset_merge xs (rev ys))"
  then obtain i j where st: "i < k" "s = kset_merge (xs ! i) (ys ! (k - Suc i))"
      "j < k" "t = kset_merge (xs ! j) (ys ! (k - Suc j))"
    using in_merged [OF assms(1,2)] by blast
  have sums: "ksum s = ksum (xs ! i) + ksum (ys ! (k - Suc i))" "ksum t = ksum (xs ! j) + ksum (ys ! (k - Suc j))"
    using ok st assms(2) by (simp_all add: kset_merge_eq kset_ok_def)
  show "ksum s - ksum t \<le> L"
  proof (cases "i \<le> j")
    case True
    then show ?thesis using merged_sums_ordered [OF assms(1-6) st(1,3)] sums by linarith
  next
    case False
    then show ?thesis using merged_sums_ordered [OF assms(1-6) st(3,1)] sums by linarith
  qed
qed

lemma state_good_merge:
  assumes "state_good k L e a" "state_good k L e b"
  shows "state_good k L e (state_merge a b)"
proof -
  have inv: "state_inv k (state_merge a b)" using assms by (simp add: state_good_def state_merge_inv)
  have ab: "length (ksets a) = k" "length (ksets b) = k" "sorted (rev (ksets a))" "sorted (rev (ksets b))"
    "sums_within L (ksets a)" "sums_within L (ksets b)" "\<forall>y \<in> set (ksets b). kset_ok y"
    using assms by (auto simp: state_good_def state_inv_def)
  have "sums_within L (ksets (state_merge a b))"
    using sums_within_merge [OF ab] by (simp add: sums_within_def state_merge_def)
  moreover have "same_counts (ksets (state_merge a b))" if e
  proof -
    have same: "same_counts (ksets a)" "same_counts (ksets b)" using assms that by (auto simp: state_good_def)
    show ?thesis unfolding same_counts_def
    proof (intro ballI)
      fix s t assume "s \<in> set (ksets (state_merge a b))" "t \<in> set (ksets (state_merge a b))"
      then have "s \<in> set (map2 kset_merge (ksets a) (rev (ksets b)))"
        "t \<in> set (map2 kset_merge (ksets a) (rev (ksets b)))" by (simp_all add: state_merge_def)
      then obtain i j where ij: "i < k" "j < k" "k - Suc i < k" "k - Suc j < k"
          and st: "s = kset_merge (ksets a ! i) (ksets b ! (k - Suc i))"
            "t = kset_merge (ksets a ! j) (ksets b ! (k - Suc j))"
        using in_merged [OF ab(1,2)] by (metis diff_less not_less_zero gr0I zero_less_Suc)
      have "length (kitems (ksets a ! i)) = length (kitems (ksets a ! j))"
        using same(1) ij ab(1) by (simp add: same_counts_def)
      moreover have "length (kitems (ksets b ! (k - Suc i))) = length (kitems (ksets b ! (k - Suc j)))"
        using same(2) ij ab(2) by (simp add: same_counts_def)
      ultimately show "length (kitems s) = length (kitems t)" using st by (simp add: kset_merge_eq)
    qed
  qed
  ultimately show ?thesis using inv by (simp add: state_good_def)
qed

lemma kk_loop_single: "kk_loop [x] = Inr [x]"
  by (simp add: kk_loop.simps [of "[x]"])

lemma kk_loop_good:
  "q \<noteq> [] \<Longrightarrow> \<forall>s \<in> set q. state_good k L e s \<Longrightarrow>
   \<exists>st. kk_loop q = Inr [st] \<and> state_good k L e st
     \<and> mset (items_of st) = sum_mset (image_mset (\<lambda>s. mset (items_of s)) (mset q))"
proof (induction "length q" arbitrary: q rule: less_induct)
  case less
  show ?case
  proof (cases "1 < length q")
    case False
    then obtain x where "q = [x]" using less.prems(1) by (cases q) auto
    then show ?thesis using less.prems by (simp add: kk_loop_single)
  next
    case True
    then have "1 < size (mset q)" by simp
    from kkq.pop_twice [OF this] obtain x y q1 q2 where pops:
      "heappop q = Inr (x, q1)" "heappop q1 = Inr (y, q2)" "mset q = add_mset x (add_mset y (mset q2))"
      by blast
    let ?q = "heappush q2 (state_merge x y)"
    have in_q: "set q = insert x (insert y (set q2))" using pops(3) by (metis set_mset_add_mset_insert set_mset_mset)
    have good: "state_good k L e x" "state_good k L e y" using less.prems(2) in_q by auto
    have push: "mset ?q = add_mset (state_merge x y) (mset q2)" by (rule kkq.content_push)
    have len: "length ?q < length q" using arg_cong [OF pops(3), of size] arg_cong [OF push, of size] by simp
    have "\<forall>s \<in> set ?q. state_good k L e s"
      using less.prems(2) in_q state_good_merge [OF good] by (auto simp: heappush_def)
    moreover have "?q \<noteq> []" by (simp add: heappush_def)
    ultimately obtain st where st: "kk_loop ?q = Inr [st]" "state_good k L e st"
        "mset (items_of st) = sum_mset (image_mset (\<lambda>s. mset (items_of s)) (mset ?q))"
      using less.hyps [OF len] by blast
    have "length (ksets x) = length (ksets y)" using good by (simp add: state_good_def state_inv_def)
    from state_merge_items [OF this] have "mset (items_of st)
        = sum_mset (image_mset (\<lambda>s. mset (items_of s)) (mset q))"
      unfolding st(3) push pops(3) by simp
    moreover have "kk_loop q = kk_loop ?q"
      unfolding kk_loop.simps [of q] using True pops(1,2) by simp
    ultimately show ?thesis using st by auto
  qed
qed

section \<open>The states the loop starts from\<close>

lemma mk_state_good:
  assumes "items \<noteq> []" "length items = 1 \<or> length items = k" "0 < k" "e \<longrightarrow> length items = k"
    and "\<forall>x \<in> set items. 0 \<le> snd x \<and> snd x \<le> L"
  shows "\<exists>st. mk_state items k = Inr st \<and> state_good k L e st \<and> mset (items_of st) = mset items"
proof -
  let ?f = "\<lambda>(idx, seqlen). kset_add idx seqlen (KSet 0 [])"
  let ?M = "map ?f items @ replicate (k - length items) (KSet 0 [])"
  have run: "mk_state items k = Inr (KState (sort_desc ?M))"
    using assms by (auto simp: mk_state_def ensure_def)
  have L: "0 \<le> L" using assms(1,5) by (cases items) auto
  have one: "concat (map (\<lambda>x. kitems (?f x)) xs) = xs" for xs
    by (induction xs) (auto simp: kset_add_def)
  have items: "mset (items_of (KState (sort_desc ?M))) = mset items"
    unfolding items_of_def kstate.sel mset_concat_sort_desc by (simp add: one comp_def)
  have "filter filled ?M = map ?f items"
    by (auto simp: kset_add_def filter_map comp_def split: prod.splits)
  then have "length (filter filled (ksets (KState (sort_desc ?M)))) = length items"
    unfolding kstate.sel filter_sort_desc by simp
  moreover have "length (items_of (KState (sort_desc ?M))) = length items"
    using arg_cong [OF items, of size] by simp
  moreover have "length ?M = k" using assms(2,3) by auto
  moreover have "\<forall>s \<in> set ?M. kset_ok s"
    using assms(5) by (auto simp: kset_ok_def kset_add_def)
  ultimately have "state_inv k (KState (sort_desc ?M))"
    using assms(2,3) by (auto simp: state_inv_def)
  moreover have "sums_within L (ksets (KState (sort_desc ?M)))"
  proof -
    have "0 \<le> ksum s \<and> ksum s \<le> L" if "s \<in> set ?M" for s
      using that assms(5) L by (auto simp: kset_add_def)
    then have "ksum s - ksum t \<le> L" if "s \<in> set ?M" "t \<in> set ?M" for s t
      using that by (smt (verit))
    then show ?thesis unfolding sums_within_def kstate.sel set_sort_desc by blast
  qed
  moreover have "same_counts (ksets (KState (sort_desc ?M)))" if e
    using that assms(4) by (auto simp: same_counts_def kset_add_def)
  ultimately show ?thesis using run items by (auto simp: state_good_def)
qed

lemma concat_chunks_of: "length xs = m * k \<Longrightarrow> concat (chunks_of m k xs) = xs"
  by (induction m arbitrary: xs) simp_all

lemma chunks_of_length: "length xs = m * k \<Longrightarrow> c \<in> set (chunks_of m k xs) \<Longrightarrow> length c = k"
proof (induction m arbitrary: xs)
  case 0
  then show ?case by simp
next
  case (Suc m)
  have "length (drop k xs) = m * k" using Suc.prems(1) by simp
  then show ?case using Suc.IH [of "drop k xs"] Suc.prems by auto
qed

lemma mset_sorted_seqlens:
  "mset (map (\<lambda>(seqlen, idx). (idx, seqlen)) (sorted_seqlens xs)) = mset (enumerate 0 xs)"
  by (simp add: sorted_seqlens_def image_mset.compositionality comp_def split_def)

lemma length_sorted_seqlens [simp]: "length (sorted_seqlens xs) = length xs"
  by (simp add: sorted_seqlens_def)

lemma concat_singletons: "concat (map (\<lambda>x. [x]) xs) = xs"
  by (induction xs) simp_all

lemma initial_items_mset:
  assumes "e \<longrightarrow> length xs mod k = 0"
  shows "mset (concat (initial_items xs k e)) = mset (enumerate 0 xs)"
proof -
  have "concat (initial_items xs k e) = map (\<lambda>(seqlen, idx). (idx, seqlen)) (sorted_seqlens xs)"
  proof (cases e)
    case True
    then have "length xs div k * k = length xs" using assms div_mult_mod_eq [of "length xs" k] by simp
    then show ?thesis using True by (simp add: initial_items_def Let_def concat_chunks_of)
  next
    case False
    then show ?thesis by (simp add: initial_items_def Let_def concat_singletons del: map_map)
  qed
  then show ?thesis by (simp only: mset_sorted_seqlens)
qed

lemma initial_items_lengths:
  assumes "e \<longrightarrow> length xs mod k = 0" "0 < k" "zs \<in> set (initial_items xs k e)"
  shows "zs \<noteq> []" "length zs = 1 \<or> length zs = k" "e \<longrightarrow> length zs = k"
proof -
  have "e \<Longrightarrow> length zs = k"
  proof -
    assume e
    then have "length xs div k * k = length xs" using assms(1) div_mult_mod_eq [of "length xs" k] by simp
    then show ?thesis
      using assms(3) \<open>e\<close> chunks_of_length [of "map (\<lambda>(seqlen, idx). (idx, seqlen)) (sorted_seqlens xs)" "length xs div k" k zs]
      by (simp add: initial_items_def Let_def)
  qed
  moreover have "\<not> e \<Longrightarrow> length zs = 1" using assms(3) by (auto simp: initial_items_def Let_def)
  ultimately show "zs \<noteq> []" "length zs = 1 \<or> length zs = k" "e \<longrightarrow> length zs = k"
    using assms(2) by (cases e; force)+
qed

lemma efold_states:
  assumes "\<forall>zs \<in> set iss. \<exists>st. mk_state zs k = Inr st \<and> state_good k L e st \<and> mset (items_of st) = mset zs"
  shows "\<exists>q. efold (\<lambda>items q. ebind (mk_state items k) (\<lambda>st. Inr (heappush q st))) iss q0 = Inr (q0 @ q)
    \<and> length q = length iss \<and> (\<forall>s \<in> set q. state_good k L e s)
    \<and> sum_mset (image_mset (\<lambda>s. mset (items_of s)) (mset q)) = mset (concat iss)"
  using assms
proof (induction iss arbitrary: q0)
  case Nil
  then show ?case by simp
next
  case (Cons a iss)
  then obtain st where st: "mk_state a k = Inr st" "state_good k L e st" "mset (items_of st) = mset a" by auto
  from Cons.prems have "\<forall>zs \<in> set iss. \<exists>st. mk_state zs k = Inr st \<and> state_good k L e st \<and> mset (items_of st) = mset zs"
    by simp
  from Cons.IH [OF this, of "q0 @ [st]"] obtain q where
    "efold (\<lambda>items q. ebind (mk_state items k) (\<lambda>st. Inr (heappush q st))) iss (q0 @ [st]) = Inr ((q0 @ [st]) @ q)"
    "length q = length iss" "\<forall>s \<in> set q. state_good k L e s"
    "sum_mset (image_mset (\<lambda>s. mset (items_of s)) (mset q)) = mset (concat iss)" by blast
  then show ?case using st by (intro exI [of _ "st # q"]) (simp add: heappush_def)
qed

lemma kset_sum_items: "kset_ok s \<Longrightarrow> set (kitems s) \<subseteq> set (enumerate 0 xs) \<Longrightarrow>
    ksum s = sum_list (map (\<lambda>i. xs ! i) (map fst (kitems s)))"
proof -
  assume ok: "kset_ok s" and sub: "set (kitems s) \<subseteq> set (enumerate 0 xs)"
  have "map snd (kitems s) = map (\<lambda>i. xs ! i) (map fst (kitems s))"
    using sub by (auto simp: in_set_enumerate_eq subset_iff)
  then show ?thesis using ok by (simp only: kset_ok_def)
qed

lemma mset_concat_cong: "(\<And>x. x \<in> set xs \<Longrightarrow> mset (f x) = mset (g x)) \<Longrightarrow>
    mset (concat (map f xs)) = mset (concat (map g xs))"
  by (induction xs) auto

lemma filter_full: "length (filter P xs) = length xs \<Longrightarrow> x \<in> set xs \<Longrightarrow> P x"
  using length_filter_less [of x xs P] by auto

text \<open>The outcome of the whole differencing run, from which the properties below are read off.\<close>

lemma karmarkar_karp_run:
  assumes k: "0 < k" "k \<le> length xs" and e: "e \<longrightarrow> length xs mod k = 0"
    and xs: "\<forall>x \<in> set xs. 0 \<le> x \<and> x \<le> L"
  shows "\<exists>st. karmarkar_karp xs k e = Inr (get_partitions st) \<and> state_good k L e st
    \<and> mset (items_of st) = mset (enumerate 0 xs)
    \<and> (e \<longrightarrow> (\<forall>p \<in> set (get_partitions st). length p * k = length xs))"
proof -
  let ?iss = "initial_items xs k e"
  have conc: "mset (concat ?iss) = mset (enumerate 0 xs)" using e by (rule initial_items_mset)
  have "\<forall>zs \<in> set ?iss. \<exists>st. mk_state zs k = Inr st \<and> state_good k L e st \<and> mset (items_of st) = mset zs"
  proof
    fix zs assume zs: "zs \<in> set ?iss"
    have "set zs \<subseteq> set (enumerate 0 xs)" using zs mset_eq_setD [OF conc] by auto
    then have "\<forall>x \<in> set zs. 0 \<le> snd x \<and> snd x \<le> L" using xs by (force simp: in_set_enumerate_eq)
    then show "\<exists>st. mk_state zs k = Inr st \<and> state_good k L e st \<and> mset (items_of st) = mset zs"
      using initial_items_lengths [OF e k(1) zs] k(1) by (intro mk_state_good) auto
  qed
  from efold_states [OF this, of "[]"] obtain q where q:
    "efold (\<lambda>items q. ebind (mk_state items k) (\<lambda>st. Inr (heappush q st))) ?iss [] = Inr q"
    "length q = length ?iss" "\<forall>s \<in> set q. state_good k L e s"
    "sum_mset (image_mset (\<lambda>s. mset (items_of s)) (mset q)) = mset (concat ?iss)" by auto
  have "q \<noteq> []"
  proof
    assume "q = []"
    then have "mset (enumerate 0 xs) = {#}" using q(2) conc by simp
    then have "length (enumerate 0 xs) = 0" by simp
    then show False using k unfolding length_enumerate by simp
  qed
  from kk_loop_good [OF this q(3)] obtain st where "kk_loop q = Inr [st] \<and> state_good k L e st
    \<and> mset (items_of st) = sum_mset (image_mset (\<lambda>s. mset (items_of s)) (mset q))" ..
  then have run: "kk_loop q = Inr [st]" "state_good k L e st"
    "mset (items_of st) = sum_mset (image_mset (\<lambda>s. mset (items_of s)) (mset q))" by simp_all
  from run(3) have "mset (items_of st) = mset (enumerate 0 xs)" unfolding q(4) conc .
  note st = run(1,2) this
  have counts: "length p * k = length xs" if e "p \<in> set (get_partitions st)" for p
  proof -
    have inv: "length (ksets st) = k" "same_counts (ksets st)"
      using st(2) that(1) by (simp_all add: state_good_def state_inv_def)
    have "\<forall>s \<in> set (ksets st). length (kitems s) = length p"
      using that(2) inv(2) unfolding get_partitions_def same_counts_def by (metis (no_types, lifting) imageE length_map list.set_map)
    then have "map (length \<circ> kitems) (ksets st) = replicate k (length p)"
      using inv(1) by (intro replicate_eqI) auto
    then have "length (items_of st) = k * length p"
      by (simp add: items_of_def length_concat comp_def sum_list_replicate)
    moreover have "length (items_of st) = length xs" using arg_cong [OF st(3), of size] by simp
    ultimately show ?thesis by simp
  qed
  have "karmarkar_karp xs k e = Inr (get_partitions st)"
    unfolding karmarkar_karp_def using k e q(1) st(1) counts
    by (simp add: ensure_def Let_def)
  then show ?thesis using st counts by blast
qed

section \<open>Properties of the partitions\<close>

lemma concat_get_partitions: "concat (get_partitions st) = map fst (items_of st)"
  by (simp add: get_partitions_def items_of_def map_concat comp_def)

lemma balanced_partitions_run:
  assumes k: "0 < k" "k \<le> length xs" and e: "e \<longrightarrow> length xs mod k = 0"
    and xs: "\<forall>x \<in> set xs. 0 \<le> x \<and> x \<le> L"
  shows "\<exists>st. get_seqlen_balanced_partitions xs k e = Inr (map sort (get_partitions st)) \<and> state_good k L e st
    \<and> mset (items_of st) = mset (enumerate 0 xs)
    \<and> (\<forall>p \<in> set (get_partitions st). p \<noteq> [])
    \<and> (e \<longrightarrow> (\<forall>p \<in> set (get_partitions st). length p * k = length xs))"
proof -
  from karmarkar_karp_run [OF assms] obtain st where st: "karmarkar_karp xs k e = Inr (get_partitions st)"
    "state_good k L e st" "mset (items_of st) = mset (enumerate 0 xs)"
    "e \<longrightarrow> (\<forall>p \<in> set (get_partitions st). length p * k = length xs)" by blast
  have len: "length (ksets st) = k" and "length (filter filled (ksets st)) = min k (length (items_of st))"
    using st(2) by (simp_all add: state_good_def state_inv_def)
  moreover have "length (items_of st) = length xs" using arg_cong [OF st(3), of size] by simp
  ultimately have "length (filter filled (ksets st)) = length (ksets st)" using k(2) by simp
  from filter_full [OF this] have ne: "\<forall>p \<in> set (get_partitions st). p \<noteq> []"
    by (auto simp: get_partitions_def)
  have "set (items_of st) = set (enumerate 0 xs)" using mset_eq_setD [OF st(3)] .
  then have "set (concat (get_partitions st)) = set [0..<length xs]"
    unfolding concat_get_partitions set_map by (metis map_fst_enumerate set_map add_0)
  moreover have "length (get_partitions st) = k" using len by (simp add: get_partitions_def)
  ultimately have "get_seqlen_balanced_partitions xs k e = Inr (map sort (get_partitions st))"
    using st(1) k(2) ne by (simp add: get_seqlen_balanced_partitions_def check_and_sort_partitions_def ensure_def)
  then show ?thesis using st ne by blast
qed

lemma sort_Nil_iff: "sort p = [] \<longleftrightarrow> p = []"
  by (metis length_0_conv length_sort)

lemma sum_list_map_sort: "sum_list (map f (sort p)) = sum_list (map (f :: nat \<Rightarrow> int) p)"
proof -
  have "mset (map f (sort p)) = mset (map f p)" by simp
  then show ?thesis by (metis sum_mset_sum_list)
qed

lemma partition_sums_within:
  assumes "state_good k L e st" "mset (items_of st) = mset (enumerate 0 xs)"
    and "p \<in> set (map sort (get_partitions st))" "p' \<in> set (map sort (get_partitions st))"
  shows "sum_list (map (\<lambda>i. xs ! i) p) - sum_list (map (\<lambda>i. xs ! i) p') \<le> L"
proof -
  have key: "\<exists>s \<in> set (ksets st). ksum s = sum_list (map (\<lambda>i. xs ! i) p)"
    if p: "p \<in> set (map sort (get_partitions st))" for p
  proof -
    obtain s where s: "s \<in> set (ksets st)" "p = sort (map fst (kitems s))"
      using p by (auto simp: get_partitions_def)
    have "kset_ok s" using assms(1) s(1) by (simp add: state_good_def state_inv_def)
    moreover have "set (kitems s) \<subseteq> set (enumerate 0 xs)"
      using mset_eq_setD [OF assms(2)] s(1) by (auto simp: items_of_def)
    ultimately have "ksum s = sum_list (map (\<lambda>i. xs ! i) (map fst (kitems s)))" by (rule kset_sum_items)
    then show ?thesis using s unfolding s(2) sum_list_map_sort by blast
  qed
  show ?thesis using key [OF assms(3)] key [OF assms(4)] assms(1)
    unfolding state_good_def sums_within_def by metis
qed

lemma partitions_perm:
  assumes "mset (items_of st) = mset (enumerate 0 xs)"
  shows "mset (concat (map sort (get_partitions st))) = mset [0..<length xs]"
proof -
  have "mset (concat (map sort (get_partitions st))) = mset (concat (map (\<lambda>p. p) (get_partitions st)))"
    by (rule mset_concat_cong) simp
  also have "\<dots> = image_mset fst (mset (items_of st))" by (simp add: concat_get_partitions)
  also have "\<dots> = mset (map fst (enumerate 0 xs))" by (simp only: assms mset_map)
  also have "\<dots> = mset [0..<length xs]" by (simp only: map_fst_enumerate add_0)
  finally show ?thesis .
qed

lemma partitions_length: "state_good k L e st \<Longrightarrow> length (map sort (get_partitions st)) = k"
  by (simp add: state_good_def state_inv_def get_partitions_def)

text \<open>C38: for every list of at least \<open>k \<ge> 1\<close> non-negative lengths (a multiple of \<open>k\<close> of them if equal
  sizes are asked for) \<open>get_seqlen_balanced_partitions\<close> passes all of its own assertions and returns
  \<open>k\<close> non-empty sorted partitions that contain each index exactly once, of equal size if asked.\<close>

theorem balanced_partitions_cover:
  assumes "0 < k" "k \<le> length xs" "e \<longrightarrow> length xs mod k = 0" "\<forall>x \<in> set xs. 0 \<le> x"
  shows "\<exists>ps. get_seqlen_balanced_partitions xs k e = Inr ps \<and> length ps = k
    \<and> mset (concat ps) = mset [0..<length xs] \<and> (\<forall>p \<in> set ps. p \<noteq> [] \<and> sorted p)
    \<and> (e \<longrightarrow> (\<forall>p \<in> set ps. length p * k = length xs))"
proof -
  have "\<forall>x \<in> set xs. 0 \<le> x \<and> x \<le> Max (set xs)" using assms(4) by simp
  from balanced_partitions_run [OF assms(1-3) this] obtain st where st:
    "get_seqlen_balanced_partitions xs k e = Inr (map sort (get_partitions st))" "state_good k (Max (set xs)) e st"
    "mset (items_of st) = mset (enumerate 0 xs)" "\<forall>p \<in> set (get_partitions st). p \<noteq> []"
    "e \<longrightarrow> (\<forall>p \<in> set (get_partitions st). length p * k = length xs)" by blast
  note partitions_perm [OF st(3)] partitions_length [OF st(2)]
  moreover have "\<forall>p \<in> set (map sort (get_partitions st)). p \<noteq> [] \<and> sorted p"
    using st(4) by (simp add: sort_Nil_iff)
  moreover have "e \<longrightarrow> (\<forall>p \<in> set (map sort (get_partitions st)). length p * k = length xs)"
    using st(5) by simp
  ultimately show ?thesis using st(1) by (intro exI [of _ "map sort (get_partitions st)"]) (simp only: simp_thms)
qed

theorem balanced_partitions_cover_witness:
  "\<exists>ps. get_seqlen_balanced_partitions [5, 1, 4, 2, 3, 3] 3 True = Inr ps \<and> length ps = 3
    \<and> mset (concat ps) = mset [0..<6] \<and> (\<forall>p \<in> set ps. length p = 2)"
proof -
  obtain ps where ps: "get_seqlen_balanced_partitions [5, 1, 4, 2, 3, 3] 3 True = Inr ps" "length ps = 3"
    "mset (concat ps) = mset [0..<length [5, 1, 4, 2, 3, 3 :: int]]"
    "\<forall>p \<in> set ps. length p * 3 = length [5, 1, 4, 2, 3, 3 :: int]"
    using balanced_partitions_cover [of 3 "[5, 1, 4, 2, 3, 3]" True] by auto
  have "\<forall>p \<in> set ps. length p = 2" using ps(4) by auto
  moreover have six: "length [5, 1, 4, 2, 3, 3 :: int] = 6" by simp
  ultimately show ?thesis using ps(1,2) ps(3) [unfolded six] by blast
qed

text \<open>C39: under the same conditions the token counts of any two partitions differ by at most the
  longest sequence.\<close>

theorem balanced_partitions_spread:
  assumes "0 < k" "k \<le> length xs" "e \<longrightarrow> length xs mod k = 0" "\<forall>x \<in> set xs. 0 \<le> x"
    and "get_seqlen_balanced_partitions xs k e = Inr ps" "p \<in> set ps" "p' \<in> set ps"
  shows "sum_list (map (\<lambda>i. xs ! i) p) - sum_list (map (\<lambda>i. xs ! i) p') \<le> Max (set xs)"
proof -
  have "\<forall>x \<in> set xs. 0 \<le> x \<and> x \<le> Max (set xs)" using assms(4) by simp
  from balanced_partitions_run [OF assms(1-3) this] obtain st where st:
    "get_seqlen_balanced_partitions xs k e = Inr (map sort (get_partitions st))" "state_good k (Max (set xs)) e st"
    "mset (items_of st) = mset (enumerate 0 xs)" by blast
  show ?thesis using st assms(5-7) partition_sums_within by simp
qed

theorem balanced_partitions_spread_witness:
  "\<exists>ps. get_seqlen_balanced_partitions [7, 1, 4] 2 False = Inr ps
    \<and> (\<forall>p \<in> set ps. \<forall>p' \<in> set ps. sum_list (map (\<lambda>i. [7, 1, 4] ! i) p) - sum_list (map (\<lambda>i. [7, 1, 4] ! i) p') \<le> (7 :: int))"
proof -
  have "get_seqlen_balanced_partitions [7, 1, 4] 2 False = Inr [[0], [1, 2]]"
    by code_simp
  then show ?thesis using balanced_partitions_spread [of 2 "[7, 1, 4]" False "[[0], [1, 2]]"] by simp
qed

section \<open>Mini-batches\<close>

definition ceildiv :: "int \<Rightarrow> int \<Rightarrow> error + int" where
  "ceildiv a b = ensure ZeroDivisionError (b \<noteq> 0) (Inr (- (a div (- b))))"

text \<open>
  \<open>gather\<close> is the collective \<open>all_gather_object_cpu\<close> (what this rank contributes gives the list of
  all contributions), \<open>allreduce\<close> the maximum reduction of the communicator, if there is one.
\<close>

definition num_mini_batches :: "int list \<Rightarrow> int \<Rightarrow> bool \<Rightarrow> int option \<Rightarrow>
    (int \<Rightarrow> int list) \<Rightarrow> (int \<Rightarrow> int) option \<Rightarrow> error + int" where
  "num_mini_batches seq_len_effective max_token_len same_mini_num_in_dp min_num_mini_batch gather allreduce =
     ensure ValueError (seq_len_effective \<noteq> [])
     (let max_seq_len = Max (set seq_len_effective);
          max_token_len = (if max_token_len < max_seq_len then max_seq_len else max_token_len);
          total_seqlen = sum_list seq_len_effective in
      ebind (ceildiv total_seqlen max_token_len) (\<lambda>c.
      let num = min (int (length seq_len_effective)) c;
          num = (case min_num_mini_batch of None \<Rightarrow> num | Some m \<Rightarrow> max m num) in
      ensure ValueError (same_mini_num_in_dp \<longrightarrow> gather num \<noteq> [])
      (let num = (if same_mini_num_in_dp then Max (set (gather num)) else num) in
       Inr (case allreduce of None \<Rightarrow> num | Some f \<Rightarrow> f num))))"

definition workload_key :: "int list \<Rightarrow> nat list \<Rightarrow> int \<times> nat" where
  "workload_key seq_len_effective part =
     (sum_list (map (\<lambda>idx. (seq_len_effective ! idx)\<^sup>2) part),
      if part \<noteq> [] then Min (set part) else 0)"

text \<open>A stable descending sort, as \<open>list.sort(key=..., reverse=True)\<close>.\<close>

definition sort_desc_key :: "('a \<Rightarrow> 'b::linorder) \<Rightarrow> 'a list \<Rightarrow> 'a list" where
  "sort_desc_key f xs = rev (sort_key f (rev xs))"

definition pick_items :: "'a list \<Rightarrow> nat list \<Rightarrow> error + 'a list" where
  "pick_items batch part =
     ensure IndexError (\<forall>idx \<in> set part. idx < length batch) (Inr (map (\<lambda>idx. batch ! idx) part))"

definition rearrange_mini_batches :: "'a list \<Rightarrow> int list \<Rightarrow> int \<Rightarrow> bool \<Rightarrow> int option \<Rightarrow> bool \<Rightarrow>
    (int \<Rightarrow> int list) \<Rightarrow> (int \<Rightarrow> int) option \<Rightarrow> error + ('a list list \<times> nat list list)" where
  "rearrange_mini_batches batch seq_len_effective max_token_len same_mini_num_in_dp min_num_mini_batch
       use_dynamic_bsz_balance gather allreduce =
     ebind (num_mini_batches seq_len_effective max_token_len same_mini_num_in_dp min_num_mini_batch gather allreduce)
       (\<lambda>num.
      ensure AssertionError (num \<le> int (length seq_len_effective))
      (ebind (get_seqlen_balanced_partitions seq_len_effective (nat num) False) (\<lambda>mini_bsz_idx.
       let mini_bsz_idx = (if use_dynamic_bsz_balance
                           then sort_desc_key (workload_key seq_len_effective) mini_bsz_idx else mini_bsz_idx) in
       ebind (efold (\<lambda>part mbs. ebind (pick_items batch part) (\<lambda>mb. Inr (mbs @ [mb]))) mini_bsz_idx [])
         (\<lambda>mini_batches. Inr (mini_batches, mini_bsz_idx)))))"

lemma sum_over_partitions:
  assumes "mset (concat ps) = mset [0..<length xs]"
  shows "sum_list (map (\<lambda>p. sum_list (map (\<lambda>i. xs ! i) p)) ps) = sum_list (xs :: int list)"
proof -
  have conc: "sum_list (map (\<lambda>p. sum_list (map f p)) ps) = sum_list (map f (concat ps))" for f :: "nat \<Rightarrow> int"
    by (induction ps) simp_all
  have "mset (map (\<lambda>i. xs ! i) (concat ps)) = mset (map (\<lambda>i. xs ! i) [0..<length xs])"
    unfolding mset_map assms ..
  then have "sum_list (map (\<lambda>i. xs ! i) (concat ps)) = sum_list (map (\<lambda>i. xs ! i) [0..<length xs])"
    by (metis sum_mset_sum_list)
  then show ?thesis unfolding conc by (simp only: map_nth)
qed

lemma sum_list_lower: "(\<forall>x \<in> set xs. c \<le> f x) \<Longrightarrow> int (length xs) * c \<le> sum_list (map f xs)"
  by (induction xs) (auto simp: algebra_simps)

lemma sum_list_upper: "(\<forall>x \<in> set xs. f x \<le> c) \<Longrightarrow> sum_list (map f xs) \<le> int (length xs) * c"
  by (induction xs) (auto simp: algebra_simps)

lemma ceildiv_eq: "ceildiv a b = Inr c \<longleftrightarrow> b \<noteq> 0 \<and> c = ceil_div a b"
  by (auto simp: ceildiv_def ceil_div_def ensure_def div_minus_right)

lemma num_mini_batches_enough:
  assumes "num_mini_batches xs M same mn gather allreduce = Inr num" "\<forall>x \<in> set xs. 0 \<le> x"
    and "\<forall>c. c \<in> set (gather c)" "\<forall>f c. allreduce = Some f \<longrightarrow> c \<le> f c"
  shows "sum_list xs \<le> num * max M (Max (set xs))"
proof -
  define M' where "M' = max M (Max (set xs))"
  have M': "(if M < Max (set xs) then Max (set xs) else M) = M'" by (simp add: M'_def max_def)
  have ne: "xs \<noteq> []" using assms(1) by (auto simp: num_mini_batches_def ensure_def split: if_splits)
  then have nonneg: "0 \<le> Max (set xs)" using assms(2) by (metis Max_in List.finite_set set_empty)
  obtain c where c: "ceildiv (sum_list xs) M' = Inr c"
    using assms(1) by (auto simp: num_mini_batches_def ensure_Inr_iff ebind_Inr_iff Let_def M')
  have pos: "0 < M'" using c nonneg by (auto simp: ceildiv_eq M'_def max_def split: if_splits)
  define n0 where "n0 = min (int (length xs)) c"
  define n1 where "n1 = (case mn of None \<Rightarrow> n0 | Some m \<Rightarrow> max m n0)"
  define n2 where "n2 = (if same then Max (set (gather n1)) else n1)"
  have num: "num = (case allreduce of None \<Rightarrow> n2 | Some f \<Rightarrow> f n2)"
    using assms(1) c unfolding n2_def n1_def n0_def
    by (simp add: num_mini_batches_def ensure_Inr_iff Let_def M')
  have "n0 \<le> n1" by (auto simp: n1_def split: option.splits)
  also have "n1 \<le> n2" using assms(3) by (auto simp: n2_def)
  also have "n2 \<le> num" using assms(4) by (auto simp: num split: option.splits)
  finally have le: "n0 * M' \<le> num * M'" using pos by simp
  have "\<forall>x \<in> set xs. x \<le> M'" using ne by (auto simp: M'_def le_max_iff_disj)
  then have "sum_list xs \<le> int (length xs) * M'" using sum_list_upper [of xs "\<lambda>x. x" M'] by simp
  moreover have "sum_list xs \<le> c * M'" using c pos by (simp add: ceildiv_eq ceil_div_le)
  ultimately have "sum_list xs \<le> n0 * M'" by (simp add: n0_def min_def)
  then show ?thesis using le by (simp add: M'_def)
qed

lemma efold_pick:
  "\<forall>p \<in> set ps. \<forall>i \<in> set p. i < length batch \<Longrightarrow>
   efold (\<lambda>p mbs. ebind (pick_items batch p) (\<lambda>mb. Inr (mbs @ [mb]))) ps mbs
     = Inr (mbs @ map (map (\<lambda>i. batch ! i)) ps)"
  by (induction ps arbitrary: mbs) (simp_all add: pick_items_def ensure_def)

lemma mset_sort_desc_key [simp]: "mset (sort_desc_key f xs) = mset xs"
  by (simp add: sort_desc_key_def)

text \<open>When the agreed number of mini-batches is between one and the number of sequences,
  \<open>rearrange_mini_batches\<close> returns that many mini-batches, together they are a permutation of the
  batch, the index lists say where each item came from, and no mini-batch exceeds the effective
  token limit by more than the longest sequence.\<close>

theorem mini_batches_bounded:
  assumes "num_mini_batches xs M same mn gather allreduce = Inr num" "\<forall>x \<in> set xs. 0 \<le> x"
    and "\<forall>c. c \<in> set (gather c)" "\<forall>f c. allreduce = Some f \<longrightarrow> c \<le> f c"
    and "1 \<le> num" "num \<le> int (length xs)" "length batch = length xs"
  shows "\<exists>mbs idxs. rearrange_mini_batches batch xs M same mn dyn gather allreduce = Inr (mbs, idxs)
    \<and> int (length mbs) = num \<and> mset (concat mbs) = mset batch \<and> mbs = map (map (\<lambda>i. batch ! i)) idxs
    \<and> (\<forall>p \<in> set idxs. sum_list (map (\<lambda>i. xs ! i) p) \<le> max M (Max (set xs)) + Max (set xs))"
proof -
  let ?k = "nat num" and ?L = "Max (set xs)"
  have k: "0 < ?k" "?k \<le> length xs" "False \<longrightarrow> length xs mod ?k = 0" using assms(5,6) by auto
  have "\<forall>x \<in> set xs. 0 \<le> x \<and> x \<le> ?L" using assms(2) by simp
  from balanced_partitions_run [OF k this] obtain st where st:
    "get_seqlen_balanced_partitions xs ?k False = Inr (map sort (get_partitions st))" "state_good ?k ?L False st"
    "mset (items_of st) = mset (enumerate 0 xs)" by blast
  define ps where "ps = map sort (get_partitions st)"
  define idxs where "idxs = (if dyn then sort_desc_key (workload_key xs) ps else ps)"
  have perm: "mset idxs = mset ps" by (simp add: idxs_def)
  then have sets: "set idxs = set ps" by (metis set_mset_mset)
  have cover: "mset (concat ps) = mset [0..<length xs]" "length ps = ?k"
    unfolding ps_def using partitions_perm [OF st(3)] partitions_length [OF st(2)] by simp_all
  have "mset (concat idxs) = mset [0..<length xs]"
    using mset_concat_perm [OF perm, of "\<lambda>p. p"] cover by simp
  then have conc: "mset (concat (map (map (\<lambda>i. batch ! i)) idxs)) = mset batch"
    unfolding map_concat [symmetric] mset_map using assms(7) by (metis map_nth mset_map)
  have inb: "\<forall>p \<in> set idxs. \<forall>i \<in> set p. i < length batch"
    using mset_eq_setD [OF cover(1)] assms(7) unfolding sets by auto
  have "length idxs = ?k" using perm cover(2) by (metis size_mset)
  moreover have "rearrange_mini_batches batch xs M same mn dyn gather allreduce
      = Inr (map (map (\<lambda>i. batch ! i)) idxs, idxs)"
    using assms(1,6) st(1) efold_pick [OF inb, of "[]"]
    by (simp add: rearrange_mini_batches_def ensure_def Let_def flip: idxs_def ps_def)
  moreover have "sum_list (map (\<lambda>i. xs ! i) p) \<le> max M ?L + ?L" if "p \<in> set idxs" for p
  proof -
    let ?S = "\<lambda>p. sum_list (map (\<lambda>i. xs ! i) p)"
    have "\<forall>p' \<in> set ps. ?S p - ?L \<le> ?S p'"
      using partition_sums_within [OF st(2,3)] that unfolding sets ps_def by (force simp: algebra_simps)
    from sum_list_lower [OF this] have "num * (?S p - ?L) \<le> sum_list xs"
      using cover assms(5) by (simp add: sum_over_partitions)
    also have "\<dots> \<le> num * max M ?L" by (rule num_mini_batches_enough) fact+
    finally show ?thesis using assms(5) by simp
  qed
  ultimately show ?thesis using conc assms(5) by (intro exI [of _ idxs] exI conjI) (auto simp: nat_le_iff)
qed

theorem mini_batches_bounded_witness:
  "\<exists>mbs idxs. rearrange_mini_batches ''abc'' [3, 3, 3] 5 True None True (\<lambda>n. [n, 2]) None = Inr (mbs, idxs)
    \<and> int (length mbs) = 2 \<and> mset (concat mbs) = mset ''abc''
    \<and> (\<forall>p \<in> set idxs. sum_list (map (\<lambda>i. [3, 3, 3 :: int] ! i) p) \<le> 8)"
proof -
  have num: "num_mini_batches [3, 3, 3] 5 True None (\<lambda>n. [n, 2]) None = Inr 2"
    by code_simp
  show ?thesis
    using mini_batches_bounded [of "[3, 3, 3]" 5 True None "\<lambda>n. [n, 2]" None 2 "''abc''" True] num by auto
qed

end
