(* ===== verification/Schema.thy ===== *)
theory Schema
  imports Py_Base
begin

text \<open>
  \<open>cosmos_rl/dispatcher/data/schema.py\<close> and \<open>cosmos_rl/utils/payload.py\<close>: the data that travels
  between rollout workers and the controller. A \<open>payload\<close> is one prompt with what was generated
  for it (the code's \<open>RLPayload\<close>), a \<open>rollout\<close> one generated sample; \<open>extract_rollouts\<close> turns
  payloads into rollouts.

  Values of type \<open>Any\<close> are \<open>pyval\<close>s; \<open>VArray\<close> is an array or tensor with at least one dimension,
  given by its slices. Metrics are numeric; the optional \<open>None\<close> of a field is \<open>None\<close> here. The
  field \<open>role\<close> of a chat message is a string.
\<close>

section \<open>Values\<close>

datatype pyval =
    VNone
  | VBool bool
  | VInt int
  | VFloat rat
  | VStr string
  | VList "pyval list"
  | VArray "pyval list"
  | VDict "(string \<times> pyval) list"

type_synonym metrics = "(string, rat) dict"

record chat_message =
  cm_role :: string
  cm_content :: pyval

type_synonym conversation = "chat_message list"

record payload =
  pl_prompt :: pyval
  pl_prompt_idx :: int
  pl_conversation :: "conversation option"
  pl_reference_answer :: "string option"
  pl_weight_version :: int
  pl_completions :: "pyval list option"
  pl_completed_conversations :: "conversation option list option"
  pl_n_ignore_prefix_tokens :: "int list option"
  pl_rewards :: "rat list option"
  pl_advantages :: "rat list option"
  pl_filter_rewards :: "rat list option"
  pl_completion_token_ids :: "int list list list option"
  pl_completion_logprobs :: "rat list list list option"
  pl_prompt_logprobs :: "rat list list option"
  pl_prompt_token_ids :: "int list list option"
  pl_extra_info :: "(string, pyval) dict option"
  pl_report_metrics :: "metrics list option"
  pl_teacher_result_uuids :: "string list option"
  pl_valid :: bool
  pl_cumulative_logprob :: "rat option list option"

record rollout =
  ro_prompt :: pyval
  ro_prompt_idx :: int
  ro_conversation :: "conversation option"
  ro_completion :: pyval
  ro_completed_conversation :: "conversation option"
  ro_is_end :: bool
  ro_reward :: rat
  ro_advantage :: rat
  ro_n_ignore_prefix_tokens :: int
  ro_filter_reward :: rat
  ro_completion_token_ids :: "int list list option"
  ro_completion_logprobs :: "rat list list option"
  ro_prompt_logprobs :: "rat list list option"
  ro_prompt_token_ids :: "int list list option"
  ro_extra_info :: "(string, pyval) dict option"
  ro_weight_version :: int
  ro_report_metrics :: "metrics option"
  ro_teacher_result_uuid :: string
  ro_teacher_logprobs :: "rat list list option"

text \<open>What an inference engine returns for a prompt, src/cosmos\_rl/rollout/schema.py.\<close>

record rollout_result =
  rr_prompt :: pyval
  rr_conversation :: "conversation option"
  rr_completions :: "pyval list"
  rr_completed_conversations :: "conversation list option"
  rr_completion_logprobs :: "rat list list list option"
  rr_prompt_logprobs :: "rat list list option"
  rr_completion_token_ids :: "int list list list option"
  rr_cumulative_logprob :: "rat list option"
  rr_prompt_token_ids :: "int list list option"
  rr_extra_info :: "(string, pyval) dict option"

definition collate_fn :: "(int \<times> payload) list \<Rightarrow> int list \<times> payload list" where
  "collate_fn batch = (map fst batch, map snd batch)"

section \<open>From payloads to rollouts\<close>

text \<open>\<open>len(x)\<close> of an optional list raises on \<open>None\<close>.\<close>

definition opt_len :: "'a list option \<Rightarrow> error + nat" where
  "opt_len x = (case x of None \<Rightarrow> Inl TypeError | Some xs \<Rightarrow> Inr (length xs))"

definition some_or :: "'a option \<Rightarrow> 'a \<Rightarrow> 'a option" where
  "some_or x d = (case x of None \<Rightarrow> Some d | Some y \<Rightarrow> Some y)"

definition populate_for_none_fields :: "payload \<Rightarrow> error + payload" where
  "populate_for_none_fields p =
     ebind (opt_len (pl_rewards p)) (\<lambda>n. Inr (p\<lparr>
       pl_filter_rewards := some_or (pl_filter_rewards p) (replicate n 0),
       pl_completion_logprobs := some_or (pl_completion_logprobs p) (replicate n []),
       pl_completion_token_ids := some_or (pl_completion_token_ids p) (replicate n []),
       pl_report_metrics := some_or (pl_report_metrics p) (replicate n []),
       pl_teacher_result_uuids := some_or (pl_teacher_result_uuids p) (replicate n ''''),
       pl_completions := some_or (pl_completions p) (replicate n VNone),
       pl_completed_conversations := some_or (pl_completed_conversations p) (replicate n None),
       pl_n_ignore_prefix_tokens := some_or (pl_n_ignore_prefix_tokens p) (replicate n 0)\<rparr>))"

definition same_length :: "nat \<Rightarrow> 'a list option \<Rightarrow> error + unit" where
  "same_length n x = (case x of None \<Rightarrow> Inr () | Some xs \<Rightarrow> ensure AssertionError (n = length xs) (Inr ()))"

definition check_payload_lengths :: "payload \<Rightarrow> error + unit" where
  "check_payload_lengths p =
     ebind (opt_len (pl_completions p)) (\<lambda>c.
     ebind (opt_len (pl_rewards p)) (\<lambda>r.
     ensure AssertionError (c = r)
     (ebind (opt_len (pl_advantages p)) (\<lambda>a.
      ensure AssertionError (r = a)
      (ebind (same_length c (pl_completed_conversations p)) (\<lambda>_.
       same_length c (pl_n_ignore_prefix_tokens p)))))))"

text \<open>The value of an entry of \<open>extra_info\<close> for the rollout at \<open>idx\<close> of \<open>n\<close>.\<close>

fun extra_value :: "nat \<Rightarrow> nat \<Rightarrow> pyval \<Rightarrow> pyval" where
  "extra_value n idx (VList xs) = (if length xs = n then xs ! idx else VList xs)"
| "extra_value n idx (VArray xs) = (if length xs = n then xs ! idx else VArray xs)"
| "extra_value n idx v = v"

definition extra_info_at :: "nat \<Rightarrow> nat \<Rightarrow> (string, pyval) dict option \<Rightarrow> (string, pyval) dict" where
  "extra_info_at n idx info = (case info of None \<Rightarrow> [] | Some d \<Rightarrow> map (\<lambda>(k, v). (k, extra_value n idx v)) d)"

definition mk_rollout :: "payload \<Rightarrow> bool \<Rightarrow> nat \<Rightarrow> nat \<Rightarrow> rollout" where
  "mk_rollout p ended n i = \<lparr>
     ro_prompt = pl_prompt p,
     ro_prompt_idx = pl_prompt_idx p,
     ro_conversation = pl_conversation p,
     ro_completion = the (pl_completions p) ! i,
     ro_completed_conversation = the (pl_completed_conversations p) ! i,
     ro_is_end = ended,
     ro_reward = the (pl_rewards p) ! i,
     ro_advantage = the (pl_advantages p) ! i,
     ro_n_ignore_prefix_tokens = the (pl_n_ignore_prefix_tokens p) ! i,
     ro_filter_reward = the (pl_filter_rewards p) ! i,
     ro_completion_token_ids = Some (the (pl_completion_token_ids p) ! i),
     ro_completion_logprobs = Some (the (pl_completion_logprobs p) ! i),
     ro_prompt_logprobs = pl_prompt_logprobs p,
     ro_prompt_token_ids = pl_prompt_token_ids p,
     ro_extra_info = Some (extra_info_at n i (pl_extra_info p)),
     ro_weight_version = pl_weight_version p,
     ro_report_metrics = Some (the (pl_report_metrics p) ! i),
     ro_teacher_result_uuid = the (pl_teacher_result_uuids p) ! i, ro_teacher_logprobs = None\<rparr>"

text \<open>How far \<open>zip\<close> over the ten lists goes; all of them are present once the fields are populated,
  except \<open>advantages\<close>.\<close>

definition zip_length :: "payload \<Rightarrow> error + nat" where
  "zip_length p = ebind (opt_len (pl_advantages p)) (\<lambda>a. Inr (foldr min
     [length (the (pl_completions p)), length (the (pl_completed_conversations p)),
      length (the (pl_rewards p)), length (the (pl_n_ignore_prefix_tokens p)),
      length (the (pl_filter_rewards p)), length (the (pl_completion_token_ids p)),
      length (the (pl_completion_logprobs p)), length (the (pl_report_metrics p)),
      length (the (pl_teacher_result_uuids p))] a))"

definition payload_rollouts :: "payload \<Rightarrow> bool \<Rightarrow> bool \<Rightarrow> error + rollout list" where
  "payload_rollouts p ended is_validation =
     ebind (if is_validation then Inr () else check_payload_lengths p) (\<lambda>_.
     ebind (populate_for_none_fields p) (\<lambda>p.
     ebind (zip_length p) (\<lambda>n.
     let rollouts = map (mk_rollout p ended n) [0..<n] in
     ensure AssertionError (\<forall>r \<in> set rollouts. 0 \<le> ro_prompt_idx r) (Inr rollouts))))"

definition extract_rollouts :: "payload list \<Rightarrow> bool \<Rightarrow> bool \<Rightarrow> error + rollout list list" where
  "extract_rollouts payloads ended is_validation =
     efold (\<lambda>p rss. ebind (payload_rollouts p ended is_validation) (\<lambda>rs. Inr (rss @ [rs]))) payloads []"

section \<open>What a payload turns into\<close>

text \<open>A payload a rollout worker reports for training: one reward and one advantage per completion,
  every optional list either absent or of that length.\<close>

definition fits :: "nat \<Rightarrow> 'a list option \<Rightarrow> bool" where
  "fits n x = (case x of None \<Rightarrow> True | Some xs \<Rightarrow> length xs = n)"

definition payload_ok :: "payload \<Rightarrow> bool" where
  "payload_ok p \<longleftrightarrow> 0 \<le> pl_prompt_idx p \<and> (case pl_completions p of None \<Rightarrow> False | Some cs \<Rightarrow>
     pl_rewards p \<noteq> None \<and> fits (length cs) (pl_rewards p)
     \<and> pl_advantages p \<noteq> None \<and> fits (length cs) (pl_advantages p)
     \<and> fits (length cs) (pl_completed_conversations p) \<and> fits (length cs) (pl_n_ignore_prefix_tokens p)
     \<and> fits (length cs) (pl_filter_rewards p) \<and> fits (length cs) (pl_completion_token_ids p)
     \<and> fits (length cs) (pl_completion_logprobs p) \<and> fits (length cs) (pl_report_metrics p)
     \<and> fits (length cs) (pl_teacher_result_uuids p))"

lemma fits_some_or: "fits n x \<Longrightarrow> length (the (some_or x (replicate n d))) = n"
  by (auto simp: fits_def some_or_def split: option.splits)

lemma payload_rollouts_ok:
  assumes "payload_ok p"
  shows "\<exists>rs. payload_rollouts p ended v = Inr rs \<and> length rs = length (the (pl_completions p))
    \<and> map ro_completion rs = the (pl_completions p) \<and> map ro_reward rs = the (pl_rewards p)
    \<and> map ro_advantage rs = the (pl_advantages p)
    \<and> (\<forall>r \<in> set rs. ro_prompt_idx r = pl_prompt_idx p \<and> ro_weight_version r = pl_weight_version p)"
proof -
  obtain cs rw ad where c: "pl_completions p = Some cs" "pl_rewards p = Some rw" "pl_advantages p = Some ad"
    and len: "length rw = length cs" "length ad = length cs"
    using assms by (auto simp: payload_ok_def fits_def split: option.splits)
  have chk: "check_payload_lengths p = Inr ()"
    using assms c len
    by (simp add: check_payload_lengths_def opt_len_def same_length_def payload_ok_def fits_def split: option.splits)
  have fit: "fits (length cs) (pl_completed_conversations p)" "fits (length cs) (pl_n_ignore_prefix_tokens p)"
    "fits (length cs) (pl_filter_rewards p)" "fits (length cs) (pl_completion_token_ids p)"
    "fits (length cs) (pl_completion_logprobs p)" "fits (length cs) (pl_report_metrics p)"
    "fits (length cs) (pl_teacher_result_uuids p)"
    using assms c by (simp_all add: payload_ok_def)
  define q where "q = projr (populate_for_none_fields p)"
  have q: "populate_for_none_fields p = Inr q"
    by (simp add: q_def populate_for_none_fields_def opt_len_def c)
  have same: "pl_completions q = Some cs" "pl_rewards q = Some rw" "pl_advantages q = Some ad"
      "pl_prompt_idx q = pl_prompt_idx p" "pl_weight_version q = pl_weight_version p"
    by (simp_all add: q_def populate_for_none_fields_def opt_len_def c) (simp add: some_or_def)
  have lens: "length (the (pl_completed_conversations q)) = length cs"
    "length (the (pl_n_ignore_prefix_tokens q)) = length cs" "length (the (pl_filter_rewards q)) = length cs"
    "length (the (pl_completion_token_ids q)) = length cs" "length (the (pl_completion_logprobs q)) = length cs"
    "length (the (pl_report_metrics q)) = length cs" "length (the (pl_teacher_result_uuids q)) = length cs"
    by (simp_all add: q_def populate_for_none_fields_def opt_len_def c len fits_some_or fit)
  have n: "zip_length q = Inr (length cs)"
    by (simp add: zip_length_def opt_len_def same len lens)
  define rs where "rs = map (mk_rollout q ended (length cs)) [0..<length cs]"
  have idx: "\<forall>r \<in> set rs. ro_prompt_idx r = pl_prompt_idx p \<and> ro_weight_version r = pl_weight_version p"
    by (auto simp: rs_def mk_rollout_def same)
  have maps: "map ro_completion rs = cs" "map ro_reward rs = rw" "map ro_advantage rs = ad"
    by (rule nth_equalityI; simp add: rs_def mk_rollout_def same len)+
  have "0 \<le> pl_prompt_idx p" using assms by (simp add: payload_ok_def)
  then have "\<forall>r \<in> set rs. 0 \<le> ro_prompt_idx r" using idx by simp
  then have "ensure AssertionError (\<forall>r \<in> set rs. 0 \<le> ro_prompt_idx r) (Inr rs) = Inr rs"
    by (simp add: ensure_def)
  then have "payload_rollouts p ended v = Inr rs"
    by (simp only: payload_rollouts_def Let_def q n chk if_cancel ebind_simps flip: rs_def)
  moreover have "length rs = length cs" by (simp add: rs_def)
  ultimately show ?thesis using idx maps c by simp
qed

lemma extract_rollouts_snoc:
  assumes "\<forall>p \<in> set ps. \<exists>rs. payload_rollouts p ended v = Inr rs \<and> Q p rs"
  shows "\<exists>rss. efold (\<lambda>p rss. ebind (payload_rollouts p ended v) (\<lambda>rs. Inr (rss @ [rs]))) ps acc = Inr (acc @ rss)
    \<and> list_all2 Q ps rss"
  using assms
proof (induction ps arbitrary: acc)
  case Nil
  then show ?case by simp
next
  case (Cons p ps)
  then obtain rs where rs: "payload_rollouts p ended v = Inr rs" "Q p rs" by auto
  from Cons.IH [of "acc @ [rs]"] Cons.prems obtain rss where
    "efold (\<lambda>p rss. ebind (payload_rollouts p ended v) (\<lambda>rs. Inr (rss @ [rs]))) ps (acc @ [rs]) = Inr ((acc @ [rs]) @ rss)"
    "list_all2 Q ps rss" by auto
  then show ?case using rs by (intro exI [of _ "rs # rss"]) simp
qed

text \<open>For payloads with one reward and one advantage per completion, \<open>extract_rollouts\<close> raises
  nothing and gives, payload by payload and in order, one rollout per completion with that
  completion, reward and advantage, tagged with the payload's prompt index and weight version.\<close>

theorem extract_rollouts_faithful:
  assumes "\<forall>p \<in> set ps. payload_ok p"
  shows "\<exists>rss. extract_rollouts ps ended v = Inr rss \<and> list_all2 (\<lambda>p rs.
      map ro_completion rs = the (pl_completions p) \<and> map ro_reward rs = the (pl_rewards p)
      \<and> map ro_advantage rs = the (pl_advantages p)
      \<and> (\<forall>r \<in> set rs. ro_prompt_idx r = pl_prompt_idx p \<and> ro_weight_version r = pl_weight_version p)) ps rss"
proof -
  let ?Q = "\<lambda>p rs. map ro_completion rs = the (pl_completions p) \<and> map ro_reward rs = the (pl_rewards p)
      \<and> map ro_advantage rs = the (pl_advantages p)
      \<and> (\<forall>r \<in> set rs. ro_prompt_idx r = pl_prompt_idx p \<and> ro_weight_version r = pl_weight_version p)"
  have "\<forall>p \<in> set ps. \<exists>rs. payload_rollouts p ended v = Inr rs \<and> ?Q p rs"
    using assms payload_rollouts_ok [of _ ended v] by blast
  from extract_rollouts_snoc [OF this, of "[]"] show ?thesis
    unfolding extract_rollouts_def append_Nil .
qed

definition sample_payload :: payload where
  "sample_payload = \<lparr> pl_prompt = VStr ''2+2?'', pl_prompt_idx = 7, pl_conversation = None,
     pl_reference_answer = None, pl_weight_version = 3, pl_completions = Some [VStr ''4'', VStr ''5''],
     pl_completed_conversations = None, pl_n_ignore_prefix_tokens = None, pl_rewards = Some [1, 0],
     pl_advantages = Some [1, -1], pl_filter_rewards = None, pl_completion_token_ids = None,
     pl_completion_logprobs = None, pl_prompt_logprobs = None, pl_prompt_token_ids = None,
     pl_extra_info = None, pl_report_metrics = None, pl_teacher_result_uuids = None,
     pl_valid = True, pl_cumulative_logprob = None \<rparr>"

theorem extract_rollouts_faithful_witness:
  "\<exists>rs. extract_rollouts [sample_payload] False False = Inr [rs]
    \<and> map ro_completion rs = [VStr ''4'', VStr ''5''] \<and> map ro_reward rs = [1, 0]
    \<and> (\<forall>r \<in> set rs. ro_prompt_idx r = 7 \<and> ro_weight_version r = 3)"
proof -
  have "\<forall>p \<in> set [sample_payload]. payload_ok p"
    by (simp add: sample_payload_def payload_ok_def fits_def)
  from extract_rollouts_faithful [OF this, of False False]
  show ?thesis by (auto simp: list_all2_Cons1 sample_payload_def)
qed

end
