(* ===== verification/Replica_Model.thy ===== *)
theory Replica_Model
  imports Schema
begin

text \<open>
  \<open>cosmos_rl/dispatcher/protocol.py\<close> (registration requests) and
  \<open>cosmos_rl/dispatcher/replica.py\<close>: an \<open>atom\<close> is one worker process, a \<open>replica\<close> the set of atoms
  of one data-parallel unit. A replica has arrived when it has as many atoms as the product of its
  group sizes.

  The lemmas show which requests and which atoms are accepted, and that every replica the
  controller can build keeps \<open>replica_inv\<close>.
\<close>

section \<open>Requests\<close>

definition POLICY :: string where "POLICY = ''POLICY''"

definition ROLLOUT :: string where "ROLLOUT = ''ROLLOUT''"

definition REFERENCE :: string where "REFERENCE = ''REFERENCE''"

definition all_roles :: "string list" where
  "all_roles = [POLICY, ROLLOUT, REFERENCE]"

definition MESH_NAMES :: "string list" where
  "MESH_NAMES = [''pp'', ''dp_shard'', ''cp'', ''tp'']"

record register_request =
  rq_replica_name :: string
  rq_role :: string
  rq_mesh_names :: "string list"
  rq_global_rank :: int
  rq_host_ip :: string
  rq_host_name :: string
  rq_ranks :: "int list"
  rq_group_size :: "int list"

definition original_map :: "register_request \<Rightarrow> (string, int \<times> int) dict" where
  "original_map rq = fold (\<lambda>(mesh_name, rank, group_size). dict_set mesh_name (rank, group_size))
     (zip (rq_mesh_names rq) (zip (rq_ranks rq) (rq_group_size rq))) []"

definition dict_item :: "('k, 'v) dict \<Rightarrow> 'k \<Rightarrow> error + 'v" where
  "dict_item d k = (case dict_get d k of None \<Rightarrow> Inl KeyError | Some v \<Rightarrow> Inr v)"

definition validate_mesh_names :: "register_request \<Rightarrow> error + register_request" where
  "validate_mesh_names rq =
     ensure AssertionError (length (rq_mesh_names rq) = length (rq_ranks rq)
                            \<and> length (rq_ranks rq) = length (rq_group_size rq))
     (ensure AssertionError (set (rq_mesh_names rq) \<subseteq> set MESH_NAMES)
     (ensure AssertionError (rq_role rq \<in> set all_roles)
     (ensure AssertionError (0 < length (rq_replica_name rq))
     (ebind (efold (\<lambda>mesh_name (names, ranks, sizes).
               ebind (dict_item (original_map rq) mesh_name) (\<lambda>(rank, group_size).
                 Inr (names @ [mesh_name], ranks @ [rank], sizes @ [group_size])))
             MESH_NAMES ([], [], []))
       (\<lambda>(names, ranks, sizes).
         Inr (rq\<lparr>rq_mesh_names := names, rq_ranks := ranks, rq_group_size := sizes\<rparr>))))))"

section \<open>Atoms\<close>

record atom =
  at_replica_name :: string
  at_ranks :: "int list"
  at_global_rank :: int
  at_host_ip :: string
  at_host_name :: string
  at_trace_path :: "string option"
  at_group_size :: "int list"
  at_rollout_queue :: "rollout list"
  at_replica :: "string option"

definition atom_init :: "int \<Rightarrow> string \<Rightarrow> string \<Rightarrow> string option \<Rightarrow> int list \<Rightarrow> int list \<Rightarrow> string \<Rightarrow> atom" where
  "atom_init global_rank host_ip host_name trace_path ranks group_size replica_name =
     \<lparr> at_replica_name = replica_name, at_ranks = ranks, at_global_rank = global_rank,
       at_host_ip = host_ip, at_host_name = host_name, at_trace_path = trace_path,
       at_group_size = group_size, at_rollout_queue = [], at_replica = None \<rparr>"

definition from_register_request :: "register_request \<Rightarrow> atom" where
  "from_register_request rq =
     atom_init (rq_global_rank rq) (rq_host_ip rq) (rq_host_name rq) None (rq_ranks rq)
       (rq_group_size rq) (rq_replica_name rq)"

definition bind_replica :: "string \<Rightarrow> atom \<Rightarrow> atom" where
  "bind_replica name a = a\<lparr>at_replica := Some name\<rparr>"

text \<open>\<open>str(atom)\<close>, the key of an atom in its replica.\<close>

definition atom_key :: "atom \<Rightarrow> string" where
  "atom_key a = at_replica_name a @ ''_'' @ py_str_int (at_global_rank a)"

text \<open>The position of a name in \<open>MESH_NAMES\<close>, and the rank there.\<close>

fun index_of :: "'a \<Rightarrow> 'a list \<Rightarrow> error + nat" where
  "index_of x [] = Inl ValueError"
| "index_of x (y # ys) = (if x = y then Inr 0 else ebind (index_of x ys) (\<lambda>i. Inr (Suc i)))"

definition list_item :: "'a list \<Rightarrow> nat \<Rightarrow> error + 'a" where
  "list_item xs i = ensure IndexError (i < length xs) (Inr (xs ! i))"

definition mesh_rank_of :: "string \<Rightarrow> atom \<Rightarrow> error + int" where
  "mesh_rank_of axis a = ebind (index_of axis MESH_NAMES) (list_item (at_ranks a))"

definition tp_rank :: "atom \<Rightarrow> error + int" where "tp_rank = mesh_rank_of ''tp''"

definition cp_rank :: "atom \<Rightarrow> error + int" where "cp_rank = mesh_rank_of ''cp''"

definition pp_rank :: "atom \<Rightarrow> error + int" where "pp_rank = mesh_rank_of ''pp''"

definition dp_shard_rank :: "atom \<Rightarrow> error + int" where "dp_shard_rank = mesh_rank_of ''dp_shard''"

text \<open>The short-circuit test that an atom is a master of its data-parallel shard.\<close>

definition is_dp_master :: "atom \<Rightarrow> error + bool" where
  "is_dp_master a =
     ebind (tp_rank a) (\<lambda>tp. if tp \<noteq> 0 then Inr False else
     ebind (cp_rank a) (\<lambda>cp. if cp \<noteq> 0 then Inr False else
     ebind (pp_rank a) (\<lambda>pp. Inr (pp = 0))))"

definition atom_put_rollout :: "rollout \<Rightarrow> (atom, unit) exec" where
  "atom_put_rollout rollout =
     bnd (with_state (\<lambda>a. lift_sum (is_dp_master a))) (\<lambda>master.
     bnd (py_assert master) (\<lambda>_.
     modify (at_rollout_queue_update (\<lambda>q. q @ [rollout]))))"

fun drain :: "'a list \<Rightarrow> 'a list \<Rightarrow> 'a list \<times> 'a list" where
  "drain [] acc = (acc, [])"
| "drain (x # xs) acc = drain xs (acc @ [x])"

definition fetch_rollouts :: "(atom, rollout list) exec" where
  "fetch_rollouts =
     bnd (with_state (\<lambda>a. lift_sum (is_dp_master a))) (\<lambda>master.
     bnd (py_assert master) (\<lambda>_.
     bnd (gets (\<lambda>a. drain (at_rollout_queue a) [])) (\<lambda>(rollouts, q).
     bnd (modify (at_rollout_queue_update (\<lambda>_. q))) (\<lambda>_. ret rollouts))))"

section \<open>Replicas\<close>

record sub_profiler_config =
  sp_do_profile :: bool
  sp_active_steps :: int
  sp_warmup_steps :: int
  sp_wait_steps :: int
  sp_rank_filter :: "int list"
  sp_record_shape :: bool
  sp_profile_memory :: bool
  sp_with_stack :: bool
  sp_with_modules :: bool

definition default_profiler :: sub_profiler_config where
  "default_profiler = \<lparr> sp_do_profile = False, sp_active_steps = 1, sp_warmup_steps = 1,
     sp_wait_steps = 1, sp_rank_filter = [], sp_record_shape = False, sp_profile_memory = False,
     sp_with_stack = False, sp_with_modules = False \<rparr>"

record replica_status =
  st_heartbeat_timestamp :: rat
  st_nccl_error_timestamp :: "int option"
  st_mesh_rank :: int
  st_ended :: bool

record replica =
  r_name :: string
  r_role :: string
  r_atoms :: "(string, atom) dict"
  r_weights_loaded :: bool
  r_start_time :: int
  r_status :: replica_status
  r_profiler :: sub_profiler_config

definition replica_status_init :: "rat \<Rightarrow> replica_status" where
  "replica_status_init now = \<lparr> st_heartbeat_timestamp = now, st_nccl_error_timestamp = None,
     st_mesh_rank = -1, st_ended = False \<rparr>"

definition replica_init :: "rat \<Rightarrow> string \<Rightarrow> string \<Rightarrow> atom list \<Rightarrow> replica" where
  "replica_init now name role atoms = \<lparr> r_name = name, r_role = role,
     r_atoms = fold (\<lambda>a. dict_set (atom_key a) a) atoms [],
     r_weights_loaded = False, r_start_time = -1, r_status = replica_status_init now,
     r_profiler = default_profiler \<rparr>"

definition in_mesh :: "replica \<Rightarrow> bool" where
  "in_mesh r \<longleftrightarrow> 0 \<le> st_mesh_rank (r_status r)"

text \<open>\<open>get_atom\<close> looks up the printed rank list; \<open>str_list\<close> is Python's \<open>str\<close> of a list of integers.\<close>

fun comma_sep :: "string list \<Rightarrow> string" where
  "comma_sep [] = ''''"
| "comma_sep [x] = x"
| "comma_sep (x # xs) = x @ '', '' @ comma_sep xs"

definition str_list :: "int list \<Rightarrow> string" where
  "str_list xs = ''['' @ comma_sep (map py_str_int xs) @ '']''"

definition get_atom :: "int list \<Rightarrow> replica \<Rightarrow> error + atom" where
  "get_atom ranks r =
     ensure AssertionError (length ranks = length MESH_NAMES) (dict_item (r_atoms r) (str_list ranks))"

definition n_atoms_per_replica :: "replica \<Rightarrow> error + int" where
  "n_atoms_per_replica r =
     (case dict_values (r_atoms r) of [] \<Rightarrow> Inl AssertionError
      | a # _ \<Rightarrow> Inr (prod_list (at_group_size a)))"

definition all_atoms_arrived :: "replica \<Rightarrow> error + bool" where
  "all_atoms_arrived r =
     (case dict_values (r_atoms r) of [] \<Rightarrow> Inl AssertionError
      | a # _ \<Rightarrow> Inr (int (length (r_atoms r)) = prod_list (at_group_size a)))"

text \<open>The check \<open>arrive\<close> makes of a policy replica that has become complete.\<close>

definition check_group_sizes :: "replica \<Rightarrow> error + unit" where
  "check_group_sizes r =
     (case dict_values (r_atoms r) of [] \<Rightarrow> Inl GenericException
      | any_atom # _ \<Rightarrow>
          (let group_sizes = at_group_size any_atom in
           ensure AssertionError (length group_sizes = length MESH_NAMES)
           (let size_of = (\<lambda>axis. fold (\<lambda>(name, s) acc. if name = axis then s else acc) (zip MESH_NAMES group_sizes) 1) in
            ensure AssertionError
              (size_of ''tp'' * size_of ''cp'' * size_of ''dp_shard'' * size_of ''pp'' = int (length (r_atoms r)))
              (Inr ()))))"

definition arrive :: "atom \<Rightarrow> (replica, unit) exec" where
  "arrive a =
     bnd (with_state (\<lambda>r. py_assert (dict_get (r_atoms r) (atom_key a) = None))) (\<lambda>_.
     bnd (with_state (\<lambda>r. case dict_values (r_atoms r) of [] \<Rightarrow> ret ()
            | existing_atom # _ \<Rightarrow> py_assert (at_group_size a = at_group_size existing_atom))) (\<lambda>_.
     bnd (modify (r_atoms_update (dict_set (atom_key a) a))) (\<lambda>_.
     with_state (\<lambda>r. if r_role r \<noteq> POLICY then ret ()
       else bnd (lift_sum (all_atoms_arrived r)) (\<lambda>arrived.
              if arrived then lift_sum (check_group_sizes r) else ret ())))))"

definition find_atom :: "int \<Rightarrow> replica \<Rightarrow> atom option" where
  "find_atom global_rank r = dict_get (r_atoms r) (r_name r @ ''_'' @ py_str_int global_rank)"

text \<open>\<open>set_trace_path\<close>: assigning to an attribute of \<open>None\<close> raises.\<close>

definition replica_set_trace_path :: "string \<Rightarrow> int \<Rightarrow> (replica, string) exec" where
  "replica_set_trace_path trace_path global_rank =
     with_state (\<lambda>r. case find_atom global_rank r of None \<Rightarrow> raise AttributeError
       | Some a \<Rightarrow>
           bnd (modify (r_atoms_update (dict_adjust (r_name r @ ''_'' @ py_str_int global_rank)
                  (at_trace_path_update (\<lambda>_. Some trace_path))))) (\<lambda>_.
           ret (atom_key a)))"

section \<open>Which requests are accepted\<close>

lemma dict_get_fold_pairs:
  "dict_get (fold (\<lambda>(k, v). dict_set k v) xs d) k
     = (case map_of (rev xs) k of Some v \<Rightarrow> Some v | None \<Rightarrow> dict_get d k)"
  by (induction xs arbitrary: d) (auto simp: dict_simps map_add_Some_iff map_add_def split: option.splits)

lemma original_map_get:
  "dict_get (original_map rq) m = map_of (rev (zip (rq_mesh_names rq) (zip (rq_ranks rq) (rq_group_size rq)))) m"
proof -
  have "(\<lambda>(mesh_name, rank, group_size). dict_set mesh_name (rank, group_size)) = (\<lambda>(k, v). dict_set k (v :: int \<times> int))"
    by (auto simp: fun_eq_iff)
  then show ?thesis by (simp add: original_map_def dict_get_fold_pairs split: option.splits)
qed

lemma original_map_None:
  assumes "length (rq_mesh_names rq) = length (rq_ranks rq)" "length (rq_ranks rq) = length (rq_group_size rq)"
  shows "dict_get (original_map rq) m = None \<longleftrightarrow> m \<notin> set (rq_mesh_names rq)"
  using assms by (simp add: original_map_get map_of_eq_None_iff flip: set_map)

definition request_shape_ok :: "register_request \<Rightarrow> bool" where
  "request_shape_ok rq \<longleftrightarrow> length (rq_mesh_names rq) = length (rq_ranks rq)
     \<and> length (rq_ranks rq) = length (rq_group_size rq) \<and> set (rq_mesh_names rq) \<subseteq> set MESH_NAMES
     \<and> rq_role rq \<in> set all_roles \<and> rq_replica_name rq \<noteq> []"

lemma original_map_nth:
  assumes "request_shape_ok rq" "distinct (rq_mesh_names rq)" "i < length (rq_mesh_names rq)"
  shows "dict_get (original_map rq) (rq_mesh_names rq ! i) = Some (rq_ranks rq ! i, rq_group_size rq ! i)"
proof -
  let ?xs = "zip (rq_mesh_names rq) (zip (rq_ranks rq) (rq_group_size rq))"
  have len: "length (rq_ranks rq) = length (rq_mesh_names rq)" "length (rq_group_size rq) = length (rq_mesh_names rq)"
    using assms(1) by (simp_all add: request_shape_ok_def)
  then have "distinct (map fst (rev ?xs))" using assms(2) by (simp add: rev_map [symmetric])
  moreover have "?xs ! i \<in> set ?xs" by (rule nth_mem) (use assms(3) len in simp)
  then have "(rq_mesh_names rq ! i, rq_ranks rq ! i, rq_group_size rq ! i) \<in> set (rev ?xs)"
    using assms(3) len by simp
  ultimately show ?thesis unfolding original_map_get by (rule map_of_is_SomeI)
qed

definition rebuilt :: "register_request \<Rightarrow> register_request" where
  "rebuilt rq = rq\<lparr>rq_mesh_names := MESH_NAMES,
     rq_ranks := map (\<lambda>m. fst (the (dict_get (original_map rq) m))) MESH_NAMES,
     rq_group_size := map (\<lambda>m. snd (the (dict_get (original_map rq) m))) MESH_NAMES\<rparr>"

lemma rebuild_loop:
  "(\<forall>m \<in> set ms. dict_get d m \<noteq> None) \<Longrightarrow>
   efold (\<lambda>mesh_name (names, ranks, sizes).
       ebind (dict_item d mesh_name) (\<lambda>(rank, group_size).
         Inr (names @ [mesh_name], ranks @ [rank], sizes @ [group_size]))) ms (ns, rs, ss)
     = Inr (ns @ ms, rs @ map (\<lambda>m. fst (the (dict_get d m))) ms, ss @ map (\<lambda>m. snd (the (dict_get d m))) ms)"
  by (induction ms arbitrary: ns rs ss) (auto simp: dict_item_def split_def)

lemma rebuild_loop_KeyError:
  "(\<exists>m \<in> set ms. dict_get d m = None) \<Longrightarrow>
   efold (\<lambda>mesh_name (names, ranks, sizes).
       ebind (dict_item d mesh_name) (\<lambda>(rank, group_size).
         Inr (names @ [mesh_name], ranks @ [rank], sizes @ [group_size]))) ms acc = Inl KeyError"
  by (induction ms arbitrary: acc) (auto simp: dict_item_def split: option.splits prod.splits)

lemma validate_cases:
  "validate_mesh_names rq =
     (if \<not> request_shape_ok rq then Inl AssertionError
      else if set (rq_mesh_names rq) = set MESH_NAMES then Inr (rebuilt rq) else Inl KeyError)"
proof (cases "request_shape_ok rq")
  case False
  then show ?thesis by (auto simp: validate_mesh_names_def request_shape_ok_def ensure_def)
next
  case True
  then have none: "dict_get (original_map rq) m = None \<longleftrightarrow> m \<notin> set (rq_mesh_names rq)" for m
    by (auto simp: request_shape_ok_def original_map_None)
  have guards: "validate_mesh_names rq = ebind (efold (\<lambda>mesh_name (names, ranks, sizes).
               ebind (dict_item (original_map rq) mesh_name) (\<lambda>(rank, group_size).
                 Inr (names @ [mesh_name], ranks @ [rank], sizes @ [group_size])))
             MESH_NAMES ([], [], []))
       (\<lambda>(names, ranks, sizes). Inr (rq\<lparr>rq_mesh_names := names, rq_ranks := ranks, rq_group_size := sizes\<rparr>))"
    using True by (simp add: validate_mesh_names_def request_shape_ok_def ensure_def del: efold.simps)
  show ?thesis
  proof (cases "set (rq_mesh_names rq) = set MESH_NAMES")
    case same: True
    then have "\<forall>m \<in> set MESH_NAMES. dict_get (original_map rq) m \<noteq> None" using none by simp
    from rebuild_loop [OF this] show ?thesis using True same unfolding guards
      by (simp add: rebuilt_def)
  next
    case False
    then have "\<exists>m \<in> set MESH_NAMES. dict_get (original_map rq) m = None"
      using True none by (auto simp: request_shape_ok_def)
    from rebuild_loop_KeyError [OF this] show ?thesis using True False unfolding guards by simp
  qed
qed

text \<open>A registration request is accepted exactly if its three lists have the same length, its mesh
  names are all four mesh names (a proper subset ends in \<open>KeyError\<close>), its role is known and its
  replica name is not empty; every other malformed request ends in \<open>AssertionError\<close>.\<close>

theorem register_request_outcome:
  "validate_mesh_names rq = Inr (rebuilt rq) \<and> request_shape_ok rq \<and> set (rq_mesh_names rq) = set MESH_NAMES
   \<or> validate_mesh_names rq = Inl KeyError \<and> request_shape_ok rq \<and> set (rq_mesh_names rq) \<subset> set MESH_NAMES
   \<or> validate_mesh_names rq = Inl AssertionError \<and> \<not> request_shape_ok rq"
  by (auto simp: validate_cases request_shape_ok_def)

text \<open>An accepted request lists the mesh dimensions in the fixed order, each with the rank and the
  size it was sent with, and validating it again changes nothing.\<close>

theorem register_request_normalised:
  assumes "validate_mesh_names rq = Inr rq'" "distinct (rq_mesh_names rq)" "i < length (rq_mesh_names rq)"
  shows "rq_mesh_names rq' = MESH_NAMES \<and> validate_mesh_names rq' = Inr rq'
    \<and> (\<exists>j < length MESH_NAMES. MESH_NAMES ! j = rq_mesh_names rq ! i
          \<and> rq_ranks rq' ! j = rq_ranks rq ! i \<and> rq_group_size rq' ! j = rq_group_size rq ! i)"
proof -
  have ok: "request_shape_ok rq" "set (rq_mesh_names rq) = set MESH_NAMES" and rq': "rq' = rebuilt rq"
    using assms(1) by (auto simp: validate_cases split: if_splits)
  have "rq_mesh_names rq ! i \<in> set MESH_NAMES" using assms(3) ok(2) by (metis nth_mem)
  then obtain j where j: "j < length MESH_NAMES" "MESH_NAMES ! j = rq_mesh_names rq ! i"
    by (auto simp: in_set_conv_nth)
  have "request_shape_ok rq'" using ok(1) by (simp add: rq' rebuilt_def request_shape_ok_def)
  moreover have "rebuilt rq' = rq'"
    by (simp add: rq' rebuilt_def original_map_get MESH_NAMES_def)
  ultimately have "validate_mesh_names rq' = Inr rq'"
    by (simp add: validate_cases) (simp add: rq' rebuilt_def)
  moreover have "rq_mesh_names rq' = MESH_NAMES" by (simp add: rq' rebuilt_def)
  ultimately show ?thesis
    using j original_map_nth [OF ok(1) assms(2,3)] by (auto simp: rq' rebuilt_def intro!: exI [of _ j])
qed

definition sample_request :: register_request where
  "sample_request = \<lparr> rq_replica_name = ''p0'', rq_role = POLICY, rq_mesh_names = [''tp'', ''pp'', ''cp'', ''dp_shard''],
     rq_global_rank = 1, rq_host_ip = ''10.0.0.1'', rq_host_name = ''n1'', rq_ranks = [1, 0, 0, 0],
     rq_group_size = [2, 1, 1, 1] \<rparr>"

theorem register_request_normalised_witness:
  "validate_mesh_names sample_request = Inr (rebuilt sample_request)
   \<and> (\<exists>j < length MESH_NAMES. MESH_NAMES ! j = ''tp'' \<and> rq_ranks (rebuilt sample_request) ! j = 1)"
proof -
  have run: "validate_mesh_names sample_request = Inr (rebuilt sample_request)"
    by (auto simp: validate_cases request_shape_ok_def sample_request_def MESH_NAMES_def all_roles_def)
  have "distinct (rq_mesh_names sample_request)" "0 < length (rq_mesh_names sample_request)"
    and first: "rq_mesh_names sample_request ! 0 = ''tp''" "rq_ranks sample_request ! 0 = 1"
    by (simp_all add: sample_request_def)
  from register_request_normalised [OF run this(1,2)]
  have "\<exists>j < length MESH_NAMES. MESH_NAMES ! j = ''tp'' \<and> rq_ranks (rebuilt sample_request) ! j = 1"
    unfolding first by blast
  with run show ?thesis by blast
qed

section \<open>Which atoms a replica accepts\<close>

definition replica_inv :: "replica \<Rightarrow> bool" where
  "replica_inv r \<longleftrightarrow> dict_wf (r_atoms r) \<and> r_atoms r \<noteq> []
     \<and> (\<forall>(k, a) \<in> set (r_atoms r). k = atom_key a \<and> at_replica_name a = r_name r)
     \<and> (\<forall>a \<in> set (dict_values (r_atoms r)). \<forall>b \<in> set (dict_values (r_atoms r)). at_group_size a = at_group_size b)"

lemma atom_key_inj:
  "at_replica_name a = at_replica_name b \<Longrightarrow> atom_key a = atom_key b \<longleftrightarrow> at_global_rank a = at_global_rank b"
  by (auto simp: atom_key_def dest: py_str_int_inj)

lemma replica_inv_init: "replica_inv (replica_init now (at_replica_name a) role [a])"
  by (simp add: replica_inv_def replica_init_def dict_set_def dict_values_def dict_wf_def dict_keys_def)

lemma set_dict_set_new: "dict_get d k = None \<Longrightarrow> set (dict_set k v d) = insert (k, v) (set d)"
  by (induction d) (auto simp: dict_set_def dict_get_def split: if_splits)

lemma arrived_total: "replica_inv r \<Longrightarrow> \<exists>b. all_atoms_arrived r = Inr b"
  by (auto simp: all_atoms_arrived_def replica_inv_def dict_values_def split: list.splits)

lemma dict_values_set: "set (dict_values d) = snd ` set d"
  by (simp add: dict_values_def)

lemma group_size_dims:
  assumes "length gs = 4"
  shows "fold (\<lambda>(name, s) acc. if name = ''tp'' then s else acc) (zip MESH_NAMES gs) 1
     * fold (\<lambda>(name, s) acc. if name = ''cp'' then s else acc) (zip MESH_NAMES gs) 1
     * fold (\<lambda>(name, s) acc. if name = ''dp_shard'' then s else acc) (zip MESH_NAMES gs) 1
     * fold (\<lambda>(name, s) acc. if name = ''pp'' then s else acc) (zip MESH_NAMES gs) 1
     = (prod_list gs :: int)"
proof -
  obtain a b c d where "gs = [a, b, c, d]"
    using assms by (auto simp: numeral_eq_Suc length_Suc_conv)
  then show ?thesis by (simp add: MESH_NAMES_def)
qed

definition with_atom :: "atom \<Rightarrow> replica \<Rightarrow> replica" where
  "with_atom a r = r\<lparr>r_atoms := dict_set (atom_key a) a (r_atoms r)\<rparr>"

lemma with_atom_update: "r_atoms_update (dict_set (atom_key a) a) r = with_atom a r"
  by (cases r) (simp add: with_atom_def)

lemma dict_set_new: "dict_get d k = None \<Longrightarrow> dict_set k v d = d @ [(k, v)]"
  by (induction d) (auto simp: dict_set_def dict_get_def split: if_splits)

lemma with_atom_values:
  "dict_get (r_atoms r) (atom_key a) = None \<Longrightarrow> dict_values (r_atoms (with_atom a r)) = dict_values (r_atoms r) @ [a]"
  by (simp add: with_atom_def dict_set_new dict_values_def)

lemma with_atom_inv:
  assumes inv: "replica_inv r" and name: "at_replica_name a = r_name r"
    and fresh: "dict_get (r_atoms r) (atom_key a) = None"
    and sizes: "\<forall>b \<in> set (dict_values (r_atoms r)). at_group_size b = at_group_size a"
  shows "replica_inv (with_atom a r)"
proof -
  have "at_group_size b = at_group_size a" if "b \<in> set (dict_values (r_atoms (with_atom a r)))" for b
    using that sizes unfolding with_atom_values [OF fresh] by auto
  note all = this
  have atoms: "r_atoms (with_atom a r) = r_atoms r @ [(atom_key a, a)]"
    by (simp add: with_atom_def dict_set_new [OF fresh])
  show ?thesis unfolding replica_inv_def
  proof (intro conjI ballI)
    show "dict_wf (r_atoms (with_atom a r))" using inv by (simp add: replica_inv_def with_atom_def)
    show "r_atoms (with_atom a r) \<noteq> []" by (simp add: atoms)
    show "case x of (k, b) \<Rightarrow> k = atom_key b \<and> at_replica_name b = r_name (with_atom a r)"
      if "x \<in> set (r_atoms (with_atom a r))" for x
    proof (cases "x = (atom_key a, a)")
      case True
      then show ?thesis using name by (simp add: with_atom_def)
    next
      case False
      then have "x \<in> set (r_atoms r)" using that by (simp add: atoms)
      with inv have "case x of (k, b) \<Rightarrow> k = atom_key b \<and> at_replica_name b = r_name r"
        unfolding replica_inv_def by blast
      then show ?thesis by (simp add: with_atom_def)
    qed
    show "at_group_size b = at_group_size c" if "b \<in> set (dict_values (r_atoms (with_atom a r)))"
      "c \<in> set (dict_values (r_atoms (with_atom a r)))" for b c
      using all [OF that(1)] all [OF that(2)] by simp
  qed
qed

lemma fresh_iff_rank:
  assumes "replica_inv r" "at_replica_name a = r_name r"
  shows "dict_get (r_atoms r) (atom_key a) = None
    \<longleftrightarrow> (\<forall>b \<in> set (dict_values (r_atoms r)). at_global_rank b \<noteq> at_global_rank a)"
proof -
  have keys: "set (dict_keys (r_atoms r)) = atom_key ` set (dict_values (r_atoms r))"
    using assms(1) by (force simp: replica_inv_def dict_values_set dict_keys_def)
  have "\<forall>b \<in> set (dict_values (r_atoms r)). atom_key b = atom_key a \<longleftrightarrow> at_global_rank b = at_global_rank a"
    using assms by (auto simp: replica_inv_def dict_values_set intro!: atom_key_inj)
  then show ?thesis unfolding dict_get_None_iff keys by (force simp: image_iff)
qed

lemma arrive_run:
  assumes "replica_inv r" "at_replica_name a = r_name r"
    and fresh: "dict_get (r_atoms r) (atom_key a) = None"
    and sizes: "\<forall>b \<in> set (dict_values (r_atoms r)). at_group_size b = at_group_size a"
  shows "all_atoms_arrived (with_atom a r) = Inr (int (length (r_atoms r)) + 1 = prod_list (at_group_size a))"
    and "arrive a r = (if r_role r = POLICY \<and> int (length (r_atoms r)) + 1 = prod_list (at_group_size a)
                       \<and> length (at_group_size a) \<noteq> 4
                       then Raise AssertionError (with_atom a r) else Ok () (with_atom a r))"
proof -
  obtain a0 rest where vals: "dict_values (r_atoms r) = a0 # rest"
    using assms(1) by (cases "dict_values (r_atoms r)") (auto simp: replica_inv_def dict_values_def)
  have a0: "at_group_size a0 = at_group_size a" using sizes vals by simp
  have vals': "dict_values (r_atoms (with_atom a r)) = a0 # rest @ [a]"
    using with_atom_values [OF fresh] vals by simp
  have len: "length (r_atoms (with_atom a r)) = Suc (length (r_atoms r))"
    by (simp add: with_atom_def dict_set_new [OF fresh])
  show arrived: "all_atoms_arrived (with_atom a r) = Inr (int (length (r_atoms r)) + 1 = prod_list (at_group_size a))"
    by (simp add: all_atoms_arrived_def vals' a0 len add.commute)
  have "check_group_sizes (with_atom a r) = (if length (at_group_size a) = 4 then Inr () else Inl AssertionError)"
    if "int (length (r_atoms r)) + 1 = prod_list (at_group_size a)"
  proof (cases "length (at_group_size a) = 4")
    case True
    from group_size_dims [OF this] that True show ?thesis
      by (simp add: check_group_sizes_def vals' a0 len ensure_def Let_def) (simp add: MESH_NAMES_def)
  next
    case False
    then show ?thesis by (simp add: check_group_sizes_def vals' a0 ensure_def Let_def MESH_NAMES_def)
  qed
  moreover have "r_role (with_atom a r) = r_role r" by (simp add: with_atom_def)
  moreover have "arrive a r = (if r_role (with_atom a r) \<noteq> POLICY then ret ()
       else bnd (lift_sum (all_atoms_arrived (with_atom a r))) (\<lambda>arrived.
              if arrived then lift_sum (check_group_sizes (with_atom a r)) else ret ())) (with_atom a r)"
    unfolding arrive_def by (simp add: bnd_def fresh vals a0 with_atom_update)
  ultimately show "arrive a r = (if r_role r = POLICY \<and> int (length (r_atoms r)) + 1 = prod_list (at_group_size a)
                       \<and> length (at_group_size a) \<noteq> 4
                       then Raise AssertionError (with_atom a r) else Ok () (with_atom a r))"
    unfolding arrived by (auto simp: bnd_def)
qed

lemma arrive_refused:
  assumes "replica_inv r"
    and "dict_get (r_atoms r) (atom_key a) \<noteq> None \<or> (\<exists>b \<in> set (dict_values (r_atoms r)). at_group_size b \<noteq> at_group_size a)"
  shows "arrive a r = Raise AssertionError r"
proof (cases "dict_get (r_atoms r) (atom_key a) = None")
  case False
  then show ?thesis unfolding arrive_def by (auto simp: bnd_def)
next
  case True
  obtain a0 rest where vals: "dict_values (r_atoms r) = a0 # rest"
    using assms(1) by (cases "dict_values (r_atoms r)") (auto simp: replica_inv_def dict_values_def)
  have "at_group_size a0 \<noteq> at_group_size a" using assms True vals unfolding replica_inv_def by (metis list.set_intros(1))
  then show ?thesis using True by (simp add: arrive_def bnd_def vals)
qed

text \<open>A well-formed replica accepts an atom of its name exactly if no atom of that global rank has
  arrived, the group sizes agree with those already there and, for a policy replica that is
  complete with it, there are four of them. What it accepts keeps it well-formed and makes it
  complete exactly when the count reaches the product of the group sizes.\<close>

theorem arrive_accepts_iff:
  assumes "replica_inv r" "at_replica_name a = r_name r"
  shows "((\<exists>r'. arrive a r = Ok () r') \<longleftrightarrow>
      (\<forall>b \<in> set (dict_values (r_atoms r)). at_global_rank b \<noteq> at_global_rank a \<and> at_group_size b = at_group_size a)
      \<and> (r_role r = POLICY \<and> int (length (r_atoms r)) + 1 = prod_list (at_group_size a) \<longrightarrow> length (at_group_size a) = 4))
    \<and> (\<forall>r'. arrive a r = Ok () r' \<longrightarrow> replica_inv r' \<and> find_atom (at_global_rank a) r' = Some a
          \<and> all_atoms_arrived r' = Inr (int (length (r_atoms r)) + 1 = prod_list (at_group_size a)))"
proof (cases "dict_get (r_atoms r) (atom_key a) = None \<and> (\<forall>b \<in> set (dict_values (r_atoms r)). at_group_size b = at_group_size a)")
  case False
  then have "arrive a r = Raise AssertionError r" by (intro arrive_refused assms) auto
  then show ?thesis using False fresh_iff_rank [OF assms] by auto
next
  case True
  then have fresh: "dict_get (r_atoms r) (atom_key a) = None"
    and sizes: "\<forall>b \<in> set (dict_values (r_atoms r)). at_group_size b = at_group_size a" by auto
  note run = arrive_run [OF assms fresh sizes]
  have "find_atom (at_global_rank a) (with_atom a r) = Some a"
    using assms(2) by (simp add: find_atom_def with_atom_def dict_simps atom_key_def)
  with run with_atom_inv [OF assms fresh sizes] show ?thesis
    using fresh_iff_rank [OF assms] fresh sizes by auto
qed

definition sample_atom :: "int \<Rightarrow> atom" where
  "sample_atom rank = atom_init rank ''10.0.0.1'' ''n1'' None [0, 0, 0, rank] [1, 1, 1, 2] ''p0''"

theorem arrive_accepts_iff_witness:
  "\<exists>r'. arrive (sample_atom 1) (replica_init 0 ''p0'' POLICY [sample_atom 0]) = Ok () r' \<and> replica_inv r'
    \<and> all_atoms_arrived r' = Inr True"
proof -
  let ?r = "replica_init 0 ''p0'' POLICY [sample_atom 0]"
  have "replica_inv ?r" using replica_inv_init [of 0 "sample_atom 0" POLICY]
    by (simp add: sample_atom_def atom_init_def)
  moreover have "at_replica_name (sample_atom 1) = r_name ?r"
    by (simp add: sample_atom_def atom_init_def replica_init_def)
  moreover have "dict_values (r_atoms ?r) = [sample_atom 0]" "length (r_atoms ?r) = 1"
    by (simp_all add: replica_init_def dict_set_def dict_values_def)
  ultimately show ?thesis
    using arrive_accepts_iff [of ?r "sample_atom 1"] by (auto simp: sample_atom_def atom_init_def)
qed

end
