(* ===== verification/Command_Model.thy ===== *)
theory Command_Model
  imports Replica_Model
begin

text \<open>
  \<open>cosmos_rl/dispatcher/command.py\<close>: the commands the controller sends, their serialisation as
  dictionaries of attributes, and the registries of handlers. A command is one constructor per
  subclass of \<open>Command\<close>, its arguments the attributes in the order \<open>__init__\<close> assigns them; the
  first one is always \<open>uuid_value\<close>. \<open>msgpack\<close> is a pair of functions the model is given.
  Constructor arguments of a Python type other than the annotated one, which Python would store as
  they are, are \<open>TypeError\<close> here.

  The triggers, which publish commands and mark replicas, are in the theory of the dispatcher state.
\<close>

section \<open>Commands\<close>

datatype command_type =
    WEIGHT_RESUME
  | BUILD_MESH
  | POLICY_TO_POLICY_BROADCAST
  | POLICY_TO_POLICY_UNICAST
  | POLICY_TO_ROLLOUT_UNICAST
  | ROLLOUT_TO_ROLLOUT_BROADCAST
  | DATA_FETCH
  | ALL_REDUCE
  | STOP
  | VALIDATE
  | DUMMY

primrec type_name :: "command_type \<Rightarrow> string" where
  "type_name WEIGHT_RESUME = ''WEIGHT_RESUME''"
| "type_name BUILD_MESH = ''BUILD_MESH''"
| "type_name POLICY_TO_POLICY_BROADCAST = ''POLICY_TO_POLICY_BROADCAST''"
| "type_name POLICY_TO_POLICY_UNICAST = ''POLICY_TO_POLICY_UNICAST''"
| "type_name POLICY_TO_ROLLOUT_UNICAST = ''POLICY_TO_ROLLOUT_UNICAST''"
| "type_name ROLLOUT_TO_ROLLOUT_BROADCAST = ''ROLLOUT_TO_ROLLOUT_BROADCAST''"
| "type_name DATA_FETCH = ''DATA_FETCH''"
| "type_name ALL_REDUCE = ''ALL_REDUCE''"
| "type_name STOP = ''STOP''"
| "type_name VALIDATE = ''VALIDATE''"
| "type_name DUMMY = ''DUMMY''"

definition GLOBAL_SCOPE :: int where "GLOBAL_SCOPE = 0"

definition LOCAL_SCOPE :: int where "LOCAL_SCOPE = 1"

datatype command =
    WeightResume (uuid_value: string) (wr_replica_name: string)
  | BuildMesh (uuid_value: string) (replica_name_to_rank: "(string, int) dict")
  | PolicyToPolicyBroadcast (uuid_value: string) (ppb_src: string) (ppb_dsts: "string list")
      (ppb_total_steps: "int option")
  | PolicyToPolicyUnicast (uuid_value: string) (ppu_src: string) (ppu_dst: string)
      (ppu_total_steps: "int option")
  | PolicyToRolloutUnicast (uuid_value: string) (pru_src: string) (pru_dst: string)
      (pru_src_size: int) (pru_dst_size: int) (pru_do_weight_sync_check: bool)
      (pru_trainable_only: bool) (pru_weight_step: "int option") (pru_total_steps: "int option")
  | RolloutToRolloutBroadcast (uuid_value: string) (rrb_src: string) (rrb_dsts: "string list")
      (rrb_weight_step: "int option") (rrb_total_steps: "int option") (rrb_trainable_only: bool)
  | DataFetch (uuid_value: string) (df_replica_name: string) (df_items_count: int)
      (df_global_step: "int option") (df_total_steps: "int option") (df_remain_samples_num: int)
      (df_do_save: bool) (df_do_profile: "bool option") (df_active_steps: "int option")
      (df_rank_filter: "int list option") (df_record_shape: "bool option")
      (df_profile_memory: "bool option") (df_with_stack: "bool option") (df_with_modules: "bool option")

primrec command_type_of :: "command \<Rightarrow> command_type" where
  "command_type_of (WeightResume _ _) = WEIGHT_RESUME"
| "command_type_of (BuildMesh _ _) = BUILD_MESH"
| "command_type_of (PolicyToPolicyBroadcast _ _ _ _) = POLICY_TO_POLICY_BROADCAST"
| "command_type_of (PolicyToPolicyUnicast _ _ _ _) = POLICY_TO_POLICY_UNICAST"
| "command_type_of (PolicyToRolloutUnicast _ _ _ _ _ _ _ _ _) = POLICY_TO_ROLLOUT_UNICAST"
| "command_type_of (RolloutToRolloutBroadcast _ _ _ _ _ _) = ROLLOUT_TO_ROLLOUT_BROADCAST"
| "command_type_of (DataFetch _ _ _ _ _ _ _ _ _ _ _ _ _ _) = DATA_FETCH"

primrec scope_of :: "command \<Rightarrow> int" where
  "scope_of (WeightResume _ _) = LOCAL_SCOPE"
| "scope_of (BuildMesh _ _) = GLOBAL_SCOPE"
| "scope_of (PolicyToPolicyBroadcast _ _ _ _) = GLOBAL_SCOPE"
| "scope_of (PolicyToPolicyUnicast _ _ _ _) = LOCAL_SCOPE"
| "scope_of (PolicyToRolloutUnicast _ _ _ _ _ _ _ _ _) = LOCAL_SCOPE"
| "scope_of (RolloutToRolloutBroadcast _ _ _ _ _ _) = GLOBAL_SCOPE"
| "scope_of (DataFetch _ _ _ _ _ _ _ _ _ _ _ _ _ _) = LOCAL_SCOPE"

section \<open>Serialisation\<close>

definition v_opt :: "('a \<Rightarrow> pyval) \<Rightarrow> 'a option \<Rightarrow> pyval" where
  "v_opt f x = (case x of None \<Rightarrow> VNone | Some y \<Rightarrow> f y)"

definition v_strs :: "string list \<Rightarrow> pyval" where
  "v_strs xs = VList (map VStr xs)"

definition v_ints :: "int list \<Rightarrow> pyval" where
  "v_ints xs = VList (map VInt xs)"

definition v_dict :: "(string, int) dict \<Rightarrow> pyval" where
  "v_dict d = VDict (map (\<lambda>(k, v). (k, VInt v)) d)"

definition base_dict :: "command \<Rightarrow> (string, pyval) dict" where
  "base_dict c = [(''uuid_value'', VStr (uuid_value c)), (''scope'', VInt (scope_of c)),
                  (''command_type'', VStr (type_name (command_type_of c)))]"

primrec own_dict :: "command \<Rightarrow> (string, pyval) dict" where
  "own_dict (WeightResume u n) = [(''replica_name'', VStr n)]"
| "own_dict (BuildMesh u d) = [(''replica_name_to_rank'', v_dict d)]"
| "own_dict (PolicyToPolicyBroadcast u s ds t) =
     [(''src_replica_name'', VStr s), (''dst_replica_names'', v_strs ds), (''total_steps'', v_opt VInt t)]"
| "own_dict (PolicyToPolicyUnicast u s d t) =
     [(''src_replica_name'', VStr s), (''dst_replica_name'', VStr d), (''total_steps'', v_opt VInt t)]"
| "own_dict (PolicyToRolloutUnicast u s d ss ds chk tr w t) =
     [(''src_replica_name'', VStr s), (''dst_replica_name'', VStr d), (''src_replica_size'', VInt ss),
      (''dst_replica_size'', VInt ds), (''do_weight_sync_check'', VBool chk), (''trainable_only'', VBool tr),
      (''weight_step'', v_opt VInt w), (''total_steps'', v_opt VInt t)]"
| "own_dict (RolloutToRolloutBroadcast u s ds w t tr) =
     [(''src_replica_name'', VStr s), (''dst_replica_names'', v_strs ds), (''weight_step'', v_opt VInt w),
      (''total_steps'', v_opt VInt t), (''trainable_only'', VBool tr)]"
| "own_dict (DataFetch u n i g t r sv pr ac rf rs pm wst wm) =
     [(''replica_name'', VStr n), (''items_count'', VInt i), (''global_step'', v_opt VInt g),
      (''total_steps'', v_opt VInt t), (''remain_samples_num'', VInt r), (''do_save'', VBool sv),
      (''do_profile'', v_opt VBool pr), (''active_steps'', v_opt VInt ac), (''rank_filter'', v_opt v_ints rf),
      (''record_shape'', v_opt VBool rs), (''profile_memory'', v_opt VBool pm),
      (''with_stack'', v_opt VBool wst), (''with_modules'', v_opt VBool wm)]"

text \<open>The \<open>__dict__\<close> of a command, which \<open>pack\<close> serialises.\<close>

definition command_dict :: "command \<Rightarrow> (string, pyval) dict" where
  "command_dict c = base_dict c @ own_dict c"

section \<open>Deserialisation\<close>

fun as_str :: "pyval \<Rightarrow> error + string" where
  "as_str (VStr s) = Inr s"
| "as_str _ = Inl TypeError"

fun as_int :: "pyval \<Rightarrow> error + int" where
  "as_int (VInt i) = Inr i"
| "as_int _ = Inl TypeError"

fun as_bool :: "pyval \<Rightarrow> error + bool" where
  "as_bool (VBool b) = Inr b"
| "as_bool _ = Inl TypeError"

definition as_opt :: "(pyval \<Rightarrow> error + 'a) \<Rightarrow> pyval \<Rightarrow> error + 'a option" where
  "as_opt f v = (if v = VNone then Inr None else ebind (f v) (\<lambda>x. Inr (Some x)))"

fun as_list :: "(pyval \<Rightarrow> error + 'a) \<Rightarrow> pyval \<Rightarrow> error + 'a list" where
  "as_list f (VList vs) = foldr (\<lambda>v r. ebind (f v) (\<lambda>x. ebind r (\<lambda>xs. Inr (x # xs)))) vs (Inr [])"
| "as_list f _ = Inl TypeError"

fun as_dict :: "(pyval \<Rightarrow> error + 'a) \<Rightarrow> pyval \<Rightarrow> error + (string, 'a) dict" where
  "as_dict f (VDict d) = foldr (\<lambda>(k, v) r. ebind (f v) (\<lambda>x. ebind r (\<lambda>xs. Inr ((k, x) # xs)))) d (Inr [])"
| "as_dict f _ = Inl TypeError"

text \<open>
  \<open>arg\<close> is a parameter without and \<open>arg_default\<close> one with a default; \<open>no_extra\<close> is the base
  constructor's refusal of keyword arguments other than its own. \<open>scope\<close> and \<open>command_type\<close> are
  overwritten by each subclass, whatever the dictionary says.
\<close>

definition arg :: "(string, pyval) dict \<Rightarrow> string \<Rightarrow> (pyval \<Rightarrow> error + 'a) \<Rightarrow> error + 'a" where
  "arg d k f = (case dict_get d k of None \<Rightarrow> Inl TypeError | Some v \<Rightarrow> f v)"

definition arg_default :: "(string, pyval) dict \<Rightarrow> string \<Rightarrow> (pyval \<Rightarrow> error + 'a) \<Rightarrow> 'a \<Rightarrow> error + 'a" where
  "arg_default d k f x = (case dict_get d k of None \<Rightarrow> Inr x | Some v \<Rightarrow> f v)"

definition no_extra :: "(string, pyval) dict \<Rightarrow> string list \<Rightarrow> error + unit" where
  "no_extra d params = ensure TypeError
     (set (dict_keys d) \<subseteq> set (params @ [''uuid_value'', ''scope'', ''command_type''])) (Inr ())"

definition uuid_arg :: "string \<Rightarrow> (string, pyval) dict \<Rightarrow> error + string" where
  "uuid_arg fresh d = ebind (arg_default d ''uuid_value'' (as_opt as_str) None)
     (\<lambda>u. Inr (case u of None \<Rightarrow> fresh | Some s \<Rightarrow> s))"

definition weight_resume_from_dict :: "string \<Rightarrow> (string, pyval) dict \<Rightarrow> error + command" where
  "weight_resume_from_dict fresh d =
     ebind (arg d ''replica_name'' as_str) (\<lambda>n.
     ebind (no_extra d [''replica_name'']) (\<lambda>_.
     ebind (uuid_arg fresh d) (\<lambda>u. Inr (WeightResume u n))))"

definition build_mesh_from_dict :: "string \<Rightarrow> (string, pyval) dict \<Rightarrow> error + command" where
  "build_mesh_from_dict fresh d =
     ebind (arg d ''replica_name_to_rank'' (as_dict as_int)) (\<lambda>m.
     ebind (no_extra d [''replica_name_to_rank'']) (\<lambda>_.
     ebind (uuid_arg fresh d) (\<lambda>u. Inr (BuildMesh u m))))"

definition p2p_broadcast_from_dict :: "string \<Rightarrow> (string, pyval) dict \<Rightarrow> error + command" where
  "p2p_broadcast_from_dict fresh d =
     ebind (arg d ''src_replica_name'' as_str) (\<lambda>s.
     ebind (arg d ''dst_replica_names'' (as_list as_str)) (\<lambda>ds.
     ebind (arg_default d ''total_steps'' (as_opt as_int) None) (\<lambda>t.
     ebind (no_extra d [''src_replica_name'', ''dst_replica_names'', ''total_steps'']) (\<lambda>_.
     ebind (uuid_arg fresh d) (\<lambda>u. Inr (PolicyToPolicyBroadcast u s ds t))))))"

definition p2p_unicast_from_dict :: "string \<Rightarrow> (string, pyval) dict \<Rightarrow> error + command" where
  "p2p_unicast_from_dict fresh d =
     ebind (arg d ''src_replica_name'' as_str) (\<lambda>s.
     ebind (arg d ''dst_replica_name'' as_str) (\<lambda>dst.
     ebind (arg_default d ''total_steps'' (as_opt as_int) None) (\<lambda>t.
     ebind (no_extra d [''src_replica_name'', ''dst_replica_name'', ''total_steps'']) (\<lambda>_.
     ebind (uuid_arg fresh d) (\<lambda>u. Inr (PolicyToPolicyUnicast u s dst t))))))"

definition p2r_unicast_from_dict :: "string \<Rightarrow> (string, pyval) dict \<Rightarrow> error + command" where
  "p2r_unicast_from_dict fresh d =
     ebind (arg d ''src_replica_name'' as_str) (\<lambda>s.
     ebind (arg d ''dst_replica_name'' as_str) (\<lambda>dst.
     ebind (arg d ''src_replica_size'' as_int) (\<lambda>ss.
     ebind (arg d ''dst_replica_size'' as_int) (\<lambda>ds.
     ebind (arg_default d ''do_weight_sync_check'' as_bool False) (\<lambda>chk.
     ebind (arg_default d ''trainable_only'' as_bool False) (\<lambda>tr.
     ebind (arg_default d ''weight_step'' (as_opt as_int) None) (\<lambda>w.
     ebind (arg_default d ''total_steps'' (as_opt as_int) None) (\<lambda>t.
     ebind (no_extra d [''src_replica_name'', ''dst_replica_name'', ''src_replica_size'',
       ''dst_replica_size'', ''do_weight_sync_check'', ''trainable_only'', ''weight_step'', ''total_steps'']) (\<lambda>_.
     ebind (uuid_arg fresh d) (\<lambda>u. Inr (PolicyToRolloutUnicast u s dst ss ds chk tr w t)))))))))))"

definition r2r_broadcast_from_dict :: "string \<Rightarrow> (string, pyval) dict \<Rightarrow> error + command" where
  "r2r_broadcast_from_dict fresh d =
     ebind (arg d ''src_replica_name'' as_str) (\<lambda>s.
     ebind (arg d ''dst_replica_names'' (as_list as_str)) (\<lambda>ds.
     ebind (arg d ''weight_step'' (as_opt as_int)) (\<lambda>w.
     ebind (arg d ''total_steps'' (as_opt as_int)) (\<lambda>t.
     ebind (arg d ''trainable_only'' as_bool) (\<lambda>tr.
     ebind (no_extra d [''src_replica_name'', ''dst_replica_names'', ''weight_step'', ''total_steps'', ''trainable_only'']) (\<lambda>_.
     ebind (uuid_arg fresh d) (\<lambda>u. Inr (RolloutToRolloutBroadcast u s ds w t tr))))))))"

definition data_fetch_params :: "string list" where
  "data_fetch_params = [''replica_name'', ''items_count'', ''global_step'', ''total_steps'', ''remain_samples_num'',
     ''do_save'', ''do_profile'', ''active_steps'', ''rank_filter'', ''record_shape'', ''profile_memory'',
     ''with_stack'', ''with_modules'']"

definition data_fetch_from_dict :: "string \<Rightarrow> (string, pyval) dict \<Rightarrow> error + command" where
  "data_fetch_from_dict fresh d =
     ebind (arg d ''replica_name'' as_str) (\<lambda>n.
     ebind (arg d ''items_count'' as_int) (\<lambda>i.
     ebind (arg d ''global_step'' (as_opt as_int)) (\<lambda>g.
     ebind (arg d ''total_steps'' (as_opt as_int)) (\<lambda>t.
     ebind (arg d ''remain_samples_num'' as_int) (\<lambda>r.
     ebind (arg_default d ''do_save'' as_bool False) (\<lambda>sv.
     ebind (arg_default d ''do_profile'' (as_opt as_bool) None) (\<lambda>pr.
     ebind (arg_default d ''active_steps'' (as_opt as_int) None) (\<lambda>ac.
     ebind (arg_default d ''rank_filter'' (as_opt (as_list as_int)) None) (\<lambda>rf.
     ebind (arg_default d ''record_shape'' (as_opt as_bool) None) (\<lambda>rs.
     ebind (arg_default d ''profile_memory'' (as_opt as_bool) None) (\<lambda>pm.
     ebind (arg_default d ''with_stack'' (as_opt as_bool) None) (\<lambda>wst.
     ebind (arg_default d ''with_modules'' (as_opt as_bool) None) (\<lambda>wm.
     ebind (no_extra d data_fetch_params) (\<lambda>_.
     ebind (uuid_arg fresh d) (\<lambda>u. Inr (DataFetch u n i g t r sv pr ac rf rs pm wst wm))))))))))))))))"

definition deserialize :: "string \<Rightarrow> (string, pyval) dict \<Rightarrow> error + command" where
  "deserialize fresh d =
     (case dict_get d ''command_type'' of None \<Rightarrow> Inl KeyError
      | Some v \<Rightarrow>
          if v = VStr (type_name WEIGHT_RESUME) then weight_resume_from_dict fresh d
          else if v = VStr (type_name BUILD_MESH) then build_mesh_from_dict fresh d
          else if v = VStr (type_name POLICY_TO_POLICY_BROADCAST) then p2p_broadcast_from_dict fresh d
          else if v = VStr (type_name POLICY_TO_POLICY_UNICAST) then p2p_unicast_from_dict fresh d
          else if v = VStr (type_name POLICY_TO_ROLLOUT_UNICAST) then p2r_unicast_from_dict fresh d
          else if v = VStr (type_name ROLLOUT_TO_ROLLOUT_BROADCAST) then r2r_broadcast_from_dict fresh d
          else if v = VStr (type_name DATA_FETCH) then data_fetch_from_dict fresh d
          else Inl ValueError)"

definition pack :: "((string, pyval) dict \<Rightarrow> 'bytes) \<Rightarrow> command \<Rightarrow> 'bytes" where
  "pack packb c = packb (command_dict c)"

definition depack :: "('bytes \<Rightarrow> error + (string, pyval) dict) \<Rightarrow> string \<Rightarrow> 'bytes \<Rightarrow> error + command" where
  "depack unpackb fresh b = ebind (unpackb b) (deserialize fresh)"

definition data_fetch_should_stop :: "command \<Rightarrow> bool" where
  "data_fetch_should_stop c = (case (df_global_step c, df_total_steps c) of
     (Some g, Some t) \<Rightarrow> g \<ge> t | _ \<Rightarrow> False)"

definition r2r_should_stop :: "command \<Rightarrow> bool" where
  "r2r_should_stop c = (case (rrb_weight_step c, rrb_total_steps c) of
     (Some w, Some t) \<Rightarrow> w \<ge> t | _ \<Rightarrow> False)"

section \<open>Handler registries\<close>

type_synonym 'h command_registry = "(command_type, 'h) dict"

definition registry_register :: "command_type \<Rightarrow> 'h \<Rightarrow> 'h command_registry \<Rightarrow> 'h command_registry" where
  "registry_register key func reg = dict_set key func reg"

definition registry_get :: "command_type \<Rightarrow> 'h command_registry \<Rightarrow> 'h option" where
  "registry_get key reg = dict_get reg key"

type_synonym 'h rollout_registry = "(string, 'h command_registry) dict"

definition rollout_registry_register ::
    "command_type \<Rightarrow> 'h \<Rightarrow> string \<Rightarrow> 'h rollout_registry \<Rightarrow> 'h rollout_registry" where
  "rollout_registry_register key func backend reg =
     (let reg = (if dict_get reg backend = None then dict_set backend [] reg else reg) in
      dict_adjust backend (dict_set key func) reg)"

definition rollout_registry_get :: "command_type \<Rightarrow> string \<Rightarrow> 'h rollout_registry \<Rightarrow> 'h option" where
  "rollout_registry_get key backend reg =
     (case dict_get reg backend of None \<Rightarrow> None | Some r \<Rightarrow> dict_get r key)"

section \<open>Packing and unpacking\<close>

named_theorems codec \<open>decoders applied to what the encoders produce\<close>

lemma as_opt_v_opt [codec]:
  "as_opt as_int (v_opt VInt i) = Inr i" "as_opt as_bool (v_opt VBool b) = Inr b"
  "as_opt as_str (VStr s) = Inr (Some s)"
  by (auto simp: as_opt_def v_opt_def split: option.split)

lemma as_list_strs [codec]: "as_list as_str (v_strs xs) = Inr xs"
  unfolding v_strs_def by (induction xs) auto

lemma as_list_ints [codec]: "as_list as_int (v_ints xs) = Inr xs"
  unfolding v_ints_def by (induction xs) auto

lemma as_opt_ints [codec]: "as_opt (as_list as_int) (v_opt v_ints xs) = Inr xs"
proof (cases xs)
  case None
  then show ?thesis by (simp add: as_opt_def v_opt_def)
next
  case (Some ys)
  moreover have "v_ints ys \<noteq> VNone" by (simp add: v_ints_def)
  ultimately show ?thesis by (simp add: as_opt_def v_opt_def as_list_ints)
qed

lemma as_dict_ints [codec]: "as_dict as_int (v_dict d) = Inr d"
  unfolding v_dict_def by (induction d) auto

text \<open>C40: every command the controller packs is unpacked to the same command, whatever the identifier
  a fresh one would get, given that unpacking inverts packing on dictionaries.\<close>

theorem command_roundtrip:
  assumes "\<And>d. unpackb (packb d) = Inr d"
  shows "depack unpackb fresh (pack packb c) = Inr c"
  using assms
  by (cases c)
    (simp_all add: depack_def pack_def deserialize_def command_dict_def base_dict_def dict_get_def arg_def
      arg_default_def no_extra_def uuid_arg_def ensure_def dict_keys_def codec weight_resume_from_dict_def
      build_mesh_from_dict_def p2p_broadcast_from_dict_def p2p_unicast_from_dict_def
      p2r_unicast_from_dict_def r2r_broadcast_from_dict_def data_fetch_from_dict_def data_fetch_params_def)

theorem command_roundtrip_witness:
  "depack Inr ''u1'' (pack id (DataFetch ''u0'' ''p0'' 8 (Some 3) (Some 10) 56 True None (Some 1)
      (Some [0]) None None None None))
   = Inr (DataFetch ''u0'' ''p0'' 8 (Some 3) (Some 10) 56 True None (Some 1) (Some [0]) None None None None)"
  by (rule command_roundtrip) simp

definition handled_types :: "command_type list" where
  "handled_types = [WEIGHT_RESUME, BUILD_MESH, POLICY_TO_POLICY_BROADCAST, POLICY_TO_POLICY_UNICAST,
     POLICY_TO_ROLLOUT_UNICAST, ROLLOUT_TO_ROLLOUT_BROADCAST, DATA_FETCH]"

definition type_error_only :: "error + 'a \<Rightarrow> bool" where
  "type_error_only r \<longleftrightarrow> (\<forall>e. r = Inl e \<longrightarrow> e = TypeError)"

named_theorems only_type_errors

lemma type_error_only_ebind [only_type_errors]:
  "type_error_only r \<Longrightarrow> (\<And>a. type_error_only (f a)) \<Longrightarrow> type_error_only (ebind r f)"
  by (cases r) (auto simp: type_error_only_def)

lemma type_error_only_base [only_type_errors]:
  "type_error_only (Inr a)" "type_error_only (Inl TypeError)" "type_error_only (as_str v)"
  "type_error_only (as_int v)" "type_error_only (as_bool v)" "type_error_only (no_extra d ps)"
  by (auto simp: type_error_only_def no_extra_def ensure_def
      elim: as_str.elims as_int.elims as_bool.elims split: if_splits)

lemma type_error_only_as_list [only_type_errors]:
  "(\<And>v. type_error_only (f v)) \<Longrightarrow> type_error_only (as_list f v)"
proof -
  assume f: "\<And>v. type_error_only (f v)"
  have "type_error_only (foldr (\<lambda>v r. ebind (f v) (\<lambda>x. ebind r (\<lambda>xs. Inr (x # xs)))) vs (Inr []))" for vs
    by (induction vs) (auto intro!: only_type_errors f)
  then show ?thesis by (cases v) (auto intro!: only_type_errors)
qed

lemma type_error_only_as_dict [only_type_errors]:
  "(\<And>v. type_error_only (f v)) \<Longrightarrow> type_error_only (as_dict f v)"
proof -
  assume f: "\<And>v. type_error_only (f v)"
  have "type_error_only (foldr (\<lambda>(k, v) r. ebind (f v) (\<lambda>x. ebind r (\<lambda>xs. Inr ((k, x) # xs)))) vs (Inr []))" for vs
    by (induction vs) (auto intro!: only_type_errors f)
  then show ?thesis by (cases v) (auto intro!: only_type_errors)
qed

lemma type_error_only_as_opt [only_type_errors]:
  "(\<And>v. type_error_only (f v)) \<Longrightarrow> type_error_only (as_opt f v)"
  by (auto simp: as_opt_def intro!: only_type_errors)

lemma type_error_only_args [only_type_errors]:
  "(\<And>v. type_error_only (f v)) \<Longrightarrow> type_error_only (arg d k f)"
  "(\<And>v. type_error_only (f v)) \<Longrightarrow> type_error_only (arg_default d k f x)"
  by (auto simp: arg_def arg_default_def intro!: only_type_errors split: option.split)

lemma type_error_only_uuid [only_type_errors]: "type_error_only (uuid_arg fresh d)"
  unfolding uuid_arg_def by (intro only_type_errors)

lemma type_error_only_from_dict:
  "type_error_only (weight_resume_from_dict fresh d)" "type_error_only (build_mesh_from_dict fresh d)"
  "type_error_only (p2p_broadcast_from_dict fresh d)" "type_error_only (p2p_unicast_from_dict fresh d)"
  "type_error_only (p2r_unicast_from_dict fresh d)" "type_error_only (r2r_broadcast_from_dict fresh d)"
  "type_error_only (data_fetch_from_dict fresh d)"
  unfolding weight_resume_from_dict_def build_mesh_from_dict_def p2p_broadcast_from_dict_def
    p2p_unicast_from_dict_def p2r_unicast_from_dict_def r2r_broadcast_from_dict_def data_fetch_from_dict_def
  by (intro only_type_errors)+

lemma deserialize_missing: "dict_get d ''command_type'' = None \<Longrightarrow> deserialize fresh d = Inl KeyError"
  by (simp add: deserialize_def)

lemma deserialize_handled:
  assumes "dict_get d ''command_type'' = Some v" "v \<in> (VStr \<circ> type_name) ` set handled_types"
  shows "type_error_only (deserialize fresh d)"
  using assms type_error_only_from_dict [of fresh d]
  by (auto simp: deserialize_def handled_types_def simp del: type_name.simps)

lemma deserialize_unhandled:
  assumes "dict_get d ''command_type'' = Some v" "v \<notin> (VStr \<circ> type_name) ` set handled_types"
  shows "deserialize fresh d = Inl ValueError"
  using assms by (simp add: deserialize_def handled_types_def del: type_name.simps)

text \<open>Deserialising fails with \<open>KeyError\<close> exactly when the dictionary has no command type, and
  with \<open>ValueError\<close> exactly when the type is none of the seven that have a class, which are all of
  the enumeration but \<open>ALL_REDUCE\<close>, \<open>STOP\<close>, \<open>VALIDATE\<close> and \<open>DUMMY\<close>; every other failure is a
  \<open>TypeError\<close> of a constructor.\<close>

theorem deserialize_errors:
  "(deserialize fresh d = Inl KeyError \<longleftrightarrow> dict_get d ''command_type'' = None)
   \<and> (deserialize fresh d = Inl ValueError \<longleftrightarrow>
        (\<exists>v. dict_get d ''command_type'' = Some v \<and> v \<notin> (VStr \<circ> type_name) ` set handled_types))
   \<and> (\<forall>e. deserialize fresh d = Inl e \<longrightarrow> e \<in> {KeyError, ValueError, TypeError})
   \<and> UNIV - set handled_types = {ALL_REDUCE, STOP, VALIDATE, DUMMY}"
proof -
  have enum: "c \<in> UNIV - set handled_types \<longleftrightarrow> c \<in> {ALL_REDUCE, STOP, VALIDATE, DUMMY}" for c
    by (cases c) (simp_all add: handled_types_def)
  show ?thesis
  proof (cases "dict_get d ''command_type''")
    case None
    then show ?thesis using enum by (auto simp: deserialize_missing)
  next
    case (Some v)
    show ?thesis
    proof (cases "v \<in> (VStr \<circ> type_name) ` set handled_types")
      case True
      then show ?thesis using Some deserialize_handled [OF Some True, of fresh] enum
        unfolding type_error_only_def by auto
    next
      case False
      then show ?thesis using Some deserialize_unhandled [OF Some False] enum by auto
    qed
  qed
qed

theorem deserialize_errors_witness:
  "deserialize ''u'' [] = Inl KeyError \<and> deserialize ''u'' [(''command_type'', VInt 3)] = Inl ValueError"
proof -
  have "VInt 3 \<notin> (VStr \<circ> type_name) ` set handled_types" by auto
  then show ?thesis
    using deserialize_errors [of "''u''" "[]"] deserialize_errors [of "''u''" "[(''command_type'', VInt 3)]"]
    by (simp add: dict_get_def)
qed

text \<open>A handler registered for a rollout backend is what that backend looks up for the command
  type, and no other command type or backend is affected.\<close>

lemma rollout_registry_lookup:
  "rollout_registry_get key' backend' (rollout_registry_register key func backend reg)
     = (if backend' = backend \<and> key' = key then Some func else rollout_registry_get key' backend' reg)"
  by (auto simp: rollout_registry_get_def rollout_registry_register_def Let_def dict_simps split: option.split)

end
