(* ===== verification/Ctl_State.thy ===== *)
theory Ctl_State
  imports Command_Model
begin

text \<open>
  The state of the controller process: the fields of \<open>PolicyStatusManager\<close> and
  \<open>RolloutStatusManager\<close> (\<open>cosmos_rl/dispatcher/status.py\<close>), of \<open>ControllerDataFetcher\<close>
  (\<open>cosmos_rl/dispatcher/data/data_fetcher.py\<close>) and of \<open>Controller\<close>
  (\<open>cosmos_rl/dispatcher/controller.py\<close>), the part of the configuration they read, and the Redis
  streams they write to, as one record \<open>world\<close>.

  A replica object is kept once, in the dictionary of its manager, and is referred to by its name.
  What is not the program's own is a field of \<open>env\<close>: the tokenizer, numpy, the UUID generator, the
  heartbeat timeout, the order in which a set of
  strings is iterated, the batches a data loader yields and, for the \<open>n\<close>-th request, whether Redis
  accepts it. The clock \<open>now\<close> is in seconds.
\<close>

section \<open>Configuration and environment\<close>

record config =
  cf_mode :: string
  \<comment> \<open>\<open>train\<close>\<close>
  cf_train_batch_per_replica :: int
  cf_max_num_steps :: "int option"
  cf_sync_weight_interval :: int
  cf_resume :: bool
  cf_epoch :: int
  cf_non_text :: bool
  cf_local_dataset :: bool
  \<comment> \<open>\<open>train.train_policy\<close>\<close>
  cf_type :: string
  cf_on_policy :: bool
  cf_variant :: string
  cf_allowed_outdated_steps :: int
  cf_outdated_rollout_fetch_batch_size :: int
  cf_max_retry_for_on_policy :: int
  cf_data_dispatch_as_rank_in_mesh :: bool
  cf_rollout_as_token_ids :: bool
  \<comment> \<open>\<open>train.ckpt\<close>\<close>
  cf_save_freq :: int
  cf_save_freq_in_epoch :: int
  cf_enable_checkpoint :: bool
  \<comment> \<open>\<open>validation\<close>\<close>
  cf_val_enable :: bool
  cf_val_freq :: int
  cf_val_before_train :: bool
  cf_val_n_generation :: int
  \<comment> \<open>\<open>rollout\<close> and \<open>policy\<close>\<close>
  cf_n_generation :: int
  cf_include_stop_str_in_output :: bool
  cf_multi_turn :: bool
  cf_policy_n_init_replicas :: int
  cf_rollout_n_init_replicas :: int
  \<comment> \<open>\<open>logging.logger\<close>\<close>
  cf_loggers :: "string list"

record tokenizer =
  tk_eos_token :: "string option"
  tk_encode :: "string \<Rightarrow> int list"

type_synonym batch = "int list \<times> payload list"

record env =
  ev_tokenizer :: "tokenizer option"
  ev_np_mean :: "rat list \<Rightarrow> error + rat"
  ev_np_std :: "rat list \<Rightarrow> error + rat"
  ev_np_max :: "rat list \<Rightarrow> error + rat"
  ev_np_min :: "rat list \<Rightarrow> error + rat"
  ev_np_sum :: "rat list \<Rightarrow> error + rat"
  ev_sqrt :: "rat \<Rightarrow> rat"
  ev_uuid :: "nat \<Rightarrow> string"
  ev_heartbeat_timeout :: rat
  ev_set_order :: "string list \<Rightarrow> string list"
  ev_redis_accepts :: "nat \<Rightarrow> bool"
  ev_train_batches :: "int \<Rightarrow> batch list"
  ev_val_batches :: "batch list option"
  ev_reference_answer :: "bool \<Rightarrow> int \<Rightarrow> string option"

section \<open>The managers, the data fetcher and the controller\<close>

datatype policy_status = UNINITIALIZED | READY | RUNNING | REDUCED | END | VALIDATED

datatype scaling_event = REPLICA_SCALING_UP | REPLICA_SCALING_DOWN

record scaling_log =
  sl_event :: scaling_event
  sl_replica_name :: string
  sl_timestamp :: int

record policy_manager =
  policy_replicas :: "(string, replica) dict"
  policy_init_done :: bool
  p_scaling_log :: "scaling_log list"
  remain_samples_num :: int
  current_step :: int
  total_steps :: int
  samples_per_epoch :: int
  status :: "(string, policy_status) dict"
  rollout_buffer :: "rollout list"
  rollout_buffer_per_rank :: "rollout list list"
  samples_on_the_fly :: int
  train_report_data :: "(rat, metrics) dict"
  val_report_data :: "(int, rollout list list) dict"
  on_policy_rollout_completed :: bool
  filter_records :: "(string, int) dict"
  policy_atoms_in_replica :: "int option"
  first_policy_replica_arrived :: bool
  report_data_list :: "metrics list option"

record rollout_manager =
  rollout_replicas :: "(string, replica) dict"
  rollout_init_done :: bool
  r_scaling_log :: "scaling_log list"
  rollout_atoms_in_replica :: "int option"

record data_fetcher =
  fe_epoch :: int
  fe_rollout_batch_size :: int
  fe_val_batch_size :: int
  fe_rollout_global_mesh_size :: "int option"
  fe_policy_global_mesh_size :: "int option"
  fe_train_iter :: "batch list"
  fe_val_iters :: "(int, batch list) dict"
  fe_activated_val_iter :: "int option"
  fe_activated_val_tqdm :: bool
  fe_val_datasize :: int
  fe_buffer :: "(int \<times> payload) list"
  fe_val_buffer :: "(int \<times> payload) list"
  fe_fetched_at_step :: "(int, (int, int) dict) dict"

datatype message =
    CommandMsg command
  | RolloutMsg rollout
  | TeacherRequest bool int

record world =
  pm :: policy_manager
  rm :: rollout_manager
  fetcher :: data_fetcher
  cfg :: config
  ev :: env
  now :: rat
  uuid_counter :: nat
  do_weight_sync_check_flag :: bool
  redis_calls :: nat
  redis_log :: "(string \<times> message) list"
  teacher_result_manager :: "string list"
  weight_version_to_prompt_num :: "(int, int) dict"
  stat_completion_tokens_count :: int
  stat_n_samples :: int
  begin_time :: "rat option"
  post_ncclerror_policy_invoke_id :: int

type_synonym 'a ctl = "(world, 'a) exec"

section \<open>Reading and writing the two managers\<close>

datatype side = PolicySide | RolloutSide

primrec replicas_of :: "side \<Rightarrow> world \<Rightarrow> (string, replica) dict" where
  "replicas_of PolicySide s = policy_replicas (pm s)"
| "replicas_of RolloutSide s = rollout_replicas (rm s)"

primrec replicas_upd :: "side \<Rightarrow> ((string, replica) dict \<Rightarrow> (string, replica) dict) \<Rightarrow> world \<Rightarrow> world" where
  "replicas_upd PolicySide f s = pm_update (policy_replicas_update f) s"
| "replicas_upd RolloutSide f s = rm_update (rollout_replicas_update f) s"

definition upd_pm :: "(policy_manager \<Rightarrow> policy_manager) \<Rightarrow> unit ctl" where
  "upd_pm f = modify (pm_update f)"

definition upd_rm :: "(rollout_manager \<Rightarrow> rollout_manager) \<Rightarrow> unit ctl" where
  "upd_rm f = modify (rm_update f)"

definition upd_fetcher :: "(data_fetcher \<Rightarrow> data_fetcher) \<Rightarrow> unit ctl" where
  "upd_fetcher f = modify (fetcher_update f)"

text \<open>Following a reference; the code's references are never to a replica it has not registered.\<close>

definition deref :: "side \<Rightarrow> string \<Rightarrow> replica ctl" where
  "deref sd name = with_state (\<lambda>s. lift_sum (dict_item (replicas_of sd s) name))"

definition adjust_replica :: "side \<Rightarrow> string \<Rightarrow> (replica \<Rightarrow> replica) \<Rightarrow> unit ctl" where
  "adjust_replica sd name f = modify (replicas_upd sd (dict_adjust name f))"

definition set_mesh_rank :: "int \<Rightarrow> replica \<Rightarrow> replica" where
  "set_mesh_rank i = r_status_update (st_mesh_rank_update (\<lambda>_. i))"

definition set_heartbeat :: "rat \<Rightarrow> replica \<Rightarrow> replica" where
  "set_heartbeat t = r_status_update (st_heartbeat_timestamp_update (\<lambda>_. t))"

definition set_nccl_error :: "int option \<Rightarrow> replica \<Rightarrow> replica" where
  "set_nccl_error t = r_status_update (st_nccl_error_timestamp_update (\<lambda>_. t))"

definition mark_loaded :: "replica \<Rightarrow> replica" where
  "mark_loaded = r_weights_loaded_update (\<lambda>_. True)"

text \<open>\<open>int(time.time())\<close>.\<close>

definition int_now :: "world \<Rightarrow> int" where
  "int_now s = \<lfloor>now s\<rfloor>"

section \<open>Redis\<close>

definition publish :: "string \<Rightarrow> message \<Rightarrow> unit ctl" where
  "publish stream msg = with_state (\<lambda>s.
     bnd (modify (redis_calls_update Suc)) (\<lambda>_.
     if ev_redis_accepts (ev s) (redis_calls s)
     then modify (redis_log_update (\<lambda>l. l @ [(stream, msg)]))
     else raise RedisError))"

definition publish_command :: "command \<Rightarrow> string \<Rightarrow> unit ctl" where
  "publish_command cmd name = publish (name @ ''_command'') (CommandMsg cmd)"

definition publish_rollout :: "rollout \<Rightarrow> string \<Rightarrow> unit ctl" where
  "publish_rollout rollout name = publish (name @ ''_rollout'') (RolloutMsg rollout)"

definition fresh_uuid :: "string ctl" where
  "fresh_uuid = with_state (\<lambda>s. bnd (modify (uuid_counter_update Suc)) (\<lambda>_. ret (ev_uuid (ev s) (uuid_counter s))))"

section \<open>What both managers offer\<close>

text \<open>\<open>get_all_atoms_arrived_replicas\<close>, as names in the order of the dictionary.\<close>

definition arrived_names :: "(string, replica) dict \<Rightarrow> error + string list" where
  "arrived_names d = ebind (sum_filter (\<lambda>(n, r). all_atoms_arrived r) d) (\<lambda>xs. Inr (map fst xs))"

definition get_all_atoms_arrived_replicas :: "side \<Rightarrow> string list ctl" where
  "get_all_atoms_arrived_replicas sd = with_state (\<lambda>s. lift_sum (arrived_names (replicas_of sd s)))"

definition start_time_in :: "(string, replica) dict \<Rightarrow> string \<Rightarrow> int" where
  "start_time_in d n = (case dict_get d n of None \<Rightarrow> -1 | Some r \<Rightarrow> r_start_time r)"

text \<open>\<open>sorted(replicas, key=lambda x: x.start_time)\<close>, a stable sort.\<close>

definition by_start_time :: "side \<Rightarrow> world \<Rightarrow> string list \<Rightarrow> string list" where
  "by_start_time sd s names = sort_key (start_time_in (replicas_of sd s)) names"

text \<open>\<open>__iter__\<close>: the replicas in the order of their names.\<close>

definition iter_names :: "side \<Rightarrow> world \<Rightarrow> string list" where
  "iter_names sd s = sort (map (\<lambda>(n, r). r_name r) (replicas_of sd s))"

definition has_replica :: "side \<Rightarrow> string \<Rightarrow> world \<Rightarrow> bool" where
  "has_replica sd name s \<longleftrightarrow> dict_get (replicas_of sd s) name \<noteq> None"

definition heartbeat :: "side \<Rightarrow> string \<Rightarrow> unit ctl" where
  "heartbeat sd name = with_state (\<lambda>s.
     if has_replica sd name s then adjust_replica sd name (set_heartbeat (of_int (int_now s))) else ret ())"

definition manager_n_atoms_per_replica :: "side \<Rightarrow> int ctl" where
  "manager_n_atoms_per_replica sd = with_state (\<lambda>s.
     case dict_values (replicas_of sd s) of [] \<Rightarrow> ret 0 | r # _ \<Rightarrow> lift_sum (n_atoms_per_replica r))"

definition dead_names :: "side \<Rightarrow> world \<Rightarrow> string list" where
  "dead_names sd s = filter (\<lambda>n. case dict_get (replicas_of sd s) n of None \<Rightarrow> False
      | Some r \<Rightarrow> ev_heartbeat_timeout (ev s) < now s - st_heartbeat_timestamp (r_status r)) (iter_names sd s)"

section \<open>The dictionary of a manager as an interface\<close>

text \<open>
  What the operations on replicas rely on, whichever manager holds them: reading after an update,
  and that an update leaves the other manager's replicas and everything else alone.
\<close>

locale replica_store =
  fixes get :: "world \<Rightarrow> (string, replica) dict"
    and upd :: "((string, replica) dict \<Rightarrow> (string, replica) dict) \<Rightarrow> world \<Rightarrow> world"
    and other :: "world \<Rightarrow> (string, replica) dict"
  assumes get_upd: "get (upd f s) = f (get s)"
    and upd_upd: "upd f (upd g s) = upd (f \<circ> g) s"
    and upd_id: "upd id s = s"
    and other_upd: "other (upd f s) = other s"
    and upd_env: "ev (upd f s) = ev s" "cfg (upd f s) = cfg s" "redis_calls (upd f s) = redis_calls s"
      "redis_log (upd f s) = redis_log s" "uuid_counter (upd f s) = uuid_counter s" "fetcher (upd f s) = fetcher s"
    and upd_log: "upd f (s\<lparr>redis_calls := c, redis_log := l\<rparr>) = (upd f s)\<lparr>redis_calls := c, redis_log := l\<rparr>"
begin

text \<open>Mutating named replicas one after the other.\<close>

definition adjust_all :: "(string \<times> (replica \<Rightarrow> replica)) list \<Rightarrow> world \<Rightarrow> world" where
  "adjust_all xs s = fold (\<lambda>(n, f). upd (dict_adjust n f)) xs s"

lemma adjust_all_get:
  "distinct (map fst xs) \<Longrightarrow> dict_get (get (adjust_all xs s)) n
     = (case map_of xs n of None \<Rightarrow> dict_get (get s) n | Some f \<Rightarrow> map_option f (dict_get (get s) n))"
proof (induction xs arbitrary: s)
  case Nil
  then show ?case by (simp add: adjust_all_def)
next
  case (Cons x xs)
  obtain m f where x: "x = (m, f)" by (cases x)
  have "adjust_all (x # xs) s = adjust_all xs (upd (dict_adjust m f) s)" by (simp add: adjust_all_def x)
  moreover have "map_of xs m = None" using Cons.prems by (simp add: x map_of_eq_None_iff)
  ultimately show ?case
    using Cons.IH [of "upd (dict_adjust m f) s"] Cons.prems by (auto simp: x get_upd dict_simps split: option.splits)
qed

lemma adjust_all_keys: "dict_keys (get (adjust_all xs s)) = dict_keys (get s)"
proof (induction xs arbitrary: s)
  case Nil
  then show ?case by (simp add: adjust_all_def)
next
  case (Cons x xs)
  have "adjust_all (x # xs) s = adjust_all xs (upd (dict_adjust (fst x) (snd x)) s)"
    by (simp add: adjust_all_def split_def)
  then show ?case by (simp add: Cons.IH get_upd)
qed

lemma adjust_all_env:
  "ev (adjust_all xs s) = ev s" "cfg (adjust_all xs s) = cfg s" "redis_calls (adjust_all xs s) = redis_calls s"
  "redis_log (adjust_all xs s) = redis_log s" "uuid_counter (adjust_all xs s) = uuid_counter s"
  "fetcher (adjust_all xs s) = fetcher s" "other (adjust_all xs s) = other s"
  by (induction xs arbitrary: s) (auto simp: adjust_all_def upd_env other_upd)

lemma adjust_all_is_upd: "\<exists>f. adjust_all xs s = upd f s"
proof (induction xs arbitrary: s)
  case Nil
  then show ?case using upd_id by (metis adjust_all_def fold_simps(1))
next
  case (Cons x xs)
  have "adjust_all (x # xs) s = adjust_all xs (upd (dict_adjust (fst x) (snd x)) s)"
    by (simp add: adjust_all_def split_def)
  then show ?case using Cons.IH [of "upd (dict_adjust (fst x) (snd x)) s"] upd_upd by metis
qed

lemma for_each_adjust:
  "for_each xs (\<lambda>x. modify (upd (dict_adjust (key x) (f x)))) s = Ok () (adjust_all (map (\<lambda>x. (key x, f x)) xs) s)"
  by (simp add: for_each_modify adjust_all_def fold_map comp_def)

end

lemma replicas_of_upd: "replicas_of sd (replicas_upd sd f s) = f (replicas_of sd s)"
  by (cases sd) simp_all

primrec opposite :: "side \<Rightarrow> side" where
  "opposite PolicySide = RolloutSide"
| "opposite RolloutSide = PolicySide"

interpretation policy_store: replica_store "replicas_of PolicySide" "replicas_upd PolicySide" "replicas_of RolloutSide"
  by unfold_locales (simp_all add: comp_def)

interpretation rollout_store: replica_store "replicas_of RolloutSide" "replicas_upd RolloutSide" "replicas_of PolicySide"
  by unfold_locales (simp_all add: comp_def)

interpretation side_store: replica_store "replicas_of sd" "replicas_upd sd" "replicas_of (opposite sd)" for sd
  by (cases sd) (simp_all add: policy_store.replica_store_axioms rollout_store.replica_store_axioms)

section \<open>Sending\<close>

text \<open>\<open>redis_up\<close>: Redis accepts every request. \<open>sent msgs s\<close> is the state after publishing \<open>msgs\<close>.\<close>

definition redis_up :: "world \<Rightarrow> bool" where
  "redis_up s \<longleftrightarrow> (\<forall>k. ev_redis_accepts (ev s) k)"

definition sent :: "(string \<times> message) list \<Rightarrow> world \<Rightarrow> world" where
  "sent msgs s = s\<lparr>redis_calls := redis_calls s + length msgs, redis_log := redis_log s @ msgs\<rparr>"

lemma sent_simps [simp]:
  "redis_log (sent msgs s) = redis_log s @ msgs" "pm (sent msgs s) = pm s" "rm (sent msgs s) = rm s"
  "fetcher (sent msgs s) = fetcher s" "cfg (sent msgs s) = cfg s" "ev (sent msgs s) = ev s"
  "now (sent msgs s) = now s" "uuid_counter (sent msgs s) = uuid_counter s"
  "replicas_of sd (sent msgs s) = replicas_of sd s" "redis_up (sent msgs s) = redis_up s"
  "do_weight_sync_check_flag (sent msgs s) = do_weight_sync_check_flag s"
  "teacher_result_manager (sent msgs s) = teacher_result_manager s"
  by (cases sd; simp add: sent_def redis_up_def)+

lemma sent_Nil [simp]: "sent [] s = s"
  by (simp add: sent_def)

lemma sent_sent [simp]: "sent ms (sent ms' s) = sent (ms' @ ms) s"
  by (simp add: sent_def)

lemma publish_up: "redis_up s \<Longrightarrow> publish stream msg s = Ok () (sent [(stream, msg)] s)"
  by (simp add: publish_def redis_up_def sent_def)

lemma publish_command_up: "redis_up s \<Longrightarrow> publish_command c n s = Ok () (sent [(n @ ''_command'', CommandMsg c)] s)"
  by (simp add: publish_command_def publish_up)

lemma publish_rollout_up: "redis_up s \<Longrightarrow> publish_rollout r n s = Ok () (sent [(n @ ''_rollout'', RolloutMsg r)] s)"
  by (simp add: publish_rollout_def publish_up)

lemma for_each_publish_up:
  "redis_up s \<Longrightarrow> for_each ns (publish_command c) s = Ok () (sent (map (\<lambda>n. (n @ ''_command'', CommandMsg c)) ns) s)"
  by (induction ns arbitrary: s) (simp_all add: publish_command_up)

section \<open>Well-formed registries\<close>

definition replicas_ok :: "(string, replica) dict \<Rightarrow> bool" where
  "replicas_ok d \<longleftrightarrow> dict_wf d \<and> (\<forall>(n, r) \<in> set d. r_name r = n \<and> replica_inv r)"

definition arrived_in :: "(string, replica) dict \<Rightarrow> string \<Rightarrow> bool" where
  "arrived_in d n \<longleftrightarrow> (\<exists>r. dict_get d n = Some r \<and> all_atoms_arrived r = Inr True)"

lemma replicas_ok_get: "replicas_ok d \<Longrightarrow> dict_get d n = Some r \<Longrightarrow> r_name r = n \<and> replica_inv r"
  by (auto simp: replicas_ok_def dict_get_mem)

lemma arrived_names_ok:
  assumes "replicas_ok d"
  shows "arrived_names d = Inr (filter (arrived_in d) (dict_keys d))"
proof -
  let ?q = "\<lambda>(n, r). all_atoms_arrived r = Inr True"
  have "(case x of (n, r) \<Rightarrow> all_atoms_arrived r) = Inr (?q x)" if "x \<in> set d" for x
    using that assms arrived_total by (force simp: replicas_ok_def)
  then have "sum_filter (\<lambda>(n, r). all_atoms_arrived r) d = Inr (filter ?q d)"
    by (rule sum_filter_total)
  moreover have "map fst (filter ?q d) = filter (arrived_in d) (map fst d)"
  proof -
    have "?q x = arrived_in d (fst x)" if "x \<in> set d" for x
    proof -
      obtain n r where x: "x = (n, r)" by (cases x)
      then have "dict_get d n = Some r" using that assms by (simp add: replicas_ok_def dict_get_mem)
      then show ?thesis by (simp add: x arrived_in_def)
    qed
    then have "filter ?q d = filter (\<lambda>x. arrived_in d (fst x)) d" by (rule filter_cong [OF refl])
    then show ?thesis by (simp add: filter_map comp_def)
  qed
  ultimately show ?thesis by (simp add: arrived_names_def dict_keys_def)
qed

definition arrived_list :: "side \<Rightarrow> world \<Rightarrow> string list" where
  "arrived_list sd s = filter (arrived_in (replicas_of sd s)) (dict_keys (replicas_of sd s))"

lemma get_all_atoms_arrived_run:
  "replicas_ok (replicas_of sd s) \<Longrightarrow> get_all_atoms_arrived_replicas sd s = Ok (arrived_list sd s) s"
  by (simp add: get_all_atoms_arrived_replicas_def arrived_names_ok arrived_list_def)

lemma arrived_list_sent [simp]: "arrived_list sd (sent ms s) = arrived_list sd s"
  by (simp add: arrived_list_def)

lemma arrived_list_arrived: "n \<in> set (arrived_list sd s) \<Longrightarrow> arrived_in (replicas_of sd s) n"
  by (simp add: arrived_list_def)

lemma distinct_arrived_list: "replicas_ok (replicas_of sd s) \<Longrightarrow> distinct (arrived_list sd s)"
  by (simp add: arrived_list_def replicas_ok_def dict_wf_def)

lemma all_atoms_arrived_atoms: "r_atoms r = r_atoms r' \<Longrightarrow> all_atoms_arrived r = all_atoms_arrived r'"
  by (simp add: all_atoms_arrived_def cong: list.case_cong)

lemma arrived_in_get:
  assumes "map_option r_atoms (dict_get d n) = map_option r_atoms (dict_get d' n)"
  shows "arrived_in d n = arrived_in d' n"
proof (cases "dict_get d n")
  case None
  then show ?thesis using assms by (simp add: arrived_in_def)
next
  case (Some r)
  then obtain r' where "dict_get d' n = Some r'" "r_atoms r' = r_atoms r" using assms by (cases "dict_get d' n") auto
  then show ?thesis using Some all_atoms_arrived_atoms [of r r'] by (simp add: arrived_in_def)
qed

lemma arrived_list_cong:
  assumes "dict_keys (replicas_of sd s) = dict_keys (replicas_of sd t)"
    and "\<And>n. map_option r_atoms (dict_get (replicas_of sd s) n) = map_option r_atoms (dict_get (replicas_of sd t) n)"
  shows "arrived_list sd s = arrived_list sd t"
  unfolding arrived_list_def assms(1) using arrived_in_get [OF assms(2)] by (metis (mono_tags, lifting) filter_cong)

lemma set_by_start_time [simp]: "set (by_start_time sd s ns) = set ns"
  by (simp add: by_start_time_def)

lemma length_by_start_time [simp]: "length (by_start_time sd s ns) = length ns"
  by (simp add: by_start_time_def)

lemma distinct_by_start_time [simp]: "distinct (by_start_time sd s ns) = distinct ns"
  by (simp add: by_start_time_def)

lemma by_start_time_sorted:
  "i \<le> j \<Longrightarrow> j < length ns \<Longrightarrow> start_time_in (replicas_of sd s) (by_start_time sd s ns ! i)
     \<le> start_time_in (replicas_of sd s) (by_start_time sd s ns ! j)"
proof -
  assume "i \<le> j" "j < length ns"
  moreover have "sorted (map (start_time_in (replicas_of sd s)) (by_start_time sd s ns))"
    by (simp add: by_start_time_def)
  ultimately show ?thesis
    using sorted_nth_mono [of "map (start_time_in (replicas_of sd s)) (by_start_time sd s ns)" i j] by simp
qed

section \<open>What registries depend on\<close>

text \<open>Being well-formed and having arrived depend only on the names, roles and atoms of replicas; most
  operations change neither.\<close>

type_synonym atom_shape = "string \<times> int \<times> int list"

type_synonym replica_shape = "string \<times> string \<times> (string \<times> atom_shape) list"

definition atom_shape :: "atom \<Rightarrow> atom_shape" where
  "atom_shape a = (at_replica_name a, at_global_rank a, at_group_size a)"

definition replica_shape :: "replica \<Rightarrow> replica_shape" where
  "replica_shape r = (r_name r, r_role r, map (\<lambda>(k, a). (k, atom_shape a)) (r_atoms r))"

definition skeleton :: "(string, replica) dict \<Rightarrow> (string \<times> replica_shape) list" where
  "skeleton d = map (\<lambda>(n, r). (n, replica_shape r)) d"

lemma replica_inv_of_shape:
  "replica_inv r = (case replica_shape r of (nm, ro, ats) \<Rightarrow> distinct (map fst ats) \<and> ats \<noteq> []
     \<and> (\<forall>(k, rn, g, gs) \<in> set ats. k = rn @ ''_'' @ py_str_int g \<and> rn = nm)
     \<and> (\<forall>(k, rn, g, gs) \<in> set ats. \<forall>(k', rn', g', gs') \<in> set ats. gs = gs'))"
proof -
  have "dict_wf (r_atoms r) = distinct (map fst (map (\<lambda>(k, a). (k, atom_shape a)) (r_atoms r)))"
    by (simp add: dict_wf_def dict_keys_def comp_def split_def)
  moreover have "(\<forall>(k, a) \<in> set (r_atoms r). k = atom_key a \<and> at_replica_name a = r_name r)
      = (\<forall>(k, rn, g, gs) \<in> set (map (\<lambda>(k, a). (k, atom_shape a)) (r_atoms r)). k = rn @ ''_'' @ py_str_int g \<and> rn = r_name r)"
    by (simp add: atom_shape_def atom_key_def split_def)
  moreover have "(\<forall>a \<in> set (dict_values (r_atoms r)). \<forall>b \<in> set (dict_values (r_atoms r)). at_group_size a = at_group_size b)
      = (\<forall>(k, rn, g, gs) \<in> set (map (\<lambda>(k, a). (k, atom_shape a)) (r_atoms r)).
           \<forall>(k', rn', g', gs') \<in> set (map (\<lambda>(k, a). (k, atom_shape a)) (r_atoms r)). gs = gs')"
    by (simp add: atom_shape_def dict_values_set split_def)
  ultimately show ?thesis by (simp add: replica_inv_def replica_shape_def)
qed

lemma all_atoms_arrived_of_shape:
  "all_atoms_arrived r = (case replica_shape r of (nm, ro, ats) \<Rightarrow>
     case ats of [] \<Rightarrow> Inl AssertionError | (k, rn, g, gs) # _ \<Rightarrow> Inr (int (length ats) = prod_list gs))"
  by (cases "r_atoms r") (auto simp: all_atoms_arrived_def replica_shape_def dict_values_def atom_shape_def)

lemma skeleton_keys: "dict_keys d = map fst (skeleton d)"
  by (simp add: dict_keys_def skeleton_def comp_def split_def)

lemma skeleton_get: "map_option replica_shape (dict_get d n) = map_of (skeleton d) n"
  by (induction d) (auto simp: dict_get_def skeleton_def)

lemma skeleton_adjust:
  "(\<And>r. replica_shape (f r) = replica_shape r) \<Longrightarrow> skeleton (dict_adjust n f d) = skeleton d"
  by (auto simp: skeleton_def dict_adjust_def)

lemma replicas_ok_of_skeleton:
  "replicas_ok d = (distinct (map fst (skeleton d)) \<and> (\<forall>(n, sh) \<in> set (skeleton d). fst sh = n
     \<and> (case sh of (nm, ro, ats) \<Rightarrow> distinct (map fst ats) \<and> ats \<noteq> []
          \<and> (\<forall>(k, rn, g, gs) \<in> set ats. k = rn @ ''_'' @ py_str_int g \<and> rn = nm)
          \<and> (\<forall>(k, rn, g, gs) \<in> set ats. \<forall>(k', rn', g', gs') \<in> set ats. gs = gs'))))"
proof -
  have "(\<forall>(n, r) \<in> set d. r_name r = n \<and> replica_inv r)
      = (\<forall>(n, sh) \<in> set (skeleton d). fst sh = n
     \<and> (case sh of (nm, ro, ats) \<Rightarrow> distinct (map fst ats) \<and> ats \<noteq> []
          \<and> (\<forall>(k, rn, g, gs) \<in> set ats. k = rn @ ''_'' @ py_str_int g \<and> rn = nm)
          \<and> (\<forall>(k, rn, g, gs) \<in> set ats. \<forall>(k', rn', g', gs') \<in> set ats. gs = gs')))"
    unfolding skeleton_def set_map ball_simps replica_inv_of_shape
    by (intro ball_cong refl) (simp add: split_def, simp add: replica_shape_def)
  then show ?thesis by (simp add: replicas_ok_def dict_wf_def flip: skeleton_keys)
qed

lemma replicas_ok_cong: "skeleton d = skeleton d' \<Longrightarrow> replicas_ok d = replicas_ok d'"
  unfolding replicas_ok_of_skeleton by simp

lemma arrived_in_of_skeleton:
  "arrived_in d n = (\<exists>nm ro k rn g gs ats. map_of (skeleton d) n = Some (nm, ro, (k, rn, g, gs) # ats)
     \<and> int (Suc (length ats)) = prod_list gs)"
proof -
  have "arrived_in d n = (case map_option replica_shape (dict_get d n) of None \<Rightarrow> False
     | Some (nm, ro, ats) \<Rightarrow> (case ats of [] \<Rightarrow> False | (k, rn, g, gs) # _ \<Rightarrow> int (length ats) = prod_list gs))"
    by (auto simp: arrived_in_def all_atoms_arrived_of_shape split: option.splits list.splits prod.splits)
  then show ?thesis unfolding skeleton_get by (auto split: option.splits list.splits)
qed

lemma arrived_in_cong: "skeleton d = skeleton d' \<Longrightarrow> arrived_in d n = arrived_in d' n"
  unfolding arrived_in_of_skeleton by simp

lemma arrived_list_skeleton:
  "skeleton (replicas_of sd s) = skeleton (replicas_of sd t) \<Longrightarrow> arrived_list sd s = arrived_list sd t"
proof -
  assume eq: "skeleton (replicas_of sd s) = skeleton (replicas_of sd t)"
  then have "arrived_in (replicas_of sd s) = arrived_in (replicas_of sd t)" by (intro ext arrived_in_cong)
  then show ?thesis by (simp add: arrived_list_def skeleton_keys eq)
qed

lemma has_replica_skeleton:
  "skeleton (replicas_of sd s) = skeleton (replicas_of sd t) \<Longrightarrow> has_replica sd n s = has_replica sd n t"
  by (simp add: has_replica_def dict_get_None_iff skeleton_keys)

lemma shape_updates [simp]:
  "replica_shape (set_mesh_rank i r) = replica_shape r" "replica_shape (set_heartbeat t r) = replica_shape r"
  "replica_shape (set_nccl_error x r) = replica_shape r" "replica_shape (mark_loaded r) = replica_shape r"
  "replica_shape (r\<lparr>r_start_time := t'\<rparr>) = replica_shape r" "replica_shape (r_profiler_update p r) = replica_shape r"
  "replica_shape (r_status_update q r) = replica_shape r"
  by (simp_all add: replica_shape_def set_mesh_rank_def set_heartbeat_def set_nccl_error_def mark_loaded_def)

context replica_store
begin

lemma adjust_all_skeleton:
  "\<forall>x \<in> set xs. \<forall>r. replica_shape (snd x r) = replica_shape r \<Longrightarrow>
   skeleton (get (adjust_all xs s)) = skeleton (get s)"
proof (induction xs arbitrary: s)
  case Nil
  then show ?case by (simp add: adjust_all_def)
next
  case (Cons x xs)
  obtain n f where x: "x = (n, f)" by (cases x)
  have "adjust_all (x # xs) s = adjust_all xs (upd (dict_adjust n f) s)" by (simp add: adjust_all_def x)
  then show ?case using Cons.IH [of "upd (dict_adjust n f) s"] Cons.prems
    by (simp add: get_upd x skeleton_adjust)
qed

end

section \<open>A small concrete state\<close>

text \<open>Two policy replicas and one rollout replica of one process each, for the instances of the
  properties below.\<close>

definition sample_unit :: "string \<Rightarrow> atom" where
  "sample_unit name = atom_init 0 ''10.0.0.1'' ''n1'' None [0, 0, 0, 0] [1, 1, 1, 1] name"

definition sample_replica :: "string \<Rightarrow> string \<Rightarrow> int \<Rightarrow> replica" where
  "sample_replica role name start =
     (replica_init 100 name role [sample_unit name])\<lparr>r_start_time := start, r_weights_loaded := True,
       r_status := (replica_status_init 100)\<lparr>st_mesh_rank := 0\<rparr>\<rparr>"

definition sample_rollout :: "int \<Rightarrow> rollout" where
  "sample_rollout i = \<lparr> ro_prompt = VStr ''q'', ro_prompt_idx = i, ro_conversation = None,
     ro_completion = VStr ''a'', ro_completed_conversation = None, ro_is_end = False, ro_reward = 1,
     ro_advantage = 0, ro_n_ignore_prefix_tokens = 0, ro_filter_reward = 0,
     ro_completion_token_ids = None, ro_completion_logprobs = None, ro_prompt_logprobs = None,
     ro_prompt_token_ids = None, ro_extra_info = None, ro_weight_version = 0, ro_report_metrics = None,
     ro_teacher_result_uuid = '''', ro_teacher_logprobs = None \<rparr>"

definition sample_config :: config where
  "sample_config = \<lparr> cf_mode = ''disaggregated'', cf_train_batch_per_replica = 2, cf_max_num_steps = None,
     cf_sync_weight_interval = 1, cf_resume = False, cf_epoch = 1, cf_non_text = False, cf_local_dataset = False,
     cf_type = ''grpo'', cf_on_policy = False, cf_variant = ''grpo'', cf_allowed_outdated_steps = 4,
     cf_outdated_rollout_fetch_batch_size = 0, cf_max_retry_for_on_policy = -1,
     cf_data_dispatch_as_rank_in_mesh = False, cf_rollout_as_token_ids = False, cf_save_freq = 2,
     cf_save_freq_in_epoch = 0, cf_enable_checkpoint = True, cf_val_enable = False, cf_val_freq = 1,
     cf_val_before_train = False, cf_val_n_generation = 1, cf_n_generation = 2,
     cf_include_stop_str_in_output = False, cf_multi_turn = False, cf_policy_n_init_replicas = 2,
     cf_rollout_n_init_replicas = 1, cf_loggers = [] \<rparr>"

definition sample_env :: env where
  "sample_env = \<lparr> ev_tokenizer = Some \<lparr> tk_eos_token = Some ''.'', tk_encode = map of_char \<rparr>,
     ev_np_mean = (\<lambda>vs. if vs = [] then Inl ValueError else Inr (sum_list vs / of_nat (length vs))),
     ev_np_std = (\<lambda>vs. if vs = [] then Inl ValueError else Inr 0),
     ev_np_max = (\<lambda>vs. if vs = [] then Inl ValueError else Inr (Max (set vs))),
     ev_np_min = (\<lambda>vs. if vs = [] then Inl ValueError else Inr (Min (set vs))),
     ev_np_sum = (\<lambda>vs. Inr (sum_list vs)), ev_sqrt = (\<lambda>x. x), ev_uuid = (\<lambda>n. nat_digits n),
     ev_heartbeat_timeout = 200, ev_set_order = (\<lambda>xs. xs), ev_redis_accepts = (\<lambda>n. True),
     ev_train_batches = (\<lambda>e. []), ev_val_batches = None, ev_reference_answer = (\<lambda>v i. None) \<rparr>"

definition sample_world :: world where
  "sample_world = \<lparr>
     pm = \<lparr> policy_replicas = [(''p1'', sample_replica POLICY ''p1'' 5), (''p0'', sample_replica POLICY ''p0'' 3)],
       policy_init_done = True, p_scaling_log = [], remain_samples_num = 40, current_step = 2, total_steps = 12,
       samples_per_epoch = 48, status = [(''p1'', READY), (''p0'', READY)],
       rollout_buffer = map sample_rollout [0, 1, 2, 3, 4], rollout_buffer_per_rank = [], samples_on_the_fly = 8,
       train_report_data = [], val_report_data = [], on_policy_rollout_completed = False, filter_records = [],
       policy_atoms_in_replica = Some 1, first_policy_replica_arrived = True, report_data_list = None \<rparr>,
     rm = \<lparr> rollout_replicas = [(''r0'', sample_replica ROLLOUT ''r0'' 4)], rollout_init_done = True,
       r_scaling_log = [], rollout_atoms_in_replica = Some 1 \<rparr>,
     fetcher = \<lparr> fe_epoch = 1, fe_rollout_batch_size = 2, fe_val_batch_size = 2,
       fe_rollout_global_mesh_size = Some 1, fe_policy_global_mesh_size = Some 2, fe_train_iter = [],
       fe_val_iters = [], fe_activated_val_iter = None, fe_activated_val_tqdm = False, fe_val_datasize = 0,
       fe_buffer = [], fe_val_buffer = [], fe_fetched_at_step = [] \<rparr>,
     cfg = sample_config, ev = sample_env, now = 150, uuid_counter = 0, do_weight_sync_check_flag = False,
     redis_calls = 0, redis_log = [], teacher_result_manager = [], weight_version_to_prompt_num = [],
     stat_completion_tokens_count = 0, stat_n_samples = 0, begin_time = None, post_ncclerror_policy_invoke_id = 0 \<rparr>"

lemma sample_redis_up: "redis_up sample_world"
  by (simp add: redis_up_def sample_world_def sample_env_def)

lemma sample_replica_ok:
  "all_atoms_arrived (sample_replica role n st) = Inr True" "r_name (sample_replica role n st) = n"
  "r_role (sample_replica role n st) = role" "r_start_time (sample_replica role n st) = st"
  "replica_inv (sample_replica role n st)" "length (r_atoms (sample_replica role n st)) = 1"
  by (simp_all add: sample_replica_def replica_init_def sample_unit_def atom_init_def all_atoms_arrived_def
      dict_set_def dict_values_def replica_inv_def dict_wf_def dict_keys_def)

lemma sample_replicas_ok: "replicas_ok (replicas_of sd sample_world)"
  by (cases sd) (simp_all add: replicas_ok_def sample_world_def dict_wf_def dict_keys_def sample_replica_ok)

lemma sample_arrived:
  "arrived_in (replicas_of PolicySide sample_world) ''p0''" "arrived_in (replicas_of PolicySide sample_world) ''p1''"
  "arrived_in (replicas_of RolloutSide sample_world) ''r0''"
  by (simp_all add: arrived_in_def sample_world_def dict_get_def sample_replica_ok)

lemma sample_keys:
  "dict_keys (replicas_of PolicySide sample_world) = [''p1'', ''p0'']"
  "dict_keys (replicas_of RolloutSide sample_world) = [''r0'']"
  by (simp_all add: sample_world_def dict_keys_def)

lemma sample_arrived_list:
  "arrived_list PolicySide sample_world = [''p1'', ''p0'']" "arrived_list RolloutSide sample_world = [''r0'']"
  using sample_keys sample_arrived by (simp_all add: arrived_list_def)

end
