(* ===== verification/Triggers.thy ===== *)
theory Triggers
  imports Ctl_State
begin

text \<open>
  The \<open>trigger\<close> class methods of \<open>cosmos_rl/dispatcher/command.py\<close>: each builds a command with a
  fresh identifier, publishes it to the streams of the replicas concerned and marks them. Replicas
  are named with the manager (\<open>side\<close>) that holds them.
\<close>

definition weight_resume_trigger :: "string \<Rightarrow> unit ctl" where
  "weight_resume_trigger name =
     bnd (deref PolicySide name) (\<lambda>r.
     bnd (py_assert (r_role r = POLICY)) (\<lambda>_.
     bnd fresh_uuid (\<lambda>u.
     bnd (publish_command (WeightResume u name) name) (\<lambda>_.
     adjust_replica PolicySide name mark_loaded))))"

definition replicas_to_rank :: "string list \<Rightarrow> (string, int) dict" where
  "replicas_to_rank names = fold (\<lambda>(i, n). dict_set n (int i)) (enumerate 0 names) []"

definition build_mesh_trigger :: "side \<Rightarrow> string list \<Rightarrow> unit ctl" where
  "build_mesh_trigger sd names =
     bnd (for_each names (\<lambda>n. bnd (deref sd n) (\<lambda>r. bnd (lift_sum (all_atoms_arrived r)) py_assert))) (\<lambda>_.
     bnd (for_each (enumerate 0 names) (\<lambda>(i, n). adjust_replica sd n (set_mesh_rank (int i)))) (\<lambda>_.
     bnd fresh_uuid (\<lambda>u.
     for_each names (publish_command (BuildMesh u (replicas_to_rank names))))))"

definition p2p_broadcast_trigger :: "string \<Rightarrow> string list \<Rightarrow> int option \<Rightarrow> unit ctl" where
  "p2p_broadcast_trigger src dsts tot =
     bnd fresh_uuid (\<lambda>u.
     for_each dsts (\<lambda>n.
       bnd (publish_command (PolicyToPolicyBroadcast u src dsts tot) n) (\<lambda>_.
       adjust_replica PolicySide n mark_loaded)))"

definition p2p_unicast_trigger :: "string \<Rightarrow> string \<Rightarrow> int option \<Rightarrow> unit ctl" where
  "p2p_unicast_trigger src dst tot =
     bnd fresh_uuid (\<lambda>u.
     let cmd = PolicyToPolicyUnicast u src dst tot in
     block [publish_command cmd src,
            publish_command cmd dst,
            adjust_replica PolicySide dst mark_loaded])"

text \<open>The class attribute \<open>_do_weight_sync_check_flag\<close> is a field of the state: it asks for a check on
  the first command only.\<close>

definition p2r_unicast_trigger :: "string \<Rightarrow> string \<Rightarrow> int \<Rightarrow> int \<Rightarrow> int option \<Rightarrow> int option \<Rightarrow> unit ctl" where
  "p2r_unicast_trigger src dst src_size dst_size weight_step tot =
     bnd (deref RolloutSide dst) (\<lambda>r.
     bnd (gets do_weight_sync_check_flag) (\<lambda>flag.
     bnd fresh_uuid (\<lambda>u.
     let cmd = PolicyToRolloutUnicast u src dst src_size dst_size flag (r_weights_loaded r) weight_step tot in
     block [publish_command cmd src,
            publish_command cmd dst,
            adjust_replica RolloutSide dst mark_loaded,
            guarded flag (modify (do_weight_sync_check_flag_update (\<lambda>_. False)))])))"

definition r2r_broadcast_trigger :: "string \<Rightarrow> string list \<Rightarrow> int option \<Rightarrow> int option \<Rightarrow> unit ctl" where
  "r2r_broadcast_trigger src dsts weight_step tot =
     bnd (deref RolloutSide src) (\<lambda>r.
     if \<not> in_mesh r then ret ()
     else
       bnd (with_state (\<lambda>s. lift_sum (efold (\<lambda>n b. ebind (dict_item (replicas_of RolloutSide s) n)
               (\<lambda>d. Inr (b \<and> r_weights_loaded d))) dsts True))) (\<lambda>trainable_only.
       bnd fresh_uuid (\<lambda>u.
       for_each dsts (\<lambda>n.
         bnd (deref RolloutSide n) (\<lambda>d.
         guarded (in_mesh d)
           (block [publish_command (RolloutToRolloutBroadcast u src dsts weight_step tot trainable_only) n,
                   adjust_replica RolloutSide n mark_loaded]))))))"

definition data_fetch_trigger ::
    "string \<Rightarrow> int \<Rightarrow> int option \<Rightarrow> int option \<Rightarrow> int \<Rightarrow> bool \<Rightarrow> unit ctl" where
  "data_fetch_trigger name items_count global_step tot remain do_save =
     bnd (deref PolicySide name) (\<lambda>r.
     bnd fresh_uuid (\<lambda>u.
     let p = r_profiler r in
     publish_command (DataFetch u name items_count global_step tot remain do_save
       (Some (sp_do_profile p)) (Some (sp_active_steps p)) (Some (sp_rank_filter p))
       (Some (sp_record_shape p)) (Some (sp_profile_memory p)) (Some (sp_with_stack p))
       (Some (sp_with_modules p))) name))"

text \<open>\<open>Replica.put_rollout\<close>: the rollout goes to the stream of the replica.\<close>

definition replica_put_rollout :: "rollout \<Rightarrow> string \<Rightarrow> unit ctl" where
  "replica_put_rollout rollout name =
     bnd (deref PolicySide name) (\<lambda>r.
     bnd (py_assert (r_role r = POLICY)) (\<lambda>_.
     bnd (lift_sum (all_atoms_arrived r)) (\<lambda>arrived.
     bnd (py_assert arrived) (\<lambda>_.
     publish_rollout rollout name))))"

section \<open>What the triggers do when Redis is up\<close>

definition ranks_assigned :: "side \<Rightarrow> string list \<Rightarrow> world \<Rightarrow> world" where
  "ranks_assigned sd names s =
     side_store.adjust_all sd (map (\<lambda>(i, n). (n, set_mesh_rank (int i))) (enumerate 0 names)) s"

definition mesh_messages :: "world \<Rightarrow> string list \<Rightarrow> (string \<times> message) list" where
  "mesh_messages s names = map (\<lambda>n. (n @ ''_command'',
     CommandMsg (BuildMesh (ev_uuid (ev s) (uuid_counter s)) (replicas_to_rank names)))) names"

definition next_uuid :: "world \<Rightarrow> world" where
  "next_uuid = uuid_counter_update Suc"

lemma next_uuid_simps [simp]:
  "redis_log (next_uuid s) = redis_log s" "pm (next_uuid s) = pm s" "rm (next_uuid s) = rm s"
  "fetcher (next_uuid s) = fetcher s" "cfg (next_uuid s) = cfg s" "ev (next_uuid s) = ev s"
  "now (next_uuid s) = now s" "replicas_of sd (next_uuid s) = replicas_of sd s" "redis_up (next_uuid s) = redis_up s"
  "uuid_counter (next_uuid s) = Suc (uuid_counter s)"
  "do_weight_sync_check_flag (next_uuid s) = do_weight_sync_check_flag s"
  by (cases sd; simp add: next_uuid_def redis_up_def)+

lemma fresh_uuid_run: "fresh_uuid s = Ok (ev_uuid (ev s) (uuid_counter s)) (next_uuid s)"
  by (simp add: fresh_uuid_def next_uuid_def)

lemma enumerate_fst: "map (\<lambda>(i, n). n) (enumerate k xs) = xs"
  by (metis (no_types, lifting) case_prod_beta' map_eq_conv map_snd_enumerate)

lemma ranks_assigned_get:
  assumes "distinct names"
  shows "i < length names \<Longrightarrow> dict_get (replicas_of sd (ranks_assigned sd names s)) (names ! i)
       = map_option (set_mesh_rank (int i)) (dict_get (replicas_of sd s) (names ! i))"
    and "n \<notin> set names \<Longrightarrow> dict_get (replicas_of sd (ranks_assigned sd names s)) n = dict_get (replicas_of sd s) n"
proof -
  let ?xs = "map (\<lambda>(i, n). (n, set_mesh_rank (int i))) (enumerate 0 names)"
  have keys: "map fst ?xs = names" using enumerate_fst [of 0 names] by (simp add: comp_def split_def)
  have get: "dict_get (replicas_of sd (ranks_assigned sd names s)) n
      = (case map_of ?xs n of None \<Rightarrow> dict_get (replicas_of sd s) n | Some f \<Rightarrow> map_option f (dict_get (replicas_of sd s) n))" for n
    unfolding ranks_assigned_def by (rule side_store.adjust_all_get) (simp only: keys assms)
  show "dict_get (replicas_of sd (ranks_assigned sd names s)) (names ! i)
       = map_option (set_mesh_rank (int i)) (dict_get (replicas_of sd s) (names ! i))" if "i < length names"
  proof -
    have "(i, names ! i) \<in> set (enumerate 0 names)" using that by (simp add: in_set_enumerate_eq)
    then have "(names ! i, set_mesh_rank (int i)) \<in> set ?xs" by force
    then have "map_of ?xs (names ! i) = Some (set_mesh_rank (int i))"
      by (intro map_of_is_SomeI) (simp_all only: keys assms)
    then show ?thesis by (simp add: get)
  qed
  show "dict_get (replicas_of sd (ranks_assigned sd names s)) n = dict_get (replicas_of sd s) n" if "n \<notin> set names"
  proof -
    have "map_of ?xs n = None" unfolding map_of_eq_None_iff set_map [symmetric] keys by fact
    then show ?thesis by (simp add: get)
  qed
qed

lemma ranks_assigned_env:
  "ev (ranks_assigned sd names s) = ev s" "cfg (ranks_assigned sd names s) = cfg s"
  "redis_log (ranks_assigned sd names s) = redis_log s" "uuid_counter (ranks_assigned sd names s) = uuid_counter s"
  "fetcher (ranks_assigned sd names s) = fetcher s" "redis_up (ranks_assigned sd names s) = redis_up s"
  "dict_keys (replicas_of sd (ranks_assigned sd names s)) = dict_keys (replicas_of sd s)"
  "replicas_of (opposite sd) (ranks_assigned sd names s) = replicas_of (opposite sd) s"
  by (simp_all add: ranks_assigned_def side_store.adjust_all_env side_store.adjust_all_keys redis_up_def)

lemma ranks_assigned_is_upd: "\<exists>f. ranks_assigned sd names s = replicas_upd sd f s"
  unfolding ranks_assigned_def by (rule side_store.adjust_all_is_upd)

lemma ranks_assigned_pm:
  "status (pm (ranks_assigned sd names s)) = status (pm s)"
  "current_step (pm (ranks_assigned sd names s)) = current_step (pm s)"
  "total_steps (pm (ranks_assigned sd names s)) = total_steps (pm s)"
  "remain_samples_num (pm (ranks_assigned sd names s)) = remain_samples_num (pm s)"
  "rollout_buffer_per_rank (pm (ranks_assigned sd names s)) = rollout_buffer_per_rank (pm s)"
  "rollout_buffer (pm (ranks_assigned sd names s)) = rollout_buffer (pm s)"
  "policy_init_done (pm (ranks_assigned sd names s)) = policy_init_done (pm s)"
  using ranks_assigned_is_upd [of sd names s] by (cases sd; auto)+

lemma ranks_assigned_skeleton: "skeleton (replicas_of sd (ranks_assigned sd names s)) = skeleton (replicas_of sd s)"
  unfolding ranks_assigned_def by (rule side_store.adjust_all_skeleton) auto

lemma check_arrived_run:
  "\<forall>n \<in> set ns. arrived_in (replicas_of sd s) n \<Longrightarrow>
   for_each ns (\<lambda>n. bnd (deref sd n) (\<lambda>r. bnd (lift_sum (all_atoms_arrived r)) py_assert)) s = Ok () s"
  by (induction ns) (auto simp: arrived_in_def deref_def dict_item_def bnd_def)

lemma build_mesh_run:
  assumes "\<forall>n \<in> set names. arrived_in (replicas_of sd s) n" "redis_up s"
  shows "build_mesh_trigger sd names s = Ok () (sent (mesh_messages s names) (next_uuid (ranks_assigned sd names s)))"
proof -
  have "(\<lambda>(i, n). adjust_replica sd n (set_mesh_rank (int i)))
      = (\<lambda>x. modify (replicas_upd sd (dict_adjust (snd x) (set_mesh_rank (int (fst x))))))"
    by (simp add: adjust_replica_def split_def)
  then have "for_each (enumerate 0 names) (\<lambda>(i, n). adjust_replica sd n (set_mesh_rank (int i))) s
      = Ok () (ranks_assigned sd names s)"
    unfolding ranks_assigned_def by (simp add: side_store.for_each_adjust split_def)
  then show ?thesis
    using assms by (simp add: build_mesh_trigger_def check_arrived_run fresh_uuid_run for_each_publish_up
        ranks_assigned_env mesh_messages_def)
qed

lemma replicas_to_rank_nth:
  assumes "distinct names" "i < length names"
  shows "dict_get (replicas_to_rank names) (names ! i) = Some (int i)"
proof -
  have store: "dict_get (fold (\<lambda>(i, n). dict_set n (int i)) xs d) m
     = (case map_of (rev (map (\<lambda>(i, n). (n, int i)) xs)) m of None \<Rightarrow> dict_get d m | Some v \<Rightarrow> Some v)" for xs d m
    by (induction xs arbitrary: d) (auto simp: dict_simps map_add_Some_iff map_add_def split: option.splits)
  let ?ys = "map (\<lambda>(i, n). (n, int i)) (enumerate 0 names)"
  have "map fst ?ys = names" using enumerate_fst [of 0 names] by (simp add: comp_def split_def)
  then have "distinct (map fst (rev ?ys))" using assms(1) by (simp add: rev_map [symmetric])
  moreover have "(i, names ! i) \<in> set (enumerate 0 names)" using assms(2) by (simp add: in_set_enumerate_eq)
  then have "(names ! i, int i) \<in> set (rev ?ys)" by force
  ultimately have "map_of (rev ?ys) (names ! i) = Some (int i)" by (rule map_of_is_SomeI)
  then show ?thesis by (simp add: replicas_to_rank_def store)
qed

text \<open>When all given replicas have arrived and Redis is up, building a mesh gives the \<open>i\<close>-th
  replica mesh rank \<open>i\<close>, touches no other replica of either manager, and sends each of them once, in
  order, the same command, whose table maps each name to its rank.\<close>

theorem build_mesh_assigns_ranks:
  assumes "\<forall>n \<in> set names. arrived_in (replicas_of sd s) n" "distinct names" "redis_up s"
  shows "\<exists>u s'. build_mesh_trigger sd names s = Ok () s'
    \<and> redis_log s' = redis_log s @ map (\<lambda>n. (n @ ''_command'', CommandMsg (BuildMesh u (replicas_to_rank names)))) names
    \<and> (\<forall>i < length names. dict_get (replicas_to_rank names) (names ! i) = Some (int i)
         \<and> (\<exists>r. dict_get (replicas_of sd s') (names ! i) = Some r \<and> st_mesh_rank (r_status r) = int i))
    \<and> (\<forall>n. n \<notin> set names \<longrightarrow> dict_get (replicas_of sd s') n = dict_get (replicas_of sd s) n)
    \<and> replicas_of (opposite sd) s' = replicas_of (opposite sd) s"
proof (rule exI, rule exI, intro conjI allI impI)
  let ?s' = "sent (mesh_messages s names) (next_uuid (ranks_assigned sd names s))"
  show "build_mesh_trigger sd names s = Ok () ?s'" using assms by (intro build_mesh_run)
  show "redis_log ?s' = redis_log s @ map (\<lambda>n. (n @ ''_command'',
      CommandMsg (BuildMesh (ev_uuid (ev s) (uuid_counter s)) (replicas_to_rank names)))) names"
    by (simp add: ranks_assigned_env mesh_messages_def)
  show "dict_get (replicas_to_rank names) (names ! i) = Some (int i)" if "i < length names" for i
    using that assms(2) by (intro replicas_to_rank_nth)
  show "\<exists>r. dict_get (replicas_of sd ?s') (names ! i) = Some r \<and> st_mesh_rank (r_status r) = int i"
    if "i < length names" for i
  proof -
    have "arrived_in (replicas_of sd s) (names ! i)" using assms(1) that by simp
    then obtain r where "dict_get (replicas_of sd s) (names ! i) = Some r" by (auto simp: arrived_in_def)
    then show ?thesis using ranks_assigned_get(1) [OF assms(2) that, of sd s] by (simp add: set_mesh_rank_def)
  qed
  show "dict_get (replicas_of sd ?s') n = dict_get (replicas_of sd s) n" if "n \<notin> set names" for n
    using ranks_assigned_get(2) [OF assms(2) that] by simp
  show "replicas_of (opposite sd) ?s' = replicas_of (opposite sd) s" by (simp add: ranks_assigned_env)
qed

theorem build_mesh_assigns_ranks_witness:
  "\<exists>u s'. build_mesh_trigger PolicySide [''p0'', ''p1''] sample_world = Ok () s'
    \<and> redis_log s' = map (\<lambda>n. (n @ ''_command'', CommandMsg (BuildMesh u (replicas_to_rank [''p0'', ''p1''])))) [''p0'', ''p1'']
    \<and> replicas_of RolloutSide s' = replicas_of RolloutSide sample_world"
proof -
  have "redis_log sample_world = []" by (simp add: sample_world_def)
  moreover have "\<forall>n \<in> set [''p0'', ''p1'']. arrived_in (replicas_of PolicySide sample_world) n"
    using sample_arrived by simp
  moreover have "distinct [''p0'', ''p1'']" by simp
  ultimately show ?thesis
    using build_mesh_assigns_ranks [of "[''p0'', ''p1'']" PolicySide sample_world] sample_redis_up
    unfolding opposite.simps by fastforce
qed

end
