(* ===== verification/Data_Fetcher.thy ===== *)
theory Data_Fetcher
  imports Triggers
begin

text \<open>
  \<open>ControllerDataFetcher\<close> of \<open>cosmos_rl/dispatcher/data/data_fetcher.py\<close>: fetching prompts from the
  data loader over the epochs, holding back the prompts meant for another rank, and activating
  validation data loaders.

  A loader's iterator is the list of batches it still has. The outer loop of \<open>get_batched_prompt\<close>
  has a fuel argument and ends with \<open>OutOfFuel\<close> when it is used up; \<open>fetch_fuel\<close> is always enough
  when the batch size is positive.
\<close>

section \<open>Mesh sizes and validation\<close>

definition set_rollout_global_mesh_size :: "int \<Rightarrow> unit ctl" where
  "set_rollout_global_mesh_size n = upd_fetcher (fe_rollout_global_mesh_size_update (\<lambda>_. Some n))"

definition set_policy_global_mesh_size :: "int \<Rightarrow> unit ctl" where
  "set_policy_global_mesh_size n = upd_fetcher (fe_policy_global_mesh_size_update (\<lambda>_. Some n))"

text \<open>\<open>iter(self.val_dataloader)\<close> raises when validation is not set up.\<close>

definition validation_activate_dataloader :: "int \<Rightarrow> unit ctl" where
  "validation_activate_dataloader validation_step = with_state (\<lambda>s.
     if dict_get (fe_val_iters (fetcher s)) validation_step \<noteq> None then ret ()
     else case ev_val_batches (ev s) of None \<Rightarrow> raise TypeError
       | Some batches \<Rightarrow> upd_fetcher (\<lambda>f. f\<lparr>
           fe_val_iters := dict_set validation_step batches (fe_val_iters f),
           fe_activated_val_iter := Some validation_step,
           fe_activated_val_tqdm := True\<rparr>))"

definition clear_validation_status :: "unit ctl" where
  "clear_validation_status = upd_fetcher (\<lambda>f. f\<lparr>fe_activated_val_iter := None, fe_activated_val_tqdm := False\<rparr>)"

section \<open>One batch from the loader\<close>

text \<open>\<open>next(iterator)\<close>: the iterator of a validation step or of the current training epoch.\<close>

definition next_batch :: "int option \<Rightarrow> batch ctl" where
  "next_batch validation_step = with_state (\<lambda>s.
     case validation_step of
       Some step \<Rightarrow> (case dict_get (fe_val_iters (fetcher s)) step of
           None \<Rightarrow> raise KeyError
         | Some [] \<Rightarrow> raise StopIteration
         | Some (b # bs) \<Rightarrow> bnd (upd_fetcher (fe_val_iters_update (dict_set step bs))) (\<lambda>_. ret b))
     | None \<Rightarrow> (case fe_train_iter (fetcher s) of
           [] \<Rightarrow> raise StopIteration
         | b # bs \<Rightarrow> bnd (upd_fetcher (fe_train_iter_update (\<lambda>_. bs))) (\<lambda>_. ret b)))"

definition with_answers :: "world \<Rightarrow> bool \<Rightarrow> batch \<Rightarrow> payload list" where
  "with_answers s is_validation b =
     map (\<lambda>(idx, p). p\<lparr>pl_reference_answer := ev_reference_answer (ev s) is_validation idx\<rparr>) (zip (fst b) (snd b))"

definition next_payload :: "int option \<Rightarrow> int \<Rightarrow> bool \<Rightarrow> batch ctl" where
  "next_payload validation_step batch_size add_answer =
     bnd (next_batch validation_step) (\<lambda>(idxs, payloads).
     bnd (py_assert (int (length idxs) \<le> batch_size)) (\<lambda>_.
     bnd (py_assert (int (length payloads) \<le> batch_size)) (\<lambda>_.
     bnd (py_assert (length idxs = length payloads)) (\<lambda>_.
     with_state (\<lambda>s. ret (idxs,
       if add_answer then with_answers s (validation_step \<noteq> None) (idxs, payloads) else payloads))))))"

text \<open>The next batch, starting the next epoch when the loader is exhausted; \<open>None\<close> at the end of the
  last epoch (or of the validation set). A new epoch's loader that is empty itself lets
  \<open>StopIteration\<close> through.\<close>

definition start_epoch :: "unit ctl" where
  "start_epoch = upd_fetcher (fe_epoch_update (\<lambda>e. e + 1))"

definition next_payload_or_end :: "int option \<Rightarrow> int \<Rightarrow> bool \<Rightarrow> batch option ctl" where
  "next_payload_or_end validation_step batch_size add_answer =
     try_except (bnd (next_payload validation_step batch_size add_answer) (\<lambda>b. ret (Some b)))
       (\<lambda>e. if e \<noteq> StopIteration then raise e
            else if validation_step \<noteq> None then ret None
            else bnd start_epoch (\<lambda>_.
              with_state (\<lambda>s. if fe_epoch (fetcher s) \<le> cf_epoch (cfg s)
                then bnd (upd_fetcher (fe_train_iter_update (\<lambda>_. ev_train_batches (ev s) (fe_epoch (fetcher s))))) (\<lambda>_.
                     bnd (next_payload validation_step batch_size add_answer) (\<lambda>b. ret (Some b)))
                else ret None)))"

text \<open>With a local dataset the workers look the data up themselves.\<close>

definition strip_local :: "config \<Rightarrow> payload \<Rightarrow> payload" where
  "strip_local c p =
     (if \<not> cf_local_dataset c then p
      else let p = p\<lparr>pl_prompt := VNone, pl_conversation := None\<rparr> in
           if cf_multi_turn c then p else p\<lparr>pl_reference_answer := None\<rparr>)"

section \<open>Which prompts suit a rank\<close>

definition py_mod_size :: "int \<Rightarrow> int option \<Rightarrow> error + int" where
  "py_mod_size i sz = (case sz of None \<Rightarrow> Inl AttributeError
     | Some n \<Rightarrow> ensure ZeroDivisionError (n \<noteq> 0) (Inr (i mod n)))"

definition fetched_count :: "data_fetcher \<Rightarrow> int \<Rightarrow> int \<Rightarrow> error + int" where
  "fetched_count f version rank =
     ebind (dict_item (fe_fetched_at_step f) version) (\<lambda>d.
     Inr (case dict_get d rank of None \<Rightarrow> 0 | Some c \<Rightarrow> c))"

definition suits :: "data_fetcher \<Rightarrow> int \<Rightarrow> int option \<Rightarrow> int option \<Rightarrow> int \<Rightarrow> error + bool" where
  "suits f prompt_batch rank_in_mesh weight_version idx =
     ebind (py_mod_size idx (fe_rollout_global_mesh_size f)) (\<lambda>r.
     if rank_in_mesh \<noteq> Some r then Inr False
     else case weight_version of None \<Rightarrow> Inr True
       | Some v \<Rightarrow>
           ebind (py_mod_size idx (fe_policy_global_mesh_size f)) (\<lambda>p.
           ebind (fetched_count f v p) (\<lambda>c. Inr (c < prompt_batch))))"

definition count_fetched :: "int option \<Rightarrow> int \<Rightarrow> unit ctl" where
  "count_fetched weight_version idx = (case weight_version of None \<Rightarrow> ret ()
     | Some v \<Rightarrow> with_state (\<lambda>s.
         bnd (lift_sum (py_mod_size idx (fe_policy_global_mesh_size (fetcher s)))) (\<lambda>p.
         bnd (lift_sum (fetched_count (fetcher s) v p)) (\<lambda>c.
         upd_fetcher (fe_fetched_at_step_update (dict_adjust v (dict_set p (c + 1))))))))"

text \<open>The two buffers of prompts held back.\<close>

definition buffer_of :: "bool \<Rightarrow> data_fetcher \<Rightarrow> (int \<times> payload) list" where
  "buffer_of is_validation f = (if is_validation then fe_val_buffer f else fe_buffer f)"

definition buffer_upd :: "bool \<Rightarrow> ((int \<times> payload) list \<Rightarrow> (int \<times> payload) list) \<Rightarrow> data_fetcher \<Rightarrow> data_fetcher" where
  "buffer_upd is_validation g f = (if is_validation then fe_val_buffer_update g f else fe_buffer_update g f)"

fun find_suiting :: "data_fetcher \<Rightarrow> int \<Rightarrow> int option \<Rightarrow> int option \<Rightarrow> (int \<times> payload) list \<Rightarrow> error + nat option" where
  "find_suiting f pb rank version [] = Inr None"
| "find_suiting f pb rank version (d # ds) =
     ebind (suits f pb rank version (fst d)) (\<lambda>ok.
     if ok then Inr (Some 0) else ebind (find_suiting f pb rank version ds) (\<lambda>i. Inr (map_option Suc i)))"

text \<open>First the buffer: each round takes out one prompt, so its length bounds the rounds.\<close>

fun take_from_buffer :: "nat \<Rightarrow> bool \<Rightarrow> int \<Rightarrow> int \<Rightarrow> int option \<Rightarrow> int option \<Rightarrow> payload list \<Rightarrow> payload list ctl" where
  "take_from_buffer 0 is_validation n pb rank version acc = ret acc"
| "take_from_buffer (Suc fuel) is_validation n pb rank version acc =
     (if n - int (length acc) \<le> 0 then ret acc
      else with_state (\<lambda>s. let buffer = buffer_of is_validation (fetcher s) in
        bnd (lift_sum (find_suiting (fetcher s) pb rank version buffer)) (\<lambda>found.
        case found of None \<Rightarrow> ret acc
        | Some i \<Rightarrow>
            bnd (count_fetched version (fst (buffer ! i))) (\<lambda>_.
            bnd (upd_fetcher (buffer_upd is_validation (\<lambda>b. take i b @ drop (Suc i) b))) (\<lambda>_.
            take_from_buffer fuel is_validation n pb rank version (acc @ [snd (buffer ! i)]))))))"

text \<open>What happens to one fetched prompt.\<close>

definition dispatch_payload ::
    "bool \<Rightarrow> int \<Rightarrow> int \<Rightarrow> int option \<Rightarrow> int option \<Rightarrow> int \<Rightarrow> payload \<Rightarrow> payload list \<Rightarrow> payload list ctl" where
  "dispatch_payload is_validation n pb rank version idx p acc = with_state (\<lambda>s.
     let p = strip_local (cfg s) p in
     if \<not> cf_data_dispatch_as_rank_in_mesh (cfg s) then ret (acc @ [p])
     else
       bnd (py_assert (rank \<noteq> None)) (\<lambda>_.
       bnd (lift_sum (suits (fetcher s) pb rank version idx)) (\<lambda>ok.
       if ok \<and> int (length acc) < n
       then bnd (count_fetched version idx) (\<lambda>_. ret (acc @ [p]))
       else bnd (upd_fetcher (buffer_upd is_validation (\<lambda>b. b @ [(idx, p)]))) (\<lambda>_. ret acc))))"

fun dispatch_batch ::
    "bool \<Rightarrow> int \<Rightarrow> int \<Rightarrow> int option \<Rightarrow> int option \<Rightarrow> (int \<times> payload) list \<Rightarrow> payload list \<Rightarrow> payload list ctl" where
  "dispatch_batch is_validation n pb rank version [] acc = ret acc"
| "dispatch_batch is_validation n pb rank version ((idx, p) # ips) acc =
     bnd (dispatch_payload is_validation n pb rank version idx p acc)
       (dispatch_batch is_validation n pb rank version ips)"

text \<open>\<open>for _ in range(math.ceil(n / batch_size))\<close>: the payloads so far and whether the data is used up.\<close>

fun fetch_batches ::
    "nat \<Rightarrow> int option \<Rightarrow> int \<Rightarrow> int \<Rightarrow> bool \<Rightarrow> int \<Rightarrow> int option \<Rightarrow> int option \<Rightarrow> payload list \<Rightarrow> (payload list \<times> bool) ctl" where
  "fetch_batches 0 step n bs add_answer pb rank version acc = ret (acc, False)"
| "fetch_batches (Suc k) step n bs add_answer pb rank version acc =
     bnd (next_payload_or_end step bs add_answer) (\<lambda>r.
     case r of None \<Rightarrow> ret (acc, True)
     | Some (idxs, payloads) \<Rightarrow>
         bnd (py_assert (length idxs = length payloads)) (\<lambda>_.
         bnd (dispatch_batch (step \<noteq> None) n pb rank version (zip idxs payloads) acc)
           (fetch_batches k step n bs add_answer pb rank version)))"

fun fetch_rounds ::
    "nat \<Rightarrow> int option \<Rightarrow> int \<Rightarrow> int \<Rightarrow> bool \<Rightarrow> int \<Rightarrow> int option \<Rightarrow> int option \<Rightarrow> payload list \<Rightarrow> (payload list \<times> bool) ctl" where
  "fetch_rounds fuel step n bs add_answer pb rank version acc =
     (if n - int (length acc) \<le> 0 then ret (acc, False)
      else case fuel of 0 \<Rightarrow> raise OutOfFuel
      | Suc fuel \<Rightarrow>
          bnd (check ZeroDivisionError (bs \<noteq> 0)) (\<lambda>_.
          bnd (fetch_batches (nat (ceil_div n bs)) step n bs add_answer pb rank version acc) (\<lambda>(acc, is_end).
          with_state (\<lambda>s. if is_end \<or> \<not> cf_data_dispatch_as_rank_in_mesh (cfg s) then ret (acc, is_end)
            else fetch_rounds fuel step n bs add_answer pb rank version acc))))"

definition iterator_ready :: "int option \<Rightarrow> unit ctl" where
  "iterator_ready validation_step = with_state (\<lambda>s. case validation_step of None \<Rightarrow> ret ()
     | Some step \<Rightarrow> check KeyError (dict_get (fe_val_iters (fetcher s)) step \<noteq> None))"

text \<open>All batches the rounds can still consume, over the epochs that are left.\<close>

definition batches_left :: "int option \<Rightarrow> world \<Rightarrow> nat" where
  "batches_left validation_step s =
     (case validation_step of
        Some step \<Rightarrow> (case dict_get (fe_val_iters (fetcher s)) step of None \<Rightarrow> 0 | Some bs \<Rightarrow> length bs)
      | None \<Rightarrow> length (fe_train_iter (fetcher s))
          + sum_list (map (\<lambda>e. length (ev_train_batches (ev s) e)) [fe_epoch (fetcher s) + 1..cf_epoch (cfg s)]))"

definition fetch_fuel :: "int option \<Rightarrow> world \<Rightarrow> nat" where
  "fetch_fuel validation_step s = Suc (batches_left validation_step s)"

definition fetcher_get_batched_prompt ::
    "int \<Rightarrow> int option \<Rightarrow> int option \<Rightarrow> int option \<Rightarrow> (payload list \<times> bool) ctl" where
  "fetcher_get_batched_prompt n validation_step rank_in_mesh weight_version =
     bnd (case weight_version of None \<Rightarrow> ret ()
          | Some v \<Rightarrow> upd_fetcher (fe_fetched_at_step_update (\<lambda>d. if dict_get d v = None then dict_set v [] d else d))) (\<lambda>_.
     bnd (with_state (\<lambda>s. check ZeroDivisionError (cf_n_generation (cfg s) \<noteq> 0))) (\<lambda>_.
     bnd (iterator_ready validation_step) (\<lambda>_.
     with_state (\<lambda>s.
       let c = cfg s;
           pb = ceil_div (cf_train_batch_per_replica c) (cf_n_generation c);
           add_answer = (cf_multi_turn c \<or> \<not> cf_local_dataset c);
           is_validation = (validation_step \<noteq> None);
           version = (if is_validation then None else weight_version);
           bs = (if is_validation then fe_val_batch_size (fetcher s) else fe_rollout_batch_size (fetcher s));
           dispatch = cf_data_dispatch_as_rank_in_mesh c in
       bnd (if \<not> dispatch then ret []
            else bnd (py_assert (rank_in_mesh \<noteq> None)) (\<lambda>_.
              take_from_buffer (length (buffer_of is_validation (fetcher s))) is_validation n pb rank_in_mesh version [])) (\<lambda>acc.
       bnd (fetch_rounds (fetch_fuel validation_step s) validation_step n bs add_answer pb rank_in_mesh version acc) (\<lambda>(acc, is_end).
       with_state (\<lambda>s. ret (acc, is_end \<and> (buffer_of is_validation (fetcher s) = [] \<or> \<not> dispatch)))))))))"

end
