(* ===== verification/Policy_Manager.thy ===== *)
theory Policy_Manager
  imports Data_Fetcher
begin

text \<open>
  \<open>PolicyStatusManager\<close> of \<open>cosmos_rl/dispatcher/status.py\<close>, first part: statuses, the number of
  steps, registration and removal of policy replicas, mesh rebuilding and what it does to the
  per-rank rollout buffers. The training loop is in the theory of the training flow.
\<close>

section \<open>Statuses and steps\<close>

definition training_finished :: "policy_manager \<Rightarrow> bool" where
  "training_finished p \<longleftrightarrow> total_steps p \<le> current_step p \<and> 0 < total_steps p"

definition set_status :: "string \<Rightarrow> policy_status \<Rightarrow> unit ctl" where
  "set_status name st = with_state (\<lambda>s.
     if dict_get (status (pm s)) name = None
     then bnd (py_assert (st = UNINITIALIZED)) (\<lambda>_. upd_pm (status_update (dict_set name st)))
     else bnd (py_assert (st \<noteq> UNINITIALIZED)) (\<lambda>_. upd_pm (status_update (dict_set name st))))"

definition get_status :: "string \<Rightarrow> policy_status ctl" where
  "get_status name = with_state (\<lambda>s. lift_sum (dict_item (status (pm s)) name))"

definition all_with_status :: "policy_status list \<Rightarrow> policy_manager \<Rightarrow> bool" where
  "all_with_status sts p \<longleftrightarrow> (\<forall>x \<in> set (dict_values (status p)). x \<in> set sts)"

definition any_with_status :: "policy_status list \<Rightarrow> policy_manager \<Rightarrow> bool" where
  "any_with_status sts p \<longleftrightarrow> (\<exists>x \<in> set (dict_values (status p)). x \<in> set sts)"

definition all_reduced :: "policy_manager \<Rightarrow> bool" where
  "all_reduced = all_with_status [REDUCED]"

definition all_ready :: "policy_manager \<Rightarrow> bool" where
  "all_ready = all_with_status [READY]"

definition all_ready_or_reduced :: "policy_manager \<Rightarrow> bool" where
  "all_ready_or_reduced = all_with_status [READY, REDUCED]"

definition recompute_total_steps :: "int option \<Rightarrow> unit ctl" where
  "recompute_total_steps explicit_num_remaining_samples = with_state (\<lambda>s.
     if training_finished (pm s) then ret ()
     else
       bnd (get_all_atoms_arrived_replicas PolicySide) (\<lambda>arrived.
       let num_policy_replicas = int (length arrived) in
       if num_policy_replicas = 0 then ret ()
       else
         let num_remaining_samples = (case explicit_num_remaining_samples of
               None \<Rightarrow> remain_samples_num (pm s) | Some n \<Rightarrow> n);
             per_step = cf_train_batch_per_replica (cfg s) * num_policy_replicas in
         bnd (check ZeroDivisionError (per_step \<noteq> 0)) (\<lambda>_.
         let steps_by_dataset = current_step (pm s) + num_remaining_samples div per_step in
         upd_pm (total_steps_update (\<lambda>_. case cf_max_num_steps (cfg s) of
             Some m \<Rightarrow> min steps_by_dataset m | None \<Rightarrow> steps_by_dataset)))))"

section \<open>Liveness and NCCL errors\<close>

definition set_ncclerror :: "string \<Rightarrow> int \<Rightarrow> unit ctl" where
  "set_ncclerror name timestamp = with_state (\<lambda>s.
     if has_replica PolicySide name s
     then adjust_replica PolicySide name (set_nccl_error (Some timestamp))
     else raise AttributeError)"

definition clear_ncclerror :: "unit ctl" where
  "clear_ncclerror = with_state (\<lambda>s.
     for_each (iter_names PolicySide s) (\<lambda>n. adjust_replica PolicySide n (set_nccl_error None)))"

definition get_all_policy_report_ncclerror :: "world \<Rightarrow> (string, int) dict" where
  "get_all_policy_report_ncclerror s =
     fold (\<lambda>n d. case dict_get (replicas_of PolicySide s) n of None \<Rightarrow> d
             | Some r \<Rightarrow> (case st_nccl_error_timestamp (r_status r) of None \<Rightarrow> d | Some t \<Rightarrow> dict_set n t d))
       (iter_names PolicySide s) []"

definition shutdown :: "unit ctl" where
  "shutdown = upd_pm (policy_init_done_update (\<lambda>_. False))"

section \<open>Rebuilding the mesh\<close>

text \<open>\<open>rollout.prompt_idx % len(replicas)\<close> picks the new queue of a rollout.\<close>

definition redistribute :: "nat \<Rightarrow> rollout list list \<Rightarrow> error + rollout list list" where
  "redistribute n qs =
     efold (\<lambda>r new. ensure ZeroDivisionError (n \<noteq> 0)
              (let i = nat (ro_prompt_idx r mod int n) in Inr (new[i := new ! i @ [r]])))
       (concat qs) (replicate n [])"

definition rearrange_rollout_buffer_after_mesh_rebuild :: "nat \<Rightarrow> unit ctl" where
  "rearrange_rollout_buffer_after_mesh_rebuild n = with_state (\<lambda>s.
     if \<not> cf_data_dispatch_as_rank_in_mesh (cfg s) then ret ()
     else bnd (lift_sum (redistribute n (rollout_buffer_per_rank (pm s)))) (\<lambda>new.
          upd_pm (rollout_buffer_per_rank_update (\<lambda>_. new))))"

definition policy_trigger_rebuild_mesh :: "string list \<Rightarrow> unit ctl" where
  "policy_trigger_rebuild_mesh valid_replicas = with_state (\<lambda>s.
     let sorted_valid_replicas = by_start_time PolicySide s valid_replicas in
     block [build_mesh_trigger PolicySide sorted_valid_replicas,
            recompute_total_steps None,
            set_policy_global_mesh_size (int (length sorted_valid_replicas)),
            rearrange_rollout_buffer_after_mesh_rebuild (length sorted_valid_replicas)])"

section \<open>Removal\<close>

text \<open>\<open>dict.pop\<close> of a missing key raises.\<close>

definition policy_unregister :: "string \<Rightarrow> unit ctl" where
  "policy_unregister name =
     bnd (with_state (\<lambda>s. py_assert (has_replica PolicySide name s))) (\<lambda>_.
     bnd (deref PolicySide name) (\<lambda>r.
     bnd (modify (replicas_upd PolicySide (dict_pop name))) (\<lambda>_.
     bnd (with_state (\<lambda>s. check KeyError (dict_get (status (pm s)) name \<noteq> None))) (\<lambda>_.
     bnd (upd_pm (status_update (dict_pop name))) (\<lambda>_.
     bnd (with_state (\<lambda>s. upd_pm (p_scaling_log_update (\<lambda>l. l @
            [\<lparr>sl_event = REPLICA_SCALING_DOWN, sl_replica_name = name, sl_timestamp = int_now s\<rparr>])))) (\<lambda>_.
     with_state (\<lambda>s.
       if training_finished (pm s) then ret ()
       else bnd (get_all_atoms_arrived_replicas PolicySide) (\<lambda>valid_replicas.
         guarded (in_mesh r \<and> 0 < length valid_replicas) (policy_trigger_rebuild_mesh valid_replicas)))))))))"

text \<open>The set of dead replicas is iterated in an order of its own.\<close>

definition policy_maintain_life_status :: "unit ctl" where
  "policy_maintain_life_status = with_state (\<lambda>s.
     for_each (ev_set_order (ev s) (dead_names PolicySide s)) policy_unregister)"

section \<open>Registration\<close>

text \<open>The first replica, in order of start time, whose weights are loaded.\<close>

definition first_loaded :: "side \<Rightarrow> world \<Rightarrow> string list \<Rightarrow> string option" where
  "first_loaded sd s names = find (\<lambda>n. case dict_get (replicas_of sd s) n of None \<Rightarrow> False
     | Some r \<Rightarrow> r_weights_loaded r) (by_start_time sd s names)"

definition validation_due :: "config \<Rightarrow> policy_manager \<Rightarrow> error + bool" where
  "validation_due c p =
     (if \<not> cf_val_enable c then Inr False
      else ensure ZeroDivisionError (cf_val_freq c \<noteq> 0)
        (Inr (current_step p mod cf_val_freq c = 0 \<or> current_step p = total_steps p)))"

definition activate_validation_if_due :: "unit ctl" where
  "activate_validation_if_due = with_state (\<lambda>s.
     bnd (lift_sum (validation_due (cfg s) (pm s))) (\<lambda>due.
     guarded due (validation_activate_dataloader (current_step (pm s)))))"

definition colocated_first_fetch :: "string \<Rightarrow> unit ctl" where
  "colocated_first_fetch name =
     bnd (with_state (\<lambda>s. upd_pm (remain_samples_num_update (\<lambda>n. n - cf_train_batch_per_replica (cfg s))))) (\<lambda>_.
     bnd (with_state (\<lambda>s. data_fetch_trigger name (cf_train_batch_per_replica (cfg s))
            (Some (current_step (pm s))) (Some (total_steps (pm s))) (remain_samples_num (pm s)) False)) (\<lambda>_.
     set_status name RUNNING))"

text \<open>All required replicas have arrived.\<close>

definition policy_init :: "string list \<Rightarrow> unit ctl" where
  "policy_init valid_replicas = block [
     upd_pm (policy_init_done_update (\<lambda>_. True)),
     policy_trigger_rebuild_mesh valid_replicas,
     guarded (1 < length valid_replicas) (with_state (\<lambda>s.
       case first_loaded PolicySide s valid_replicas of
         None \<Rightarrow> raise AssertionError
       | Some src \<Rightarrow> p2p_broadcast_trigger src valid_replicas (Some (total_steps (pm s))))),
     for_each valid_replicas (\<lambda>n. set_status n READY),
     with_state (\<lambda>s. guarded (cf_mode (cfg s) = ''colocated'') (block [
       upd_pm (current_step_update (\<lambda>c. c + 1)),
       activate_validation_if_due,
       for_each valid_replicas colocated_first_fetch]))]"

text \<open>A replica joins after the initialisation.\<close>

definition policy_scale_up :: "string list \<Rightarrow> string \<Rightarrow> unit ctl" where
  "policy_scale_up valid_replicas target = block [
     with_state (\<lambda>s. py_assert (policy_init_done (pm s))),
     bnd (deref PolicySide target) (\<lambda>r. py_assert (st_mesh_rank (r_status r) = -1)),
     with_state (\<lambda>s. case first_loaded PolicySide s valid_replicas of
         None \<Rightarrow> raise AssertionError
       | Some src \<Rightarrow> block [
           policy_trigger_rebuild_mesh valid_replicas,
           with_state (\<lambda>s. p2p_unicast_trigger src target (Some (total_steps (pm s)))),
           set_status target READY])]"

definition policy_post_register_hook :: "string list \<Rightarrow> string \<Rightarrow> unit ctl" where
  "policy_post_register_hook valid_replicas target = block [
     with_state (\<lambda>s. guarded (cf_val_enable (cfg s) \<and> cf_val_before_train (cfg s))
       (validation_activate_dataloader 0)),
     with_state (\<lambda>s.
       if \<not> policy_init_done (pm s) \<and> cf_policy_n_init_replicas (cfg s) \<le> int (length valid_replicas)
       then policy_init valid_replicas
       else if \<not> policy_init_done (pm s) \<and> int (length valid_replicas) < cf_policy_n_init_replicas (cfg s)
       then ret ()
       else policy_scale_up valid_replicas target)]"

text \<open>The first complete policy replica loads the weights and passes them on to a rollout replica.\<close>

definition opt_attr :: "'a option \<Rightarrow> error + 'a" where
  "opt_attr x = (case x of None \<Rightarrow> Inl AttributeError | Some y \<Rightarrow> Inr y)"

definition first_policy_replica :: "string \<Rightarrow> unit ctl" where
  "first_policy_replica name = block [
     with_state (\<lambda>s. py_assert (\<not> first_policy_replica_arrived (pm s))),
     upd_pm (first_policy_replica_arrived_update (\<lambda>_. True)),
     weight_resume_trigger name,
     with_state (\<lambda>s.
       bnd (lift_sum (sum_filter (\<lambda>n. ebind (dict_item (replicas_of RolloutSide s) n) all_atoms_arrived)
              (by_start_time RolloutSide s (dict_keys (replicas_of RolloutSide s))))) (\<lambda>valid_rollout_replicas.
       case valid_rollout_replicas of [] \<Rightarrow> ret ()
       | dst # _ \<Rightarrow>
           bnd (lift_sum (opt_attr (policy_atoms_in_replica (pm s)))) (\<lambda>src_size.
           bnd (lift_sum (opt_attr (rollout_atoms_in_replica (rm s)))) (\<lambda>dst_size.
           block [
             p2r_unicast_trigger name dst src_size dst_size None None,
             guarded (cf_rollout_n_init_replicas (cfg s) \<le> int (length valid_rollout_replicas))
               (r2r_broadcast_trigger dst valid_rollout_replicas (Some (current_step (pm s))) None)]))))]"

text \<open>\<open>replica.arrive(atom)\<close> on the registered object: its effects stay even when it raises.\<close>

definition replica_exec :: "side \<Rightarrow> string \<Rightarrow> (replica, 'a) exec \<Rightarrow> 'a ctl" where
  "replica_exec sd name m =
     bnd (deref sd name) (\<lambda>r.
     bnd (adjust_replica sd name (\<lambda>r. final (m r))) (\<lambda>_.
     case m r of Ok x r' \<Rightarrow> ret x | Raise e r' \<Rightarrow> raise e))"

definition add_atom :: "side \<Rightarrow> string \<Rightarrow> atom \<Rightarrow> unit ctl" where
  "add_atom sd role a = with_state (\<lambda>s.
     if has_replica sd (at_replica_name a) s
     then replica_exec sd (at_replica_name a) (arrive a)
     else modify (replicas_upd sd (dict_set (at_replica_name a) (replica_init (now s) (at_replica_name a) role [a]))))"

definition bind_atom :: "side \<Rightarrow> atom \<Rightarrow> unit ctl" where
  "bind_atom sd a = adjust_replica sd (at_replica_name a)
     (r_atoms_update (dict_adjust (atom_key a) (bind_replica (at_replica_name a))))"

definition set_start_time :: "side \<Rightarrow> string \<Rightarrow> unit ctl" where
  "set_start_time sd name = with_state (\<lambda>s.
     adjust_replica sd name (\<lambda>r. if r_start_time r = -1 then r\<lparr>r_start_time := int_now s\<rparr> else r))"

definition policy_arrived :: "atom \<Rightarrow> unit ctl" where
  "policy_arrived a = block [
     set_start_time PolicySide (at_replica_name a),
     set_status (at_replica_name a) UNINITIALIZED,
     upd_pm (policy_atoms_in_replica_update (\<lambda>x. case x of None \<Rightarrow> Some (prod_list (at_group_size a)) | Some y \<Rightarrow> Some y)),
     bnd (get_all_atoms_arrived_replicas PolicySide) (\<lambda>valid_replicas. block [
       guarded (length valid_replicas = 1) (first_policy_replica (at_replica_name a)),
       policy_post_register_hook valid_replicas (at_replica_name a)])]"

definition policy_register :: "atom \<Rightarrow> unit ctl" where
  "policy_register a = block [
     add_atom PolicySide POLICY a,
     bind_atom PolicySide a,
     with_state (\<lambda>s. guarded (\<not> policy_init_done (pm s)
         \<and> cf_policy_n_init_replicas (cfg s) < int (length (policy_replicas (pm s))))
       (modify (cfg_update (cf_policy_n_init_replicas_update (\<lambda>_. int (length (policy_replicas (pm s)))))))),
     bnd (deref PolicySide (at_replica_name a)) (\<lambda>r.
     bnd (lift_sum (all_atoms_arrived r)) (\<lambda>arrived.
     guarded arrived (policy_arrived a)))]"

section \<open>Statuses\<close>

text \<open>\<open>set_status\<close> accepts \<open>UNINITIALIZED\<close> exactly for a name without a status and every other
  status exactly for a name that has one; it changes the status of that name and nothing else, and
  when it refuses it raises \<open>AssertionError\<close> and changes nothing.\<close>

theorem set_status_discipline:
  "if (dict_get (status (pm s)) name = None) = (st = UNINITIALIZED)
   then set_status name st s = Ok () (pm_update (status_update (dict_set name st)) s)
     \<and> (\<forall>n. dict_get (dict_set name st (status (pm s))) n = (if n = name then Some st else dict_get (status (pm s)) n))
   else set_status name st s = Raise AssertionError s"
  by (auto simp: set_status_def bnd_def upd_pm_def dict_simps)

lemma set_status_run:
  "dict_get (status (pm s)) name \<noteq> None \<Longrightarrow> st \<noteq> UNINITIALIZED \<Longrightarrow>
   set_status name st s = Ok () (pm_update (status_update (dict_set name st)) s)"
  by (simp add: set_status_def upd_pm_def bnd_def)

lemma for_each_set_status:
  "\<forall>n \<in> set ns. dict_get (status (pm s)) n \<noteq> None \<Longrightarrow> st \<noteq> UNINITIALIZED \<Longrightarrow>
   for_each ns (\<lambda>n. set_status n st) s = Ok () (pm_update (status_update (fold (\<lambda>n. dict_set n st) ns)) s)"
proof (induction ns arbitrary: s)
  case Nil
  then show ?case by (cases s; cases "pm s") simp
next
  case (Cons n ns)
  let ?t = "pm_update (status_update (dict_set n st)) s"
  have run: "set_status n st s = Ok () ?t" using Cons.prems by (intro set_status_run) auto
  have "\<forall>m \<in> set ns. dict_get (status (pm ?t)) m \<noteq> None" using Cons.prems by (simp add: dict_simps)
  from Cons.IH [OF this Cons.prems(2)] show ?case by (simp add: run comp_def)
qed

section \<open>The number of steps\<close>

definition steps_from :: "config \<Rightarrow> policy_manager \<Rightarrow> int \<Rightarrow> int \<Rightarrow> int" where
  "steps_from c p n_arrived remaining =
     (let steps = current_step p + remaining div (cf_train_batch_per_replica c * n_arrived) in
      case cf_max_num_steps c of None \<Rightarrow> steps | Some m \<Rightarrow> min steps m)"

lemma recompute_total_steps_run:
  assumes ok: "replicas_ok (policy_replicas (pm s))" and b: "cf_train_batch_per_replica (cfg s) \<noteq> 0"
  shows "recompute_total_steps x s =
    (let n = length (arrived_list PolicySide s) in
     if training_finished (pm s) \<or> n = 0 then Ok () s
     else Ok () (pm_update (total_steps_update (\<lambda>_. steps_from (cfg s) (pm s) (int n)
            (case x of None \<Rightarrow> remain_samples_num (pm s) | Some r \<Rightarrow> r))) s))"
  using get_all_atoms_arrived_run [of PolicySide s] ok b
  by (simp add: recompute_total_steps_def Let_def upd_pm_def steps_from_def)

text \<open>Recomputing the steps sets the total to the current step plus as many full global batches as
  the remaining samples give, capped by the configured maximum: one more step would need more
  samples than remain, and without the cap all steps can be filled. It does nothing once training
  has finished or while no replica has arrived, and never touches anything but the total.\<close>

theorem recompute_total_steps_exact:
  assumes "replicas_ok (policy_replicas (pm s))" "0 < cf_train_batch_per_replica (cfg s)"
    and "\<not> training_finished (pm s)"
    and "arrived_list PolicySide s \<noteq> []"
  shows "\<exists>t. recompute_total_steps None s = Ok () (pm_update (total_steps_update (\<lambda>_. t)) s)
    \<and> (let per_step = cf_train_batch_per_replica (cfg s) * int (length (arrived_list PolicySide s));
           full = current_step (pm s) + remain_samples_num (pm s) div per_step in
       t = (case cf_max_num_steps (cfg s) of None \<Rightarrow> full | Some m \<Rightarrow> min full m)
       \<and> remain_samples_num (pm s) < (full + 1 - current_step (pm s)) * per_step
       \<and> (full - current_step (pm s)) * per_step \<le> remain_samples_num (pm s))"
proof -
  let ?p = "cf_train_batch_per_replica (cfg s) * int (length (arrived_list PolicySide s))"
  have pos: "0 < ?p" using assms(2,4) by simp
  have "recompute_total_steps None s = Ok () (pm_update (total_steps_update
      (\<lambda>_. steps_from (cfg s) (pm s) (int (length (arrived_list PolicySide s))) (remain_samples_num (pm s)))) s)"
    using recompute_total_steps_run [OF assms(1), of None] assms(2-4) by (simp add: Let_def)
  moreover note floor_div_bounds [OF pos, of "remain_samples_num (pm s)"]
  ultimately show ?thesis
    by (intro exI [of _ "steps_from (cfg s) (pm s) (int (length (arrived_list PolicySide s))) (remain_samples_num (pm s))"])
      (simp add: steps_from_def Let_def algebra_simps)
qed

theorem recompute_total_steps_exact_witness:
  "\<exists>t. recompute_total_steps None sample_world = Ok () (pm_update (total_steps_update (\<lambda>_. t)) sample_world)
    \<and> t = 12"
proof -
  have "replicas_ok (policy_replicas (pm sample_world))" using sample_replicas_ok [of PolicySide] by simp
  moreover have "\<not> training_finished (pm sample_world)" "0 < cf_train_batch_per_replica (cfg sample_world)"
    "cf_train_batch_per_replica (cfg sample_world) = 2" "current_step (pm sample_world) = 2"
    "remain_samples_num (pm sample_world) = 40" "cf_max_num_steps (cfg sample_world) = None"
    by (simp_all add: sample_world_def sample_config_def training_finished_def)
  ultimately show ?thesis
    using recompute_total_steps_exact [of sample_world] by (simp add: Let_def sample_arrived_list)
qed

section \<open>Rollout buffers per rank\<close>

lemma redistribute_run:
  assumes n: "0 < n" and len: "length new = n"
  shows "efold (\<lambda>r new. ensure ZeroDivisionError (n \<noteq> 0)
              (let i = nat (ro_prompt_idx r mod int n) in Inr (new[i := new ! i @ [r]]))) rs new
    = Inr (map (\<lambda>i. new ! i @ filter (\<lambda>r. ro_prompt_idx r mod int n = int i) rs) [0..<n])"
  using len
proof (induction rs arbitrary: new)
  case Nil
  then have "map (\<lambda>i. new ! i) [0..<n] = new" using map_nth [of new] by simp
  then show ?case by simp
next
  case (Cons r rs)
  define i where "i = nat (ro_prompt_idx r mod int n)"
  have i: "i < n" "int i = ro_prompt_idx r mod int n" using n by (simp_all add: i_def nat_less_iff)
  have "efold (\<lambda>r new. ensure ZeroDivisionError (n \<noteq> 0)
              (let i = nat (ro_prompt_idx r mod int n) in Inr (new[i := new ! i @ [r]]))) rs (new[i := new ! i @ [r]])
     = Inr (map (\<lambda>j. new[i := new ! i @ [r]] ! j @ filter (\<lambda>r. ro_prompt_idx r mod int n = int j) rs) [0..<n])"
    by (rule Cons.IH) (simp add: Cons.prems)
  moreover have "map (\<lambda>j. new[i := new ! i @ [r]] ! j @ filter (\<lambda>r. ro_prompt_idx r mod int n = int j) rs) [0..<n]
     = map (\<lambda>j. new ! j @ filter (\<lambda>r. ro_prompt_idx r mod int n = int j) (r # rs)) [0..<n]"
    using Cons.prems i by (auto simp: nth_list_update)
  ultimately show ?case using n by (simp add: ensure_def Let_def flip: i_def)
qed

lemma redistribute_eq:
  "0 < n \<Longrightarrow> redistribute n qs = Inr (map (\<lambda>i. filter (\<lambda>r. ro_prompt_idx r mod int n = int i) (concat qs)) [0..<n])"
  unfolding redistribute_def by (subst redistribute_run) (auto intro!: map_cong)

lemma mset_filter_classes:
  "(\<And>x. x \<in> set xs \<Longrightarrow> f x < n) \<Longrightarrow> mset (concat (map (\<lambda>i. filter (\<lambda>x. f x = i) xs) [0..<n])) = mset xs"
proof (induction n arbitrary: xs)
  case 0
  then show ?case by (cases xs) auto
next
  case (Suc n)
  have rest: "map (\<lambda>i. filter (\<lambda>x. f x = i) xs) [0..<n] = map (\<lambda>i. filter (\<lambda>x. f x = i) (filter (\<lambda>x. f x \<noteq> n) xs)) [0..<n]"
    by (auto intro!: filter_cong)
  have "mset (concat (map (\<lambda>i. filter (\<lambda>x. f x = i) xs) [0..<Suc n]))
      = mset (concat (map (\<lambda>i. filter (\<lambda>x. f x = i) (filter (\<lambda>x. f x \<noteq> n) xs)) [0..<n])) + mset (filter (\<lambda>x. f x = n) xs)"
    unfolding upt_Suc_append [OF le0] map_append concat_append rest by simp
  also have "\<dots> = mset (filter (\<lambda>x. f x \<noteq> n) xs) + mset (filter (\<lambda>x. f x = n) xs)"
  proof -
    have "mset (concat (map (\<lambda>i. filter (\<lambda>x. f x = i) (filter (\<lambda>x. f x \<noteq> n) xs)) [0..<n]))
        = mset (filter (\<lambda>x. f x \<noteq> n) xs)"
    proof (rule Suc.IH)
      fix x assume "x \<in> set (filter (\<lambda>x. f x \<noteq> n) xs)"
      then show "f x < n" using Suc.prems [of x] by auto
    qed
    then show ?thesis by (simp only:)
  qed
  also have "\<dots> = mset xs" by (metis mset_filter multiset_partition add.commute)
  finally show ?case .
qed

text \<open>Rearranging the per-rank buffers for a mesh of \<open>n > 0\<close> replicas loses and duplicates no
  rollout, puts each into the queue its prompt index selects modulo \<open>n\<close>, and keeps the order of
  the old queues within each new one.\<close>

theorem rearrange_keeps_rollouts:
  assumes "0 < n" "cf_data_dispatch_as_rank_in_mesh (cfg s)"
  shows "\<exists>new. rearrange_rollout_buffer_after_mesh_rebuild n s
      = Ok () (pm_update (rollout_buffer_per_rank_update (\<lambda>_. new)) s)
    \<and> length new = n \<and> mset (concat new) = mset (concat (rollout_buffer_per_rank (pm s)))
    \<and> (\<forall>i < n. new ! i = filter (\<lambda>r. ro_prompt_idx r mod int n = int i) (concat (rollout_buffer_per_rank (pm s))))"
proof -
  let ?all = "concat (rollout_buffer_per_rank (pm s))"
  let ?new = "map (\<lambda>i. filter (\<lambda>r. ro_prompt_idx r mod int n = int i) ?all) [0..<n]"
  have "filter (\<lambda>r. ro_prompt_idx r mod int n = int i) ?all = filter (\<lambda>r. nat (ro_prompt_idx r mod int n) = i) ?all" for i
    using assms(1) by (intro filter_cong) auto
  then have "mset (concat ?new) = mset ?all"
    using mset_filter_classes [of ?all "\<lambda>r. nat (ro_prompt_idx r mod int n)" n] assms(1)
    by (simp add: nat_less_iff)
  then show ?thesis
    using assms by (intro exI [of _ ?new]) (simp add: rearrange_rollout_buffer_after_mesh_rebuild_def redistribute_eq upd_pm_def)
qed

definition sample_rank_world :: world where
  "sample_rank_world = sample_world\<lparr>cfg := sample_config\<lparr>cf_data_dispatch_as_rank_in_mesh := True\<rparr>,
     pm := (pm sample_world)\<lparr>rollout_buffer_per_rank := [[sample_rollout 3, sample_rollout 4, sample_rollout 5]]\<rparr>\<rparr>"

theorem rearrange_keeps_rollouts_witness:
  "\<exists>new. rearrange_rollout_buffer_after_mesh_rebuild 2 sample_rank_world
      = Ok () (pm_update (rollout_buffer_per_rank_update (\<lambda>_. new)) sample_rank_world)
    \<and> length new = 2 \<and> mset (concat new) = mset [sample_rollout 3, sample_rollout 4, sample_rollout 5]"
proof -
  have "rollout_buffer_per_rank (pm sample_rank_world) = [[sample_rollout 3, sample_rollout 4, sample_rollout 5]]"
    "cf_data_dispatch_as_rank_in_mesh (cfg sample_rank_world)"
    by (simp_all add: sample_rank_world_def)
  then show ?thesis using rearrange_keeps_rollouts [of 2 sample_rank_world] by auto
qed

section \<open>What rebuilding the mesh does\<close>

definition mesh_rank_in :: "(string, replica) dict \<Rightarrow> string \<Rightarrow> int" where
  "mesh_rank_in d n = (case dict_get d n of None \<Rightarrow> -1 | Some r \<Rightarrow> st_mesh_rank (r_status r))"

definition rebuilt_steps :: "world \<Rightarrow> int" where
  "rebuilt_steps s = (if training_finished (pm s) \<or> arrived_list PolicySide s = [] then total_steps (pm s)
     else steps_from (cfg s) (pm s) (int (length (arrived_list PolicySide s))) (remain_samples_num (pm s)))"

definition rebuilt_buffers :: "nat \<Rightarrow> world \<Rightarrow> rollout list list" where
  "rebuilt_buffers n s = (if cf_data_dispatch_as_rank_in_mesh (cfg s)
     then map (\<lambda>i. filter (\<lambda>r. ro_prompt_idx r mod int n = int i) (concat (rollout_buffer_per_rank (pm s)))) [0..<n]
     else rollout_buffer_per_rank (pm s))"

definition with_mesh :: "string list \<Rightarrow> world \<Rightarrow> world" where
  "with_mesh ns s = sent (mesh_messages s ns) (next_uuid (ranks_assigned PolicySide ns s))"

definition after_rebuild :: "string list \<Rightarrow> world \<Rightarrow> world" where
  "after_rebuild ns s = fetcher_update (fe_policy_global_mesh_size_update (\<lambda>_. Some (int (length ns))))
     (pm_update (\<lambda>p. p\<lparr>total_steps := rebuilt_steps s, rollout_buffer_per_rank := rebuilt_buffers (length ns) s\<rparr>)
       (with_mesh ns s))"

lemma with_mesh_simps [simp]:
  "status (pm (with_mesh ns s)) = status (pm s)" "current_step (pm (with_mesh ns s)) = current_step (pm s)"
  "total_steps (pm (with_mesh ns s)) = total_steps (pm s)" "cfg (with_mesh ns s) = cfg s"
  "remain_samples_num (pm (with_mesh ns s)) = remain_samples_num (pm s)" "ev (with_mesh ns s) = ev s"
  "rollout_buffer_per_rank (pm (with_mesh ns s)) = rollout_buffer_per_rank (pm s)"
  "fetcher (with_mesh ns s) = fetcher s" "redis_up (with_mesh ns s) = redis_up s"
  "redis_log (with_mesh ns s) = redis_log s @ mesh_messages s ns"
  "policy_init_done (pm (with_mesh ns s)) = policy_init_done (pm s)"
  "rollout_buffer (pm (with_mesh ns s)) = rollout_buffer (pm s)"
  by (simp_all add: with_mesh_def ranks_assigned_env ranks_assigned_pm)

lemma with_mesh_skeleton [simp]:
  "skeleton (policy_replicas (pm (with_mesh ns s))) = skeleton (policy_replicas (pm s))"
  using ranks_assigned_skeleton [of PolicySide ns s] by (simp add: with_mesh_def)

lemma policy_rebuild_run:
  assumes ok: "replicas_ok (policy_replicas (pm s))" and b: "cf_train_batch_per_replica (cfg s) \<noteq> 0"
    and valid: "set valid \<subseteq> set (arrived_list PolicySide s)" "valid \<noteq> []" and up: "redis_up s"
  shows "policy_trigger_rebuild_mesh valid s = Ok () (after_rebuild (by_start_time PolicySide s valid) s)"
proof -
  let ?ns = "by_start_time PolicySide s valid"
  have "\<forall>n \<in> set ?ns. arrived_in (replicas_of PolicySide s) n"
    using valid(1) arrived_list_arrived by fastforce
  then have mesh: "build_mesh_trigger PolicySide ?ns s = Ok () (with_mesh ?ns s)"
    using up unfolding with_mesh_def by (rule build_mesh_run)
  have ok1: "replicas_ok (policy_replicas (pm (with_mesh ?ns s)))"
    using ok replicas_ok_cong [OF with_mesh_skeleton [of ?ns s]] by simp
  have arr: "arrived_list PolicySide (with_mesh ?ns s) = arrived_list PolicySide s"
    by (rule arrived_list_skeleton) simp
  have fin: "training_finished (pm (with_mesh ?ns s)) = training_finished (pm s)"
    by (simp add: training_finished_def)
  let ?s2 = "pm_update (total_steps_update (\<lambda>_. rebuilt_steps s)) (with_mesh ?ns s)"
  have upd: "pm_update (total_steps_update (\<lambda>_. total_steps (pm w))) w = w" for w :: world
    by (cases w; cases "pm w") simp
  have steps: "recompute_total_steps None (with_mesh ?ns s) = Ok () ?s2"
    using recompute_total_steps_run [OF ok1, of None] b upd [of "with_mesh ?ns s"]
    by (auto simp: Let_def fin arr rebuilt_steps_def steps_from_def)
  have upd': "pm_update (rollout_buffer_per_rank_update (\<lambda>_. rollout_buffer_per_rank (pm w))) w = w" for w :: world
    by (cases w; cases "pm w") simp
  have "0 < length ?ns" using valid(2) by simp
  then have "rearrange_rollout_buffer_after_mesh_rebuild (length ?ns) w
      = Ok () (pm_update (rollout_buffer_per_rank_update (\<lambda>_. rebuilt_buffers (length ?ns) s)) w)"
    if "cfg w = cfg s" "rollout_buffer_per_rank (pm w) = rollout_buffer_per_rank (pm s)" for w
    using that upd' [of w]
    by (simp add: rearrange_rollout_buffer_after_mesh_rebuild_def redistribute_eq rebuilt_buffers_def upd_pm_def)
  then show ?thesis
    by (simp add: policy_trigger_rebuild_mesh_def Let_def mesh steps set_policy_global_mesh_size_def upd_fetcher_def
        after_rebuild_def comp_def)
qed

lemma rebuilt_ranks:
  assumes "distinct ns" "\<forall>n \<in> set ns. arrived_in (policy_replicas (pm s)) n" "i < length ns"
  shows "mesh_rank_in (policy_replicas (pm (after_rebuild ns s))) (ns ! i) = int i"
proof -
  have "arrived_in (replicas_of PolicySide s) (ns ! i)" using assms(2,3) by simp
  then obtain r where "dict_get (replicas_of PolicySide s) (ns ! i) = Some r" by (auto simp: arrived_in_def)
  then have "dict_get (replicas_of PolicySide (ranks_assigned PolicySide ns s)) (ns ! i) = Some (set_mesh_rank (int i) r)"
    using ranks_assigned_get(1) [OF assms(1,3), of PolicySide s] by simp
  then show ?thesis by (simp add: mesh_rank_in_def after_rebuild_def with_mesh_def set_mesh_rank_def)
qed

text \<open>Rebuilding the policy mesh from arrived replicas, with Redis up, succeeds: their mesh ranks
  become a bijection onto \<open>0..n-1\<close> in which an earlier start time means a smaller rank, the data
  fetcher learns the new size \<open>n\<close>, the total of steps is recomputed, and every one of them is sent
  one \<open>BUILD_MESH\<close> command.\<close>

theorem policy_mesh_rebuilt:
  assumes "replicas_ok (policy_replicas (pm s))" "cf_train_batch_per_replica (cfg s) \<noteq> 0"
    and "set valid \<subseteq> set (arrived_list PolicySide s)" "valid \<noteq> []" "distinct valid" "redis_up s"
  shows "\<exists>s' u table order. policy_trigger_rebuild_mesh valid s = Ok () s'
    \<and> bij_betw (mesh_rank_in (policy_replicas (pm s'))) (set valid) {0..<int (length valid)}
    \<and> (\<forall>a \<in> set valid. \<forall>b \<in> set valid. start_time_in (policy_replicas (pm s)) a < start_time_in (policy_replicas (pm s)) b
         \<longrightarrow> mesh_rank_in (policy_replicas (pm s')) a < mesh_rank_in (policy_replicas (pm s')) b)
    \<and> fe_policy_global_mesh_size (fetcher s') = Some (int (length valid))
    \<and> total_steps (pm s') = rebuilt_steps s \<and> mset order = mset valid
    \<and> redis_log s' = redis_log s @ map (\<lambda>n. (n @ ''_command'', CommandMsg (BuildMesh u table))) order"
proof -
  let ?ns = "by_start_time PolicySide s valid"
  have dist: "distinct ?ns" and arr: "\<forall>n \<in> set ?ns. arrived_in (policy_replicas (pm s)) n"
    using assms(3,5) arrived_list_arrived [of _ PolicySide s] by auto
  let ?d = "policy_replicas (pm (after_rebuild ?ns s))"
  note rank = rebuilt_ranks [OF dist arr]
  have "bij_betw (mesh_rank_in ?d) (set ?ns) {0..<int (length ?ns)}"
  proof (rule bij_betw_imageI)
    show "inj_on (mesh_rank_in ?d) (set ?ns)"
    proof (rule inj_onI)
      fix a b assume "a \<in> set ?ns" "b \<in> set ?ns" and same: "mesh_rank_in ?d a = mesh_rank_in ?d b"
      then obtain i j where "i < length ?ns" "a = ?ns ! i" "j < length ?ns" "b = ?ns ! j" by (metis in_set_conv_nth)
      then show "a = b" using rank [of i] rank [of j] same by simp
    qed
    show "mesh_rank_in ?d ` set ?ns = {0..<int (length ?ns)}"
    proof (intro equalityI subsetI)
      fix x assume "x \<in> mesh_rank_in ?d ` set ?ns"
      then obtain i where "i < length ?ns" "x = mesh_rank_in ?d (?ns ! i)" by (metis imageE in_set_conv_nth)
      then show "x \<in> {0..<int (length ?ns)}" using rank [of i] by simp
    next
      fix x assume x: "x \<in> {0..<int (length ?ns)}"
      then have "nat x < length ?ns" "int (nat x) = x" by auto
      then show "x \<in> mesh_rank_in ?d ` set ?ns" using rank [of "nat x"] by (metis imageI nth_mem)
    qed
  qed
  moreover have "mesh_rank_in ?d a < mesh_rank_in ?d b"
    if ab: "a \<in> set valid" "b \<in> set valid" "start_time_in (policy_replicas (pm s)) a < start_time_in (policy_replicas (pm s)) b" for a b
  proof -
    obtain i j where ij: "i < length ?ns" "a = ?ns ! i" "j < length ?ns" "b = ?ns ! j"
      using ab(1,2) set_by_start_time [of PolicySide s valid] by (metis in_set_conv_nth)
    have "\<not> j \<le> i" using by_start_time_sorted [of j i valid PolicySide s] ab(3) ij by auto
    then show ?thesis using rank [of i] rank [of j] ij by simp
  qed
  moreover have "mset ?ns = mset valid" by (simp add: by_start_time_def)
  moreover have "policy_trigger_rebuild_mesh valid s = Ok () (after_rebuild ?ns s)"
    using assms by (intro policy_rebuild_run)
  ultimately show ?thesis
    by (intro exI [of _ "after_rebuild ?ns s"] exI [of _ "ev_uuid (ev s) (uuid_counter s)"]
        exI [of _ "replicas_to_rank ?ns"] exI [of _ ?ns])
      (simp add: after_rebuild_def mesh_messages_def)
qed

theorem policy_mesh_rebuilt_witness:
  "\<exists>s' u table order. policy_trigger_rebuild_mesh [''p1'', ''p0''] sample_world = Ok () s'
    \<and> mesh_rank_in (policy_replicas (pm s')) ''p0'' < mesh_rank_in (policy_replicas (pm s')) ''p1''
    \<and> fe_policy_global_mesh_size (fetcher s') = Some 2
    \<and> redis_log s' = map (\<lambda>n. (n @ ''_command'', CommandMsg (BuildMesh u table))) order"
proof -
  have pre: "replicas_ok (policy_replicas (pm sample_world))" "cf_train_batch_per_replica (cfg sample_world) \<noteq> 0"
    "redis_log sample_world = []"
    "start_time_in (policy_replicas (pm sample_world)) ''p0'' < start_time_in (policy_replicas (pm sample_world)) ''p1''"
    using sample_replicas_ok [of PolicySide]
    by (simp_all add: sample_world_def sample_config_def start_time_in_def dict_get_def sample_replica_ok)
  have "set [''p1'', ''p0''] \<subseteq> set (arrived_list PolicySide sample_world)" "[''p1'', ''p0''] \<noteq> []"
    "distinct [''p1'', ''p0'']" by (simp_all add: sample_arrived_list)
  from policy_mesh_rebuilt [OF pre(1,2) this sample_redis_up] obtain s' u table order where
    "policy_trigger_rebuild_mesh [''p1'', ''p0''] sample_world = Ok () s'"
    "\<forall>a \<in> set [''p1'', ''p0'']. \<forall>b \<in> set [''p1'', ''p0'']. start_time_in (policy_replicas (pm sample_world)) a
        < start_time_in (policy_replicas (pm sample_world)) b
         \<longrightarrow> mesh_rank_in (policy_replicas (pm s')) a < mesh_rank_in (policy_replicas (pm s')) b"
    "fe_policy_global_mesh_size (fetcher s') = Some (int (length [''p1'', ''p0'']))"
    "redis_log s' = redis_log sample_world @ map (\<lambda>n. (n @ ''_command'', CommandMsg (BuildMesh u table))) order"
    by blast
  with pre show ?thesis
    by (intro exI [of _ s'] exI [of _ u] exI [of _ table] exI [of _ order]) simp
qed

section \<open>The invariant of the policy registry\<close>

text \<open>A replica is completed once it has as many atoms as its group sizes ask for; from then on, and
  only then, it has a status.\<close>

definition completed_shape :: "replica_shape \<Rightarrow> bool" where
  "completed_shape sh = (case snd (snd sh) of [] \<Rightarrow> False | (k, rn, g, gs) # ats \<Rightarrow> prod_list gs \<le> int (Suc (length ats)))"

definition policy_inv :: "world \<Rightarrow> bool" where
  "policy_inv s \<longleftrightarrow> replicas_ok (policy_replicas (pm s)) \<and> dict_wf (status (pm s))
     \<and> (\<forall>(n, sh) \<in> set (skeleton (policy_replicas (pm s))). fst (snd sh) = POLICY
          \<and> (n \<in> set (dict_keys (status (pm s))) \<longleftrightarrow> completed_shape sh))
     \<and> set (dict_keys (status (pm s))) \<subseteq> set (dict_keys (policy_replicas (pm s)))"

lemma policy_inv_cong:
  "skeleton (policy_replicas (pm s)) = skeleton (policy_replicas (pm t)) \<Longrightarrow>
   dict_keys (status (pm s)) = dict_keys (status (pm t)) \<Longrightarrow> policy_inv s = policy_inv t"
  using replicas_ok_cong [of "policy_replicas (pm s)" "policy_replicas (pm t)"]
  by (simp add: policy_inv_def dict_wf_def skeleton_keys)

lemma arrived_completed:
  "map_of (skeleton d) n = Some sh \<Longrightarrow> arrived_in d n \<Longrightarrow> completed_shape sh"
  by (auto simp: arrived_in_of_skeleton completed_shape_def)

lemma policy_inv_arrived:
  assumes "policy_inv s" "n \<in> set (arrived_list PolicySide s)"
  shows "\<exists>r. dict_get (policy_replicas (pm s)) n = Some r \<and> r_role r = POLICY \<and> all_atoms_arrived r = Inr True
    \<and> r_name r = n \<and> dict_get (status (pm s)) n \<noteq> None"
proof -
  have arr: "arrived_in (policy_replicas (pm s)) n" using arrived_list_arrived [OF assms(2)] by simp
  then obtain r where r: "dict_get (policy_replicas (pm s)) n = Some r" "all_atoms_arrived r = Inr True"
    by (auto simp: arrived_in_def)
  then have sh: "map_of (skeleton (policy_replicas (pm s))) n = Some (replica_shape r)"
    using skeleton_get [of "policy_replicas (pm s)" n] by simp
  then have "(n, replica_shape r) \<in> set (skeleton (policy_replicas (pm s)))" by (rule map_of_SomeD)
  then have "fst (snd (replica_shape r)) = POLICY"
    "n \<in> set (dict_keys (status (pm s))) \<longleftrightarrow> completed_shape (replica_shape r)"
    using assms(1) unfolding policy_inv_def by auto
  moreover have "completed_shape (replica_shape r)" using arrived_completed [OF sh arr] .
  moreover have "r_name r = n" using replicas_ok_get [OF _ r(1)] assms(1) by (simp add: policy_inv_def)
  ultimately show ?thesis using r by (auto simp: replica_shape_def dict_get_None_iff)
qed

lemma sample_policy_inv: "policy_inv sample_world"
  using sample_replicas_ok [of PolicySide]
  by (simp add: policy_inv_def sample_world_def dict_wf_def dict_keys_def skeleton_def replica_shape_def
      sample_replica_ok completed_shape_def)
    (simp add: sample_replica_def replica_init_def sample_unit_def atom_init_def atom_shape_def dict_set_def)

end
