(* ===== verification/Rollout_Manager.thy ===== *)
theory Rollout_Manager
  imports Policy_Manager
begin

text \<open>
  \<open>RolloutStatusManager\<close> of \<open>cosmos_rl/dispatcher/status.py\<close>: registration and removal of rollout
  replicas, the end of rollouts, mesh rebuilding, and the first transfer of weights to them.
\<close>

definition rollout_trigger_rebuild_mesh :: "string list \<Rightarrow> unit ctl" where
  "rollout_trigger_rebuild_mesh valid_replicas = with_state (\<lambda>s.
     let sorted_valid_replicas = by_start_time RolloutSide s valid_replicas in
     block [build_mesh_trigger RolloutSide sorted_valid_replicas,
            set_rollout_global_mesh_size (int (length sorted_valid_replicas))])"

definition rollout_unregister :: "string \<Rightarrow> unit ctl" where
  "rollout_unregister name =
     bnd (with_state (\<lambda>s. py_assert (has_replica RolloutSide name s))) (\<lambda>_.
     bnd (deref RolloutSide name) (\<lambda>r.
     bnd (modify (replicas_upd RolloutSide (dict_pop name))) (\<lambda>_.
     bnd (with_state (\<lambda>s. upd_rm (r_scaling_log_update (\<lambda>l. l @
            [\<lparr>sl_event = REPLICA_SCALING_DOWN, sl_replica_name = name, sl_timestamp = int_now s\<rparr>])))) (\<lambda>_.
     with_state (\<lambda>s.
       if training_finished (pm s) then ret ()
       else guarded (in_mesh r \<and> 0 < length (rollout_replicas (rm s)))
         (bnd (get_all_atoms_arrived_replicas RolloutSide) rollout_trigger_rebuild_mesh))))))"

definition rollout_maintain_life_status :: "unit ctl" where
  "rollout_maintain_life_status = with_state (\<lambda>s.
     for_each (ev_set_order (ev s) (dead_names RolloutSide s)) rollout_unregister)"

definition rollout_end :: "string \<Rightarrow> unit ctl" where
  "rollout_end name = with_state (\<lambda>s.
     if has_replica RolloutSide name s
     then adjust_replica RolloutSide name (r_status_update (st_ended_update (\<lambda>_. True)))
     else ret ())"

definition all_rollouts_ended :: "world \<Rightarrow> bool" where
  "all_rollouts_ended s \<longleftrightarrow> (\<forall>r \<in> set (dict_values (rollout_replicas (rm s))). st_ended (r_status r))"

text \<open>The hook reads the policy replicas whether or not their atoms have all arrived.\<close>

definition first_loaded_policy :: "world \<Rightarrow> string option" where
  "first_loaded_policy s = first_loaded PolicySide s (iter_names PolicySide s)"

definition first_weights_to_rollout :: "string list \<Rightarrow> string \<Rightarrow> unit ctl" where
  "first_weights_to_rollout valid_replicas target = with_state (\<lambda>s.
     bnd (lift_sum (efold (\<lambda>n b. ebind (dict_item (replicas_of RolloutSide s) n)
            (\<lambda>r. Inr (b \<and> \<not> r_weights_loaded r))) valid_replicas True)) (\<lambda>none_loaded.
     case first_loaded_policy s of None \<Rightarrow> ret ()
     | Some src \<Rightarrow> guarded none_loaded
         (bnd (lift_sum (opt_attr (policy_atoms_in_replica (pm s)))) (\<lambda>src_size.
          bnd (lift_sum (opt_attr (rollout_atoms_in_replica (rm s)))) (\<lambda>dst_size.
          p2r_unicast_trigger src target src_size dst_size None None)))))"

definition rollout_init :: "string list \<Rightarrow> unit ctl" where
  "rollout_init valid_replicas = block [
     upd_rm (rollout_init_done_update (\<lambda>_. True)),
     rollout_trigger_rebuild_mesh valid_replicas,
     with_state (\<lambda>s. case first_loaded RolloutSide s valid_replicas of None \<Rightarrow> ret ()
       | Some src \<Rightarrow> r2r_broadcast_trigger src valid_replicas (Some (current_step (pm s))) None)]"

definition rollout_post_register_hook :: "string list \<Rightarrow> string \<Rightarrow> unit ctl" where
  "rollout_post_register_hook valid_replicas target = block [
     py_assert (target \<in> set valid_replicas),
     first_weights_to_rollout valid_replicas target,
     with_state (\<lambda>s.
       if \<not> rollout_init_done (rm s) \<and> int (length valid_replicas) = cf_rollout_n_init_replicas (cfg s)
       then rollout_init valid_replicas
       else if \<not> rollout_init_done (rm s)
       then py_assert (int (length valid_replicas) < cf_rollout_n_init_replicas (cfg s))
       else rollout_trigger_rebuild_mesh valid_replicas)]"

definition rollout_arrived :: "atom \<Rightarrow> unit ctl" where
  "rollout_arrived a = block [
     set_start_time RolloutSide (at_replica_name a),
     upd_rm (rollout_atoms_in_replica_update (\<lambda>x. case x of None \<Rightarrow> Some (prod_list (at_group_size a)) | Some y \<Rightarrow> Some y)),
     bnd (get_all_atoms_arrived_replicas RolloutSide) (\<lambda>valid_replicas.
       rollout_post_register_hook valid_replicas (at_replica_name a))]"

definition rollout_register :: "atom \<Rightarrow> unit ctl" where
  "rollout_register a = block [
     add_atom RolloutSide ROLLOUT a,
     bind_atom RolloutSide a,
     with_state (\<lambda>s. guarded (\<not> rollout_init_done (rm s)
         \<and> cf_rollout_n_init_replicas (cfg s) < int (length (rollout_replicas (rm s))))
       (modify (cfg_update (cf_rollout_n_init_replicas_update (\<lambda>_. int (length (rollout_replicas (rm s)))))))),
     bnd (deref RolloutSide (at_replica_name a)) (\<lambda>r.
     bnd (lift_sum (all_atoms_arrived r)) (\<lambda>arrived.
     guarded arrived (rollout_arrived a)))]"

end
