(* ===== verification/Training_Flow.thy ===== *)
theory Training_Flow
  imports Rollout_Manager
begin

text \<open>
  \<open>PolicyStatusManager\<close> of \<open>cosmos_rl/dispatcher/status.py\<close>, second part: the training loop the
  controller drives. Rollouts are put into the buffer, filtered by staleness and dispatched to the
  policy replicas when a step can start (\<open>try_trigger_data_fetch_and_training\<close>); replicas
  acknowledge the step (\<open>train_ack\<close>), which may send weights to the rollout replicas and starts the
  next step.
\<close>

section \<open>Reporting\<close>

text \<open>\<open>RollingDict\<close> of \<open>cosmos_rl/utils/util.py\<close>: a stored key moves to the end, the oldest go first.\<close>

definition rolling_maxlen :: nat where "rolling_maxlen = 20"

definition rolling_set :: "'k \<Rightarrow> 'v \<Rightarrow> ('k, 'v) dict \<Rightarrow> ('k, 'v) dict" where
  "rolling_set k v d =
     (let d = dict_pop k d @ [(k, v)] in if rolling_maxlen < length d then tl d else d)"

definition ends_with :: "string \<Rightarrow> string \<Rightarrow> bool" where
  "ends_with suffix s \<longleftrightarrow> length suffix \<le> length s \<and> drop (length s - length suffix) s = suffix"

definition metric_or :: "metrics \<Rightarrow> string \<Rightarrow> rat \<Rightarrow> rat" where
  "metric_or d k x = (case dict_get d k of None \<Rightarrow> x | Some v \<Rightarrow> v)"

text \<open>\<open>aggregate_report_data\<close>: the keys of all reports are a set, so they come in an order of its own.\<close>

definition aggregate_key :: "env \<Rightarrow> metrics list \<Rightarrow> string \<Rightarrow> error + rat" where
  "aggregate_key e reports k =
     (let vs = map (\<lambda>d. metric_or d k 0) reports in
      if ends_with ''_max'' k then ev_np_max e vs
      else if ends_with ''_min'' k then ev_np_min e vs
      else if ends_with ''_sum'' k \<or> ends_with ''_count'' k \<or> ends_with ''_cnt'' k then ev_np_sum e vs
      else if ends_with ''_std'' k
      then Inr (ev_sqrt e (sum_list (map (\<lambda>v. v * v) vs) / of_nat (length reports)))
      else ev_np_mean e vs)"

definition aggregate_report_data :: "env \<Rightarrow> string \<Rightarrow> metrics list \<Rightarrow> metrics \<Rightarrow> error + metrics" where
  "aggregate_report_data e prefix reports report_data =
     efold (\<lambda>k d. if dict_get d (prefix @ k) \<noteq> None then Inr d
                  else ebind (aggregate_key e reports k) (\<lambda>v. Inr (dict_set (prefix @ k) v d)))
       (ev_set_order e (remdups (concat (map dict_keys reports)))) report_data"

section \<open>Buffers and filters\<close>

definition total_pending_rollouts :: "world \<Rightarrow> int" where
  "total_pending_rollouts s =
     (if cf_data_dispatch_as_rank_in_mesh (cfg s)
      then sum_list (map (\<lambda>q. int (length q)) (rollout_buffer_per_rank (pm s)))
      else int (length (rollout_buffer (pm s))))"

definition record_count :: "(string, int) dict \<Rightarrow> string \<Rightarrow> int" where
  "record_count d k = (case dict_get d k of None \<Rightarrow> 0 | Some v \<Rightarrow> v)"

definition update_dynamic_sampling_statistics :: "(string, int) dict \<Rightarrow> unit ctl" where
  "update_dynamic_sampling_statistics records = block [
     for_each [''sampled'', ''filtered_positive'', ''filtered_negative''] (\<lambda>k.
       upd_pm (filter_records_update (\<lambda>d. dict_set k (record_count d k + record_count records k) d))),
     upd_pm (remain_samples_num_update (\<lambda>n. n - record_count records ''filtered_positive'')),
     upd_pm (remain_samples_num_update (\<lambda>n. n - record_count records ''filtered_negative''))]"

text \<open>When the rollout at \<open>idx\<close> of its batch is expected to be trained on.\<close>

definition estimated_step :: "world \<Rightarrow> nat \<Rightarrow> nat \<Rightarrow> error + int" where
  "estimated_step s n_arrived idx =
     (let per_step = cf_train_batch_per_replica (cfg s) * max (int n_arrived) 1 in
      ensure ZeroDivisionError (per_step \<noteq> 0)
        (Inr (current_step (pm s) + (int idx + total_pending_rollouts s) div per_step)))"

definition keep_rollout :: "world \<Rightarrow> nat \<times> rollout \<Rightarrow> error + bool" where
  "keep_rollout s x = (case x of (idx, rollout) \<Rightarrow>
     ensure AssertionError (ro_weight_version rollout \<le> current_step (pm s))
     (ebind (arrived_names (policy_replicas (pm s))) (\<lambda>arrived.
      ebind (estimated_step s (length arrived) idx) (\<lambda>step.
      Inr (step - ro_weight_version rollout \<le> cf_allowed_outdated_steps (cfg s))))))"

definition filter_outdated_rollouts :: "rollout list \<Rightarrow> rollout list ctl" where
  "filter_outdated_rollouts rollouts = with_state (\<lambda>s.
     bnd (lift_sum (sum_filter (keep_rollout s) (enumerate 0 rollouts))) (\<lambda>kept.
     let filtered = map snd kept; dropped = int (length rollouts) - int (length filtered) in
     bnd (upd_pm (\<lambda>p. p\<lparr>
        remain_samples_num := remain_samples_num p - dropped,
        filter_records := dict_set ''outdated'' (record_count (filter_records p) ''outdated'' + dropped) (filter_records p)\<rparr>)) (\<lambda>_.
     ret filtered)))"

section \<open>Starting a step\<close>

definition rollouts_enough_for_one_step :: "world \<Rightarrow> error + bool" where
  "rollouts_enough_for_one_step s =
     (if cf_mode (cfg s) = ''colocated'' then Inr True
      else if cf_data_dispatch_as_rank_in_mesh (cfg s)
      then Inr (\<forall>q \<in> set (rollout_buffer_per_rank (pm s)). cf_train_batch_per_replica (cfg s) \<le> int (length q))
      else ebind (arrived_names (policy_replicas (pm s))) (\<lambda>arrived.
        Inr (cf_train_batch_per_replica (cfg s) * int (length arrived) \<le> total_pending_rollouts s)))"

definition check_checkpoint_saving :: "int \<Rightarrow> config \<Rightarrow> policy_manager \<Rightarrow> error + bool" where
  "check_checkpoint_saving required_rollouts c p =
     ebind (if current_step p = total_steps p then Inr True
        else if 0 < cf_save_freq_in_epoch c then
          ensure ZeroDivisionError (samples_per_epoch p \<noteq> 0)
          (Inr ((remain_samples_num p + required_rollouts - 1) div samples_per_epoch p
                  \<noteq> (remain_samples_num p - 1) div samples_per_epoch p
                \<and> (cf_epoch c - (remain_samples_num p + required_rollouts - 1) div samples_per_epoch p)
                    mod cf_save_freq_in_epoch c = 0))
        else ensure ZeroDivisionError (cf_save_freq c \<noteq> 0)
          (Inr (current_step p mod cf_save_freq c = 0 \<and> 0 < current_step p)))
     (\<lambda>do_save. Inr (do_save \<and> cf_enable_checkpoint c))"

text \<open>\<open>Queue.get\<close> on an empty queue would block for ever.\<close>

definition buffer_get :: "rollout ctl" where
  "buffer_get = with_state (\<lambda>s. case rollout_buffer (pm s) of
     [] \<Rightarrow> raise QueueBlocked
   | r # rs \<Rightarrow> bnd (upd_pm (rollout_buffer_update (\<lambda>_. rs))) (\<lambda>_. ret r))"

definition rank_buffer_get :: "nat \<Rightarrow> rollout ctl" where
  "rank_buffer_get i = with_state (\<lambda>s.
     let qs = rollout_buffer_per_rank (pm s) in
     if length qs \<le> i then raise IndexError
     else case qs ! i of [] \<Rightarrow> raise QueueBlocked
       | r # rs \<Rightarrow> bnd (upd_pm (rollout_buffer_per_rank_update (\<lambda>qs. qs[i := rs]))) (\<lambda>_. ret r))"

definition sort_rank_buffer :: "nat \<Rightarrow> unit ctl" where
  "sort_rank_buffer i = with_state (\<lambda>s.
     if length (rollout_buffer_per_rank (pm s)) \<le> i then raise IndexError
     else upd_pm (rollout_buffer_per_rank_update (\<lambda>qs. qs[i := sort_key ro_prompt_idx (qs ! i)])))"

text \<open>A loop that collects what its body returns.\<close>

fun collect :: "'x list \<Rightarrow> ('x \<Rightarrow> 'a ctl) \<Rightarrow> 'a list ctl" where
  "collect [] f = ret []"
| "collect (x # xs) f = bnd (f x) (\<lambda>a. bnd (collect xs f) (\<lambda>as. ret (a # as)))"

definition dispatch_next :: "string \<Rightarrow> rollout ctl" where
  "dispatch_next name =
     bnd buffer_get (\<lambda>r. bnd (replica_put_rollout r name) (\<lambda>_. ret r))"

definition dispatch_next_of_rank :: "nat \<Rightarrow> string \<Rightarrow> rollout ctl" where
  "dispatch_next_of_rank i name =
     bnd (rank_buffer_get i) (\<lambda>r. bnd (replica_put_rollout r name) (\<lambda>_. ret r))"

text \<open>The rounds over the replicas, as the list of receivers in order.\<close>

definition interleave :: "int \<Rightarrow> string list \<Rightarrow> string list" where
  "interleave items_count names = concat (replicate (nat items_count) names)"

definition dispatch_rollouts :: "int \<Rightarrow> string list \<Rightarrow> rollout list ctl" where
  "dispatch_rollouts items_count arrived = with_state (\<lambda>s.
     if cf_mode (cfg s) = ''colocated'' then ret []
     else if cf_data_dispatch_as_rank_in_mesh (cfg s)
     then bnd (collect (enumerate 0 (by_start_time PolicySide s arrived)) (\<lambda>(i, name).
            bnd (sort_rank_buffer i) (\<lambda>_.
            collect (replicate (nat items_count) name) (dispatch_next_of_rank i)))) (\<lambda>rss. ret (concat rss))
     else collect (interleave items_count arrived) dispatch_next)"

definition completion_length :: "world \<Rightarrow> rollout \<Rightarrow> error + int" where
  "completion_length s r =
     (if cf_non_text (cfg s) then Inr 1
      else if cf_rollout_as_token_ids (cfg s)
      then ebind (opt_len (ro_completion_token_ids r)) (\<lambda>n. Inr (int n))
      else case ev_tokenizer (ev s) of None \<Rightarrow> Inl AttributeError
        | Some tk \<Rightarrow> (case ro_completion r of VStr c \<Rightarrow> Inr (int (length (tk_encode tk c))) | _ \<Rightarrow> Inl TypeError))"

definition step_report_stats :: "env \<Rightarrow> string \<Rightarrow> rat list \<Rightarrow> metrics \<Rightarrow> error + metrics" where
  "step_report_stats e name vs d =
     ebind (ev_np_mean e vs) (\<lambda>m. ebind (ev_np_std e vs) (\<lambda>sd.
     ebind (ev_np_max e vs) (\<lambda>hi. ebind (ev_np_min e vs) (\<lambda>lo.
     Inr (d @ [(name @ ''_mean'', m), (name @ ''_std'', sd), (name @ ''_max'', hi), (name @ ''_min'', lo)])))))"

definition step_report :: "world \<Rightarrow> rollout list \<Rightarrow> error + metrics" where
  "step_report s rs =
     ebind (efold (\<lambda>r ls. ebind (completion_length s r) (\<lambda>l. Inr (ls @ [l]))) rs []) (\<lambda>lengths.
     let advantages = concat (map2 (\<lambda>r l. replicate (nat l) (ro_advantage r)) rs lengths) in
     ebind (step_report_stats (ev s) ''train/reward'' (map ro_reward rs) []) (\<lambda>d.
     ebind (step_report_stats (ev s) ''rollout/completion_length'' (map rat_of_int lengths) d) (\<lambda>d.
     ebind (step_report_stats (ev s) ''rollout/advantage'' advantages d) (\<lambda>d.
     ebind (step_report_stats (ev s) ''rollout/filter_reward'' (map ro_filter_reward rs) d) (\<lambda>d.
     aggregate_report_data (ev s) ''train/''
       (map (\<lambda>r. case ro_report_metrics r of None \<Rightarrow> [] | Some m \<Rightarrow> m) rs) d)))))"

definition report_step :: "rollout list \<Rightarrow> unit ctl" where
  "report_step rollouts_of_this_step = with_state (\<lambda>s.
     guarded (cf_loggers (cfg s) \<noteq> [] \<and> rollouts_of_this_step \<noteq> [])
       (bnd (lift_sum (step_report s rollouts_of_this_step)) (\<lambda>d.
        upd_pm (train_report_data_update (rolling_set (of_int (current_step (pm s))) d)))))"

definition fetch_and_run :: "int \<Rightarrow> bool \<Rightarrow> string \<Rightarrow> unit ctl" where
  "fetch_and_run items_count do_save name =
     bnd (with_state (\<lambda>s. data_fetch_trigger name items_count (Some (current_step (pm s)))
            (Some (total_steps (pm s))) (remain_samples_num (pm s)) do_save)) (\<lambda>_.
     set_status name RUNNING)"

definition start_step :: "int \<Rightarrow> int \<Rightarrow> string list \<Rightarrow> unit ctl" where
  "start_step items_count required_rollouts arrived = block [
     upd_pm (remain_samples_num_update (\<lambda>n. n - required_rollouts)),
     upd_pm (current_step_update (\<lambda>c. c + 1)),
     activate_validation_if_due,
     bnd (dispatch_rollouts items_count arrived) (\<lambda>rollouts_of_this_step.
     bnd (with_state (\<lambda>s. lift_sum (check_checkpoint_saving required_rollouts (cfg s) (pm s)))) (\<lambda>do_save.
     block [
       for_each arrived (fetch_and_run items_count do_save),
       report_step rollouts_of_this_step]))]"

definition try_trigger_data_fetch_and_training :: "bool \<Rightarrow> unit ctl" where
  "try_trigger_data_fetch_and_training is_fake_last_cmd = with_state (\<lambda>s.
     if fe_activated_val_iter (fetcher s) \<noteq> None then ret ()
     else bnd (get_all_atoms_arrived_replicas PolicySide) (\<lambda>arrived.
       if length arrived = 0 then ret ()
       else if training_finished (pm s) then ret ()
       else if is_fake_last_cmd then
         bnd (py_assert (current_step (pm s) + 1 = total_steps (pm s))) (\<lambda>_. start_step 0 0 arrived)
       else
         let items_count = cf_train_batch_per_replica (cfg s);
             required_rollouts = items_count * int (length arrived) in
         if \<not> all_ready_or_reduced (pm s) then ret ()
         else bnd (lift_sum (rollouts_enough_for_one_step s)) (\<lambda>enough.
           guarded enough (start_step items_count required_rollouts arrived))))"

section \<open>Incoming rollouts\<close>

definition append_content :: "string \<Rightarrow> pyval \<Rightarrow> error + pyval" where
  "append_content eos v = (case v of
     VStr c \<Rightarrow> Inr (VStr (c @ eos))
   | VList xs \<Rightarrow> Inr (VList (xs @ map (\<lambda>c. VStr [c]) eos))
   | _ \<Rightarrow> Inl TypeError)"

definition append_to_conversation :: "string \<Rightarrow> conversation option \<Rightarrow> error + conversation option" where
  "append_to_conversation eos conv = (case conv of None \<Rightarrow> Inl TypeError
     | Some [] \<Rightarrow> Inl IndexError
     | Some ms \<Rightarrow>
         if cm_role (last ms) = ''assistant''
         then ebind (append_content eos (cm_content (last ms)))
                (\<lambda>c. Inr (Some (butlast ms @ [(last ms)\<lparr>cm_content := c\<rparr>])))
         else Inr (Some ms))"

definition append_stop_str :: "config \<Rightarrow> env \<Rightarrow> rollout \<Rightarrow> error + rollout" where
  "append_stop_str c e r =
     (if \<not> cf_include_stop_str_in_output c then Inr r
      else ebind (opt_attr (ev_tokenizer e)) (\<lambda>tk.
        case tk_eos_token tk of None \<Rightarrow> Inr r
        | Some eos \<Rightarrow> (case ro_completion r of
            VNone \<Rightarrow> Inr r
          | VStr txt \<Rightarrow>
              if ends_with eos txt then Inr r
              else let r = r\<lparr>ro_completion := VStr (txt @ eos)\<rparr> in
                if cf_multi_turn c
                then ebind (append_to_conversation eos (ro_completed_conversation r))
                       (\<lambda>conv. Inr (r\<lparr>ro_completed_conversation := conv\<rparr>))
                else Inr r
          | _ \<Rightarrow> Inl AttributeError)))"

definition buffer_put :: "rollout \<Rightarrow> unit ctl" where
  "buffer_put r = with_state (\<lambda>s.
     if cf_data_dispatch_as_rank_in_mesh (cfg s)
     then let n = length (rollout_buffer_per_rank (pm s)) in
       bnd (check ZeroDivisionError (n \<noteq> 0)) (\<lambda>_.
       let i = nat (ro_prompt_idx r mod int n) in
       upd_pm (rollout_buffer_per_rank_update (\<lambda>qs. qs[i := qs ! i @ [r]])))
     else upd_pm (rollout_buffer_update (\<lambda>q. q @ [r])))"

definition put_rollout :: "rollout \<Rightarrow> unit ctl" where
  "put_rollout r =
     bnd (with_state (\<lambda>s. lift_sum (append_stop_str (cfg s) (ev s) r))) (\<lambda>r.
     block [buffer_put r, try_trigger_data_fetch_and_training False])"

definition completion_tokens :: "world \<Rightarrow> rollout \<Rightarrow> error + int" where
  "completion_tokens s r =
     (if cf_rollout_as_token_ids (cfg s)
      then ebind (opt_len (ro_completion_token_ids r)) (\<lambda>n. Inr (int n))
      else if cf_non_text (cfg s) then Inr 0
      else case ev_tokenizer (ev s) of None \<Rightarrow> Inl AttributeError
        | Some tk \<Rightarrow> (case ro_completion r of VStr c \<Rightarrow> Inr (int (length (tk_encode tk c))) | _ \<Rightarrow> Inl TypeError))"

fun put_rollouts_loop :: "rollout list \<Rightarrow> int \<Rightarrow> int \<Rightarrow> (int \<times> int) ctl" where
  "put_rollouts_loop [] tokens n_samples = ret (tokens, n_samples)"
| "put_rollouts_loop (r # rs) tokens n_samples =
     bnd (with_state (\<lambda>s. lift_sum (completion_tokens s r))) (\<lambda>k.
     bnd (put_rollout r) (\<lambda>_.
     with_state (\<lambda>s.
       if cf_on_policy (cfg s) \<and> total_pending_rollouts s = 0
       then bnd (upd_pm (on_policy_rollout_completed_update (\<lambda>_. True))) (\<lambda>_. ret (tokens + k, n_samples + 1))
       else put_rollouts_loop rs (tokens + k) (n_samples + 1))))"

definition put_rollouts :: "rollout list \<Rightarrow> (int \<times> int) ctl" where
  "put_rollouts rollouts = with_state (\<lambda>s.
     if cf_on_policy (cfg s) \<and> on_policy_rollout_completed (pm s)
     then bnd (upd_pm (remain_samples_num_update (\<lambda>n. n - int (length rollouts)))) (\<lambda>_. ret (0, 0))
     else put_rollouts_loop rollouts 0 0)"

section \<open>Validation reports\<close>

definition or_nil :: "'a list option \<Rightarrow> 'a list" where
  "or_nil x = (case x of None \<Rightarrow> [] | Some xs \<Rightarrow> xs)"

definition validation_report_validation_results :: "int \<Rightarrow> rollout list list \<Rightarrow> unit ctl" where
  "validation_report_validation_results step results = block [
     upd_pm (val_report_data_update (\<lambda>d. dict_set step (or_nil (dict_get d step) @ results) d)),
     with_state (\<lambda>s.
       let n_items = int (sum_list (map length (or_nil (dict_get (val_report_data (pm s)) step)))) in
       bnd (lift_sum (if fe_val_datasize (fetcher s) \<noteq> 0 then Inr (fe_val_datasize (fetcher s))
                      else ebind (opt_len (ev_val_batches (ev s))) (\<lambda>n. Inr (int n)))) (\<lambda>datasize.
       bnd (check ZeroDivisionError (fe_activated_val_tqdm (fetcher s) \<longrightarrow> cf_val_n_generation (cfg s) \<noteq> 0)) (\<lambda>_.
       guarded (n_items = datasize * cf_val_n_generation (cfg s) \<and> fe_activated_val_iter (fetcher s) \<noteq> None)
         (block [clear_validation_status, try_trigger_data_fetch_and_training False]))))]"

section \<open>Acknowledged steps\<close>

definition metric_column :: "string \<Rightarrow> metrics list \<Rightarrow> error + rat list" where
  "metric_column k reports = efold (\<lambda>d vs. ebind (dict_item d k) (\<lambda>v. Inr (vs @ [v]))) reports []"

text \<open>The averages over the replicas, the step they are for, and the remaining metrics.\<close>

definition train_step_report :: "env \<Rightarrow> int \<Rightarrow> metrics list \<Rightarrow> error + (rat \<times> metrics)" where
  "train_step_report e tot reports =
     (let opt = (\<lambda>k. map (\<lambda>d. metric_or d k 0) reports); first = hd reports in
      ebind (metric_column ''train/loss_avg'' reports) (\<lambda>la. ebind (ev_np_mean e la) (\<lambda>loss_avg.
      ebind (metric_column ''train/loss_max'' reports) (\<lambda>lm. ebind (ev_np_max e lm) (\<lambda>loss_max.
      ebind (dict_item first ''train/learning_rate'') (\<lambda>lr.
      ebind (metric_column ''train/iteration_time'' reports) (\<lambda>it. ebind (ev_np_mean e it) (\<lambda>iter_time.
      ebind (ev_np_mean e (opt ''train/kl_loss_avg'')) (\<lambda>kl_avg.
      ebind (ev_np_max e (opt ''train/kl_loss_max'')) (\<lambda>kl_max.
      ebind (ev_np_mean e (opt ''train/grad_norm'')) (\<lambda>grad_norm.
      ebind (ev_np_mean e (opt ''train/entropy'')) (\<lambda>entropy.
      ebind (ev_np_mean e (opt ''train/effective_entropy'')) (\<lambda>eff_entropy.
      ebind (dict_item first ''train_step'') (\<lambda>train_step.
      ebind (aggregate_report_data e '''' reports
        [(''train/loss_avg'', loss_avg), (''train/loss_max'', loss_max), (''train/learning_rate'', lr),
         (''train/iteration_time'', iter_time), (''train/kl_loss_avg'', kl_avg), (''train/kl_loss_max'', kl_max),
         (''train/grad_norm'', grad_norm), (''train/entropy'', entropy),
         (''train/effective_entropy'', eff_entropy), (''train/total_steps'', of_int tot)]) (\<lambda>d.
      Inr (train_step, d))))))))))))))))"

definition add_filter_ratios :: "(string, int) dict \<Rightarrow> metrics \<Rightarrow> metrics" where
  "add_filter_ratios records d =
     (let n = sum_list (dict_values records) in
      if records = [] \<or> n \<le> 0 then d
      else fold (\<lambda>(k, v). dict_set (''rollout/'' @ k @ ''_ratio'') (of_int v / of_int n)) records d)"

definition console_keys :: "string list" where
  "console_keys = [''train/reward_mean'', ''train/reward_std'', ''train/reward_max'', ''train/reward_min'',
     ''rollout/completion_length_mean'', ''rollout/completion_length_max'']"

definition update_all :: "metrics \<Rightarrow> metrics \<Rightarrow> metrics" where
  "update_all new d = fold (\<lambda>(k, v). dict_set k v) new d"

text \<open>\<open>setdefault\<close> then \<open>update\<close> of the entry of a step.\<close>

definition merge_step_report :: "rat \<Rightarrow> metrics \<Rightarrow> (rat, metrics) dict \<Rightarrow> (rat, metrics) dict" where
  "merge_step_report step new d =
     (let d = (if dict_get d step = None then rolling_set step [] d else d) in
      dict_adjust step (update_all new) d)"

text \<open>The block of \<open>train_ack\<close> that reports; whatever raises in it is logged and dropped, but what it
  had changed by then stays.\<close>

definition has_keys :: "string list \<Rightarrow> metrics \<Rightarrow> bool" where
  "has_keys ks d \<longleftrightarrow> (\<forall>k \<in> set ks. dict_get d k \<noteq> None)"

definition report_reduced_step :: "int \<Rightarrow> unit ctl" where
  "report_reduced_step tot = with_state (\<lambda>s.
     let reports = or_nil (report_data_list (pm s)) in
     bnd (lift_sum (train_step_report (ev s) tot reports)) (\<lambda>(step, d).
     block [
       guarded (cf_mode (cfg s) = ''colocated'')
         (for_each reports (\<lambda>m. update_dynamic_sampling_statistics (map (\<lambda>(k, v). (k, \<lfloor>v\<rfloor>)) m))),
       upd_pm (\<lambda>p. p\<lparr>
         train_report_data := merge_step_report step (add_filter_ratios (filter_records p) d) (train_report_data p),
         report_data_list := Some []\<rparr>),
       with_state (\<lambda>s. check KeyError (''console'' \<in> set (cf_loggers (cfg s)) \<longrightarrow>
         has_keys console_keys (or_nil (dict_get (train_report_data (pm s)) step)))),
       upd_pm (filter_records_update (\<lambda>_. []))]))"

definition try_report_reduced_step :: "int \<Rightarrow> unit ctl" where
  "try_report_reduced_step tot = with_state (\<lambda>s.
     guarded (cf_loggers (cfg s) \<noteq> [] \<and> (\<exists>d \<in> set (or_nil (report_data_list (pm s))). d \<noteq> []))
       (try_except (report_reduced_step tot) (\<lambda>_. ret ())))"

definition sft_console_keys :: "bool \<Rightarrow> string list" where
  "sft_console_keys is_validation = (if is_validation then [''val/avg_loss'']
     else [''train/loss_avg'', ''train/loss_max'', ''optimizer/grad_norm'', ''train/iteration_time''])"

definition sft_report_summary :: "bool \<Rightarrow> unit ctl" where
  "sft_report_summary is_validation = block [
     try_except (with_state (\<lambda>s.
       bnd (lift_sum (aggregate_report_data (ev s) '''' (or_nil (report_data_list (pm s))) [])) (\<lambda>d.
       bnd (upd_pm (report_data_list_update (\<lambda>_. Some []))) (\<lambda>_.
       check KeyError (''console'' \<in> set (cf_loggers (cfg s)) \<longrightarrow> has_keys (sft_console_keys is_validation) d)))))
       (\<lambda>_. ret ()),
     bnd (get_all_atoms_arrived_replicas PolicySide) (\<lambda>arrived. for_each arrived (\<lambda>n. set_status n RUNNING))]"

definition sft_train_ack :: "string \<Rightarrow> metrics \<Rightarrow> unit ctl" where
  "sft_train_ack name report_data =
     (if dict_get report_data ''val/avg_loss'' \<noteq> None then block [
        set_status name VALIDATED,
        with_state (\<lambda>s. guarded (all_with_status [VALIDATED] (pm s)) (sft_report_summary True))]
      else block [
        with_state (\<lambda>s. guarded (\<not> any_with_status [REDUCED] (pm s)) (block [
          upd_pm (current_step_update (\<lambda>c. c + 1)),
          activate_validation_if_due])),
        set_status name REDUCED,
        with_state (\<lambda>s. guarded (all_reduced (pm s))
          (bnd (get_all_atoms_arrived_replicas PolicySide) (\<lambda>arrived. block [
            upd_pm (remain_samples_num_update (\<lambda>n. n - cf_train_batch_per_replica (cfg s) * int (length arrived))),
            sft_report_summary False])))])"

definition need_sync_weight :: "config \<Rightarrow> int \<Rightarrow> int \<Rightarrow> error + bool" where
  "need_sync_weight c step tot =
     ensure ZeroDivisionError (cf_sync_weight_interval c \<noteq> 0)
     (let need = (step mod cf_sync_weight_interval c = 0 \<or> step = tot) in
      if cf_val_enable c \<and> \<not> need
      then ensure ZeroDivisionError (cf_val_freq c \<noteq> 0) (Inr (step mod cf_val_freq c = 0))
      else Inr need)"

definition trigger_weight_sync :: "string option \<Rightarrow> int \<Rightarrow> int \<Rightarrow> unit ctl" where
  "trigger_weight_sync policy_replica step tot =
     bnd (get_all_atoms_arrived_replicas RolloutSide) (\<lambda>arrived.
     with_state (\<lambda>s. case by_start_time RolloutSide s arrived of [] \<Rightarrow> ret ()
       | dst # rest \<Rightarrow>
           bnd (lift_sum (opt_attr (policy_atoms_in_replica (pm s)))) (\<lambda>src_size.
           bnd (lift_sum (opt_attr (rollout_atoms_in_replica (rm s)))) (\<lambda>dst_size.
           bnd (lift_sum (opt_attr policy_replica)) (\<lambda>src.
           block [p2r_unicast_trigger src dst src_size dst_size (Some step) (Some tot),
                  r2r_broadcast_trigger dst (dst # rest) (Some step) (Some tot)])))))"

definition reset_profile :: "string \<Rightarrow> unit ctl" where
  "reset_profile name = adjust_replica PolicySide name (r_profiler_update (sp_do_profile_update (\<lambda>_. False)))"

definition first_of :: "'a list \<Rightarrow> 'a option" where
  "first_of xs = (case xs of [] \<Rightarrow> None | x # _ \<Rightarrow> Some x)"

text \<open>Once all replicas have reduced the step.\<close>

definition account_reduced_step :: "nat \<Rightarrow> unit ctl" where
  "account_reduced_step n_arrived = block [
     with_state (\<lambda>s. upd_pm (samples_on_the_fly_update
       (\<lambda>n. n - cf_train_batch_per_replica (cfg s) * int n_arrived))),
     with_state (\<lambda>s. py_assert (0 \<le> samples_on_the_fly (pm s)))]"

definition next_step_after_sync :: "bool \<Rightarrow> int \<Rightarrow> int \<Rightarrow> unit ctl" where
  "next_step_after_sync need_sync step tot =
     bnd (get_all_atoms_arrived_replicas PolicySide) (\<lambda>arrived.
     bnd (gets (\<lambda>s. by_start_time PolicySide s arrived)) (\<lambda>sorted_replicas. block [
       for_each sorted_replicas (\<lambda>n. set_status n READY),
       guarded need_sync (trigger_weight_sync (first_of sorted_replicas) step tot),
       try_trigger_data_fetch_and_training False,
       with_state (\<lambda>s. guarded (cf_on_policy (cfg s))
         (upd_pm (on_policy_rollout_completed_update (\<lambda>_. False))))]))"

definition finish_reduced_step :: "string \<Rightarrow> int \<Rightarrow> int \<Rightarrow> bool \<Rightarrow> unit ctl" where
  "finish_reduced_step name step tot profile_finished =
     bnd (get_all_atoms_arrived_replicas PolicySide) (\<lambda>arrived.
     bnd (account_reduced_step (length arrived)) (\<lambda>_.
     bnd (with_state (\<lambda>s. lift_sum (need_sync_weight (cfg s) step tot))) (\<lambda>need_sync. block [
       guarded profile_finished (reset_profile name),
       try_report_reduced_step tot,
       next_step_after_sync need_sync step tot])))"

definition train_ack :: "string \<Rightarrow> int \<Rightarrow> int \<Rightarrow> bool \<Rightarrow> metrics \<Rightarrow> unit ctl" where
  "train_ack name step tot profile_finished report_data = block [
     with_state (\<lambda>s. check GenericException (has_replica PolicySide name s)),
     upd_pm (report_data_list_update (\<lambda>l. Some (or_nil l @ [report_data]))),
     with_state (\<lambda>s.
       if cf_type (cfg s) = ''sft'' then sft_train_ack name report_data
       else block [
         set_status name REDUCED,
         with_state (\<lambda>s. guarded (all_reduced (pm s)) (finish_reduced_step name step tot profile_finished))])]"

section \<open>Dispatching a step\<close>

lemma pm_update_sent [simp]: "pm_update f (sent ms s) = sent ms (pm_update f s)"
  by (cases s) (simp add: sent_def)

lemma pm_update_next_uuid [simp]: "pm_update f (next_uuid s) = next_uuid (pm_update f s)"
  by (cases s) (simp add: next_uuid_def)

lemma bnd_ret [simp]: "bnd m ret = m" "bnd m' (\<lambda>_. ret ()) = m'"
  by (auto simp: bnd_def ret_def split: outcome.splits)

lemma next_uuid_sent [simp]: "next_uuid (sent ms s) = sent ms (next_uuid s)"
  by (cases s) (simp add: next_uuid_def sent_def)

lemma pm_update_pm_update [simp]: "pm_update f (pm_update g s) = pm_update (f \<circ> g) s"
  by (cases s) simp

definition receives :: "world \<Rightarrow> string \<Rightarrow> bool" where
  "receives s n \<longleftrightarrow> (\<exists>r. dict_get (policy_replicas (pm s)) n = Some r \<and> r_role r = POLICY \<and> all_atoms_arrived r = Inr True)"

lemma put_rollout_up:
  "receives s n \<Longrightarrow> redis_up s \<Longrightarrow> replica_put_rollout r n s = Ok () (sent [(n @ ''_rollout'', RolloutMsg r)] s)"
  by (auto simp: receives_def replica_put_rollout_def deref_def dict_item_def bnd_def publish_rollout_up)

definition rollout_messages :: "string list \<Rightarrow> rollout list \<Rightarrow> (string \<times> message) list" where
  "rollout_messages ns rs = map2 (\<lambda>n r. (n @ ''_rollout'', RolloutMsg r)) ns rs"

lemma collect_dispatch_next:
  assumes "\<forall>n \<in> set ns. receives s n" "redis_up s" "length ns \<le> length (rollout_buffer (pm s))"
  shows "collect ns dispatch_next s = Ok (take (length ns) (rollout_buffer (pm s)))
    (sent (rollout_messages ns (rollout_buffer (pm s)))
       (pm_update (rollout_buffer_update (\<lambda>_. drop (length ns) (rollout_buffer (pm s)))) s))"
  using assms
proof (induction ns arbitrary: s)
  case Nil
  then show ?case by (cases s; cases "pm s") (simp add: rollout_messages_def)
next
  case (Cons n ns)
  obtain r rs where buf: "rollout_buffer (pm s) = r # rs" using Cons.prems(3) by (cases "rollout_buffer (pm s)") auto
  let ?t = "pm_update (rollout_buffer_update (\<lambda>_. rs)) s"
  have up: "redis_up ?t" using Cons.prems(2) by (simp add: redis_up_def)
  have rec: "receives (sent ms ?t) m = receives s m" for ms m by (simp add: receives_def)
  have "dispatch_next n s = Ok r (sent [(n @ ''_rollout'', RolloutMsg r)] ?t)"
    using put_rollout_up [of ?t n r] up Cons.prems(1) rec [of "[]" n]
    by (simp add: dispatch_next_def buffer_get_def buf upd_pm_def bnd_def)
  moreover have "collect ns dispatch_next (sent [(n @ ''_rollout'', RolloutMsg r)] ?t)
      = Ok (take (length ns) rs) (sent ([(n @ ''_rollout'', RolloutMsg r)] @ rollout_messages ns rs)
          (pm_update (rollout_buffer_update (\<lambda>_. drop (length ns) rs)) s))"
    using Cons.IH [of "sent [(n @ ''_rollout'', RolloutMsg r)] ?t"] Cons.prems up rec buf
    by (simp add: comp_def)
  ultimately show ?case by (simp add: buf rollout_messages_def)
qed

definition data_fetch_for :: "world \<Rightarrow> string \<Rightarrow> int \<Rightarrow> bool \<Rightarrow> string \<Rightarrow> command" where
  "data_fetch_for s u items_count do_save n =
     (let p = (case dict_get (policy_replicas (pm s)) n of None \<Rightarrow> default_profiler | Some r \<Rightarrow> r_profiler r) in
      DataFetch u n items_count (Some (current_step (pm s))) (Some (total_steps (pm s))) (remain_samples_num (pm s)) do_save
       (Some (sp_do_profile p)) (Some (sp_active_steps p)) (Some (sp_rank_filter p))
       (Some (sp_record_shape p)) (Some (sp_profile_memory p)) (Some (sp_with_stack p)) (Some (sp_with_modules p)))"

definition uuids_from :: "world \<Rightarrow> nat \<Rightarrow> string list" where
  "uuids_from s k = map (\<lambda>i. ev_uuid (ev s) (uuid_counter s + i)) [0..<k]"

lemma uuids_from_Suc: "uuids_from s (Suc k) = ev_uuid (ev s) (uuid_counter s) # uuids_from (next_uuid s) k"
  by (simp add: uuids_from_def map_upt_Suc del: upt_Suc)

definition fetch_messages :: "world \<Rightarrow> int \<Rightarrow> bool \<Rightarrow> string list \<Rightarrow> (string \<times> message) list" where
  "fetch_messages s items_count do_save ns =
     map2 (\<lambda>u n. (n @ ''_command'', CommandMsg (data_fetch_for s u items_count do_save n))) (uuids_from s (length ns)) ns"

definition advance_uuids :: "nat \<Rightarrow> world \<Rightarrow> world" where
  "advance_uuids k = uuid_counter_update (\<lambda>n. n + k)"

lemma advance_uuids_simps [simp]:
  "advance_uuids 0 s = s" "advance_uuids k (next_uuid s) = advance_uuids (Suc k) s"
  "redis_log (advance_uuids k s) = redis_log s" "pm (advance_uuids k s) = pm s" "fetcher (advance_uuids k s) = fetcher s"
  "cfg (advance_uuids k s) = cfg s" "rm (advance_uuids k s) = rm s" "ev (advance_uuids k s) = ev s"
  by (cases s; simp add: advance_uuids_def next_uuid_def)+

lemma advance_uuids_commute [simp]:
  "advance_uuids k (sent ms s) = sent ms (advance_uuids k s)"
  "advance_uuids k (pm_update f s) = pm_update f (advance_uuids k s)"
  by (cases s; simp add: advance_uuids_def sent_def)+

lemma advance_step:
  "sent ms (advance_uuids k (pm_update (status_update f) (sent [m] (next_uuid (pm_update (status_update g) s)))))
   = sent (m # ms) (advance_uuids (Suc k) (pm_update (status_update (\<lambda>d. f (g d))) s))"
  by (cases s; cases "pm s") (simp add: sent_def next_uuid_def advance_uuids_def)

lemma for_each_fetch_and_run:
  assumes "\<forall>n \<in> set ns. dict_get (policy_replicas (pm s)) n \<noteq> None \<and> dict_get (status (pm s)) n \<noteq> None" "redis_up s"
  shows "for_each ns (fetch_and_run items_count do_save) s = Ok () (sent (fetch_messages s items_count do_save ns)
     (advance_uuids (length ns) (pm_update (status_update (fold (\<lambda>n. dict_set n RUNNING) ns)) s)))"
  using assms
proof (induction ns arbitrary: s)
  case Nil
  then show ?case by (cases s; cases "pm s") (simp add: fetch_messages_def advance_uuids_def uuids_from_def)
next
  case (Cons n ns)
  obtain r where r: "dict_get (policy_replicas (pm s)) n = Some r" using Cons.prems(1) by auto
  let ?u = "ev_uuid (ev s) (uuid_counter s)"
  let ?m = "(n @ ''_command'', CommandMsg (data_fetch_for s ?u items_count do_save n))"
  let ?t = "next_uuid (pm_update (status_update (dict_set n RUNNING)) s)"
  have up: "redis_up ?t" using Cons.prems(2) by (simp add: redis_up_def)
  have "data_fetch_trigger n items_count (Some (current_step (pm s))) (Some (total_steps (pm s)))
      (remain_samples_num (pm s)) do_save s = Ok () (sent [?m] (next_uuid s))"
    using Cons.prems(2) by (simp add: data_fetch_trigger_def deref_def dict_item_def r bnd_def fresh_uuid_run Let_def
        publish_command_up data_fetch_for_def)
  moreover have "set_status n RUNNING (sent [?m] (next_uuid s)) = Ok () (sent [?m] ?t)"
    using Cons.prems(1) by (subst set_status_run) simp_all
  ultimately have first: "fetch_and_run items_count do_save n s = Ok () (sent [?m] ?t)"
    by (simp add: fetch_and_run_def)
  have msgs: "fetch_messages (sent [?m] ?t) items_count do_save ns = fetch_messages (next_uuid s) items_count do_save ns"
    by (simp add: fetch_messages_def data_fetch_for_def uuids_from_def next_uuid_def sent_def)
  have split: "fetch_messages s items_count do_save (n # ns) = ?m # fetch_messages (next_uuid s) items_count do_save ns"
    by (simp add: fetch_messages_def uuids_from_Suc data_fetch_for_def)
  have "\<forall>m \<in> set ns. dict_get (policy_replicas (pm (sent [?m] ?t))) m \<noteq> None \<and> dict_get (status (pm (sent [?m] ?t))) m \<noteq> None"
    using Cons.prems(1) by (simp add: dict_simps)
  from Cons.IH [OF this] up have rest: "for_each ns (fetch_and_run items_count do_save) (sent [?m] ?t)
      = Ok () (sent (fetch_messages (sent [?m] ?t) items_count do_save ns)
          (advance_uuids (length ns) (pm_update (status_update (fold (\<lambda>n. dict_set n RUNNING) ns)) (sent [?m] ?t))))"
    by simp
  have "fold (\<lambda>n. dict_set n RUNNING) (n # ns) = (\<lambda>d. fold (\<lambda>n. dict_set n RUNNING) ns (dict_set n RUNNING d))"
    by (rule ext) simp
  moreover have "for_each (n # ns) (fetch_and_run items_count do_save) s
      = for_each ns (fetch_and_run items_count do_save) (sent [?m] ?t)"
    by (simp add: first)
  ultimately show ?case unfolding rest msgs split advance_step by (simp only: list.size add_Suc_right add_0_right)
qed

text \<open>Everything but the reported metrics.\<close>

definition unreported :: "world \<Rightarrow> world" where
  "unreported = pm_update (train_report_data_update (\<lambda>_. []))"

lemma unreported_fields [simp]:
  "redis_log (unreported s) = redis_log s" "current_step (pm (unreported s)) = current_step (pm s)"
  "remain_samples_num (pm (unreported s)) = remain_samples_num (pm s)" "status (pm (unreported s)) = status (pm s)"
  "rollout_buffer (pm (unreported s)) = rollout_buffer (pm s)"
  "policy_replicas (pm (unreported s)) = policy_replicas (pm s)"
  by (simp_all add: unreported_def)

lemma report_step_keeps: "keeps unreported (report_step rs)"
  unfolding report_step_def
  by (intro frame) (auto simp: upd_pm_def keeps_modify unreported_def)

text \<open>The state once the counters of a new step are set.\<close>

definition counted :: "int \<Rightarrow> world \<Rightarrow> world" where
  "counted required = pm_update (\<lambda>p. current_step_update (\<lambda>c. c + 1) (remain_samples_num_update (\<lambda>n. n - required) p))"

lemma counted_run:
  "start_step b k ns s = bnd activate_validation_if_due (\<lambda>_.
     bnd (dispatch_rollouts b ns) (\<lambda>rs.
     bnd (with_state (\<lambda>s. lift_sum (check_checkpoint_saving k (cfg s) (pm s)))) (\<lambda>do_save.
     block [for_each ns (fetch_and_run b do_save), report_step rs]))) (counted k s)"
  by (simp add: start_step_def upd_pm_def counted_def comp_def)

lemma activate_validation_run:
  assumes "validation_due (cfg s) (pm s) = Inr due" "due \<longrightarrow> ev_val_batches (ev s) \<noteq> None"
  shows "\<exists>g. activate_validation_if_due s = Ok () (fetcher_update g s)"
proof -
  have same: "\<exists>g. s = fetcher_update g s" by (intro exI [of _ "\<lambda>f. f"]) simp
  with assms show ?thesis
    by (cases due; cases "dict_get (fe_val_iters (fetcher s)) (current_step (pm s))"; cases "ev_val_batches (ev s)")
      (auto simp: activate_validation_if_due_def validation_activate_dataloader_def upd_fetcher_def)
qed

lemma length_interleave: "length (interleave b ns) = nat b * length ns"
  by (simp add: interleave_def length_concat sum_list_replicate)

lemma set_interleave: "set (interleave b ns) \<subseteq> set ns"
  by (auto simp: interleave_def)

definition dispatched :: "int \<Rightarrow> bool \<Rightarrow> string list \<Rightarrow> world \<Rightarrow> world" where
  "dispatched b do_save ns s =
     (let w = pm_update (rollout_buffer_update (drop (nat b * length ns))) s in
      sent (rollout_messages (interleave b ns) (rollout_buffer (pm s)) @ fetch_messages w b do_save ns)
        (advance_uuids (length ns) (pm_update (status_update (fold (\<lambda>n. dict_set n RUNNING) ns)) w)))"

lemma arrived_receives:
  "policy_inv s \<Longrightarrow> n \<in> set (arrived_list PolicySide s) \<Longrightarrow> receives s n \<and> dict_get (status (pm s)) n \<noteq> None"
  using policy_inv_arrived [of s n] by (auto simp: receives_def)

lemma dispatch_step_run:
  assumes ready: "\<forall>n \<in> set ns. receives s n \<and> dict_get (status (pm s)) n \<noteq> None" and up: "redis_up s"
    and mode: "cf_mode (cfg s) \<noteq> ''colocated''" "\<not> cf_data_dispatch_as_rank_in_mesh (cfg s)"
    and enough: "nat b * length ns \<le> length (rollout_buffer (pm s))"
    and save: "check_checkpoint_saving required (cfg s) (pm s) = Inr do_save"
  shows "bnd (dispatch_rollouts b ns) (\<lambda>rs.
     bnd (with_state (\<lambda>s. lift_sum (check_checkpoint_saving required (cfg s) (pm s)))) (\<lambda>do_save.
     block [for_each ns (fetch_and_run b do_save), report_step rs])) s
   = report_step (take (nat b * length ns) (rollout_buffer (pm s))) (dispatched b do_save ns s)"
proof -
  let ?w = "pm_update (rollout_buffer_update (drop (nat b * length ns))) s"
  let ?ms = "rollout_messages (interleave b ns) (rollout_buffer (pm s))"
  have buf: "pm_update (rollout_buffer_update (\<lambda>_. drop k (rollout_buffer (pm s)))) s
      = pm_update (rollout_buffer_update (drop k)) s" for k
    by (cases s; cases "pm s") simp
  have "collect (interleave b ns) dispatch_next s
      = Ok (take (nat b * length ns) (rollout_buffer (pm s))) (sent ?ms ?w)"
    using collect_dispatch_next [of "interleave b ns" s] ready up enough set_interleave [of b ns]
    unfolding length_interleave buf by blast
  then have first: "dispatch_rollouts b ns s = Ok (take (nat b * length ns) (rollout_buffer (pm s))) (sent ?ms ?w)"
    by (simp add: dispatch_rollouts_def mode)
  have "check_checkpoint_saving required (cfg s) (rollout_buffer_update h (pm s))
      = check_checkpoint_saving required (cfg s) (pm s)" for h
    by (simp add: check_checkpoint_saving_def)
  then have chk: "check_checkpoint_saving required (cfg s) (rollout_buffer_update h (pm s)) = Inr do_save" for h
    using save by simp
  have "\<forall>n \<in> set ns. dict_get (policy_replicas (pm (sent ?ms ?w))) n \<noteq> None \<and> dict_get (status (pm (sent ?ms ?w))) n \<noteq> None"
    using ready by (auto simp: receives_def)
  moreover have "redis_up (sent ?ms ?w)" using up by (simp add: redis_up_def)
  ultimately have "for_each ns (fetch_and_run b do_save) (sent ?ms ?w)
      = Ok () (sent (fetch_messages (sent ?ms ?w) b do_save ns)
          (advance_uuids (length ns) (pm_update (status_update (fold (\<lambda>n. dict_set n RUNNING) ns)) (sent ?ms ?w))))"
    by (rule for_each_fetch_and_run)
  moreover have "fetch_messages (sent ?ms ?w) b do_save ns = fetch_messages ?w b do_save ns"
    by (simp add: fetch_messages_def data_fetch_for_def uuids_from_def)
  ultimately have "for_each ns (fetch_and_run b do_save) (sent ?ms ?w) = Ok () (dispatched b do_save ns s)"
    unfolding dispatched_def Let_def by (simp del: pm_update_pm_update)
  then show ?thesis by (simp add: first chk del: pm_update_pm_update)
qed

text \<open>C1: when nothing holds a step back - no validation is running, at least one policy replica has
  arrived, training has not finished, every status is \<open>READY\<close> or \<open>REDUCED\<close> and the buffer holds a
  batch for each of the \<open>n\<close> replicas - the manager starts the next step: it counts the step and the
  samples, takes exactly the first \<open>n * b\<close> rollouts off the buffer, sends them to the replicas in
  rounds, follows with one \<open>DATA_FETCH\<close> command for each replica, and marks every arrived replica,
  and only those, \<open>RUNNING\<close>. What was dispatched stays so even if computing the report raises.\<close>

theorem step_dispatched:
  assumes inv: "policy_inv s" and up: "redis_up s"
    and idle: "fe_activated_val_iter (fetcher s) = None" "\<not> training_finished (pm s)" "all_ready_or_reduced (pm s)"
    and ns: "ns = arrived_list PolicySide s" "ns \<noteq> []"
    and mode: "cf_mode (cfg s) \<noteq> ''colocated''" "\<not> cf_data_dispatch_as_rank_in_mesh (cfg s)"
    and b: "b = cf_train_batch_per_replica (cfg s)" "0 \<le> b"
    and enough: "nat b * length ns \<le> length (rollout_buffer (pm s))"
    and started: "s1 = counted (b * int (length ns)) s"
    and due: "validation_due (cfg s) (pm s1) = Inr due" "due \<longrightarrow> ev_val_batches (ev s) \<noteq> None"
    and save: "check_checkpoint_saving (b * int (length ns)) (cfg s) (pm s1) = Inr do_save"
    and s': "s' = final (try_trigger_data_fetch_and_training False s)"
  shows "current_step (pm s') = current_step (pm s) + 1
    \<and> remain_samples_num (pm s') = remain_samples_num (pm s) - b * int (length ns)
    \<and> rollout_buffer (pm s') = drop (nat b * length ns) (rollout_buffer (pm s))
    \<and> redis_log s' = redis_log s @ rollout_messages (interleave b ns) (rollout_buffer (pm s))
         @ fetch_messages s1 b do_save ns
    \<and> (\<forall>n. dict_get (status (pm s')) n = (if n \<in> set ns then Some RUNNING else dict_get (status (pm s)) n))
    \<and> policy_replicas (pm s') = policy_replicas (pm s)"
proof -
  have ok: "replicas_ok (policy_replicas (pm s))" using inv by (simp add: policy_inv_def)
  have arr: "get_all_atoms_arrived_replicas PolicySide s = Ok ns s"
    using get_all_atoms_arrived_run [of PolicySide s] ok ns(1) by simp
  have names: "arrived_names (policy_replicas (pm s)) = Inr ns"
    using arrived_names_ok [OF ok] by (simp add: ns(1) arrived_list_def)
  have "b * int (length ns) \<le> int (length (rollout_buffer (pm s)))"
    using enough b(2) by (metis int_nat_eq of_nat_le_iff of_nat_mult)
  then have suff: "rollouts_enough_for_one_step s = Inr True"
    by (simp add: rollouts_enough_for_one_step_def total_pending_rollouts_def names mode b(1))
  obtain g where act: "activate_validation_if_due s1 = Ok () (fetcher_update g s1)"
    using activate_validation_run [of s1 due] due by (auto simp: started counted_def)
  let ?s2 = "fetcher_update g s1"
  have ready: "\<forall>n \<in> set ns. receives ?s2 n \<and> dict_get (status (pm ?s2)) n \<noteq> None"
    using arrived_receives [OF inv] by (simp add: ns(1) started counted_def receives_def)
  have "start_step b (b * int (length ns)) ns s
      = report_step (take (nat b * length ns) (rollout_buffer (pm ?s2))) (dispatched b do_save ns ?s2)"
    unfolding counted_run started [symmetric] bnd_Ok [of activate_validation_if_due s1, OF act]
    using up mode enough save by (intro dispatch_step_run ready) (simp_all add: started counted_def redis_up_def)
  moreover have "try_trigger_data_fetch_and_training False s = start_step b (b * int (length ns)) ns s"
    using idle arr ns(2) suff by (simp add: try_trigger_data_fetch_and_training_def b(1) Let_def)
  ultimately have "unreported s' = unreported (dispatched b do_save ns ?s2)"
    using keepsD [OF report_step_keeps] s' by simp
  then have "redis_log s' = redis_log (dispatched b do_save ns ?s2)"
    "current_step (pm s') = current_step (pm (dispatched b do_save ns ?s2))"
    "remain_samples_num (pm s') = remain_samples_num (pm (dispatched b do_save ns ?s2))"
    "rollout_buffer (pm s') = rollout_buffer (pm (dispatched b do_save ns ?s2))"
    "status (pm s') = status (pm (dispatched b do_save ns ?s2))"
    "policy_replicas (pm s') = policy_replicas (pm (dispatched b do_save ns ?s2))"
    by (metis unreported_fields)+
  moreover have "fetch_messages (pm_update (rollout_buffer_update h) ?s2) b do_save ns = fetch_messages s1 b do_save ns" for h
    by (simp add: fetch_messages_def data_fetch_for_def uuids_from_def started counted_def)
  ultimately show ?thesis
    by (simp add: dispatched_def Let_def started counted_def pydict.lookup_fold_store)
qed

lemma sample_validation: "validation_due sample_config p = Inr False"
  by (simp add: validation_due_def sample_config_def)

lemma sample_step_ready:
  "fe_activated_val_iter (fetcher sample_world) = None" "\<not> training_finished (pm sample_world)"
  "all_ready_or_reduced (pm sample_world)" "cf_mode (cfg sample_world) \<noteq> ''colocated''"
  "\<not> cf_data_dispatch_as_rank_in_mesh (cfg sample_world)" "cf_train_batch_per_replica (cfg sample_world) = 2"
  "rollout_buffer (pm sample_world) = map sample_rollout [0, 1, 2, 3, 4]" "current_step (pm sample_world) = 2"
  "remain_samples_num (pm sample_world) = 40" "redis_log sample_world = []" "cfg sample_world = sample_config"
  "total_steps (pm sample_world) = 12" "ev sample_world = sample_env"
  by (simp_all add: sample_world_def sample_config_def training_finished_def all_ready_or_reduced_def
      all_with_status_def dict_values_def)

theorem step_dispatched_witness:
  "let s' = final (try_trigger_data_fetch_and_training False sample_world) in
   current_step (pm s') = 3 \<and> remain_samples_num (pm s') = 36 \<and> rollout_buffer (pm s') = [sample_rollout 4]
   \<and> dict_get (status (pm s')) ''p0'' = Some RUNNING \<and> dict_get (status (pm s')) ''p1'' = Some RUNNING
   \<and> take 4 (redis_log s') = [(''p1_rollout'', RolloutMsg (sample_rollout 0)), (''p0_rollout'', RolloutMsg (sample_rollout 1)),
        (''p1_rollout'', RolloutMsg (sample_rollout 2)), (''p0_rollout'', RolloutMsg (sample_rollout 3))]"
proof -
  let ?ns = "[''p1'', ''p0'']"
  have "check_checkpoint_saving (2 * int (length ?ns)) (cfg sample_world) (pm (counted (2 * int (length ?ns)) sample_world)) = Inr False"
    by (simp add: check_checkpoint_saving_def sample_step_ready sample_config_def counted_def)
  moreover have "validation_due (cfg sample_world) (pm (counted (2 * int (length ?ns)) sample_world)) = Inr False"
    by (simp only: sample_step_ready sample_validation)
  ultimately show ?thesis
    using step_dispatched [OF sample_policy_inv sample_redis_up sample_step_ready(1-3), of ?ns 2
        "counted (2 * int (length ?ns)) sample_world" False False]
    by (simp add: sample_arrived_list sample_step_ready sample_step_ready(4-6) [unfolded sample_step_ready(11)]
        Let_def rollout_messages_def interleave_def numeral_2_eq_2)
qed

text \<open>C4: a step is not started, and nothing at all changes, while a validation runs, while no policy
  replica has arrived, once training has finished, while some replica is neither \<open>READY\<close> nor
  \<open>REDUCED\<close>, or while the buffered rollouts are fewer than one batch for each arrived replica.\<close>

theorem step_held_back:
  assumes "replicas_ok (policy_replicas (pm s))"
    and "cf_mode (cfg s) \<noteq> ''colocated''" "\<not> cf_data_dispatch_as_rank_in_mesh (cfg s)"
    and "fe_activated_val_iter (fetcher s) \<noteq> None \<or> arrived_list PolicySide s = [] \<or> training_finished (pm s)
      \<or> (\<exists>n. \<exists>st. dict_get (status (pm s)) n = Some st \<and> st \<noteq> READY \<and> st \<noteq> REDUCED)
      \<or> int (length (rollout_buffer (pm s))) < cf_train_batch_per_replica (cfg s) * int (length (arrived_list PolicySide s))"
  shows "try_trigger_data_fetch_and_training False s = Ok () s"
proof -
  have arr: "get_all_atoms_arrived_replicas PolicySide s = Ok (arrived_list PolicySide s) s"
    using get_all_atoms_arrived_run [of PolicySide s] assms(1) by simp
  have names: "arrived_names (policy_replicas (pm s)) = Inr (arrived_list PolicySide s)"
    using arrived_names_ok [OF assms(1)] by (simp add: arrived_list_def)
  have "\<not> all_ready_or_reduced (pm s)"
    if "dict_get (status (pm s)) n = Some st" "st \<noteq> READY" "st \<noteq> REDUCED" for n st
  proof -
    have "st \<in> set (dict_values (status (pm s)))"
      using that(1) by (force simp: dict_get_def dict_values_def dest: map_of_SomeD)
    then show ?thesis using that(2,3) by (auto simp: all_ready_or_reduced_def all_with_status_def)
  qed
  moreover have "rollouts_enough_for_one_step s = Inr False"
    if "int (length (rollout_buffer (pm s))) < cf_train_batch_per_replica (cfg s) * int (length (arrived_list PolicySide s))"
    using that by (simp add: rollouts_enough_for_one_step_def total_pending_rollouts_def names assms)
  ultimately show ?thesis
    using assms(4) by (auto simp: try_trigger_data_fetch_and_training_def arr Let_def)
qed

definition sample_waiting :: world where
  "sample_waiting = pm_update (rollout_buffer_update (take 3)) sample_world"

theorem step_held_back_witness:
  "try_trigger_data_fetch_and_training False sample_waiting = Ok () sample_waiting"
proof (rule step_held_back)
  show "replicas_ok (policy_replicas (pm sample_waiting))"
    using sample_replicas_ok [of PolicySide] by (simp add: sample_waiting_def)
  have "arrived_list PolicySide sample_waiting = [''p1'', ''p0'']"
    using arrived_list_skeleton [of PolicySide sample_waiting sample_world] sample_arrived_list
    by (simp add: sample_waiting_def)
  then show "fe_activated_val_iter (fetcher sample_waiting) \<noteq> None \<or> arrived_list PolicySide sample_waiting = []
      \<or> training_finished (pm sample_waiting)
      \<or> (\<exists>n. \<exists>st. dict_get (status (pm sample_waiting)) n = Some st \<and> st \<noteq> READY \<and> st \<noteq> REDUCED)
      \<or> int (length (rollout_buffer (pm sample_waiting)))
          < cf_train_batch_per_replica (cfg sample_waiting) * int (length (arrived_list PolicySide sample_waiting))"
    using sample_step_ready by (simp add: sample_waiting_def)
qed (use sample_step_ready in \<open>simp_all add: sample_waiting_def\<close>)

section \<open>Filtering stale rollouts\<close>

definition expected_step :: "world \<Rightarrow> nat \<Rightarrow> int" where
  "expected_step s idx = current_step (pm s) + (int idx + total_pending_rollouts s)
     div (cf_train_batch_per_replica (cfg s) * max (int (length (arrived_list PolicySide s))) 1)"

lemma keep_rollout_run:
  assumes "replicas_ok (policy_replicas (pm s))" "cf_train_batch_per_replica (cfg s) \<noteq> 0"
    and "ro_weight_version r \<le> current_step (pm s)"
  shows "keep_rollout s (i, r) = Inr (expected_step s i - ro_weight_version r \<le> cf_allowed_outdated_steps (cfg s))"
proof -
  have "max (int k) 1 \<noteq> 0" for k by simp
  then show ?thesis using assms arrived_names_ok [OF assms(1)]
    by (simp add: keep_rollout_def estimated_step_def expected_step_def Let_def arrived_list_def del: of_nat_max)
qed

lemma keep_rollout_late:
  "current_step (pm s) < ro_weight_version r \<Longrightarrow> keep_rollout s (i, r) = Inl AssertionError"
  by (simp add: keep_rollout_def)

lemma sum_filter_error:
  "\<forall>x \<in> set xs. p x = Inl e \<or> (\<exists>b. p x = Inr b) \<Longrightarrow> \<exists>x \<in> set xs. p x = Inl e \<Longrightarrow> sum_filter p xs = Inl e"
  by (induction xs) (force split: sum.splits)+

definition fresh_at :: "world \<Rightarrow> nat \<times> rollout \<Rightarrow> bool" where
  "fresh_at s = (\<lambda>(i, r). expected_step s i - ro_weight_version r \<le> cf_allowed_outdated_steps (cfg s))"

lemma filter_run:
  assumes "replicas_ok (policy_replicas (pm s))" "cf_train_batch_per_replica (cfg s) \<noteq> 0"
  shows "sum_filter (keep_rollout s) (enumerate 0 rs) =
     (if \<forall>r \<in> set rs. ro_weight_version r \<le> current_step (pm s) then Inr (filter (fresh_at s) (enumerate 0 rs))
      else Inl AssertionError)"
proof -
  have each: "keep_rollout s x = (if ro_weight_version (snd x) \<le> current_step (pm s) then Inr (fresh_at s x) else Inl AssertionError)" for x
    using keep_rollout_run [OF assms, of "snd x" "fst x"] keep_rollout_late [of s "snd x" "fst x"]
    by (cases x) (auto simp: fresh_at_def)
  have els: "snd ` set (enumerate 0 rs) = set rs" by (metis map_snd_enumerate set_map)
  show ?thesis
  proof (cases "\<forall>r \<in> set rs. ro_weight_version r \<le> current_step (pm s)")
    case True
    then have "sum_filter (keep_rollout s) (enumerate 0 rs) = Inr (filter (fresh_at s) (enumerate 0 rs))"
      by (intro sum_filter_total) (metis each els imageI)
    with True show ?thesis by simp
  next
    case False
    then obtain x where "x \<in> set (enumerate 0 rs)" "\<not> ro_weight_version (snd x) \<le> current_step (pm s)"
      using els by (metis imageE)
    then have "sum_filter (keep_rollout s) (enumerate 0 rs) = Inl AssertionError"
      by (intro sum_filter_error) (auto simp: each)
    with False show ?thesis by simp
  qed
qed

text \<open>When no rollout claims a version later than the current step, filtering keeps exactly those that
  at the step they are expected to be trained in - given their position, what is already pending and
  the number of arrived replicas - are at most the allowed number of steps behind, in their order;
  every other one is counted as \<open>outdated\<close> and taken off the remaining samples, and nothing else
  changes. A rollout of a later version makes it raise \<open>AssertionError\<close> without any change.\<close>

theorem filter_outdated_exact:
  assumes "replicas_ok (policy_replicas (pm s))" "cf_train_batch_per_replica (cfg s) \<noteq> 0"
  shows "filter_outdated_rollouts rollouts s =
     (if \<exists>r \<in> set rollouts. current_step (pm s) < ro_weight_version r then Raise AssertionError s
      else let fresh = (\<lambda>(i, r). expected_step s i - ro_weight_version r \<le> cf_allowed_outdated_steps (cfg s));
          dropped = int (length (filter (\<lambda>x. \<not> fresh x) (enumerate 0 rollouts))) in
      Ok (map snd (filter fresh (enumerate 0 rollouts))) (pm_update (\<lambda>p. p\<lparr>
        remain_samples_num := remain_samples_num p - dropped,
        filter_records := dict_set ''outdated'' (record_count (filter_records p) ''outdated'' + dropped) (filter_records p)\<rparr>) s))"
proof (cases "\<forall>r \<in> set rollouts. ro_weight_version r \<le> current_step (pm s)")
  case True
  have "length (filter (fresh_at s) xs) + length (filter (\<lambda>x. \<not> fresh_at s x) xs) = length xs" for xs
    by (rule sum_length_filter_compl)
  from this [of "enumerate 0 rollouts"]
  have len: "int (length rollouts) - int (length (filter (fresh_at s) (enumerate 0 rollouts)))
      = int (length (filter (\<lambda>x. \<not> fresh_at s x) (enumerate 0 rollouts)))" by simp
  have "\<not> (\<exists>r \<in> set rollouts. current_step (pm s) < ro_weight_version r)" using True by force
  then show ?thesis
    using True filter_run [OF assms, of rollouts] len
    unfolding fresh_at_def [symmetric]
    by (simp add: filter_outdated_rollouts_def upd_pm_def Let_def)
next
  case False
  then have "\<exists>r \<in> set rollouts. current_step (pm s) < ro_weight_version r" by force
  then show ?thesis
    using False filter_run [OF assms, of rollouts] by (simp add: filter_outdated_rollouts_def)
qed

theorem filter_outdated_exact_witness:
  "let late = (sample_rollout 7)\<lparr>ro_weight_version := -9\<rparr> in
   returned (filter_outdated_rollouts [sample_rollout 6, late] sample_world) = Some [sample_rollout 6]"
proof -
  let ?late = "(sample_rollout 7)\<lparr>ro_weight_version := -9\<rparr>"
  have "\<not> (\<exists>r \<in> set [sample_rollout 6, ?late]. current_step (pm sample_world) < ro_weight_version r)"
    by (simp add: sample_step_ready sample_rollout_def)
  moreover have "expected_step sample_world 0 = 3" "expected_step sample_world 1 = 3"
    by (simp_all add: expected_step_def sample_step_ready sample_arrived_list total_pending_rollouts_def sample_config_def)
  moreover have "cf_allowed_outdated_steps (cfg sample_world) = 4" "ro_weight_version (sample_rollout 6) = 0"
    by (simp_all add: sample_step_ready sample_config_def sample_rollout_def)
  moreover have "cf_train_batch_per_replica (cfg sample_world) \<noteq> 0" by (simp add: sample_step_ready(6))
  ultimately show ?thesis
    using filter_outdated_exact [of sample_world "[sample_rollout 6, ?late]"] sample_replicas_ok [of PolicySide]
    by (simp add: Let_def)
qed

section \<open>No rollout is lost or overtaken\<close>

text \<open>All rollouts that went through the buffer: the ones sent, in the order of sending, then the ones
  still waiting.\<close>

definition sent_rollouts :: "(string \<times> message) list \<Rightarrow> rollout list" where
  "sent_rollouts l = List.map_filter (\<lambda>(stream, msg). case msg of RolloutMsg r \<Rightarrow> Some r | _ \<Rightarrow> None) l"

definition history :: "world \<Rightarrow> rollout list" where
  "history s = sent_rollouts (redis_log s) @ rollout_buffer (pm s)"

lemma sent_rollouts_simps [simp]:
  "sent_rollouts [] = []" "sent_rollouts (xs @ ys) = sent_rollouts xs @ sent_rollouts ys"
  "sent_rollouts [(x, RolloutMsg r)] = [r]" "sent_rollouts [(x, CommandMsg c)] = []"
  by (simp_all add: sent_rollouts_def List.map_filter_def)

text \<open>What the dispatch relies on: everything but the buffer, the log and the counters.\<close>

definition dispatch_view :: "world \<Rightarrow> (string, replica) dict \<times> env \<times> config" where
  "dispatch_view s = (policy_replicas (pm s), ev s, cfg s)"

definition kept :: "world \<Rightarrow> rollout list \<times> (string, replica) dict \<times> env \<times> config" where
  "kept s = (history s, dispatch_view s)"

lemma kept_iff: "kept s = kept t \<longleftrightarrow> history s = history t \<and> dispatch_view s = dispatch_view t"
  by (auto simp: kept_def)

named_theorems kept_frame \<open>operations that keep the history\<close>

lemma kept_upd_pm [kept_frame]:
  "(\<And>p. policy_replicas (f p) = policy_replicas p) \<Longrightarrow> (\<And>p. rollout_buffer (f p) = rollout_buffer p) \<Longrightarrow>
   keeps kept (upd_pm f)"
  by (simp add: upd_pm_def keeps_modify kept_def history_def dispatch_view_def redis_up_def)

lemma kept_upd_fetcher [kept_frame]: "keeps kept (upd_fetcher f)"
  by (simp add: upd_fetcher_def keeps_modify kept_def history_def dispatch_view_def redis_up_def)

lemma kept_deref [kept_frame]: "keeps kept (deref sd n)"
  unfolding deref_def by (intro frame)

lemma kept_fresh_uuid [kept_frame]: "keeps kept fresh_uuid"
  by (rule keepsI) (simp add: fresh_uuid_run kept_def history_def dispatch_view_def)

lemma kept_publish_command [kept_frame]: "keeps kept (publish_command c n)"
  by (rule keepsI) (simp add: publish_command_def publish_def kept_def history_def dispatch_view_def redis_up_def
      bnd_def)

lemma kept_set_status [kept_frame]: "keeps kept (set_status n st)"
  unfolding set_status_def by (intro frame kept_frame) simp_all

lemma kept_data_fetch [kept_frame]: "keeps kept (data_fetch_trigger n c g t r b)"
  unfolding data_fetch_trigger_def by (intro frame kept_frame)

lemma kept_activate [kept_frame]: "keeps kept activate_validation_if_due"
  unfolding activate_validation_if_due_def validation_activate_dataloader_def by (intro frame kept_frame)

lemma kept_report [kept_frame]: "keeps kept (report_step rs)"
  unfolding report_step_def by (intro frame kept_frame) simp_all

lemma kept_arrived [kept_frame]: "keeps kept (get_all_atoms_arrived_replicas sd)"
  unfolding get_all_atoms_arrived_replicas_def by (intro frame)

lemma dispatch_next_kept:
  "receives s n \<Longrightarrow> redis_up s \<Longrightarrow> kept (final (dispatch_next n s)) = kept s"
proof (cases "rollout_buffer (pm s)")
  case (Cons r rs)
  assume "receives s n" "redis_up s"
  then have "replica_put_rollout r n (pm_update (rollout_buffer_update (\<lambda>_. rs)) s)
      = Ok () (sent [(n @ ''_rollout'', RolloutMsg r)] (pm_update (rollout_buffer_update (\<lambda>_. rs)) s))"
    by (intro put_rollout_up) (auto simp: receives_def redis_up_def)
  then show ?thesis
    using Cons by (simp add: dispatch_next_def buffer_get_def upd_pm_def kept_def history_def dispatch_view_def redis_up_def)
qed (simp add: dispatch_next_def buffer_get_def)

lemma receives_view: "dispatch_view s = dispatch_view t \<Longrightarrow> receives s n = receives t n \<and> redis_up s = redis_up t \<and> cfg s = cfg t"
  by (simp add: dispatch_view_def receives_def redis_up_def)

lemma collect_kept:
  "\<forall>n \<in> set ns. receives s n \<Longrightarrow> redis_up s \<Longrightarrow> kept (final (collect ns dispatch_next s)) = kept s"
proof (induction ns arbitrary: s)
  case (Cons n ns)
  have k: "kept (final (dispatch_next n s)) = kept s" using Cons.prems by (intro dispatch_next_kept) auto
  show ?case
  proof (cases "dispatch_next n s")
    case (Ok r t)
    then have t: "kept t = kept s" using k by simp
    then have "\<forall>n \<in> set ns. receives t n" "redis_up t"
      using Cons.prems receives_view [of t s] by (auto simp: kept_iff)
    from Cons.IH [OF this] show ?thesis using Ok t
      by (cases "collect ns dispatch_next t") simp_all
  qed (use k in simp)
qed simp

lemma start_step_kept:
  assumes "\<forall>n \<in> set ns. receives s n" "redis_up s" "\<not> cf_data_dispatch_as_rank_in_mesh (cfg s)"
  shows "kept (final (start_step b k ns s)) = kept s"
proof -
  define tail where "tail = (\<lambda>rs. bnd (with_state (\<lambda>s. lift_sum (check_checkpoint_saving k (cfg s) (pm s))))
      (\<lambda>do_save. block [for_each ns (fetch_and_run b do_save), report_step rs]))"
  have tail: "keeps kept (tail rs)" for rs
    unfolding tail_def fetch_and_run_def by (intro frame kept_frame)
  have c: "kept (counted k s) = kept s" by (simp add: counted_def kept_def history_def dispatch_view_def redis_up_def)
  have run: "start_step b k ns s = bnd activate_validation_if_due (\<lambda>_. bnd (dispatch_rollouts b ns) tail) (counted k s)"
    by (simp add: counted_run tail_def)
  show ?thesis
  proof (cases "activate_validation_if_due (counted k s)")
    case act: (Ok u t)
    then have t: "kept t = kept s" using keeps_Ok [OF kept_activate act] c by simp
    then have rt: "\<forall>n \<in> set (interleave b ns). receives t n" "redis_up t" "\<not> cf_data_dispatch_as_rank_in_mesh (cfg t)"
      using assms receives_view [of t s] set_interleave [of b ns] by (auto simp: kept_iff)
    have d: "kept (final (dispatch_rollouts b ns t)) = kept t"
      using collect_kept [OF rt(1,2)] rt(3) by (simp add: dispatch_rollouts_def)
    show ?thesis
    proof (cases "dispatch_rollouts b ns t")
      case (Ok rs v)
      then show ?thesis using d t act
        keepsD [OF tail, of rs v] by (simp add: run)
    qed (use d t act run in simp)
  next
    case (Raise e t)
    then show ?thesis using keeps_Raise [OF kept_activate Raise] c run by simp
  qed
qed

text \<open>A registry all of whose arrived replicas can be sent rollouts, as any reachable one is.\<close>

definition dispatchable :: "world \<Rightarrow> bool" where
  "dispatchable s \<longleftrightarrow> replicas_ok (policy_replicas (pm s)) \<and> (\<forall>n \<in> set (arrived_list PolicySide s). receives s n)
     \<and> redis_up s \<and> \<not> cf_data_dispatch_as_rank_in_mesh (cfg s)"

lemma dispatchable_view:
  assumes "dispatch_view s = dispatch_view t"
  shows "dispatchable s = dispatchable t"
proof -
  have reps: "policy_replicas (pm s) = policy_replicas (pm t)" using assms by (simp add: dispatch_view_def)
  then have arr: "arrived_list PolicySide s = arrived_list PolicySide t" by (simp add: arrived_list_def)
  have rec: "receives s = receives t" using receives_view [OF assms] by (intro ext) blast
  show ?thesis unfolding dispatchable_def reps arr rec using receives_view [OF assms] by simp
qed

lemma policy_inv_dispatchable:
  "policy_inv s \<Longrightarrow> redis_up s \<Longrightarrow> \<not> cf_data_dispatch_as_rank_in_mesh (cfg s) \<Longrightarrow> dispatchable s"
  using arrived_receives by (simp add: dispatchable_def policy_inv_def)

lemma bnd_check: "bnd (check e b) f s = (if b then f () s else Raise e s)"
  by simp

lemma try_trigger_kept:
  assumes "dispatchable s"
  shows "kept (final (try_trigger_data_fetch_and_training b s)) = kept s"
proof -
  have arr: "get_all_atoms_arrived_replicas PolicySide s = Ok (arrived_list PolicySide s) s"
    using get_all_atoms_arrived_run [of PolicySide s] assms by (simp add: dispatchable_def)
  have "kept (final (start_step k m (arrived_list PolicySide s) s)) = kept s" for k m
    using assms by (intro start_step_kept) (auto simp: dispatchable_def)
  then show ?thesis
    by (cases "rollouts_enough_for_one_step s")
      (auto simp: try_trigger_data_fetch_and_training_def arr Let_def bnd_check)
qed

definition with_stop :: "config \<Rightarrow> env \<Rightarrow> rollout \<Rightarrow> rollout" where
  "with_stop c e r = (case append_stop_str c e r of Inl err \<Rightarrow> r | Inr r' \<Rightarrow> r')"

lemma put_rollout_history:
  assumes "dispatchable s"
  shows "(\<exists>e. put_rollout r s = Raise e s)
    \<or> history (final (put_rollout r s)) = history s @ [with_stop (cfg s) (ev s) r]
      \<and> dispatch_view (final (put_rollout r s)) = dispatch_view s"
proof (cases "append_stop_str (cfg s) (ev s) r")
  case (Inl e)
  then show ?thesis by (simp add: put_rollout_def)
next
  case (Inr r')
  let ?t = "pm_update (rollout_buffer_update (\<lambda>q. q @ [r'])) s"
  have t: "history ?t = history s @ [r']" "dispatch_view ?t = dispatch_view s"
    by (simp_all add: history_def dispatch_view_def)
  then have "kept (final (try_trigger_data_fetch_and_training False ?t)) = kept ?t"
    using assms dispatchable_view [of ?t s] by (intro try_trigger_kept) simp
  then show ?thesis
    using Inr t assms by (simp add: put_rollout_def buffer_put_def upd_pm_def dispatchable_def with_stop_def kept_iff)
qed

lemma put_rollouts_loop_history:
  assumes "dispatchable s"
  shows "\<exists>j \<le> length rs. history (final (put_rollouts_loop rs k n s)) = history s @ map (with_stop (cfg s) (ev s)) (take j rs)
    \<and> (returned (put_rollouts_loop rs k n s) \<noteq> None \<and> \<not> cf_on_policy (cfg s) \<longrightarrow> j = length rs)"
  using assms
proof (induction rs arbitrary: k n s)
  case Nil
  then show ?case by simp
next
  case (Cons r rs)
  note put = put_rollout_history [OF Cons.prems, of r]
  show ?case
  proof (cases "completion_tokens s r")
    case (Inl e)
    then show ?thesis by (intro exI [of _ 0]) simp
  next
    case tok: (Inr c)
    show ?thesis
    proof (cases "put_rollout r s")
      case (Raise e t)
      with put tok show ?thesis
        by (elim disjE) (auto intro: exI [of _ 0] exI [of _ 1])
    next
      case (Ok u t)
      with put have h: "history t = history s @ [with_stop (cfg s) (ev s) r]" and v: "dispatch_view t = dispatch_view s" by auto
      then have same: "cfg t = cfg s" "ev t = ev s" by (simp_all add: dispatch_view_def)
      show ?thesis
      proof (cases "cf_on_policy (cfg t) \<and> total_pending_rollouts t = 0")
        case True
        then show ?thesis using Ok tok h same
          by (intro exI [of _ 1]) (simp add: history_def upd_pm_def)
      next
        case False
        have "dispatchable t" using Cons.prems dispatchable_view [OF v] by simp
        from Cons.IH [OF this, of "k + c" "n + 1"] obtain j where "j \<le> length rs"
          "history (final (put_rollouts_loop rs (k + c) (n + 1) t)) = history t @ map (with_stop (cfg t) (ev t)) (take j rs)"
          "returned (put_rollouts_loop rs (k + c) (n + 1) t) \<noteq> None \<and> \<not> cf_on_policy (cfg t) \<longrightarrow> j = length rs" by blast
        then show ?thesis using Ok tok False h same by (intro exI [of _ "Suc j"]) auto
      qed
    qed
  qed
qed

text \<open>C3: rollouts are delivered in order, none lost and none twice: after putting rollouts, the ones sent
  to replicas followed by the ones still in the buffer are what they were before, followed by the
  rollouts put, in order, each with the stop string appended where configured. If putting raises
  half-way this holds for the ones put until then; when it returns and training is not on-policy,
  all have been put.\<close>

theorem rollouts_delivered_in_order:
  assumes "policy_inv s" "redis_up s" "\<not> cf_data_dispatch_as_rank_in_mesh (cfg s)"
    and "\<not> (cf_on_policy (cfg s) \<and> on_policy_rollout_completed (pm s))"
    and "s' = final (put_rollouts rs s)"
  shows "\<exists>j \<le> length rs.
    sent_rollouts (redis_log s') @ rollout_buffer (pm s')
      = sent_rollouts (redis_log s) @ rollout_buffer (pm s) @ map (with_stop (cfg s) (ev s)) (take j rs)
    \<and> (returned (put_rollouts rs s) \<noteq> None \<and> \<not> cf_on_policy (cfg s) \<longrightarrow> j = length rs)"
proof -
  have "put_rollouts rs s = put_rollouts_loop rs 0 0 s" using assms(4) by (auto simp: put_rollouts_def)
  then show ?thesis
    using put_rollouts_loop_history [OF policy_inv_dispatchable [OF assms(1-3)], of rs 0 0] assms(5)
    by (simp add: history_def)
qed

theorem rollouts_delivered_in_order_witness:
  "\<exists>j \<le> 2. let s' = final (put_rollouts [sample_rollout 5, sample_rollout 6] sample_world) in
    sent_rollouts (redis_log s') @ rollout_buffer (pm s')
      = map sample_rollout [0, 1, 2, 3, 4] @ map (with_stop sample_config sample_env) (take j [sample_rollout 5, sample_rollout 6])"
proof -
  have "\<not> (cf_on_policy (cfg sample_world) \<and> on_policy_rollout_completed (pm sample_world))"
    by (simp add: sample_world_def)
  from rollouts_delivered_in_order [OF sample_policy_inv sample_redis_up sample_step_ready(5) this refl,
      of "[sample_rollout 5, sample_rollout 6]"]
  obtain j where "j \<le> length [sample_rollout 5, sample_rollout 6]"
    "let s' = final (put_rollouts [sample_rollout 5, sample_rollout 6] sample_world) in
      sent_rollouts (redis_log s') @ rollout_buffer (pm s')
      = sent_rollouts (redis_log sample_world) @ rollout_buffer (pm sample_world)
        @ map (with_stop (cfg sample_world) (ev sample_world)) (take j [sample_rollout 5, sample_rollout 6])"
    unfolding Let_def by blast
  then show ?thesis unfolding sample_step_ready by (intro exI [of _ j]) (simp add: Let_def)
qed

end
