(* ===== verification/Controller_Model.thy ===== *)
theory Controller_Model
  imports Training_Flow
begin

text \<open>
  \<open>Controller\<close> of \<open>cosmos_rl/dispatcher/controller.py\<close> and the request handlers of
  \<open>cosmos_rl/dispatcher/run_web_panel.py\<close> that drive it: handing out prompts tagged with the weight
  version they are for, the life cycle of replicas, NCCL errors, incoming rollouts and the end of
  the rollouts.
\<close>

section \<open>Handing out prompts\<close>

definition n_policies :: "world \<Rightarrow> int" where
  "n_policies s = int (length (policy_replicas (pm s)))"

definition rollouts_per_global_batch :: "world \<Rightarrow> int" where
  "rollouts_per_global_batch s = cf_train_batch_per_replica (cfg s) * n_policies s"

definition global_batch_size :: "world \<Rightarrow> int" where
  "global_batch_size s = ceil_div (rollouts_per_global_batch s) (cf_n_generation (cfg s))"

text \<open>\<open>rollouts_per_global_batch or 1\<close>.\<close>

definition per_batch :: "world \<Rightarrow> int" where
  "per_batch s = (if rollouts_per_global_batch s = 0 then 1 else rollouts_per_global_batch s)"

definition weight_version_for_current_batch :: "world \<Rightarrow> int" where
  "weight_version_for_current_batch s = current_step (pm s) + total_pending_rollouts s div per_batch s"

definition throttle :: "world \<Rightarrow> int \<Rightarrow> int" where
  "throttle s n =
     (let c = cfg s; pending = samples_on_the_fly (pm s); size = per_batch s;
          n = (if (cf_allowed_outdated_steps c + 1) * size \<le> pending \<and> cf_variant c \<noteq> ''dapo''
               then min n (cf_outdated_rollout_fetch_batch_size c) else n) in
      if cf_variant c = ''dapo'' \<and> 0 < cf_max_retry_for_on_policy c
      then let delta = total_pending_rollouts s div size;
               allowed_unfinished = cf_allowed_outdated_steps c - delta;
               unfinished = max (pending - total_pending_rollouts s) 0 in
           if (1 + allowed_unfinished) * cf_max_retry_for_on_policy c * size \<le> unfinished
           then min n (cf_outdated_rollout_fetch_batch_size c) else n
      else n)"

text \<open>The \<open>while\<close> loop that looks for a version with room; every version it passes is a key of the
  dictionary, so one more round than there are keys is enough.\<close>

fun next_version :: "nat \<Rightarrow> int \<Rightarrow> (int, int) dict \<Rightarrow> int \<Rightarrow> error + int" where
  "next_version 0 gbs d v = Inl OutOfFuel"
| "next_version (Suc fuel) gbs d v =
     (case dict_get d v of None \<Rightarrow> Inr v
      | Some c \<Rightarrow> if c < gbs then Inr v
          else ensure AssertionError (c = gbs) (next_version fuel gbs d (v + 1)))"

definition version_count :: "(int, int) dict \<Rightarrow> int \<Rightarrow> int" where
  "version_count d v = (case dict_get d v of None \<Rightarrow> 0 | Some c \<Rightarrow> c)"

definition count_version :: "int \<Rightarrow> (int, int) dict \<Rightarrow> (int, int) dict" where
  "count_version v d = dict_set v (version_count d v + 1) d"

fun tag_payloads :: "int \<Rightarrow> payload list \<Rightarrow> int \<Rightarrow> ((int, int) dict, payload list) exec" where
  "tag_payloads gbs [] v = ret []"
| "tag_payloads gbs (p # ps) v =
     bnd (with_state (\<lambda>d. lift_sum (next_version (Suc (length d)) gbs d v))) (\<lambda>v.
     bnd (modify (count_version v)) (\<lambda>_.
     bnd (tag_payloads gbs ps v) (\<lambda>rest. ret (p\<lparr>pl_weight_version := v\<rparr> # rest))))"

definition set_versions :: "(int, int) dict \<Rightarrow> unit ctl" where
  "set_versions d = modify (weight_version_to_prompt_num_update (\<lambda>_. d))"

definition tag_by_version :: "int \<Rightarrow> int \<Rightarrow> payload list \<Rightarrow> payload list ctl" where
  "tag_by_version gbs v payloads = with_state (\<lambda>s.
     case tag_payloads gbs payloads v (weight_version_to_prompt_num s) of
       Ok tagged d \<Rightarrow> bnd (set_versions d) (\<lambda>_. ret tagged)
     | Raise e d \<Rightarrow> bnd (set_versions d) (\<lambda>_. raise e))"

definition tag_dapo :: "int \<Rightarrow> payload list \<Rightarrow> payload list ctl" where
  "tag_dapo v payloads =
     bnd (modify (weight_version_to_prompt_num_update (\<lambda>d.
            dict_set v (version_count d v + int (length payloads)) d))) (\<lambda>_.
     ret (map (pl_weight_version_update (\<lambda>_. v)) payloads))"

definition check_retries :: "int \<Rightarrow> int \<Rightarrow> unit ctl" where
  "check_retries gbs v = with_state (\<lambda>s.
     guarded (0 < cf_max_retry_for_on_policy (cfg s))
       (bnd (lift_sum (dict_item (weight_version_to_prompt_num s) v)) (\<lambda>c.
        bnd (check ZeroDivisionError (gbs \<noteq> 0)) (\<lambda>_.
        check RuntimeError (ceil_div c gbs \<le> cf_max_retry_for_on_policy (cfg s))))))"

definition sft_payload :: "world \<Rightarrow> payload \<Rightarrow> payload" where
  "sft_payload s p = p\<lparr>pl_weight_version := current_step (pm s),
     pl_extra_info := Some (dict_set ''remain_samples_num'' (VInt (remain_samples_num (pm s)))
        (dict_set ''epoch'' (VInt (fe_epoch (fetcher s) - 1)) (or_nil (pl_extra_info p))))\<rparr>"

definition controller_get_batched_prompt :: "int \<Rightarrow> int option \<Rightarrow> int option \<Rightarrow> (payload list \<times> bool) ctl" where
  "controller_get_batched_prompt n validation_step rank_in_mesh = with_state (\<lambda>s.
     let is_validation = (validation_step \<noteq> None); is_sft = (cf_type (cfg s) = ''sft'');
         dapo = (cf_variant (cfg s) = ''dapo'');
         version = weight_version_for_current_batch s; gbs = global_batch_size s;
         control = (\<not> is_validation \<and> \<not> is_sft \<and> cf_mode (cfg s) \<noteq> ''colocated'');
         n = (if control then throttle s n else n);
         fetch_version = (if \<not> is_sft \<and> \<not> dapo then Some version else None) in
     bnd (check ZeroDivisionError (cf_n_generation (cfg s) \<noteq> 0)) (\<lambda>_.
     bnd (fetcher_get_batched_prompt n validation_step rank_in_mesh fetch_version) (\<lambda>(payloads, is_end).
     bnd (if control \<and> r_scaling_log (rm s) = [] \<and> p_scaling_log (pm s) = []
          then bnd (if \<not> dapo then tag_by_version gbs version payloads else tag_dapo version payloads) (\<lambda>tagged.
               bnd (check_retries gbs version) (\<lambda>_. ret tagged))
          else with_state (\<lambda>s. ret (map (\<lambda>p. if is_sft then sft_payload s p else p\<lparr>pl_weight_version := 0\<rparr>) payloads)))
       (\<lambda>tagged.
     bnd (guarded (\<not> is_validation) (with_state (\<lambda>s. upd_pm (samples_on_the_fly_update
            (\<lambda>k. k + int (length payloads) * cf_n_generation (cfg s)))))) (\<lambda>_.
     ret (tagged, is_end))))))"

section \<open>Profiling, liveness and the life cycle of replicas\<close>

record set_profile_request =
  pr_replica_name :: string
  pr_active_steps :: int
  pr_rank_filter :: "int list"
  pr_record_shape :: bool
  pr_profile_memory :: bool
  pr_with_stack :: bool
  pr_with_modules :: bool

definition profile_of :: "set_profile_request \<Rightarrow> sub_profiler_config" where
  "profile_of rq = default_profiler\<lparr>sp_do_profile := True, sp_active_steps := pr_active_steps rq,
     sp_rank_filter := pr_rank_filter rq, sp_record_shape := pr_record_shape rq,
     sp_profile_memory := pr_profile_memory rq, sp_with_stack := pr_with_stack rq,
     sp_with_modules := pr_with_modules rq\<rparr>"

datatype profile_reply = NotFound | AlreadyProfiling | ProfileSet

definition set_profile :: "set_profile_request \<Rightarrow> profile_reply ctl" where
  "set_profile rq = with_state (\<lambda>s. case dict_get (policy_replicas (pm s)) (pr_replica_name rq) of
       None \<Rightarrow> ret NotFound
     | Some r \<Rightarrow>
         if sp_do_profile (r_profiler r) then ret AlreadyProfiling
         else bnd (adjust_replica PolicySide (pr_replica_name rq) (r_profiler_update (\<lambda>_. profile_of rq)))
                (\<lambda>_. ret ProfileSet))"

definition set_trace_path :: "string \<Rightarrow> string \<Rightarrow> int \<Rightarrow> string option ctl" where
  "set_trace_path name trace_path global_rank = with_state (\<lambda>s.
     if has_replica PolicySide name s
     then bnd (replica_exec PolicySide name (replica_set_trace_path trace_path global_rank)) (\<lambda>k. ret (Some k))
     else ret None)"

definition controller_put_rollouts :: "rollout list \<Rightarrow> unit ctl" where
  "controller_put_rollouts rollouts =
     bnd (put_rollouts rollouts) (\<lambda>(tokens, n_samples).
     modify (\<lambda>s. s\<lparr>stat_completion_tokens_count := stat_completion_tokens_count s + tokens,
       stat_n_samples := stat_n_samples s + n_samples,
       begin_time := (case begin_time s of None \<Rightarrow> Some (now s) | Some t \<Rightarrow> Some t)\<rparr>))"

definition replica_heartbeat :: "string \<Rightarrow> unit ctl" where
  "replica_heartbeat name = with_state (\<lambda>s.
     if has_replica PolicySide name s then heartbeat PolicySide name
     else if has_replica RolloutSide name s then heartbeat RolloutSide name
     else ret ())"

definition register :: "atom \<Rightarrow> string \<Rightarrow> unit ctl" where
  "register a role =
     (if role = POLICY then policy_register a
      else if role = ROLLOUT then rollout_register a
      else if role = REFERENCE
      then modify (teacher_result_manager_update (\<lambda>ts. if at_replica_name a \<in> set ts then ts else ts @ [at_replica_name a]))
      else raise GenericException)"

definition end_reference_replica :: "unit ctl" where
  "end_reference_replica = publish ''controller'' (TeacherRequest True (-1))"

definition unregister :: "string \<Rightarrow> unit ctl" where
  "unregister name = with_state (\<lambda>s.
     if has_replica PolicySide name s then policy_unregister name
     else if has_replica RolloutSide name s then rollout_unregister name
     else if name \<in> set (teacher_result_manager s)
     then bnd (modify (teacher_result_manager_update (filter (\<lambda>t. t \<noteq> name)))) (\<lambda>_.
          with_state (\<lambda>s. guarded (0 < length (teacher_result_manager s)) end_reference_replica))
     else raise GenericException)"

text \<open>\<open>hang_replica\<close> in the message of the rollout branch has no value yet.\<close>

definition post_ncclerror :: "(string, int) dict \<Rightarrow> string \<Rightarrow> unit ctl" where
  "post_ncclerror reported role = with_state (\<lambda>s.
     let all_replicas = dict_keys (replicas_of (if role = POLICY then PolicySide else RolloutSide) s);
         hang_replicas = filter (\<lambda>n. n \<notin> set (dict_keys reported)) all_replicas in
     bnd (check KeyError (set (dict_keys reported) \<subseteq> set all_replicas)) (\<lambda>_.
     if role = POLICY then for_each hang_replicas policy_unregister
     else if role = ROLLOUT then raise UnboundLocalError
     else raise GenericException))"

text \<open>\<open>set_replica_ncclerror\<close> awaits a delay between its two halves; other requests run meanwhile.\<close>

definition report_ncclerror :: "string \<Rightarrow> int option ctl" where
  "report_ncclerror name = with_state (\<lambda>s.
     if has_replica PolicySide name s
     then bnd (set_ncclerror name (int_now s)) (\<lambda>_.
          bnd (modify (post_ncclerror_policy_invoke_id_update (\<lambda>i. i + 1))) (\<lambda>_.
          with_state (\<lambda>s. ret (Some (post_ncclerror_policy_invoke_id s)))))
     else if has_replica RolloutSide name s then raise NotImplementedError
     else ret None)"

definition ncclerror_window_closed :: "int \<Rightarrow> unit ctl" where
  "ncclerror_window_closed invoke_id = with_state (\<lambda>s.
     guarded (invoke_id = post_ncclerror_policy_invoke_id s)
       (bnd (post_ncclerror (get_all_policy_report_ncclerror s) POLICY) (\<lambda>_. clear_ncclerror)))"

section \<open>The handler of incoming rollouts\<close>

text \<open>The end of a rollout replica; when all have ended the remaining steps are counted again, and if
  none are left an extra last step is triggered.\<close>

definition handle_rollout_end :: "string \<Rightarrow> unit ctl" where
  "handle_rollout_end name = block [
     rollout_end name,
     with_state (\<lambda>s. guarded (all_rollouts_ended s)
       (let original_total_steps = total_steps (pm s) in block [
          recompute_total_steps (Some (total_pending_rollouts s)),
          with_state (\<lambda>s. guarded (total_steps (pm s) \<le> current_step (pm s) \<and> current_step (pm s) \<noteq> original_total_steps)
            (block [
               upd_pm (rollout_buffer_update (\<lambda>_. [])),
               upd_pm (total_steps_update (\<lambda>_. current_step (pm s) + 1)),
               try_trigger_data_fetch_and_training True]))]))]"

definition put_rollout_group :: "string \<Rightarrow> payload list \<Rightarrow> (string, int) dict \<Rightarrow> bool \<Rightarrow> unit ctl" where
  "put_rollout_group src payloads metrics is_end =
     (if is_end then handle_rollout_end src
      else bnd (lift_sum (extract_rollouts payloads is_end False)) (\<lambda>rollouts_list.
        block [
          with_state (\<lambda>s. guarded (cf_variant (cfg s) = ''dapo'') (update_dynamic_sampling_statistics metrics)),
          bnd (filter_outdated_rollouts (concat rollouts_list)) controller_put_rollouts]))"

text \<open>One pass of the monitoring thread.\<close>

definition monitor_replica_status :: "unit ctl" where
  "monitor_replica_status = block [policy_maintain_life_status, rollout_maintain_life_status]"

section \<open>Prompts per weight version\<close>

definition versions_within :: "int \<Rightarrow> (int, int) dict \<Rightarrow> bool" where
  "versions_within gbs d \<longleftrightarrow> (\<forall>v. version_count d v \<le> gbs)"

lemma version_count_set: "version_count (count_version v d) u = version_count d u + (if u = v then 1 else 0)"
  by (simp add: version_count_def count_version_def dict_simps split: option.split)

lemma next_version_spec:
  assumes "versions_within gbs d" "0 < gbs"
  shows "card {u. v \<le> u \<and> u \<in> set (dict_keys d)} < fuel \<Longrightarrow>
    \<exists>w \<ge> v. next_version fuel gbs d v = Inr w \<and> version_count d w < gbs \<and> (\<forall>u. v \<le> u \<and> u < w \<longrightarrow> version_count d u = gbs)"
proof (induction fuel arbitrary: v)
  case 0
  then show ?case by simp
next
  case (Suc fuel)
  show ?case
  proof (cases "dict_get d v")
    case None
    then show ?thesis using assms(2) by (intro exI [of _ v]) (auto simp: version_count_def)
  next
    case (Some c)
    show ?thesis
    proof (cases "c < gbs")
      case True
      then show ?thesis using Some by (intro exI [of _ v]) (auto simp: version_count_def)
    next
      case False
      have "version_count d v \<le> gbs" using assms(1) by (simp add: versions_within_def)
      then have c: "c = gbs" using False Some by (simp add: version_count_def)
      have split: "{u. v \<le> u \<and> u \<in> set (dict_keys d)} = insert v {u. v + 1 \<le> u \<and> u \<in> set (dict_keys d)}"
        using dict_get_Some_key [OF Some] by auto
      have "card {u. v + 1 \<le> u \<and> u \<in> set (dict_keys d)} < fuel"
        using Suc.prems unfolding split by (subst (asm) card_insert_disjoint) auto
      from Suc.IH [OF this] obtain w where w: "v + 1 \<le> w" "next_version fuel gbs d (v + 1) = Inr w" "version_count d w < gbs"
        "\<forall>u. v + 1 \<le> u \<and> u < w \<longrightarrow> version_count d u = gbs" by blast
      have "version_count d u = gbs" if "v \<le> u \<and> u < w" for u
        using w(4) that Some c by (cases "u = v") (auto simp: version_count_def)
      then show ?thesis using w Some c by (intro exI [of _ w]) auto
    qed
  qed
qed

lemma version_fuel: "card {u. v \<le> u \<and> u \<in> set (dict_keys d)} < Suc (length d)"
proof -
  have "card {u. v \<le> u \<and> u \<in> set (dict_keys d)} \<le> card (set (dict_keys d))" by (rule card_mono) auto
  also have "\<dots> \<le> length d" using card_length [of "dict_keys d"] by (simp add: dict_keys_def)
  finally show ?thesis by simp
qed

lemma tag_payloads_spec:
  assumes "0 < gbs"
  shows "versions_within gbs d \<Longrightarrow> \<exists>ws d'. tag_payloads gbs ps v d = Ok (map2 (\<lambda>p w. p\<lparr>pl_weight_version := w\<rparr>) ps ws) d'
    \<and> length ws = length ps \<and> sorted (v # ws) \<and> versions_within gbs d'
    \<and> (\<forall>u. version_count d' u = version_count d u + int (count_list ws u))
    \<and> (\<forall>w \<in> set ws. \<forall>u. v \<le> u \<and> u < w \<longrightarrow> version_count d' u = gbs)"
proof (induction ps arbitrary: v d)
  case Nil
  then show ?case by (intro exI [of _ "[]"] exI [of _ d]) simp
next
  case (Cons p ps)
  obtain w where w: "v \<le> w" "next_version (Suc (length d)) gbs d v = Inr w" "version_count d w < gbs"
    "\<forall>u. v \<le> u \<and> u < w \<longrightarrow> version_count d u = gbs"
    using next_version_spec [OF Cons.prems assms version_fuel] by blast
  have within: "versions_within gbs (count_version w d)"
    using Cons.prems w(3) by (auto simp: versions_within_def version_count_set)
  obtain ws d' where rest: "tag_payloads gbs ps w (count_version w d) = Ok (map2 (\<lambda>p w. p\<lparr>pl_weight_version := w\<rparr>) ps ws) d'"
    "length ws = length ps" "sorted (w # ws)" "versions_within gbs d'"
    and counts: "\<forall>u. version_count d' u = version_count (count_version w d) u + int (count_list ws u)"
    and full: "\<forall>x \<in> set ws. \<forall>u. w \<le> u \<and> u < x \<longrightarrow> version_count d' u = gbs"
    using Cons.IH [OF within, of w] by blast
  have "tag_payloads gbs (p # ps) v d = Ok (map2 (\<lambda>p w. p\<lparr>pl_weight_version := w\<rparr>) (p # ps) (w # ws)) d'"
    using w(2) rest(1) by simp
  moreover have "version_count d' u = version_count d u + int (count_list (w # ws) u)" for u
    using counts by (simp add: version_count_set)
  moreover have "version_count d' u = gbs" if x: "x \<in> set (w # ws)" "v \<le> u" "u < x" for x u
  proof (cases "u < w")
    case True
    then have "version_count d u = gbs" using w(4) x(2) by blast
    moreover have "count_list ws u = 0" using True rest(3) by (auto simp: count_list_0_iff)
    ultimately show ?thesis using counts True by (simp add: version_count_set)
  next
    case False
    then show ?thesis using full x by auto
  qed
  ultimately show ?case using rest(2-4) w(1) by (intro exI [of _ "w # ws"] exI [of _ d']) auto
qed

text \<open>C18: tagging fetched prompts with weight versions never fails and never runs out of versions: as
  long as no version has more than \<open>gbs\<close> prompts (\<open>gbs > 0\<close>), every prompt gets exactly one version,
  none earlier than the current one, in non-decreasing order; afterwards still no version has more
  than \<open>gbs\<close> prompts, the counts have grown by exactly the prompts tagged, and a version is opened
  only when all versions from the current one up to it are full.\<close>

theorem versions_filled_in_order:
  assumes "versions_within gbs (weight_version_to_prompt_num s)" "0 < gbs"
  shows "\<exists>ws d'. tag_by_version gbs v payloads s
      = Ok (map2 (\<lambda>p w. p\<lparr>pl_weight_version := w\<rparr>) payloads ws) (s\<lparr>weight_version_to_prompt_num := d'\<rparr>)
    \<and> length ws = length payloads \<and> sorted (v # ws) \<and> versions_within gbs d'
    \<and> (\<forall>u. version_count d' u = version_count (weight_version_to_prompt_num s) u + int (count_list ws u))
    \<and> (\<forall>w \<in> set ws. \<forall>u. v \<le> u \<and> u < w \<longrightarrow> version_count d' u = gbs)"
proof -
  obtain ws d' where r: "tag_payloads gbs payloads v (weight_version_to_prompt_num s)
      = Ok (map2 (\<lambda>p w. p\<lparr>pl_weight_version := w\<rparr>) payloads ws) d'"
    and rest: "length ws = length payloads \<and> sorted (v # ws) \<and> versions_within gbs d'
    \<and> (\<forall>u. version_count d' u = version_count (weight_version_to_prompt_num s) u + int (count_list ws u))
    \<and> (\<forall>w \<in> set ws. \<forall>u. v \<le> u \<and> u < w \<longrightarrow> version_count d' u = gbs)"
    using tag_payloads_spec [OF assms(2,1), of payloads v] by blast
  have "tag_by_version gbs v payloads s
      = Ok (map2 (\<lambda>p w. p\<lparr>pl_weight_version := w\<rparr>) payloads ws) (s\<lparr>weight_version_to_prompt_num := d'\<rparr>)"
    by (simp add: tag_by_version_def r set_versions_def)
  with rest show ?thesis by blast
qed

theorem versions_filled_in_order_witness:
  "\<exists>ws d'. tag_by_version 2 5 [sample_payload, sample_payload, sample_payload] (sample_world\<lparr>weight_version_to_prompt_num := [(5, 1)]\<rparr>)
      = Ok (map2 (\<lambda>p w. p\<lparr>pl_weight_version := w\<rparr>) [sample_payload, sample_payload, sample_payload] ws)
          (sample_world\<lparr>weight_version_to_prompt_num := d'\<rparr>)
    \<and> length ws = 3 \<and> versions_within 2 d'"
proof -
  have "versions_within 2 [(5, 1)]" by (simp add: versions_within_def version_count_def dict_get_def)
  then obtain ws d' where
    "tag_by_version 2 5 [sample_payload, sample_payload, sample_payload] (sample_world\<lparr>weight_version_to_prompt_num := [(5, 1)]\<rparr>)
      = Ok (map2 (\<lambda>p w. p\<lparr>pl_weight_version := w\<rparr>) [sample_payload, sample_payload, sample_payload] ws)
          (sample_world\<lparr>weight_version_to_prompt_num := [(5, 1)]\<rparr>\<lparr>weight_version_to_prompt_num := d'\<rparr>)"
    "length ws = length [sample_payload, sample_payload, sample_payload]" "versions_within 2 d'"
    using versions_filled_in_order [of 2 "sample_world\<lparr>weight_version_to_prompt_num := [(5, 1)]\<rparr>" 5
        "[sample_payload, sample_payload, sample_payload]"] by fastforce
  then show ?thesis by (intro exI [of _ ws] exI [of _ d'] conjI) simp_all
qed

end
