(* ===== verification/Controller_Runs.thy ===== *)
theory Controller_Runs
  imports Controller_Model
begin

text \<open>
  Runs of the controller: the requests the handlers of \<open>run_web_panel.py\<close> take, one after the other,
  from a controller without replicas, and what holds of the two registries in every state such a run
  can reach, whatever raised on the way.
\<close>

named_theorems op_frame \<open>operations that leave the registries alone\<close>

section \<open>Operations that leave the registries alone\<close>

text \<open>Which replicas there are, with their names, roles and atoms, and which policy replicas have a status.\<close>

definition registries :: "world \<Rightarrow> (string \<times> replica_shape) list \<times> string list \<times> (string \<times> replica_shape) list" where
  "registries s = (skeleton (policy_replicas (pm s)), dict_keys (status (pm s)), skeleton (rollout_replicas (rm s)))"

lemma keeps_upd_pm [op_frame]:
  "(\<And>p. skeleton (policy_replicas (f p)) = skeleton (policy_replicas p)) \<Longrightarrow>
   (\<And>p. dict_keys (status (f p)) = dict_keys (status p)) \<Longrightarrow> keeps registries (upd_pm f)"
  by (simp add: upd_pm_def keeps_modify registries_def)

lemma keeps_upd_rm [op_frame]:
  "(\<And>p. skeleton (rollout_replicas (f p)) = skeleton (rollout_replicas p)) \<Longrightarrow> keeps registries (upd_rm f)"
  by (simp add: upd_rm_def keeps_modify registries_def)

lemma keeps_upd_fetcher [op_frame]: "keeps registries (upd_fetcher f)"
  by (simp add: upd_fetcher_def keeps_modify registries_def)

lemma keeps_modify_other [op_frame]:
  "(\<And>s. pm (f s) = pm s) \<Longrightarrow> (\<And>s. rm (f s) = rm s) \<Longrightarrow> keeps registries (modify f)"
  by (simp add: keeps_modify registries_def)

lemma keeps_adjust [op_frame]:
  "(\<And>r. replica_shape (f r) = replica_shape r) \<Longrightarrow> keeps registries (adjust_replica sd n f)"
  by (cases sd) (simp_all add: adjust_replica_def keeps_modify registries_def skeleton_adjust)

lemma keeps_deref [op_frame]: "keeps registries (deref sd n)"
  unfolding deref_def by (intro frame)

lemma keeps_publish [op_frame]: "keeps registries (publish x m)"
  unfolding publish_def by (intro frame op_frame) simp_all

lemma keeps_publish_command [op_frame]: "keeps registries (publish_command c n)"
  unfolding publish_command_def by (intro op_frame)

lemma keeps_publish_rollout [op_frame]: "keeps registries (publish_rollout r n)"
  unfolding publish_rollout_def by (intro op_frame)

lemma keeps_fresh_uuid [op_frame]: "keeps registries fresh_uuid"
  unfolding fresh_uuid_def by (intro frame op_frame) simp_all

lemma keeps_arrived_replicas [op_frame]: "keeps registries (get_all_atoms_arrived_replicas sd)"
  unfolding get_all_atoms_arrived_replicas_def by (intro frame)

lemma keeps_heartbeat [op_frame]: "keeps registries (heartbeat sd n)"
  unfolding heartbeat_def by (intro frame op_frame) simp_all

lemma keeps_set_status [op_frame]: "st \<noteq> UNINITIALIZED \<Longrightarrow> keeps registries (set_status n st)"
  by (rule keepsI) (auto simp: set_status_def upd_pm_def bnd_def registries_def dict_keys_set dict_get_None_iff)


lemma keeps_triggers [op_frame]:
  "keeps registries (weight_resume_trigger n)" "keeps registries (build_mesh_trigger sd ns)"
  "keeps registries (p2p_broadcast_trigger x ns t)" "keeps registries (p2p_unicast_trigger x y t)"
  "keeps registries (p2r_unicast_trigger x y k l w t)" "keeps registries (r2r_broadcast_trigger x ns w t)"
  "keeps registries (data_fetch_trigger n c g t r b)" "keeps registries (replica_put_rollout ro n)"
  unfolding weight_resume_trigger_def build_mesh_trigger_def p2p_broadcast_trigger_def p2p_unicast_trigger_def
    p2r_unicast_trigger_def r2r_broadcast_trigger_def data_fetch_trigger_def replica_put_rollout_def
  by (intro frame op_frame; simp)+

section \<open>The data fetcher\<close>

lemma keeps_next_batch [op_frame]: "keeps registries (next_batch v)"
  unfolding next_batch_def by (intro frame op_frame)

lemma keeps_next_payload [op_frame]: "keeps registries (next_payload v bs a)"
  unfolding next_payload_def by (intro frame op_frame)

lemma keeps_next_payload_or_end [op_frame]: "keeps registries (next_payload_or_end v bs a)"
  unfolding next_payload_or_end_def start_epoch_def by (intro frame op_frame)

lemma keeps_count_fetched [op_frame]: "keeps registries (count_fetched v i)"
  unfolding count_fetched_def by (intro frame op_frame)

lemma keeps_take_from_buffer [op_frame]: "keeps registries (take_from_buffer k v n pb rank version acc)"
  by (induction k arbitrary: acc) (auto simp: Let_def intro!: frame op_frame)

lemma keeps_dispatch_payload [op_frame]: "keeps registries (dispatch_payload v n pb rank version i p acc)"
  unfolding dispatch_payload_def by (intro frame op_frame)

lemma keeps_dispatch_batch [op_frame]: "keeps registries (dispatch_batch v n pb rank version ips acc)"
  by (induction ips arbitrary: acc) (auto intro!: frame op_frame)

lemma keeps_fetch_batches [op_frame]: "keeps registries (fetch_batches k v n bs a pb rank version acc)"
  by (induction k arbitrary: acc) (auto intro!: frame op_frame)

lemma keeps_fetch_rounds [op_frame]: "keeps registries (fetch_rounds k v n bs a pb rank version acc)"
  by (induction k arbitrary: acc) (auto intro!: frame op_frame simp: fetch_rounds.simps)

lemma keeps_fetcher_get_batched_prompt [op_frame]: "keeps registries (fetcher_get_batched_prompt n v rank version)"
  unfolding fetcher_get_batched_prompt_def iterator_ready_def by (intro frame op_frame)

lemma keeps_validation [op_frame]: "keeps registries (validation_activate_dataloader k)"
  "keeps registries clear_validation_status" "keeps registries (set_policy_global_mesh_size m)"
  "keeps registries (set_rollout_global_mesh_size m)" "keeps registries activate_validation_if_due"
  unfolding validation_activate_dataloader_def clear_validation_status_def set_policy_global_mesh_size_def
    set_rollout_global_mesh_size_def activate_validation_if_due_def
  by (intro frame op_frame)+

section \<open>The training loop\<close>

lemma keeps_mesh [op_frame]: "keeps registries (recompute_total_steps x)"
  "keeps registries (rearrange_rollout_buffer_after_mesh_rebuild n)"
  "keeps registries (policy_trigger_rebuild_mesh ns)" "keeps registries (rollout_trigger_rebuild_mesh ns)"
  unfolding recompute_total_steps_def rearrange_rollout_buffer_after_mesh_rebuild_def
    policy_trigger_rebuild_mesh_def rollout_trigger_rebuild_mesh_def
  by (intro frame op_frame; simp)+

lemma keeps_collect [op_frame]: "(\<And>x. keeps g (f x)) \<Longrightarrow> keeps g (collect xs f)"
  by (induction xs) (auto intro!: frame)

lemma keeps_dispatch [op_frame]: "keeps registries buffer_get" "keeps registries (rank_buffer_get i)"
  "keeps registries (sort_rank_buffer i)" "keeps registries (dispatch_next n)"
  "keeps registries (dispatch_next_of_rank i n)" "keeps registries (dispatch_rollouts k ns)"
  unfolding buffer_get_def rank_buffer_get_def sort_rank_buffer_def dispatch_next_def dispatch_next_of_rank_def
    dispatch_rollouts_def
  by (intro frame op_frame; simp)+

lemma keeps_report_step [op_frame]: "keeps registries (report_step rs)"
  unfolding report_step_def by (intro frame op_frame) simp_all

lemma keeps_start_step [op_frame]: "keeps registries (start_step k r ns)"
  unfolding start_step_def fetch_and_run_def by (intro frame op_frame) simp_all

lemma keeps_try_trigger [op_frame]: "keeps registries (try_trigger_data_fetch_and_training b)"
  unfolding try_trigger_data_fetch_and_training_def by (intro frame op_frame)

lemma keeps_put_rollout [op_frame]: "keeps registries (put_rollout r)"
  unfolding put_rollout_def buffer_put_def by (intro frame op_frame) simp_all

lemma keeps_put_rollouts_loop [op_frame]: "keeps registries (put_rollouts_loop rs k n)"
  by (induction rs arbitrary: k n) (auto intro!: frame op_frame)

lemma keeps_put_rollouts [op_frame]: "keeps registries (put_rollouts rs)"
  unfolding put_rollouts_def by (intro frame op_frame) simp_all

lemma keeps_filters [op_frame]: "keeps registries (filter_outdated_rollouts rs)"
  "keeps registries (update_dynamic_sampling_statistics m)"
  unfolding filter_outdated_rollouts_def update_dynamic_sampling_statistics_def
  by (intro frame op_frame; simp)+

lemma keeps_validation_report [op_frame]: "keeps registries (validation_report_validation_results k rs)"
  unfolding validation_report_validation_results_def by (intro frame op_frame) simp_all

lemma keeps_reports [op_frame]: "keeps registries (try_report_reduced_step tot)"
  "keeps registries (sft_report_summary b)" "keeps registries (sft_train_ack n m)"
  unfolding try_report_reduced_step_def report_reduced_step_def sft_report_summary_def sft_train_ack_def
  by (intro frame op_frame; simp)+

lemma keeps_weight_sync [op_frame]: "keeps registries (trigger_weight_sync p k tot)"
  unfolding trigger_weight_sync_def by (intro frame op_frame)

lemma keeps_train_ack [op_frame]: "keeps registries (train_ack n k tot b m)"
  unfolding train_ack_def finish_reduced_step_def account_reduced_step_def next_step_after_sync_def reset_profile_def
  by (intro frame op_frame) simp_all

section \<open>The controller\<close>

lemma keeps_case_outcome [frame]:
  "(\<And>a t. z = Ok a t \<Longrightarrow> keeps g (f a t)) \<Longrightarrow> (\<And>e t. z = Raise e t \<Longrightarrow> keeps g (h e t)) \<Longrightarrow>
   keeps g (case z of Ok a t \<Rightarrow> f a t | Raise e t \<Rightarrow> h e t)"
  by (cases z) simp_all

lemma keeps_versions [op_frame]: "keeps registries (tag_by_version gbs v ps)" "keeps registries (tag_dapo v ps)"
  "keeps registries (check_retries gbs v)"
  unfolding tag_by_version_def tag_dapo_def check_retries_def set_versions_def
  by (intro frame op_frame; simp)+

lemma keeps_get_batched_prompt [op_frame]: "keeps registries (controller_get_batched_prompt n v rank)"
  unfolding controller_get_batched_prompt_def by (intro frame op_frame) simp_all

lemma atoms_adjust_shape:
  "(\<And>x. atom_shape (f x) = atom_shape x) \<Longrightarrow> replica_shape (r_atoms_update (dict_adjust k f) r) = replica_shape r"
  by (auto simp: replica_shape_def dict_adjust_def)

lemma keeps_replica_exec [op_frame]:
  "(\<And>r. replica_shape (final (m r)) = replica_shape r) \<Longrightarrow> keeps registries (replica_exec sd n m)"
  unfolding replica_exec_def by (intro frame op_frame)

lemma trace_path_shape [simp]: "replica_shape (final (replica_set_trace_path p g r)) = replica_shape r"
  by (auto simp: replica_set_trace_path_def bnd_def atoms_adjust_shape atom_shape_def split: option.split)

lemma keeps_controller [op_frame]: "keeps registries (set_profile rq)" "keeps registries (set_trace_path n p g)"
  "keeps registries (controller_put_rollouts rs)" "keeps registries (replica_heartbeat n)"
  "keeps registries end_reference_replica" "keeps registries (rollout_end n)"
  "keeps registries clear_ncclerror" "keeps registries (set_ncclerror n i)" "keeps registries (report_ncclerror n)"
  "keeps registries (handle_rollout_end n)" "keeps registries (put_rollout_group n ps m b)"
  unfolding set_profile_def set_trace_path_def controller_put_rollouts_def replica_heartbeat_def
    end_reference_replica_def rollout_end_def clear_ncclerror_def set_ncclerror_def report_ncclerror_def
    handle_rollout_end_def put_rollout_group_def
  by (intro frame op_frame; simp)+

section \<open>Removing a replica\<close>

lemma skeleton_pop: "skeleton (dict_pop n d) = filter (\<lambda>x. fst x \<noteq> n) (skeleton d)"
  by (induction d) (auto simp: skeleton_def dict_pop_def)

lemma replicas_ok_pop: "replicas_ok d \<Longrightarrow> replicas_ok (dict_pop n d)"
proof -
  assume ok: "replicas_ok d"
  have "set (dict_pop n d) \<subseteq> set d" by (auto simp: dict_pop_def AList.delete_eq)
  with ok show ?thesis by (auto simp: replicas_ok_def)
qed

lemma policy_inv_registries: "registries s = registries t \<Longrightarrow> policy_inv s = policy_inv t"
  by (intro policy_inv_cong) (simp_all add: registries_def)

lemma policy_inv_keeps: "keeps registries m \<Longrightarrow> policy_inv s \<Longrightarrow> policy_inv (final (m s))"
  using policy_inv_registries keepsD by metis

definition rollout_inv :: "world \<Rightarrow> bool" where
  "rollout_inv s \<longleftrightarrow> replicas_ok (rollout_replicas (rm s)) \<and> (\<forall>(n, sh) \<in> set (skeleton (rollout_replicas (rm s))). fst (snd sh) = ROLLOUT)"

lemma rollout_inv_registries: "registries s = registries t \<Longrightarrow> rollout_inv s = rollout_inv t"
  using replicas_ok_cong [of "rollout_replicas (rm s)" "rollout_replicas (rm t)"]
  by (simp add: registries_def rollout_inv_def)

definition controller_inv :: "world \<Rightarrow> bool" where
  "controller_inv s \<longleftrightarrow> policy_inv s \<and> rollout_inv s"

lemma controller_inv_keeps: "keeps registries m \<Longrightarrow> controller_inv s \<Longrightarrow> controller_inv (final (m s))"
  using policy_inv_registries rollout_inv_registries keepsD unfolding controller_inv_def by metis

lemma controller_keeps: "keeps registries m \<Longrightarrow> maintains controller_inv m"
  using controller_inv_keeps by (auto simp: maintains_def)

lemma pop_policy_inv:
  assumes "controller_inv s"
    and st: "st = (if dict_get (status (pm s)) n = None then status (pm s) else dict_pop n (status (pm s)))"
    and "policy_replicas (pm t) = dict_pop n (policy_replicas (pm s))" "status (pm t) = st" "rm t = rm s"
  shows "controller_inv t"
proof -
  have keys: "set (dict_keys st) = set (dict_keys (status (pm s))) - {n}" "dict_wf st"
    using assms(1) by (auto simp: st dict_keys_pop dict_get_None_iff controller_inv_def policy_inv_def)
  then show ?thesis using assms
    by (auto simp: controller_inv_def policy_inv_def rollout_inv_def replicas_ok_pop skeleton_pop dict_keys_pop)
qed

lemma policy_unregister_maintains: "maintains controller_inv (policy_unregister n)"
  unfolding maintains_def
proof (intro allI impI)
  fix s :: world
  assume inv: "controller_inv s"
  show "controller_inv (final (policy_unregister n s))"
  proof (cases "dict_get (policy_replicas (pm s)) n")
    case None
    then show ?thesis using inv by (simp add: policy_unregister_def has_replica_def)
  next
    case (Some r)
    let ?t = "replicas_upd PolicySide (dict_pop n) s"
    show ?thesis
    proof (cases "dict_get (status (pm s)) n")
      case None
      have "controller_inv ?t" by (rule pop_policy_inv [where n = n, OF inv refl]) (simp_all add: None)
      then show ?thesis using Some None by (simp add: policy_unregister_def has_replica_def deref_def dict_item_def bnd_def)
    next
      case (Some st)
      let ?u = "pm_update (status_update (dict_pop n)) ?t"
      have u: "controller_inv ?u" by (rule pop_policy_inv [where n = n, OF inv refl]) (simp_all add: Some)
      define rest :: "unit ctl" where
        "rest = bnd (with_state (\<lambda>s. upd_pm (p_scaling_log_update (\<lambda>l. l @
            [\<lparr>sl_event = REPLICA_SCALING_DOWN, sl_replica_name = n, sl_timestamp = int_now s\<rparr>])))) (\<lambda>_.
          with_state (\<lambda>s.
            if training_finished (pm s) then ret ()
            else bnd (get_all_atoms_arrived_replicas PolicySide) (\<lambda>valid_replicas.
              guarded (in_mesh r \<and> 0 < length valid_replicas) (policy_trigger_rebuild_mesh valid_replicas))))"
      have "keeps registries rest" unfolding rest_def by (intro frame op_frame) simp_all
      moreover have "policy_unregister n s = rest ?u"
        using Some \<open>dict_get (policy_replicas (pm s)) n = Some r\<close>
        by (simp add: policy_unregister_def has_replica_def deref_def dict_item_def rest_def upd_pm_def)
      ultimately show ?thesis using controller_inv_keeps [OF _ u] by metis
    qed
  qed
qed

lemma rollout_unregister_maintains: "maintains controller_inv (rollout_unregister n)"
  unfolding maintains_def
proof (intro allI impI)
  fix s :: world
  assume inv: "controller_inv s"
  show "controller_inv (final (rollout_unregister n s))"
  proof (cases "dict_get (rollout_replicas (rm s)) n")
    case None
    then show ?thesis using inv by (simp add: rollout_unregister_def has_replica_def)
  next
    case (Some r)
    let ?t = "replicas_upd RolloutSide (dict_pop n) s"
    have t: "controller_inv ?t" using inv
      by (auto simp: controller_inv_def policy_inv_def rollout_inv_def replicas_ok_pop skeleton_pop)
    define rest :: "unit ctl" where
      "rest = bnd (with_state (\<lambda>s. upd_rm (r_scaling_log_update (\<lambda>l. l @
            [\<lparr>sl_event = REPLICA_SCALING_DOWN, sl_replica_name = n, sl_timestamp = int_now s\<rparr>])))) (\<lambda>_.
          with_state (\<lambda>s.
            if training_finished (pm s) then ret ()
            else guarded (in_mesh r \<and> 0 < length (rollout_replicas (rm s)))
              (bnd (get_all_atoms_arrived_replicas RolloutSide) rollout_trigger_rebuild_mesh)))"
    have "keeps registries rest" unfolding rest_def by (intro frame op_frame) simp_all
    moreover have "rollout_unregister n s = rest ?t"
      using Some by (simp add: rollout_unregister_def has_replica_def deref_def dict_item_def rest_def)
    ultimately show ?thesis using controller_inv_keeps [OF _ t] by metis
  qed
qed

lemma unregister_maintains: "maintains controller_inv (unregister n)" "maintains controller_inv policy_maintain_life_status"
  "maintains controller_inv rollout_maintain_life_status" "maintains controller_inv monitor_replica_status" "maintains controller_inv (post_ncclerror d role)"
  "maintains controller_inv (ncclerror_window_closed i)"
  unfolding unregister_def monitor_replica_status_def policy_maintain_life_status_def
    rollout_maintain_life_status_def post_ncclerror_def Let_def ncclerror_window_closed_def
  apply ((intro invar policy_unregister_maintains rollout_unregister_maintains controller_keeps frame op_frame; simp)+)
  done

section \<open>Registering an atom\<close>

text \<open>The requests the handler lets through have four group sizes; that they are positive is a fact about
  the replicas that register.\<close>

definition good_atom :: "atom \<Rightarrow> bool" where
  "good_atom a \<longleftrightarrow> length (at_group_size a) = 4 \<and> (\<forall>g \<in> set (at_group_size a). 0 < g)"

lemma prod_list_pos: "\<forall>g \<in> set gs. 0 < g \<Longrightarrow> 0 < prod_list (gs :: int list)"
  by (induction gs) auto

lemma dict_adjust_eq_set:
  "dict_wf d \<Longrightarrow> dict_get d n = Some r \<Longrightarrow> dict_adjust n f d = dict_set n (f r) d"
  by (induction d) (force simp: dict_wf_def dict_get_def dict_adjust_def dict_set_def dict_keys_def
      intro!: map_idI split: if_splits)+

lemma dict_set_same: "dict_get d n = Some r \<Longrightarrow> dict_set n r d = d"
  by (simp add: dict_get_def dict_set_def AList.update_triv)

lemma skeleton_set: "skeleton (dict_set n r d) = dict_set n (replica_shape r) (skeleton d)"
  by (induction d) (auto simp: skeleton_def dict_set_def)

lemma dict_set_mem:
  "dict_wf d \<Longrightarrow> (m, v) \<in> set (dict_set n w d) \<longleftrightarrow> (if m = n then v = w else (m, v) \<in> set d)"
  by (auto simp: dict_simps simp flip: dict_get_mem)

lemma replicas_ok_set:
  "replicas_ok d \<Longrightarrow> replica_inv r \<Longrightarrow> r_name r = n \<Longrightarrow> replicas_ok (dict_set n r d)"
  by (auto simp: replicas_ok_def dict_set_mem split: if_splits)

text \<open>What storing an atom does to its replica: a new replica, one atom more, or nothing but an error.\<close>

definition joined :: "side \<Rightarrow> string \<Rightarrow> atom \<Rightarrow> world \<Rightarrow> replica" where
  "joined sd role a s = (case dict_get (replicas_of sd s) (at_replica_name a) of
     None \<Rightarrow> replica_init (now s) (at_replica_name a) role [a] | Some r \<Rightarrow> with_atom a r)"

lemma add_atom_cases:
  assumes ok: "replicas_ok (replicas_of sd s)" and a: "good_atom a"
  shows "add_atom sd role a s = Raise AssertionError s \<and> has_replica sd (at_replica_name a) s
    \<or> add_atom sd role a s = Ok () (replicas_upd sd (dict_set (at_replica_name a) (joined sd role a s)) s)
       \<and> (\<forall>r. dict_get (replicas_of sd s) (at_replica_name a) = Some r \<longrightarrow> dict_get (r_atoms r) (atom_key a) = None
            \<and> (\<forall>b \<in> set (dict_values (r_atoms r)). at_group_size b = at_group_size a))"
proof (cases "dict_get (replicas_of sd s) (at_replica_name a)")
  case None
  then show ?thesis by (simp add: add_atom_def has_replica_def joined_def)
next
  case (Some r)
  have r: "r_name r = at_replica_name a" "replica_inv r" using replicas_ok_get [OF ok Some] by auto
  have wf: "dict_wf (replicas_of sd s)" using ok by (simp add: replicas_ok_def)
  have upd: "replicas_upd sd (dict_adjust (at_replica_name a) f) s = replicas_upd sd (dict_set (at_replica_name a) (f r)) s" for f
    using dict_adjust_eq_set [OF wf Some, of f] by (cases sd; cases s; cases "pm s"; cases "rm s") simp_all
  have same: "replicas_upd sd (dict_set (at_replica_name a) r) s = s"
    using dict_set_same [OF Some] by (cases sd; cases s; cases "pm s"; cases "rm s") simp_all
  have exec: "add_atom sd role a s = (case arrive a r of
      Ok x r' \<Rightarrow> ret x | Raise e r' \<Rightarrow> raise e) (replicas_upd sd (dict_set (at_replica_name a) (final (arrive a r))) s)"
    using Some by (simp add: add_atom_def has_replica_def replica_exec_def deref_def dict_item_def
        adjust_replica_def upd)
  show ?thesis
  proof (cases "dict_get (r_atoms r) (atom_key a) = None \<and> (\<forall>b \<in> set (dict_values (r_atoms r)). at_group_size b = at_group_size a)")
    case True
    then have "arrive a r = Ok () (with_atom a r)"
      using arrive_run(2) [OF r(2)] r(1) a by (simp add: good_atom_def)
    then show ?thesis using exec Some True by (simp add: joined_def)
  next
    case False
    then have "arrive a r = Raise AssertionError r" by (intro arrive_refused r) auto
    then show ?thesis using exec Some same by (simp add: has_replica_def)
  qed
qed

lemma joined_ok:
  assumes ok: "replicas_ok (replicas_of sd s)"
    and new: "\<forall>r. dict_get (replicas_of sd s) (at_replica_name a) = Some r \<longrightarrow> dict_get (r_atoms r) (atom_key a) = None
            \<and> (\<forall>b \<in> set (dict_values (r_atoms r)). at_group_size b = at_group_size a)"
  defines "old \<equiv> (case dict_get (replicas_of sd s) (at_replica_name a) of None \<Rightarrow> 0 | Some r \<Rightarrow> length (r_atoms r))"
  shows "replica_inv (joined sd role a s)" "r_name (joined sd role a s) = at_replica_name a"
    "all_atoms_arrived (joined sd role a s) = Inr (int old + 1 = prod_list (at_group_size a))"
    "completed_shape (replica_shape (joined sd role a s)) \<longleftrightarrow> prod_list (at_group_size a) \<le> int old + 1"
    "r_role (joined sd role a s) = (case dict_get (replicas_of sd s) (at_replica_name a) of None \<Rightarrow> role | Some r \<Rightarrow> r_role r)"
    "\<forall>r. dict_get (replicas_of sd s) (at_replica_name a) = Some r \<longrightarrow>
       (completed_shape (replica_shape r) \<longleftrightarrow> prod_list (at_group_size a) \<le> int old)"
proof -
  let ?n = "at_replica_name a" and ?r = "joined sd role a s"
  have "replica_inv ?r \<and> r_name ?r = ?n \<and> all_atoms_arrived ?r = Inr (int old + 1 = prod_list (at_group_size a))
    \<and> (completed_shape (replica_shape ?r) \<longleftrightarrow> prod_list (at_group_size a) \<le> int old + 1)
    \<and> r_role ?r = (case dict_get (replicas_of sd s) ?n of None \<Rightarrow> role | Some r \<Rightarrow> r_role r)
    \<and> (\<forall>r. dict_get (replicas_of sd s) ?n = Some r \<longrightarrow> (completed_shape (replica_shape r) \<longleftrightarrow> prod_list (at_group_size a) \<le> int old))"
  proof (cases "dict_get (replicas_of sd s) ?n")
    case None
    then show ?thesis using replica_inv_init [of "now s" a role]
      by (auto simp: joined_def old_def replica_init_def all_atoms_arrived_def dict_set_def dict_values_def
          completed_shape_def replica_shape_def atom_shape_def)
  next
    case (Some r)
    have r: "r_name r = ?n" "replica_inv r" using replicas_ok_get [OF ok Some] by auto
    have fresh: "dict_get (r_atoms r) (atom_key a) = None"
      and sizes: "\<forall>b \<in> set (dict_values (r_atoms r)). at_group_size b = at_group_size a" using new Some by auto
    obtain k b rest where ats: "r_atoms r = (k, b) # rest"
      using r(2) by (cases "r_atoms r") (auto simp: replica_inv_def)
    have "at_group_size b = at_group_size a" using sizes ats by (simp add: dict_values_def)
    then show ?thesis
      using arrive_run(1) [OF r(2) r(1) [symmetric] fresh sizes] with_atom_inv [OF r(2) r(1) [symmetric] fresh sizes] Some r ats
        dict_set_new [OF fresh, of a]
      by (auto simp: joined_def old_def completed_shape_def replica_shape_def atom_shape_def with_atom_def)
  qed
  then show "replica_inv ?r" "r_name ?r = ?n" "all_atoms_arrived ?r = Inr (int old + 1 = prod_list (at_group_size a))"
    "completed_shape (replica_shape ?r) \<longleftrightarrow> prod_list (at_group_size a) \<le> int old + 1"
    "r_role ?r = (case dict_get (replicas_of sd s) ?n of None \<Rightarrow> role | Some r \<Rightarrow> r_role r)"
    "\<forall>r. dict_get (replicas_of sd s) ?n = Some r \<longrightarrow>
       (completed_shape (replica_shape r) \<longleftrightarrow> prod_list (at_group_size a) \<le> int old)"
    by blast+
qed

lemma keeps_hooks [op_frame]: "keeps registries (first_policy_replica n)" "keeps registries (colocated_first_fetch n)"
  "keeps registries (policy_init ns)" "keeps registries (policy_scale_up ns n)"
  "keeps registries (policy_post_register_hook ns n)" "keeps registries (set_start_time sd n)"
  "keeps registries (bind_atom sd a)" "keeps registries (rollout_init ns)"
  "keeps registries (first_weights_to_rollout ns n)" "keeps registries (rollout_post_register_hook ns n)"
  "keeps registries (rollout_arrived a)"
  unfolding first_policy_replica_def colocated_first_fetch_def policy_init_def policy_scale_up_def
    policy_post_register_hook_def set_start_time_def bind_atom_def rollout_init_def first_weights_to_rollout_def
    rollout_post_register_hook_def rollout_arrived_def
  by (intro frame op_frame; simp add: atoms_adjust_shape atom_shape_def bind_replica_def)+

text \<open>Between an atom completing a policy replica and the replica getting its status.\<close>

definition almost_inv :: "string \<Rightarrow> world \<Rightarrow> bool" where
  "almost_inv n s \<longleftrightarrow> dict_get (status (pm s)) n = None
     \<and> controller_inv (pm_update (status_update (dict_set n UNINITIALIZED)) s)"

lemma almost_inv_registries: "registries t = registries s \<Longrightarrow> almost_inv n s \<Longrightarrow> almost_inv n t"
proof -
  assume eq: "registries t = registries s" and s: "almost_inv n s"
  then have "registries (pm_update (status_update (dict_set n UNINITIALIZED)) t)
      = registries (pm_update (status_update (dict_set n UNINITIALIZED)) s)"
    by (simp add: registries_def dict_keys_set)
  with s eq show ?thesis
    using policy_inv_registries rollout_inv_registries unfolding almost_inv_def controller_inv_def
    by (metis dict_get_None_iff fst_conv registries_def snd_conv)
qed

lemma policy_arrived_inv:
  assumes "almost_inv (at_replica_name a) s"
  shows "controller_inv (final (policy_arrived a s))"
proof (cases "set_start_time PolicySide (at_replica_name a) s")
  case (Ok x t)
  define rest :: "unit ctl" where "rest = bnd (upd_pm (policy_atoms_in_replica_update
       (\<lambda>x. case x of None \<Rightarrow> Some (prod_list (at_group_size a)) | Some y \<Rightarrow> Some y))) (\<lambda>_.
     bnd (bnd (get_all_atoms_arrived_replicas PolicySide) (\<lambda>valid_replicas. block [
       guarded (length valid_replicas = 1) (first_policy_replica (at_replica_name a)),
       policy_post_register_hook valid_replicas (at_replica_name a)])) ret)"
  have "keeps registries rest" unfolding rest_def by (intro frame op_frame) simp_all
  moreover have t: "almost_inv (at_replica_name a) t"
    using almost_inv_registries [OF keeps_Ok [OF keeps_hooks(6) Ok] assms] .
  then have "policy_arrived a s = rest (pm_update (status_update (dict_set (at_replica_name a) UNINITIALIZED)) t)"
    using Ok by (simp add: policy_arrived_def rest_def almost_inv_def set_status_def upd_pm_def)
  ultimately show ?thesis using controller_inv_keeps t unfolding almost_inv_def by metis
qed (simp add: set_start_time_def adjust_replica_def)

lemma store_controller_inv:
  assumes inv: "controller_inv s" and r: "replica_inv r" "r_name r = n" "r_role r = POLICY"
    and t: "policy_replicas (pm t) = dict_set n r (policy_replicas (pm s))" "rm t = rm s"
    and st: "dict_wf (status (pm t))" "set (dict_keys (status (pm t))) - {n} = set (dict_keys (status (pm s))) - {n}"
      "n \<in> set (dict_keys (status (pm t))) \<longleftrightarrow> completed_shape (replica_shape r)"
  shows "controller_inv t"
proof -
  have ok: "replicas_ok (policy_replicas (pm s))" and wf: "dict_wf (policy_replicas (pm s))"
    using inv by (auto simp: controller_inv_def policy_inv_def replicas_ok_def)
  then have wf': "dict_wf (skeleton (policy_replicas (pm s)))" by (simp add: dict_wf_def skeleton_keys flip: dict_keys_def)
  have others: "m \<in> set (dict_keys (status (pm t))) \<longleftrightarrow> m \<in> set (dict_keys (status (pm s)))" if "m \<noteq> n" for m
    using st(2) that by blast
  have "fst (snd sh) = POLICY \<and> (m \<in> set (dict_keys (status (pm t))) \<longleftrightarrow> completed_shape sh)"
    if "(m, sh) \<in> set (skeleton (policy_replicas (pm t)))" for m sh
  proof (cases "m = n")
    case True
    then have "sh = replica_shape r" using that wf' by (simp add: t skeleton_set dict_set_mem)
    then show ?thesis using True st(3) r(3) by (simp add: replica_shape_def)
  next
    case False
    then have "(m, sh) \<in> set (skeleton (policy_replicas (pm s)))" using that wf' by (simp add: t skeleton_set dict_set_mem)
    then show ?thesis using inv others [OF False] by (auto simp: controller_inv_def policy_inv_def)
  qed
  moreover have "replicas_ok (policy_replicas (pm t))" using replicas_ok_set [OF ok r(1,2)] by (simp add: t)
  moreover have "m \<in> set (dict_keys (policy_replicas (pm t)))" if "m \<in> set (dict_keys (status (pm t)))" for m
    using that inv others [of m] by (cases "m = n") (auto simp: t dict_keys_set controller_inv_def policy_inv_def)
  ultimately have "policy_inv t" using st(1) by (auto simp: policy_inv_def)
  then show ?thesis using inv by (simp add: controller_inv_def rollout_inv_def t)
qed

text \<open>What follows once the atom is stored.\<close>

definition after_store :: "side \<Rightarrow> atom \<Rightarrow> unit ctl \<Rightarrow> unit ctl" where
  "after_store sd a arrived_now =
     bnd (deref sd (at_replica_name a)) (\<lambda>r.
     bnd (lift_sum (all_atoms_arrived r)) (\<lambda>arrived. guarded arrived arrived_now))"

lemma policy_register_after:
  assumes "add_atom PolicySide POLICY a s = Ok () t"
  shows "\<exists>u. registries u = registries t \<and> policy_register a s = after_store PolicySide a (policy_arrived a) u"
proof -
  define m :: "unit ctl" where "m = bnd (bind_atom PolicySide a) (\<lambda>_.
     with_state (\<lambda>s. guarded (\<not> policy_init_done (pm s)
         \<and> cf_policy_n_init_replicas (cfg s) < int (length (policy_replicas (pm s))))
       (modify (cfg_update (cf_policy_n_init_replicas_update (\<lambda>_. int (length (policy_replicas (pm s)))))))))"
  have "keeps registries m" unfolding m_def by (intro frame op_frame) simp_all
  moreover have "\<exists>u. m t = Ok () u" by (simp add: m_def bind_atom_def adjust_replica_def modify_def)
  then obtain u where u: "m t = Ok () u" by blast
  ultimately have "registries u = registries t" by (rule keeps_Ok)
  moreover have "policy_register a s = bnd m (\<lambda>_. after_store PolicySide a (policy_arrived a)) t"
    using assms by (simp add: policy_register_def after_store_def m_def bnd_assoc)
  then have "policy_register a s = after_store PolicySide a (policy_arrived a) u" using u by simp
  ultimately show ?thesis by blast
qed

lemma policy_register_inv:
  assumes inv: "controller_inv s" and a: "good_atom a"
  shows "controller_inv (final (policy_register a s))"
proof -
  let ?n = "at_replica_name a" and ?k = "prod_list (at_group_size a)" and ?r = "joined PolicySide POLICY a s"
  have ok: "replicas_ok (replicas_of PolicySide s)" using inv by (simp add: controller_inv_def policy_inv_def)
  consider "add_atom PolicySide POLICY a s = Raise AssertionError s"
    | "add_atom PolicySide POLICY a s = Ok () (replicas_upd PolicySide (dict_set ?n ?r) s)"
      "\<forall>r. dict_get (replicas_of PolicySide s) ?n = Some r \<longrightarrow> dict_get (r_atoms r) (atom_key a) = None
            \<and> (\<forall>b \<in> set (dict_values (r_atoms r)). at_group_size b = at_group_size a)"
    using add_atom_cases [OF ok a, of POLICY] by blast
  then show ?thesis
  proof cases
    case 1
    then show ?thesis using inv by (simp add: policy_register_def)
  next
    case 2
    define old where "old = (case dict_get (replicas_of PolicySide s) ?n of None \<Rightarrow> 0 | Some r \<Rightarrow> length (r_atoms r))"
    note joined = joined_ok(1-5) [OF ok 2(2), where role = POLICY, folded old_def] joined_ok(6) [OF ok 2(2), folded old_def]
    let ?t = "replicas_upd PolicySide (dict_set ?n ?r) s"
    have pos: "0 < ?k" using a prod_list_pos by (simp add: good_atom_def)
    have mem: "(m, sh) \<in> set (skeleton (policy_replicas (pm s)))" if "dict_get (policy_replicas (pm s)) m = Some r" "sh = replica_shape r" for m r sh
      using that skeleton_get [of "policy_replicas (pm s)" m] by (auto intro!: map_of_SomeD dest: sym)
    have role: "r_role ?r = POLICY"
    proof (cases "dict_get (policy_replicas (pm s)) ?n")
      case (Some r)
      then show ?thesis using mem [OF Some refl] inv joined(5)
        by (auto simp: controller_inv_def policy_inv_def replica_shape_def)
    qed (use joined(5) in simp)
    have before: "?n \<in> set (dict_keys (status (pm s))) \<longleftrightarrow> ?k \<le> int old"
    proof (cases "dict_get (policy_replicas (pm s)) ?n")
      case None
      then have "?n \<notin> set (dict_keys (status (pm s)))"
        using inv by (auto simp: dict_get_None_iff controller_inv_def policy_inv_def)
      moreover have "old = 0" using None by (simp add: old_def)
      ultimately show ?thesis using pos by simp
    next
      case (Some r)
      then show ?thesis using mem [OF Some refl] inv joined(6) by (auto simp: controller_inv_def policy_inv_def)
    qed
    obtain u where u: "registries u = registries ?t"
      and run: "policy_register a s = after_store PolicySide a (policy_arrived a) u"
      using policy_register_after [OF 2(1)] by blast
    have "map_of (skeleton (policy_replicas (pm u))) ?n = Some (replica_shape ?r)"
      using u skeleton_get [of "policy_replicas (pm ?t)" ?n] by (simp add: registries_def dict_simps)
    then obtain r' where r': "dict_get (policy_replicas (pm u)) ?n = Some r'" "replica_shape r' = replica_shape ?r"
      using skeleton_get [of "policy_replicas (pm u)" ?n] by auto
    then have "all_atoms_arrived r' = Inr (int old + 1 = ?k)"
      using joined(3) by (simp add: all_atoms_arrived_of_shape)
    then have then_run: "policy_register a s = guarded (int old + 1 = ?k) (policy_arrived a) u"
      using r' unfolding run by (simp add: after_store_def deref_def dict_item_def)
    have store: "controller_inv w" if "policy_replicas (pm w) = dict_set ?n ?r (policy_replicas (pm s))" "rm w = rm s"
      "dict_wf (status (pm w))" "set (dict_keys (status (pm w))) - {?n} = set (dict_keys (status (pm s))) - {?n}"
      "?n \<in> set (dict_keys (status (pm w))) \<longleftrightarrow> ?k \<le> int old + 1" for w
      using store_controller_inv [OF inv joined(1,2) role] that joined(4) by blast
    have wf: "dict_wf (status (pm s))" using inv by (simp add: controller_inv_def policy_inv_def)
    show ?thesis
    proof (cases "int old + 1 = ?k")
      case True
      then have none: "?n \<notin> set (dict_keys (status (pm s)))" using before by simp
      have "controller_inv (pm_update (status_update (dict_set ?n UNINITIALIZED)) ?t)"
        using True wf by (intro store) (auto simp: dict_keys_set)
      then have "almost_inv ?n ?t" using none by (simp add: almost_inv_def dict_get_None_iff)
      then have "almost_inv ?n u"
        using almost_inv_registries [OF u] by blast
      then show ?thesis using policy_arrived_inv then_run True by simp
    next
      case False
      have "controller_inv ?t" using False before wf by (intro store) auto
      then have "controller_inv u" using u policy_inv_registries rollout_inv_registries by (metis controller_inv_def)
      then show ?thesis using then_run False by simp
    qed
  qed
qed

lemma rollout_register_inv:
  assumes inv: "controller_inv s" and a: "good_atom a"
  shows "controller_inv (final (rollout_register a s))"
proof -
  let ?n = "at_replica_name a" and ?r = "joined RolloutSide ROLLOUT a s"
  have ok: "replicas_ok (replicas_of RolloutSide s)" using inv by (simp add: controller_inv_def rollout_inv_def)
  define rest :: "unit ctl" where "rest = block [
     bind_atom RolloutSide a,
     with_state (\<lambda>s. guarded (\<not> rollout_init_done (rm s)
         \<and> cf_rollout_n_init_replicas (cfg s) < int (length (rollout_replicas (rm s))))
       (modify (cfg_update (cf_rollout_n_init_replicas_update (\<lambda>_. int (length (rollout_replicas (rm s)))))))),
     bnd (deref RolloutSide (at_replica_name a)) (\<lambda>r.
     bnd (lift_sum (all_atoms_arrived r)) (\<lambda>arrived.
     guarded arrived (rollout_arrived a)))]"
  have keeps: "keeps registries rest" unfolding rest_def by (intro frame op_frame) simp_all
  have reg: "rollout_register a = bnd (add_atom RolloutSide ROLLOUT a) (\<lambda>_. rest)"
    by (simp add: rollout_register_def rest_def)
  consider "add_atom RolloutSide ROLLOUT a s = Raise AssertionError s"
    | "add_atom RolloutSide ROLLOUT a s = Ok () (replicas_upd RolloutSide (dict_set ?n ?r) s)"
      "\<forall>r. dict_get (replicas_of RolloutSide s) ?n = Some r \<longrightarrow> dict_get (r_atoms r) (atom_key a) = None
            \<and> (\<forall>b \<in> set (dict_values (r_atoms r)). at_group_size b = at_group_size a)"
    using add_atom_cases [OF ok a, of ROLLOUT] by blast
  then show ?thesis
  proof cases
    case 1
    then show ?thesis using inv by (simp add: reg)
  next
    case 2
    note joined = joined_ok(1,2,5) [OF ok 2(2), where role = ROLLOUT]
    let ?t = "replicas_upd RolloutSide (dict_set ?n ?r) s"
    have wf': "dict_wf (skeleton (rollout_replicas (rm s)))"
      using ok by (simp add: replicas_ok_def dict_wf_def skeleton_keys flip: dict_keys_def)
    have role: "r_role ?r = ROLLOUT"
    proof (cases "dict_get (rollout_replicas (rm s)) ?n")
      case (Some r)
      then have "(?n, replica_shape r) \<in> set (skeleton (rollout_replicas (rm s)))"
        using skeleton_get [of "rollout_replicas (rm s)" ?n] by (auto intro!: map_of_SomeD dest: sym)
      then show ?thesis using inv joined(3) Some by (auto simp: controller_inv_def rollout_inv_def replica_shape_def)
    qed (use joined(3) in simp)
    have "fst (snd sh) = ROLLOUT" if "(m, sh) \<in> set (skeleton (rollout_replicas (rm ?t)))" for m sh
      using that wf' role inv
      by (auto simp: skeleton_set dict_set_mem controller_inv_def rollout_inv_def replica_shape_def split: if_splits)
    moreover have "replicas_ok (rollout_replicas (rm ?t))" using replicas_ok_set [OF ok joined(1,2)] by simp
    moreover have "policy_inv ?t" using inv by (simp add: controller_inv_def policy_inv_def)
    ultimately have "controller_inv ?t" by (auto simp: controller_inv_def rollout_inv_def)
    then show ?thesis using controller_inv_keeps [OF keeps] 2(1) by (simp add: reg)
  qed
qed

section \<open>Requests and runs\<close>

text \<open>The requests of the web panel that change the controller, a pass of its monitoring thread, the end of
  a window of NCCL errors, and time passing.\<close>

datatype request =
    Register register_request
  | Unregister string
  | SetProfile set_profile_request
  | SetTracePath string string int
  | Heartbeat string
  | CommError string
  | CommErrorWindow int
  | NextPrompt int "int option" "int option"
  | ValidationReport int "payload list"
  | PutRollouts string "payload list" "(string, int) dict" bool
  | TrainAck string int int bool metrics
  | MonitorPass
  | Clock rat

definition handle_register :: "register_request \<Rightarrow> unit ctl" where
  "handle_register rq = bnd (lift_sum (validate_mesh_names rq)) (\<lambda>rq.
     register (from_register_request rq) (rq_role rq))"

definition handle_validation_report :: "int \<Rightarrow> payload list \<Rightarrow> unit ctl" where
  "handle_validation_report step payloads =
     bnd (lift_sum (extract_rollouts payloads True True)) (\<lambda>rollouts_list.
     validation_report_validation_results step rollouts_list)"

text \<open>A handler answers an exception with an error response; what had been changed by then stays.\<close>

primrec handle :: "request \<Rightarrow> world \<Rightarrow> world" where
  "handle (Register rq) s = final (handle_register rq s)"
| "handle (Unregister name) s = final (unregister name s)"
| "handle (SetProfile rq) s = final (set_profile rq s)"
| "handle (SetTracePath name path rank) s = final (set_trace_path name path rank s)"
| "handle (Heartbeat name) s = final (replica_heartbeat name s)"
| "handle (CommError name) s = final (report_ncclerror name s)"
| "handle (CommErrorWindow i) s = final (ncclerror_window_closed i s)"
| "handle (NextPrompt n step rank) s = final (controller_get_batched_prompt n step rank s)"
| "handle (ValidationReport step payloads) s = final (handle_validation_report step payloads s)"
| "handle (PutRollouts src payloads ms is_end) s = final (put_rollout_group src payloads ms is_end s)"
| "handle (TrainAck name step tot profile_finished data) s = final (train_ack name step tot profile_finished data s)"
| "handle MonitorPass s = final (monitor_replica_status s)"
| "handle (Clock t) s = s\<lparr>now := t\<rparr>"

primrec positive_sizes :: "request \<Rightarrow> bool" where
  "positive_sizes (Register rq) = (\<forall>g \<in> set (rq_group_size rq). 0 < g)"
| "positive_sizes (Unregister name) = True"
| "positive_sizes (SetProfile rq) = True"
| "positive_sizes (SetTracePath name path rank) = True"
| "positive_sizes (Heartbeat name) = True"
| "positive_sizes (CommError name) = True"
| "positive_sizes (CommErrorWindow i) = True"
| "positive_sizes (NextPrompt n step rank) = True"
| "positive_sizes (ValidationReport step payloads) = True"
| "positive_sizes (PutRollouts src payloads ms is_end) = True"
| "positive_sizes (TrainAck name step tot profile_finished data) = True"
| "positive_sizes MonitorPass = True"
| "positive_sizes (Clock t) = True"

inductive reachable :: "world \<Rightarrow> world \<Rightarrow> bool" for s0 where
  start: "reachable s0 s0"
| request: "reachable s0 s \<Longrightarrow> positive_sizes rq \<Longrightarrow> reachable s0 (handle rq s)"

definition no_replicas :: "world \<Rightarrow> bool" where
  "no_replicas s \<longleftrightarrow> policy_replicas (pm s) = [] \<and> status (pm s) = [] \<and> rollout_replicas (rm s) = []"

lemma register_inv:
  "controller_inv s \<Longrightarrow> good_atom a \<Longrightarrow> controller_inv (final (register a role s))"
  using policy_register_inv rollout_register_inv
    controller_inv_keeps [OF keeps_modify_other, of "teacher_result_manager_update (\<lambda>ts. if at_replica_name a \<in> set ts then ts else ts @ [at_replica_name a])"]
  by (auto simp: register_def)

lemma accepted_good:
  assumes "validate_mesh_names rq = Inr rq'" "\<forall>g \<in> set (rq_group_size rq). 0 < g"
  shows "good_atom (from_register_request rq')"
proof -
  have ok: "request_shape_ok rq" "set (rq_mesh_names rq) = set MESH_NAMES" and rq': "rq' = rebuilt rq"
    using assms(1) by (auto simp: validate_cases split: if_splits)
  have "0 < snd (the (dict_get (original_map rq) m))" if "m \<in> set MESH_NAMES" for m
  proof -
    have "dict_get (original_map rq) m \<noteq> None"
      using that ok original_map_None [of rq m] by (simp add: request_shape_ok_def)
    then obtain x y where "dict_get (original_map rq) m = Some (x, y)" by auto
    then have "(m, x, y) \<in> set (rev (zip (rq_mesh_names rq) (zip (rq_ranks rq) (rq_group_size rq))))"
      unfolding original_map_get by (rule map_of_SomeD)
    then have "y \<in> set (rq_group_size rq)" by (auto dest!: set_zip_rightD)
    with \<open>dict_get (original_map rq) m = Some (x, y)\<close> show ?thesis using assms(2) by simp
  qed
  then show ?thesis
    by (simp add: good_atom_def from_register_request_def atom_init_def rq' rebuilt_def MESH_NAMES_def)
qed

lemma handle_inv: "controller_inv s \<Longrightarrow> positive_sizes rq \<Longrightarrow> controller_inv (handle rq s)"
proof (cases rq)
  case (Register r)
  assume "controller_inv s" "positive_sizes rq"
  with Register show ?thesis
    by (cases "validate_mesh_names r") (auto simp: handle_register_def intro!: register_inv accepted_good)
next
  case (Clock t)
  assume "controller_inv s"
  with Clock show ?thesis by (simp add: controller_inv_def policy_inv_def rollout_inv_def)
qed (auto simp: handle_validation_report_def intro!: controller_inv_keeps frame op_frame
      unregister_maintains [unfolded maintains_def, rule_format])

lemma no_replicas_inv: "no_replicas s \<Longrightarrow> controller_inv s"
  by (simp add: no_replicas_def controller_inv_def policy_inv_def rollout_inv_def replicas_ok_def skeleton_def dict_keys_def)

lemma reachable_inv: "reachable s0 s \<Longrightarrow> controller_inv s0 \<Longrightarrow> controller_inv s"
  by (induction rule: reachable.induct) (auto intro: handle_inv)

text \<open>C2: in every state the controller can reach from one without replicas by handling requests in any
  order - whatever raises on the way, as long as registered group sizes are positive - every
  registered replica is stored under its own name with the role of its manager, its atoms under
  their own keys, with the same group sizes; and a policy replica has a status exactly if as many
  atoms have arrived as its group sizes ask for, so every arrived policy replica has one.\<close>

theorem registries_consistent:
  assumes "reachable s0 s" "no_replicas s0"
  shows "replicas_ok (policy_replicas (pm s)) \<and> replicas_ok (rollout_replicas (rm s))
    \<and> (\<forall>n r. dict_get (policy_replicas (pm s)) n = Some r \<longrightarrow> r_role r = POLICY
         \<and> (dict_get (status (pm s)) n \<noteq> None
              \<longleftrightarrow> (\<exists>a \<in> set (dict_values (r_atoms r)). prod_list (at_group_size a) \<le> int (length (r_atoms r)))))
    \<and> (\<forall>n r. dict_get (rollout_replicas (rm s)) n = Some r \<longrightarrow> r_role r = ROLLOUT)
    \<and> (\<forall>n. dict_get (status (pm s)) n \<noteq> None \<longrightarrow> dict_get (policy_replicas (pm s)) n \<noteq> None)
    \<and> (\<forall>n \<in> set (arrived_list PolicySide s). dict_get (status (pm s)) n \<noteq> None)"
proof -
  have inv: "controller_inv s" using reachable_inv [OF assms(1) no_replicas_inv [OF assms(2)]] .
  then have p: "policy_inv s" and r: "rollout_inv s" by (simp_all add: controller_inv_def)
  have "r_role r = POLICY \<and> (dict_get (status (pm s)) n \<noteq> None
         \<longleftrightarrow> (\<exists>a \<in> set (dict_values (r_atoms r)). prod_list (at_group_size a) \<le> int (length (r_atoms r))))"
    if "dict_get (policy_replicas (pm s)) n = Some r" for n r
  proof -
    have "map_of (skeleton (policy_replicas (pm s))) n = Some (replica_shape r)"
      using that skeleton_get [of "policy_replicas (pm s)" n] by simp
    then have "(n, replica_shape r) \<in> set (skeleton (policy_replicas (pm s)))" by (rule map_of_SomeD)
    then have sh: "r_role r = POLICY" "n \<in> set (dict_keys (status (pm s))) \<longleftrightarrow> completed_shape (replica_shape r)"
      using p by (auto simp: policy_inv_def replica_shape_def)
    have ri: "replica_inv r" using p replicas_ok_get [OF _ that] by (simp add: policy_inv_def)
    then obtain k b ats where ats: "r_atoms r = (k, b) # ats" by (cases "r_atoms r") (auto simp: replica_inv_def)
    then have "completed_shape (replica_shape r) \<longleftrightarrow> prod_list (at_group_size b) \<le> int (length (r_atoms r))"
      by (simp add: completed_shape_def replica_shape_def atom_shape_def)
    moreover have b: "b \<in> set (dict_values (r_atoms r))" by (simp add: ats dict_values_def)
    moreover have "at_group_size a = at_group_size b" if "a \<in> set (dict_values (r_atoms r))" for a
      using ri that b unfolding replica_inv_def by blast
    ultimately show ?thesis using sh by (metis dict_get_None_iff)
  qed
  moreover have "r_role r = ROLLOUT" if "dict_get (rollout_replicas (rm s)) n = Some r" for n r
  proof -
    have "(n, replica_shape r) \<in> set (skeleton (rollout_replicas (rm s)))"
      using that skeleton_get [of "rollout_replicas (rm s)" n] by (auto intro!: map_of_SomeD dest: sym)
    then show ?thesis using \<open>rollout_inv s\<close> by (auto simp: rollout_inv_def replica_shape_def)
  qed
  moreover have "dict_get (status (pm s)) n \<noteq> None" if "n \<in> set (arrived_list PolicySide s)" for n
    using policy_inv_arrived [OF p that] by blast
  ultimately show ?thesis using p r
    unfolding policy_inv_def rollout_inv_def dict_get_None_iff by blast
qed

definition empty_world :: world where
  "empty_world = sample_world\<lparr>
     pm := (pm sample_world)\<lparr>policy_replicas := [], policy_init_done := False, status := [], policy_atoms_in_replica := None,
       first_policy_replica_arrived := False\<rparr>,
     rm := (rm sample_world)\<lparr>rollout_replicas := [], rollout_init_done := False, rollout_atoms_in_replica := None\<rparr>\<rparr>"

definition sample_run :: world where
  "sample_run = handle (Unregister ''p9'') (handle (Register sample_request) empty_world)"

theorem registries_consistent_witness:
  "replicas_ok (policy_replicas (pm sample_run))
   \<and> list_all (\<lambda>n. dict_get (status (pm sample_run)) n \<noteq> None) (arrived_list PolicySide sample_run)"
proof -
  have "positive_sizes (Register sample_request)" by (simp add: sample_request_def)
  then have "reachable empty_world sample_run"
    unfolding sample_run_def by (intro reachable.intros) simp_all
  moreover have "no_replicas empty_world" by (simp add: no_replicas_def empty_world_def)
  ultimately show ?thesis using registries_consistent [of empty_world sample_run] unfolding list_all_iff by blast
qed

end
