(* ===== verification/Step_Acks.thy ===== *)
theory Step_Acks
  imports Training_Flow
begin

text \<open>
  What acknowledging a training step does (\<open>train_ack\<close>, \<open>trigger_weight_sync\<close> and
  \<open>check_checkpoint_saving\<close> of \<open>cosmos_rl/dispatcher/status.py\<close>): waiting for the other replicas, sending
  the new weights to the rollout replicas, and when a step saves a checkpoint.
\<close>

section \<open>Sending weights to the rollout replicas\<close>

definition in_mesh_at :: "(string, replica) dict \<Rightarrow> string \<Rightarrow> bool" where
  "in_mesh_at d n \<longleftrightarrow> (case dict_get d n of None \<Rightarrow> False | Some r \<Rightarrow> in_mesh r)"

definition loaded_at :: "(string, replica) dict \<Rightarrow> string \<Rightarrow> bool" where
  "loaded_at d n \<longleftrightarrow> (case dict_get d n of None \<Rightarrow> False | Some r \<Rightarrow> r_weights_loaded r)"

lemma in_mesh_mark [simp]: "in_mesh (mark_loaded r) = in_mesh r"
  by (simp add: in_mesh_def mark_loaded_def)

lemma loaded_mark [simp]: "r_weights_loaded (mark_loaded r)"
  by (simp add: mark_loaded_def)

lemma in_mesh_at_adjust [simp]: "in_mesh_at (dict_adjust m mark_loaded d) = in_mesh_at d"
  by (rule ext) (auto simp: in_mesh_at_def dict_simps split: option.split)

lemma loaded_at_adjust: "loaded_at (dict_adjust m mark_loaded d) n \<longleftrightarrow> loaded_at d n \<or> n = m \<and> dict_get d m \<noteq> None"
  by (auto simp: loaded_at_def dict_simps split: option.split)

lemma broadcast_loop:
  assumes "\<forall>n \<in> set ns. dict_get (rollout_replicas (rm s)) n \<noteq> None" "redis_up s"
  shows "for_each ns (\<lambda>n. bnd (deref RolloutSide n) (\<lambda>d. guarded (in_mesh d)
           (block [publish_command c n, adjust_replica RolloutSide n mark_loaded]))) s
    = Ok () (sent (map (\<lambda>n. (n @ ''_command'', CommandMsg c)) (filter (in_mesh_at (rollout_replicas (rm s))) ns))
        (replicas_upd RolloutSide (fold (\<lambda>n. dict_adjust n mark_loaded) (filter (in_mesh_at (rollout_replicas (rm s))) ns)) s))"
  using assms
proof (induction ns arbitrary: s)
  case Nil
  then show ?case by (cases s; cases "rm s") simp
next
  case (Cons n ns)
  obtain r where r: "dict_get (rollout_replicas (rm s)) n = Some r" using Cons.prems by auto
  show ?case
  proof (cases "in_mesh r")
    case False
    then show ?thesis using Cons.IH [of s] Cons.prems r
      by (simp add: deref_def dict_item_def in_mesh_at_def)
  next
    case True
    let ?t = "replicas_upd RolloutSide (dict_adjust n mark_loaded) s"
    let ?m = "(n @ ''_command'', CommandMsg c)"
    have pre: "\<forall>m \<in> set ns. dict_get (rollout_replicas (rm (sent [?m] ?t))) m \<noteq> None" "redis_up (sent [?m] ?t)"
      using Cons.prems by (auto simp: dict_simps redis_up_def)
    have swap: "rm_update f (sent ms w) = sent ms (rm_update f w)" for f ms and w :: world
      by (cases w) (simp add: sent_def)
    have "bnd (deref RolloutSide n) (\<lambda>d. guarded (in_mesh d)
        (block [publish_command c n, adjust_replica RolloutSide n mark_loaded])) s = Ok () (sent [?m] ?t)"
      using True r Cons.prems by (simp add: deref_def dict_item_def publish_command_up adjust_replica_def swap)
    then show ?thesis
      using Cons.IH [OF pre] True r by (simp add: in_mesh_at_def swap comp_def del: guarded_run block.simps)
  qed
qed

definition p2r_command :: "world \<Rightarrow> string \<Rightarrow> string \<Rightarrow> int \<Rightarrow> int \<Rightarrow> int \<Rightarrow> int \<Rightarrow> command" where
  "p2r_command s src dst src_size dst_size step tot = PolicyToRolloutUnicast (ev_uuid (ev s) (uuid_counter s)) src dst
     src_size dst_size (do_weight_sync_check_flag s) (loaded_at (rollout_replicas (rm s)) dst) (Some step) (Some tot)"

text \<open>The receivers are told to train only if all of them, the first one included now, have weights.\<close>

definition r2r_command :: "world \<Rightarrow> string \<Rightarrow> string list \<Rightarrow> int \<Rightarrow> int \<Rightarrow> command" where
  "r2r_command s dst ns step tot = RolloutToRolloutBroadcast (ev_uuid (ev s) (Suc (uuid_counter s))) dst ns (Some step) (Some tot)
     (\<forall>n \<in> set ns. n \<noteq> dst \<longrightarrow> loaded_at (rollout_replicas (rm s)) n)"

definition weights_sent :: "world \<Rightarrow> string \<Rightarrow> string list \<Rightarrow> int \<Rightarrow> int \<Rightarrow> int \<Rightarrow> int \<Rightarrow> (string \<times> message) list" where
  "weights_sent s src ns src_size dst_size step tot =
     (let dst = hd ns; p2r = CommandMsg (p2r_command s src dst src_size dst_size step tot);
          r2r = CommandMsg (r2r_command s dst ns step tot); member = in_mesh_at (rollout_replicas (rm s)) in
      [(src @ ''_command'', p2r), (dst @ ''_command'', p2r)]
      @ (if member dst then map (\<lambda>n. (n @ ''_command'', r2r)) (filter member ns) else []))"

lemma all_loaded_run:
  "\<forall>n \<in> set ns. dict_get d n \<noteq> None \<Longrightarrow>
   efold (\<lambda>n b. ebind (dict_item d n) (\<lambda>r. Inr (b \<and> r_weights_loaded r))) ns b = Inr (b \<and> (\<forall>n \<in> set ns. loaded_at d n))"
  by (induction ns arbitrary: b) (auto simp: dict_item_def loaded_at_def)

lemma p2r_run:
  assumes "dict_get (rollout_replicas (rm s)) dst \<noteq> None" "redis_up s"
  shows "p2r_unicast_trigger src dst src_size dst_size (Some step) (Some tot) s
    = Ok () (do_weight_sync_check_flag_update (\<lambda>_. False) (replicas_upd RolloutSide (dict_adjust dst mark_loaded)
        (sent [(src @ ''_command'', CommandMsg (p2r_command s src dst src_size dst_size step tot)),
               (dst @ ''_command'', CommandMsg (p2r_command s src dst src_size dst_size step tot))] (next_uuid s))))"
proof -
  obtain r where "dict_get (rollout_replicas (rm s)) dst = Some r" using assms(1) by auto
  moreover have "do_weight_sync_check_flag_update (\<lambda>_. False) w = w" if "\<not> do_weight_sync_check_flag w" for w :: world
    using that by (cases w) simp
  ultimately show ?thesis
    using assms(2) by (simp add: p2r_unicast_trigger_def deref_def dict_item_def fresh_uuid_run Let_def publish_command_up
        adjust_replica_def p2r_command_def loaded_at_def)
qed

lemma weight_sync_run:
  assumes "by_start_time RolloutSide s (arrived_list RolloutSide s) = ns" "ns \<noteq> []"
    and "replicas_ok (rollout_replicas (rm s))" "redis_up s"
    and "policy_atoms_in_replica (pm s) = Some src_size" "rollout_atoms_in_replica (rm s) = Some dst_size"
  shows "\<exists>s'. trigger_weight_sync (Some src) step tot s = Ok () s'
    \<and> redis_log s' = redis_log s @ weights_sent s src ns src_size dst_size step tot
    \<and> (\<forall>n. loaded_at (rollout_replicas (rm s')) n \<longleftrightarrow> loaded_at (rollout_replicas (rm s)) n \<or> n = hd ns
         \<or> in_mesh_at (rollout_replicas (rm s)) (hd ns) \<and> n \<in> set ns \<and> in_mesh_at (rollout_replicas (rm s)) n)
    \<and> pm s' = pm s \<and> fetcher s' = fetcher s \<and> cfg s' = cfg s"
proof -
  define dst where "dst = hd ns"
  obtain rest where ns: "ns = dst # rest" using assms(2) by (cases ns) (auto simp: dst_def)
  let ?d = "rollout_replicas (rm s)"
  have known: "\<forall>n \<in> set ns. dict_get ?d n \<noteq> None"
    using arrived_list_arrived [of _ RolloutSide s] unfolding assms(1) [symmetric] by (auto simp: arrived_in_def)
  then have "dict_get ?d dst \<noteq> None" using assms(2) by (simp add: dst_def)
  then obtain r where r: "dict_get ?d dst = Some r" by auto
  let ?p2r = "p2r_command s src dst src_size dst_size step tot"
  define s1 where "s1 = do_weight_sync_check_flag_update (\<lambda>_. False) (replicas_upd RolloutSide (dict_adjust dst mark_loaded)
        (sent [(src @ ''_command'', CommandMsg ?p2r), (dst @ ''_command'', CommandMsg ?p2r)] (next_uuid s)))"
  have s1: "rollout_replicas (rm s1) = dict_adjust dst mark_loaded ?d" "redis_up s1"
    "redis_log s1 = redis_log s @ [(src @ ''_command'', CommandMsg ?p2r), (dst @ ''_command'', CommandMsg ?p2r)]"
    "uuid_counter s1 = Suc (uuid_counter s)" "ev s1 = ev s" "pm s1 = pm s" "fetcher s1 = fetcher s" "cfg s1 = cfg s"
    using assms(4) by (simp_all add: s1_def redis_up_def)
  have arr: "get_all_atoms_arrived_replicas RolloutSide s = Ok (arrived_list RolloutSide s) s"
    using get_all_atoms_arrived_run [of RolloutSide s] assms(3) by simp
  have first: "trigger_weight_sync (Some src) step tot s = r2r_broadcast_trigger dst ns (Some step) (Some tot) s1"
    using assms(5,6) p2r_run [of s dst src src_size dst_size step tot] assms(4) r
    unfolding trigger_weight_sync_def bnd_Ok [of "get_all_atoms_arrived_replicas RolloutSide" s, OF arr] with_state_run assms(1)
    by (simp add: opt_attr_def s1_def ns)
  show ?thesis
  proof (cases "in_mesh r")
    case False
    then have "trigger_weight_sync (Some src) step tot s = Ok () s1"
      unfolding first using r by (simp add: r2r_broadcast_trigger_def deref_def dict_item_def s1 dict_simps)
    moreover have "in_mesh_at ?d dst = False" using False r by (simp add: in_mesh_at_def)
    ultimately show ?thesis using r
      by (intro exI [of _ s1]) (simp add: s1 weights_sent_def Let_def loaded_at_adjust flip: dst_def)
  next
    case True
    then have mesh: "in_mesh_at ?d dst" using r by (simp add: in_mesh_at_def)
    let ?r2r = "r2r_command s dst ns step tot"
    define s2 where "s2 = sent (map (\<lambda>n. (n @ ''_command'', CommandMsg ?r2r)) (filter (in_mesh_at ?d) ns))
        (replicas_upd RolloutSide (fold (\<lambda>n. dict_adjust n mark_loaded) (filter (in_mesh_at ?d) ns)) (next_uuid s1))"
    have known1: "\<forall>n \<in> set ns. dict_get (rollout_replicas (rm s1)) n \<noteq> None"
      using known by (auto simp: s1 dict_simps)
    have "(True \<and> (\<forall>n \<in> set ns. loaded_at (rollout_replicas (rm s1)) n)) = (\<forall>n \<in> set ns. n \<noteq> dst \<longrightarrow> loaded_at ?d n)"
      using r by (auto simp: s1 loaded_at_adjust)
    then have flag: "efold (\<lambda>n b. ebind (dict_item (rollout_replicas (rm s1)) n) (\<lambda>r. Inr (b \<and> r_weights_loaded r))) ns True
        = Inr (\<forall>n \<in> set ns. n \<noteq> dst \<longrightarrow> loaded_at ?d n)"
      using all_loaded_run [OF known1, of True] by simp
    have "trigger_weight_sync (Some src) step tot s
      = for_each ns (\<lambda>n. bnd (deref RolloutSide n) (\<lambda>d. guarded (in_mesh d)
           (block [publish_command ?r2r n, adjust_replica RolloutSide n mark_loaded]))) (next_uuid s1)"
      unfolding first using True r flag
      by (simp add: r2r_broadcast_trigger_def deref_def dict_item_def dict_simps fresh_uuid_run r2r_command_def s1 del: guarded_run block.simps)
    also have "\<dots> = Ok () s2"
      using broadcast_loop [of ns "next_uuid s1" ?r2r] known1 s1 by (simp add: s2_def)
    finally have run: "trigger_weight_sync (Some src) step tot s = Ok () s2" .
    have loaded: "loaded_at (fold (\<lambda>n. dict_adjust n mark_loaded) xs d) n \<longleftrightarrow> loaded_at d n \<or> n \<in> set xs \<and> dict_get d n \<noteq> None" for xs d n
      by (induction xs arbitrary: d) (auto simp: loaded_at_adjust dict_simps)
    have "loaded_at (rollout_replicas (rm s2)) n \<longleftrightarrow> loaded_at ?d n \<or> n = dst \<or> n \<in> set ns \<and> in_mesh_at ?d n" for n
      using r known by (auto simp: s2_def s1 loaded loaded_at_adjust dict_simps)
    moreover have "redis_log s2 = redis_log s @ weights_sent s src ns src_size dst_size step tot"
      using mesh by (simp add: s2_def s1 weights_sent_def Let_def flip: dst_def)
    ultimately show ?thesis
      using run mesh by (intro exI [of _ s2]) (simp add: s2_def s1 flip: dst_def)
  qed
qed

text \<open>A weight synchronisation with Redis up sends the policy's weights to the earliest started rollout
  replica - one \<open>POLICY_TO_ROLLOUT_UNICAST\<close> command to each end - and, if that one is in the mesh, one
  \<open>ROLLOUT_TO_ROLLOUT_BROADCAST\<close> command from it to every arrived replica in the mesh, by start time;
  afterwards exactly these replicas have become loaded, and the policy side is unchanged.\<close>

theorem weights_reach_rollouts:
  assumes "by_start_time RolloutSide s (arrived_list RolloutSide s) = ns" "ns \<noteq> []"
    and "replicas_ok (rollout_replicas (rm s))" "redis_up s"
    and "policy_atoms_in_replica (pm s) = Some src_size" "rollout_atoms_in_replica (rm s) = Some dst_size"
  shows "\<exists>s'. trigger_weight_sync (Some src) step tot s = Ok () s'
    \<and> redis_log s' = redis_log s @ weights_sent s src ns src_size dst_size step tot
    \<and> (\<forall>n. loaded_at (rollout_replicas (rm s')) n \<longleftrightarrow> loaded_at (rollout_replicas (rm s)) n \<or> n = hd ns
         \<or> in_mesh_at (rollout_replicas (rm s)) (hd ns) \<and> n \<in> set ns \<and> in_mesh_at (rollout_replicas (rm s)) n)
    \<and> pm s' = pm s \<and> fetcher s' = fetcher s \<and> cfg s' = cfg s"
  using assms by (rule weight_sync_run)

lemma sample_rollout_facts:
  "by_start_time RolloutSide sample_world (arrived_list RolloutSide sample_world) = [''r0'']"
  "replicas_ok (rollout_replicas (rm sample_world))"
  "policy_atoms_in_replica (pm sample_world) = Some 1" "rollout_atoms_in_replica (rm sample_world) = Some 1"
  "in_mesh_at (rollout_replicas (rm sample_world)) ''r0''" "uuid_counter sample_world = 0"
  using sample_replicas_ok [of RolloutSide] sample_arrived_list(2)
  by (simp_all add: by_start_time_def sample_world_def in_mesh_at_def dict_get_def in_mesh_def sample_replica_def)

theorem weights_reach_rollouts_witness:
  "\<exists>s' c c'. trigger_weight_sync (Some ''p0'') 3 12 sample_world = Ok () s'
    \<and> redis_log s' = [(''p0_command'', CommandMsg c), (''r0_command'', CommandMsg c), (''r0_command'', CommandMsg c')]
    \<and> pm s' = pm sample_world"
proof -
  obtain s' where s': "trigger_weight_sync (Some ''p0'') 3 12 sample_world = Ok () s'"
    "redis_log s' = redis_log sample_world @ weights_sent sample_world ''p0'' [''r0''] 1 1 3 12" "pm s' = pm sample_world"
    using weights_reach_rollouts [OF sample_rollout_facts(1) _ sample_rollout_facts(2) sample_redis_up sample_rollout_facts(3,4),
        of "''p0''" 3 12] by blast
  show ?thesis
    by (rule exI [of _ s'], rule exI [of _ "p2r_command sample_world ''p0'' ''r0'' 1 1 3 12"],
        rule exI [of _ "r2r_command sample_world ''r0'' [''r0''] 3 12"])
      (simp add: s' weights_sent_def sample_rollout_facts sample_step_ready Let_def)
qed

section \<open>Acknowledging a step\<close>

definition acked :: "metrics \<Rightarrow> world \<Rightarrow> world" where
  "acked data = pm_update (report_data_list_update (\<lambda>l. Some (or_nil l @ [data])))"

lemma train_ack_run:
  assumes "cf_type (cfg s) \<noteq> ''sft''"
  shows "train_ack n step tot pf data s =
     (if \<not> has_replica PolicySide n s then Raise GenericException s
      else if dict_get (status (pm s)) n = None then Raise AssertionError (acked data s)
      else (let t = pm_update (status_update (dict_set n REDUCED)) (acked data s) in
        if all_reduced (pm t) then finish_reduced_step n step tot pf t else Ok () t))"
  using assms
  by (auto simp: train_ack_def acked_def upd_pm_def bnd_check set_status_def Let_def)

lemma train_ack_unknown:
  "\<not> has_replica PolicySide n s \<Longrightarrow> train_ack n step tot pf data s = Raise GenericException s"
  by (simp add: train_ack_def bnd_check)

text \<open>C17: the acknowledgement of a step is refused for an unknown replica, whatever the state and the kind of
  training, and changes nothing. Outside SFT, for a replica without a status it fails, but the report has been
  stored by then; and while some other replica has not reduced the step it only marks the sender \<open>REDUCED\<close> and
  stores its report: no message is sent and no other status or counter changes.\<close>

theorem train_ack_waits:
  shows "(dict_get (policy_replicas (pm s)) n = None \<longrightarrow>
      train_ack n step tot profile_finished data s = Raise GenericException s)
    \<and> (dict_get (policy_replicas (pm s)) n \<noteq> None \<and> cf_type (cfg s) \<noteq> ''sft'' \<longrightarrow>
      (let t = pm_update (report_data_list_update (\<lambda>l. Some (or_nil l @ [data]))) s in
        (dict_get (status (pm s)) n = None \<longrightarrow>
           train_ack n step tot profile_finished data s = Raise AssertionError t)
        \<and> (dict_get (status (pm s)) n \<noteq> None \<and> dict_get (status (pm s)) m = Some st \<and> st \<noteq> REDUCED \<and> m \<noteq> n \<longrightarrow>
           train_ack n step tot profile_finished data s = Ok () (pm_update (status_update (dict_set n REDUCED)) t))))"
proof -
  let ?t = "pm_update (status_update (dict_set n REDUCED)) (acked data s)"
  have "\<not> all_reduced (pm ?t)" if "dict_get (status (pm s)) m = Some st" "st \<noteq> REDUCED" "m \<noteq> n"
  proof -
    have "dict_get (status (pm ?t)) m = Some st" using that by (simp add: acked_def dict_simps)
    then have "st \<in> set (dict_values (status (pm ?t)))" by (force simp: dict_get_def dict_values_def dest: map_of_SomeD)
    then show ?thesis using that(2) by (auto simp: all_reduced_def all_with_status_def)
  qed
  then show ?thesis using train_ack_run [of s n step tot profile_finished data] train_ack_unknown [of n s step tot profile_finished data]
    by (auto simp: Let_def has_replica_def acked_def)
qed

text \<open>Three acknowledgements on the same state: of a replica that it knows, of one that it does not, and of one
  that has lost its status.\<close>

definition statusless_world :: world where
  "statusless_world = pm_update (status_update (dict_pop ''p0'')) sample_world"

theorem train_ack_waits_witness:
  "train_ack ''p0'' 3 12 False [] sample_world = Ok () (pm_update (status_update (dict_set ''p0'' REDUCED))
     (pm_update (report_data_list_update (\<lambda>l. Some (or_nil l @ [[]]))) sample_world))
   \<and> train_ack ''p9'' 3 12 False [] sample_world = Raise GenericException sample_world
   \<and> train_ack ''p0'' 3 12 False [] statusless_world =
       Raise AssertionError (pm_update (report_data_list_update (\<lambda>l. Some (or_nil l @ [[]]))) statusless_world)"
proof -
  have "cf_type (cfg sample_world) \<noteq> ''sft''" "dict_get (status (pm sample_world)) ''p1'' = Some READY"
    "dict_get (status (pm sample_world)) ''p0'' = Some READY" "dict_get (policy_replicas (pm sample_world)) ''p0'' \<noteq> None"
    "dict_get (policy_replicas (pm sample_world)) ''p9'' = None"
    "cf_type (cfg statusless_world) \<noteq> ''sft''" "dict_get (status (pm statusless_world)) ''p0'' = None"
    "dict_get (policy_replicas (pm statusless_world)) ''p0'' \<noteq> None"
    by (simp_all add: statusless_world_def sample_world_def sample_config_def dict_get_def dict_pop_def)
  then show ?thesis
    using train_ack_waits [of sample_world "''p0''" 3 12 False "[]" "''p1''" READY]
      train_ack_waits [of sample_world "''p9''" 3 12 False "[]" "''p1''" READY]
      train_ack_waits [of statusless_world "''p0''" 3 12 False "[]" "''p1''" READY] by (simp add: Let_def)
qed

text \<open>The state from which the next step is tried.\<close>

lemma all_reduced_arrived:
  assumes inv: "policy_inv s" and sync: "need \<longrightarrow> replicas_ok (rollout_replicas (rm s))
      \<and> (arrived_list RolloutSide s \<noteq> [] \<longrightarrow> policy_atoms_in_replica (pm s) = Some src_size \<and> rollout_atoms_in_replica (rm s) = Some dst_size)"
    and up: "redis_up s" and ns: "by_start_time PolicySide s (arrived_list PolicySide s) = src # rest"
    and need: "need_sync_weight (cfg s) step tot = Inr need" and logs: "cf_loggers (cfg s) = []"
    and samples: "cf_train_batch_per_replica (cfg s) * int (length (arrived_list PolicySide s)) \<le> samples_on_the_fly (pm s)"
  shows "\<exists>t. finish_reduced_step n step tot False s = bnd (try_trigger_data_fetch_and_training False)
        (\<lambda>_. with_state (\<lambda>s. guarded (cf_on_policy (cfg s)) (upd_pm (on_policy_rollout_completed_update (\<lambda>_. False))))) t
    \<and> pm t = (pm s)\<lparr>status := fold (\<lambda>m. dict_set m READY) (src # rest) (status (pm s)),
        samples_on_the_fly := samples_on_the_fly (pm s) - cf_train_batch_per_replica (cfg s) * int (length (arrived_list PolicySide s))\<rparr>
    \<and> redis_log t = redis_log s @ (if need \<and> arrived_list RolloutSide s \<noteq> []
        then weights_sent s src (by_start_time RolloutSide s (arrived_list RolloutSide s)) src_size dst_size step tot else [])
    \<and> cfg t = cfg s \<and> fetcher t = fetcher s"
proof -
  let ?x = "cf_train_batch_per_replica (cfg s) * int (length (arrived_list PolicySide s))"
  let ?s1 = "pm_update (samples_on_the_fly_update (\<lambda>n. n - ?x)) s"
  let ?s2 = "pm_update (status_update (fold (\<lambda>m. dict_set m READY) (src # rest))) ?s1"
  have ok: "replicas_ok (policy_replicas (pm s))" using inv by (simp add: policy_inv_def)
  have arr: "get_all_atoms_arrived_replicas PolicySide w = Ok (arrived_list PolicySide s) w"
    if "policy_replicas (pm w) = policy_replicas (pm s)" for w
    using get_all_atoms_arrived_run [of PolicySide w] ok that by (simp add: arrived_list_def)
  have sorted: "by_start_time PolicySide ?s1 (arrived_list PolicySide s) = src # rest"
    using ns by (simp add: by_start_time_def)
  have "set (src # rest) = set (arrived_list PolicySide s)" by (metis ns set_by_start_time)
  then have "\<forall>m \<in> set (src # rest). dict_get (status (pm ?s1)) m \<noteq> None"
    using arrived_receives [OF inv] by auto
  then have ready: "for_each (src # rest) (\<lambda>m. set_status m READY) ?s1 = Ok () ?s2"
    by (rule for_each_set_status) simp
  obtain t where t: "(if need then trigger_weight_sync (Some src) step tot ?s2 else Ok () ?s2) = Ok () t"
    and pt: "pm t = pm ?s2" "cfg t = cfg s" "fetcher t = fetcher s"
    and lt: "redis_log t = redis_log s @ (if need \<and> arrived_list RolloutSide s \<noteq> []
        then weights_sent s src (by_start_time RolloutSide s (arrived_list RolloutSide s)) src_size dst_size step tot else [])"
  proof (cases "need \<and> arrived_list RolloutSide s \<noteq> []")
    case False
    have "trigger_weight_sync (Some src) step tot ?s2 = Ok () ?s2" if need
      using that False sync get_all_atoms_arrived_run [of RolloutSide ?s2]
      by (simp add: trigger_weight_sync_def arrived_list_def by_start_time_def)
    then show ?thesis using False by (intro that [of ?s2]) auto
  next
    case True
    have "arrived_list RolloutSide ?s2 = arrived_list RolloutSide s" by (simp add: arrived_list_def)
    then have bst: "by_start_time RolloutSide ?s2 (arrived_list RolloutSide ?s2) = by_start_time RolloutSide s (arrived_list RolloutSide s)"
      by (simp add: by_start_time_def)
    have ne: "by_start_time RolloutSide s (arrived_list RolloutSide s) \<noteq> []"
      using True by (metis length_by_start_time length_0_conv)
    have "\<exists>t. trigger_weight_sync (Some src) step tot ?s2 = Ok () t
      \<and> redis_log t = redis_log ?s2 @ weights_sent ?s2 src (by_start_time RolloutSide s (arrived_list RolloutSide s)) src_size dst_size step tot
      \<and> pm t = pm ?s2 \<and> fetcher t = fetcher ?s2 \<and> cfg t = cfg ?s2"
      using weight_sync_run [OF bst ne, of src_size dst_size src step tot] sync True up
      by (auto simp: redis_up_def)
    moreover have "weights_sent ?s2 src xs src_size dst_size step tot = weights_sent s src xs src_size dst_size step tot" for xs
      by (simp add: weights_sent_def p2r_command_def r2r_command_def)
    ultimately show ?thesis using True that by auto
  qed
  have "next_step_after_sync need step tot ?s1 = bnd (try_trigger_data_fetch_and_training False)
        (\<lambda>_. with_state (\<lambda>s. guarded (cf_on_policy (cfg s)) (upd_pm (on_policy_rollout_completed_update (\<lambda>_. False))))) t"
    using t ready arr [of ?s1] sorted
    by (cases need) (simp_all add: next_step_after_sync_def first_of_def del: for_each.simps)
  moreover have "finish_reduced_step n step tot False s = next_step_after_sync need step tot ?s1"
    using arr [of s] samples need logs
    by (simp add: finish_reduced_step_def account_reduced_step_def upd_pm_def try_report_reduced_step_def)
  ultimately show ?thesis using pt lt by (intro exI [of _ t]) simp
qed

lemma dict_set_mem_wf:
  "dict_wf d \<Longrightarrow> (m, v) \<in> set (dict_set n w d) \<longleftrightarrow> (if m = n then v = w else dict_get d m = Some v)"
  by (auto simp: dict_simps simp flip: dict_get_mem)

text \<open>C13: the last replica to reduce a step ends it: with reporting off, the samples of the step are taken
  off the ones on the fly, every arrived policy replica becomes \<open>READY\<close>, the weights of the earliest
  started one are sent to the rollout replicas exactly if a synchronisation is due and one has
  arrived, and then, from that state, the next step is tried.\<close>

theorem last_ack_ends_step:
  assumes "cf_type (cfg s) \<noteq> ''sft''" "policy_inv s" "redis_up s" "cf_loggers (cfg s) = []"
    and "dict_get (status (pm s)) n \<noteq> None" "\<forall>m st. m \<noteq> n \<longrightarrow> dict_get (status (pm s)) m = Some st \<longrightarrow> st = REDUCED"
    and "arrived_list PolicySide s \<noteq> []"
    and "samples = cf_train_batch_per_replica (cfg s) * int (length (arrived_list PolicySide s))"
    and "samples \<le> samples_on_the_fly (pm s)"
    and "need_sync_weight (cfg s) step tot = Inr need"
    and "need \<longrightarrow> replicas_ok (rollout_replicas (rm s)) \<and> (arrived_list RolloutSide s \<noteq> [] \<longrightarrow>
           policy_atoms_in_replica (pm s) = Some src_size \<and> rollout_atoms_in_replica (rm s) = Some dst_size)"
    and "src = hd (by_start_time PolicySide s (arrived_list PolicySide s))"
  shows "\<exists>t. train_ack n step tot False data s = bnd (try_trigger_data_fetch_and_training False)
        (\<lambda>_. with_state (\<lambda>s. guarded (cf_on_policy (cfg s)) (upd_pm (on_policy_rollout_completed_update (\<lambda>_. False))))) t
    \<and> samples_on_the_fly (pm t) = samples_on_the_fly (pm s) - samples
    \<and> (\<forall>m \<in> set (arrived_list PolicySide s). dict_get (status (pm t)) m = Some READY)
    \<and> rollout_buffer (pm t) = rollout_buffer (pm s) \<and> current_step (pm t) = current_step (pm s)
    \<and> redis_log t = redis_log s @ (if need \<and> arrived_list RolloutSide s \<noteq> []
        then weights_sent s src (by_start_time RolloutSide s (arrived_list RolloutSide s)) src_size dst_size step tot else [])"
proof -
  let ?t = "pm_update (status_update (dict_set n REDUCED)) (acked data s)"
  obtain rest where ns: "by_start_time PolicySide s (arrived_list PolicySide s) = src # rest"
    using assms(7,12) length_by_start_time [of PolicySide s "arrived_list PolicySide s"]
    by (cases "by_start_time PolicySide s (arrived_list PolicySide s)") auto
  have wf: "dict_wf (status (pm s))" using assms(2) by (simp add: policy_inv_def)
  have red: "all_reduced (pm ?t)"
  proof -
    have "x = REDUCED" if "(m, x) \<in> set (status (pm ?t))" for m x
      using that wf assms(6) by (cases "m = n") (auto simp: acked_def dict_set_mem_wf)
    then show ?thesis by (auto simp: all_reduced_def all_with_status_def dict_values_def)
  qed
  have keys: "dict_keys (status (pm ?t)) = dict_keys (status (pm s))"
    using assms(5) by (simp add: acked_def dict_keys_set dict_get_None_iff)
  have inv: "policy_inv ?t" using policy_inv_cong [of ?t s] keys assms(2) by (simp add: acked_def)
  have same: "arrived_list sd ?t = arrived_list sd s" "by_start_time sd ?t xs = by_start_time sd s xs" for sd xs
    by (cases sd; simp add: acked_def arrived_list_def by_start_time_def)+
  have w: "weights_sent ?t src xs src_size dst_size step tot = weights_sent s src xs src_size dst_size step tot" for xs
    by (simp add: acked_def weights_sent_def p2r_command_def r2r_command_def)
  have set: "set (arrived_list PolicySide s) = set (src # rest)" by (metis ns set_by_start_time)
  have "n \<in> set (dict_keys (policy_replicas (pm s)))"
    using assms(2,5) by (auto simp: policy_inv_def dict_get_None_iff)
  then have run: "train_ack n step tot False data s = finish_reduced_step n step tot False ?t"
    using train_ack_run [OF assms(1)] red assms(5) by (simp add: Let_def has_replica_def dict_get_None_iff)
  have "\<exists>t. finish_reduced_step n step tot False ?t = bnd (try_trigger_data_fetch_and_training False)
        (\<lambda>_. with_state (\<lambda>s. guarded (cf_on_policy (cfg s)) (upd_pm (on_policy_rollout_completed_update (\<lambda>_. False))))) t
    \<and> pm t = (pm ?t)\<lparr>status := fold (\<lambda>m. dict_set m READY) (src # rest) (status (pm ?t)),
        samples_on_the_fly := samples_on_the_fly (pm ?t) - cf_train_batch_per_replica (cfg ?t) * int (length (arrived_list PolicySide ?t))\<rparr>
    \<and> redis_log t = redis_log ?t @ (if need \<and> arrived_list RolloutSide ?t \<noteq> []
        then weights_sent ?t src (by_start_time RolloutSide ?t (arrived_list RolloutSide ?t)) src_size dst_size step tot else [])
    \<and> cfg t = cfg ?t \<and> fetcher t = fetcher ?t"
    by (rule all_reduced_arrived [OF inv]) (use assms ns same in \<open>auto simp: acked_def redis_up_def\<close>)
  then obtain t where t: "finish_reduced_step n step tot False ?t = bnd (try_trigger_data_fetch_and_training False)
        (\<lambda>_. with_state (\<lambda>s. guarded (cf_on_policy (cfg s)) (upd_pm (on_policy_rollout_completed_update (\<lambda>_. False))))) t"
    and pt: "pm t = (pm ?t)\<lparr>status := fold (\<lambda>m. dict_set m READY) (src # rest) (status (pm ?t)),
        samples_on_the_fly := samples_on_the_fly (pm ?t) - cf_train_batch_per_replica (cfg ?t) * int (length (arrived_list PolicySide ?t))\<rparr>"
    and lt: "redis_log t = redis_log ?t @ (if need \<and> arrived_list RolloutSide ?t \<noteq> []
        then weights_sent ?t src (by_start_time RolloutSide ?t (arrived_list RolloutSide ?t)) src_size dst_size step tot else [])"
    by blast
  have "dict_get (status (pm t)) m = Some READY" if "m \<in> set (arrived_list PolicySide s)" for m
    using that unfolding set by (auto simp: pt pydict.lookup_fold_store dict_simps)
  moreover have "redis_log t = redis_log s @ (if need \<and> arrived_list RolloutSide s \<noteq> []
        then weights_sent s src (by_start_time RolloutSide s (arrived_list RolloutSide s)) src_size dst_size step tot else [])"
    unfolding lt same w by (simp add: acked_def)
  moreover have "samples_on_the_fly (pm t) = samples_on_the_fly (pm s) - samples"
    unfolding pt same assms(8) by (simp add: acked_def)
  moreover have "rollout_buffer (pm t) = rollout_buffer (pm s)" "current_step (pm t) = current_step (pm s)"
    by (simp_all add: pt acked_def)
  ultimately show ?thesis unfolding run t by (intro exI [of _ t] conjI refl) blast+
qed

definition sample_last_ack :: world where
  "sample_last_ack = pm_update (status_update (dict_set ''p1'' REDUCED)) sample_world"

theorem last_ack_ends_step_witness:
  "\<exists>t. train_ack ''p0'' 3 12 False [] sample_last_ack = bnd (try_trigger_data_fetch_and_training False)
        (\<lambda>_. with_state (\<lambda>s. guarded (cf_on_policy (cfg s)) (upd_pm (on_policy_rollout_completed_update (\<lambda>_. False))))) t
    \<and> samples_on_the_fly (pm t) = 4 \<and> dict_get (status (pm t)) ''p1'' = Some READY \<and> length (redis_log t) = 3"
proof -
  have same: "arrived_list sd sample_last_ack = arrived_list sd sample_world"
    "by_start_time sd sample_last_ack = by_start_time sd sample_world" for sd
    by (cases sd; simp add: sample_last_ack_def arrived_list_def by_start_time_def fun_eq_iff)+
  have sorted: "by_start_time PolicySide sample_world [''p1'', ''p0''] = [''p0'', ''p1'']"
    by (simp add: by_start_time_def start_time_in_def sample_world_def dict_get_def sample_replica_ok)
  have "dict_keys (status (pm sample_last_ack)) = dict_keys (status (pm sample_world))"
    by (simp add: sample_last_ack_def dict_keys_set) (simp add: sample_world_def dict_keys_def)
  then have inv: "policy_inv sample_last_ack"
    using sample_policy_inv policy_inv_cong [of sample_last_ack sample_world] by (simp add: sample_last_ack_def)
  have st: "dict_get (status (pm sample_last_ack)) = dict_get [(''p1'', REDUCED), (''p0'', READY)]"
    by (simp add: sample_last_ack_def sample_world_def dict_set_def)
  have f: "cf_type (cfg sample_last_ack) \<noteq> ''sft''" "policy_inv sample_last_ack" "redis_up sample_last_ack"
    "cf_loggers (cfg sample_last_ack) = []" "dict_get (status (pm sample_last_ack)) ''p0'' \<noteq> None"
    "\<forall>m st. m \<noteq> ''p0'' \<longrightarrow> dict_get (status (pm sample_last_ack)) m = Some st \<longrightarrow> st = REDUCED"
    "arrived_list PolicySide sample_last_ack \<noteq> []" "samples_on_the_fly (pm sample_last_ack) = 8"
    "need_sync_weight (cfg sample_last_ack) 3 12 = Inr True" "cf_train_batch_per_replica (cfg sample_last_ack) = 2"
    "replicas_ok (rollout_replicas (rm sample_last_ack))" "redis_log sample_last_ack = []"
    "policy_atoms_in_replica (pm sample_last_ack) = Some 1" "rollout_atoms_in_replica (rm sample_last_ack) = Some 1"
    subgoal by (simp add: sample_last_ack_def sample_step_ready) (simp add: sample_config_def)
    subgoal by (rule inv)
    subgoal using sample_redis_up by (simp add: sample_last_ack_def redis_up_def)
    subgoal by (simp add: sample_last_ack_def sample_step_ready) (simp add: sample_config_def)
    subgoal by (simp add: st dict_get_def)
    subgoal by (simp add: st dict_get_def)
    subgoal by (simp add: same sample_arrived_list)
    subgoal by (simp add: sample_last_ack_def) (simp add: sample_world_def)
    subgoal by (simp add: sample_last_ack_def sample_step_ready) (simp add: sample_config_def need_sync_weight_def)
    subgoal by (simp add: sample_last_ack_def sample_step_ready) (simp add: sample_config_def)
    subgoal using sample_rollout_facts(2) by (simp add: sample_last_ack_def)
    subgoal by (simp add: sample_last_ack_def sample_step_ready)
    subgoal using sample_rollout_facts(3) by (simp add: sample_last_ack_def)
    subgoal using sample_rollout_facts(4) by (simp add: sample_last_ack_def)
    done
  have in_mesh: "in_mesh_at (rollout_replicas (rm sample_last_ack)) ''r0''"
    using sample_rollout_facts(5) by (simp add: sample_last_ack_def)
  then have three: "length (weights_sent sample_last_ack ''p0'' [''r0''] 1 1 3 12) = 3"
    by (simp add: weights_sent_def Let_def)
  have sync: "True \<longrightarrow> replicas_ok (rollout_replicas (rm sample_last_ack)) \<and> (arrived_list RolloutSide sample_last_ack \<noteq> [] \<longrightarrow>
      policy_atoms_in_replica (pm sample_last_ack) = Some 1 \<and> rollout_atoms_in_replica (rm sample_last_ack) = Some 1)"
    using f(11,13,14) by simp
  have rs: "by_start_time RolloutSide sample_last_ack (arrived_list RolloutSide sample_last_ack) = [''r0'']"
    "arrived_list RolloutSide sample_last_ack \<noteq> []"
    using sample_rollout_facts(1) by (simp_all only: same) (simp add: sample_arrived_list)
  have src: "''p0'' = hd (by_start_time PolicySide sample_last_ack (arrived_list PolicySide sample_last_ack))"
    by (simp only: same sample_arrived_list sorted list.sel)
  have enough: "cf_train_batch_per_replica (cfg sample_last_ack) * int (length (arrived_list PolicySide sample_last_ack)) = 4"
    by (simp add: same sample_arrived_list f(10))
  then have le: "cf_train_batch_per_replica (cfg sample_last_ack) * int (length (arrived_list PolicySide sample_last_ack))
      \<le> samples_on_the_fly (pm sample_last_ack)" by (simp add: f(8))
  obtain t where "train_ack ''p0'' 3 12 False [] sample_last_ack = bnd (try_trigger_data_fetch_and_training False)
        (\<lambda>_. with_state (\<lambda>s. guarded (cf_on_policy (cfg s)) (upd_pm (on_policy_rollout_completed_update (\<lambda>_. False))))) t"
    and t: "samples_on_the_fly (pm t) = samples_on_the_fly (pm sample_last_ack)
        - cf_train_batch_per_replica (cfg sample_last_ack) * int (length (arrived_list PolicySide sample_last_ack))"
      "\<forall>m \<in> set (arrived_list PolicySide sample_last_ack). dict_get (status (pm t)) m = Some READY"
      "redis_log t = redis_log sample_last_ack @ weights_sent sample_last_ack ''p0'' [''r0''] 1 1 3 12"
    using last_ack_ends_step [OF f(1-7) refl le f(9) sync src, of "[]"] unfolding rs(1) by (auto simp only: rs(2) simp_thms if_True)
  moreover have "''p1'' \<in> set (arrived_list PolicySide sample_last_ack)" by (simp add: same sample_arrived_list)
  ultimately show ?thesis using enough three f(8,12) by (intro exI [of _ t]) simp
qed

section \<open>Checkpoints\<close>

lemma div_step_iff:
  fixes R r S :: int
  assumes "0 < S" "0 \<le> r"
  shows "(R + r - 1) div S \<noteq> (R - 1) div S \<longleftrightarrow> R \<le> (R + r - 1) div S * S"
proof -
  have le: "(R - 1) div S \<le> (R + r - 1) div S" using assms by (intro zdiv_mono1) auto
  show ?thesis
  proof
    assume "(R + r - 1) div S \<noteq> (R - 1) div S"
    then have "(R - 1) div S + 1 \<le> (R + r - 1) div S" using le by simp
    then have "((R - 1) div S + 1) * S \<le> (R + r - 1) div S * S" using assms(1) by (intro mult_right_mono) auto
    moreover have "R - 1 < (R - 1) div S * S + S" using floor_div_bounds(2) [OF assms(1)] .
    ultimately show "R \<le> (R + r - 1) div S * S" by (simp add: distrib_right)
  next
    assume "R \<le> (R + r - 1) div S * S"
    moreover have "(R - 1) div S * S \<le> R - 1" using floor_div_bounds(1) [OF assms(1)] .
    ultimately show "(R + r - 1) div S \<noteq> (R - 1) div S" by auto
  qed
qed

lemma largest_multiple:
  fixes R r S k :: int
  assumes "0 < S" "r \<le> S" "R \<le> k * S" "k * S < R + r"
  shows "k = (R + r - 1) div S"
proof -
  have "k * S \<le> R + r - 1" "R + r - 1 < k * S + S" using assms by linarith+
  then have "R + r - 1 = k * S + (R + r - 1 - k * S)" "0 \<le> R + r - 1 - k * S" "R + r - 1 - k * S < S" by auto
  then show ?thesis
    by (metis add.commute assms(1) div_mult_self1 div_pos_pos_trivial less_le_not_le mult.commute add_0)
qed

text \<open>With checkpoints counted in epochs, a step before the last one saves exactly if checkpoints are
  enabled and the \<open>r\<close> samples it consumes, at most one epoch, contain the end of an epoch - a multiple
  of the epoch's samples among the samples remaining - whose number is a multiple of the frequency.\<close>

theorem checkpoint_at_epoch_ends:
  assumes "current_step p \<noteq> total_steps p" "0 < cf_save_freq_in_epoch c"
    and "0 < samples_per_epoch p" "0 \<le> r" "r \<le> samples_per_epoch p"
  shows "check_checkpoint_saving r c p = Inr (cf_enable_checkpoint c
    \<and> (\<exists>k. remain_samples_num p \<le> k * samples_per_epoch p \<and> k * samples_per_epoch p < remain_samples_num p + r
         \<and> (cf_epoch c - k) mod cf_save_freq_in_epoch c = 0))"
proof -
  let ?S = "samples_per_epoch p" and ?R = "remain_samples_num p"
  let ?q = "(?R + r - 1) div ?S"
  have "?q * ?S \<le> ?R + r - 1" using floor_div_bounds(1) [OF assms(3)] .
  then have "?R \<le> ?q * ?S \<and> (cf_epoch c - ?q) mod cf_save_freq_in_epoch c = 0
      \<longleftrightarrow> (\<exists>k. ?R \<le> k * ?S \<and> k * ?S < ?R + r \<and> (cf_epoch c - k) mod cf_save_freq_in_epoch c = 0)"
    using largest_multiple [OF assms(3,5), of ?R] by (metis add.commute zle_diff1_eq)
  then show ?thesis
    using assms(1-3) div_step_iff [OF assms(3,4), of ?R] by (simp add: check_checkpoint_saving_def conj_commute)
qed

theorem checkpoint_at_epoch_ends_witness:
  "check_checkpoint_saving 4 (sample_config\<lparr>cf_save_freq_in_epoch := 1\<rparr>)
     ((pm sample_world)\<lparr>remain_samples_num := 46\<rparr>) = Inr True"
proof -
  let ?p = "(pm sample_world)\<lparr>remain_samples_num := 46\<rparr>" and ?c = "sample_config\<lparr>cf_save_freq_in_epoch := 1\<rparr>"
  have "current_step ?p \<noteq> total_steps ?p" "0 < cf_save_freq_in_epoch ?c" "0 < samples_per_epoch ?p"
    "0 \<le> (4 :: int)" "4 \<le> samples_per_epoch ?p" "remain_samples_num ?p = 46" "samples_per_epoch ?p = 48"
    "cf_enable_checkpoint ?c" "cf_epoch ?c = 1"
    by (simp_all add: sample_world_def sample_config_def)
  then show ?thesis using checkpoint_at_epoch_ends [of ?p ?c 4]
    by (simp only:) (auto intro!: exI [of _ 1])
qed

end
