(* ===== verification/Task_Scheduler.thy ===== *)
theory Task_Scheduler
  imports Schema "HOL-Library.Multiset"
begin

text \<open>The asynchronous rollout task scheduler, src/cosmos\_rl/rollout/worker/asynchronous/rollout\_task\_scheduler.py,
  with the results of src/cosmos\_rl/rollout/schema.py: a worker loop that takes tasks off a queue and
  keeps at most \<open>max_concurrent_requests\<close> generations running, and a client that puts tasks, pauses,
  resumes, waits and collects results. The worker runs in a thread of its own (\<open>start\<close>) or on the
  event loop of the client (\<open>start_async\<close>); the steps of the two interleave accordingly: in the first
  case anywhere between two accesses to what they share, in the second only where one of them awaits.\<close>

section \<open>State\<close>

record rollout_task =
  rt_idx :: int
  rt_payload :: payload
  rt_is_validation :: bool

record completed_rollout =
  co_idx :: int
  co_payload :: payload
  co_result :: rollout_result

text \<open>Where the worker is: no worker; its thread has been started but not yet set up the engine; at the
  head of its loop or asleep before it; after clearing finished tasks; in the loop that starts tasks;
  between taking a task off the queue and adding it to the active ones; waiting, after the loop, for
  the generations still running.\<close>

datatype worker_pc = Off | Created | Asleep | Cleaned | Filling | Holding rollout_task | Draining

text \<open>What the client has still to do of a call: the steps of the calls that consist of several.\<close>

datatype instr = EnqueueTask rollout_task | CountSubmitted int | WaitPaused | WaitDrained | WaitAllDone
  | JoinThread | AwaitWorkerTask

text \<open>\<open>active\<close> holds the started generations with whether they are done; \<open>ending\<close> is the one that has put its
  result into the queue but not counted it yet; \<open>contexts\<close> the open \<open>paused()\<close> blocks, innermost first, with
  their \<open>was_already_paused\<close>. The last five fields are history: whether a worker has been started beside
  another one, the tasks put on the queue and taken by the worker, the ones that ended without a result, and
  the results the client has got.\<close>

record sched =
  task_queue :: "rollout_task list"
  complete_queue :: "completed_rollout list"
  ts_running :: bool
  ts_paused :: bool
  worker_thread :: bool
  worker_task :: bool
  has_loop :: bool
  active :: "(rollout_task \<times> bool) list"
  total_processed :: int
  total_submitted :: int
  max_concurrent :: int
  wpc :: worker_pc
  ending :: "nat option"
  todo :: "instr list"
  contexts :: "bool list"
  second_worker :: bool
  h_put :: "rollout_task list"
  h_launched :: "rollout_task list"
  h_empty :: "rollout_task list"
  h_received :: "completed_rollout list"

definition sched_init :: "int \<Rightarrow> sched" where
  "sched_init m = \<lparr>task_queue = [], complete_queue = [], ts_running = False, ts_paused = False,
     worker_thread = False, worker_task = False, has_loop = False, active = [], total_processed = 0,
     total_submitted = 0, max_concurrent = m, wpc = Off, ending = None, todo = [], contexts = [],
     second_worker = False, h_put = [], h_launched = [], h_empty = [], h_received = []\<rparr>"

section \<open>What can be asked\<close>

definition is_all_tasks_completed :: "sched \<Rightarrow> bool" where
  "is_all_tasks_completed s \<longleftrightarrow> task_queue s = [] \<and> length (active s) = 0"

definition is_idle :: "sched \<Rightarrow> bool" where
  "is_idle s \<longleftrightarrow> ts_running s \<and> length (active s) = 0 \<and> task_queue s = [] \<and> complete_queue s = []"

definition is_busy :: "sched \<Rightarrow> bool" where
  "is_busy s \<longleftrightarrow> ts_running s \<and> max_concurrent s \<le> int (length (active s))"

definition has_results :: "sched \<Rightarrow> bool" where
  "has_results s \<longleftrightarrow> complete_queue s \<noteq> []"

record sched_stats =
  st_running :: bool
  st_paused :: bool
  st_total_submitted :: int
  st_total_processed :: int
  st_active_tasks :: int
  st_pending_tasks :: int
  st_completed_results :: int
  st_max_concurrent_requests :: int

definition get_stats :: "sched \<Rightarrow> sched_stats" where
  "get_stats s = \<lparr>st_running = ts_running s, st_paused = ts_paused s, st_total_submitted = total_submitted s,
     st_total_processed = total_processed s, st_active_tasks = int (length (active s)),
     st_pending_tasks = int (length (task_queue s)), st_completed_results = int (length (complete_queue s)),
     st_max_concurrent_requests = max_concurrent s\<rparr>"

definition get_event_loop :: "sched \<Rightarrow> error + unit" where
  "get_event_loop s = ensure RuntimeError (ts_running s) (ensure RuntimeError (has_loop s) (Inr ()))"

section \<open>Calls of the client\<close>

text \<open>Putting tasks is a sequence of steps: the worker can run between them.\<close>

definition put_rollout_task :: "rollout_task \<Rightarrow> instr list" where
  "put_rollout_task task = [EnqueueTask task, CountSubmitted 1]"

definition put_rollout_batch :: "rollout_task list \<Rightarrow> instr list" where
  "put_rollout_batch tasks = map EnqueueTask tasks @ [CountSubmitted (int (length tasks))]"

text \<open>Only the client sets and clears the flag \<open>_paused\<close>, so testing and changing it is one step.\<close>

definition pause :: "sched \<Rightarrow> sched" where
  "pause s = (if \<not> ts_running s then s else if ts_paused s then s else s\<lparr>ts_paused := True\<rparr>)"

definition resume :: "sched \<Rightarrow> sched" where
  "resume s = (if \<not> ts_running s then s else if \<not> ts_paused s then s else s\<lparr>ts_paused := False\<rparr>)"

text \<open>The context manager \<open>paused\<close>: entering it, and its \<open>finally\<close>.\<close>

definition paused_enter :: "bool \<Rightarrow> sched \<Rightarrow> error + sched" where
  "paused_enter wait_for_active_tasks s = ensure RuntimeError (ts_running s)
     (Inr (if ts_paused s then s\<lparr>contexts := True # contexts s\<rparr>
           else s\<lparr>ts_paused := True, contexts := False # contexts s,
                  todo := (if wait_for_active_tasks then [WaitPaused] else [])\<rparr>))"

definition paused_exit :: "sched \<Rightarrow> sched" where
  "paused_exit s = (case contexts s of [] \<Rightarrow> s
     | was_already_paused # cs \<Rightarrow>
         s\<lparr>contexts := cs, ts_paused := (if \<not> was_already_paused \<and> ts_paused s then False else ts_paused s)\<rparr>)"

definition get :: "sched \<Rightarrow> sched" where
  "get s = (case complete_queue s of [] \<Rightarrow> s
     | c # cs \<Rightarrow> s\<lparr>complete_queue := cs, h_received := h_received s @ [c]\<rparr>)"

definition get_all :: "sched \<Rightarrow> sched" where
  "get_all s = s\<lparr>complete_queue := [], h_received := h_received s @ complete_queue s\<rparr>"

text \<open>Both only test \<open>_running\<close>, which says nothing of a worker that is not yet, or no longer, in its loop: then
  there are two.\<close>

definition start :: "sched \<Rightarrow> error + sched" where
  "start s = ensure AssertionError (\<not> worker_task s)
     (Inr (if ts_running s then s
           else s\<lparr>worker_thread := True, second_worker := (wpc s \<noteq> Off), wpc := Created\<rparr>))"

text \<open>\<open>start_async\<close> with a hook that sets up the engine.\<close>

definition start_async :: "sched \<Rightarrow> error + sched" where
  "start_async s = ensure AssertionError (\<not> worker_thread s)
     (Inr (if ts_running s then s
           else s\<lparr>has_loop := True, ts_running := True, worker_task := True, second_worker := (wpc s \<noteq> Off), wpc := Asleep\<rparr>))"

definition stop :: "bool \<Rightarrow> sched \<Rightarrow> sched" where
  "stop wait s = (if \<not> ts_running s then s
     else s\<lparr>ts_running := False, todo := (if wait \<and> worker_thread s then [JoinThread] else [])\<rparr>)"

definition stop_async :: "bool \<Rightarrow> sched \<Rightarrow> sched" where
  "stop_async wait s = (if \<not> ts_running s then s
     else s\<lparr>ts_running := False, todo := (if wait \<and> worker_task s then [AwaitWorkerTask] else [])\<rparr>)"

datatype call = Put rollout_task | PutBatch "rollout_task list" | Pause | Resume | EnterPaused bool | LeavePaused
  | Get | GetAll | Drain | WaitAll | Start | StartAsync | Stop bool | StopAsync bool

primrec perform :: "call \<Rightarrow> sched \<Rightarrow> error + sched" where
  "perform (Put task) s = Inr (s\<lparr>todo := put_rollout_task task\<rparr>)"
| "perform (PutBatch tasks) s = Inr (s\<lparr>todo := put_rollout_batch tasks\<rparr>)"
| "perform Pause s = Inr (pause s)"
| "perform Resume s = Inr (resume s)"
| "perform (EnterPaused wait) s = paused_enter wait s"
| "perform LeavePaused s = Inr (paused_exit s)"
| "perform Get s = Inr (get s)"
| "perform GetAll s = Inr (get_all s)"
| "perform Drain s = Inr (s\<lparr>todo := [WaitDrained]\<rparr>)"
| "perform WaitAll s = Inr (s\<lparr>todo := [WaitAllDone]\<rparr>)"
| "perform Start s = start s"
| "perform StartAsync s = start_async s"
| "perform (Stop wait) s = Inr (stop wait s)"
| "perform (StopAsync wait) s = Inr (stop_async wait s)"

text \<open>One step of a call under way; a wait steps only when what it waits for holds. Joining the thread
  gives up after ten seconds, so it may always step.\<close>

primrec advance :: "instr \<Rightarrow> sched \<Rightarrow> sched option" where
  "advance (EnqueueTask task) s = Some (s\<lparr>task_queue := task_queue s @ [task], h_put := h_put s @ [task]\<rparr>)"
| "advance (CountSubmitted n) s = Some (s\<lparr>total_submitted := total_submitted s + n\<rparr>)"
| "advance WaitPaused s = (if length (active s) > 0 then None else Some s)"
| "advance WaitDrained s = (if length (active s) > 0 then None else Some s)"
| "advance WaitAllDone s = (if \<not> is_all_tasks_completed s then None else Some s)"
| "advance JoinThread s = Some s"
| "advance AwaitWorkerTask s = (if wpc s = Off then Some s else None)"

text \<open>A wait with a timeout may raise \<open>TimeoutError\<close>; the one of \<open>paused\<close> then leaves its block.\<close>

primrec time_out :: "instr \<Rightarrow> sched \<Rightarrow> sched option" where
  "time_out (EnqueueTask task) s = None"
| "time_out (CountSubmitted n) s = None"
| "time_out WaitPaused s = (if length (active s) > 0 then Some (paused_exit s) else None)"
| "time_out WaitDrained s = (if length (active s) > 0 then Some s else None)"
| "time_out WaitAllDone s = None"
| "time_out JoinThread s = None"
| "time_out AwaitWorkerTask s = None"

section \<open>The worker\<close>

text \<open>\<open>_run_event_loop\<close> up to the loop: the engine must not be set up, and the hook may raise.\<close>

definition run_event_loop :: "bool \<Rightarrow> sched \<Rightarrow> sched" where
  "run_event_loop engine_ok s =
     (if engine_ok then s\<lparr>has_loop := True, ts_running := True, wpc := Asleep\<rparr>
      else s\<lparr>has_loop := True, ts_running := False, wpc := Off\<rparr>)"

text \<open>\<open>_worker_loop\<close>, from one access to what it shares with the client to the next.\<close>

definition worker_loop :: "sched \<Rightarrow> sched option" where
  "worker_loop s = (case wpc s of
     Off \<Rightarrow> None
   | Created \<Rightarrow> None
   | Asleep \<Rightarrow> Some (
       if ts_running s then s\<lparr>active := filter (\<lambda>(t, finished). \<not> finished) (active s), wpc := Cleaned\<rparr>
       else if active s \<noteq> [] then s\<lparr>wpc := Draining\<rparr>
       else s\<lparr>wpc := Off\<rparr>)
   | Cleaned \<Rightarrow> Some (if \<not> ts_paused s then s\<lparr>wpc := Filling\<rparr> else s\<lparr>wpc := Asleep\<rparr>)
   | Filling \<Rightarrow> Some (
       if int (length (active s)) < max_concurrent s \<and> task_queue s \<noteq> []
       then s\<lparr>task_queue := tl (task_queue s), wpc := Holding (hd (task_queue s))\<rparr>
       else s\<lparr>wpc := Asleep\<rparr>)
   | Holding task \<Rightarrow> Some (s\<lparr>active := active s @ [(task, False)], h_launched := h_launched s @ [task], wpc := Filling\<rparr>)
   | Draining \<Rightarrow> if \<forall>(t, finished) \<in> set (active s). finished then Some (s\<lparr>wpc := Off\<rparr>) else None)"

text \<open>What \<open>rollout_generation\<close> does: it raises, or returns results.\<close>

datatype outcome = Fails | Results "rollout_result list"

text \<open>The end of \<open>_generate_single\<close>, after the generation it awaits. A result is put into the queue, then counted;
  the client of a worker in its own thread can run between the two, the worker's loop cannot. A generation
  is done when its coroutine returns, which only the worker's loop looks at.\<close>

definition done_at :: "nat \<Rightarrow> (rollout_task \<times> bool) list \<Rightarrow> (rollout_task \<times> bool) list" where
  "done_at i xs = xs[i := (fst (xs ! i), True)]"

definition generate_single :: "nat \<Rightarrow> rollout_task \<Rightarrow> outcome \<Rightarrow> sched \<Rightarrow> sched" where
  "generate_single i task oc s = (case oc of
     Results (result # rest) \<Rightarrow>
       s\<lparr>complete_queue := complete_queue s @
            [\<lparr>co_idx = rt_idx task, co_payload = rt_payload task, co_result = result\<rparr>],
         ending := Some i\<rparr>
   | _ \<Rightarrow> s\<lparr>active := done_at i (active s), h_empty := h_empty s @ [task]\<rparr>)"

definition finish :: "nat \<Rightarrow> outcome \<Rightarrow> sched \<Rightarrow> sched option" where
  "finish i oc s =
     (if (wpc s = Asleep \<or> wpc s = Draining) \<and> ending s = None \<and> i < length (active s) \<and> \<not> snd (active s ! i)
      then Some (generate_single i (fst (active s ! i)) oc s)
      else None)"

definition count_processed :: "sched \<Rightarrow> sched option" where
  "count_processed s = (case ending s of None \<Rightarrow> None
     | Some i \<Rightarrow> Some (s\<lparr>total_processed := total_processed s + 1, active := done_at i (active s), ending := None\<rparr>))"

section \<open>Steps\<close>

text \<open>With \<open>start_async\<close> the worker and the client share one event loop: the client runs only while the
  worker is suspended in an await, and the worker only while the client is between calls or in one
  that awaits. The wait of \<open>paused\<close> does not: it sleeps with \<open>time.sleep\<close>.\<close>

definition suspended :: "worker_pc \<Rightarrow> bool" where
  "suspended p \<longleftrightarrow> p = Off \<or> p = Asleep \<or> p = Draining"

definition awaits :: "instr list \<Rightarrow> bool" where
  "awaits is \<longleftrightarrow> is = [] \<or> hd is \<in> {WaitDrained, WaitAllDone, AwaitWorkerTask}"

definition client_turn :: "sched \<Rightarrow> bool" where
  "client_turn s \<longleftrightarrow> (worker_task s \<longrightarrow> suspended (wpc s) \<and> ending s = None)"

definition loop_turn :: "sched \<Rightarrow> bool" where
  "loop_turn s \<longleftrightarrow> (worker_task s \<longrightarrow> awaits (todo s))"

text \<open>A \<open>paused()\<close> block is left only when one is open.\<close>

definition proper_call :: "call \<Rightarrow> sched \<Rightarrow> bool" where
  "proper_call c s \<longleftrightarrow> (c = LeavePaused \<longrightarrow> contexts s \<noteq> [])"

datatype event = Call call | Advance | TimeUp | Boot bool | Work | Finish nat outcome | Count

text \<open>The relation follows one worker: it stops with the call that starts a second one (\<open>second_start\<close> below).\<close>

inductive step :: "sched \<Rightarrow> event \<Rightarrow> sched \<Rightarrow> bool" where
  call: "\<not> second_worker s \<Longrightarrow> todo s = [] \<Longrightarrow> client_turn s \<Longrightarrow> proper_call c s \<Longrightarrow> perform c s = Inr s' \<Longrightarrow> step s (Call c) s'"
| advance: "\<not> second_worker s \<Longrightarrow> todo s = i # is \<Longrightarrow> client_turn s \<Longrightarrow> advance i (s\<lparr>todo := is\<rparr>) = Some s' \<Longrightarrow> step s Advance s'"
| time_up: "\<not> second_worker s \<Longrightarrow> todo s = i # is \<Longrightarrow> client_turn s \<Longrightarrow> time_out i (s\<lparr>todo := is\<rparr>) = Some s' \<Longrightarrow> step s TimeUp s'"
| boot: "\<not> second_worker s \<Longrightarrow> wpc s = Created \<Longrightarrow> step s (Boot ok) (run_event_loop ok s)"
| work: "\<not> second_worker s \<Longrightarrow> loop_turn s \<Longrightarrow> ending s = None \<Longrightarrow> worker_loop s = Some s' \<Longrightarrow> step s Work s'"
| finish: "\<not> second_worker s \<Longrightarrow> loop_turn s \<Longrightarrow> finish i oc s = Some s' \<Longrightarrow> step s (Finish i oc) s'"
| counted: "\<not> second_worker s \<Longrightarrow> loop_turn s \<Longrightarrow> count_processed s = Some s' \<Longrightarrow> step s Count s'"

inductive run :: "sched \<Rightarrow> event list \<Rightarrow> sched \<Rightarrow> bool" where
  nil: "run s [] s"
| snoc: "run s es t \<Longrightarrow> step t e u \<Longrightarrow> run s (es @ [e]) u"

inductive_cases advanceE: "step s Advance t"

lemmas perform_defs = put_rollout_task_def put_rollout_batch_def pause_def resume_def paused_enter_def
  paused_exit_def get_def get_all_def start_def start_async_def stop_def stop_async_def ensure_Inr_iff

section \<open>Nothing is lost\<close>

fun held :: "worker_pc \<Rightarrow> rollout_task list" where
  "held (Holding task) = [task]"
| "held _ = []"

text \<open>The active generations, with the one whose result is in the queue as done.\<close>

fun settle :: "nat option \<Rightarrow> (rollout_task \<times> bool) list \<Rightarrow> (rollout_task \<times> bool) list" where
  "settle None xs = xs"
| "settle (Some i) xs = done_at i xs"

definition settled :: "sched \<Rightarrow> (rollout_task \<times> bool) list" where
  "settled s = settle (ending s) (active s)"

definition unfinished :: "sched \<Rightarrow> rollout_task list" where
  "unfinished s = map fst (filter (\<lambda>(t, finished). \<not> finished) (settled s))"

definition task_key :: "rollout_task \<Rightarrow> int \<times> payload" where
  "task_key t = (rt_idx t, rt_payload t)"

definition done_key :: "completed_rollout \<Rightarrow> int \<times> payload" where
  "done_key c = (co_idx c, co_payload c)"

text \<open>What the calls under way still add to the two counts.\<close>

primrec still_counted :: "instr \<Rightarrow> int" where
  "still_counted (EnqueueTask t) = - 1"
| "still_counted (CountSubmitted n) = n"
| "still_counted WaitPaused = 0"
| "still_counted WaitDrained = 0"
| "still_counted WaitAllDone = 0"
| "still_counted JoinThread = 0"
| "still_counted AwaitWorkerTask = 0"

primrec uncounted :: "nat option \<Rightarrow> int" where
  "uncounted None = 0"
| "uncounted (Some i) = 1"

definition sched_inv :: "sched \<Rightarrow> bool" where
  "sched_inv s \<longleftrightarrow>
     h_put s = h_launched s @ held (wpc s) @ task_queue s
   \<and> int (length (active s) + length (held (wpc s))) \<le> max 0 (max_concurrent s)
   \<and> mset (map task_key (h_launched s)) = mset (map task_key (unfinished s)) + mset (map task_key (h_empty s))
        + mset (map done_key (h_received s @ complete_queue s))
   \<and> total_processed s + uncounted (ending s) = int (length (h_received s @ complete_queue s))
   \<and> (\<forall>i. ending s = Some i \<longrightarrow> i < length (active s) \<and> \<not> snd (active s ! i))
   \<and> total_submitted s + sum_list (map still_counted (todo s)) = int (length (h_put s))"

lemma sched_inv_init: "sched_inv (sched_init m)"
  by (simp add: sched_inv_def sched_init_def unfinished_def settled_def)

lemma unfinished_update [simp]:
  "unfinished (task_queue_update f1 s) = unfinished s"
  "unfinished (complete_queue_update f2 s) = unfinished s"
  "unfinished (ts_running_update f3 s) = unfinished s"
  "unfinished (ts_paused_update f4 s) = unfinished s"
  "unfinished (worker_thread_update f5 s) = unfinished s"
  "unfinished (worker_task_update f6 s) = unfinished s"
  "unfinished (has_loop_update f7 s) = unfinished s"
  "unfinished (total_processed_update f8 s) = unfinished s"
  "unfinished (total_submitted_update f9 s) = unfinished s"
  "unfinished (wpc_update f10 s) = unfinished s"
  "unfinished (todo_update f11 s) = unfinished s"
  "unfinished (contexts_update f12 s) = unfinished s"
  "unfinished (second_worker_update f13 s) = unfinished s"
  "unfinished (h_put_update f14 s) = unfinished s"
  "unfinished (h_launched_update f15 s) = unfinished s"
  "unfinished (h_empty_update f16 s) = unfinished s"
  "unfinished (h_received_update f17 s) = unfinished s"
  by (simp_all add: unfinished_def settled_def)

lemma length_done_at [simp]: "length (done_at i xs) = length xs"
  by (simp add: done_at_def)

lemma done_at_Nil [simp]: "done_at i xs = [] \<longleftrightarrow> xs = []"
  by (simp add: done_at_def)

lemma step_single: "step s e s' \<Longrightarrow> \<not> second_worker s"
  by (induction rule: step.induct)

lemma sum_still_counted [simp]: "sum_list (map (still_counted \<circ> EnqueueTask) ts) = - int (length ts)"
  by (induction ts) auto

lemma perform_inv:
  "sched_inv s \<Longrightarrow> todo s = [] \<Longrightarrow> \<not> second_worker s' \<Longrightarrow> perform c s = Inr s' \<Longrightarrow> sched_inv s'"
  by (cases c) (auto simp: sched_inv_def perform_defs split: if_splits list.splits)

lemma advance_inv: "sched_inv s \<Longrightarrow> todo s = i # is \<Longrightarrow> advance i (s\<lparr>todo := is\<rparr>) = Some s' \<Longrightarrow> sched_inv s'"
  by (cases i) (auto simp: sched_inv_def split: if_splits)

lemma time_out_inv: "sched_inv s \<Longrightarrow> todo s = i # is \<Longrightarrow> time_out i (s\<lparr>todo := is\<rparr>) = Some s' \<Longrightarrow> sched_inv s'"
  by (cases i) (auto simp: sched_inv_def paused_exit_def split: if_splits list.splits)

lemma cleaned_inv:
  assumes "sched_inv s" "wpc s = Asleep" "ending s = None"
  shows "sched_inv (s\<lparr>active := filter (\<lambda>(t, finished). \<not> finished) (active s), wpc := Cleaned\<rparr>)"
    (is "sched_inv ?s")
proof -
  have "unfinished ?s = unfinished s" using assms(3) by (simp add: unfinished_def settled_def)
  moreover have "int (length (active ?s)) \<le> max 0 (max_concurrent s)"
  proof -
    have "int (length (active ?s)) \<le> int (length (active s))" by simp
    also have "\<dots> \<le> max 0 (max_concurrent s)" using assms by (simp add: sched_inv_def)
    finally show ?thesis .
  qed
  ultimately show ?thesis using assms by (simp add: sched_inv_def)
qed

lemma worker_inv: "sched_inv s \<Longrightarrow> ending s = None \<Longrightarrow> worker_loop s = Some s' \<Longrightarrow> sched_inv s'"
proof (cases "wpc s")
  case Asleep
  assume a: "sched_inv s" "ending s = None" "worker_loop s = Some s'"
  show ?thesis
  proof (cases "ts_running s")
    case True
    with a Asleep show ?thesis using cleaned_inv [of s] by (auto simp: worker_loop_def)
  next
    case False
    with a Asleep show ?thesis
      by (auto simp: sched_inv_def worker_loop_def unfinished_def settled_def split: if_splits)
  qed
next
  case Filling
  assume "sched_inv s" "ending s = None" "worker_loop s = Some s'"
  with Filling show ?thesis
    by (auto simp: sched_inv_def worker_loop_def unfinished_def settled_def split: if_splits)
qed (auto simp: sched_inv_def worker_loop_def unfinished_def settled_def split: if_splits)

lemma filter_update_done:
  "i < length xs \<Longrightarrow> \<not> snd (xs ! i) \<Longrightarrow>
   mset (map fst (filter (\<lambda>(t, finished). \<not> finished) xs))
     = add_mset (fst (xs ! i)) (mset (map fst (filter (\<lambda>(t, finished). \<not> finished) (done_at i xs))))"
proof (induction xs arbitrary: i)
  case (Cons x xs)
  then show ?case by (cases i) (auto simp: split_beta done_at_def)
qed simp

text \<open>The end of a generation as such: its task is no longer unfinished, and has a result in the queue or none.\<close>

lemma finish_settles:
  assumes "finish i oc s = Some t"
  shows "mset (unfinished s) = add_mset (fst (active s ! i)) (mset (unfinished t))"
    and "settled t = done_at i (settled s)" and "settled s = active s" and "held (wpc s) = []"
    and "i < length (active s)" and "\<not> snd (active s ! i)"
proof -
  have i: "i < length (active s)" "\<not> snd (active s ! i)" "ending s = None" "held (wpc s) = []"
    and t: "t = generate_single i (fst (active s ! i)) oc s"
    using assms by (auto simp: finish_def split: if_splits)
  have "settled t = done_at i (active s)"
    using i(3) by (auto simp: t generate_single_def settled_def split: outcome.splits list.splits)
  then show "settled t = done_at i (settled s)" "settled s = active s" using i(3) by (simp_all add: settled_def)
  then show "mset (unfinished s) = add_mset (fst (active s ! i)) (mset (unfinished t))"
    using filter_update_done [OF i(1,2)] by (simp add: unfinished_def)
qed (use assms in \<open>auto simp: finish_def split: if_splits\<close>)

lemma count_settles:
  "count_processed s = Some t \<Longrightarrow> settled t = settled s \<and> unfinished t = unfinished s \<and> ending t = None"
  by (auto simp: count_processed_def settled_def unfinished_def split: option.splits)

lemma finish_inv:
  assumes "sched_inv s" "finish i oc s = Some s'"
  shows "sched_inv s'"
proof -
  let ?t = "fst (active s ! i)"
  have "mset (map task_key (unfinished s)) = add_mset (task_key ?t) (mset (map task_key (unfinished s')))"
    using finish_settles(1) [OF assms(2)] by (metis image_mset_add_mset mset_map)
  moreover have "ending s = None" "s' = generate_single i ?t oc s" "held (wpc s) = []" "i < length (active s)" "\<not> snd (active s ! i)"
    using assms(2) by (auto simp: finish_def split: if_splits)
  ultimately show ?thesis using assms(1)
    by (auto simp: sched_inv_def generate_single_def done_key_def task_key_def split: outcome.splits list.splits)
qed

lemma count_inv:
  assumes "sched_inv s" "count_processed s = Some s'"
  shows "sched_inv s'"
  using assms count_settles [OF assms(2)]
  by (auto simp: sched_inv_def count_processed_def split: option.splits)

lemma boot_inv: "wpc s = Created \<Longrightarrow> sched_inv s \<Longrightarrow> sched_inv (run_event_loop ok s)"
  by (simp add: run_event_loop_def sched_inv_def)

lemma step_inv: "step s e s' \<Longrightarrow> \<not> second_worker s' \<Longrightarrow> sched_inv s \<Longrightarrow> sched_inv s'"
  by (induction rule: step.induct)
    (blast intro: perform_inv advance_inv time_out_inv worker_inv finish_inv count_inv boot_inv)+

lemma run_inv: "run s es s' \<Longrightarrow> \<not> second_worker s' \<Longrightarrow> sched_inv s \<Longrightarrow> sched_inv s'"
  by (induction rule: run.induct) (auto intro: step_inv dest: step_single)

text \<open>A generation is between its result and its count only while the worker awaits.\<close>

definition rests :: "sched \<Rightarrow> bool" where
  "rests s \<longleftrightarrow> (ending s \<noteq> None \<longrightarrow> wpc s = Asleep \<or> wpc s = Draining)"

lemma rests_perform: "rests s \<Longrightarrow> \<not> second_worker s' \<Longrightarrow> perform c s = Inr s' \<Longrightarrow> rests s'"
  by (cases c) (auto simp: rests_def perform_defs split: if_splits list.splits)

lemma rests_advance: "rests s \<Longrightarrow> advance i (s\<lparr>todo := is\<rparr>) = Some s' \<Longrightarrow> rests s'"
  by (cases i) (auto simp: rests_def split: if_splits)

lemma rests_time_out: "rests s \<Longrightarrow> time_out i (s\<lparr>todo := is\<rparr>) = Some s' \<Longrightarrow> rests s'"
  by (cases i) (auto simp: rests_def paused_exit_def split: if_splits list.splits)

lemma rests_worker: "ending s = None \<Longrightarrow> worker_loop s = Some s' \<Longrightarrow> rests s'"
  by (auto simp: rests_def worker_loop_def split: worker_pc.splits if_splits)

lemma rests_finish: "finish i oc s = Some s' \<Longrightarrow> rests s'"
  by (auto simp: rests_def finish_def generate_single_def split: if_splits outcome.splits list.splits)

lemma rests_count: "count_processed s = Some s' \<Longrightarrow> rests s'"
  by (auto simp: rests_def count_processed_def split: option.splits)

lemma rests_boot: "wpc s = Created \<Longrightarrow> rests s \<Longrightarrow> rests (run_event_loop ok s)"
  by (auto simp: rests_def run_event_loop_def)

lemma rests_step: "step s e s' \<Longrightarrow> \<not> second_worker s' \<Longrightarrow> rests s \<Longrightarrow> rests s'"
  by (induction rule: step.induct)
    (blast intro: rests_perform rests_advance rests_time_out rests_worker rests_finish rests_count rests_boot)+

lemma rests_run: "run (sched_init m) es s \<Longrightarrow> \<not> second_worker s \<Longrightarrow> rests s"
proof (induction "sched_init m" es s rule: run.induct)
  case nil
  then show ?case by (simp add: rests_def sched_init_def)
qed (auto intro: rests_step dest: step_single)

lemma run_append: "run t fs u \<Longrightarrow> run s es t \<Longrightarrow> run s (es @ fs) u"
proof (induction rule: run.induct)
  case (snoc t fs u e v)
  then show ?case using run.snoc [of s "es @ fs" u e v] by simp
qed simp



lemma perform_max: "perform c s = Inr s' \<Longrightarrow> max_concurrent s' = max_concurrent s"
  by (cases c) (auto simp: perform_defs split: if_splits list.splits)

lemma advance_max: "advance i s = Some s' \<Longrightarrow> max_concurrent s' = max_concurrent s"
  by (cases i) (auto split: if_splits)

lemma time_out_max: "time_out i s = Some s' \<Longrightarrow> max_concurrent s' = max_concurrent s"
  by (cases i) (auto simp: paused_exit_def split: if_splits list.splits)

lemma worker_max: "worker_loop s = Some s' \<Longrightarrow> max_concurrent s' = max_concurrent s"
  by (auto simp: worker_loop_def split: worker_pc.splits if_splits)

lemma finish_max: "finish i oc s = Some s' \<Longrightarrow> max_concurrent s' = max_concurrent s"
  by (auto simp: finish_def generate_single_def split: if_splits outcome.splits list.splits)

lemma step_max: "step s e s' \<Longrightarrow> max_concurrent s' = max_concurrent s"
  by (induction rule: step.induct)
    (auto simp: count_processed_def split: option.splits dest: perform_max advance_max time_out_max worker_max finish_max simp: run_event_loop_def)

lemma run_max: "run s es s' \<Longrightarrow> max_concurrent s' = max_concurrent s"
  by (induction rule: run.induct) (auto dest: step_max)

text \<open>C14: however calls, worker steps and ends of generations interleave, in either mode and as long as no second
  worker has been started beside the first: the tasks put are,
  in order, the ones the worker started, the one it holds and the ones queued; at most
  \<open>max_concurrent_requests\<close> generations are active; every started task is still running, has ended
  without a result, or its result - with its own index and payload - is in the queue or with the client;
  \<open>total_processed\<close> counts the results put into the queue, except one between being put and being counted (which
  a client can only see if the worker runs in a thread of its own), and between calls \<open>total_submitted\<close> counts
  the tasks put.\<close>

theorem tasks_conserved:
  assumes "run (sched_init m) es s" "\<not> second_worker s" "0 \<le> m"
  shows "h_put s = h_launched s @ held (wpc s) @ task_queue s
    \<and> int (length (active s)) \<le> m
    \<and> mset (map task_key (h_launched s)) = mset (map task_key (unfinished s)) + mset (map task_key (h_empty s))
         + mset (map done_key (h_received s @ complete_queue s))
    \<and> int (length (h_received s @ complete_queue s)) = total_processed s + (if ending s = None then 0 else 1)
    \<and> (worker_task s \<and> client_turn s \<longrightarrow> ending s = None)
    \<and> (todo s = [] \<longrightarrow> total_submitted s = int (length (h_put s)))"
proof -
  have "sched_inv s" using run_inv [OF assms(1,2) sched_inv_init] .
  moreover have "max_concurrent s = m" using run_max [OF assms(1)] by (simp add: sched_init_def)
  ultimately show ?thesis using assms(3) by (cases "ending s") (auto simp: sched_inv_def client_turn_def)
qed

section \<open>Pausing\<close>

text \<open>Runs all of whose states are paused.\<close>

inductive paused_run :: "sched \<Rightarrow> sched \<Rightarrow> bool" where
  stay: "ts_paused s \<Longrightarrow> paused_run s s"
| more: "paused_run s t \<Longrightarrow> step t e u \<Longrightarrow> ts_paused u \<Longrightarrow> paused_run s u"

definition filling :: "worker_pc \<Rightarrow> bool" where
  "filling p \<longleftrightarrow> (case p of Filling \<Rightarrow> True | Holding t \<Rightarrow> True | _ \<Rightarrow> False)"

lemma filling_simps [simp]:
  "filling Filling" "filling (Holding t)" "\<not> filling Off" "\<not> filling Created" "\<not> filling Asleep"
  "\<not> filling Cleaned" "\<not> filling Draining"
  by (simp_all add: filling_def)

text \<open>What holds of a paused scheduler whose worker is not in the loop that starts tasks.\<close>

definition quiet :: "rollout_task list \<Rightarrow> nat \<Rightarrow> sched \<Rightarrow> bool" where
  "quiet l n s \<longleftrightarrow> \<not> filling (wpc s) \<and> h_launched s = l \<and> length (active s) \<le> n"

lemma quiet_perform: "quiet l n s \<Longrightarrow> perform c s = Inr s' \<Longrightarrow> quiet l n s'"
  by (cases c) (auto simp: quiet_def perform_defs split: if_splits list.splits)

lemma quiet_advance: "quiet l n s \<Longrightarrow> advance i (s\<lparr>todo := is\<rparr>) = Some s' \<Longrightarrow> quiet l n s'"
  by (cases i) (auto simp: quiet_def split: if_splits)

lemma quiet_time_out: "quiet l n s \<Longrightarrow> time_out i (s\<lparr>todo := is\<rparr>) = Some s' \<Longrightarrow> quiet l n s'"
  by (cases i) (auto simp: quiet_def paused_exit_def split: if_splits list.splits)

lemma quiet_worker:
  assumes "quiet l n s" "ts_paused s" "worker_loop s = Some s'"
  shows "quiet l n s'"
proof -
  have "length (filter P (active s)) \<le> n" for P
    using assms(1) length_filter_le [of P "active s"] by (simp add: quiet_def del: length_filter_le)
  then show ?thesis using assms by (auto simp: quiet_def worker_loop_def split: worker_pc.splits if_splits)
qed

lemma quiet_finish: "quiet l n s \<Longrightarrow> finish i oc s = Some s' \<Longrightarrow> quiet l n s'"
  by (auto simp: quiet_def finish_def generate_single_def split: if_splits outcome.splits list.splits)

lemma quiet_count: "quiet l n s \<Longrightarrow> count_processed s = Some s' \<Longrightarrow> quiet l n s'"
  by (auto simp: quiet_def count_processed_def split: option.splits)

lemma quiet_boot: "quiet l n s \<Longrightarrow> quiet l n (run_event_loop ok s)"
  by (simp add: quiet_def run_event_loop_def)

lemma quiet_step: "step s e s' \<Longrightarrow> ts_paused s \<Longrightarrow> quiet l n s \<Longrightarrow> quiet l n s'"
  by (induction rule: step.induct)
    (blast intro: quiet_perform quiet_advance quiet_time_out quiet_worker quiet_finish quiet_count quiet_boot)+

lemma paused_run_paused: "paused_run s t \<Longrightarrow> ts_paused t"
  by (induction rule: paused_run.induct)

lemma quiet_paused_run: "paused_run s t \<Longrightarrow> quiet l n s \<Longrightarrow> quiet l n t"
  by (induction rule: paused_run.induct) (blast dest: paused_run_paused intro: quiet_step)+

lemma client_turn_not_filling: "worker_task s \<Longrightarrow> client_turn s \<Longrightarrow> \<not> filling (wpc s)"
  by (auto simp: client_turn_def suspended_def)

text \<open>C15: a \<open>paused()\<close> block is entered when its wait sees no active task. If the worker shares the
  client's event loop, or if it is not in the loop that starts tasks at that moment, then from there on
  no generation is active and none is started for as long as the scheduler stays paused.\<close>

theorem paused_block_quiet:
  assumes "step s Advance t" "todo s = WaitPaused # is" "worker_task s \<or> \<not> filling (wpc s)"
    and "paused_run t u"
  shows "active u = [] \<and> h_launched u = h_launched s"
proof -
  have turn: "client_turn s" and t: "active s = []" "t = s\<lparr>todo := is\<rparr>"
    using assms(1,2) by (auto elim!: advanceE split: if_splits)
  then have "\<not> filling (wpc s)" using assms(3) client_turn_not_filling by blast
  then have "quiet (h_launched s) 0 t" using t by (simp add: quiet_def)
  from quiet_paused_run [OF assms(4) this] show ?thesis by (simp add: quiet_def)
qed

section \<open>Schedules\<close>

definition sample_payload_of :: "int \<Rightarrow> payload" where
  "sample_payload_of i = \<lparr>pl_prompt = VStr ''2 + 2'', pl_prompt_idx = i, pl_conversation = None,
     pl_reference_answer = None, pl_weight_version = 0, pl_completions = None, pl_completed_conversations = None,
     pl_n_ignore_prefix_tokens = None, pl_rewards = None, pl_advantages = None, pl_filter_rewards = None,
     pl_completion_token_ids = None, pl_completion_logprobs = None, pl_prompt_logprobs = None,
     pl_prompt_token_ids = None, pl_extra_info = None, pl_report_metrics = None, pl_teacher_result_uuids = None,
     pl_valid = True, pl_cumulative_logprob = None\<rparr>"

definition sample_task :: "int \<Rightarrow> rollout_task" where
  "sample_task i = \<lparr>rt_idx = i, rt_payload = sample_payload_of i, rt_is_validation = False\<rparr>"

definition sample_result :: rollout_result where
  "sample_result = \<lparr>rr_prompt = VStr ''2 + 2'', rr_conversation = None, rr_completions = [VStr ''4''],
     rr_completed_conversations = None, rr_completion_logprobs = None, rr_prompt_logprobs = None,
     rr_completion_token_ids = None, rr_cumulative_logprob = None, rr_prompt_token_ids = None, rr_extra_info = None\<rparr>"

text \<open>The deterministic part of the relation as a function, to follow a schedule.\<close>

primrec move :: "event \<Rightarrow> sched \<Rightarrow> sched option" where
  "move (Call c) s = (if todo s = [] \<and> client_turn s \<and> proper_call c s
     then (case perform c s of Inl err \<Rightarrow> None | Inr t \<Rightarrow> Some t) else None)"
| "move Advance s = (case todo s of [] \<Rightarrow> None
     | i # is \<Rightarrow> if client_turn s then advance i (s\<lparr>todo := is\<rparr>) else None)"
| "move TimeUp s = (case todo s of [] \<Rightarrow> None
     | i # is \<Rightarrow> if client_turn s then time_out i (s\<lparr>todo := is\<rparr>) else None)"
| "move (Boot ok) s = (if wpc s = Created then Some (run_event_loop ok s) else None)"
| "move Work s = (if loop_turn s \<and> ending s = None then worker_loop s else None)"
| "move (Finish i oc) s = (if loop_turn s then finish i oc s else None)"
| "move Count s = (if loop_turn s then count_processed s else None)"

definition follow :: "event \<Rightarrow> sched \<Rightarrow> sched option" where
  "follow e s = (if second_worker s then None else move e s)"

lemma follow_step: "follow e s = Some t \<Longrightarrow> step s e t"
  by (cases e) (auto simp: follow_def intro: step.intros split: list.splits sum.splits if_splits)

lemma step_follow: "step s e t \<Longrightarrow> follow e s = Some t"
  by (induction rule: step.induct) (simp_all add: follow_def)

primrec follow_all :: "event list \<Rightarrow> sched \<Rightarrow> sched option" where
  "follow_all [] s = Some s"
| "follow_all (e # es) s = (case follow e s of None \<Rightarrow> None | Some t \<Rightarrow> follow_all es t)"

lemma run_Cons: "step s e t \<Longrightarrow> run t es u \<Longrightarrow> run s (e # es) u"
  using run_append [OF _ run.snoc [OF run.nil]] by fastforce

lemma follow_all_run: "follow_all es s = Some t \<Longrightarrow> run s es t"
  by (induction es arbitrary: s) (auto intro: run.nil run_Cons follow_step split: option.splits)

lemmas follow_simps = follow_def client_turn_def loop_turn_def proper_call_def suspended_def awaits_def
  perform_defs worker_loop_def run_event_loop_def finish_def generate_single_def count_processed_def
  done_at_def sched_init_def

definition pausing_schedule :: "event list" where
  "pausing_schedule = [Call StartAsync, Work, Work, Work, Call (Put (sample_task 0)), Advance, Advance, Call (EnterPaused True)]"

theorem paused_block_quiet_witness:
  "\<exists>s t u. run (sched_init 1) pausing_schedule s \<and> step s Advance t \<and> contexts t = [False] \<and> paused_run t u
     \<and> wpc u = Cleaned \<and> task_queue u = [sample_task 0] \<and> active u = [] \<and> h_launched u = []"
proof -
  have "\<exists>s. follow_all pausing_schedule (sched_init 1) = Some s \<and> worker_task s \<and> todo s = [WaitPaused] \<and> h_launched s = []
     \<and> (\<exists>t. follow Advance s = Some t \<and> contexts t = [False] \<and> ts_paused t
     \<and> (\<exists>u. follow Work t = Some u \<and> ts_paused u \<and> wpc u = Cleaned \<and> task_queue u = [sample_task 0]))"
    by (simp add: pausing_schedule_def follow_simps)
  then obtain s t u where s: "run (sched_init 1) pausing_schedule s" "worker_task s" "todo s = [WaitPaused]"
      "h_launched s = []" "step s Advance t" "contexts t = [False]"
    and u: "paused_run t u" "wpc u = Cleaned" "task_queue u = [sample_task 0]"
    using follow_all_run follow_step paused_run.intros by meson
  have "active u = [] \<and> h_launched u = []" using paused_block_quiet [OF s(5,3) _ u(1)] s(2,4) by simp
  with s u show ?thesis by blast
qed

text \<open>In its own thread the worker has just put its only result into the queue, and not counted it.\<close>

definition between :: "event list" where
  "between = [Call Start, Boot True, Call (Put (sample_task 0)), Advance, Advance, Work, Work, Work, Work, Work,
     Finish 0 (Results [sample_result])]"

theorem tasks_conserved_witness:
  "\<exists>s. run (sched_init 1) between s \<and> ending s = Some 0 \<and> h_put s = [sample_task 0]
     \<and> h_put s = h_launched s @ held (wpc s) @ task_queue s \<and> length (complete_queue s) = 1 \<and> total_processed s = 0"
proof -
  have "\<exists>s. follow_all between (sched_init 1) = Some s \<and> \<not> second_worker s \<and> ending s = Some 0 \<and> h_put s = [sample_task 0]
     \<and> length (complete_queue s) = 1 \<and> h_received s = []"
    by (simp add: between_def follow_simps sample_result_def)
  then obtain s where s: "run (sched_init 1) between s" "\<not> second_worker s" "ending s = Some 0" "h_put s = [sample_task 0]"
      "length (complete_queue s) = 1" "h_received s = []"
    using follow_all_run by blast
  show ?thesis using tasks_conserved [OF s(1,2)] s by (intro exI [of _ s]) simp
qed

definition handover :: "event list" where
  "handover = [Call Start, Boot True, Call (Put (sample_task 0)), Advance, Advance, Work, Work, Work]"

text \<open>With the worker in its own thread waiting is not enough: there is an interleaving in which the
  client is inside its \<open>paused()\<close> block, after a wait that saw no active task, while a generation is
  running - the worker had tested the flag and taken the task before the client paused; and one in
  which all tasks count as completed while the worker is about to start one.\<close>

theorem waiting_races:
  "(\<exists>s. run (sched_init 1) (handover @ [Call (EnterPaused True), Advance, Work]) s
      \<and> ts_paused s \<and> contexts s = [False] \<and> todo s = [] \<and> active s = [(sample_task 0, False)])
   \<and> (\<exists>s. run (sched_init 1) (handover @ [Call WaitAll, Advance]) s
      \<and> is_all_tasks_completed s \<and> todo s = [] \<and> wpc s = Holding (sample_task 0))"
proof -
  have "\<exists>s. follow_all (handover @ [Call (EnterPaused True), Advance, Work]) (sched_init 1) = Some s
      \<and> ts_paused s \<and> contexts s = [False] \<and> todo s = [] \<and> active s = [(sample_task 0, False)]"
    by (simp add: handover_def follow_simps)
  moreover have "\<exists>s. follow_all (handover @ [Call WaitAll, Advance]) (sched_init 1) = Some s
      \<and> is_all_tasks_completed s \<and> todo s = [] \<and> wpc s = Holding (sample_task 0)"
    by (simp add: handover_def follow_simps is_all_tasks_completed_def)
  ultimately show ?thesis using follow_all_run by blast
qed

text \<open>The two modes exclude each other, and a running scheduler has a worker in its loop.\<close>

definition mode_inv :: "sched \<Rightarrow> bool" where
  "mode_inv s \<longleftrightarrow> \<not> (worker_thread s \<and> worker_task s)
     \<and> (wpc s = Created \<longrightarrow> worker_thread s)
     \<and> (ts_running s \<longrightarrow> wpc s \<noteq> Off \<and> wpc s \<noteq> Created \<and> wpc s \<noteq> Draining)"

lemma mode_perform: "mode_inv s \<Longrightarrow> \<not> second_worker s' \<Longrightarrow> perform c s = Inr s' \<Longrightarrow> mode_inv s'"
  by (cases c) (auto simp: mode_inv_def perform_defs split: if_splits list.splits)

lemma mode_advance: "mode_inv s \<Longrightarrow> advance i (s\<lparr>todo := is\<rparr>) = Some s' \<Longrightarrow> mode_inv s'"
  by (cases i) (auto simp: mode_inv_def split: if_splits)

lemma mode_time_out: "mode_inv s \<Longrightarrow> time_out i (s\<lparr>todo := is\<rparr>) = Some s' \<Longrightarrow> mode_inv s'"
  by (cases i) (auto simp: mode_inv_def paused_exit_def split: if_splits list.splits)

lemma mode_worker: "mode_inv s \<Longrightarrow> worker_loop s = Some s' \<Longrightarrow> mode_inv s'"
  by (auto simp: mode_inv_def worker_loop_def split: worker_pc.splits if_splits)

lemma mode_finish: "mode_inv s \<Longrightarrow> finish i oc s = Some s' \<Longrightarrow> mode_inv s'"
  by (auto simp: mode_inv_def finish_def generate_single_def split: if_splits outcome.splits list.splits)

lemma mode_count: "mode_inv s \<Longrightarrow> count_processed s = Some s' \<Longrightarrow> mode_inv s'"
  by (auto simp: mode_inv_def count_processed_def split: option.splits)

lemma mode_boot: "mode_inv s \<Longrightarrow> wpc s = Created \<Longrightarrow> mode_inv (run_event_loop ok s)"
  by (simp add: mode_inv_def run_event_loop_def)

lemma mode_step: "step s e s' \<Longrightarrow> \<not> second_worker s' \<Longrightarrow> mode_inv s \<Longrightarrow> mode_inv s'"
  by (induction rule: step.induct)
    (blast intro: mode_perform mode_advance mode_time_out mode_worker mode_finish mode_count mode_boot)+

lemma mode_run: "run (sched_init m) es s \<Longrightarrow> \<not> second_worker s \<Longrightarrow> mode_inv s"
proof (induction "sched_init m" es s rule: run.induct)
  case nil
  then show ?case by (simp add: mode_inv_def sched_init_def)
qed (auto intro: mode_step dest: step_single)

text \<open>On a shared event loop the wait of \<open>paused()\<close> never ends once it has found an active task: it
  blocks the loop the generations run on, so the only step left is its timeout, if it was given one -
  and that leaves the block.\<close>

theorem paused_wait_blocks_loop:
  assumes "run (sched_init m) es s" "worker_task s" "todo s = WaitPaused # is" "active s \<noteq> []" "step s e t"
  shows "e = TimeUp \<and> t = paused_exit (s\<lparr>todo := is\<rparr>)"
proof -
  have "wpc s \<noteq> Created" using mode_run [OF assms(1) step_single [OF assms(5)]] assms(2)
    by (auto simp: mode_inv_def)
  moreover have "\<not> loop_turn s" using assms(2,3) by (simp add: loop_turn_def awaits_def)
  ultimately show ?thesis using step_follow [OF assms(5)] assms(3,4)
    by (cases e) (auto simp: follow_def split: if_splits)
qed

definition blocking_schedule :: "event list" where
  "blocking_schedule = [Call StartAsync, Call (Put (sample_task 0)), Advance, Advance, Work, Work, Work, Work, Work,
     Call (EnterPaused True)]"

theorem paused_wait_blocks_loop_witness:
  "\<exists>s. run (sched_init 1) blocking_schedule s \<and> active s = [(sample_task 0, False)] \<and> (\<exists>t. step s TimeUp t)
     \<and> (\<nexists>t. step s Work t) \<and> (\<nexists>oc t. step s (Finish 0 oc) t)"
proof -
  have "\<exists>s. follow_all blocking_schedule (sched_init 1) = Some s \<and> worker_task s \<and> todo s = [WaitPaused]
     \<and> active s = [(sample_task 0, False)] \<and> follow TimeUp s \<noteq> None"
    by (simp add: blocking_schedule_def follow_simps)
  then obtain s where s: "run (sched_init 1) blocking_schedule s" "worker_task s" "todo s = [WaitPaused]"
    "active s = [(sample_task 0, False)]" "\<exists>t. step s TimeUp t"
    using follow_all_run follow_step by (metis option.exhaust)
  have only: "e = TimeUp" if "step s e t" for e t
    using paused_wait_blocks_loop [OF s(1) s(2) s(3) _ that] s(4) by simp
  show ?thesis using s only by (intro exI [of _ s]) blast
qed

section \<open>Progress\<close>

text \<open>What the worker and the generations do when nobody calls: worker steps, generations that end and are
  counted, with the outcome \<open>oc\<close> foresees for their task.\<close>

inductive alone :: "(rollout_task \<Rightarrow> outcome) \<Rightarrow> sched \<Rightarrow> sched \<Rightarrow> bool" for oc where
  idle: "alone oc s s"
| work: "step s Work t \<Longrightarrow> alone oc t u \<Longrightarrow> alone oc s u"
| finish: "step s (Finish i (oc (fst (active s ! i)))) t \<Longrightarrow> alone oc t u \<Longrightarrow> alone oc s u"
| counted: "step s Count t \<Longrightarrow> alone oc t u \<Longrightarrow> alone oc s u"

definition backlog :: "sched \<Rightarrow> rollout_task list" where
  "backlog s = unfinished s @ held (wpc s) @ task_queue s"

fun produced :: "rollout_task \<Rightarrow> outcome \<Rightarrow> completed_rollout multiset" where
  "produced t (Results (r # rs)) = {#\<lparr>co_idx = rt_idx t, co_payload = rt_payload t, co_result = r\<rparr>#}"
| "produced t _ = {#}"

definition all_results :: "(rollout_task \<Rightarrow> outcome) \<Rightarrow> sched \<Rightarrow> completed_rollout multiset" where
  "all_results oc s = mset (complete_queue s) + sum_list (map (\<lambda>t. produced t (oc t)) (backlog s))"

definition client_view :: "sched \<Rightarrow> bool \<times> bool \<times> bool \<times> bool \<times> bool list \<times> instr list \<times> rollout_task list \<times> completed_rollout list \<times> int" where
  "client_view s = (second_worker s, ts_running s, ts_paused s, worker_task s, contexts s, todo s, h_put s, h_received s, max_concurrent s)"

lemma alone_run: "alone oc s t \<Longrightarrow> \<exists>es. run s es t"
  by (induction rule: alone.induct) (blast intro: run.nil run_Cons)+

lemma work_keeps:
  assumes "worker_loop s = Some t" "ts_running s" "ending s = None"
  shows "client_view t = client_view s \<and> backlog t = backlog s \<and> complete_queue t = complete_queue s"
  using assms
  by (auto simp: worker_loop_def client_view_def backlog_def unfinished_def settled_def split: worker_pc.splits if_splits)

lemma finish_keeps:
  assumes "finish i (oc (fst (active s ! i))) s = Some t"
  shows "client_view t = client_view s \<and> all_results oc t = all_results oc s"
proof -
  let ?t = "fst (active s ! i)"
  have "sum_list (map (\<lambda>t. produced t (oc t)) (unfinished s))
    = produced ?t (oc ?t) + sum_list (map (\<lambda>t. produced t (oc t)) (unfinished t))"
    using finish_settles(1) [OF assms]
    by (metis (no_types, lifting) image_mset_add_mset mset_map sum_mset_sum_list sum_mset.add_mset)
  moreover have "t = generate_single i ?t (oc ?t) s" using assms by (auto simp: finish_def split: if_splits)
  ultimately show ?thesis
    by (auto simp: client_view_def all_results_def backlog_def generate_single_def split: outcome.splits list.splits)
qed

lemma count_keeps:
  assumes "count_processed s = Some t"
  shows "client_view t = client_view s \<and> all_results oc t = all_results oc s"
  using assms count_settles [OF assms]
  by (auto simp: count_processed_def client_view_def all_results_def backlog_def split: option.splits)

lemma alone_keeps:
  "alone oc s t \<Longrightarrow> ts_running s \<Longrightarrow> client_view t = client_view s \<and> all_results oc t = all_results oc s"
proof (induction rule: alone.induct)
  case (work s t u)
  have w: "worker_loop s = Some t" "ending s = None"
    using step_follow [OF work.hyps(1)] by (auto simp: follow_def split: if_splits)
  have t: "client_view t = client_view s" "all_results oc t = all_results oc s"
    using work_keeps [OF w(1) work.prems w(2)] by (auto simp: all_results_def)
  then have "ts_running t" using work.prems by (simp add: client_view_def)
  then show ?case using work.IH t by simp
next
  case (finish s i t u)
  have f: "finish i (oc (fst (active s ! i))) s = Some t"
    using step_follow [OF finish.hyps(1)] by (auto simp: follow_def split: if_splits)
  then have "ts_running t" using finish_keeps [where oc = oc, OF f] finish.prems by (simp add: client_view_def)
  then show ?case using finish.IH finish_keeps [where oc = oc, OF f] by simp
next
  case (counted s t u)
  have c: "count_processed s = Some t"
    using step_follow [OF counted.hyps(1)] by (auto simp: follow_def split: if_splits)
  then have "ts_running t" using count_keeps [OF c, of oc] counted.prems by (simp add: client_view_def)
  then show ?case using counted.IH count_keeps [OF c, of oc] by simp
qed simp

text \<open>How far the tasks are: each stage counts four, and going once around the loop three; counting a result is one.\<close>

definition stages :: "sched \<Rightarrow> nat" where
  "stages s = 5 * length (task_queue s) + 4 * length (held (wpc s))
     + sum_list (map (\<lambda>(t, finished). if finished then 1 else 2) (settled s))"

definition phase :: "sched \<Rightarrow> nat" where
  "phase s = (case wpc s of Asleep \<Rightarrow> if active s = [] then 3 else 0 | Cleaned \<Rightarrow> 2 | Filling \<Rightarrow> 1 | _ \<Rightarrow> 0)
     + (if ending s = None then 0 else 1)"

definition work_left :: "sched \<Rightarrow> nat" where
  "work_left s = 4 * stages s + phase s"

definition able :: "sched \<Rightarrow> bool" where
  "able s \<longleftrightarrow> \<not> second_worker s \<and> ts_running s \<and> \<not> ts_paused s \<and> awaits (todo s) \<and> 0 < max_concurrent s
     \<and> wpc s \<noteq> Off \<and> wpc s \<noteq> Created \<and> wpc s \<noteq> Draining"

lemma stages_finish:
  "i < length xs \<Longrightarrow> \<not> snd (xs ! i) \<Longrightarrow>
   sum_list (map (\<lambda>(t, finished). if finished then 1 else 2 :: nat) xs)
     = Suc (sum_list (map (\<lambda>(t, finished). if finished then 1 else 2) (done_at i xs)))"
proof (induction xs arbitrary: i)
  case (Cons x xs)
  then show ?case by (cases i) (auto simp: split_beta done_at_def)
qed simp

lemma progress_finish:
  assumes "able s" "wpc s = Asleep" "ending s = None" "i < length (active s)" "\<not> snd (active s ! i)"
  shows "\<exists>t. step s (Finish i oc) t \<and> work_left t < work_left s"
proof -
  obtain t where t: "finish i oc s = Some t" using assms by (simp add: finish_def)
  then have "step s (Finish i oc) t" using assms(1) by (intro step.finish) (simp_all add: able_def loop_turn_def)
  moreover have "wpc t = Asleep" "active t \<noteq> []" "task_queue t = task_queue s"
    using t assms(2,4) by (auto simp: finish_def generate_single_def done_at_def split: outcome.splits list.splits if_splits)
  moreover have "stages s = Suc (stages t)"
    using stages_finish [OF assms(4,5)] finish_settles(2,3) [OF t] calculation(2,4) assms(2) by (simp add: stages_def)
  ultimately have "work_left t < work_left s" by (simp add: work_left_def phase_def)
  with \<open>step s (Finish i oc) t\<close> show ?thesis by blast
qed

lemma progress_count:
  assumes "able s" "ending s \<noteq> None"
  shows "\<exists>t. step s Count t \<and> work_left t < work_left s"
proof -
  obtain i where i: "ending s = Some i" using assms(2) by blast
  let ?t = "s\<lparr>total_processed := total_processed s + 1, active := done_at i (active s), ending := None\<rparr>"
  have t: "count_processed s = Some ?t" using i by (simp add: count_processed_def)
  then have "step s Count ?t" using assms(1) by (intro step.counted) (simp_all add: able_def loop_turn_def)
  moreover have "stages ?t = stages s" using count_settles [OF t] by (simp add: stages_def)
  then have "work_left ?t < work_left s"
    using i by (cases "active s") (auto simp: work_left_def phase_def split: worker_pc.splits)
  ultimately show ?thesis by blast
qed

lemma progress_work:
  assumes "able s" "ending s = None" "\<not> (is_all_tasks_completed s \<and> held (wpc s) = [])" "wpc s = Asleep \<Longrightarrow> \<forall>x \<in> set (active s). snd x"
  shows "\<exists>t. step s Work t \<and> work_left t < work_left s"
proof -
  obtain t where t: "worker_loop s = Some t" using assms(1) by (cases "wpc s") (simp_all add: able_def worker_loop_def)
  then have "step s Work t" using assms(1) assms(2) by (intro step.work) (simp_all add: able_def loop_turn_def)
  moreover have "work_left t < work_left s"
  proof (cases "wpc s")
    case Asleep
    have "filter (\<lambda>(t, finished). \<not> finished) (active s) = []"
      using assms(4) [OF Asleep] by (auto simp: filter_empty_conv)
    moreover have "active s = [] \<or> 0 < sum_list (map (\<lambda>(t, finished). if finished then 1 else 2 :: nat) (active s))"
      by (cases "active s") auto
    ultimately show ?thesis using t Asleep assms(1,2)
      by (auto simp: worker_loop_def work_left_def stages_def settled_def phase_def able_def)
  next
    case Cleaned
    then show ?thesis using t assms(1,2) by (auto simp: worker_loop_def work_left_def stages_def settled_def phase_def able_def)
  next
    case Filling
    have "active s \<noteq> []" if "\<not> (int (length (active s)) < max_concurrent s \<and> task_queue s \<noteq> [])"
      using that assms(1,3) Filling by (auto simp: able_def is_all_tasks_completed_def)
    then show ?thesis using t Filling assms(2)
      by (cases "task_queue s") (auto simp: worker_loop_def work_left_def stages_def settled_def phase_def split: if_splits)
  next
    case (Holding task)
    then show ?thesis using t assms(2) by (auto simp: worker_loop_def work_left_def stages_def settled_def phase_def)
  qed (use assms(1) in \<open>auto simp: able_def\<close>)
  ultimately show ?thesis by blast
qed

lemma able_step:
  assumes "able s" "mode_inv s" "step s e t" "client_view t = client_view s"
  shows "able t \<and> mode_inv t"
  using assms mode_step [OF assms(3) _ assms(2)] by (auto simp: able_def client_view_def mode_inv_def)

lemma alone_completes:
  "able s \<Longrightarrow> mode_inv s \<Longrightarrow> \<exists>t. alone oc s t \<and> is_all_tasks_completed t \<and> held (wpc t) = []"
proof (induction "work_left s" arbitrary: s rule: less_induct)
  case less
  show ?case
  proof (cases "is_all_tasks_completed s \<and> held (wpc s) = []")
    case True
    then show ?thesis using less.prems by (blast intro: alone.idle)
  next
    case open_tasks: False
    consider "ending s \<noteq> None" | "ending s = None" "wpc s = Asleep \<and> (\<exists>i < length (active s). \<not> snd (active s ! i))"
      | "ending s = None" "\<not> (wpc s = Asleep \<and> (\<exists>i < length (active s). \<not> snd (active s ! i)))" by blast
    then show ?thesis
    proof cases
      case 1
      then obtain t where t: "step s Count t" "work_left t < work_left s"
        using progress_count less.prems by blast
      have "client_view t = client_view s"
        using alone_keeps [OF alone.counted [where oc = oc, OF t(1) alone.idle]] less.prems by (simp add: able_def)
      from able_step [OF less.prems t(1) this] less.hyps [OF t(2)] show ?thesis
        by (blast intro: alone.counted [OF t(1)])
    next
      case 2
      then obtain i where i: "i < length (active s)" "\<not> snd (active s ! i)" by blast
      then obtain t where t: "step s (Finish i (oc (fst (active s ! i)))) t" "work_left t < work_left s"
        using progress_finish [of s i] less.prems 2 by blast
      have "client_view t = client_view s"
        using alone_keeps [OF alone.finish [where oc = oc, OF t(1) alone.idle]] less.prems by (simp add: able_def)
      from able_step [OF less.prems t(1) this] less.hyps [OF t(2)] show ?thesis
        by (blast intro: alone.finish [where oc = oc, OF t(1)])
    next
      case 3
      then have "wpc s = Asleep \<Longrightarrow> \<forall>x \<in> set (active s). snd x" by (metis in_set_conv_nth)
      then obtain t where t: "step s Work t" "work_left t < work_left s"
        using progress_work [OF less.prems(1) 3(1) open_tasks] by blast
      have "client_view t = client_view s"
        using alone_keeps [OF alone.work [where oc = oc, OF t(1) alone.idle]] less.prems by (simp add: able_def)
      from able_step [OF less.prems t(1) this] less.hyps [OF t(2)] show ?thesis
        by (blast intro: alone.work [OF t(1)])
    qed
  qed
qed

text \<open>C16: from every state reached with one worker in which the scheduler is running and not paused, has room for a
  generation, and the client is between calls or awaiting, the worker and the generations get to the
  end on their own, whatever each generation's outcome: all tasks put are started and completed, and
  the results queued are the ones queued before plus one for each unfinished task that returns any.\<close>

theorem backlog_completes:
  assumes "run (sched_init m) es s" "0 < m" "ts_running s" "\<not> ts_paused s" "awaits (todo s)"
    and "\<not> second_worker s"
  shows "\<exists>t. alone oc s t \<and> is_all_tasks_completed t \<and> h_launched t = h_put s
    \<and> h_received t = h_received s
    \<and> mset (complete_queue t) = mset (complete_queue s)
        + sum_list (map (\<lambda>x. produced x (oc x)) (unfinished s @ held (wpc s) @ task_queue s))"
proof -
  have inv: "mode_inv s" using mode_run [OF assms(1,6)] .
  then have "able s" using assms run_max [OF assms(1)] by (simp add: able_def mode_inv_def sched_init_def)
  from alone_completes [OF this inv, of oc]
  obtain t where t: "alone oc s t" "is_all_tasks_completed t" "held (wpc t) = []" by blast
  have keep: "client_view t = client_view s" "all_results oc t = all_results oc s"
    using alone_keeps [OF t(1) assms(3)] by auto
  obtain fs where "run s fs t" using alone_run [OF t(1)] by blast
  then have "sched_inv t" using run_inv [OF run_append [OF _ assms(1)] _ sched_inv_init] keep(1) assms(6)
    by (auto simp: client_view_def)
  moreover have "settled t = []" using t(2)
    by (cases "ending t") (simp_all add: settled_def is_all_tasks_completed_def done_at_def)
  then have "backlog t = []" using t(2,3) by (simp add: backlog_def is_all_tasks_completed_def unfinished_def)
  ultimately have "h_launched t = h_put t" "all_results oc t = mset (complete_queue t)"
    using t(2,3) by (simp_all add: sched_inv_def is_all_tasks_completed_def all_results_def)
  then show ?thesis using t keep
    by (intro exI [of _ t]) (simp add: client_view_def all_results_def backlog_def)
qed

theorem backlog_completes_witness:
  "\<exists>s t. run (sched_init 1) (butlast blocking_schedule) s \<and> unfinished s = [sample_task 0]
     \<and> alone (\<lambda>x. Results [sample_result]) s t \<and> is_all_tasks_completed t
     \<and> mset (complete_queue t) = {#\<lparr>co_idx = 0, co_payload = sample_payload_of 0, co_result = sample_result\<rparr>#}"
proof -
  have "\<exists>s. follow_all (butlast blocking_schedule) (sched_init 1) = Some s \<and> ts_running s \<and> \<not> ts_paused s
     \<and> awaits (todo s) \<and> \<not> second_worker s \<and> unfinished s = [sample_task 0] \<and> held (wpc s) @ task_queue s = [] \<and> complete_queue s = []"
    by (simp add: blocking_schedule_def follow_simps unfinished_def settled_def)
  then obtain s where s: "run (sched_init 1) (butlast blocking_schedule) s" "ts_running s" "\<not> ts_paused s"
    "awaits (todo s)" "\<not> second_worker s" "unfinished s = [sample_task 0]" "held (wpc s) @ task_queue s = []" "complete_queue s = []"
    using follow_all_run by blast
  show ?thesis using backlog_completes [OF s(1) _ s(2-5), of "\<lambda>x. Results [sample_result]"] s
    by (auto simp: sample_task_def)
qed

section \<open>After stopping\<close>

definition ended :: "sched \<Rightarrow> bool" where
  "ended s \<longleftrightarrow> (wpc s = Off \<or> wpc s = Created \<longrightarrow> list_all snd (active s))"

lemma ended_perform: "ended s \<Longrightarrow> \<not> second_worker s' \<Longrightarrow> perform c s = Inr s' \<Longrightarrow> ended s'"
  by (cases c) (auto simp: ended_def perform_defs split: if_splits list.splits)

lemma ended_advance: "ended s \<Longrightarrow> advance i (s\<lparr>todo := is\<rparr>) = Some s' \<Longrightarrow> ended s'"
  by (cases i) (auto simp: ended_def split: if_splits)

lemma ended_time_out: "ended s \<Longrightarrow> time_out i (s\<lparr>todo := is\<rparr>) = Some s' \<Longrightarrow> ended s'"
  by (cases i) (auto simp: ended_def paused_exit_def split: if_splits list.splits)

lemma ended_worker: "worker_loop s = Some s' \<Longrightarrow> ended s'"
  by (auto simp: ended_def worker_loop_def list_all_iff split: worker_pc.splits if_splits)

lemma ended_finish: "finish i oc s = Some s' \<Longrightarrow> ended s'"
  by (auto simp: ended_def finish_def generate_single_def split: if_splits outcome.splits list.splits)

lemma list_all_done: "list_all snd xs \<Longrightarrow> list_all snd (done_at i xs)"
  by (induction xs arbitrary: i) (auto simp: done_at_def split: nat.splits)

lemma ended_count: "count_processed s = Some s' \<Longrightarrow> ended s \<Longrightarrow> ended s'"
  by (auto simp: ended_def count_processed_def list_all_done split: option.splits)

lemma ended_boot: "ended s \<Longrightarrow> wpc s = Created \<Longrightarrow> ended (run_event_loop ok s)"
  by (simp add: ended_def run_event_loop_def)

lemma ended_run: "run s es s' \<Longrightarrow> \<not> second_worker s' \<Longrightarrow> ended s \<Longrightarrow> ended s'"
proof (induction rule: run.induct)
  case (snoc s es t e u)
  from snoc(2) have "\<not> second_worker u \<Longrightarrow> ended t \<Longrightarrow> ended u"
    by (induction rule: step.induct)
      (blast intro: ended_perform ended_advance ended_time_out ended_worker ended_finish ended_count ended_boot)+
  then show ?case using snoc step_single by blast
qed

text \<open>A second worker is in its loop or about to be.\<close>

lemma second_perform: "perform c s = Inr t \<Longrightarrow> \<not> second_worker s \<Longrightarrow> second_worker t \<Longrightarrow> wpc t \<noteq> Off"
  by (cases c) (auto simp: perform_defs split: if_splits list.splits)

lemma second_advance: "advance i s = Some t \<Longrightarrow> second_worker t = second_worker s"
  by (cases i) (auto split: if_splits)

lemma second_time_out: "time_out i s = Some t \<Longrightarrow> second_worker t = second_worker s"
  by (cases i) (auto simp: paused_exit_def split: if_splits list.splits)

lemma second_step: "step s e t \<Longrightarrow> second_worker t \<Longrightarrow> wpc t \<noteq> Off"
proof (induction rule: step.induct)
  case (call s c s')
  then show ?case using second_perform by blast
next
  case (advance s i "is" s')
  then show ?case using second_advance by fastforce
next
  case (time_up s i "is" s')
  then show ?case using second_time_out by fastforce
qed (auto simp: run_event_loop_def worker_loop_def finish_def generate_single_def count_processed_def
    split: worker_pc.splits if_splits outcome.splits list.splits option.splits)

lemma second_run: "run (sched_init m) es s \<Longrightarrow> wpc s = Off \<Longrightarrow> \<not> second_worker s"
  by (cases "sched_init m" es s rule: run.cases) (auto simp: sched_init_def dest: second_step)

text \<open>The second call of \<open>start\<close>, made before the first worker has set up the engine, is accepted and gives the scheduler a
  second worker, on which the statements above say nothing.\<close>

theorem second_start:
  "\<exists>s t. run (sched_init m) [Call Start] s \<and> wpc s = Created \<and> step s (Call Start) t \<and> second_worker t"
proof -
  have "\<exists>s. follow_all [Call Start] (sched_init m) = Some s \<and> wpc s = Created
      \<and> (\<exists>t. follow (Call Start) s = Some t \<and> second_worker t)"
    by (simp add: follow_simps)
  then show ?thesis using follow_all_run follow_step by blast
qed

definition starts :: "event \<Rightarrow> bool" where
  "starts e \<longleftrightarrow> e = Call Start \<or> e = Call StartAsync"

lemma off_perform:
  "perform c s = Inr s' \<Longrightarrow> \<not> starts (Call c) \<Longrightarrow> active s' = active s \<and> wpc s' = wpc s \<and> ending s' = ending s"
  by (cases c) (auto simp: starts_def perform_defs split: if_splits list.splits)

lemma off_advance: "advance i s = Some s' \<Longrightarrow> active s' = active s \<and> wpc s' = wpc s \<and> ending s' = ending s"
  by (cases i) (auto split: if_splits)

lemma off_time_out: "time_out i s = Some s' \<Longrightarrow> active s' = active s \<and> wpc s' = wpc s \<and> ending s' = ending s"
  by (cases i) (auto simp: paused_exit_def split: if_splits list.splits)

lemma off_step:
  "step s e s' \<Longrightarrow> wpc s = Off \<Longrightarrow> ending s = None \<Longrightarrow> \<not> starts e \<Longrightarrow> active s' = active s \<and> wpc s' = Off \<and> ending s' = None"
proof (induction rule: step.induct)
  case (call s c s')
  then show ?case using off_perform by metis
next
  case (advance s i "is" s')
  then show ?case using off_advance [OF advance(4)] by simp
next
  case (time_up s i "is" s')
  then show ?case using off_time_out [OF time_up(4)] by simp
qed (simp_all add: worker_loop_def finish_def count_processed_def)

lemma off_run:
  "run s es t \<Longrightarrow> list_all (\<lambda>e. \<not> starts e) es \<Longrightarrow> wpc s = Off \<Longrightarrow> ending s = None \<Longrightarrow>
   active t = active s \<and> wpc t = Off \<and> ending t = None"
  by (induction rule: run.induct) (auto dest: off_step)

text \<open>A worker that stops while generations are running waits for them but leaves them among the
  active ones: once it has ended with some left they are all done, but unless it is started again, no
  step ever removes them, so \<open>is_all_tasks_completed\<close> stays false and \<open>wait_all_tasks_completed\<close> and
  \<open>draining_activate_tasks\<close> cannot get through.\<close>

theorem stopped_never_completes:
  assumes "run (sched_init m) es s" "wpc s = Off" "active s \<noteq> []"
    and "run s fs t" "list_all (\<lambda>e. \<not> starts e) fs"
  shows "active t = active s \<and> list_all snd (active t) \<and> \<not> is_all_tasks_completed t
    \<and> (todo t = WaitAllDone # is \<or> todo t = WaitDrained # is \<longrightarrow> (\<nexists>u. step t Advance u))"
proof -
  have single: "\<not> second_worker s" using second_run [OF assms(1,2)] .
  have "ending s = None" using rests_run [OF assms(1) single] assms(2) by (auto simp: rests_def)
  then have t: "active t = active s" using off_run [OF assms(4,5,2)] by simp
  have "ended s" using ended_run [OF assms(1) single] by (simp add: ended_def sched_init_def)
  then have "list_all snd (active s)" using assms(2) by (simp add: ended_def)
  moreover have "\<nexists>u. step t Advance u" if "todo t = WaitAllDone # is \<or> todo t = WaitDrained # is"
    using that t assms(3) by (auto elim!: advanceE simp: is_all_tasks_completed_def)
  ultimately show ?thesis using t assms(3) by (simp add: is_all_tasks_completed_def)
qed

definition stopping_schedule :: "event list" where
  "stopping_schedule = [Call StartAsync, Call (Put (sample_task 0)), Advance, Advance, Work, Work, Work, Work, Work,
     Call (StopAsync True), Work, Finish 0 (Results [sample_result]), Count, Work, Advance]"

theorem stopped_never_completes_witness:
  "\<exists>s t. run (sched_init 1) stopping_schedule s \<and> total_processed s = 1 \<and> step s (Call WaitAll) t
     \<and> todo t = [WaitAllDone] \<and> active t = [(sample_task 0, True)] \<and> (\<nexists>u. step t Advance u)"
proof -
  have "\<exists>s. follow_all stopping_schedule (sched_init 1) = Some s \<and> total_processed s = 1 \<and> wpc s = Off
     \<and> active s = [(sample_task 0, True)] \<and> follow (Call WaitAll) s = Some (s\<lparr>todo := [WaitAllDone]\<rparr>)"
    by (simp add: stopping_schedule_def follow_simps)
  then obtain s where s: "run (sched_init 1) stopping_schedule s" "total_processed s = 1" "wpc s = Off"
    "active s = [(sample_task 0, True)]" "step s (Call WaitAll) (s\<lparr>todo := [WaitAllDone]\<rparr>)"
    using follow_all_run follow_step by blast
  have "run s [Call WaitAll] (s\<lparr>todo := [WaitAllDone]\<rparr>)" using run_Cons [OF s(5) run.nil] .
  from stopped_never_completes [OF s(1,3) _ this, of "[]"] s show ?thesis
    by (intro exI [of _ s] exI [of _ "s\<lparr>todo := [WaitAllDone]\<rparr>"]) (simp add: starts_def)
qed

end
