(* ===== verification/Parallel_Dims.thy ===== *)
theory Parallel_Dims
  imports Py_Base
begin

text \<open>The parallelism of a replica, \<open>ParallelDims\<close> of src/cosmos\_rl/utils/parallelism.py: how the degrees of
  a configuration are checked, and which coordinates each rank has in the mesh they span.\<close>

section \<open>The configuration and its validation\<close>

text \<open>What \<open>from_config\<close> reads of \<open>ParallelismConfig\<close> in src/cosmos\_rl/policy/config/\_\_init\_\_.py.\<close>

record parallelism_config =
  pc_n_init_replicas :: int
  pc_tp_size :: int
  pc_cp_size :: int
  pc_ep_size :: int
  pc_dp_shard_size :: int
  pc_pp_size :: int
  pc_pp_dynamic_shape :: bool
  pc_pp_micro_batch_size :: int
  pc_dp_replicate_size :: int

record parallel_dims =
  pd_dp_replicate :: int
  pd_dp_shard :: int
  pd_cp :: int
  pd_tp :: int
  pd_pp :: int
  pd_world_size :: int
  pd_pp_dynamic_shape :: bool
  pd_enable_loss_parallel :: bool
  pd_ep :: int
  pd_dp_shard_with_ep :: int
  pd_full_rank_info :: "(string, int) dict list"
  pd_full_world_size_info :: "(string, int) dict"

text \<open>\<open>dp_shard\<close> given as -1 is inferred from the world size.\<close>

definition validate_shard :: "parallel_dims \<Rightarrow> error + parallel_dims" where
  "validate_shard p =
     ensure AssertionError (1 \<le> pd_dp_replicate p \<and> 1 \<le> pd_cp p \<and> 1 \<le> pd_tp p \<and> 1 \<le> pd_pp p \<and> 1 \<le> pd_ep p)
     (ensure AssertionError (pd_dp_shard p = -1 \<or> 1 \<le> pd_dp_shard p)
     (let p = (if pd_dp_shard p < 0
               then p\<lparr>pd_dp_shard := pd_world_size p div (pd_dp_replicate p * pd_cp p * pd_tp p * pd_pp p)\<rparr> else p) in
      ensure AssertionError (1 \<le> pd_dp_shard p)
      (ensure AssertionError (pd_dp_replicate p * pd_dp_shard p * pd_cp p * pd_tp p * pd_pp p = pd_world_size p)
      (ensure ValueError (\<not> (1 < pd_pp p \<and> 1 < pd_dp_replicate p)) (Inr p)))))"

definition validate_experts :: "parallel_dims \<Rightarrow> error + parallel_dims" where
  "validate_experts p =
     (if \<not> 1 < pd_ep p then Inr p
      else ensure AssertionError (pd_dp_shard_with_ep p = -1 \<or> 1 \<le> pd_dp_shard_with_ep p)
       (let p = (if pd_dp_shard_with_ep p < 0
                 then p\<lparr>pd_dp_shard_with_ep := pd_world_size p div (pd_pp p * pd_ep p * pd_tp p)\<rparr> else p) in
        ensure AssertionError (1 \<le> pd_dp_shard_with_ep p)
        (ensure ValueError (\<not> 1 < pd_tp p)
        (ensure ValueError (\<not> (1 < pd_pp p \<and> 1 < pd_dp_shard_with_ep p))
        (ensure ValueError (pd_pp p * pd_dp_shard_with_ep p * pd_ep p * pd_tp p = pd_world_size p) (Inr p))))))"

definition validate_dims :: "parallel_dims \<Rightarrow> error + parallel_dims" where
  "validate_dims p = ebind (validate_shard p) validate_experts"

section \<open>Coordinates of the ranks\<close>

text \<open>\<open>numpy.array_split\<close> is a parameter: \<open>split xs n\<close>.\<close>

type_synonym splitter = "nat list \<Rightarrow> nat \<Rightarrow> nat list list"

definition mark_rank :: "string \<Rightarrow> nat list \<Rightarrow> nat \<Rightarrow> nat \<Rightarrow> (string, int) dict list \<Rightarrow> (string, int) dict list" where
  "mark_rank nm m r d info = (if d \<in> set m then info[d := dict_set nm (int r) (info ! d)] else info)"

definition split_mesh ::
  "splitter \<Rightarrow> string \<Rightarrow> nat \<Rightarrow> nat list \<Rightarrow> (string, int) dict list \<times> nat list list \<Rightarrow> (string, int) dict list \<times> nat list list" where
  "split_mesh split nm n m = (\<lambda>(info, new_meshes).
     fold (\<lambda>(r, arr) (info, new_meshes). (fold (mark_rank nm m r) arr info, new_meshes @ [arr]))
       (enumerate 0 (split m n)) (info, new_meshes))"

definition split_dim ::
  "splitter \<Rightarrow> string \<times> int \<Rightarrow> (string, int) dict list \<times> nat list list \<Rightarrow> (string, int) dict list \<times> nat list list" where
  "split_dim split x = (\<lambda>(info, meshes). fold (split_mesh split (fst x) (nat (snd x))) meshes (info, []))"

definition dim_paras :: "parallel_dims \<Rightarrow> (string, int) dict" where
  "dim_paras p = [(''pp'', pd_pp p), (''dp_replicate'', pd_dp_replicate p), (''dp_shard'', pd_dp_shard p),
     (''cp'', pd_cp p), (''tp'', pd_tp p)]"

definition coord :: "(string, int) dict \<Rightarrow> string \<Rightarrow> int" where
  "coord info nm = (case dict_get info nm of None \<Rightarrow> 0 | Some r \<Rightarrow> r)"

definition merged_coords :: "parallel_dims \<Rightarrow> (string, int) dict \<Rightarrow> (string, int) dict" where
  "merged_coords p i =
     (let pp = coord i ''pp''; rep = coord i ''dp_replicate''; shard = coord i ''dp_shard'';
          cp = coord i ''cp''; tp = coord i ''tp'' in
      dict_set ''pp_cp_tp'' (pp * pd_tp p * pd_cp p + cp * pd_tp p + tp)
      (dict_set ''dp'' (rep * pd_dp_shard p + shard)
      (dict_set ''dp_shard_cp'' (shard * pd_cp p + cp)
      (dict_set ''dp_cp_tp'' (rep * pd_dp_shard p * pd_cp p * pd_tp p + shard * pd_cp p * pd_tp p + cp * pd_tp p + tp) i))))"

definition build_mesh_info :: "splitter \<Rightarrow> parallel_dims \<Rightarrow> parallel_dims" where
  "build_mesh_info split p =
     (let W = nat (pd_world_size p);
          (info, meshes) = fold (split_dim split) (dim_paras p) (replicate W [], [[0..<W]])
      in p\<lparr>pd_full_rank_info := map (merged_coords p) info,
           pd_full_world_size_info := dim_paras p @
             [(''dp_shard_cp'', pd_dp_shard p * pd_cp p), (''dp'', pd_dp_replicate p * pd_dp_shard p),
              (''dp_cp_tp'', pd_dp_replicate p * pd_dp_shard p * pd_cp p * pd_tp p),
              (''pp_cp_tp'', pd_cp p * pd_tp p * pd_pp p)]\<rparr>)"

text \<open>The constructor: \<open>__post_init__\<close> validates and builds.\<close>

definition post_init_dims :: "splitter \<Rightarrow> parallel_dims \<Rightarrow> error + parallel_dims" where
  "post_init_dims split p = ebind (validate_dims p) (\<lambda>p. Inr (build_mesh_info split p))"

definition from_config_for_analysis :: "splitter \<Rightarrow> parallelism_config \<Rightarrow> int \<Rightarrow> error + parallel_dims" where
  "from_config_for_analysis split c world_size = post_init_dims split
     \<lparr>pd_dp_replicate = pc_dp_replicate_size c, pd_dp_shard = pc_dp_shard_size c, pd_cp = pc_cp_size c,
      pd_tp = pc_tp_size c, pd_pp = pc_pp_size c, pd_world_size = world_size,
      pd_pp_dynamic_shape = pc_pp_dynamic_shape c, pd_enable_loss_parallel = False,
      pd_ep = pc_ep_size c, pd_dp_shard_with_ep = -1, pd_full_rank_info = [], pd_full_world_size_info = []\<rparr>"

text \<open>\<open>from_config\<close> reads the world size from the environment.\<close>

definition from_config :: "splitter \<Rightarrow> int \<Rightarrow> parallelism_config \<Rightarrow> error + parallel_dims" where
  "from_config split env_world_size c = from_config_for_analysis split c env_world_size"

definition get_rank_in_dim :: "parallel_dims \<Rightarrow> string \<Rightarrow> nat \<Rightarrow> error + int" where
  "get_rank_in_dim p mesh_dim_name global_rank =
     ensure IndexError (global_rank < length (pd_full_rank_info p))
     (case dict_get (pd_full_rank_info p ! global_rank) mesh_dim_name of None \<Rightarrow> Inl ValueError | Some r \<Rightarrow> Inr r)"

definition get_size_in_dim :: "parallel_dims \<Rightarrow> string \<Rightarrow> error + int" where
  "get_size_in_dim p mesh_dim_name =
     (case dict_get (pd_full_world_size_info p) mesh_dim_name of None \<Rightarrow> Inl ValueError | Some r \<Rightarrow> Inr r)"

section \<open>Which meshes are in use\<close>

text \<open>\<open>fused\<close> is the environment switch \<open>TP_EP_INTERCHANGABLE_WITH_DP_FUSED\<close>.\<close>

definition dp_enabled :: "bool \<Rightarrow> parallel_dims \<Rightarrow> bool" where
  "dp_enabled fused p \<longleftrightarrow> 1 < pd_dp_replicate p \<or> 1 < pd_dp_shard p \<or> (fused \<and> 1 < pd_tp p)"

definition dp_replicate_enabled :: "parallel_dims \<Rightarrow> bool" where
  "dp_replicate_enabled p \<longleftrightarrow> 1 < pd_dp_replicate p"

definition dp_shard_enabled :: "parallel_dims \<Rightarrow> bool" where
  "dp_shard_enabled p \<longleftrightarrow> 1 \<le> pd_dp_shard p"

definition cp_enabled :: "parallel_dims \<Rightarrow> bool" where
  "cp_enabled p \<longleftrightarrow> 1 < pd_cp p"

definition tp_enabled :: "parallel_dims \<Rightarrow> bool" where
  "tp_enabled p \<longleftrightarrow> 1 < pd_tp p"

definition pp_enabled :: "parallel_dims \<Rightarrow> bool" where
  "pp_enabled p \<longleftrightarrow> 1 < pd_pp p"

text \<open>The dimensions of the device mesh: those larger than one, and always \<open>dp_shard\<close>.\<close>

definition valid_mesh_dims :: "(string \<times> int) list \<Rightarrow> (string \<times> int) list" where
  "valid_mesh_dims dims = filter (\<lambda>(name, d). 1 < d \<or> name = ''dp_shard'') dims"

definition build_device_mesh :: "int \<Rightarrow> (string \<times> int) list \<Rightarrow> error + (string \<times> int) list" where
  "build_device_mesh world_size dims =
     (let valid = valid_mesh_dims dims in
      ensure AssertionError (prod_list (map snd valid) = world_size) (Inr valid))"

text \<open>The submeshes that \<open>build_mesh\<close> flattens, with the dimensions each consists of; empty ones are left out.\<close>

definition submeshes :: "bool \<Rightarrow> parallel_dims \<Rightarrow> (string \<times> string list) list" where
  "submeshes fused p =
     (let rep = (if dp_replicate_enabled p then [''dp_replicate''] else []);
          shard = (if dp_shard_enabled p then [''dp_shard''] else []);
          cp = (if cp_enabled p then [''cp''] else []);
          tp = (if tp_enabled p then [''tp''] else []);
          tp_fused = (if tp_enabled p \<and> fused then [''tp''] else []);
          pp = (if pp_enabled p then [''pp''] else [])
      in filter (\<lambda>(name, dims). dims \<noteq> [])
       [(''dp'', rep @ shard @ tp_fused),
        (''dp_shard_cp'', shard @ cp),
        (''loss_parallel'', shard @ cp @ tp_fused),
        (''dp_cp_tp'', shard @ cp @ tp),
        (''dp_cp'', rep @ shard @ cp @ tp_fused),
        (''weight_loading'', shard @ cp @ tp),
        (''mp'', tp @ pp),
        (''pp_cp_tp'', cp @ tp @ pp)])"

definition build_mesh :: "bool \<Rightarrow> parallel_dims \<Rightarrow> error + ((string \<times> int) list \<times> (string \<times> string list) list)" where
  "build_mesh fused p = ebind (build_device_mesh (pd_world_size p) (dim_paras p)) (\<lambda>mesh. Inr (mesh, submeshes fused p))"

definition build_meshes_with_ep ::
  "bool \<Rightarrow> parallel_dims \<Rightarrow> error + (string, (string \<times> int) list) dict" where
  "build_meshes_with_ep fused p =
     ebind (build_mesh fused p) (\<lambda>(mesh, subs).
      if 1 < pd_ep p
      then ebind (build_device_mesh (pd_world_size p)
                    [(''pp'', pd_pp p), (''dp_shard_with_ep'', pd_dp_shard_with_ep p), (''ep'', pd_ep p)])
             (\<lambda>moe. Inr [(''default'', mesh), (''moe'', moe)])
      else Inr [(''default'', mesh)])"

text \<open>Coordinates read from the device mesh, whose local ranks are a parameter.\<close>

definition pp_coord :: "(string \<Rightarrow> int) \<Rightarrow> parallel_dims \<Rightarrow> int \<times> int" where
  "pp_coord local_rank p = (if \<not> pp_enabled p then (0, 1) else (local_rank ''pp'', pd_pp p))"

definition tp_coord :: "(string \<Rightarrow> int) \<Rightarrow> parallel_dims \<Rightarrow> int \<times> int" where
  "tp_coord local_rank p = (if \<not> tp_enabled p then (0, 1) else (local_rank ''tp'', pd_tp p))"

definition cp_coord :: "(string \<Rightarrow> int) \<Rightarrow> parallel_dims \<Rightarrow> int \<times> int" where
  "cp_coord local_rank p = (if \<not> cp_enabled p then (0, 1) else (local_rank ''cp'', pd_cp p))"

definition dp_replicate_coord :: "(string \<Rightarrow> int) \<Rightarrow> parallel_dims \<Rightarrow> int \<times> int" where
  "dp_replicate_coord local_rank p =
     (if \<not> dp_replicate_enabled p then (0, 1) else (local_rank ''dp_replicate'', pd_dp_replicate p))"

definition dp_shard_coord :: "(string \<Rightarrow> int) \<Rightarrow> parallel_dims \<Rightarrow> int \<times> int" where
  "dp_shard_coord local_rank p =
     (if \<not> dp_shard_enabled p then (0, 1) else (local_rank ''dp_shard'', pd_dp_shard p))"

definition dp_coord :: "bool \<Rightarrow> (string \<Rightarrow> int) \<Rightarrow> parallel_dims \<Rightarrow> int \<times> int" where
  "dp_coord fused local_rank p =
     (if \<not> dp_enabled fused p then (0, 1) else (local_rank ''dp'', pd_dp_replicate p * pd_dp_shard p))"

section \<open>The coordinates are the digits of the rank\<close>

text \<open>What numpy documents of \<open>array_split\<close>: \<open>n\<close> consecutive pieces, the first \<open>l mod n\<close> of them one longer.\<close>

definition array_split_spec :: "splitter \<Rightarrow> bool" where
  "array_split_spec split \<longleftrightarrow> (\<forall>xs n. 0 < n \<longrightarrow> concat (split xs n) = xs
     \<and> map length (split xs n)
         = map (\<lambda>i. length xs div n + (if i < length xs mod n then 1 else 0)) [0..<n])"

lemma concat_pieces: "concat (map (\<lambda>i. [(a + i) * q..<Suc (a + i) * q]) [0..<n]) = [a * q..<(a + n) * q]"
proof (induction n)
  case (Suc n)
  have "[a * q..<(a + Suc n) * q] = [a * q..<(a + n) * q] @ [(a + n) * q..<Suc (a + n) * q]"
    using upt_add_eq_append [of "a * q" "(a + n) * q" q] by (simp add: add.commute add.left_commute)
  then show ?case using Suc by simp
qed simp

definition blocks :: "nat \<Rightarrow> nat \<Rightarrow> nat list list" where
  "blocks m q = map (\<lambda>k. [k * q..<Suc k * q]) [0..<m]"

lemma concat_blocks: "concat (blocks m q) = [0..<m * q]"
  using concat_pieces [of 0 q m] by (simp add: blocks_def)

lemma concat_regroup: "concat (map (\<lambda>k. map (\<lambda>i. g (k * n + i)) [0..<n]) [0..<m]) = map g [0..<m * n]"
proof (induction m)
  case (Suc m)
  have "[0..<Suc m * n] = [0..<m * n] @ map (\<lambda>i. m * n + i) [0..<n]"
    using upt_add_eq_append [of 0 "m * n" n] map_add_upt [of "m * n" n] by (simp add: add.commute)
  then show ?case using Suc by simp
qed simp

lemma same_concat: "concat xss = concat yss \<Longrightarrow> map length xss = map length yss \<Longrightarrow> xss = yss"
proof (induction xss arbitrary: yss)
  case (Cons xs xss)
  then show ?case by (cases yss) auto
qed auto

lemma split_block:
  assumes "array_split_spec split" "0 < n"
  shows "split [k * (n * q)..<Suc k * (n * q)] n = map (\<lambda>i. [(k * n + i) * q..<Suc (k * n + i) * q]) [0..<n]"
proof (rule same_concat)
  show "concat (split [k * (n * q)..<Suc k * (n * q)] n)
    = concat (map (\<lambda>i. [(k * n + i) * q..<Suc (k * n + i) * q]) [0..<n])"
    using assms concat_pieces [of "k * n" q n]
    by (simp add: array_split_spec_def algebra_simps)
  show "map length (split [k * (n * q)..<Suc k * (n * q)] n)
    = map length (map (\<lambda>i. [(k * n + i) * q..<Suc (k * n + i) * q]) [0..<n])"
    using assms by (simp add: array_split_spec_def)
qed

text \<open>Splitting blocks of \<open>n * q\<close> ranks gives blocks of \<open>q\<close> ranks, each rank in the piece that is its digit.\<close>

definition marks :: "splitter \<Rightarrow> nat \<Rightarrow> nat list list \<Rightarrow> (nat \<times> nat) list" where
  "marks split n meshes = concat (map (\<lambda>m. concat (map (\<lambda>(r, arr). map (\<lambda>d. (d, r)) arr) (enumerate 0 (split m n)))) meshes)"

definition put_mark :: "string \<Rightarrow> nat \<times> nat \<Rightarrow> (string, int) dict list \<Rightarrow> (string, int) dict list" where
  "put_mark nm x info = info[fst x := dict_set nm (int (snd x)) (info ! fst x)]"

lemma fold_mark_rank: "set arr \<subseteq> set m \<Longrightarrow> fold (mark_rank nm m r) arr info = fold (put_mark nm) (map (\<lambda>d. (d, r)) arr) info"
  by (induction arr arbitrary: info) (auto simp: mark_rank_def put_mark_def)

lemma split_mesh_marks:
  assumes "\<And>arr. arr \<in> snd ` set ps \<Longrightarrow> set arr \<subseteq> set m"
  shows "fold (\<lambda>(r, arr) (info, new_meshes). (fold (mark_rank nm m r) arr info, new_meshes @ [arr])) ps (info, new)
    = (fold (put_mark nm) (concat (map (\<lambda>(r, arr). map (\<lambda>d. (d, r)) arr) ps)) info, new @ map snd ps)"
  using assms
proof (induction ps arbitrary: info new)
  case (Cons p ps)
  obtain r arr where p: "p = (r, arr)" by (cases p)
  have "set arr \<subseteq> set m" "\<And>a. a \<in> snd ` set ps \<Longrightarrow> set a \<subseteq> set m" using Cons.prems p by auto
  then show ?case using Cons.IH [of "fold (mark_rank nm m r) arr info" "new @ [arr]"] p
    by (simp add: fold_mark_rank)
qed simp

lemma split_pieces_subset:
  "array_split_spec split \<Longrightarrow> 0 < n \<Longrightarrow> arr \<in> set (split m n) \<Longrightarrow> set arr \<subseteq> set m"
  unfolding array_split_spec_def by (metis UN_upper set_concat)

lemma map_snd_enumerate: "map snd (enumerate k xs) = xs"
  by (induction xs arbitrary: k) auto

lemma split_dim_marks:
  assumes "array_split_spec split" "0 < n"
  shows "fold (split_mesh split nm n) meshes (info, new)
    = (fold (put_mark nm) (marks split n meshes) info, new @ concat (map (\<lambda>m. split m n) meshes))"
proof (induction meshes arbitrary: info new)
  case (Cons m meshes)
  have "set arr \<subseteq> set m" if "arr \<in> snd ` set (enumerate 0 (split m n))" for arr
  proof -
    have "snd ` set (enumerate 0 (split m n)) = set (split m n)"
      using map_snd_enumerate [of 0 "split m n"] by (metis set_map)
    with that split_pieces_subset [OF assms] show ?thesis by blast
  qed
  from split_mesh_marks [OF this] Cons show ?case
    by (simp add: split_mesh_def marks_def map_snd_enumerate)
qed (simp add: marks_def)

lemma enumerate_map_upt: "enumerate k (map f [0..<n]) = map (\<lambda>i. (k + i, f i)) [0..<n]"
  by (induction n) (simp_all add: enumerate_append_eq)

lemma div_block: "(d :: nat) \<in> {k * q..<Suc k * q} \<Longrightarrow> d div q = k"
  by (auto intro!: div_nat_eqI simp: mult.commute)

lemma marks_blocks:
  assumes "array_split_spec split" "0 < n"
  shows "marks split n (blocks m (n * q)) = map (\<lambda>d. (d, d div q mod n)) [0..<m * n * q]"
proof -
  have piece: "map (\<lambda>d. (d, i)) [(k * n + i) * q..<Suc (k * n + i) * q]
    = map (\<lambda>d. (d, d div q mod n)) [(k * n + i) * q..<Suc (k * n + i) * q]" if "i < n" for k i
    using that by (auto simp: div_block simp del: mult_Suc)
  have "marks split n (blocks m (n * q))
    = concat (map (\<lambda>k. concat (map (\<lambda>i. map (\<lambda>d. (d, d div q mod n)) [(k * n + i) * q..<Suc (k * n + i) * q]) [0..<n])) [0..<m])"
    unfolding marks_def blocks_def
    by (auto simp add: split_block [OF assms] enumerate_map_upt comp_def simp del: mult_Suc upt_Suc
        intro!: arg_cong [where f = concat] map_cong [OF refl] piece)
  also have "\<dots> = map (\<lambda>d. (d, d div q mod n)) (concat (map (\<lambda>k. concat (map (\<lambda>i. [(k * n + i) * q..<Suc (k * n + i) * q]) [0..<n])) [0..<m]))"
    by (simp add: map_concat comp_def del: mult_Suc upt_Suc)
  also have "concat (map (\<lambda>k. concat (map (\<lambda>i. [(k * n + i) * q..<Suc (k * n + i) * q]) [0..<n])) [0..<m]) = [0..<m * n * q]"
  proof -
    have flat: "concat (map (\<lambda>k. concat (h k)) ks) = concat (concat (map h ks))" for h :: "nat \<Rightarrow> nat list list" and ks
      by (induction ks) auto
    show ?thesis unfolding flat concat_regroup [of "\<lambda>k. [k * q..<Suc k * q]" n m]
      using concat_blocks [of "m * n" q] by (simp add: blocks_def del: mult_Suc upt_Suc)
  qed
  finally show ?thesis .
qed

lemma put_marks_upt:
  "k \<le> W \<Longrightarrow> fold (put_mark nm) (map (\<lambda>d. (d, g d)) [0..<k]) (map f [0..<W])
    = map (\<lambda>d. if d < k then dict_set nm (int (g d)) (f d) else f d) [0..<W]"
proof (induction k)
  case (Suc k)
  then show ?case by (auto simp: put_mark_def intro!: nth_equalityI simp: nth_list_update)
qed simp

lemma split_dim_blocks:
  assumes "array_split_spec split" "0 < n"
  shows "split_dim split (nm, int n) (map f [0..<m * n * q], blocks m (n * q))
    = (map (\<lambda>d. dict_set nm (int (d div q mod n)) (f d)) [0..<m * n * q], blocks (m * n) q)"
proof -
  have "fold (put_mark nm) (marks split n (blocks m (n * q))) (map f [0..<m * n * q])
    = map (\<lambda>d. dict_set nm (int (d div q mod n)) (f d)) [0..<m * n * q]"
    unfolding marks_blocks [OF assms] using put_marks_upt [of "m * n * q" "m * n * q"] by simp
  moreover have "concat (map (\<lambda>x. split x n) (blocks m (n * q))) = blocks (m * n) q"
    using concat_regroup [of "\<lambda>k. [k * q..<Suc k * q]" n m]
    by (simp add: blocks_def split_block [OF assms] comp_def del: mult_Suc upt_Suc)
  ultimately show ?thesis by (simp add: split_dim_def split_dim_marks [OF assms])
qed

definition accepted :: "parallel_dims \<Rightarrow> bool" where
  "accepted p \<longleftrightarrow> 1 \<le> pd_dp_replicate p \<and> 1 \<le> pd_dp_shard p \<and> 1 \<le> pd_cp p \<and> 1 \<le> pd_tp p \<and> 1 \<le> pd_pp p \<and> 1 \<le> pd_ep p
     \<and> pd_dp_replicate p * pd_dp_shard p * pd_cp p * pd_tp p * pd_pp p = pd_world_size p
     \<and> \<not> (1 < pd_pp p \<and> 1 < pd_dp_replicate p)
     \<and> (1 < pd_ep p \<longrightarrow> pd_tp p = 1 \<and> 1 \<le> pd_dp_shard_with_ep p \<and> \<not> (1 < pd_pp p \<and> 1 < pd_dp_shard_with_ep p)
          \<and> pd_pp p * pd_dp_shard_with_ep p * pd_ep p = pd_world_size p)"

definition shard_ok :: "parallel_dims \<Rightarrow> bool" where
  "shard_ok p \<longleftrightarrow> 1 \<le> pd_dp_replicate p \<and> 1 \<le> pd_dp_shard p \<and> 1 \<le> pd_cp p \<and> 1 \<le> pd_tp p \<and> 1 \<le> pd_pp p \<and> 1 \<le> pd_ep p
     \<and> pd_dp_replicate p * pd_dp_shard p * pd_cp p * pd_tp p * pd_pp p = pd_world_size p
     \<and> \<not> (1 < pd_pp p \<and> 1 < pd_dp_replicate p)"

lemma validate_shard_ok: "validate_shard p = Inr q \<Longrightarrow> shard_ok q"
  by (cases "pd_dp_shard p < 0") (auto simp: validate_shard_def shard_ok_def ensure_Inr_iff Let_def)

lemma shard_ok_upd [simp]: "shard_ok (p\<lparr>pd_dp_shard_with_ep := e\<rparr>) = shard_ok p"
  by (simp add: shard_ok_def)

lemma validate_experts_ok:
  "validate_experts p = Inr q \<Longrightarrow> shard_ok p \<Longrightarrow> shard_ok q \<and> (1 < pd_ep q \<longrightarrow> pd_tp q = 1 \<and> 1 \<le> pd_dp_shard_with_ep q
     \<and> \<not> (1 < pd_pp q \<and> 1 < pd_dp_shard_with_ep q) \<and> pd_pp q * pd_dp_shard_with_ep q * pd_ep q = pd_world_size q)"
proof -
  assume v: "validate_experts p = Inr q" and ok: "shard_ok p"
  have tp: "pd_tp p = 1" if "\<not> 1 < pd_tp p" using that ok by (simp add: shard_ok_def)
  show ?thesis
  proof (cases "1 < pd_ep p")
    case True
    then show ?thesis using v ok tp
      by (cases "pd_dp_shard_with_ep p < 0") (auto simp: validate_experts_def ensure_Inr_iff Let_def)
  qed (use v ok in \<open>simp add: validate_experts_def\<close>)
qed

lemma validate_dims_accepted: "validate_dims p = Inr q \<Longrightarrow> accepted q"
  using validate_experts_ok [of _ q]
  by (auto simp: validate_dims_def ebind_Inr_iff accepted_def dest!: validate_shard_ok) (simp_all add: shard_ok_def)

definition digits_of :: "parallel_dims \<Rightarrow> nat \<Rightarrow> (string, int) dict" where
  "digits_of p d =
     (let tp = nat (pd_tp p); cp = nat (pd_cp p); ds = nat (pd_dp_shard p); dr = nat (pd_dp_replicate p); pp = nat (pd_pp p) in
      dict_set ''tp'' (int (d mod tp)) (dict_set ''cp'' (int (d div tp mod cp))
      (dict_set ''dp_shard'' (int (d div (cp * tp) mod ds)) (dict_set ''dp_replicate'' (int (d div (ds * (cp * tp)) mod dr))
      (dict_set ''pp'' (int (d div (dr * (ds * (cp * tp))) mod pp)) [])))))"

lemma fold_split_dims:
  assumes "array_split_spec split" "accepted p"
  shows "fst (fold (split_dim split) (dim_paras p) (replicate (nat (pd_world_size p)) [], [[0..<nat (pd_world_size p)]]))
    = map (digits_of p) [0..<nat (pd_world_size p)]"
proof -
  define tp cp ds dr pp where "tp = nat (pd_tp p)" "cp = nat (pd_cp p)" "ds = nat (pd_dp_shard p)"
    "dr = nat (pd_dp_replicate p)" "pp = nat (pd_pp p)"
  then have eqs: "pd_tp p = int tp" "pd_cp p = int cp" "pd_dp_shard p = int ds" "pd_dp_replicate p = int dr"
      "pd_pp p = int pp"
    and pos: "0 < tp" "0 < cp" "0 < ds" "0 < dr" "0 < pp"
    using assms(2) by (simp_all add: accepted_def)
  let ?W = "pp * dr * ds * cp * tp"
  have "pd_world_size p = int ?W" using assms(2) by (simp add: accepted_def eqs ac_simps)
  then have W: "nat (pd_world_size p) = ?W" by (metis nat_int)
  note step = split_dim_blocks [OF assms(1)]
  have start: "(replicate ?W [], [[0..<?W]]) = (map (\<lambda>d. []) [0..<?W], blocks 1 ?W)"
    by (simp add: blocks_def map_replicate_trivial map_replicate_const)
  note steps = step [OF pos(5), of "''pp''" _ 1 "dr * (ds * (cp * tp))"]
      step [OF pos(4), of "''dp_replicate''" _ pp "ds * (cp * tp)"]
      step [OF pos(3), of "''dp_shard''" _ "pp * dr" "cp * tp"]
      step [OF pos(2), of "''cp''" _ "pp * (dr * ds)" tp]
      step [OF pos(1), of "''tp''" _ "pp * (dr * (ds * cp))" 1]
  have dig: "digits_of p = (\<lambda>d. dict_set ''tp'' (int (d mod tp)) (dict_set ''cp'' (int (d div tp mod cp))
      (dict_set ''dp_shard'' (int (d div (cp * tp) mod ds)) (dict_set ''dp_replicate'' (int (d div (ds * (cp * tp)) mod dr))
      (dict_set ''pp'' (int (d div (dr * (ds * (cp * tp))) mod pp)) [])))))"
    by (rule ext) (simp add: digits_of_def eqs Let_def)
  show ?thesis
    unfolding W start dim_paras_def eqs dig fold_simps
    using steps by (simp only: mult.assoc mult_1 mult_1_right fst_conv div_by_1 split: prod.splits)
qed

definition rank_digits :: "parallel_dims \<Rightarrow> int \<Rightarrow> (string \<times> int) list" where
  "rank_digits p g =
     [(''tp'', g mod pd_tp p), (''cp'', g div pd_tp p mod pd_cp p),
      (''dp_shard'', g div (pd_cp p * pd_tp p) mod pd_dp_shard p),
      (''dp_replicate'', g div (pd_dp_shard p * pd_cp p * pd_tp p) mod pd_dp_replicate p),
      (''pp'', g div (pd_dp_replicate p * pd_dp_shard p * pd_cp p * pd_tp p)),
      (''dp'', g div (pd_cp p * pd_tp p) mod (pd_dp_replicate p * pd_dp_shard p)),
      (''dp_shard_cp'', g div pd_tp p mod (pd_dp_shard p * pd_cp p)),
      (''dp_cp_tp'', g mod (pd_dp_replicate p * pd_dp_shard p * pd_cp p * pd_tp p))]"

lemma int_div_less: "0 < b \<Longrightarrow> (a :: int) < c * b \<Longrightarrow> a div b < c"
  using minus_mod_eq_div_mult [of a b] mult_right_mono [of c "a div b" b] pos_mod_sign [of b a]
  by linarith

lemma mod_regroup: "0 < b \<Longrightarrow> 0 < c \<Longrightarrow> (a :: int) mod (c * b) = a div b mod c * b + a mod b"
  by (simp add: mult.commute zmod_zmult2_eq)

lemma merged_get:
  fixes w x y z :: int and d :: "(string, int) dict"
  defines "D \<equiv> dict_set ''pp_cp_tp'' w (dict_set ''dp'' x (dict_set ''dp_shard_cp'' y (dict_set ''dp_cp_tp'' z d)))"
  shows "dict_get D ''tp'' = dict_get d ''tp''" "dict_get D ''cp'' = dict_get d ''cp''"
    "dict_get D ''dp_shard'' = dict_get d ''dp_shard''" "dict_get D ''dp_replicate'' = dict_get d ''dp_replicate''"
    "dict_get D ''pp'' = dict_get d ''pp''" "dict_get D ''dp'' = Some x" "dict_get D ''dp_shard_cp'' = Some y"
    "dict_get D ''dp_cp_tp'' = Some z"
  by (simp_all add: D_def dict_simps)

lemma coords_of_digits:
  assumes "accepted p" "int g < pd_world_size p"
  shows "list_all (\<lambda>(nm, r). dict_get (merged_coords p (digits_of p g)) nm = Some r) (rank_digits p (int g))"
proof -
  let ?t = "pd_tp p" and ?c = "pd_cp p" and ?s = "pd_dp_shard p" and ?r = "pd_dp_replicate p" and ?p = "pd_pp p"
  have pos: "0 < ?t" "0 < ?c" "0 < ?s" "0 < ?r" "0 < ?p" and W: "?r * ?s * ?c * ?t * ?p = pd_world_size p"
    using assms(1) by (auto simp: accepted_def)
  have dig: "digits_of p g = dict_set ''tp'' (int g mod ?t) (dict_set ''cp'' (int g div ?t mod ?c)
      (dict_set ''dp_shard'' (int g div (?c * ?t) mod ?s) (dict_set ''dp_replicate'' (int g div (?s * (?c * ?t)) mod ?r)
      (dict_set ''pp'' (int g div (?r * (?s * (?c * ?t))) mod ?p) []))))"
    using pos by (simp add: digits_of_def zmod_int zdiv_int)
  have pp: "int g div (?r * (?s * (?c * ?t))) mod ?p = int g div (?r * (?s * (?c * ?t)))"
  proof (rule mod_pos_pos_trivial)
    show "int g div (?r * (?s * (?c * ?t))) < ?p"
      using assms(2) W pos by (intro int_div_less) (auto simp: ac_simps)
  qed (use pos in \<open>simp add: pos_imp_zdiv_nonneg_iff\<close>)
  have c: "int g div ?t mod (?s * ?c) = int g div (?c * ?t) mod ?s * ?c + int g div ?t mod ?c"
    using pos mod_regroup [of ?c ?s "int g div ?t"] zdiv_zmult2_eq [of ?c "int g" ?t] by (simp add: ac_simps)
  have d: "int g div (?c * ?t) mod (?r * ?s) = int g div (?s * (?c * ?t)) mod ?r * ?s + int g div (?c * ?t) mod ?s"
    using pos mod_regroup [of ?s ?r "int g div (?c * ?t)"] zdiv_zmult2_eq [of ?s "int g" "?c * ?t"] by (simp add: ac_simps)
  have e: "int g mod (?r * (?s * (?c * ?t)))
    = int g div (?s * (?c * ?t)) mod ?r * ?s * ?c * ?t + int g div (?c * ?t) mod ?s * ?c * ?t + int g div ?t mod ?c * ?t + int g mod ?t"
    using pos mod_regroup [of "?s * (?c * ?t)" ?r "int g"] mod_regroup [of "?c * ?t" ?s "int g"] mod_regroup [of ?t ?c "int g"]
    by (simp add: mult.assoc)
  let ?D = "digits_of p g"
  have get: "dict_get ?D ''tp'' = Some (int g mod ?t)" "dict_get ?D ''cp'' = Some (int g div ?t mod ?c)"
    "dict_get ?D ''dp_shard'' = Some (int g div (?c * ?t) mod ?s)"
    "dict_get ?D ''dp_replicate'' = Some (int g div (?s * (?c * ?t)) mod ?r)"
    "dict_get ?D ''pp'' = Some (int g div (?r * (?s * (?c * ?t))))"
    unfolding dig by (simp_all add: dict_simps pp)
  then have co: "coord ?D ''tp'' = int g mod ?t" "coord ?D ''cp'' = int g div ?t mod ?c"
    "coord ?D ''dp_shard'' = int g div (?c * ?t) mod ?s" "coord ?D ''dp_replicate'' = int g div (?s * (?c * ?t)) mod ?r"
    "coord ?D ''pp'' = int g div (?r * (?s * (?c * ?t)))"
    by (simp_all add: coord_def)
  have M: "merged_coords p ?D =
      dict_set ''pp_cp_tp'' (int g div (?r * (?s * (?c * ?t))) * ?t * ?c + int g div ?t mod ?c * ?t + int g mod ?t)
      (dict_set ''dp'' (int g div (?c * ?t) mod (?r * ?s))
      (dict_set ''dp_shard_cp'' (int g div ?t mod (?s * ?c))
      (dict_set ''dp_cp_tp'' (int g mod (?r * (?s * (?c * ?t)))) ?D)))"
    unfolding merged_coords_def Let_def co c d e by (rule refl)
  show ?thesis unfolding rank_digits_def M mult.assoc
    by (simp only: list.pred_inject prod.case merged_get get simp_thms)
qed

lemma build_mesh_info_info:
  assumes "array_split_spec split" "accepted p"
  shows "pd_full_rank_info (build_mesh_info split p) = map (\<lambda>g. merged_coords p (digits_of p g)) [0..<nat (pd_world_size p)]"
  using fold_split_dims [OF assms] by (simp add: build_mesh_info_def Let_def split_beta comp_def)

lemma build_mesh_info_fields [simp]:
  "pd_dp_replicate (build_mesh_info split p) = pd_dp_replicate p" "pd_dp_shard (build_mesh_info split p) = pd_dp_shard p"
  "pd_cp (build_mesh_info split p) = pd_cp p" "pd_tp (build_mesh_info split p) = pd_tp p"
  "pd_pp (build_mesh_info split p) = pd_pp p" "pd_world_size (build_mesh_info split p) = pd_world_size p"
  "pd_ep (build_mesh_info split p) = pd_ep p" "pd_dp_shard_with_ep (build_mesh_info split p) = pd_dp_shard_with_ep p"
  by (simp_all add: build_mesh_info_def Let_def split_beta)

lemma rank_digits_build [simp]: "rank_digits (build_mesh_info split p) g = rank_digits p g"
  by (simp add: rank_digits_def)

lemma coords_of_mesh:
  assumes "array_split_spec split" "post_init_dims split p = Inr q" "int g < pd_world_size q"
  shows "list_all (\<lambda>(nm, r). get_rank_in_dim q nm g = Inr r) (rank_digits q (int g))"
proof -
  obtain v where v: "validate_dims p = Inr v" and q: "q = build_mesh_info split v"
    using assms(2) by (auto simp: post_init_dims_def ebind_Inr_iff)
  have acc: "accepted v" using validate_dims_accepted [OF v] .
  have g: "int g < pd_world_size v" "g < nat (pd_world_size v)" using assms(3) by (simp_all add: q)
  have "get_rank_in_dim q nm g = Inr r" if "dict_get (merged_coords v (digits_of v g)) nm = Some r" for nm r
    using that g(2) by (simp add: get_rank_in_dim_def q build_mesh_info_info [OF assms(1) acc])
  with coords_of_digits [OF acc g(1)] show ?thesis unfolding q rank_digits_build
    by (auto simp: list_all_iff)
qed

text \<open>C37: in the mesh of an accepted configuration the coordinates of a rank are its digits, counted from
  \<open>tp\<close> through \<open>cp\<close>, \<open>dp_shard\<close> and \<open>dp_replicate\<close> to \<open>pp\<close>, and the coordinates in merged dimensions are
  the digits in the merged base - whatever way numpy splits, as long as it splits as documented.\<close>

theorem mesh_coordinates:
  assumes "array_split_spec split" "post_init_dims split p = Inr q" "int g < pd_world_size q"
  shows "list_all (\<lambda>(nm, r). get_rank_in_dim q nm g = Inr r) (rank_digits q (int g))"
  by (rule coords_of_mesh [OF assms])

text \<open>\<open>array_split\<close> itself, as documented.\<close>

fun pieces :: "nat list \<Rightarrow> nat \<Rightarrow> nat \<Rightarrow> nat \<Rightarrow> nat list list" where
  "pieces xs q m 0 = []"
| "pieces xs q m (Suc n) = (let k = q + (if 0 < m then 1 else 0) in take k xs # pieces (drop k xs) q (m - 1) n)"

definition plain_split :: splitter where
  "plain_split xs n = pieces xs (length xs div n) (length xs mod n) n"

lemma pieces_spec:
  "m \<le> n \<Longrightarrow> length xs = n * q + m \<Longrightarrow> concat (pieces xs q m n) = xs
    \<and> map length (pieces xs q m n) = map (\<lambda>i. q + (if i < m then 1 else 0)) [0..<n]"
proof (induction n arbitrary: xs m)
  case (Suc n)
  let ?k = "q + (if 0 < m then 1 else 0)"
  have "m - 1 \<le> n" "length (drop ?k xs) = n * q + (m - 1)" using Suc.prems by auto
  note IH = Suc.IH [OF this]
  have "map (\<lambda>i. q + (if i < m then 1 else 0)) [0..<Suc n] = ?k # map (\<lambda>i. q + (if i < m - 1 then 1 else 0)) [0..<n]"
    unfolding upt_conv_Cons [OF zero_less_Suc] map_Suc_upt [symmetric] by auto
  moreover have "?k \<le> length xs" using Suc.prems by auto
  ultimately show ?case using IH by (simp add: Let_def min_absorb2 del: upt_Suc)
qed simp

lemma plain_split_spec: "array_split_spec plain_split"
  unfolding array_split_spec_def plain_split_def
proof (intro allI impI)
  fix xs :: "nat list" and n :: nat
  assume "0 < n"
  then show "concat (pieces xs (length xs div n) (length xs mod n) n) = xs
    \<and> map length (pieces xs (length xs div n) (length xs mod n) n)
      = map (\<lambda>i. length xs div n + (if i < length xs mod n then 1 else 0)) [0..<n]"
    by (intro pieces_spec) (simp_all add: less_imp_le)
qed

definition sample_dims :: parallel_dims where
  "sample_dims = \<lparr>pd_dp_replicate = 1, pd_dp_shard = -1, pd_cp = 2, pd_tp = 2, pd_pp = 2, pd_world_size = 16,
     pd_pp_dynamic_shape = False, pd_enable_loss_parallel = False, pd_ep = 1, pd_dp_shard_with_ep = -1,
     pd_full_rank_info = [], pd_full_world_size_info = []\<rparr>"

theorem mesh_coordinates_witness:
  "\<exists>q. post_init_dims plain_split sample_dims = Inr q \<and> pd_dp_shard q = 2
     \<and> get_rank_in_dim q ''tp'' 13 = Inr 1 \<and> get_rank_in_dim q ''cp'' 13 = Inr 0
     \<and> get_rank_in_dim q ''dp_shard'' 13 = Inr 1 \<and> get_rank_in_dim q ''pp'' 13 = Inr 1
     \<and> get_rank_in_dim q ''dp_shard_cp'' 13 = Inr 2"
proof -
  obtain v where v: "validate_dims sample_dims = Inr v" "pd_dp_shard v = 2" "pd_world_size v = 16"
      "pd_dp_replicate v = 1" "pd_cp v = 2" "pd_tp v = 2" "pd_pp v = 2"
    by (simp add: validate_dims_def validate_shard_def validate_experts_def sample_dims_def)
  have q: "post_init_dims plain_split sample_dims = Inr (build_mesh_info plain_split v)"
    by (simp add: post_init_dims_def v)
  from mesh_coordinates [OF plain_split_spec q, of 13] v show ?thesis
    by (intro exI [of _ "build_mesh_info plain_split v"]) (simp add: q rank_digits_def)
qed

section \<open>The device meshes of an accepted configuration\<close>

lemma valid_mesh_prod: "list_all (\<lambda>(nm, d). 1 \<le> d) dims \<Longrightarrow> prod_list (map snd (valid_mesh_dims dims)) = prod_list (map snd dims)"
  by (induction dims) (auto simp: valid_mesh_dims_def)

lemma build_device_mesh_run:
  "list_all (\<lambda>(nm, d). 1 \<le> d) dims \<Longrightarrow> prod_list (map snd dims) = W \<Longrightarrow>
   build_device_mesh W dims = Inr (valid_mesh_dims dims)"
  by (simp add: build_device_mesh_def valid_mesh_prod Let_def)

lemma accepted_build: "accepted (build_mesh_info split p) = accepted p"
  by (simp add: accepted_def)

text \<open>A configuration that is accepted has all degrees at least 1 and product the world size, with
  \<open>dp_shard\<close> inferred where it was -1 and never pipeline and replicated data parallelism together; and
  building its device meshes - the default one, and with experts the second one - never fails: each
  lists the dimensions larger than 1 and \<open>dp_shard\<close>, and their sizes multiply to the world size.\<close>

theorem accepted_dims_build:
  assumes "post_init_dims split p = Inr q"
  shows "pd_dp_replicate q * pd_dp_shard q * pd_cp q * pd_tp q * pd_pp q = pd_world_size q
    \<and> pd_dp_shard q = (if pd_dp_shard p = -1
         then pd_world_size p div (pd_dp_replicate p * pd_cp p * pd_tp p * pd_pp p) else pd_dp_shard p)
    \<and> pd_world_size q = pd_world_size p \<and> \<not> (1 < pd_pp q \<and> 1 < pd_dp_replicate q)
    \<and> (\<exists>meshes. build_meshes_with_ep fused q = Inr meshes
         \<and> dict_keys meshes = (if 1 < pd_ep q then [''default'', ''moe''] else [''default''])
         \<and> list_all (\<lambda>(nm, mesh). prod_list (map snd mesh) = pd_world_size q) meshes)"
proof -
  obtain v where v: "validate_dims p = Inr v" and q: "q = build_mesh_info split v"
    using assms by (auto simp: post_init_dims_def ebind_Inr_iff)
  have acc: "accepted q" using validate_dims_accepted [OF v] by (simp add: q accepted_build)
  have shard: "pd_dp_shard v = (if pd_dp_shard p = -1
      then pd_world_size p div (pd_dp_replicate p * pd_cp p * pd_tp p * pd_pp p) else pd_dp_shard p)"
    "pd_world_size v = pd_world_size p"
    using v by (auto simp: validate_dims_def ebind_Inr_iff validate_shard_def validate_experts_def ensure_Inr_iff Let_def
        split: if_splits)
  have default: "build_device_mesh (pd_world_size q) (dim_paras q) = Inr (valid_mesh_dims (dim_paras q))"
    using acc by (intro build_device_mesh_run) (auto simp: accepted_def dim_paras_def ac_simps)
  let ?moe = "[(''pp'', pd_pp q), (''dp_shard_with_ep'', pd_dp_shard_with_ep q), (''ep'', pd_ep q)]"
  have moe: "build_device_mesh (pd_world_size q) ?moe = Inr (valid_mesh_dims ?moe)" if "1 < pd_ep q"
    using acc that by (intro build_device_mesh_run) (auto simp: accepted_def ac_simps)
  have prods: "prod_list (map snd m) = pd_world_size q" if "build_device_mesh (pd_world_size q) ds = Inr m" for ds m
    using that by (auto simp: build_device_mesh_def Let_def ensure_Inr_iff)
  have "\<exists>meshes. build_meshes_with_ep fused q = Inr meshes
         \<and> dict_keys meshes = (if 1 < pd_ep q then [''default'', ''moe''] else [''default''])
         \<and> list_all (\<lambda>(nm, mesh). prod_list (map snd mesh) = pd_world_size q) meshes"
    using default moe prods [OF default] prods [OF moe]
    by (cases "1 < pd_ep q") (simp_all add: build_meshes_with_ep_def build_mesh_def dict_keys_def)
  then show ?thesis using acc shard by (simp add: accepted_def q)
qed

theorem accepted_dims_build_witness:
  "\<exists>q meshes. post_init_dims plain_split sample_dims = Inr q \<and> pd_dp_shard q = 2
     \<and> build_meshes_with_ep False q = Inr meshes \<and> dict_keys meshes = [''default'']
     \<and> list_all (\<lambda>(nm, mesh). prod_list (map snd mesh) = 16) meshes"
proof -
  obtain q where q: "post_init_dims plain_split sample_dims = Inr q" "pd_ep q = 1"
    by (simp add: post_init_dims_def validate_dims_def validate_shard_def validate_experts_def sample_dims_def)
  from accepted_dims_build [OF q(1), of False] q show ?thesis by (auto simp: sample_dims_def)
qed

end
