(* ===== verification/Weight_Sync.thy ===== *)
theory Weight_Sync
  imports Dim_Slice Parallel_Dims
begin

text \<open>Planning the transfer of weights from policy to rollout, \<open>ParallelizedShardMapper\<close> of
  src/cosmos\_rl/utils/parallelism\_map.py: from the shards that each rank of either side reports, the
  instructions for every policy rank - which slice of which parameter it sends to which rollout rank -
  and for every rollout rank - which slice it receives from which policy rank.\<close>

section \<open>Instructions\<close>

text \<open>A shard: for each sharded dimension, its slice as a dictionary.\<close>

type_synonym shard_info = "(nat, slice_dict) dict"
type_synonym rank_infos = "(string, shard_info) dict"

record sync_inst =
  si_policy_rank :: nat
  si_rollout_rank :: nat
  si_slice_strategy :: shard_info

record param_insts =
  pi_param_name :: string
  pi_instructions :: "sync_inst list"

type_synonym insts_group = "param_insts list"

text \<open>\<open>WeightSyncInstructionsGroup.from_dict\<close> turns the dictionaries of slices into slices.\<close>

fun parse_shard :: "shard_info \<Rightarrow> error + (nat, slice) dict" where
  "parse_shard [] = Inr []"
| "parse_shard ((k, v) # info) =
     ebind (from_dict v) (\<lambda>s. ebind (parse_shard info) (\<lambda>rest. Inr ((k, s) # rest)))"

definition group_from_dict :: "insts_group \<Rightarrow> error + (string \<times> (nat \<times> nat \<times> (nat, slice) dict) list) list" where
  "group_from_dict g = efold (\<lambda>pis acc.
     ebind (efold (\<lambda>inst is. ebind (parse_shard (si_slice_strategy inst)) (\<lambda>s.
              Inr (is @ [(si_policy_rank inst, si_rollout_rank inst, s)]))) (pi_instructions pis) [])
       (\<lambda>is. Inr (acc @ [(pi_param_name pis, is)]))) g []"

section \<open>Who sends to whom\<close>

text \<open>Given the ranks that hold the same shard on either side: with at least as many policy ranks they
  are matched one to one from the front, otherwise each policy rank serves a run of rollout ranks.\<close>

definition policy_to_rollout_assign ::
  "nat list \<Rightarrow> nat list \<Rightarrow> nat \<Rightarrow> nat \<Rightarrow> error + (nat list \<times> nat list)" where
  "policy_to_rollout_assign policys rollouts p_rank r_rank =
     (if length rollouts \<le> length policys
      then Inr (fold (\<lambda>(i, p) acc. if i < length rollouts \<and> p = p_rank \<and> rollouts ! i = r_rank
                        then ([r_rank], [p_rank]) else acc)
                 (enumerate 0 policys) ([], []))
      else ensure ZeroDivisionError (policys \<noteq> [])
        (let group_size = (length rollouts - 1) div length policys + 1 in
         Inr (fold (\<lambda>(i, p) acc. if p = p_rank \<and> r_rank \<in> set (take group_size (drop (i * group_size) rollouts))
                        then ([r_rank], [p_rank]) else acc)
                 (enumerate 0 policys) ([], []))))"

text \<open>Equality of dictionaries does not depend on their order.\<close>

definition same_shard :: "shard_info \<Rightarrow> shard_info \<Rightarrow> bool" where
  "same_shard a b \<longleftrightarrow> (\<forall>k \<in> set (dict_keys a) \<union> set (dict_keys b). dict_get a k = dict_get b k)"

definition get_dup_ranks :: "rank_infos list \<Rightarrow> nat \<Rightarrow> string \<Rightarrow> nat list" where
  "get_dup_ranks infos rank name =
     (case dict_get (infos ! rank) name of None \<Rightarrow> []
      | Some info \<Rightarrow> filter (\<lambda>q. case dict_get (infos ! q) name of None \<Rightarrow> False | Some i \<Rightarrow> same_shard i info)
                      [0..<length infos])"

text \<open>The slices of one parameter that a policy shard and a rollout shard share, relative to each; \<open>None\<close>
  if in some dimension they share nothing. Python goes through the set of dimensions in some order.\<close>

fun split_strategies ::
  "(nat \<rightharpoonup> slice) \<Rightarrow> (nat \<rightharpoonup> slice) \<Rightarrow> nat list \<Rightarrow> error + (shard_info \<times> shard_info) option" where
  "split_strategies P R [] = Inr (Some ([], []))"
| "split_strategies P R (d # ds) =
     ebind (tensor_overlap_info_at_dim P R d) (\<lambda>ov. case ov of None \<Rightarrow> Inr None
      | Some (p, r) \<Rightarrow> ebind (split_strategies P R ds) (\<lambda>rest. case rest of None \<Rightarrow> Inr None
         | Some (ps, rs) \<Rightarrow> Inr (Some ((d, to_dict p) # ps, (d, to_dict r) # rs))))"

definition all_dims :: "(nat, slice) dict \<Rightarrow> (nat, slice) dict \<Rightarrow> nat list" where
  "all_dims P R = dict_keys P @ filter (\<lambda>k. k \<notin> set (dict_keys P)) (dict_keys R)"

definition strategies_of :: "(nat, slice) dict \<Rightarrow> (nat, slice) dict \<Rightarrow> error + (shard_info \<times> shard_info) option" where
  "strategies_of P R = split_strategies (dict_get P) (dict_get R) (all_dims P R)"

section \<open>Instructions for one parameter\<close>

type_synonym plan_infos = "rank_infos list \<times> rank_infos list"

definition send_to :: "plan_infos \<Rightarrow> string \<Rightarrow> nat \<Rightarrow> (nat, slice) dict \<Rightarrow> nat \<Rightarrow> error + sync_inst list" where
  "send_to infos name p_rank P r_rank =
     (case dict_get (snd infos ! r_rank) name of None \<Rightarrow> Inr []
      | Some r_info \<Rightarrow> ebind (parse_shard r_info) (\<lambda>R. ebind (strategies_of P R) (\<lambda>st. case st of None \<Rightarrow> Inr []
          | Some (ps, rs) \<Rightarrow> ebind (policy_to_rollout_assign (get_dup_ranks (fst infos) p_rank name)
                                      (get_dup_ranks (snd infos) r_rank name) p_rank r_rank)
              (\<lambda>(p_assignments, r_assignments). Inr (map (\<lambda>r. \<lparr>si_policy_rank = p_rank, si_rollout_rank = r,
                   si_slice_strategy = ps\<rparr>) p_assignments)))))"

definition send_param :: "plan_infos \<Rightarrow> string \<Rightarrow> nat \<Rightarrow> shard_info \<Rightarrow> error + sync_inst list" where
  "send_param infos name p_rank p_info = ebind (parse_shard p_info) (\<lambda>P.
     efold (\<lambda>r_rank acc. ebind (send_to infos name p_rank P r_rank) (\<lambda>is. Inr (acc @ is))) [0..<length (snd infos)] [])"

definition recv_from :: "plan_infos \<Rightarrow> string \<Rightarrow> nat \<Rightarrow> (nat, slice) dict \<Rightarrow> nat \<Rightarrow> error + sync_inst list" where
  "recv_from infos name r_rank R p_rank =
     (case dict_get (fst infos ! p_rank) name of None \<Rightarrow> Inr []
      | Some p_info \<Rightarrow> ebind (parse_shard p_info) (\<lambda>P. ebind (strategies_of P R) (\<lambda>st. case st of None \<Rightarrow> Inr []
          | Some (ps, rs) \<Rightarrow> ebind (policy_to_rollout_assign (get_dup_ranks (fst infos) p_rank name)
                                      (get_dup_ranks (snd infos) r_rank name) p_rank r_rank)
              (\<lambda>(p_assignments, r_assignments). Inr (map (\<lambda>p. \<lparr>si_policy_rank = p, si_rollout_rank = r_rank,
                   si_slice_strategy = rs\<rparr>) r_assignments)))))"

definition recv_param :: "plan_infos \<Rightarrow> string \<Rightarrow> nat \<Rightarrow> shard_info \<Rightarrow> error + sync_inst list" where
  "recv_param infos name r_rank r_info = ebind (parse_shard r_info) (\<lambda>R.
     efold (\<lambda>p_rank acc. ebind (recv_from infos name r_rank R p_rank) (\<lambda>is. Inr (acc @ is))) [0..<length (fst infos)] [])"

section \<open>Instructions for a rank\<close>

text \<open>What the mapper knows once both sides have reported. \<open>param_groups\<close> holds each group once.\<close>

record shard_plan =
  pl_policy_infos :: "rank_infos list"
  pl_rollout_infos :: "rank_infos list"
  pl_sorted_policy :: "string list list"
  pl_sorted_rollout :: "string list list"
  pl_pp_rank_map_policy :: "nat list"
  pl_pp_rank_map_rollout :: "nat list"
  pl_param_to_groups :: "(string, string list) dict"
  pl_param_groups :: "string list list"

definition plan_infos :: "shard_plan \<Rightarrow> plan_infos" where
  "plan_infos m = (pl_policy_infos m, pl_rollout_infos m)"

definition item :: "'a list \<Rightarrow> nat \<Rightarrow> error + 'a" where
  "item xs i = (if i < length xs then Inr (xs ! i) else Inl IndexError)"

text \<open>Parameters in no group come first, one group each, then the groups; a parameter or group without
  instructions is left out with a warning.\<close>

definition send_single :: "shard_plan \<Rightarrow> nat \<Rightarrow> rank_infos \<Rightarrow> string \<Rightarrow> insts_group list \<Rightarrow> error + insts_group list" where
  "send_single m p_rank dicts name groups =
     (case dict_get dicts name of None \<Rightarrow> Inr groups
      | Some p_info \<Rightarrow>
          if dict_get (pl_param_to_groups m) name \<noteq> None then Inr groups
          else ebind (send_param (plan_infos m) name p_rank p_info) (\<lambda>is.
            Inr (if is \<noteq> [] then groups @ [[\<lparr>pi_param_name = name, pi_instructions = is\<rparr>]] else groups)))"

definition send_member :: "shard_plan \<Rightarrow> nat \<Rightarrow> rank_infos \<Rightarrow> string \<Rightarrow> insts_group \<Rightarrow> error + insts_group" where
  "send_member m p_rank dicts name grp =
     (case dict_get dicts name of None \<Rightarrow> Inr grp
      | Some p_info \<Rightarrow> ebind (send_param (plan_infos m) name p_rank p_info) (\<lambda>is.
          Inr (if is \<noteq> [] then grp @ [\<lparr>pi_param_name = name, pi_instructions = is\<rparr>] else grp)))"

definition generate_send_insts :: "shard_plan \<Rightarrow> nat \<Rightarrow> error + insts_group list" where
  "generate_send_insts m p_rank =
     ebind (item (pl_pp_rank_map_policy m) p_rank) (\<lambda>pp.
     ebind (item (pl_sorted_policy m) pp) (\<lambda>sorted_params.
     ebind (item (pl_policy_infos m) p_rank) (\<lambda>dicts.
     ebind (efold (send_single m p_rank dicts) sorted_params []) (\<lambda>singles.
     efold (\<lambda>grp groups. ebind (efold (send_member m p_rank dicts) grp [])
              (\<lambda>g. Inr (if g \<noteq> [] then groups @ [g] else groups)))
       (pl_param_groups m) singles))))"

text \<open>On the receiving side a parameter, or a group, without instructions is an error, and in the end
  every sorted parameter of a group must have come up in one.\<close>

definition recv_single :: "shard_plan \<Rightarrow> nat \<Rightarrow> rank_infos \<Rightarrow> string \<Rightarrow> insts_group list \<Rightarrow> error + insts_group list" where
  "recv_single m r_rank dicts name groups =
     (case dict_get dicts name of None \<Rightarrow> Inr groups
      | Some r_info \<Rightarrow>
          if dict_get (pl_param_to_groups m) name \<noteq> None then Inr groups
          else ebind (recv_param (plan_infos m) name r_rank r_info) (\<lambda>is.
            ensure ValueError (is \<noteq> []) (Inr (groups @ [[\<lparr>pi_param_name = name, pi_instructions = is\<rparr>]]))))"

definition recv_member :: "shard_plan \<Rightarrow> nat \<Rightarrow> rank_infos \<Rightarrow> string \<Rightarrow> insts_group \<Rightarrow> error + insts_group" where
  "recv_member m r_rank dicts name grp =
     (case dict_get dicts name of None \<Rightarrow> Inr grp
      | Some r_info \<Rightarrow> ebind (recv_param (plan_infos m) name r_rank r_info) (\<lambda>is.
          ensure ValueError (is \<noteq> []) (Inr (grp @ [\<lparr>pi_param_name = name, pi_instructions = is\<rparr>]))))"

definition name_in_group :: "shard_plan \<Rightarrow> rank_infos \<Rightarrow> string list \<Rightarrow> string list" where
  "name_in_group m dicts sorted_params =
     filter (\<lambda>n. dict_get dicts n \<noteq> None \<and> dict_get (pl_param_to_groups m) n \<noteq> None) sorted_params"

definition generate_recv_insts :: "shard_plan \<Rightarrow> nat \<Rightarrow> error + insts_group list" where
  "generate_recv_insts m r_rank =
     ebind (item (pl_pp_rank_map_rollout m) r_rank) (\<lambda>pp.
     ebind (item (pl_sorted_rollout m) pp) (\<lambda>sorted_params.
     ebind (item (pl_rollout_infos m) r_rank) (\<lambda>dicts.
     ebind (efold (recv_single m r_rank dicts) sorted_params []) (\<lambda>singles.
     ebind (efold (\<lambda>grp groups. ebind (efold (recv_member m r_rank dicts) grp [])
              (\<lambda>g. ensure ValueError (g \<noteq> []) (Inr (groups @ [g]))))
       (pl_param_groups m) singles) (\<lambda>groups.
     ensure AssertionError (set (name_in_group m dicts sorted_params) \<subseteq> set (concat (pl_param_groups m)))
       (Inr groups))))))"

section \<open>Assignments\<close>

definition assigned :: "nat list \<Rightarrow> nat list \<Rightarrow> nat \<Rightarrow> nat \<Rightarrow> bool" where
  "assigned ps rs p r \<longleftrightarrow>
     (if length rs \<le> length ps then \<exists>i < length rs. ps ! i = p \<and> rs ! i = r
      else \<exists>i < length ps. ps ! i = p
         \<and> (let k = (length rs - 1) div length ps + 1 in r \<in> set (take k (drop (i * k) rs))))"

lemma fold_last_match:
  "fold (\<lambda>(i, p) acc. if c i p then v else acc) (enumerate k ps) acc
    = (if \<exists>i < length ps. c (k + i) (ps ! i) then v else acc)"
proof (induction ps arbitrary: k acc)
  case (Cons p ps)
  have "(\<exists>i < length (p # ps). c (k + i) ((p # ps) ! i)) \<longleftrightarrow> c k p \<or> (\<exists>i < length ps. c (Suc k + i) (ps ! i))"
    by (auto simp: less_Suc_eq_0_disj)
  then show ?case using Cons [of "Suc k"] by auto
qed simp

lemma assign_run:
  "ps \<noteq> [] \<or> rs = [] \<Longrightarrow>
   policy_to_rollout_assign ps rs p r = Inr (if assigned ps rs p r then ([r], [p]) else ([], []))"
  unfolding policy_to_rollout_assign_def assigned_def Let_def fold_last_match
  by (cases "length rs \<le> length ps") (auto simp: ensure_def intro: less_le_trans)

lemma assign_total: "r \<in> set rs \<Longrightarrow> p \<in> set ps \<Longrightarrow>
   policy_to_rollout_assign ps rs p r = Inr (if assigned ps rs p r then ([r], [p]) else ([], []))"
  by (rule assign_run) auto

lemma chunk_index:
  assumes "distinct rs" "j < length rs" "0 < k"
  shows "rs ! j \<in> set (take k (drop (i * k) rs)) \<longleftrightarrow> i = j div k"
proof -
  have "take k (drop (i * k) rs) = map (\<lambda>m. rs ! (i * k + m)) [0..<min k (length rs - i * k)]"
    by (rule nth_equalityI) auto
  then have "set (take k (drop (i * k) rs)) = (\<lambda>m. rs ! (i * k + m)) ` {m. m < k \<and> i * k + m < length rs}"
    by (auto simp: less_diff_conv add.commute)
  then have "rs ! j \<in> set (take k (drop (i * k) rs)) \<longleftrightarrow> (\<exists>m < k. i * k + m = j)"
    using assms by (auto simp: nth_eq_iff_index_eq)
  also have "\<dots> \<longleftrightarrow> i = j div k"
    using assms(3) by (auto intro!: exI [of _ "j mod k"] simp: mult.commute)
  finally show ?thesis .
qed

text \<open>Each rollout rank of a class is served by exactly one policy rank of a class.\<close>

lemma one_sender:
  assumes "distinct ps" "distinct rs" "ps \<noteq> []" "r \<in> set rs"
  shows "\<exists>!p. p \<in> set ps \<and> assigned ps rs p r"
proof -
  obtain j where j: "j < length rs" "rs ! j = r" using assms(4) by (auto simp: in_set_conv_nth)
  show ?thesis
  proof (cases "length rs \<le> length ps")
    case True
    then have "assigned ps rs p r \<longleftrightarrow> p = ps ! j" for p
      using j assms(1,2) by (auto simp: assigned_def nth_eq_iff_index_eq)
    then show ?thesis using j True by auto
  next
    case False
    define k where "k = (length rs - 1) div length ps + 1"
    have "j \<le> length rs - 1" using j by simp
    also have "\<dots> < length ps * k"
      using assms(3) dividend_less_times_div [of "length ps" "length rs - 1"] by (simp add: k_def)
    finally have i: "j div k < length ps" by (simp add: k_def div_less_iff_less_mult)
    have "assigned ps rs p r \<longleftrightarrow> (\<exists>i < length ps. ps ! i = p \<and> r \<in> set (take k (drop (i * k) rs)))" for p
      using False by (simp add: assigned_def Let_def k_def)
    moreover have "r \<in> set (take k (drop (i * k) rs)) \<longleftrightarrow> i = j div k" for i
      using chunk_index [OF assms(2) j(1), of k] j(2) by (simp add: k_def)
    ultimately have "assigned ps rs p r \<longleftrightarrow> p = ps ! (j div k)" for p using i by auto
    then show ?thesis using i by auto
  qed
qed

section \<open>Parsing and duplicates\<close>

lemma efold_append_Inr:
  "efold (\<lambda>x acc. ebind (f x) (\<lambda>ys. Inr (acc @ ys))) xs acc = Inr zs \<longleftrightarrow>
   (\<exists>yss. list_all2 (\<lambda>x ys. f x = Inr ys) xs yss \<and> zs = acc @ concat yss)"
proof (induction xs arbitrary: acc)
  case (Cons x xs)
  show ?case
  proof (cases "f x")
    case (Inr ys)
    then show ?thesis using Cons [of "acc @ ys"] by (auto simp: list_all2_Cons1)
  qed (auto simp: list_all2_Cons1)
qed auto

lemma parse_shard_keys: "parse_shard info = Inr P \<Longrightarrow> dict_keys P = dict_keys info"
  by (induction info arbitrary: P rule: parse_shard.induct) (auto simp: dict_keys_def ebind_Inr_iff)

lemma parse_shard_get:
  "parse_shard info = Inr P \<Longrightarrow>
   dict_get P k = (case dict_get info k of None \<Rightarrow> None | Some v \<Rightarrow> case from_dict v of Inl e \<Rightarrow> None | Inr s \<Rightarrow> Some s)"
  by (induction info arbitrary: P rule: parse_shard.induct) (auto simp: dict_get_def ebind_Inr_iff)

lemma same_shard_iff: "same_shard a b \<longleftrightarrow> (\<forall>k. dict_get a k = dict_get b k)"
  unfolding same_shard_def using dict_get_None_iff [of a] dict_get_None_iff [of b] by (metis Un_iff)

lemma parse_same:
  assumes "same_shard a b" "parse_shard a = Inr P" "parse_shard b = Inr Q"
  shows "dict_get P = dict_get Q"
proof
  fix k
  show "dict_get P k = dict_get Q k"
    using parse_shard_get [OF assms(2), of k] parse_shard_get [OF assms(3), of k] assms(1)
    by (simp add: same_shard_iff)
qed

lemma dup_ranks_iff:
  "q \<in> set (get_dup_ranks infos p name) \<longleftrightarrow>
   q < length infos \<and> (\<exists>i j. dict_get (infos ! p) name = Some i \<and> dict_get (infos ! q) name = Some j \<and> same_shard j i)"
  by (cases "dict_get (infos ! p) name"; cases "dict_get (infos ! q) name") (auto simp: get_dup_ranks_def)

lemma dup_ranks_self: "p < length infos \<Longrightarrow> dict_get (infos ! p) name = Some i \<Longrightarrow> p \<in> set (get_dup_ranks infos p name)"
  by (simp add: dup_ranks_iff same_shard_iff)

lemma distinct_dup_ranks: "distinct (get_dup_ranks infos p name)"
  by (simp add: get_dup_ranks_def split: option.split)

lemma dup_ranks_class: "q \<in> set (get_dup_ranks infos p name) \<Longrightarrow> get_dup_ranks infos q name = get_dup_ranks infos p name"
proof -
  assume q: "q \<in> set (get_dup_ranks infos p name)"
  then obtain i j where "dict_get (infos ! p) name = Some i" "dict_get (infos ! q) name = Some j" "same_shard j i"
    by (auto simp: dup_ranks_iff)
  moreover from this have "same_shard x j \<longleftrightarrow> same_shard x i" for x by (simp add: same_shard_iff)
  ultimately show ?thesis by (simp add: get_dup_ranks_def cong: option.case_cong)
qed

section \<open>What the instructions say\<close>

lemma set_all_dims: "set (all_dims P R) = set (dict_keys P) \<union> set (dict_keys R)"
  by (auto simp: all_dims_def)

lemma split_strategies_Some:
  "split_strategies P R ds = Inr (Some (ps, rs)) \<longleftrightarrow>
   (\<exists>xs. list_all2 (\<lambda>d x. tensor_overlap_info_at_dim P R d = Inr (Some x)) ds xs
      \<and> ps = zip ds (map (to_dict \<circ> fst) xs) \<and> rs = zip ds (map (to_dict \<circ> snd) xs))"
proof (induction ds arbitrary: ps rs)
  case (Cons d ds)
  show ?case
    by (auto simp: list_all2_Cons1 ebind_Inr_iff Cons.IH split: option.splits) (force simp: Cons.IH split: option.splits)+
qed auto

text \<open>Whether two shards share elements depends only on their slices, not on the order of the dimensions.\<close>

lemma split_strategies_overlap:
  "split_strategies P R ds = Inr st \<Longrightarrow>
   st \<noteq> None \<longleftrightarrow> (\<forall>d \<in> set ds. \<exists>x. tensor_overlap_info_at_dim P R d = Inr (Some x))"
  by (induction ds arbitrary: st) (auto simp: ebind_Inr_iff split: option.splits)

lemma strategies_same:
  assumes "strategies_of P R = Inr st" "strategies_of Q R = Inr st'" "dict_get P = dict_get Q"
  shows "st \<noteq> None \<longleftrightarrow> st' \<noteq> None"
proof -
  have "set (dict_keys P) = set (dict_keys Q)"
    using dict_get_None_iff [of P] dict_get_None_iff [of Q] assms(3) by auto
  then have "set (all_dims P R) = set (all_dims Q R)" by (simp add: set_all_dims)
  then show ?thesis
    using split_strategies_overlap [OF assms(1) [unfolded strategies_of_def]]
      split_strategies_overlap [OF assms(2) [unfolded strategies_of_def]] assms(3) by simp
qed

lemma strategies_same_right:
  assumes "strategies_of P R = Inr st" "strategies_of P Q = Inr st'" "dict_get R = dict_get Q"
  shows "st \<noteq> None \<longleftrightarrow> st' \<noteq> None"
proof -
  have "set (dict_keys R) = set (dict_keys Q)"
    using dict_get_None_iff [of R] dict_get_None_iff [of Q] assms(3) by auto
  then have "set (all_dims P R) = set (all_dims P Q)" by (simp add: set_all_dims)
  then show ?thesis
    using split_strategies_overlap [OF assms(1) [unfolded strategies_of_def]]
      split_strategies_overlap [OF assms(2) [unfolded strategies_of_def]] assms(3) by simp
qed

text \<open>A policy shard and a rollout shard of a parameter meet: they are its shards, overlap, and the two
  ranks are assigned to each other. The instructions on either side are exactly these.\<close>

definition meet :: "plan_infos \<Rightarrow> string \<Rightarrow> nat \<Rightarrow> nat \<Rightarrow> bool" where
  "meet infos name p r \<longleftrightarrow> assigned (get_dup_ranks (fst infos) p name) (get_dup_ranks (snd infos) r name) p r"

definition holds :: "rank_infos list \<Rightarrow> nat \<Rightarrow> string \<Rightarrow> shard_info \<Rightarrow> (nat, slice) dict \<Rightarrow> bool" where
  "holds infos p name i P \<longleftrightarrow> p < length infos \<and> dict_get (infos ! p) name = Some i \<and> parse_shard i = Inr P"

lemma assign_held:
  assumes "holds (fst infos) p name pinfo P" "holds (snd infos) r name rinfo R"
  shows "policy_to_rollout_assign (get_dup_ranks (fst infos) p name) (get_dup_ranks (snd infos) r name) p r
    = Inr (if meet infos name p r then ([r], [p]) else ([], []))"
  using assign_total [OF dup_ranks_self dup_ranks_self] assms by (simp add: holds_def meet_def)

lemma send_to_run:
  assumes "holds (fst infos) p name pinfo P" "holds (snd infos) r name rinfo R"
  shows "send_to infos name p P r = ebind (strategies_of P R) (\<lambda>st. Inr (case st of None \<Rightarrow> []
    | Some (ps, rs) \<Rightarrow> if meet infos name p r
        then [\<lparr>si_policy_rank = p, si_rollout_rank = r, si_slice_strategy = ps\<rparr>] else []))"
  using assms(2) assign_held [OF assms]
  by (auto simp: send_to_def holds_def ebind_def split: sum.splits option.splits)

lemma recv_from_run:
  assumes "holds (fst infos) p name pinfo P" "holds (snd infos) r name rinfo R"
  shows "recv_from infos name r R p = ebind (strategies_of P R) (\<lambda>st. Inr (case st of None \<Rightarrow> []
    | Some (ps, rs) \<Rightarrow> if meet infos name p r
        then [\<lparr>si_policy_rank = p, si_rollout_rank = r, si_slice_strategy = rs\<rparr>] else []))"
  using assms(1) assign_held [OF assms]
  by (auto simp: recv_from_def holds_def ebind_def split: sum.splits option.splits)

lemma send_param_steps:
  "send_param infos name p pinfo = Inr sends \<Longrightarrow> parse_shard pinfo = Inr P \<Longrightarrow>
   \<exists>yss. list_all2 (\<lambda>r ys. send_to infos name p P r = Inr ys) [0..<length (snd infos)] yss \<and> sends = concat yss"
  by (simp add: send_param_def efold_append_Inr)

lemma recv_param_steps:
  "recv_param infos name r rinfo = Inr recvs \<Longrightarrow> parse_shard rinfo = Inr R \<Longrightarrow>
   \<exists>yss. list_all2 (\<lambda>p ys. recv_from infos name r R p = Inr ys) [0..<length (fst infos)] yss \<and> recvs = concat yss"
  by (simp add: recv_param_def efold_append_Inr)

lemma list_all2_concat_mem:
  assumes "list_all2 (\<lambda>i ys. f i = Inr ys) [0..<n] yss"
  shows "y \<in> set (concat yss) \<longleftrightarrow> (\<exists>i < n. \<exists>ys. f i = Inr ys \<and> y \<in> set ys)"
    and "i < n \<Longrightarrow> \<exists>ys. f i = (Inr ys :: error + _)"
proof -
  have n: "length yss = n" and f: "f i = Inr (yss ! i)" if "i < n" for i
    using assms that by (auto simp: list_all2_conv_all_nth)
  show "i < n \<Longrightarrow> \<exists>ys. f i = Inr ys" using f by blast
  have "length yss = n" using assms by (simp add: list_all2_conv_all_nth)
  then have "y \<in> set (concat yss) \<longleftrightarrow> (\<exists>i < n. y \<in> set (yss ! i))" by (auto simp: set_conv_nth [of yss])
  then show "y \<in> set (concat yss) \<longleftrightarrow> (\<exists>i < n. \<exists>ys. f i = Inr ys \<and> y \<in> set ys)" using f by auto
qed

lemma distinct_concat_tagged:
  assumes "list_all2 (\<lambda>i ys. map f ys = [] \<or> map f ys = [i]) is yss" "distinct is"
  shows "distinct (map f (concat yss)) \<and> set (map f (concat yss)) \<subseteq> set is"
  using assms
proof (induction "is" yss rule: list_all2_induct)
  case (Cons i "is" ys yss)
  then have "distinct (map f (concat yss))" "set (map f (concat yss)) \<subseteq> set is" "i \<notin> set is" by auto
  then show ?case using Cons.hyps(1) by (auto simp del: set_concat set_map)
qed simp

text \<open>Both sides go through the ranks of the other one; what they collect is given by the ranks that hold
  the parameter.\<close>

lemma collected:
  assumes yss: "list_all2 (\<lambda>i ys. f i = Inr ys) [0..<length infos] yss"
    and run: "\<And>i j P. holds infos i name j P \<Longrightarrow>
      f i = ebind (st P) (\<lambda>s. Inr (case s of None \<Rightarrow> [] | Some x \<Rightarrow> if M i then [mk i x] else []))"
    and none: "\<And>i ys. f i = Inr ys \<Longrightarrow> i < length infos \<Longrightarrow> \<forall>j P. \<not> holds infos i name j P \<Longrightarrow> ys = []"
  shows "y \<in> set (concat yss) \<longleftrightarrow> (\<exists>i j P x. holds infos i name j P \<and> st P = Inr (Some x) \<and> M i \<and> y = mk i x)"
    and "holds infos i name j P \<Longrightarrow> \<exists>s. st P = (Inr s :: error + _)"
    and "(\<And>i x. tag (mk i x) = i) \<Longrightarrow> distinct (map tag (concat yss))"
proof -
  note mem = list_all2_concat_mem [OF yss]
  have each: "(\<exists>ys. f i = Inr ys \<and> y \<in> set ys) \<longleftrightarrow> (\<exists>j P x. holds infos i name j P \<and> st P = Inr (Some x) \<and> M i \<and> y = mk i x)"
    if i: "i < length infos" for i y
  proof (cases "\<exists>j P. holds infos i name j P")
    case True
    then obtain j P where h: "holds infos i name j P" by blast
    then have h': "holds infos i name j' Q \<longleftrightarrow> j' = j \<and> Q = P" for j' Q by (auto simp: holds_def)
    show ?thesis using run [OF h] mem(2) [OF i]
      by (cases "st P") (auto simp: h' ebind_def split: option.splits if_splits)
  next
    case False
    then show ?thesis using none [of i] i by fastforce
  qed
  have "y \<in> set (concat yss) \<longleftrightarrow> (\<exists>i < length infos. \<exists>j P x. holds infos i name j P \<and> st P = Inr (Some x) \<and> M i \<and> y = mk i x)"
    unfolding mem(1) by (rule ex_cong1) (use each in blast)
  then show "y \<in> set (concat yss) \<longleftrightarrow> (\<exists>i j P x. holds infos i name j P \<and> st P = Inr (Some x) \<and> M i \<and> y = mk i x)"
    by (auto simp: holds_def)
  show "\<exists>s. st P = Inr s" if h: "holds infos i name j P"
    using mem(2) [of i] run [OF h] h by (cases "st P") (auto simp: holds_def)
  show "distinct (map tag (concat yss))" if tag: "\<And>i x. tag (mk i x) = i"
  proof (rule distinct_concat_tagged [THEN conjunct1])
    have "map tag ys = [] \<or> map tag ys = [i]" if "f i = Inr ys" "i < length infos" for i ys
    proof (cases "\<exists>j P. holds infos i name j P")
      case True
      then obtain j P where h: "holds infos i name j P" by blast
      show ?thesis using run [OF h] that tag by (cases "st P") (auto split: option.splits if_splits)
    qed (use none [OF that] in simp)
    then show "list_all2 (\<lambda>i ys. map tag ys = [] \<or> map tag ys = [i]) [0..<length infos] yss"
      using yss by (auto simp: list_all2_conv_all_nth)
  qed simp
qed

lemma send_none:
  "send_to infos name p P r = Inr ys \<Longrightarrow> r < length (snd infos) \<Longrightarrow> \<forall>j Q. \<not> holds (snd infos) r name j Q \<Longrightarrow> ys = []"
  by (auto simp: send_to_def holds_def ebind_Inr_iff split: option.splits)

lemma recv_none:
  "recv_from infos name r R p = Inr ys \<Longrightarrow> p < length (fst infos) \<Longrightarrow> \<forall>j Q. \<not> holds (fst infos) p name j Q \<Longrightarrow> ys = []"
  by (auto simp: recv_from_def holds_def ebind_Inr_iff split: option.splits)

lemma send_mem:
  assumes "send_param infos name p pinfo = Inr sends" "holds (fst infos) p name pinfo P"
  shows "inst \<in> set sends \<longleftrightarrow> (\<exists>r rinfo R ps rs. holds (snd infos) r name rinfo R \<and> strategies_of P R = Inr (Some (ps, rs))
     \<and> meet infos name p r \<and> inst = \<lparr>si_policy_rank = p, si_rollout_rank = r, si_slice_strategy = ps\<rparr>)"
    and "holds (snd infos) r name rinfo R \<Longrightarrow> \<exists>st. strategies_of P R = Inr st"
    and "distinct (map si_rollout_rank sends)"
proof -
  obtain yss where yss: "list_all2 (\<lambda>r ys. send_to infos name p P r = Inr ys) [0..<length (snd infos)] yss" "sends = concat yss"
    using send_param_steps [OF assms(1)] assms(2) by (auto simp: holds_def)
  have run: "send_to infos name p P r = ebind (strategies_of P R) (\<lambda>s. Inr (case s of None \<Rightarrow> [] | Some x \<Rightarrow>
      if meet infos name p r then [\<lparr>si_policy_rank = p, si_rollout_rank = r, si_slice_strategy = fst x\<rparr>] else []))"
    if "holds (snd infos) r name rinfo R" for r rinfo R
    using send_to_run [OF assms(2) that] by (cases "strategies_of P R") (auto split: option.split)
  note c = collected [where f = "send_to infos name p P" and st = "strategies_of P", OF yss(1) run send_none]
  have mem: "y \<in> set (concat yss) \<longleftrightarrow> (\<exists>r rinfo R x. holds (snd infos) r name rinfo R \<and> strategies_of P R = Inr (Some x)
     \<and> meet infos name p r \<and> y = \<lparr>si_policy_rank = p, si_rollout_rank = r, si_slice_strategy = fst x\<rparr>)" for y
    by (rule c(1))
  show "inst \<in> set sends \<longleftrightarrow> (\<exists>r rinfo R ps rs. holds (snd infos) r name rinfo R \<and> strategies_of P R = Inr (Some (ps, rs))
     \<and> meet infos name p r \<and> inst = \<lparr>si_policy_rank = p, si_rollout_rank = r, si_slice_strategy = ps\<rparr>)"
    unfolding yss(2) mem by (simp only: split_paired_Ex fst_conv snd_conv)
  show "holds (snd infos) r name rinfo R \<Longrightarrow> \<exists>st. strategies_of P R = Inr st" by (rule c(2))
  show "distinct (map si_rollout_rank sends)" unfolding yss(2) by (rule c(3)) simp_all
qed

lemma recv_mem:
  assumes "recv_param infos name r rinfo = Inr recvs" "holds (snd infos) r name rinfo R"
  shows "inst \<in> set recvs \<longleftrightarrow> (\<exists>p pinfo P ps rs. holds (fst infos) p name pinfo P \<and> strategies_of P R = Inr (Some (ps, rs))
     \<and> meet infos name p r \<and> inst = \<lparr>si_policy_rank = p, si_rollout_rank = r, si_slice_strategy = rs\<rparr>)"
    and "holds (fst infos) p name pinfo P \<Longrightarrow> \<exists>st. strategies_of P R = Inr st"
    and "distinct (map si_policy_rank recvs)"
proof -
  obtain yss where yss: "list_all2 (\<lambda>p ys. recv_from infos name r R p = Inr ys) [0..<length (fst infos)] yss" "recvs = concat yss"
    using recv_param_steps [OF assms(1)] assms(2) by (auto simp: holds_def)
  have run: "recv_from infos name r R p = ebind (strategies_of P R) (\<lambda>s. Inr (case s of None \<Rightarrow> [] | Some x \<Rightarrow>
      if meet infos name p r then [\<lparr>si_policy_rank = p, si_rollout_rank = r, si_slice_strategy = snd x\<rparr>] else []))"
    if "holds (fst infos) p name pinfo P" for p pinfo P
    using recv_from_run [OF that assms(2)] by (cases "strategies_of P R") (auto split: option.split)
  note c = collected [where f = "recv_from infos name r R" and st = "\<lambda>P. strategies_of P R", OF yss(1) run recv_none]
  have mem: "y \<in> set (concat yss) \<longleftrightarrow> (\<exists>p pinfo P x. holds (fst infos) p name pinfo P \<and> strategies_of P R = Inr (Some x)
     \<and> meet infos name p r \<and> y = \<lparr>si_policy_rank = p, si_rollout_rank = r, si_slice_strategy = snd x\<rparr>)" for y
    by (rule c(1))
  show "inst \<in> set recvs \<longleftrightarrow> (\<exists>p pinfo P ps rs. holds (fst infos) p name pinfo P \<and> strategies_of P R = Inr (Some (ps, rs))
     \<and> meet infos name p r \<and> inst = \<lparr>si_policy_rank = p, si_rollout_rank = r, si_slice_strategy = rs\<rparr>)"
    unfolding yss(2) mem by (simp only: split_paired_Ex fst_conv snd_conv)
  show "holds (fst infos) p name pinfo P \<Longrightarrow> \<exists>st. strategies_of P R = Inr st" by (rule c(2))
  show "distinct (map si_policy_rank recvs)" unfolding yss(2) by (rule c(3)) simp_all
qed

lemma holds_iff: "holds infos p n i P \<Longrightarrow> holds infos p n j Q \<longleftrightarrow> j = i \<and> Q = P"
  by (auto simp: holds_def)

text \<open>A pair of ranks between which a parameter is transferred.\<close>

definition pair_of :: "plan_infos \<Rightarrow> nat \<Rightarrow> nat \<Rightarrow> string \<Rightarrow> bool" where
  "pair_of infos p r n \<longleftrightarrow> (\<exists>pinfo P rinfo R ps rs. holds (fst infos) p n pinfo P \<and> holds (snd infos) r n rinfo R
     \<and> strategies_of P R = Inr (Some (ps, rs)) \<and> meet infos n p r)"

lemma send_ranks:
  assumes "send_param infos n p pinfo = Inr out" "holds (fst infos) p n pinfo P"
  shows "r \<in> si_rollout_rank ` set out \<longleftrightarrow> pair_of infos p r n"
proof
  assume "r \<in> si_rollout_rank ` set out"
  then obtain inst where inst: "inst \<in> set out" "r = si_rollout_rank inst" by (rule imageE)
  then show "pair_of infos p r n" using assms(2) unfolding pair_of_def send_mem(1) [OF assms] by fastforce
next
  assume "pair_of infos p r n"
  then obtain rinfo R ps rs where "holds (snd infos) r n rinfo R" "strategies_of P R = Inr (Some (ps, rs))" "meet infos n p r"
    unfolding pair_of_def by (simp only: holds_iff [OF assms(2)]) blast
  then have "\<lparr>si_policy_rank = p, si_rollout_rank = r, si_slice_strategy = ps\<rparr> \<in> set out"
    unfolding send_mem(1) [OF assms] by blast
  then show "r \<in> si_rollout_rank ` set out" by (rule rev_image_eqI) simp
qed

lemma recv_ranks:
  assumes "recv_param infos n r rinfo = Inr out" "holds (snd infos) r n rinfo R"
  shows "p \<in> si_policy_rank ` set out \<longleftrightarrow> pair_of infos p r n"
proof
  assume "p \<in> si_policy_rank ` set out"
  then obtain inst where inst: "inst \<in> set out" "p = si_policy_rank inst" by (rule imageE)
  then show "pair_of infos p r n" using assms(2) unfolding pair_of_def recv_mem(1) [OF assms] by fastforce
next
  assume "pair_of infos p r n"
  then obtain pinfo P ps rs where "holds (fst infos) p n pinfo P" "strategies_of P R = Inr (Some (ps, rs))" "meet infos n p r"
    unfolding pair_of_def by (simp only: holds_iff [OF assms(2)]) blast
  then have "\<lparr>si_policy_rank = p, si_rollout_rank = r, si_slice_strategy = rs\<rparr> \<in> set out"
    unfolding recv_mem(1) [OF assms] by blast
  then show "p \<in> si_policy_rank ` set out" by (rule rev_image_eqI) simp
qed

section \<open>What is transferred\<close>

text \<open>A rank's shard of a tensor, and the part of it that an instruction selects.\<close>

definition sliced :: "'a tensor \<Rightarrow> (nat, slice) dict \<Rightarrow> error + 'a tensor" where
  "sliced g P = slice_tensor_with_strategies g (map (\<lambda>(d, s). (d, Inr s)) P)"

definition apply_strategy :: "'a tensor \<Rightarrow> shard_info \<Rightarrow> error + 'a tensor" where
  "apply_strategy v ps = slice_tensor_with_strategies v (map (\<lambda>(d, s). (d, Inl s)) ps)"

definition fits :: "int list \<Rightarrow> (nat, slice) dict \<Rightarrow> bool" where
  "fits sh P \<longleftrightarrow> dict_wf P \<and> (\<forall>n \<in> set sh. 0 < n)
     \<and> (\<forall>(d, s) \<in> set P. d < length sh \<and> valid_slice s \<and> total_size s dvd sh ! d)"

definition compatible_shards :: "(nat, slice) dict \<Rightarrow> (nat, slice) dict \<Rightarrow> bool" where
  "compatible_shards P R \<longleftrightarrow> (\<forall>d \<in> set (all_dims P R). compatible (rank_at (dict_get P) d) (rank_at (dict_get R) d))"

text \<open>Slices along several dimensions at once: the part of a tensor that starts at \<open>lo\<close>.\<close>

definition region :: "(nat \<Rightarrow> int) \<Rightarrow> (nat \<Rightarrow> int option) \<Rightarrow> 'a tensor \<Rightarrow> 'a tensor" where
  "region lo len t = \<lparr>shape = map (\<lambda>d. case len d of None \<Rightarrow> shape t ! d | Some n \<Rightarrow> n) [0..<length (shape t)],
     elems = (\<lambda>ix. elems t (map (\<lambda>d. ix ! d + lo d) [0..<length ix]))\<rparr>"

lemma region_nothing: "region (\<lambda>_. 0) (\<lambda>_. None) t = t"
  by (simp add: region_def map_nth)

lemma tensor_eqI: "shape s = shape t \<Longrightarrow> (\<And>ix. elems s ix = elems t ix) \<Longrightarrow> s = (t :: 'a tensor)"
  by (cases s; cases t) auto

lemma region_window:
  assumes "d < length (shape t)"
  shows "region lo len (window d a n t)
    = region (lo(d := a + lo d)) (len(d := case len d of None \<Rightarrow> Some n | Some m \<Rightarrow> Some m)) t" (is "_ = ?rhs")
proof (rule tensor_eqI)
  show "shape (region lo len (window d a n t)) = shape ?rhs"
    using assms by (simp add: region_def window_def split: option.split)
  fix ix :: "int list"
  let ?ix = "map (\<lambda>d. ix ! d + lo d) [0..<length ix]"
  have "?ix[d := ?ix ! d + a] = map (\<lambda>k. ix ! k + (lo(d := a + lo d)) k) [0..<length ix]"
    by (rule nth_equalityI) (simp_all add: nth_list_update)
  then show "elems (region lo len (window d a n t)) ix = elems ?rhs ix" by (simp add: region_def window_def)
qed

lemma region_region:
  "region lo2 len2 (region lo1 len1 t)
    = region (\<lambda>d. lo1 d + lo2 d) (\<lambda>d. case len2 d of None \<Rightarrow> len1 d | Some n \<Rightarrow> Some n) t" (is "_ = ?rhs")
proof (rule tensor_eqI)
  show "shape (region lo2 len2 (region lo1 len1 t)) = shape ?rhs"
    by (simp add: region_def split: option.split)
  fix ix :: "int list"
  have "map (\<lambda>d. map (\<lambda>d. ix ! d + lo2 d) [0..<length ix] ! d + lo1 d) [0..<length ix]
      = map (\<lambda>d. ix ! d + (lo1 d + lo2 d)) [0..<length ix]"
    by (rule nth_equalityI) simp_all
  then have "elems t (map (\<lambda>d. map (\<lambda>d. ix ! d + lo2 d) [0..<length ix] ! d + lo1 d) [0..<length ix])
      = elems t (map (\<lambda>d. ix ! d + (lo1 d + lo2 d)) [0..<length ix])" by (rule arg_cong)
  then show "elems (region lo2 len2 (region lo1 len1 t)) ix = elems ?rhs ix"
    by (simp only: region_def tensor.select_convs length_map length_upt diff_zero)
qed

text \<open>Slices along distinct dimensions, each valid for its dimension, never fail.\<close>

definition starts :: "int list \<Rightarrow> (nat, slice) dict \<Rightarrow> nat \<Rightarrow> int" where
  "starts sh xs d = (case dict_get xs d of None \<Rightarrow> 0 | Some s \<Rightarrow> start_of (sh ! d) s)"

definition counts :: "int list \<Rightarrow> (nat, slice) dict \<Rightarrow> nat \<Rightarrow> int option" where
  "counts sh xs d = map_option (count_of (sh ! d)) (dict_get xs d)"

definition slices_fit :: "int list \<Rightarrow> (nat, slice) dict \<Rightarrow> bool" where
  "slices_fit sh xs \<longleftrightarrow> dict_wf xs \<and> (\<forall>(d, s) \<in> set xs. d < length sh \<and> valid_slice s \<and> total_size s dvd sh ! d \<and> 0 \<le> sh ! d)"

lemma slices_fitI:
  "dict_wf xs \<Longrightarrow> (\<And>d s. (d, s) \<in> set xs \<Longrightarrow> d < length sh \<and> valid_slice s \<and> total_size s dvd sh ! d \<and> 0 \<le> sh ! d)
   \<Longrightarrow> slices_fit sh xs"
  by (auto simp: slices_fit_def)

lemma slices_run:
  "slices_fit (shape t) xs \<Longrightarrow>
   sliced t xs = Inr (region (starts (shape t) xs) (counts (shape t) xs) t)"
proof (induction xs arbitrary: t)
  case Nil
  show ?case by (simp add: sliced_def slice_tensor_with_strategies_def starts_def counts_def region_nothing)
next
  case (Cons x xs)
  obtain d s where x: "x = (d, s)" by (cases x)
  let ?t = "window d (start_of (shape t ! d) s) (count_of (shape t ! d) s) t"
  have d: "d < length (shape t)" "valid_slice s" "total_size s dvd shape t ! d" "0 \<le> shape t ! d" "d \<notin> set (dict_keys xs)"
    using Cons.prems by (auto simp: x slices_fit_def dict_wf_def dict_keys_def)
  have k: "shape ?t ! k = shape t ! k" if "k \<in> set (dict_keys xs)" for k
    using that d(5) by (cases "k = d") (simp_all add: window_def)
  have len: "length (shape ?t) = length (shape t)" by (simp add: window_def)
  have "slices_fit (shape ?t) xs"
  proof (rule slices_fitI)
    show "dict_wf xs" using Cons.prems by (simp add: x slices_fit_def dict_wf_def dict_keys_def)
    fix i u assume u: "(i, u) \<in> set xs"
    then have "i \<in> set (dict_keys xs)" by (force simp: dict_keys_def)
    with u show "i < length (shape ?t) \<and> valid_slice u \<and> total_size u dvd shape ?t ! i \<and> 0 \<le> shape ?t ! i"
      using Cons.prems by (auto simp: x slices_fit_def k len)
  qed
  moreover have "starts (shape ?t) xs i = starts (shape t) xs i \<and> counts (shape ?t) xs i = counts (shape t) xs i" for i
  proof (cases "dict_get xs i")
    case (Some u)
    from k [OF dict_get_Some_key [OF this]] Some show ?thesis by (simp only: starts_def counts_def option.case option.map)
  qed (simp add: starts_def counts_def)
  then have "starts (shape ?t) xs = starts (shape t) xs" "counts (shape ?t) xs = counts (shape t) xs" by blast+
  ultimately have "slices_fit (shape ?t) xs" "starts (shape ?t) xs = starts (shape t) xs" "counts (shape ?t) xs = counts (shape t) xs" .
  from Cons.IH [OF this(1)] this(2,3)
  have "sliced ?t xs = Inr (region (starts (shape t) xs) (counts (shape t) xs) ?t)" by simp
  moreover have "sliced t (x # xs) = sliced ?t xs"
    using slice_tensor_run [OF d(1-4)] by (simp add: x sliced_def slice_tensor_with_strategies_def)
  moreover have "dict_get xs d = None" using d(5) by (simp add: dict_get_None_iff)
  ultimately have "sliced t (x # xs) = Inr (region ((starts (shape t) xs)(d := start_of (shape t ! d) s))
      ((counts (shape t) xs)(d := Some (count_of (shape t ! d) s))) t)"
    by (simp add: region_window [OF d(1)] starts_def counts_def)
  moreover have "(starts (shape t) xs)(d := start_of (shape t ! d) s) = starts (shape t) (x # xs)"
    "(counts (shape t) xs)(d := Some (count_of (shape t ! d) s)) = counts (shape t) (x # xs)"
    by (simp_all add: x starts_def counts_def dict_get_def fun_eq_iff)
  ultimately show ?case by simp
qed

lemma apply_strategy_sliced: "apply_strategy v (map (\<lambda>(d, s). (d, to_dict s)) xs) = sliced v xs"
  unfolding apply_strategy_def sliced_def slice_tensor_with_strategies_def
  by (induction xs arbitrary: v) (auto simp: from_dict_to_dict ebind_def split: sum.split)

lemma fits_rank:
  assumes "fits sh P" "d < length sh"
  shows "valid_slice (rank_at (dict_get P) d)" "total_size (rank_at (dict_get P) d) dvd sh ! d" "0 < sh ! d"
    and "0 \<le> count_of (sh ! d) (rank_at (dict_get P) d)"
proof -
  show pos: "0 < sh ! d" using assms by (simp add: fits_def)
  have "(d, s) \<in> set P" if "dict_get P d = Some s" for s using that assms(1) dict_get_mem by (fastforce simp: fits_def)
  then show v: "valid_slice (rank_at (dict_get P) d)" "total_size (rank_at (dict_get P) d) dvd sh ! d"
    using assms(1) by (auto simp: rank_at_def fits_def valid_slice_def split: option.split)
  show "0 \<le> count_of (sh ! d) (rank_at (dict_get P) d)" using slice_end_le(2) [OF v] pos by simp
qed

lemma fits_slices: "fits sh P \<Longrightarrow> slices_fit sh P"
  using nth_mem by (fastforce simp: fits_def slices_fit_def)

lemma fits_dims: "fits sh P \<Longrightarrow> fits sh R \<Longrightarrow> d \<in> set (all_dims P R) \<Longrightarrow> d < length sh"
  by (auto simp: fits_def set_all_dims dict_keys_def)

lemma distinct_all_dims: "dict_wf P \<Longrightarrow> dict_wf R \<Longrightarrow> distinct (all_dims P R)"
  by (auto simp: all_dims_def dict_wf_def)

text \<open>Slicing a shard again.\<close>

lemma sliced_twice:
  assumes P: "fits (shape g) P" and S: "dict_wf S"
    "\<And>d s. (d, s) \<in> set S \<Longrightarrow> d < length (shape g) \<and> valid_slice s \<and> total_size s dvd count_of (shape g ! d) (rank_at (dict_get P) d)"
  shows "\<exists>v. sliced g P = Inr v \<and> sliced v S = Inr (region
    (\<lambda>d. starts (shape g) P d + (case dict_get S d of None \<Rightarrow> 0 | Some s \<Rightarrow> start_of (count_of (shape g ! d) (rank_at (dict_get P) d)) s))
    (\<lambda>d. case dict_get S d of None \<Rightarrow> counts (shape g) P d | Some s \<Rightarrow> Some (count_of (count_of (shape g ! d) (rank_at (dict_get P) d)) s)) g)"
    (is "\<exists>v. _ \<and> _ = Inr (region ?lo ?len g)")
proof -
  let ?v = "region (starts (shape g) P) (counts (shape g) P) g"
  have sh: "shape ?v ! d = count_of (shape g ! d) (rank_at (dict_get P) d)" if "d < length (shape g)" for d
    using that by (auto simp: region_def counts_def rank_at_def count_of_def split: option.split)
  have in_S: "d < length (shape g)" if "dict_get S d = Some s" for d s using that S dict_get_mem by fast
  have "slices_fit (shape ?v) S"
  proof (rule slices_fitI)
    show "dict_wf S" by (rule S(1))
    fix d s assume "(d, s) \<in> set S"
    from S(2) [OF this] show "d < length (shape ?v) \<and> valid_slice s \<and> total_size s dvd shape ?v ! d \<and> 0 \<le> shape ?v ! d"
      using fits_rank(4) [OF P] by (simp add: sh) (simp add: region_def)
  qed
  from slices_run [OF this] have "sliced ?v S = Inr (region (starts (shape ?v) S) (counts (shape ?v) S) ?v)" .
  moreover have "starts (shape ?v) S = (\<lambda>d. case dict_get S d of None \<Rightarrow> 0 | Some s \<Rightarrow> start_of (count_of (shape g ! d) (rank_at (dict_get P) d)) s)"
    using sh in_S by (auto simp: starts_def fun_eq_iff split: option.split)
  moreover have "counts (shape ?v) S = (\<lambda>d. map_option (count_of (count_of (shape g ! d) (rank_at (dict_get P) d))) (dict_get S d))"
    using sh in_S by (auto simp: counts_def fun_eq_iff intro!: option.map_cong0 split: option.split)
  moreover have "(\<lambda>d. case map_option (count_of (count_of (shape g ! d) (rank_at (dict_get P) d))) (dict_get S d) of
      None \<Rightarrow> counts (shape g) P d | Some n \<Rightarrow> Some n) = ?len"
    by (auto simp: fun_eq_iff split: option.split)
  ultimately have "sliced ?v S = Inr (region ?lo ?len g)" by (simp add: region_region)
  with slices_run [OF fits_slices [OF P]] show ?thesis by blast
qed

lemma start_rank: "starts sh P d = start_of (sh ! d) (rank_at (dict_get P) d)"
  by (simp add: starts_def rank_at_def start_of_def split: option.split)

lemma zip_get:
  "list_all2 Q ds xs \<Longrightarrow> distinct ds \<Longrightarrow>
   (case dict_get (zip ds (map f xs)) d of None \<Rightarrow> d \<notin> set ds | Some s \<Rightarrow> d \<in> set ds \<and> (\<exists>x. Q d x \<and> s = f x \<and> dict_get (zip ds (map g xs)) d = Some (g x)))"
  by (induction ds xs rule: list_all2_induct) (auto simp: dict_get_def split: option.splits)

text \<open>What the two sides select is the same part of the tensor.\<close>

lemma strategies_agree:
  assumes fits: "fits (shape g) P" "fits (shape g) R" and comp: "compatible_shards P R"
    and st: "strategies_of P R = Inr (Some (ps, rs))"
  shows "\<exists>vp vr x. sliced g P = Inr vp \<and> sliced g R = Inr vr \<and> apply_strategy vp ps = Inr x \<and> apply_strategy vr rs = Inr x"
proof -
  let ?ov = "tensor_overlap_info_at_dim (dict_get P) (dict_get R)"
  define ds where "ds = all_dims P R"
  obtain xs where xs: "list_all2 (\<lambda>d x. ?ov d = Inr (Some x)) ds xs"
    "ps = zip ds (map (to_dict \<circ> fst) xs)" "rs = zip ds (map (to_dict \<circ> snd) xs)"
    using st unfolding strategies_of_def split_strategies_Some ds_def by blast
  define Sp Sr where "Sp = zip ds (map fst xs)" and "Sr = zip ds (map snd xs)"
  have len: "length xs = length ds" using xs(1) by (simp add: list_all2_lengthD)
  have maps: "ps = map (\<lambda>(d, s). (d, to_dict s)) Sp" "rs = map (\<lambda>(d, s). (d, to_dict s)) Sr"
    using len by (simp_all add: xs Sp_def Sr_def list_eq_iff_nth_eq)
  have dist: "distinct ds" using fits distinct_all_dims by (simp add: ds_def fits_def)
  then have wf: "dict_wf Sp" "dict_wf Sr" using len by (simp_all add: Sp_def Sr_def dict_wf_def dict_keys_def)
  define n p r where "n d = shape g ! d" and "p d = rank_at (dict_get P) d" and "r d = rank_at (dict_get R) d" for d
  note at = this
  have one: "d < length (shape g) \<and> valid_slice sp \<and> valid_slice sr
      \<and> total_size sp dvd count_of (n d) (p d) \<and> total_size sr dvd count_of (n d) (r d)
      \<and> start_of (n d) (p d) + start_of (count_of (n d) (p d)) sp = start_of (n d) (r d) + start_of (count_of (n d) (r d)) sr
      \<and> count_of (count_of (n d) (p d)) sp = count_of (count_of (n d) (r d)) sr"
    if "d \<in> set ds" "?ov d = Inr (Some (sp, sr))" for d sp sr
  proof -
    have d: "d < length (shape g)" using fits_dims [OF fits] that(1) by (simp add: ds_def)
    have "compatible (p d) (r d)" using comp that(1) by (simp add: compatible_shards_def ds_def at)
    with tensor_overlap_run [of "dict_get P" d "dict_get R" "n d"] fits_rank [OF fits(1) d] fits_rank [OF fits(2) d] that(2) d
    show ?thesis by (simp add: at)
  qed
  have mem: "\<exists>i < length ds. d = ds ! i \<and> s = f (xs ! i) \<and> ?ov d = Inr (Some (fst (xs ! i), snd (xs ! i)))"
    if "(d, s) \<in> set (zip ds (map f xs))" for d and s :: slice and f
    using that xs(1) len by (auto simp: in_set_zip list_all2_conv_all_nth)
  have Sp: "d < length (shape g) \<and> valid_slice s \<and> total_size s dvd count_of (shape g ! d) (rank_at (dict_get P) d)"
    if s: "(d, s) \<in> set Sp" for d s
    using mem [OF s [unfolded Sp_def]] one unfolding at by (metis nth_mem)
  have Sr: "d < length (shape g) \<and> valid_slice s \<and> total_size s dvd count_of (shape g ! d) (rank_at (dict_get R) d)"
    if s: "(d, s) \<in> set Sr" for d s
    using mem [OF s [unfolded Sr_def]] one unfolding at by (metis nth_mem)
  have "\<exists>v. sliced g P = Inr v \<and> sliced v Sp = Inr (region
    (\<lambda>d. starts (shape g) P d + (case dict_get Sp d of None \<Rightarrow> 0 | Some s \<Rightarrow> start_of (count_of (shape g ! d) (rank_at (dict_get P) d)) s))
    (\<lambda>d. case dict_get Sp d of None \<Rightarrow> counts (shape g) P d | Some s \<Rightarrow> Some (count_of (count_of (shape g ! d) (rank_at (dict_get P) d)) s)) g)"
    (is "\<exists>v. _ \<and> _ = Inr (region ?lp ?np g)")
    by (rule sliced_twice [OF fits(1) wf(1)]) (rule Sp)
  moreover have "\<exists>v. sliced g R = Inr v \<and> sliced v Sr = Inr (region
    (\<lambda>d. starts (shape g) R d + (case dict_get Sr d of None \<Rightarrow> 0 | Some s \<Rightarrow> start_of (count_of (shape g ! d) (rank_at (dict_get R) d)) s))
    (\<lambda>d. case dict_get Sr d of None \<Rightarrow> counts (shape g) R d | Some s \<Rightarrow> Some (count_of (count_of (shape g ! d) (rank_at (dict_get R) d)) s)) g)"
    (is "\<exists>v. _ \<and> _ = Inr (region ?lr ?nr g)")
    by (rule sliced_twice [OF fits(2) wf(2)]) (rule Sr)
  moreover have "?lp d = ?lr d \<and> ?np d = ?nr d" for d
  proof (cases "d \<in> set ds")
    case True
    then obtain i where i: "i < length ds" "d = ds ! i" by (auto simp: in_set_conv_nth)
    have "(d, fst (xs ! i)) \<in> set Sp" "(d, snd (xs ! i)) \<in> set Sr"
      using i len by (auto simp: Sp_def Sr_def in_set_zip)
    then have "dict_get Sp d = Some (fst (xs ! i))" "dict_get Sr d = Some (snd (xs ! i))"
      using dict_get_mem [OF wf(1)] dict_get_mem [OF wf(2)] by simp_all
    moreover have "?ov d = Inr (Some (fst (xs ! i), snd (xs ! i)))" using xs(1) i by (simp add: list_all2_conv_all_nth)
    ultimately show ?thesis using one [OF True] by (simp add: start_rank at)
  next
    case False
    then have "dict_get P d = None" "dict_get R d = None" by (simp_all add: ds_def set_all_dims dict_get_None_iff)
    moreover have "dict_get Sp d = None" "dict_get Sr d = None"
      using False len by (simp_all add: dict_get_None_iff dict_keys_def Sp_def Sr_def)
    ultimately show ?thesis by (simp add: starts_def counts_def)
  qed
  then have "?lp = ?lr" "?np = ?nr" by blast+
  ultimately show ?thesis unfolding maps apply_strategy_sliced by auto
qed

text \<open>C26: the two sides of the plan agree. For a parameter that policy rank \<open>p\<close> and rollout rank \<open>r\<close>
  hold, \<open>p\<close> has an instruction to send to \<open>r\<close> exactly if \<open>r\<close> has one to receive from \<open>p\<close>; and the slices
  that the two instructions name, each taken of its own rank's shard, are the very same part of the
  parameter, over all of its dimensions.\<close>

theorem send_matches_receive:
  assumes "send_param infos n p pinfo = Inr sends" "holds (fst infos) p n pinfo P"
    and "recv_param infos n r rinfo = Inr recvs" "holds (snd infos) r n rinfo R"
    and "fits (shape g) P" "fits (shape g) R" "compatible_shards P R"
  shows "(r \<in> si_rollout_rank ` set sends \<longleftrightarrow> p \<in> si_policy_rank ` set recvs)
    \<and> (\<forall>ps rs. \<lparr>si_policy_rank = p, si_rollout_rank = r, si_slice_strategy = ps\<rparr> \<in> set sends
       \<longrightarrow> \<lparr>si_policy_rank = p, si_rollout_rank = r, si_slice_strategy = rs\<rparr> \<in> set recvs
       \<longrightarrow> (\<exists>vp vr x. sliced g P = Inr vp \<and> sliced g R = Inr vr
             \<and> apply_strategy vp ps = Inr x \<and> apply_strategy vr rs = Inr x))"
proof (intro conjI allI impI)
  show "r \<in> si_rollout_rank ` set sends \<longleftrightarrow> p \<in> si_policy_rank ` set recvs"
    by (simp only: send_ranks [OF assms(1,2)] recv_ranks [OF assms(3,4)])
  fix ps rs
  assume "\<lparr>si_policy_rank = p, si_rollout_rank = r, si_slice_strategy = ps\<rparr> \<in> set sends"
    and "\<lparr>si_policy_rank = p, si_rollout_rank = r, si_slice_strategy = rs\<rparr> \<in> set recvs"
  then have "strategies_of P R = Inr (Some (ps, rs))"
    unfolding send_mem(1) [OF assms(1,2)] recv_mem(1) [OF assms(3,4)]
    by (simp add: holds_iff [OF assms(2)] holds_iff [OF assms(4)]) auto
  then show "\<exists>vp vr x. sliced g P = Inr vp \<and> sliced g R = Inr vr \<and> apply_strategy vp ps = Inr x \<and> apply_strategy vr rs = Inr x"
    by (rule strategies_agree [OF assms(5-7)])
qed

definition half :: "int \<Rightarrow> shard_info" where
  "half k = [(0, to_dict (mk_slice k 2 [] 1))]"

definition sample_infos :: plan_infos where
  "sample_infos = ([[(''w'', half 0)], [(''w'', half 1)]], [[(''w'', [])], [(''w'', [])]])"

lemma sample_holds:
  "holds (fst sample_infos) 1 ''w'' (half 1) [(0, mk_slice 1 2 [] 1)]" "holds (snd sample_infos) 0 ''w'' [] []"
  by (simp_all add: holds_def sample_infos_def half_def dict_get_def from_dict_to_dict)

lemmas plan_eval = send_param_def recv_param_def send_to_def recv_from_def sample_infos_def half_def dict_get_def
  from_dict_to_dict strategies_of_def all_dims_def dict_keys_def tensor_overlap_info_at_dim_def get_unified_rank_info_def
  rank_overlap_def relative_rank_def simplify_def ensure_def get_dup_ranks_def same_shard_def policy_to_rollout_assign_def
  to_dict_def from_dict_def mk_slice_def

lemma sample_send: "\<exists>sends. send_param sample_infos ''w'' 1 (half 1) = Inr sends \<and> map si_rollout_rank sends = [0, 1]"
  by (simp add: plan_eval upt_rec numeral_2_eq_2)

lemma sample_recv: "\<exists>recvs. recv_param sample_infos ''w'' 0 [] = Inr recvs \<and> map si_policy_rank recvs = [0, 1]"
  by (simp add: plan_eval upt_rec numeral_2_eq_2)

theorem send_matches_receive_witness:
  "\<exists>sends recvs ps rs vp vr x. send_param sample_infos ''w'' 1 (half 1) = Inr sends \<and> recv_param sample_infos ''w'' 0 [] = Inr recvs
     \<and> \<lparr>si_policy_rank = 1, si_rollout_rank = 0, si_slice_strategy = ps\<rparr> \<in> set sends
     \<and> \<lparr>si_policy_rank = 1, si_rollout_rank = 0, si_slice_strategy = rs\<rparr> \<in> set recvs
     \<and> sliced \<lparr>shape = [8], elems = hd\<rparr> [(0, mk_slice 1 2 [] 1)] = Inr vp \<and> sliced \<lparr>shape = [8], elems = hd\<rparr> [] = Inr vr
     \<and> apply_strategy vp ps = Inr x \<and> apply_strategy vr rs = Inr (x :: int tensor)"
proof -
  obtain sends where s: "send_param sample_infos ''w'' 1 (half 1) = Inr sends" and m: "map si_rollout_rank sends = [0, 1]"
    using sample_send by auto
  obtain recvs where t: "recv_param sample_infos ''w'' 0 [] = Inr recvs" using sample_recv by auto
  note r = s t
  have "fits [8] [(0, mk_slice 1 2 [] 1)]" "fits [8] []" "compatible_shards [(0, mk_slice 1 2 [] 1)] []"
    by (simp_all add: fits_def dict_wf_def dict_keys_def valid_slice_def mk_slice_def compatible_shards_def all_dims_def
        rank_at_def compatible_def dict_get_def)
  note both = send_matches_receive [OF r(1) sample_holds(1) r(2) sample_holds(2), of "\<lparr>shape = [8], elems = hd\<rparr>", simplified, OF this]
  obtain i where i: "i \<in> set sends" "si_rollout_rank i = 0" using m by (cases sends) auto
  then have "si_policy_rank i = 1" using send_mem(1) [OF r(1) sample_holds(1)] by auto
  with i(2) have I: "\<lparr>si_policy_rank = 1, si_rollout_rank = 0, si_slice_strategy = si_slice_strategy i\<rparr> = i" by simp
  have "0 \<in> si_rollout_rank ` set sends" using i by force
  then have "1 \<in> si_policy_rank ` set recvs" using both by simp
  then obtain j where j: "j \<in> set recvs" "si_policy_rank j = 1" by auto
  then have "si_rollout_rank j = 0" using recv_mem(1) [OF r(2) sample_holds(2)] by auto
  with j(2) have J: "\<lparr>si_policy_rank = 1, si_rollout_rank = 0, si_slice_strategy = si_slice_strategy j\<rparr> = j" by simp
  from both [THEN conjunct2, rule_format, of "si_slice_strategy i" "si_slice_strategy j"] I J i(1) j(1)
  obtain vp vr x where "sliced \<lparr>shape = [8], elems = hd\<rparr> [(0, mk_slice 1 2 [] 1)] = Inr vp"
    "sliced \<lparr>shape = [8], elems = hd\<rparr> [] = Inr vr" "apply_strategy vp (si_slice_strategy i) = Inr x"
    "apply_strategy vr (si_slice_strategy j) = Inr (x :: int tensor)" by auto
  moreover have "\<lparr>si_policy_rank = 1, si_rollout_rank = 0, si_slice_strategy = si_slice_strategy i\<rparr> \<in> set sends"
    "\<lparr>si_policy_rank = 1, si_rollout_rank = 0, si_slice_strategy = si_slice_strategy j\<rparr> \<in> set recvs"
    by (simp_all only: I J i(1) j(1))
  moreover note r
  ultimately show ?thesis by blast
qed

text \<open>C27: a rollout rank receives every shard that it needs once. If a shard that some policy rank holds
  shares elements with the shard of rollout rank \<open>r\<close>, then exactly one of the policy ranks with that same
  shard sends it to \<open>r\<close>, and no policy rank sends to \<open>r\<close> twice.\<close>

theorem each_shard_sent_once:
  assumes "recv_param infos n r rinfo = Inr recvs" "holds (snd infos) r n rinfo R" "holds (fst infos) p n pinfo P"
    and "strategies_of P R = Inr (Some st)"
  shows "(\<exists>!q. q \<in> set (get_dup_ranks (fst infos) p n) \<and> q \<in> si_policy_rank ` set recvs) \<and> distinct (map si_policy_rank recvs)"
proof
  let ?ps = "get_dup_ranks (fst infos) p n" and ?rs = "get_dup_ranks (snd infos) r n"
  have "q \<in> si_policy_rank ` set recvs \<longleftrightarrow> assigned ?ps ?rs q r" if q: "q \<in> set ?ps" for q
  proof -
    obtain j where j: "dict_get (fst infos ! q) n = Some j" "q < length (fst infos)" "same_shard j pinfo"
      using q assms(3) by (auto simp: dup_ranks_iff holds_def)
    obtain Q where Q: "holds (fst infos) q n j Q"
    proof -
      obtain ys where "recv_from infos n r R q = Inr ys"
        using recv_param_steps [OF assms(1)] assms(2) j(2) by (auto simp: holds_def list_all2_conv_all_nth)
      then show ?thesis using j that by (auto simp: recv_from_def holds_def ebind_Inr_iff)
    qed
    obtain st' where st': "strategies_of Q R = Inr st'" using recv_mem(2) [OF assms(1,2) Q] by blast
    have "dict_get Q = dict_get P" using parse_same [OF j(3)] Q assms(3) by (simp add: holds_def)
    with strategies_same [OF st' assms(4)] obtain x where "st' = Some x" by auto
    with st' have "pair_of infos q r n \<longleftrightarrow> meet infos n q r"
      unfolding pair_of_def holds_iff [OF Q] holds_iff [OF assms(2)] by (cases x) simp
    then show ?thesis using dup_ranks_class [OF q] by (simp only: recv_ranks [OF assms(1,2)] meet_def)
  qed
  moreover have "\<exists>!q. q \<in> set ?ps \<and> assigned ?ps ?rs q r"
  proof (rule one_sender)
    show "?ps \<noteq> []" using dup_ranks_self [of p "fst infos" n pinfo] assms(3) by (auto simp: holds_def)
    show "r \<in> set ?rs" using dup_ranks_self [of r "snd infos" n rinfo] assms(2) by (simp add: holds_def)
  qed (rule distinct_dup_ranks)+
  ultimately show "\<exists>!q. q \<in> set ?ps \<and> q \<in> si_policy_rank ` set recvs" by (simp cong: conj_cong)
  show "distinct (map si_policy_rank recvs)" by (rule recv_mem(3) [OF assms(1,2)])
qed

theorem each_shard_sent_once_witness:
  "\<exists>recvs st. recv_param sample_infos ''w'' 0 [] = Inr recvs \<and> strategies_of [(0, mk_slice 1 2 [] 1)] [] = Inr (Some st)
     \<and> get_dup_ranks (fst sample_infos) 1 ''w'' = [1] \<and> 1 \<in> si_policy_rank ` set recvs \<and> distinct (map si_policy_rank recvs)"
proof -
  obtain recvs where r: "recv_param sample_infos ''w'' 0 [] = Inr recvs" using sample_recv by blast
  obtain st where st: "strategies_of [(0, mk_slice 1 2 [] 1)] [] = Inr (Some st)"
    by (simp add: plan_eval)
  have d: "get_dup_ranks (fst sample_infos) 1 ''w'' = [1]"
    by (simp add: plan_eval upt_rec numeral_2_eq_2)
  from each_shard_sent_once [OF r sample_holds(2) sample_holds(1) st] r st d show ?thesis by auto
qed

section \<open>The order of the transfers\<close>

text \<open>The instructions of a rank in the order in which it carries them out, each with its parameter.\<close>

definition in_order :: "insts_group list \<Rightarrow> (string \<times> sync_inst) list" where
  "in_order groups = concat (map (\<lambda>pis. map (Pair (pi_param_name pis)) (pi_instructions pis)) (concat groups))"

lemma in_order_simps:
  "in_order [] = []" "in_order (a @ b) = in_order a @ in_order b"
  "in_order [grp @ [\<lparr>pi_param_name = n, pi_instructions = is\<rparr>]] = in_order [grp] @ map (Pair n) is"
  "in_order [[\<lparr>pi_param_name = n, pi_instructions = is\<rparr>]] = map (Pair n) is"
  by (simp_all add: in_order_def)

text \<open>What a rank does for one parameter, and that it was computed without an error.\<close>

definition param_out :: "(string \<Rightarrow> shard_info \<Rightarrow> error + sync_inst list) \<Rightarrow> rank_infos \<Rightarrow> string \<Rightarrow> (string \<times> sync_inst) list" where
  "param_out f dicts n = (case dict_get dicts n of None \<Rightarrow> [] | Some i \<Rightarrow> (case f n i of Inl e \<Rightarrow> [] | Inr is \<Rightarrow> map (Pair n) is))"

definition computed :: "(string \<Rightarrow> shard_info \<Rightarrow> error + sync_inst list) \<Rightarrow> rank_infos \<Rightarrow> string list \<Rightarrow> bool" where
  "computed f dicts names \<longleftrightarrow> (\<forall>n \<in> set names. \<forall>i. dict_get dicts n = Some i \<longrightarrow> (\<exists>is. f n i = Inr is))"

lemma computed_simps:
  "computed f dicts []" "computed f dicts (ms @ ns) \<longleftrightarrow> computed f dicts ms \<and> computed f dicts ns"
  "computed f dicts (n # ns) \<longleftrightarrow> (\<forall>i. dict_get dicts n = Some i \<longrightarrow> (\<exists>is. f n i = Inr is)) \<and> computed f dicts ns"
  by (auto simp: computed_def)

definition sends :: "shard_plan \<Rightarrow> nat \<Rightarrow> string \<Rightarrow> shard_info \<Rightarrow> error + sync_inst list" where
  "sends m p n i = send_param (plan_infos m) n p i"

definition recvs :: "shard_plan \<Rightarrow> nat \<Rightarrow> string \<Rightarrow> shard_info \<Rightarrow> error + sync_inst list" where
  "recvs m r n i = recv_param (plan_infos m) n r i"

definition ungrouped :: "shard_plan \<Rightarrow> string \<Rightarrow> bool" where
  "ungrouped m n \<longleftrightarrow> dict_get (pl_param_to_groups m) n = None"

lemma send_singles_order:
  "efold (send_single m p dicts) names groups = Inr out \<Longrightarrow>
   in_order out = in_order groups @ concat (map (param_out (sends m p) dicts) (filter (ungrouped m) names))
   \<and> computed (sends m p) dicts (filter (ungrouped m) names)"
proof (induction names arbitrary: groups)
  case (Cons n names)
  then obtain g where g: "send_single m p dicts n groups = Inr g" "efold (send_single m p dicts) names g = Inr out"
    by (auto simp: ebind_Inr_iff)
  have "in_order g = in_order groups @ (if ungrouped m n then param_out (sends m p) dicts n else [])
      \<and> (ungrouped m n \<longrightarrow> (\<forall>i. dict_get dicts n = Some i \<longrightarrow> (\<exists>is. sends m p n i = Inr is)))"
    using g(1) by (auto simp: send_single_def ungrouped_def param_out_def sends_def ebind_Inr_iff in_order_simps
        split: option.splits if_splits)
  with Cons.IH [OF g(2)] show ?case by (simp add: computed_simps)
qed (simp add: computed_simps)

lemma recv_singles_order:
  "efold (recv_single m r dicts) names groups = Inr out \<Longrightarrow>
   in_order out = in_order groups @ concat (map (param_out (recvs m r) dicts) (filter (ungrouped m) names))
   \<and> computed (recvs m r) dicts (filter (ungrouped m) names)"
proof (induction names arbitrary: groups)
  case (Cons n names)
  then obtain g where g: "recv_single m r dicts n groups = Inr g" "efold (recv_single m r dicts) names g = Inr out"
    by (auto simp: ebind_Inr_iff)
  have "in_order g = in_order groups @ (if ungrouped m n then param_out (recvs m r) dicts n else [])
      \<and> (ungrouped m n \<longrightarrow> (\<forall>i. dict_get dicts n = Some i \<longrightarrow> (\<exists>is. recvs m r n i = Inr is)))"
    using g(1) by (auto simp: recv_single_def ungrouped_def param_out_def recvs_def ebind_Inr_iff ensure_Inr_iff in_order_simps
        split: option.splits if_splits)
  with Cons.IH [OF g(2)] show ?case by (simp add: computed_simps)
qed (simp add: computed_simps)

lemma send_members_order:
  "efold (send_member m p dicts) names grp = Inr out \<Longrightarrow>
   in_order [out] = in_order [grp] @ concat (map (param_out (sends m p) dicts) names) \<and> computed (sends m p) dicts names"
proof (induction names arbitrary: grp)
  case (Cons n names)
  then obtain g where g: "send_member m p dicts n grp = Inr g" "efold (send_member m p dicts) names g = Inr out"
    by (auto simp: ebind_Inr_iff)
  have "in_order [g] = in_order [grp] @ param_out (sends m p) dicts n
      \<and> (\<forall>i. dict_get dicts n = Some i \<longrightarrow> (\<exists>is. sends m p n i = Inr is))"
    using g(1) by (auto simp: send_member_def param_out_def sends_def ebind_Inr_iff in_order_simps split: option.splits if_splits)
  with Cons.IH [OF g(2)] show ?case by (simp add: computed_simps)
qed (simp add: computed_simps)

lemma recv_members_order:
  "efold (recv_member m r dicts) names grp = Inr out \<Longrightarrow>
   in_order [out] = in_order [grp] @ concat (map (param_out (recvs m r) dicts) names) \<and> computed (recvs m r) dicts names"
proof (induction names arbitrary: grp)
  case (Cons n names)
  then obtain g where g: "recv_member m r dicts n grp = Inr g" "efold (recv_member m r dicts) names g = Inr out"
    by (auto simp: ebind_Inr_iff)
  have "in_order [g] = in_order [grp] @ param_out (recvs m r) dicts n
      \<and> (\<forall>i. dict_get dicts n = Some i \<longrightarrow> (\<exists>is. recvs m r n i = Inr is))"
    using g(1) by (auto simp: recv_member_def param_out_def recvs_def ebind_Inr_iff ensure_Inr_iff in_order_simps split: option.splits if_splits)
  with Cons.IH [OF g(2)] show ?case by (simp add: computed_simps)
qed (simp add: computed_simps)

lemma in_order_empty [simp]: "in_order [[]] = []"
  by (simp add: in_order_def)

lemma groups_order:
  assumes member: "\<And>names grp out. efold member names grp = Inr out \<Longrightarrow>
      in_order [out] = in_order [grp] @ concat (map (param_out param dicts) names) \<and> computed param dicts names"
    and add: "\<And>g groups out. add g groups = Inr out \<Longrightarrow> out = groups @ [g] \<or> (g = [] \<and> out = groups)"
  shows "efold (\<lambda>grp groups. ebind (efold member grp []) (\<lambda>g. add g groups)) gs groups = Inr out \<Longrightarrow>
    in_order out = in_order groups @ concat (map (param_out param dicts) (concat gs)) \<and> computed param dicts (concat gs)"
proof (induction gs arbitrary: groups)
  case (Cons grp gs)
  then obtain g h where g: "efold member grp [] = Inr g" "add g groups = Inr h"
    "efold (\<lambda>grp groups. ebind (efold member grp []) (\<lambda>g. add g groups)) gs h = Inr out"
    by (auto simp: ebind_Inr_iff)
  have "in_order h = in_order groups @ in_order [g]" using add [OF g(2)] by (auto simp: in_order_simps)
  with Cons.IH [OF g(3)] member [OF g(1)] show ?case by (simp add: computed_simps)
qed (simp add: computed_simps)

lemma generate_send_order:
  assumes "generate_send_insts m p = Inr S" "pl_pp_rank_map_policy m ! p = pp" "pl_sorted_policy m ! pp = sp"
    and "pl_policy_infos m ! p = dicts"
  shows "in_order S = concat (map (param_out (sends m p) dicts) (filter (ungrouped m) sp @ concat (pl_param_groups m)))
    \<and> computed (sends m p) dicts (filter (ungrouped m) sp @ concat (pl_param_groups m)) \<and> p < length (pl_policy_infos m)"
proof -
  obtain singles where s: "efold (send_single m p dicts) sp [] = Inr singles"
    "efold (\<lambda>grp groups. ebind (efold (send_member m p dicts) grp []) (\<lambda>g. Inr (if g \<noteq> [] then groups @ [g] else groups)))
       (pl_param_groups m) singles = Inr S" "p < length (pl_policy_infos m)"
    using assms by (auto simp: generate_send_insts_def ebind_Inr_iff item_def split: if_splits)
  have "in_order S = in_order singles @ concat (map (param_out (sends m p) dicts) (concat (pl_param_groups m)))
      \<and> computed (sends m p) dicts (concat (pl_param_groups m))"
    by (rule groups_order [OF send_members_order _ s(2)]) (auto split: if_splits)
  with send_singles_order [OF s(1)] s(3) show ?thesis by (simp add: computed_simps in_order_simps)
qed

lemma generate_recv_order:
  assumes "generate_recv_insts m r = Inr T" "pl_pp_rank_map_rollout m ! r = pp" "pl_sorted_rollout m ! pp = sr"
    and "pl_rollout_infos m ! r = dicts"
  shows "in_order T = concat (map (param_out (recvs m r) dicts) (filter (ungrouped m) sr @ concat (pl_param_groups m)))
    \<and> computed (recvs m r) dicts (filter (ungrouped m) sr @ concat (pl_param_groups m)) \<and> r < length (pl_rollout_infos m)"
proof -
  obtain singles where s: "efold (recv_single m r dicts) sr [] = Inr singles"
    "efold (\<lambda>grp groups. ebind (efold (recv_member m r dicts) grp []) (\<lambda>g. ensure ValueError (g \<noteq> []) (Inr (groups @ [g]))))
       (pl_param_groups m) singles = Inr T" "r < length (pl_rollout_infos m)"
    using assms by (auto simp: generate_recv_insts_def ebind_Inr_iff ensure_Inr_iff item_def split: if_splits)
  have "in_order T = in_order singles @ concat (map (param_out (recvs m r) dicts) (concat (pl_param_groups m)))
      \<and> computed (recvs m r) dicts (concat (pl_param_groups m))"
    by (rule groups_order [OF recv_members_order _ s(2)]) (auto simp: ensure_Inr_iff)
  with recv_singles_order [OF s(1)] s(3) show ?thesis by (simp add: computed_simps in_order_simps)
qed

text \<open>Each parameter gives at most one instruction between two ranks.\<close>

lemma filter_distinct_key: "distinct (map f xs) \<Longrightarrow> map (\<lambda>_. n) (filter (\<lambda>i. f i = k) xs) = (if k \<in> f ` set xs then [n] else [])"
proof (induction xs)
  case (Cons x xs)
  then show ?case by (cases "f x = k") (auto simp: filter_empty_conv image_iff)
qed simp

lemma param_parsed: "send_param infos n p i = Inr is \<Longrightarrow> \<exists>P. parse_shard i = Inr P" "recv_param infos n r i = Inr is \<Longrightarrow> \<exists>P. parse_shard i = Inr P"
  by (auto simp: send_param_def recv_param_def ebind_Inr_iff)

lemma send_messages:
  assumes "p < length (pl_policy_infos m)" "computed (sends m p) (pl_policy_infos m ! p) [n]"
  shows "map fst (filter (\<lambda>(n, i). si_rollout_rank i = r) (param_out (sends m p) (pl_policy_infos m ! p) n))
    = (if pair_of (plan_infos m) p r n then [n] else [])"
proof (cases "dict_get (pl_policy_infos m ! p) n")
  case None
  then show ?thesis by (simp add: param_out_def pair_of_def holds_def plan_infos_def)
next
  case (Some pinfo)
  then obtain out where out: "send_param (plan_infos m) n p pinfo = Inr out"
    using assms(2) by (auto simp: computed_simps sends_def)
  then obtain P where "parse_shard pinfo = Inr P" using param_parsed(1) by blast
  then have h: "holds (fst (plan_infos m)) p n pinfo P" using assms(1) Some by (simp add: holds_def plan_infos_def)
  show ?thesis using filter_distinct_key [OF send_mem(3) [OF out h], of n r]
    by (simp add: param_out_def Some sends_def out filter_map comp_def send_ranks [OF out h])
qed

lemma recv_messages:
  assumes "r < length (pl_rollout_infos m)" "computed (recvs m r) (pl_rollout_infos m ! r) [n]"
  shows "map fst (filter (\<lambda>(n, i). si_policy_rank i = p) (param_out (recvs m r) (pl_rollout_infos m ! r) n))
    = (if pair_of (plan_infos m) p r n then [n] else [])"
proof (cases "dict_get (pl_rollout_infos m ! r) n")
  case None
  then show ?thesis by (simp add: param_out_def pair_of_def holds_def plan_infos_def)
next
  case (Some rinfo)
  then obtain out where out: "recv_param (plan_infos m) n r rinfo = Inr out"
    using assms(2) by (auto simp: computed_simps recvs_def)
  then obtain R where "parse_shard rinfo = Inr R" using param_parsed(2) by blast
  then have h: "holds (snd (plan_infos m)) r n rinfo R" using assms(1) Some by (simp add: holds_def plan_infos_def)
  show ?thesis using filter_distinct_key [OF recv_mem(3) [OF out h], of n p]
    by (simp add: param_out_def Some recvs_def out filter_map comp_def recv_ranks [OF out h])
qed

lemma messages_of:
  assumes "\<And>n. n \<in> set names \<Longrightarrow> map fst (filter Q (out n)) = (if B n then [n] else [])"
  shows "map fst (filter Q (concat (map out names))) = filter B names"
  using assms by (induction names) auto

lemma computed_single: "computed f d names \<Longrightarrow> n \<in> set names \<Longrightarrow> computed f d [n]"
  by (auto simp: computed_def)

lemma same_order:
  assumes "generate_send_insts m p = Inr S" "generate_recv_insts m r = Inr T"
    and "pl_sorted_policy m ! (pl_pp_rank_map_policy m ! p) = sp" "pl_sorted_rollout m ! (pl_pp_rank_map_rollout m ! r) = sr"
    and "sorted sp" "distinct sp" "sorted sr" "distinct sr"
    and "set (dict_keys (pl_policy_infos m ! p)) \<subseteq> set sp" "set (dict_keys (pl_rollout_infos m ! r)) \<subseteq> set sr"
  shows "map fst (filter (\<lambda>(n, i). si_rollout_rank i = r) (in_order S))
    = map fst (filter (\<lambda>(n, i). si_policy_rank i = p) (in_order T))"
proof -
  let ?pair = "pair_of (plan_infos m) p r"
  note S = generate_send_order [OF assms(1) refl assms(3) refl] and T = generate_recv_order [OF assms(2) refl assms(4) refl]
  have s: "map fst (filter (\<lambda>(n, i). si_rollout_rank i = r) (in_order S))
      = filter ?pair (filter (ungrouped m) sp @ concat (pl_param_groups m))"
    unfolding S [THEN conjunct1] using S computed_single by (intro messages_of send_messages) blast+
  have t: "map fst (filter (\<lambda>(n, i). si_policy_rank i = p) (in_order T))
      = filter ?pair (filter (ungrouped m) sr @ concat (pl_param_groups m))"
    unfolding T [THEN conjunct1] using T computed_single by (intro messages_of recv_messages) blast+
  have "n \<in> set sp \<and> n \<in> set sr" if "?pair n" for n
    using that assms(9,10) dict_get_Some_key [of "pl_policy_infos m ! p" n] dict_get_Some_key [of "pl_rollout_infos m ! r" n]
    by (auto simp: pair_of_def holds_def plan_infos_def)
  then have "set (filter ?pair (filter (ungrouped m) sp)) = set (filter ?pair (filter (ungrouped m) sr))" by auto
  then have "filter ?pair (filter (ungrouped m) sp) = filter ?pair (filter (ungrouped m) sr)"
    using assms(5-8) by (intro sorted_distinct_set_unique) (simp_all add: sorted_wrt_filter)
  then show ?thesis unfolding s t by simp
qed

text \<open>The transfers between two ranks come in the same order on both sides. If the parameters of the
  two ranks are listed in sorted order, each once, and each list contains what its rank holds, then the
  parameters that policy rank \<open>p\<close> sends to rollout rank \<open>r\<close>, in the order of its instructions, are the
  ones that \<open>r\<close> receives from \<open>p\<close>, in the order of its own - ungrouped ones first, then group by group.\<close>

theorem transfers_in_order:
  assumes "generate_send_insts m p = Inr S" "generate_recv_insts m r = Inr T"
    and "pl_sorted_policy m ! (pl_pp_rank_map_policy m ! p) = sp" "pl_sorted_rollout m ! (pl_pp_rank_map_rollout m ! r) = sr"
    and "sorted sp" "distinct sp" "sorted sr" "distinct sr"
    and "set (dict_keys (pl_policy_infos m ! p)) \<subseteq> set sp" "set (dict_keys (pl_rollout_infos m ! r)) \<subseteq> set sr"
  shows "map fst (filter (\<lambda>(n, i). si_rollout_rank i = r) (in_order S))
    = map fst (filter (\<lambda>(n, i). si_policy_rank i = p) (in_order T))"
  by (rule same_order [OF assms])

definition sample_plan :: shard_plan where
  "sample_plan = \<lparr>pl_policy_infos = fst sample_infos, pl_rollout_infos = snd sample_infos,
     pl_sorted_policy = [[''w'']], pl_sorted_rollout = [[''w'']], pl_pp_rank_map_policy = [0, 0], pl_pp_rank_map_rollout = [0, 0],
     pl_param_to_groups = [], pl_param_groups = []\<rparr>"

lemma sample_plan_simps:
  "plan_infos sample_plan = sample_infos" "pl_param_to_groups sample_plan = []" "pl_param_groups sample_plan = []"
  "item (pl_pp_rank_map_policy sample_plan) 1 = Inr 0" "item (pl_sorted_policy sample_plan) 0 = Inr [''w'']"
  "item (pl_policy_infos sample_plan) 1 = Inr (fst sample_infos ! 1)"
  "item (pl_pp_rank_map_rollout sample_plan) 0 = Inr 0" "item (pl_sorted_rollout sample_plan) 0 = Inr [''w'']"
  "item (pl_rollout_infos sample_plan) 0 = Inr (snd sample_infos ! 0)"
  by (simp_all add: plan_infos_def sample_plan_def item_def sample_infos_def)

lemma sample_plan_insts:
  "\<exists>out ins. map si_rollout_rank out = [0, 1] \<and> map si_policy_rank ins = [0, 1]
     \<and> generate_send_insts sample_plan 1 = Inr [[\<lparr>pi_param_name = ''w'', pi_instructions = out\<rparr>]]
     \<and> generate_recv_insts sample_plan 0 = Inr [[\<lparr>pi_param_name = ''w'', pi_instructions = ins\<rparr>]]"
proof -
  have get: "dict_get (fst sample_infos ! 1) ''w'' = Some (half 1)" "dict_get (snd sample_infos ! 0) ''w'' = Some []"
    by (simp_all add: sample_infos_def dict_get_def)
  obtain out where out: "send_param sample_infos ''w'' 1 (half 1) = Inr out" "map si_rollout_rank out = [0, 1]"
    using sample_send by auto
  obtain ins where ins: "recv_param sample_infos ''w'' 0 [] = Inr ins" "map si_policy_rank ins = [0, 1]"
    using sample_recv by auto
  have "out \<noteq> []" "ins \<noteq> []" using out(2) ins(2) by auto
  have "generate_send_insts sample_plan 1 = Inr [[\<lparr>pi_param_name = ''w'', pi_instructions = out\<rparr>]]"
    using \<open>out \<noteq> []\<close>
    by (simp only: generate_send_insts_def send_single_def sample_plan_simps get out(1) ebind_simps efold.simps option.case dict_get_Nil) simp
  moreover have "generate_recv_insts sample_plan 0 = Inr [[\<lparr>pi_param_name = ''w'', pi_instructions = ins\<rparr>]]"
    using \<open>ins \<noteq> []\<close>
    by (simp only: generate_recv_insts_def recv_single_def name_in_group_def sample_plan_simps get ins(1) ebind_simps efold.simps
        option.case dict_get_Nil) (simp add: ensure_def)
  ultimately show ?thesis using out(2) ins(2) by (intro exI conjI)
qed

theorem transfers_in_order_witness:
  "\<exists>S T. generate_send_insts sample_plan 1 = Inr S \<and> generate_recv_insts sample_plan 0 = Inr T
     \<and> map fst (filter (\<lambda>(n, i). si_rollout_rank i = 0) (in_order S)) = [''w'']
     \<and> map fst (filter (\<lambda>(n, i). si_policy_rank i = 1) (in_order T)) = [''w'']"
proof -
  obtain out ins :: "sync_inst list" where out: "map si_rollout_rank out = [0, 1]"
    and S: "generate_send_insts sample_plan 1 = Inr [[\<lparr>pi_param_name = ''w'', pi_instructions = out\<rparr>]]"
    and T: "generate_recv_insts sample_plan 0 = Inr [[\<lparr>pi_param_name = ''w'', pi_instructions = ins\<rparr>]]"
    using sample_plan_insts by (elim exE conjE) (rule that)
  have "map fst (filter (\<lambda>(n, i). si_rollout_rank i = 0) (map (Pair ''w'') out)) = [''w'']"
    using out by (auto simp: map_eq_Cons_conv)
  moreover have "map fst (filter (\<lambda>(n, i). si_rollout_rank i = 0) (in_order [[\<lparr>pi_param_name = ''w'', pi_instructions = out\<rparr>]]))
    = map fst (filter (\<lambda>(n, i). si_policy_rank i = 1) (in_order [[\<lparr>pi_param_name = ''w'', pi_instructions = ins\<rparr>]]))"
    by (rule transfers_in_order [OF S T refl refl]) (simp_all add: sample_plan_def sample_infos_def dict_keys_def)
  ultimately show ?thesis using S T by (simp add: in_order_simps)
qed

end
