(* ===== verification/Py_Strings.thy ===== *)
theory Py_Strings
  imports Py_Base "HOL-Library.Sublist"
begin

text \<open>The methods of Python's \<open>str\<close> that the sources use, on strings as lists of characters: \<open>in\<close>,
  \<open>replace\<close>, \<open>split\<close> at a character, \<open>isdigit\<close> and \<open>int\<close> of a string of digits.\<close>

fun contains :: "string \<Rightarrow> string \<Rightarrow> bool" where
  "contains sub [] \<longleftrightarrow> sub = []"
| "contains sub (c # cs) \<longleftrightarrow> prefix sub (c # cs) \<or> contains sub cs"

text \<open>\<open>replace\<close> goes from left to right and does not look into what it has put in; an empty pattern
  matches before every character and at the end.\<close>

function replace_nonempty :: "string \<Rightarrow> string \<Rightarrow> string \<Rightarrow> string" where
  "replace_nonempty old new [] = []"
| "replace_nonempty old new (c # cs) =
     (if old \<noteq> [] \<and> prefix old (c # cs) then new @ replace_nonempty old new (drop (length old) (c # cs))
      else c # replace_nonempty old new cs)"
  by pat_completeness auto
termination
proof (relation "measure (\<lambda>(old, new, s). length s)")
  fix old new :: string and c cs
  assume "old \<noteq> [] \<and> prefix old (c # cs)"
  then show "((old, new, drop (length old) (c # cs)), (old, new, c # cs)) \<in> measure (\<lambda>(old, new, s). length s)"
    by (cases old) auto
qed auto

definition py_replace :: "string \<Rightarrow> string \<Rightarrow> string \<Rightarrow> string" where
  "py_replace s old new = (if old = [] then new @ concat (map (\<lambda>c. c # new) s) else replace_nonempty old new s)"

fun py_split :: "char \<Rightarrow> string \<Rightarrow> string list" where
  "py_split sep [] = [[]]"
| "py_split sep (c # cs) =
     (if c = sep then [] # py_split sep cs
      else (case py_split sep cs of [] \<Rightarrow> [[c]] | w # ws \<Rightarrow> (c # w) # ws))"

definition is_digit :: "char \<Rightarrow> bool" where
  "is_digit c \<longleftrightarrow> 48 \<le> (of_char c :: nat) \<and> of_char c \<le> (57 :: nat)"

definition py_isdigit :: "string \<Rightarrow> bool" where
  "py_isdigit s \<longleftrightarrow> s \<noteq> [] \<and> list_all is_digit s"

lemma contains_iff: "contains sub s \<longleftrightarrow> sublist sub s"
proof (induction s)
  case (Cons c s)
  then show ?case by (simp add: sublist_Cons_right)
qed simp

lemma split_nonempty: "py_split sep s \<noteq> []"
  by (induction s) (auto split: list.split)

lemma split_parts: "concat (map (\<lambda>w. w @ [sep]) (py_split sep s)) = s @ [sep]"
proof (induction s)
  case (Cons c s)
  then show ?case using split_nonempty [of sep s] by (auto split: list.splits)
qed simp

lemma split_no_sep: "w \<in> set (py_split sep s) \<Longrightarrow> sep \<notin> set w"
proof (induction s arbitrary: w)
  case (Cons c s)
  then show ?case using split_nonempty [of sep s] by (auto split: list.splits if_splits)
qed simp

lemma replace_absent: "\<not> contains old s \<Longrightarrow> old \<noteq> [] \<Longrightarrow> py_replace s old new = s"
proof -
  assume "\<not> contains old s" "old \<noteq> []"
  then have "replace_nonempty old new s = s" by (induction s) auto
  with \<open>old \<noteq> []\<close> show ?thesis by (simp add: py_replace_def)
qed

end
