(* ===== verification/Topo_Mapper.thy ===== *)
theory Topo_Mapper
  imports Weight_Sync Arith_Utils Py_Strings
begin

text \<open>How a rank finds out which shard of each parameter it holds, \<open>ParallelTopoMapper\<close> and
  \<open>ParallelTopoMapperGroup\<close> of src/cosmos\_rl/utils/parallelism\_map.py: from the coordinates of the rank
  and either a strategy of the model, the placements of its distributed tensors, or the kinds of its
  vLLM layers. What a model brings along (its weight mapper, its parameters, its layers) is given as data.\<close>

section \<open>Coordinates as slices\<close>

definition ordered_dims :: "string list" where
  "ordered_dims = [''tp'', ''dp_shard_cp'', ''dp_cp_tp'']"

definition get_full_mesh_rank_info :: "parallel_dims \<Rightarrow> nat \<Rightarrow> error + (string, slice) dict" where
  "get_full_mesh_rank_info p global_rank =
     efold (\<lambda>d info. ebind (get_rank_in_dim p d global_rank) (\<lambda>r. ebind (get_size_in_dim p d) (\<lambda>n.
       Inr (dict_set d (mk_slice r n d 1) info)))) (ordered_dims @ [''pp'']) []"

definition shard_info_at_dim :: "(string, slice) dict \<Rightarrow> string \<Rightarrow> slice" where
  "shard_info_at_dim rank_infos d = (case dict_get rank_infos d of None \<Rightarrow> mk_slice 0 1 d 1 | Some s \<Rightarrow> s)"

text \<open>Missing coordinates are put into the dictionary, which the caller keeps.\<close>

definition with_default :: "string \<Rightarrow> (string, slice) dict \<Rightarrow> (string, slice) dict" where
  "with_default d info = (if d \<in> set (dict_keys info) then info else dict_set d (mk_slice 0 1 d 1) info)"

definition merged_shard_info_at_dim :: "(string, slice) dict \<Rightarrow> error + slice \<times> (string, slice) dict" where
  "merged_shard_info_at_dim rank_info =
     (let info = with_default (ordered_dims ! 1) (with_default (ordered_dims ! 0) rank_info) in
      ebind (merge_rank (shard_info_at_dim info (ordered_dims ! 0)) (shard_info_at_dim info (ordered_dims ! 1)))
        (\<lambda>s. Inr (s, info)))"

definition get_global_ranks_for_given_mesh_rank :: "parallel_dims \<Rightarrow> (string, int) dict \<Rightarrow> error + nat list" where
  "get_global_ranks_for_given_mesh_rank p mesh_rank =
     (if mesh_rank = [] then Inr [0..<nat (pd_world_size p)]
      else efold (\<lambda>rank acc. ebind (efold (\<lambda>(d, dimr) bs. ebind (get_rank_in_dim p d rank) (\<lambda>r. Inr (bs @ [r = dimr])))
               mesh_rank []) (\<lambda>bs. Inr (if list_all (\<lambda>b. b) bs then acc @ [rank] else acc)))
             [0..<nat (pd_world_size p)] [])"

definition duplicate_ranks_at_given_dimensions :: "parallel_dims \<Rightarrow> string list \<Rightarrow> nat \<Rightarrow> error + nat list" where
  "duplicate_ranks_at_given_dimensions p dims global_rank =
     ebind (efold (\<lambda>d m. ebind (get_rank_in_dim p d global_rank) (\<lambda>r. Inr (dict_set d r m))) dims [])
       (get_global_ranks_for_given_mesh_rank p)"

text \<open>From the mesh dimensions that shard each dimension of a parameter to the slices of the rank.\<close>

definition local_shard_at ::
  "nat \<times> string list \<Rightarrow> shard_info \<times> (string, slice) dict \<Rightarrow> error + shard_info \<times> (string, slice) dict" where
  "local_shard_at = (\<lambda>(idx, dims) (info, ranks).
     (if length dims = 1 then Inr (dict_set idx (to_dict (shard_info_at_dim ranks (dims ! 0))) info, ranks)
      else if length dims = 2 then
        ensure AssertionError (ordered_dims ! 2 \<notin> set dims)
        (ensure AssertionError (ordered_dims ! 0 \<in> set dims \<and> ordered_dims ! 1 \<in> set dims)
          (ebind (merged_shard_info_at_dim ranks) (\<lambda>(s, ranks). Inr (dict_set idx (to_dict s) info, ranks))))
      else Inl ValueError))"

definition generate_local_shard_info ::
  "(nat, string list) dict \<Rightarrow> (string, slice) dict \<Rightarrow> error + shard_info \<times> (string, slice) dict" where
  "generate_local_shard_info dim_to_parallel rank_info = efold local_shard_at dim_to_parallel ([], rank_info)"

section \<open>What is known of each parameter\<close>

record param_shards =
  ps_dims_map :: "(string, nat) dict"
  ps_dim_to_parallel :: "(nat, string list) dict"
  ps_pp_rank :: int
  ps_slices :: "shard_info option"

text \<open>The functions a model's weight mapper provides.\<close>

record weight_mapper =
  wm_policy_key :: "string \<Rightarrow> string"
  wm_rollout_key :: "string \<Rightarrow> string"
  wm_decompose :: "string \<Rightarrow> (string \<times> (int, slice_dict) dict) list"
  wm_packed :: "(string, string list) dict"
  wm_part_index :: "string \<Rightarrow> nat"

type_synonym shard_strategy =
  "int \<Rightarrow> string \<Rightarrow> (string, nat) dict option \<times> (nat, string list) dict option \<times> int option"

record topo_mapper =
  tm_dims :: parallel_dims
  tm_strategy :: "shard_strategy option"
  tm_rank_infos :: "(string, slice) dict list"
  tm_weight_mapper :: weight_mapper
  tm_is_policy :: bool
  tm_backend :: string
  tm_infos :: "(string, param_shards) dict option"

definition topo_mapper_init ::
  "parallel_dims \<Rightarrow> shard_strategy option \<Rightarrow> weight_mapper \<Rightarrow> bool \<Rightarrow> string \<Rightarrow> error + topo_mapper" where
  "topo_mapper_init p strategy wm is_policy backend =
     ebind (efold (\<lambda>r infos. ebind (get_full_mesh_rank_info p r) (\<lambda>i. Inr (infos @ [i]))) [0..<nat (pd_world_size p)] [])
       (\<lambda>infos. Inr \<lparr>tm_dims = p, tm_strategy = strategy, tm_rank_infos = infos, tm_weight_mapper = wm,
          tm_is_policy = is_policy, tm_backend = backend, tm_infos = None\<rparr>)"

text \<open>The mesh dimensions of each tensor dimension, in the order of the dictionary.\<close>

definition dim_to_parallel :: "(string, nat) dict \<Rightarrow> (nat, string list) dict" where
  "dim_to_parallel dims_map = fold (\<lambda>(k, v) m. dict_set v ((case dict_get m v of None \<Rightarrow> [] | Some ks \<Rightarrow> ks) @ [k]) m) dims_map []"

text \<open>The first packed module whose name occurs is unpacked into its parts.\<close>

fun packed_names :: "string \<Rightarrow> bool \<Rightarrow> (string, string list) dict \<Rightarrow> error + string list option" where
  "packed_names hf_name given [] = Inr None"
| "packed_names hf_name given ((k, v) # rest) =
     ensure AssertionError (\<not> given)
       (if contains k hf_name then Inr (Some (map (py_replace hf_name k) v)) else packed_names hf_name given rest)"

definition insert_to_parallelism_info ::
  "int \<Rightarrow> string \<Rightarrow> (string, nat) dict \<Rightarrow> (string \<Rightarrow> string) \<Rightarrow> (string, string list) dict \<Rightarrow> shard_info option \<Rightarrow>
   (string, param_shards) dict \<Rightarrow> error + (string, param_shards) dict" where
  "insert_to_parallelism_info p_rank param_name dims_map name_to_hf packed slices infos =
     (let entry = \<lparr>ps_dims_map = dims_map, ps_dim_to_parallel = dim_to_parallel dims_map, ps_pp_rank = p_rank, ps_slices = slices\<rparr>;
          hf_name = name_to_hf param_name in
      ebind (packed_names hf_name (slices \<noteq> None) packed) (\<lambda>names. case names of
          Some ns \<Rightarrow> Inr (fold (\<lambda>n. dict_set n entry) ns infos)
        | None \<Rightarrow> Inr (dict_set hf_name entry infos)))"

section \<open>Distributed tensors\<close>

text \<open>A parameter: its name, what is read of its tensor, and the number of its local elements. The
  dimensions that a weight mapper gives may count from the end.\<close>

type_synonym dtensor_param = "string \<times> param_meta \<times> nat"

definition normalise_slices :: "nat \<Rightarrow> (int, slice_dict) dict \<Rightarrow> (nat, slice_dict) dict" where
  "normalise_slices n part = fold (\<lambda>(k, v). dict_set (nat (if k < 0 then int n + k else k)) v) part []"

fun split_part :: "(nat, slice_dict) dict \<Rightarrow> shard_info \<Rightarrow> nat \<Rightarrow> nat list \<Rightarrow> error + shard_info option" where
  "split_part part ranks n [] = Inr (Some [])"
| "split_part part ranks n (d # ds) =
     ebind (case dict_get part d of None \<Rightarrow> Inr (mk_slice 0 1 [] 1) | Some v \<Rightarrow> from_dict v) (\<lambda>dim_slice.
     ebind (case dict_get ranks d of None \<Rightarrow> ensure AssertionError (d < n) (Inr (mk_slice 0 1 [] 1)) | Some v \<Rightarrow> from_dict v)
       (\<lambda>local_part.
     ebind (tensor_overlap_info_at_dim [d \<mapsto> dim_slice] [d \<mapsto> local_part] d) (\<lambda>ov. case ov of None \<Rightarrow> Inr None
       | Some (in_splited, in_local) \<Rightarrow> ebind (split_part part ranks n ds) (\<lambda>rest. case rest of None \<Rightarrow> Inr None
           | Some r \<Rightarrow> Inr (Some ((d, to_dict in_splited) # r))))))"

definition insert_part ::
  "weight_mapper \<Rightarrow> int \<Rightarrow> (string, nat) dict \<Rightarrow> shard_info \<Rightarrow> nat \<Rightarrow> string \<times> (int, slice_dict) dict \<Rightarrow>
   (string, param_shards) dict \<Rightarrow> error + (string, param_shards) dict" where
  "insert_part wm p_rank dims_map ranks n = (\<lambda>(part_name, part_slice) infos.
     (let part = normalise_slices n part_slice in
      ebind (split_part part ranks n (dict_keys part @ filter (\<lambda>k. k \<notin> set (dict_keys part)) (dict_keys ranks)))
        (\<lambda>r. case r of None \<Rightarrow> Inr infos
         | Some s \<Rightarrow> insert_to_parallelism_info p_rank part_name dims_map (wm_policy_key wm) [] (Some s) infos)))"

definition insert_dtensor ::
  "weight_mapper \<Rightarrow> int \<Rightarrow> dtensor_param \<Rightarrow> (string, param_shards) dict \<Rightarrow> error + (string, param_shards) dict" where
  "insert_dtensor wm p_rank = (\<lambda>(local_name, param, numel) infos.
     (if is_dtensor param \<and> numel = 0 then Inr infos
      else ebind (extract_infomation_from_dtensor param) (\<lambda>(ranks, dims_map).
        (let parts = wm_decompose wm (wm_policy_key wm local_name) in
         if parts \<noteq> [] then efold (insert_part wm p_rank dims_map ranks (length (global_shape param))) parts infos
         else insert_to_parallelism_info p_rank local_name dims_map (wm_policy_key wm) [] (Some ranks) infos))))"

definition parallelism_info_for_dtensor_params :: "(string \<Rightarrow> int) \<Rightarrow> dtensor_param list \<Rightarrow> topo_mapper \<Rightarrow> error + topo_mapper" where
  "parallelism_info_for_dtensor_params mesh_rank params tm =
     (if tm_infos tm \<noteq> None then Inr tm
      else ebind (efold (insert_dtensor (tm_weight_mapper tm) (fst (pp_coord mesh_rank (tm_dims tm)))) params [])
        (\<lambda>infos. Inr (tm\<lparr>tm_infos := Some infos\<rparr>)))"

section \<open>The layers of a vLLM model\<close>

text \<open>The class of a layer, as the checks with \<open>isinstance\<close> tell it: of the listed ones the first that
  applies. Of the quantisation of a mixture of experts its presence and whether it is MXFP4 are read.\<close>

datatype tp_mode = Column_Mode | Row_Mode | Other_Mode

datatype layer_kind =
    QKV_Parallel_Linear
  | Merged_Column_Parallel_Linear
  | Row_Parallel_Linear
  | Column_Parallel_Linear
  | Vocab_Parallel_Embedding
  | OAI_Attention
  | Fused_MoE (quant_method: "bool option")
  | Trtllm_Linear tp_mode
  | Other_Layer (class_name: string)

text \<open>An attribute of a parameter may be missing, or there and \<open>None\<close>.\<close>

record vllm_param =
  vp_output_dim :: "nat option option"
  vp_input_dim :: "nat option option"
  vp_shape :: "int list"

definition getattr_dim :: "nat option option \<Rightarrow> nat \<Rightarrow> nat option" where
  "getattr_dim a d = (case a of None \<Rightarrow> Some d | Some v \<Rightarrow> v)"

record hf_config =
  hc_model_type :: string
  hc_intermediate_size :: int

text \<open>The slices of an MXFP4 parameter of GPT-OSS, from src/cosmos\_rl/utils/mxfp4/quantizer.py.\<close>

definition moe_tp_dim :: "string \<Rightarrow> nat option \<times> int" where
  "moe_tp_dim param_name =
     (if contains ''w13_weight'' param_name then (Some 1, 2)
      else if contains ''w2_weight'' param_name then (Some 2, 1)
      else if contains ''w13_bias'' param_name then (Some 1, 2)
      else (None, 1))"

definition genereate_dim_rank_info ::
  "bool option \<Rightarrow> string \<Rightarrow> int list \<Rightarrow> int \<Rightarrow> int \<times> int \<Rightarrow> error + shard_info \<times> nat option" where
  "genereate_dim_rank_info quant param_name sh intermediate_size tp_pos =
     (let (tp_rank, tp_size) = tp_pos; (tp_dim, scale_factor) = moe_tp_dim param_name in
      ensure AssertionError (quant \<noteq> None)
      (ensure AssertionError (quant = Some True)
      (ebind (cdiv (intermediate_size div 32) tp_size) (\<lambda>blocks.
        (let per_rank = blocks * 32;
             tp_rank_start = tp_rank * per_rank;
             tp_rank_end = min ((tp_rank + 1) * per_rank) intermediate_size
         in Inr (map (\<lambda>(idx, g_size). (idx, to_dict (if Some idx = tp_dim
                   then mk_slice (scale_factor * tp_rank_start) (scale_factor * intermediate_size) []
                          (scale_factor * (tp_rank_end - tp_rank_start))
                   else mk_slice 0 g_size [] g_size))) (enumerate 0 sh), tp_dim))))))"

text \<open>The dimension that tensor parallelism splits, for a layer that is not parallel \<open>None\<close>; slices and
  packed modules are settled here as well.\<close>

definition not_parallel :: "layer_kind \<Rightarrow> error + nat option" where
  "not_parallel part =
     ensure AssertionError (case part of Other_Layer nm \<Rightarrow> \<not> contains ''Parallel'' nm | _ \<Rightarrow> True) (Inr None)"

definition is_packed :: "weight_mapper \<Rightarrow> string \<Rightarrow> bool" where
  "is_packed wm param_name \<longleftrightarrow> list_ex (\<lambda>k. contains k param_name) (dict_keys (wm_packed wm))"

definition vllm_tp_dim :: "weight_mapper \<Rightarrow> hf_config \<Rightarrow> int \<times> int \<Rightarrow> layer_kind \<Rightarrow> vllm_param \<Rightarrow> string \<Rightarrow> bool \<Rightarrow>
    error + nat option \<times> shard_info option \<times> (string, string list) dict" where
  "vllm_tp_dim wm hf tp_pos part param param_name is_bias =
     (let plain = (\<lambda>t. Inr (t, None, wm_packed wm)); out = getattr_dim (vp_output_dim param) 0 in
      case part of
        QKV_Parallel_Linear \<Rightarrow> ensure AssertionError (is_packed wm param_name) (plain out)
      | Merged_Column_Parallel_Linear \<Rightarrow> ensure AssertionError (is_packed wm param_name) (plain out)
      | Row_Parallel_Linear \<Rightarrow>
          (if is_bias then plain None
           else (case getattr_dim (vp_input_dim param) 1 of None \<Rightarrow> Inl AssertionError | Some d \<Rightarrow> plain (Some d)))
      | Column_Parallel_Linear \<Rightarrow> plain out
      | Vocab_Parallel_Embedding \<Rightarrow> ensure AssertionError (\<not> is_bias) (plain out)
      | _ \<Rightarrow>
          (if contains ''gpt_oss'' (hc_model_type hf) then
            (case part of
               OAI_Attention \<Rightarrow> plain (if contains ''sinks'' param_name then Some 0 else None)
             | Fused_MoE quant \<Rightarrow>
                 ebind (genereate_dim_rank_info quant param_name (vp_shape param) (hc_intermediate_size hf) tp_pos)
                   (\<lambda>(slices, tp_dim). Inr (tp_dim, Some slices, []))
             | _ \<Rightarrow> ebind (not_parallel part) plain)
           else ebind (not_parallel part) plain))"

definition trtllm_tp_dim :: "layer_kind \<Rightarrow> nat option" where
  "trtllm_tp_dim part = (case part of Trtllm_Linear Column_Mode \<Rightarrow> Some 0 | Trtllm_Linear Row_Mode \<Rightarrow> Some 1 | _ \<Rightarrow> None)"

definition determine_tp_dim :: "weight_mapper \<Rightarrow> hf_config \<Rightarrow> int \<times> int \<Rightarrow> string \<Rightarrow> layer_kind \<Rightarrow> vllm_param \<Rightarrow> string \<Rightarrow> bool \<Rightarrow>
    error + nat option \<times> shard_info option \<times> (string, string list) dict" where
  "determine_tp_dim wm hf tp_pos backend part param param_name is_bias =
     (if contains ''vllm'' backend then vllm_tp_dim wm hf tp_pos part param param_name is_bias
      else if backend = ''trtllm'' then Inr (trtllm_tp_dim part, None, wm_packed wm)
      else Inl ValueError)"

text \<open>The modules of a model as a tree: attributes by name, and children by index.\<close>

datatype module =
    Parameter
  | Module (kind: layer_kind) (attributes: "(string \<times> module) list") (children: "module list")

definition part_is_bias :: "string \<Rightarrow> bool \<Rightarrow> bool" where
  "part_is_bias part_name is_bias =
     (if part_name \<in> {''bias'', ''class_embedding'', ''mm_input_projection_weight''} then True
      else if part_name \<in> {''weight'', ''w13_weight'', ''w2_weight'', ''w13_bias'', ''w2_bias'', ''sinks''} then False
      else is_bias)"

text \<open>\<open>_scale\<close> in the name of a parameter is only asked for names that none of the others is.\<close>

definition should_skip :: "string \<Rightarrow> bool" where
  "should_skip part_name \<longleftrightarrow> contains ''_scale'' part_name"

definition the_kind :: "module \<Rightarrow> layer_kind" where
  "the_kind m = (case m of Parameter \<Rightarrow> Other_Layer ''Parameter'' | Module k _ _ \<Rightarrow> k)"

definition attrs_of :: "module \<Rightarrow> (string, module) dict" where
  "attrs_of m = (case m of Parameter \<Rightarrow> [] | Module _ as _ \<Rightarrow> as)"

definition children_of :: "module \<Rightarrow> module list" where
  "children_of m = (case m of Parameter \<Rightarrow> [] | Module _ _ cs \<Rightarrow> cs)"

text \<open>Following the parts of a name to the layer of its parameter: the layer, whether the parameter is a
  bias, and whether it is to be left out.\<close>

fun find_layer :: "module \<Rightarrow> string list \<Rightarrow> error + layer_kind \<times> bool \<times> bool" where
  "find_layer part [] = Inr (the_kind part, False, False)"
| "find_layer part (name # names) =
     (case dict_get (attrs_of part) name of
        Some Parameter \<Rightarrow> Inr (the_kind part, part_is_bias name False, should_skip name)
      | Some m \<Rightarrow> find_layer m names
      | None \<Rightarrow>
          (if py_isdigit name then
            (let i = digits_value name in
             if i < length (children_of part) then find_layer (children_of part ! i) names else Inl IndexError)
           else Inl ValueError))"

definition insert_vllm_param ::
  "topo_mapper \<Rightarrow> (string \<Rightarrow> int) \<Rightarrow> hf_config \<Rightarrow> module \<Rightarrow> string \<times> vllm_param \<Rightarrow> (string, param_shards) dict \<Rightarrow>
   error + (string, param_shards) dict" where
  "insert_vllm_param tm mesh_rank hf model = (\<lambda>(param_name, param) infos.
     ebind (find_layer model (py_split CHR ''.'' param_name)) (\<lambda>(part, is_bias, skip).
       if skip then Inr infos
       else ebind (determine_tp_dim (tm_weight_mapper tm) hf (tp_coord mesh_rank (tm_dims tm)) (tm_backend tm) part param param_name is_bias)
         (\<lambda>(tp_dim, slices, packed).
           insert_to_parallelism_info (fst (pp_coord mesh_rank (tm_dims tm))) param_name
             (case tp_dim of None \<Rightarrow> [] | Some d \<Rightarrow> [(''tp'', d)]) (wm_rollout_key (tm_weight_mapper tm)) packed slices infos)))"

definition parallelism_info_for_vllm_params ::
  "(string \<Rightarrow> int) \<Rightarrow> hf_config \<Rightarrow> module \<Rightarrow> (string \<times> vllm_param) list \<Rightarrow> topo_mapper \<Rightarrow> error + topo_mapper" where
  "parallelism_info_for_vllm_params mesh_rank hf model params tm =
     ensure AssertionError (\<not> tm_is_policy tm)
     (if tm_infos tm \<noteq> None then Inr tm
      else ebind (efold (insert_vllm_param tm mesh_rank hf model) params []) (\<lambda>infos. Inr (tm\<lparr>tm_infos := Some infos\<rparr>)))"

section \<open>The shards of a rank\<close>

text \<open>What a model presents to the mapper: its parameters as distributed tensors or as layers.\<close>

record model_view =
  mv_dtensors :: "dtensor_param list"
  mv_module :: module
  mv_vllm_params :: "(string \<times> vllm_param) list"
  mv_hf :: hf_config

definition parallelism_info_for_param ::
  "topo_mapper \<Rightarrow> string \<Rightarrow> (string, nat) dict option \<times> (nat, string list) dict option \<times> int option \<times> shard_info option" where
  "parallelism_info_for_param tm param_name =
     (case tm_infos tm of None \<Rightarrow> (None, None, None, None)
      | Some infos \<Rightarrow> (case dict_get infos param_name of None \<Rightarrow> (None, None, None, None)
          | Some e \<Rightarrow> (Some (ps_dims_map e), Some (ps_dim_to_parallel e), Some (ps_pp_rank e), ps_slices e)))"

text \<open>One parameter: a strategy that gives nothing at all falls back to what is known of the parameter;
  if nothing is known, or its pipeline stage is not the rank's, it is left out.\<close>

definition shards_of_param ::
  "topo_mapper \<Rightarrow> nat \<Rightarrow> string \<times> int \<Rightarrow> (string, slice) dict list \<Rightarrow> error + shard_info option \<times> (string, slice) dict list" where
  "shards_of_param tm global_rank = (\<lambda>(dest_name, n_dims) infos.
     (let (dims_map, to_parallel, pp_rank) =
            (case tm_strategy tm of None \<Rightarrow> (None, None, None) | Some f \<Rightarrow> f n_dims dest_name);
          (dims_map, to_parallel, pp_rank, slices) =
            (if dims_map = None \<and> to_parallel = None \<and> pp_rank = None then parallelism_info_for_param tm dest_name
             else (dims_map, to_parallel, pp_rank, None)) in
      if dims_map = None \<and> to_parallel = None \<and> pp_rank = None then Inr (None, infos)
      else ebind (item infos global_rank) (\<lambda>ranks.
        (case dict_get ranks ''pp'' of None \<Rightarrow> Inl KeyError
         | Some pp \<Rightarrow>
             if Some (offset pp) \<noteq> pp_rank then Inr (None, infos)
             else (case slices of Some s \<Rightarrow> Inr (Some s, infos)
               | None \<Rightarrow> (case to_parallel of None \<Rightarrow> Inl AttributeError
                   | Some m \<Rightarrow> ebind (generate_local_shard_info m ranks) (\<lambda>(info, ranks).
                       Inr (Some info, infos[global_rank := ranks]))))))))"

definition local_shard_step ::
  "topo_mapper \<Rightarrow> nat \<Rightarrow> string \<times> int \<Rightarrow> rank_infos \<times> (string, slice) dict list \<Rightarrow>
   error + rank_infos \<times> (string, slice) dict list" where
  "local_shard_step tm global_rank x = (\<lambda>(all, infos). ebind (shards_of_param tm global_rank x infos) (\<lambda>(info, infos).
     Inr (case info of None \<Rightarrow> all | Some i \<Rightarrow> dict_set (fst x) i all, infos)))"

definition analyse_params :: "(string \<Rightarrow> int) \<Rightarrow> model_view \<Rightarrow> topo_mapper \<Rightarrow> error + topo_mapper" where
  "analyse_params mesh_rank mv tm =
     (if \<not> tm_is_policy tm \<and> contains ''vllm'' (tm_backend tm)
      then parallelism_info_for_vllm_params mesh_rank (mv_hf mv) (mv_module mv) (mv_vllm_params mv) tm
      else parallelism_info_for_dtensor_params mesh_rank (mv_dtensors mv) tm)"

definition local_shard_info_for_params ::
  "(string \<Rightarrow> int) \<Rightarrow> model_view \<Rightarrow> (string \<times> int) list \<Rightarrow> nat \<Rightarrow> topo_mapper \<Rightarrow> error + rank_infos \<times> topo_mapper" where
  "local_shard_info_for_params mesh_rank mv params global_rank tm =
     ebind (analyse_params mesh_rank mv tm) (\<lambda>tm.
     ebind (efold (local_shard_step tm global_rank) params ([], tm_rank_infos tm)) (\<lambda>(all, infos).
       Inr (all, tm\<lparr>tm_rank_infos := infos\<rparr>)))"

section \<open>The parts of a model\<close>

text \<open>A mapper for each part of the model that has a strategy of its own, one in all without strategies.\<close>

definition topo_group_init ::
  "parallel_dims \<Rightarrow> shard_strategy list \<Rightarrow> weight_mapper \<Rightarrow> bool \<Rightarrow> string \<Rightarrow> error + topo_mapper list" where
  "topo_group_init p strategies wm is_policy backend =
     (if strategies \<noteq> [] then
        efold (\<lambda>f tms. ebind (topo_mapper_init p (Some f) wm is_policy backend) (\<lambda>tm. Inr (tms @ [tm]))) strategies []
      else ebind (topo_mapper_init p None wm is_policy backend) (\<lambda>tm. Inr [tm]))"

definition cluster_params_by_model_part ::
  "weight_mapper \<Rightarrow> nat \<Rightarrow> (string \<times> int) list \<Rightarrow> error + (string \<times> int) list list" where
  "cluster_params_by_model_part wm n params =
     (if n = 1 then Inr [params]
      else efold (\<lambda>(name, rank) x. ebind (item x (wm_part_index wm name)) (\<lambda>ps.
             Inr (x[wm_part_index wm name := ps @ [(name, rank)]]))) params (replicate n []))"

definition prepare_part ::
  "(string \<Rightarrow> int) \<Rightarrow> model_view \<Rightarrow> nat \<Rightarrow> nat \<times> (string \<times> int) list \<Rightarrow> rank_infos \<times> topo_mapper list \<Rightarrow>
   error + rank_infos \<times> topo_mapper list" where
  "prepare_part mesh_rank mv global_rank = (\<lambda>(model_index, ps) (insts, tms).
     ebind (item tms model_index) (\<lambda>tm. ebind (local_shard_info_for_params mesh_rank mv ps global_rank tm) (\<lambda>(new, tm).
       Inr (fold (\<lambda>(n, i). dict_set n i) new insts, tms[model_index := tm]))))"

definition prepare_local_shard_infos ::
  "(string \<Rightarrow> int) \<Rightarrow> model_view \<Rightarrow> weight_mapper \<Rightarrow> (string \<times> int) list \<Rightarrow> nat \<Rightarrow> topo_mapper list \<Rightarrow>
   error + rank_infos \<times> topo_mapper list" where
  "prepare_local_shard_infos mesh_rank mv wm hf_key_n_rank global_rank tms =
     ebind (cluster_params_by_model_part wm (length tms) hf_key_n_rank) (\<lambda>x.
       efold (prepare_part mesh_rank mv global_rank) (enumerate 0 x) ([], tms))"

section \<open>Which ranks hold the same shard\<close>

definition mesh_size :: "parallel_dims \<Rightarrow> string \<Rightarrow> int" where
  "mesh_size p d =
     (if d = ''tp'' then pd_tp p else if d = ''dp_shard_cp'' then pd_dp_shard p * pd_cp p
      else if d = ''dp_cp_tp'' then pd_dp_replicate p * pd_dp_shard p * pd_cp p * pd_tp p else pd_pp p)"

definition pos :: "parallel_dims \<Rightarrow> nat \<Rightarrow> string \<Rightarrow> int" where
  "pos p g d = (case get_rank_in_dim p d g of Inl e \<Rightarrow> 0 | Inr r \<Rightarrow> r)"

definition mesh_dims :: "string list" where
  "mesh_dims = ordered_dims @ [''pp'']"

text \<open>A mesh as its constructor leaves it.\<close>

definition built :: "splitter \<Rightarrow> parallel_dims \<Rightarrow> bool" where
  "built split p \<longleftrightarrow> array_split_spec split \<and> (\<exists>q. post_init_dims split q = Inr p)"

lemma built_accepted: "built split p \<Longrightarrow> accepted p"
  unfolding built_def post_init_dims_def by (auto simp: ebind_Inr_iff accepted_build dest: validate_dims_accepted)

lemma built_size: "built split p \<Longrightarrow> d \<in> set mesh_dims \<Longrightarrow> get_size_in_dim p d = Inr (mesh_size p d)"
  unfolding built_def post_init_dims_def mesh_dims_def ordered_dims_def
  by (auto simp: ebind_Inr_iff get_size_in_dim_def mesh_size_def build_mesh_info_def dim_paras_def dict_get_def Let_def split_beta)

lemma built_pos:
  assumes "built split p" "int g < pd_world_size p" "d \<in> set mesh_dims"
  shows "get_rank_in_dim p d g = Inr (pos p g d)" "0 \<le> pos p g d" "pos p g d < mesh_size p d"
proof -
  obtain q where q: "array_split_spec split" "post_init_dims split q = Inr p" using assms(1) by (auto simp: built_def)
  note digits = coords_of_mesh [OF q assms(2)]
  define A where "A = pd_dp_replicate p * pd_dp_shard p * pd_cp p * pd_tp p"
  have ge: "1 \<le> pd_tp p" "1 \<le> pd_cp p" "1 \<le> pd_dp_shard p" "1 \<le> pd_dp_replicate p" "1 \<le> pd_pp p" "A * pd_pp p = pd_world_size p"
    using built_accepted [OF assms(1)] by (simp_all add: accepted_def A_def)
  then have pos: "0 < pd_tp p" "0 < pd_dp_shard p * pd_cp p" "0 < A" unfolding A_def by (simp_all add: zero_less_mult_iff)
  consider "d = ''tp''" | "d = ''dp_shard_cp''" | "d = ''dp_cp_tp''" | "d = ''pp''"
    using assms(3) by (auto simp: mesh_dims_def ordered_dims_def)
  then have "\<exists>r. get_rank_in_dim p d g = Inr r \<and> 0 \<le> r \<and> r < mesh_size p d"
  proof cases
    case 4
    have "int g div A < pd_pp p" using int_div_less [OF pos(3), of "int g" "pd_pp p"] assms(2) ge(6) by (simp add: mult.commute)
    moreover have "0 \<le> int g div A" using pos(3) by (simp add: pos_imp_zdiv_nonneg_iff)
    ultimately show ?thesis using digits 4 by (simp add: rank_digits_def mesh_size_def A_def)
  qed (use digits pos in \<open>simp_all add: rank_digits_def mesh_size_def A_def\<close>)
  then show "get_rank_in_dim p d g = Inr (pos p g d)" "0 \<le> pos p g d" "pos p g d < mesh_size p d"
    by (auto simp: pos_def)
qed

definition rank_slices :: "parallel_dims \<Rightarrow> nat \<Rightarrow> (string, slice) dict" where
  "rank_slices p g = map (\<lambda>d. (d, mk_slice (pos p g d) (mesh_size p d) d 1)) mesh_dims"

lemma built_rank_info:
  assumes "built split p" "int g < pd_world_size p"
  shows "get_full_mesh_rank_info p g = Inr (rank_slices p g)"
  using built_pos(1) [OF assms] built_size [OF assms(1)]
  by (simp add: get_full_mesh_rank_info_def rank_slices_def mesh_dims_def ordered_dims_def dict_set_def)

text \<open>The ways in which a tensor dimension may be sharded over the mesh.\<close>

definition shardings :: "string list list" where
  "shardings = [[''tp''], [''dp_shard_cp''], [''dp_cp_tp''], [''pp''], [''tp'', ''dp_shard_cp''], [''dp_shard_cp'', ''tp'']]"

definition shard_of :: "parallel_dims \<Rightarrow> nat \<Rightarrow> string list \<Rightarrow> slice" where
  "shard_of p g ds =
     (if length ds = 1 then mk_slice (pos p g (ds ! 0)) (mesh_size p (ds ! 0)) (ds ! 0) 1
      else mk_slice (pos p g ''tp'' * mesh_size p ''dp_shard_cp'' + pos p g ''dp_shard_cp'')
             (mesh_size p ''tp'' * mesh_size p ''dp_shard_cp'') ''tp'' 1)"

lemma rank_slices_get:
  "dict_get (rank_slices p g) d = (if d \<in> set mesh_dims then Some (mk_slice (pos p g d) (mesh_size p d) d 1) else None)"
  by (auto simp: rank_slices_def dict_get_def mesh_dims_def ordered_dims_def)

lemma local_shard_run:
  "ds \<in> set shardings \<Longrightarrow> local_shard_at (i, ds) (info, rank_slices p g)
     = Inr (dict_set i (to_dict (shard_of p g ds)) info, rank_slices p g)"
proof -
  assume ds: "ds \<in> set shardings"
  have keys: "set (dict_keys (rank_slices p g)) = set mesh_dims" by (simp add: rank_slices_def dict_keys_def comp_def)
  have "merged_shard_info_at_dim (rank_slices p g) = Inr (shard_of p g [''tp'', ''dp_shard_cp''], rank_slices p g)"
    by (simp add: merged_shard_info_at_dim_def with_default_def keys mesh_dims_def ordered_dims_def shard_info_at_dim_def
        rank_slices_get merge_rank_def shard_of_def)
  then show ?thesis using ds
    by (auto simp: shardings_def local_shard_at_def ordered_dims_def shard_of_def shard_info_at_dim_def rank_slices_get mesh_dims_def)
qed

lemma generate_run:
  "set (map snd m) \<subseteq> set shardings \<Longrightarrow> generate_local_shard_info m (rank_slices p g)
     = Inr (fold (\<lambda>(i, ds). dict_set i (to_dict (shard_of p g ds))) m [], rank_slices p g)"
proof -
  have "set (map snd m) \<subseteq> set shardings \<Longrightarrow> efold local_shard_at m (info, rank_slices p g)
     = Inr (fold (\<lambda>(i, ds). dict_set i (to_dict (shard_of p g ds))) m info, rank_slices p g)" for info
    by (induction m arbitrary: info) (auto simp: local_shard_run)
  then show "set (map snd m) \<subseteq> set shardings \<Longrightarrow> ?thesis" by (simp add: generate_local_shard_info_def)
qed

lemma update_new: "k \<notin> set (map fst d) \<Longrightarrow> AList.update k v d = d @ [(k, v)]"
  by (induction d) auto

lemma fold_set_map:
  "distinct (map fst m) \<Longrightarrow> set (map fst m) \<inter> set (dict_keys d) = {} \<Longrightarrow>
   fold (\<lambda>(i, x). dict_set i (f x)) m d = d @ map (\<lambda>(i, x). (i, f x)) m"
proof (induction m arbitrary: d)
  case (Cons x m)
  obtain i y where x: "x = (i, y)" by (cases x)
  have "dict_set i (f y) d = d @ [(i, f y)]"
    using Cons.prems(2) by (simp add: x dict_set_def dict_keys_def update_new)
  then show ?case using Cons by (simp add: x dict_keys_def)
qed simp

lemma shard_of_eq:
  assumes "built split p" "int g < pd_world_size p" "int h < pd_world_size p" "ds \<in> set shardings"
  shows "shard_of p g ds = shard_of p h ds \<longleftrightarrow> (\<forall>d \<in> set ds. pos p g d = pos p h d)"
proof -
  let ?S = "mesh_size p ''dp_shard_cp''"
  have b: "0 \<le> pos p k ''dp_shard_cp''" "pos p k ''dp_shard_cp'' < ?S" if "int k < pd_world_size p" for k
    using built_pos [OF assms(1) that, of "''dp_shard_cp''"] by (simp_all add: mesh_dims_def ordered_dims_def)
  have "pos p g ''tp'' * ?S + pos p g ''dp_shard_cp'' = pos p h ''tp'' * ?S + pos p h ''dp_shard_cp''
      \<longleftrightarrow> pos p g ''tp'' = pos p h ''tp'' \<and> pos p g ''dp_shard_cp'' = pos p h ''dp_shard_cp''"
  proof
    assume eq: "pos p g ''tp'' * ?S + pos p g ''dp_shard_cp'' = pos p h ''tp'' * ?S + pos p h ''dp_shard_cp''"
    have div: "(a * ?S + c) div ?S = a" if "0 \<le> c" "c < ?S" for a c using that by simp
    have "pos p g ''tp'' = pos p h ''tp''" using div [OF b [OF assms(2)]] div [OF b [OF assms(3)]] eq by metis
    with eq show "pos p g ''tp'' = pos p h ''tp'' \<and> pos p g ''dp_shard_cp'' = pos p h ''dp_shard_cp''" by simp
  qed simp
  then show ?thesis using assms(4) by (auto simp: shardings_def shard_of_def mk_slice_def)
qed

lemma shard_of_valid:
  assumes "built split p" "int g < pd_world_size p" "ds \<in> set shardings"
  shows "valid_slice (shard_of p g ds) \<and> slen (shard_of p g ds) = 1"
proof -
  have b: "0 \<le> pos p g d" "pos p g d < mesh_size p d" if "d \<in> set mesh_dims" for d
    using built_pos [OF assms(1,2) that] by simp_all
  have one: "valid_slice (mk_slice (pos p g d) (mesh_size p d) d 1)" if "d \<in> set mesh_dims" for d
    using b [OF that] by (simp add: valid_slice_def)
  let ?T = "mesh_size p ''tp''" and ?S = "mesh_size p ''dp_shard_cp''"
  have t: "0 \<le> pos p g ''tp''" "pos p g ''tp'' < ?T" "0 \<le> pos p g ''dp_shard_cp''" "pos p g ''dp_shard_cp'' < ?S"
    using b by (simp_all add: mesh_dims_def ordered_dims_def)
  then have "(pos p g ''tp'' + 1) * ?S \<le> ?T * ?S" by (intro mult_right_mono) simp_all
  with t have "valid_slice (mk_slice (pos p g ''tp'' * ?S + pos p g ''dp_shard_cp'') (?T * ?S) ''tp'' 1)"
    by (simp add: valid_slice_def distrib_right zero_less_mult_iff)
  note two = this
  consider d where "d \<in> set mesh_dims" "ds = [d]" | "length ds = 2"
    using assms(3) by (fastforce simp: shardings_def mesh_dims_def ordered_dims_def)
  then show ?thesis by cases (simp_all add: shard_of_def one two)
qed

lemma efold_filter:
  "(\<And>x. x \<in> set xs \<Longrightarrow> t x = Inr (q x)) \<Longrightarrow>
   efold (\<lambda>x acc. ebind (t x) (\<lambda>bs. Inr (if list_all (\<lambda>b. b) bs then acc @ [x] else acc))) xs acc
     = Inr (acc @ filter (\<lambda>x. list_all (\<lambda>b. b) (q x)) xs)"
  by (induction xs arbitrary: acc) auto

lemma efold_tests:
  "(\<And>d v. (d, v) \<in> set m \<Longrightarrow> f d = Inr (r d)) \<Longrightarrow>
   efold (\<lambda>(d, v) bs. ebind (f d) (\<lambda>x. Inr (bs @ [x = v]))) m bs = Inr (bs @ map (\<lambda>(d, v). r d = v) m)"
proof (induction m arbitrary: bs)
  case (Cons x m)
  obtain d v where x: "x = (d, v)" by (cases x)
  have "f d = Inr (r d)" using Cons.prems [of d v] by (simp add: x)
  moreover have "efold (\<lambda>(d, v) bs. ebind (f d) (\<lambda>x. Inr (bs @ [x = v]))) m (bs @ [r d = v])
      = Inr ((bs @ [r d = v]) @ map (\<lambda>(d, v). r d = v) m)"
    by (rule Cons.IH) (rule Cons.prems, erule list.set_intros)
  ultimately show ?case by (simp add: x)
qed simp

lemma duplicates_run:
  assumes p: "built split p" "int g < pd_world_size p" and dims: "set dims \<subseteq> set mesh_dims"
  shows "duplicate_ranks_at_given_dimensions p dims g
    = Inr (filter (\<lambda>h. \<forall>d \<in> set dims. pos p h d = pos p g d) [0..<nat (pd_world_size p)])"
proof -
  have build: "efold (\<lambda>d m. ebind (get_rank_in_dim p d g) (\<lambda>r. Inr (dict_set d r m))) ds m
      = Inr (fold (\<lambda>d. dict_set d (pos p g d)) ds m)" if "set ds \<subseteq> set mesh_dims" for ds m
    using that built_pos(1) [OF p] by (induction ds arbitrary: m) auto
  define M where "M = fold (\<lambda>d. dict_set d (pos p g d)) dims []"
  have get: "dict_get (fold (\<lambda>d. dict_set d (pos p g d)) ds m) d = (if d \<in> set ds then Some (pos p g d) else dict_get m d)" for ds m d
    by (induction ds arbitrary: m) (auto simp: dict_get_set)
  have wf: "dict_wf (fold (\<lambda>d. dict_set d (pos p g d)) ds m)" if "dict_wf m" for ds m
    using that by (induction ds arbitrary: m) auto
  have M: "(d, v) \<in> set M \<longleftrightarrow> d \<in> set dims \<and> v = pos p g d" for d v
    using dict_get_mem [of M d v] wf [of "[]" dims] get [of dims "[]" d] by (auto simp: M_def split: if_splits)
  have "get_global_ranks_for_given_mesh_rank p M = Inr (filter (\<lambda>h. \<forall>d \<in> set dims. pos p h d = pos p g d) [0..<nat (pd_world_size p)])"
  proof (cases "M = []")
    case True
    then have "dims = []" using M by (cases dims) auto
    then show ?thesis using True by (simp add: get_global_ranks_for_given_mesh_rank_def)
  next
    case False
    have "efold (\<lambda>(d, dimr) bs. ebind (get_rank_in_dim p d h) (\<lambda>r. Inr (bs @ [r = dimr]))) M []
        = Inr (map (\<lambda>(d, v). pos p h d = v) M)" if "h \<in> set [0..<nat (pd_world_size p)]" for h
      using efold_tests [of M "\<lambda>d. get_rank_in_dim p d h" "pos p h" "[]"] built_pos(1) [OF p(1), of h] M dims that
      by (auto simp: subset_iff)
    from efold_filter [of "[0..<nat (pd_world_size p)]", OF this]
    have "get_global_ranks_for_given_mesh_rank p M
        = Inr (filter (\<lambda>h. list_all (\<lambda>b. b) (map (\<lambda>(d, v). pos p h d = v) M)) [0..<nat (pd_world_size p)])"
      using False by (simp add: get_global_ranks_for_given_mesh_rank_def)
    moreover have "set M = (\<lambda>d. (d, pos p g d)) ` set dims" using M by auto
    then have "list_all (\<lambda>b. b) (map (\<lambda>(d, v). pos p h d = v) M) \<longleftrightarrow> (\<forall>d \<in> set dims. pos p h d = pos p g d)" for h
      by (simp add: list_all_iff)
    ultimately show ?thesis by simp
  qed
  then show ?thesis by (simp add: duplicate_ranks_at_given_dimensions_def build [OF dims] M_def)
qed

text \<open>C36: which ranks share a shard. On the mesh of an accepted configuration, and for dimensions that are
  sharded in one of the ways of \<open>shardings\<close>, every rank's slices are computed without an error and lie
  within their dimension; and two ranks get the same slices exactly if one is among the other's
  duplicates with respect to the mesh dimensions that occur.\<close>

theorem duplicates_share_shards:
  assumes "built split p" "int g < pd_world_size p" "int h < pd_world_size p"
    and "distinct (map fst m)" "set (map snd m) \<subseteq> set shardings"
  shows "\<exists>rg rh ig ih dups. get_full_mesh_rank_info p g = Inr rg \<and> get_full_mesh_rank_info p h = Inr rh
    \<and> generate_local_shard_info m rg = Inr (ig, rg) \<and> generate_local_shard_info m rh = Inr (ih, rh)
    \<and> duplicate_ranks_at_given_dimensions p (concat (map snd m)) g = Inr dups
    \<and> (ig = ih \<longleftrightarrow> h \<in> set dups)
    \<and> dict_keys ig = map fst m
    \<and> list_all (\<lambda>(i, v). \<exists>s. from_dict v = Inr s \<and> valid_slice s \<and> slen s = 1) ig"
proof -
  have gen: "generate_local_shard_info m (rank_slices p k) = Inr (map (\<lambda>(i, ds). (i, to_dict (shard_of p k ds))) m, rank_slices p k)" for k
    using generate_run [OF assms(5)] fold_set_map [OF assms(4), of "[]" "\<lambda>ds. to_dict (shard_of p k ds)"]
    by (simp add: dict_keys_def)
  have inj: "to_dict s = to_dict t \<longleftrightarrow> s = t" for s t by (cases s; cases t) (simp add: to_dict_def)
  have ds: "ds \<in> set shardings" if "(i, ds) \<in> set m" for i ds using that assms(5) by force
  have dims: "set (concat (map snd m)) \<subseteq> set mesh_dims"
    using assms(5) by (fastforce simp: shardings_def mesh_dims_def ordered_dims_def)
  have eq: "shard_of p g ds = shard_of p h ds \<longleftrightarrow> (\<forall>d \<in> set ds. pos p h d = pos p g d)" if "(i, ds) \<in> set m" for i ds
    using shard_of_eq [OF assms(1-3) ds [OF that]] by (simp add: eq_commute)
  have "map (\<lambda>(i, ds). (i, to_dict (shard_of p g ds))) m = map (\<lambda>(i, ds). (i, to_dict (shard_of p h ds))) m
      \<longleftrightarrow> (\<forall>(i, ds) \<in> set m. shard_of p g ds = shard_of p h ds)"
    by (auto simp: inj)
  also have "\<dots> \<longleftrightarrow> (\<forall>(i, ds) \<in> set m. \<forall>d \<in> set ds. pos p h d = pos p g d)"
    by (rule ball_cong [OF refl]) (clarify, erule eq)
  also have "\<dots> \<longleftrightarrow> (\<forall>d \<in> set (concat (map snd m)). pos p h d = pos p g d)" by fastforce
  finally have same: "map (\<lambda>(i, ds). (i, to_dict (shard_of p g ds))) m = map (\<lambda>(i, ds). (i, to_dict (shard_of p h ds))) m
      \<longleftrightarrow> h \<in> set (filter (\<lambda>h. \<forall>d \<in> set (concat (map snd m)). pos p h d = pos p g d) [0..<nat (pd_world_size p)])"
    using assms(3) by auto
  have "list_all (\<lambda>(i, v). \<exists>s. from_dict v = Inr s \<and> valid_slice s \<and> slen s = 1)
      (map (\<lambda>(i, ds). (i, to_dict (shard_of p g ds))) m)"
    using shard_of_valid [OF assms(1,2) ds] by (auto simp: list_all_iff from_dict_to_dict)
  moreover have "dict_keys (map (\<lambda>(i, ds). (i, to_dict (shard_of p g ds))) m) = map fst m"
    by (simp add: dict_keys_def comp_def case_prod_beta)
  moreover note built_rank_info [OF assms(1,2)] built_rank_info [OF assms(1,3)] gen [of g] gen [of h]
    duplicates_run [OF assms(1,2) dims] same
  ultimately show ?thesis by (intro exI conjI)
qed

theorem duplicates_share_shards_witness:
  "\<exists>p r0 r1 i0 i1 dups. post_init_dims plain_split sample_dims = Inr p
     \<and> get_full_mesh_rank_info p 0 = Inr r0 \<and> get_full_mesh_rank_info p 1 = Inr r1
     \<and> generate_local_shard_info [(0, [''dp_shard_cp''])] r0 = Inr (i0, r0)
     \<and> generate_local_shard_info [(0, [''dp_shard_cp''])] r1 = Inr (i1, r1)
     \<and> duplicate_ranks_at_given_dimensions p [''dp_shard_cp''] 0 = Inr dups \<and> (i0 = i1 \<longleftrightarrow> 1 \<in> set dups)"
proof -
  obtain p where p: "post_init_dims plain_split sample_dims = Inr p"
    by (simp add: post_init_dims_def validate_dims_def validate_shard_def validate_experts_def sample_dims_def)
  then have b: "built plain_split p" using plain_split_spec by (auto simp: built_def)
  have "pd_world_size p = 16"
    using p by (auto simp: post_init_dims_def validate_dims_def validate_shard_def validate_experts_def sample_dims_def)
  then have "int 0 < pd_world_size p" "int 1 < pd_world_size p" by simp_all
  from duplicates_share_shards [OF b this, of "[(0, [''dp_shard_cp''])]"] p show ?thesis
    by (simp add: shardings_def) blast
qed

section \<open>The slices of MXFP4 experts\<close>

definition moe_slice :: "int \<Rightarrow> int \<Rightarrow> int \<Rightarrow> int \<Rightarrow> slice" where
  "moe_slice k I n r =
     (let per = ceil_div (I div 32) n * 32 in
      mk_slice (k * (r * per)) (k * I) [] (k * (min ((r + 1) * per) I - r * per)))"

lemma moe_run:
  assumes "0 < n" "moe_tp_dim name = (Some d, k)" "d < length sh"
  shows "\<exists>info. genereate_dim_rank_info (Some True) name sh I (r, n) = Inr (info, Some d)
    \<and> dict_get info d = Some (to_dict (moe_slice k I n r))"
proof -
  have get: "dict_get (map (\<lambda>(idx, g). (idx, f idx g)) (enumerate a sh)) (a + j) = Some (f (a + j) (sh ! j))"
    if "j < length sh" for f :: "nat \<Rightarrow> int \<Rightarrow> slice_dict" and a j
    using that
  proof (induction sh arbitrary: a j)
    case (Cons x xs)
    show ?case
    proof (cases j)
      case (Suc i)
      then show ?thesis using Cons.IH [of i "Suc a"] Cons.prems by (simp add: dict_get_def)
    qed (simp add: dict_get_def)
  qed simp
  show ?thesis
    using get [OF assms(3), of _ 0]
    by (simp add: genereate_dim_rank_info_def assms(2) cdiv_ceil [OF assms(1)] moe_slice_def Let_def ensure_def)
qed

lemma le_div_iff: "0 < (c :: int) \<Longrightarrow> r \<le> x div c \<longleftrightarrow> r * c \<le> x"
proof
  assume c: "0 < c" "r \<le> x div c"
  from mult_right_mono [OF c(2), of c] floor_div_bounds(1) [OF c(1), of x] c(1) show "r * c \<le> x" by linarith
next
  assume c: "0 < c" "r * c \<le> x"
  show "r \<le> x div c"
  proof (rule ccontr)
    assume "\<not> r \<le> x div c"
    then have "(x div c + 1) * c \<le> r * c" using c(1) by (intro mult_right_mono) simp_all
    with c floor_div_bounds(2) [OF c(1), of x] show False by (simp add: distrib_right)
  qed
qed

text \<open>The slices that tensor parallelism gives the ranks of an MXFP4 expert tile the dimension. If the
  intermediate size is a multiple of the block size 32, every element of the sharded dimension lies
  in the slice of exactly one rank, also when the blocks do not divide evenly among the ranks.\<close>

theorem moe_slices_tile:
  assumes "0 < n" "32 dvd I" "moe_tp_dim name = (Some d, k)" "d < length sh"
  shows "\<exists>slice. (\<forall>r. \<exists>info. genereate_dim_rank_info (Some True) name sh I (r, n) = Inr (info, Some d)
      \<and> dict_get info d = Some (to_dict (slice r)) \<and> total_size (slice r) = k * I)
    \<and> (\<forall>x \<in> {0..<k * I}. \<exists>!r. 0 \<le> r \<and> r < n \<and> offset (slice r) \<le> x \<and> x < offset (slice r) + slen (slice r))"
proof (rule exI [of _ "moe_slice k I n"], rule conjI)
  let ?slice = "moe_slice k I n"
  show "\<forall>r. \<exists>info. genereate_dim_rank_info (Some True) name sh I (r, n) = Inr (info, Some d)
      \<and> dict_get info d = Some (to_dict (?slice r)) \<and> total_size (?slice r) = k * I"
    using moe_run [OF assms(1,3,4), of I] by (auto simp: moe_slice_def Let_def)
  show "\<forall>x \<in> {0..<k * I}. \<exists>!r. 0 \<le> r \<and> r < n \<and> offset (?slice r) \<le> x \<and> x < offset (?slice r) + slen (?slice r)"
  proof
  fix x assume x: "x \<in> {0..<k * I}"
  have k: "0 < k" using assms(3) by (auto simp: moe_tp_dim_def split: if_splits)
  define per where "per = ceil_div (I div 32) n * 32"
  have "I div 32 \<le> ceil_div (I div 32) n * n" by (rule ceil_div_le [OF assms(1)])
  then have all: "I \<le> n * per" using assms(2) by (auto simp: per_def dvd_def mult.commute mult.left_commute)
  have "0 < k * I" using x by simp
  then have I: "0 < I" using k by (simp add: zero_less_mult_iff)
  then have "0 < I div 32" using assms(2) by auto
  then have per: "0 < per" using ceil_div_pos [OF assms(1)] by (simp add: per_def)
  have sel: "offset (?slice r) = k * (r * per)" "offset (?slice r) + slen (?slice r) = k * min ((r + 1) * per) I" for r
    by (simp_all add: moe_slice_def per_def Let_def right_diff_distrib)
  have kper: "0 < k * per" using k per by simp
  have low: "k * (r * per) \<le> x \<longleftrightarrow> r \<le> x div (k * per)" for r
    by (simp add: le_div_iff [OF kper] mult.left_commute)
  have high: "x < k * min ((r + 1) * per) I \<longleftrightarrow> x div (k * per) < r + 1" for r
  proof -
    have "x < k * min ((r + 1) * per) I \<longleftrightarrow> \<not> k * ((r + 1) * per) \<le> x" 
    proof (cases "(r + 1) * per \<le> I")
      case False
      then have "k * I \<le> k * ((r + 1) * per)" using k by (intro mult_left_mono) simp_all
      moreover have "x < k * I" using x by simp
      ultimately have "\<not> k * ((r + 1) * per) \<le> x \<longleftrightarrow> x < k * I" by linarith
      then show ?thesis using False by (simp add: min_def)
    qed (auto simp: min_def)
    then show ?thesis unfolding low by linarith
  qed
  have "x < k * I" using x by simp
  also have "\<dots> \<le> k * (n * per)" using all k by (intro mult_left_mono) simp_all
  finally have "x < n * (k * per)" by (simp add: mult.left_commute)
  then have "x div (k * per) < n" using le_div_iff [OF kper, of n x] by linarith
  moreover have "0 \<le> x div (k * per)" using x kper by (simp add: pos_imp_zdiv_nonneg_iff)
  ultimately show "\<exists>!r. 0 \<le> r \<and> r < n \<and> offset (?slice r) \<le> x \<and> x < offset (?slice r) + slen (?slice r)"
    unfolding sel(2) unfolding sel(1) low high by (intro ex1I [of _ "x div (k * per)"]) auto
  qed
qed

theorem moe_slices_tile_witness:
  "\<exists>slice. (\<exists>info. genereate_dim_rank_info (Some True) ''w2_weight'' [4, 8, 48] 96 (1, 2) = Inr (info, Some 2)
      \<and> dict_get info 2 = Some (to_dict (slice 1)))
    \<and> (\<exists>!r. 0 \<le> r \<and> r < (2 :: int) \<and> offset (slice r) \<le> 95 \<and> 95 < offset (slice r) + slen (slice r))"
proof -
  have *: "moe_tp_dim ''w2_weight'' = (Some 2, 1)" by (simp add: moe_tp_dim_def)
  have "0 < (2 :: int)" "32 dvd (96 :: int)" "2 < length [4, 8, 48 :: int]" by simp_all
  from moe_slices_tile [OF this(1,2) * this(3)] obtain slice where
    s: "\<forall>r. \<exists>info. genereate_dim_rank_info (Some True) ''w2_weight'' [4, 8, 48] 96 (r, 2) = Inr (info, Some 2)
      \<and> dict_get info 2 = Some (to_dict (slice r)) \<and> total_size (slice r) = 1 * 96"
    and u: "\<forall>x \<in> {0..<1 * 96}. \<exists>!r. 0 \<le> r \<and> r < (2 :: int) \<and> offset (slice r) \<le> x \<and> x < offset (slice r) + slen (slice r)"
    by (elim exE conjE)
  have "\<exists>!r. 0 \<le> r \<and> r < (2 :: int) \<and> offset (slice r) \<le> 95 \<and> 95 < offset (slice r) + slen (slice r)"
    by (rule bspec [OF u]) simp
  with s show ?thesis by (intro exI [of _ slice]) blast
qed

end
