(* ===== verification/Shard_Mapper.thy ===== *)
theory Shard_Mapper
  imports Weight_Sync
begin

text \<open>The controller's \<open>ParallelizedShardMapper\<close> as the process it is (src/cosmos\_rl/utils/parallelism\_map.py) with
  the request handlers in front of it (src/cosmos\_rl/dispatcher/run\_web\_panel.py): replicas report their
  shards, a background task unpacks the first report of either side and starts the planning, and requests
  for instructions wait for the plan. msgpack, numpy's \<open>array_split\<close> and the order in which Python goes
  through a set are parameters.\<close>

section \<open>State\<close>

text \<open>A report as it is unpacked; a field may be missing.\<close>

record shard_report =
  rp_shard_infos :: "rank_infos list option"
  rp_param_groups :: "string list list option"
  rp_sorted_params :: "string list list option"
  rp_trainable_params :: "string list option"

record 'b mapper_env =
  me_unpackb :: "'b \<Rightarrow> error + shard_report"
  me_set_order :: "string list list \<Rightarrow> string list list"
  me_split :: splitter
  me_policy_parallelism :: parallelism_config
  me_rollout_parallelism :: parallelism_config

type_synonym insts_result = "error + insts_group list"

text \<open>\<open>sm_pending\<close> counts the tasks created and not yet started, \<open>sm_unpacking\<close> tells whether one is awaiting the
  process pool; \<open>sm_results\<close> are the futures of the planning processes, each of which runs on a copy of
  the state of the moment it is forked.\<close>

record 'b shard_mapper =
  sm_policy_raw :: "'b option"
  sm_rollout_raw :: "'b option"
  sm_policy_world :: nat
  sm_rollout_world :: nat
  sm_plan :: shard_plan
  sm_trainable :: "string list option"
  sm_send :: "insts_group list option list option"
  sm_recv :: "insts_group list option list option"
  sm_results :: "(insts_result list \<times> insts_result list) option"
  sm_pool :: bool
  sm_done :: bool
  sm_pending :: nat
  sm_unpacking :: bool

definition empty_plan :: shard_plan where
  "empty_plan = \<lparr>pl_policy_infos = [], pl_rollout_infos = [], pl_sorted_policy = [], pl_sorted_rollout = [],
     pl_pp_rank_map_policy = [], pl_pp_rank_map_rollout = [], pl_param_to_groups = [], pl_param_groups = []\<rparr>"

definition new_mapper :: "'b shard_mapper" where
  "new_mapper = \<lparr>sm_policy_raw = None, sm_rollout_raw = None, sm_policy_world = 0, sm_rollout_world = 0,
     sm_plan = empty_plan, sm_trainable = None, sm_send = None, sm_recv = None, sm_results = None,
     sm_pool = False, sm_done = False, sm_pending = 0, sm_unpacking = False\<rparr>"

section \<open>Reports\<close>

definition set_shard_infos_of_policy :: "'b \<Rightarrow> nat \<Rightarrow> 'b shard_mapper \<Rightarrow> 'b shard_mapper" where
  "set_shard_infos_of_policy raw n_gpus s =
     (if sm_policy_raw s = None
      then s\<lparr>sm_policy_world := n_gpus, sm_policy_raw := Some raw, sm_pending := Suc (sm_pending s)\<rparr> else s)"

definition set_shard_infos_of_rollout :: "'b \<Rightarrow> nat \<Rightarrow> 'b shard_mapper \<Rightarrow> 'b shard_mapper" where
  "set_shard_infos_of_rollout raw n_gpus s =
     (if sm_rollout_raw s = None
      then s\<lparr>sm_rollout_world := n_gpus, sm_rollout_raw := Some raw, sm_pending := Suc (sm_pending s)\<rparr> else s)"

text \<open>\<open>post_set_shard_infos\<close> up to its first \<open>await\<close>: a task that finds both reports and no plan begun.\<close>

definition post_set_begin :: "'b shard_mapper \<Rightarrow> 'b shard_mapper" where
  "post_set_begin s =
     (if sm_policy_raw s \<noteq> None \<and> sm_rollout_raw s \<noteq> None \<and> sm_send s = None \<and> sm_recv s = None
      then s\<lparr>sm_send := Some [], sm_recv := Some [], sm_unpacking := True\<rparr> else s)"

text \<open>\<open>need\<close> reads a key of an unpacked report. \<open>add_group\<close> enters a group for each of its parameters and into the set.\<close>

definition need :: "'a option \<Rightarrow> error + 'a" where
  "need x = (case x of None \<Rightarrow> Inl KeyError | Some a \<Rightarrow> Inr a)"

definition add_group :: "string list \<Rightarrow> shard_plan \<Rightarrow> shard_plan" where
  "add_group grp m = m\<lparr>pl_param_to_groups := fold (\<lambda>n. dict_set n grp) grp (pl_param_to_groups m),
     pl_param_groups := List.insert grp (pl_param_groups m)\<rparr>"

definition on_plan :: "(shard_plan \<Rightarrow> shard_plan) \<Rightarrow> ('b shard_mapper, unit) exec" where
  "on_plan f = modify (sm_plan_update f)"

definition take_policy :: "shard_report \<Rightarrow> ('b shard_mapper, unit) exec" where
  "take_policy r = block
     [bnd (lift_sum (need (rp_shard_infos r))) (\<lambda>x. on_plan (pl_policy_infos_update (\<lambda>_. x))),
      bnd (lift_sum (need (rp_param_groups r))) (\<lambda>gs. on_plan (fold add_group gs)),
      bnd (lift_sum (need (rp_sorted_params r))) (\<lambda>x. on_plan (pl_sorted_policy_update (\<lambda>_. x))),
      bnd (lift_sum (need (rp_trainable_params r))) (\<lambda>x. modify (sm_trainable_update (\<lambda>_. Some x)))]"

definition take_rollout :: "shard_report \<Rightarrow> ('b shard_mapper, unit) exec" where
  "take_rollout r = block
     [bnd (lift_sum (need (rp_shard_infos r))) (\<lambda>x. on_plan (pl_rollout_infos_update (\<lambda>_. x))),
      bnd (lift_sum (need (rp_param_groups r))) (\<lambda>gs. on_plan (fold add_group gs)),
      bnd (lift_sum (need (rp_sorted_params r))) (\<lambda>x. on_plan (pl_sorted_rollout_update (\<lambda>_. x)))]"

definition sort_groups :: "(string list list \<Rightarrow> string list list) \<Rightarrow> string list list \<Rightarrow> error + string list list" where
  "sort_groups set_order gs =
     ensure IndexError (list_all (\<lambda>grp. grp \<noteq> []) gs) (Inr (sort_key hd (set_order gs)))"

definition pp_rank_map :: "splitter \<Rightarrow> parallelism_config \<Rightarrow> nat \<Rightarrow> error + nat list" where
  "pp_rank_map split cfg world =
     ebind (from_config_for_analysis split cfg (int world)) (\<lambda>dims.
     efold (\<lambda>rank acc. ebind (get_rank_in_dim dims ''pp'' rank) (\<lambda>r. Inr (acc @ [nat r]))) [0..<world] [])"

text \<open>The rest of the task, from the two reports being unpacked to the planning processes being started.
  \<open>policy_insts_generation_per_rank\<close> and \<open>rollout_insts_generation_per_rank\<close> run in these processes.\<close>

definition policy_insts_generation_per_rank :: "'b shard_mapper \<Rightarrow> nat \<Rightarrow> insts_result" where
  "policy_insts_generation_per_rank s rank = generate_send_insts (sm_plan s) rank"

definition rollout_insts_generation_per_rank :: "'b shard_mapper \<Rightarrow> nat \<Rightarrow> insts_result" where
  "rollout_insts_generation_per_rank s rank = generate_recv_insts (sm_plan s) rank"

definition start_planning :: "('b shard_mapper, unit) exec" where
  "start_planning = modify (\<lambda>s. s\<lparr>
     sm_send := Some (replicate (sm_policy_world s) None), sm_recv := Some (replicate (sm_rollout_world s) None),
     sm_pool := True,
     sm_results := Some (map (policy_insts_generation_per_rank s) [0..<sm_policy_world s],
                         map (rollout_insts_generation_per_rank s) [0..<sm_rollout_world s]),
     sm_done := True\<rparr>)"

definition unpack_and_set_shard_infos :: "'b mapper_env \<Rightarrow> 'b option \<Rightarrow> error + shard_report" where
  "unpack_and_set_shard_infos env raw = (case raw of None \<Rightarrow> Inl TypeError | Some b \<Rightarrow> me_unpackb env b)"

definition post_set_finish :: "'b mapper_env \<Rightarrow> ('b shard_mapper, unit) exec" where
  "post_set_finish env = with_state (\<lambda>s0. bnd (modify (sm_unpacking_update (\<lambda>_. False))) (\<lambda>_.
     bnd (lift_sum (unpack_and_set_shard_infos env (sm_policy_raw s0))) (\<lambda>policy_info.
     bnd (lift_sum (unpack_and_set_shard_infos env (sm_rollout_raw s0))) (\<lambda>rollout_info. block
       [modify (sm_policy_raw_update (\<lambda>_. None)), modify (sm_rollout_raw_update (\<lambda>_. None)),
        take_policy policy_info, take_rollout rollout_info,
        with_state (\<lambda>s. bnd (lift_sum (sort_groups (me_set_order env) (pl_param_groups (sm_plan s))))
          (\<lambda>gs. on_plan (pl_param_groups_update (\<lambda>_. gs)))),
        with_state (\<lambda>s. bnd (lift_sum (pp_rank_map (me_split env) (me_policy_parallelism env) (sm_policy_world s)))
          (\<lambda>x. bnd (lift_sum (pp_rank_map (me_split env) (me_rollout_parallelism env) (sm_rollout_world s)))
          (\<lambda>y. bnd (on_plan (pl_pp_rank_map_policy_update (\<lambda>_. x)))
          (\<lambda>_. on_plan (pl_pp_rank_map_rollout_update (\<lambda>_. y)))))),
        start_planning]))))"

section \<open>Requests\<close>

text \<open>Indexing a list by an integer: negative indices count from the end.\<close>

definition py_index :: "nat \<Rightarrow> int \<Rightarrow> error + nat" where
  "py_index n i = (if 0 \<le> i \<and> i < int n then Inr (nat i)
     else if - int n \<le> i \<and> i < 0 then Inr (nat (i + int n)) else Inl IndexError)"

definition cleanup :: "'b shard_mapper \<Rightarrow> 'b shard_mapper" where
  "cleanup s = (if list_all (\<lambda>x. x \<noteq> None) (the (sm_send s)) \<and> list_all (\<lambda>x. x \<noteq> None) (the (sm_recv s))
     then s\<lparr>sm_pool := False\<rparr> else s)"

definition get_send_insts_for_policy :: "int \<Rightarrow> ('b shard_mapper, insts_group list) exec" where
  "get_send_insts_for_policy rank = with_state (\<lambda>s.
     let cached = the (sm_send s); results = fst (the (sm_results s)) in
     bnd (lift_sum (py_index (length cached) rank)) (\<lambda>i.
     bnd (lift_sum (case cached ! i of Some x \<Rightarrow> Inr x
                    | None \<Rightarrow> ebind (py_index (length results) rank) (\<lambda>j. results ! j))) (\<lambda>x.
     bnd (modify (\<lambda>s. cleanup (s\<lparr>sm_send := Some (cached[i := Some x])\<rparr>))) (\<lambda>_. ret x))))"

definition get_recv_insts_for_rollout :: "int \<Rightarrow> ('b shard_mapper, insts_group list) exec" where
  "get_recv_insts_for_rollout rank = with_state (\<lambda>s.
     let cached = the (sm_recv s); results = snd (the (sm_results s)) in
     bnd (lift_sum (py_index (length cached) rank)) (\<lambda>i.
     bnd (lift_sum (case cached ! i of Some x \<Rightarrow> Inr x
                    | None \<Rightarrow> ebind (py_index (length results) rank) (\<lambda>j. results ! j))) (\<lambda>x.
     bnd (modify (\<lambda>s. cleanup (s\<lparr>sm_recv := Some (cached[i := Some x])\<rparr>))) (\<lambda>_. ret x))))"

definition get_trainable_params :: "'b shard_mapper \<Rightarrow> error + string list" where
  "get_trainable_params s = (case sm_trainable s of None \<Rightarrow> Inl AttributeError | Some ps \<Rightarrow> Inr ps)"

section \<open>The process\<close>

text \<open>What can happen, in any order: reports arrive, the event loop runs a pending task or continues the one
  whose unpacking is over, instructions are requested. A request made before the plan exists waits.\<close>

datatype 'b mapper_event =
    Policy_Report 'b nat
  | Rollout_Report 'b nat
  | Run_Task
  | Unpacked
  | Get_Send int
  | Get_Recv int
  | Get_Trainable

datatype mapper_answer = Done | Waits | Instructions "insts_group list" | Names "string list" | Failed error

definition answer_of :: "('b shard_mapper, insts_group list) outcome \<Rightarrow> mapper_answer \<times> 'b shard_mapper" where
  "answer_of r = (case r of Ok x s \<Rightarrow> (Instructions x, s) | Raise e s \<Rightarrow> (Failed e, s))"

fun mapper_step :: "'b mapper_env \<Rightarrow> 'b mapper_event \<Rightarrow> 'b shard_mapper \<Rightarrow> mapper_answer \<times> 'b shard_mapper" where
  "mapper_step env (Policy_Report b n) s = (Done, set_shard_infos_of_policy b n s)"
| "mapper_step env (Rollout_Report b n) s = (Done, set_shard_infos_of_rollout b n s)"
| "mapper_step env Run_Task s =
     (Done, if 0 < sm_pending s then post_set_begin (s\<lparr>sm_pending := sm_pending s - 1\<rparr>) else s)"
| "mapper_step env Unpacked s = (Done, if sm_unpacking s then final (post_set_finish env s) else s)"
| "mapper_step env (Get_Send rank) s =
     (if sm_done s then answer_of (get_send_insts_for_policy rank s) else (Waits, s))"
| "mapper_step env (Get_Recv rank) s =
     (if sm_done s then answer_of (get_recv_insts_for_rollout rank s) else (Waits, s))"
| "mapper_step env Get_Trainable s = ((case get_trainable_params s of Inl e \<Rightarrow> Failed e | Inr ps \<Rightarrow> Names ps), s)"

fun mapper_run :: "'b mapper_env \<Rightarrow> 'b mapper_event list \<Rightarrow> 'b shard_mapper \<Rightarrow> 'b shard_mapper" where
  "mapper_run env [] s = s"
| "mapper_run env (e # es) s = mapper_run env es (snd (mapper_step env e s))"

text \<open>The answer to an event that comes after \<open>es\<close>.\<close>

definition answer_after :: "'b mapper_env \<Rightarrow> 'b mapper_event list \<Rightarrow> 'b mapper_event \<Rightarrow> mapper_answer" where
  "answer_after env es e = fst (mapper_step env e (mapper_run env es new_mapper))"

section \<open>The plan as a function of two reports\<close>

definition all_groups :: "string list list \<Rightarrow> string list list \<Rightarrow> shard_plan \<Rightarrow> shard_plan" where
  "all_groups gp gr m = fold add_group gr (fold add_group gp m)"

definition build_plan :: "'b mapper_env \<Rightarrow> 'b \<times> nat \<Rightarrow> 'b \<times> nat \<Rightarrow> error + shard_plan" where
  "build_plan env P R =
     ebind (me_unpackb env (fst P)) (\<lambda>p. ebind (me_unpackb env (fst R)) (\<lambda>r.
     ebind (need (rp_shard_infos p)) (\<lambda>ip. ebind (need (rp_param_groups p)) (\<lambda>gp.
     ebind (need (rp_sorted_params p)) (\<lambda>sp. ebind (need (rp_trainable_params p)) (\<lambda>tp.
     ebind (need (rp_shard_infos r)) (\<lambda>ir. ebind (need (rp_param_groups r)) (\<lambda>gr.
     ebind (need (rp_sorted_params r)) (\<lambda>sr.
     let m = all_groups gp gr empty_plan in
     ebind (sort_groups (me_set_order env) (pl_param_groups m)) (\<lambda>gs.
     ebind (pp_rank_map (me_split env) (me_policy_parallelism env) (snd P)) (\<lambda>x.
     ebind (pp_rank_map (me_split env) (me_rollout_parallelism env) (snd R)) (\<lambda>y.
     Inr \<lparr>pl_policy_infos = ip, pl_rollout_infos = ir, pl_sorted_policy = sp, pl_sorted_rollout = sr,
          pl_pp_rank_map_policy = x, pl_pp_rank_map_rollout = y,
          pl_param_to_groups = pl_param_to_groups m, pl_param_groups = gs\<rparr>))))))))))))"

text \<open>The first report of either side in a sequence of events.\<close>

fun first_policy :: "'b mapper_event list \<Rightarrow> ('b \<times> nat) option" where
  "first_policy [] = None"
| "first_policy (Policy_Report b n # es) = Some (b, n)"
| "first_policy (_ # es) = first_policy es"

fun first_rollout :: "'b mapper_event list \<Rightarrow> ('b \<times> nat) option" where
  "first_rollout [] = None"
| "first_rollout (Rollout_Report b n # es) = Some (b, n)"
| "first_rollout (_ # es) = first_rollout es"

lemma first_policy_snoc: "first_policy (es @ [e]) = (case first_policy es of Some x \<Rightarrow> Some x
   | None \<Rightarrow> (case e of Policy_Report b n \<Rightarrow> Some (b, n) | _ \<Rightarrow> None))"
  by (induction es rule: first_policy.induct) (auto split: mapper_event.split)

lemma first_rollout_snoc: "first_rollout (es @ [e]) = (case first_rollout es of Some x \<Rightarrow> Some x
   | None \<Rightarrow> (case e of Rollout_Report b n \<Rightarrow> Some (b, n) | _ \<Rightarrow> None))"
  by (induction es rule: first_rollout.induct) (auto split: mapper_event.split)

lemma mapper_run_append: "mapper_run env (es @ fs) s = mapper_run env fs (mapper_run env es s)"
  by (induction es arbitrary: s) auto

definition grp_entries :: "string list list \<Rightarrow> (string, string list) dict \<Rightarrow> (string, string list) dict" where
  "grp_entries gs d = fold (\<lambda>grp. fold (\<lambda>n. dict_set n grp) grp) gs d"

lemma add_groups_eq: "fold add_group gs m = m\<lparr>pl_param_to_groups := grp_entries gs (pl_param_to_groups m),
    pl_param_groups := fold List.insert gs (pl_param_groups m)\<rparr>"
proof (induction gs arbitrary: m)
  case (Cons g gs)
  show ?case by (simp only: fold.simps o_apply Cons) (simp add: add_group_def grp_entries_def)
qed (simp add: grp_entries_def)

text \<open>A finished task has built the plan of the two reports, or it failed and left the lists of
  instructions begun and empty.\<close>

definition plan_ready :: "shard_plan \<Rightarrow> nat \<Rightarrow> nat \<Rightarrow> 'b shard_mapper \<Rightarrow> bool" where
  "plan_ready m np nr s \<longleftrightarrow> sm_plan s = m \<and> sm_done s \<and> \<not> sm_unpacking s
     \<and> sm_results s = Some (map (generate_send_insts m) [0..<np], map (generate_recv_insts m) [0..<nr])
     \<and> (\<exists>sent recd. sm_send s = Some sent \<and> length sent = np \<and> sm_recv s = Some recd \<and> length recd = nr
        \<and> (\<forall>i < np. sent ! i = None \<or> Inr (the (sent ! i)) = generate_send_insts m i)
        \<and> (\<forall>i < nr. recd ! i = None \<or> Inr (the (recd ! i)) = generate_recv_insts m i))"

definition plan_failed :: "'b shard_mapper \<Rightarrow> bool" where
  "plan_failed s \<longleftrightarrow> sm_send s = Some [] \<and> sm_recv s = Some [] \<and> \<not> sm_done s \<and> \<not> sm_unpacking s"

definition plan_outcome :: "'b mapper_env \<Rightarrow> 'b \<times> nat \<Rightarrow> 'b \<times> nat \<Rightarrow> 'b shard_mapper \<Rightarrow> bool" where
  "plan_outcome env P R s =
     (case build_plan env P R of Inl e \<Rightarrow> plan_failed s | Inr m \<Rightarrow> plan_ready m (snd P) (snd R) s)"

lemma take_policy_run:
  assumes "need (rp_shard_infos p) = Inr ip" "need (rp_param_groups p) = Inr gp" "need (rp_sorted_params p) = Inr sp"
    "need (rp_trainable_params p) = Inr tp"
  shows "take_policy p s = Ok () (s\<lparr>sm_plan := (fold add_group gp (sm_plan s))\<lparr>pl_policy_infos := ip, pl_sorted_policy := sp\<rparr>,
     sm_trainable := Some tp\<rparr>)"
  by (simp add: take_policy_def assms on_plan_def add_groups_eq)

lemma take_rollout_run:
  assumes "need (rp_shard_infos r) = Inr ir" "need (rp_param_groups r) = Inr gr" "need (rp_sorted_params r) = Inr sr"
  shows "take_rollout r s = Ok () (s\<lparr>sm_plan := (fold add_group gr (sm_plan s))\<lparr>pl_rollout_infos := ir, pl_sorted_rollout := sr\<rparr>\<rparr>)"
  by (simp add: take_rollout_def assms on_plan_def add_groups_eq)

lemma post_set_build:
  assumes raw: "sm_policy_raw s = Some pb" "sm_rollout_raw s = Some rb" "sm_plan s = empty_plan"
    and m: "build_plan env (pb, sm_policy_world s) (rb, sm_rollout_world s) = Inr m"
  shows "plan_ready m (sm_policy_world s) (sm_rollout_world s) (final (post_set_finish env s))"
proof -
  obtain p r ip gp sp tp ir gr sr gs x y where
    u: "me_unpackb env pb = Inr p" "me_unpackb env rb = Inr r"
    and p: "need (rp_shard_infos p) = Inr ip" "need (rp_param_groups p) = Inr gp" "need (rp_sorted_params p) = Inr sp"
      "need (rp_trainable_params p) = Inr tp"
    and r: "need (rp_shard_infos r) = Inr ir" "need (rp_param_groups r) = Inr gr" "need (rp_sorted_params r) = Inr sr"
    and g: "sort_groups (me_set_order env) (pl_param_groups (all_groups gp gr empty_plan)) = Inr gs"
    and x: "pp_rank_map (me_split env) (me_policy_parallelism env) (sm_policy_world s) = Inr x"
    and y: "pp_rank_map (me_split env) (me_rollout_parallelism env) (sm_rollout_world s) = Inr y"
    and m': "m = \<lparr>pl_policy_infos = ip, pl_rollout_infos = ir, pl_sorted_policy = sp, pl_sorted_rollout = sr,
          pl_pp_rank_map_policy = x, pl_pp_rank_map_rollout = y,
          pl_param_to_groups = pl_param_to_groups (all_groups gp gr empty_plan), pl_param_groups = gs\<rparr>"
    using m by (auto simp: build_plan_def Let_def ebind_Inr_iff)
  have g': "sort_groups (me_set_order env) (fold List.insert gr (fold List.insert gp [])) = Inr gs"
    using g by (simp add: all_groups_def add_groups_eq empty_plan_def)
  show ?thesis
    by (simp add: post_set_finish_def unpack_and_set_shard_infos_def raw u take_policy_run [OF p] take_rollout_run [OF r]
        on_plan_def add_groups_eq empty_plan_def g' x y start_planning_def plan_ready_def m' all_groups_def
        policy_insts_generation_per_rank_def [abs_def] rollout_insts_generation_per_rank_def [abs_def])
qed

lemma ebind_Inl_iff: "ebind r f = Inl e \<longleftrightarrow> r = Inl e \<or> (\<exists>a. r = Inr a \<and> f a = Inl e)"
  by (cases r) auto

text \<open>Without a plan the planning is never started.\<close>

lemma post_set_fails:
  assumes raw: "sm_policy_raw s = Some pb" "sm_rollout_raw s = Some rb" "sm_plan s = empty_plan"
    and sr: "sm_send s = Some []" "sm_recv s = Some []" "\<not> sm_done s"
    and m: "build_plan env (pb, sm_policy_world s) (rb, sm_rollout_world s) = Inl e"
  shows "plan_failed (final (post_set_finish env s))"
  using m [unfolded build_plan_def Let_def ebind_Inl_iff]
  by (elim disjE exE conjE)
    (simp_all add: post_set_finish_def unpack_and_set_shard_infos_def raw sr take_policy_def take_rollout_def on_plan_def
      all_groups_def add_groups_eq empty_plan_def plan_failed_def)

section \<open>Every state of the process\<close>

definition has_reports :: "'b mapper_event list \<Rightarrow> 'b shard_mapper \<Rightarrow> bool" where
  "has_reports es s \<longleftrightarrow> sm_plan s = empty_plan \<and> \<not> sm_done s
     \<and> sm_policy_raw s = map_option fst (first_policy es) \<and> (\<forall>P. first_policy es = Some P \<longrightarrow> sm_policy_world s = snd P)
     \<and> sm_rollout_raw s = map_option fst (first_rollout es) \<and> (\<forall>R. first_rollout es = Some R \<longrightarrow> sm_rollout_world s = snd R)"

datatype phase = Collecting | Unpacking | Finished

definition phase_of :: "'b shard_mapper \<Rightarrow> phase" where
  "phase_of s = (if sm_unpacking s then Unpacking else if sm_send s = None then Collecting else Finished)"

definition mapper_inv :: "'b mapper_env \<Rightarrow> 'b mapper_event list \<Rightarrow> 'b shard_mapper \<Rightarrow> bool" where
  "mapper_inv env es s = (case phase_of s of
     Collecting \<Rightarrow> has_reports es s \<and> sm_recv s = None
       \<and> (first_policy es \<noteq> None \<and> first_rollout es \<noteq> None \<longrightarrow> 0 < sm_pending s)
   | Unpacking \<Rightarrow> has_reports es s \<and> sm_send s = Some [] \<and> sm_recv s = Some []
       \<and> first_policy es \<noteq> None \<and> first_rollout es \<noteq> None
   | Finished \<Rightarrow> (\<exists>P R. first_policy es = Some P \<and> first_rollout es = Some R
       \<and> plan_outcome env P R s))"

lemma inv_new: "mapper_inv env [] new_mapper"
  by (simp add: mapper_inv_def phase_of_def has_reports_def new_mapper_def)

lemma set_infos_keep [simp]:
  "sm_send (set_shard_infos_of_policy b n s) = sm_send s" "sm_recv (set_shard_infos_of_policy b n s) = sm_recv s"
  "sm_send (set_shard_infos_of_rollout b n s) = sm_send s" "sm_recv (set_shard_infos_of_rollout b n s) = sm_recv s"
  "plan_ready m np nr (set_shard_infos_of_policy b n s) = plan_ready m np nr s"
  "plan_ready m np nr (set_shard_infos_of_rollout b n s) = plan_ready m np nr s"
  "plan_failed (set_shard_infos_of_policy b n s) = plan_failed s"
  "plan_failed (set_shard_infos_of_rollout b n s) = plan_failed s"
  "plan_outcome env P R (set_shard_infos_of_policy b n s) = plan_outcome env P R s"
  "plan_outcome env P R (set_shard_infos_of_rollout b n s) = plan_outcome env P R s"
  "phase_of (set_shard_infos_of_policy b n s) = phase_of s" "phase_of (set_shard_infos_of_rollout b n s) = phase_of s"
  by (simp_all add: plan_outcome_def set_shard_infos_of_policy_def set_shard_infos_of_rollout_def plan_ready_def plan_failed_def
      phase_of_def split: sum.split)

lemma pending_keeps [simp]:
  "plan_ready m np nr (s\<lparr>sm_pending := k\<rparr>) = plan_ready m np nr s"
  "plan_failed (s\<lparr>sm_pending := k\<rparr>) = plan_failed s"
  "plan_outcome env P R (s\<lparr>sm_pending := k\<rparr>) = plan_outcome env P R s"
  "phase_of (s\<lparr>sm_pending := k\<rparr>) = phase_of s"
  by (simp_all add: plan_outcome_def plan_ready_def plan_failed_def phase_of_def split: sum.split)

lemma first_same:
  "first_policy es \<noteq> None \<Longrightarrow> first_policy (es @ [e]) = first_policy es"
  "first_rollout es \<noteq> None \<Longrightarrow> first_rollout (es @ [e]) = first_rollout es"
  by (auto simp: first_policy_snoc first_rollout_snoc)

lemma reports_policy: "has_reports es s \<Longrightarrow> has_reports (es @ [Policy_Report b n]) (set_shard_infos_of_policy b n s)"
  by (cases "first_policy es") (auto simp: has_reports_def first_policy_snoc first_rollout_snoc set_shard_infos_of_policy_def split: option.split)

lemma reports_rollout: "has_reports es s \<Longrightarrow> has_reports (es @ [Rollout_Report b n]) (set_shard_infos_of_rollout b n s)"
  by (cases "first_rollout es") (auto simp: has_reports_def first_policy_snoc first_rollout_snoc set_shard_infos_of_rollout_def split: option.split)

lemma has_reports_other:
  "has_reports es s \<Longrightarrow> first_policy (es @ [e]) = first_policy es \<Longrightarrow> first_rollout (es @ [e]) = first_rollout es \<Longrightarrow>
   has_reports (es @ [e]) (s\<lparr>sm_pending := k\<rparr>)"
  by (simp add: has_reports_def)

lemma inv_policy_report:
  assumes "mapper_inv env es s"
  shows "mapper_inv env (es @ [Policy_Report b n]) (set_shard_infos_of_policy b n s)"
proof (cases "phase_of s")
  case Collecting
  let ?t = "set_shard_infos_of_policy b n s"
  have h: "has_reports es s" "sm_recv s = None" "first_policy es \<noteq> None \<and> first_rollout es \<noteq> None \<longrightarrow> 0 < sm_pending s"
    using assms Collecting by (simp_all add: mapper_inv_def)
  have "first_policy es \<noteq> None \<or> 0 < sm_pending ?t" "first_rollout (es @ [Policy_Report b n]) = first_rollout es"
    using h(1) by (auto simp: has_reports_def set_shard_infos_of_policy_def first_rollout_snoc split: option.split)
  moreover have "sm_recv ?t = None" "sm_pending s \<le> sm_pending ?t" using h(2) by (simp_all add: set_shard_infos_of_policy_def)
  ultimately show ?thesis using h(3) Collecting reports_policy [OF h(1), of b n] by (auto simp: mapper_inv_def)
next
  case Unpacking
  then show ?thesis using assms reports_policy [of es s b n]
    by (auto simp: mapper_inv_def first_same)
next
  case Finished
  then have "first_policy es \<noteq> None" "first_rollout es \<noteq> None" using assms by (auto simp: mapper_inv_def)
  then show ?thesis using Finished assms by (simp add: mapper_inv_def first_same)
qed

lemma inv_rollout_report:
  assumes "mapper_inv env es s"
  shows "mapper_inv env (es @ [Rollout_Report b n]) (set_shard_infos_of_rollout b n s)"
proof (cases "phase_of s")
  case Collecting
  let ?t = "set_shard_infos_of_rollout b n s"
  have h: "has_reports es s" "sm_recv s = None" "first_policy es \<noteq> None \<and> first_rollout es \<noteq> None \<longrightarrow> 0 < sm_pending s"
    using assms Collecting by (simp_all add: mapper_inv_def)
  have "first_rollout es \<noteq> None \<or> 0 < sm_pending ?t" "first_policy (es @ [Rollout_Report b n]) = first_policy es"
    using h(1) by (auto simp: has_reports_def set_shard_infos_of_rollout_def first_policy_snoc split: option.split)
  moreover have "sm_recv ?t = None" "sm_pending s \<le> sm_pending ?t" using h(2) by (simp_all add: set_shard_infos_of_rollout_def)
  ultimately show ?thesis using h(3) Collecting reports_rollout [OF h(1), of b n] by (auto simp: mapper_inv_def)
next
  case Unpacking
  then show ?thesis using assms reports_rollout [of es s b n]
    by (auto simp: mapper_inv_def first_same)
next
  case Finished
  then have "first_policy es \<noteq> None" "first_rollout es \<noteq> None" using assms by (auto simp: mapper_inv_def)
  then show ?thesis using Finished assms by (simp add: mapper_inv_def first_same)
qed

lemma first_other: "first_policy (es @ [Run_Task]) = first_policy es" "first_rollout (es @ [Run_Task]) = first_rollout es"
    "first_policy (es @ [Unpacked]) = first_policy es" "first_rollout (es @ [Unpacked]) = first_rollout es"
    "first_policy (es @ [Get_Send i]) = first_policy es" "first_rollout (es @ [Get_Send i]) = first_rollout es"
    "first_policy (es @ [Get_Recv i]) = first_policy es" "first_rollout (es @ [Get_Recv i]) = first_rollout es"
    "first_policy (es @ [Get_Trainable]) = first_policy es" "first_rollout (es @ [Get_Trainable]) = first_rollout es"
  by (simp_all add: first_policy_snoc first_rollout_snoc split: option.split)

lemma inv_same: "first_policy es' = first_policy es \<Longrightarrow> first_rollout es' = first_rollout es \<Longrightarrow>
   mapper_inv env es' s = mapper_inv env es s"
  by (cases "phase_of s") (simp_all add: mapper_inv_def has_reports_def)

lemma begin_run: "has_reports es s \<Longrightarrow> phase_of s = Collecting \<Longrightarrow> sm_recv s = None \<Longrightarrow>
   post_set_begin s = (if first_policy es \<noteq> None \<and> first_rollout es \<noteq> None
     then s\<lparr>sm_send := Some [], sm_recv := Some [], sm_unpacking := True\<rparr> else s)"
  by (auto simp: post_set_begin_def has_reports_def phase_of_def split: if_splits)

lemma inv_run_task:
  assumes "mapper_inv env es s"
  shows "mapper_inv env es (snd (mapper_step env Run_Task s))"
proof (cases "phase_of s")
  case Collecting
  let ?s = "s\<lparr>sm_pending := sm_pending s - 1\<rparr>"
  have h: "has_reports es s" "sm_recv s = None" "first_policy es \<noteq> None \<and> first_rollout es \<noteq> None \<longrightarrow> 0 < sm_pending s"
    using assms Collecting by (simp_all add: mapper_inv_def)
  have r: "has_reports es ?s" using h(1) by (simp add: has_reports_def)
  have b: "post_set_begin ?s = (if first_policy es \<noteq> None \<and> first_rollout es \<noteq> None
     then ?s\<lparr>sm_send := Some [], sm_recv := Some [], sm_unpacking := True\<rparr> else ?s)"
    using begin_run [OF r] Collecting h(2) by simp
  show ?thesis
  proof (cases "first_policy es \<noteq> None \<and> first_rollout es \<noteq> None")
    case True
    let ?t = "?s\<lparr>sm_send := Some [], sm_recv := Some [], sm_unpacking := True\<rparr>"
    have "has_reports es ?t" using r by (simp add: has_reports_def)
    moreover have "phase_of ?t = Unpacking" by (simp add: phase_of_def)
    ultimately have "mapper_inv env es ?t" using True by (simp add: mapper_inv_def)
    moreover have "snd (mapper_step env Run_Task s) = ?t" using True b h(3) by auto
    ultimately show ?thesis by simp
  next
    case False
    then have "mapper_inv env es ?s" using r h(2) Collecting unfolding mapper_inv_def by auto
    moreover have "snd (mapper_step env Run_Task s) \<in> {?s, s}" using False b by auto
    ultimately show ?thesis using assms by auto
  qed
next
  case Unpacking
  then have "post_set_begin (s\<lparr>sm_pending := k\<rparr>) = s\<lparr>sm_pending := k\<rparr>" for k
    using assms by (simp add: mapper_inv_def post_set_begin_def)
  then show ?thesis using Unpacking assms by (simp add: mapper_inv_def has_reports_def)
next
  case Finished
  then have "post_set_begin (s\<lparr>sm_pending := k\<rparr>) = s\<lparr>sm_pending := k\<rparr>" for k
    by (auto simp: post_set_begin_def phase_of_def split: if_splits)
  then show ?thesis using Finished assms by (simp add: mapper_inv_def)
qed

lemma inv_unpacked:
  assumes "mapper_inv env es s"
  shows "mapper_inv env es (snd (mapper_step env Unpacked s))"
proof (cases "sm_unpacking s")
  case True
  then obtain P R where h: "has_reports es s" "sm_send s = Some []" "sm_recv s = Some []"
    "first_policy es = Some P" "first_rollout es = Some R"
    using assms by (auto simp: mapper_inv_def phase_of_def)
  let ?t = "final (post_set_finish env s)"
  have "plan_outcome env P R ?t"
    using h post_set_fails [of s "fst P" "fst R" env] post_set_build [of s "fst P" "fst R" env]
    by (auto simp: has_reports_def plan_outcome_def split: sum.split)
  moreover from this have "phase_of ?t = Finished"
    by (auto simp: phase_of_def plan_outcome_def plan_failed_def plan_ready_def split: sum.splits)
  ultimately show ?thesis using True h(4,5) by (simp add: mapper_inv_def)
next
  case False
  then show ?thesis using assms by simp
qed

text \<open>A request for instructions answers with the plan's, and enters them at most.\<close>

lemma ready_send:
  assumes "plan_ready m np nr s"
  shows "case ebind (py_index np i) (generate_send_insts m) of Inl e \<Rightarrow> get_send_insts_for_policy i s = Raise e s
    | Inr x \<Rightarrow> \<exists>t. get_send_insts_for_policy i s = Ok x t \<and> plan_ready m np nr t"
proof (cases "py_index np i")
  case (Inl e)
  then show ?thesis using assms by (auto simp: plan_ready_def get_send_insts_for_policy_def Let_def)
next
  case (Inr j)
  then have j: "j < np" by (auto simp: py_index_def split: if_splits)
  obtain sent recd where s: "sm_send s = Some sent" "length sent = np" "sm_recv s = Some recd"
    "sent ! j = None \<or> Inr (the (sent ! j)) = generate_send_insts m j"
    using assms j by (auto simp: plan_ready_def)
  have r: "(case sent ! j of Some x \<Rightarrow> Inr x | None \<Rightarrow> ebind (py_index (length (fst (the (sm_results s)))) i)
      (\<lambda>k. fst (the (sm_results s)) ! k)) = generate_send_insts m j"
    using s(4) assms Inr j by (auto simp: plan_ready_def split: option.split)
  show ?thesis
  proof (cases "generate_send_insts m j")
    case (Inl e)
    then show ?thesis using s r Inr by (simp add: get_send_insts_for_policy_def Let_def)
  next
    case (Inr x)
    let ?t = "cleanup (s\<lparr>sm_send := Some (sent[j := Some x])\<rparr>)"
    have "plan_ready m np nr (s\<lparr>sm_send := Some (sent[j := Some x])\<rparr>)"
      using assms s(1,2) Inr j by (auto simp: plan_ready_def nth_list_update)
    then have "plan_ready m np nr ?t" by (simp add: cleanup_def plan_ready_def)
    then show ?thesis using s r Inr \<open>py_index np i = Inr j\<close> by (simp add: get_send_insts_for_policy_def Let_def)
  qed
qed

lemma ready_recv:
  assumes "plan_ready m np nr s"
  shows "case ebind (py_index nr i) (generate_recv_insts m) of Inl e \<Rightarrow> get_recv_insts_for_rollout i s = Raise e s
    | Inr x \<Rightarrow> \<exists>t. get_recv_insts_for_rollout i s = Ok x t \<and> plan_ready m np nr t"
proof (cases "py_index nr i")
  case (Inl e)
  then show ?thesis using assms by (auto simp: plan_ready_def get_recv_insts_for_rollout_def Let_def)
next
  case (Inr j)
  then have j: "j < nr" by (auto simp: py_index_def split: if_splits)
  obtain sent recd where s: "sm_send s = Some sent" "length recd = nr" "sm_recv s = Some recd"
    "recd ! j = None \<or> Inr (the (recd ! j)) = generate_recv_insts m j"
    using assms j by (auto simp: plan_ready_def)
  have r: "(case recd ! j of Some x \<Rightarrow> Inr x | None \<Rightarrow> ebind (py_index (length (snd (the (sm_results s)))) i)
      (\<lambda>k. snd (the (sm_results s)) ! k)) = generate_recv_insts m j"
    using s(4) assms Inr j by (auto simp: plan_ready_def split: option.split)
  show ?thesis
  proof (cases "generate_recv_insts m j")
    case (Inl e)
    then show ?thesis using s r Inr by (simp add: get_recv_insts_for_rollout_def Let_def)
  next
    case (Inr x)
    let ?t = "cleanup (s\<lparr>sm_recv := Some (recd[j := Some x])\<rparr>)"
    have "plan_ready m np nr (s\<lparr>sm_recv := Some (recd[j := Some x])\<rparr>)"
      using assms s(2,3) Inr j by (auto simp: plan_ready_def nth_list_update)
    then have "plan_ready m np nr ?t" by (simp add: cleanup_def plan_ready_def)
    then show ?thesis using s r Inr \<open>py_index nr i = Inr j\<close> by (simp add: get_recv_insts_for_rollout_def Let_def)
  qed
qed

lemma ready_phase: "plan_ready m np nr s \<Longrightarrow> phase_of s = Finished \<and> sm_done s"
  by (auto simp: plan_ready_def phase_of_def)

lemma inv_done:
  assumes "mapper_inv env es s" "sm_done s"
  obtains P R m where "first_policy es = Some P" "first_rollout es = Some R" "build_plan env P R = Inr m"
    "plan_ready m (snd P) (snd R) s"
proof -
  have "phase_of s = Finished"
    using assms by (cases "phase_of s") (auto simp: mapper_inv_def has_reports_def)
  with assms(1) obtain P R where h: "first_policy es = Some P" "first_rollout es = Some R"
    "plan_outcome env P R s"
    by (auto simp: mapper_inv_def)
  with assms(2) show ?thesis using that [OF h(1,2)]
    by (cases "build_plan env P R") (simp_all add: plan_outcome_def plan_failed_def)
qed

lemma inv_get:
  assumes "mapper_inv env es s"
  shows "mapper_inv env es (snd (mapper_step env (Get_Send i) s))" "mapper_inv env es (snd (mapper_step env (Get_Recv i) s))"
proof -
  have "mapper_inv env es (snd (mapper_step env (Get_Send i) s)) \<and> mapper_inv env es (snd (mapper_step env (Get_Recv i) s))"
  proof (cases "sm_done s")
    case True
    with assms obtain P R m where h: "first_policy es = Some P" "first_rollout es = Some R" "build_plan env P R = Inr m"
      "plan_ready m (snd P) (snd R) s" by (rule inv_done)
    have "mapper_inv env es t" if "plan_ready m (snd P) (snd R) t" for t
      using h that ready_phase [OF that] by (simp add: mapper_inv_def plan_outcome_def)
    then show ?thesis using True h(4) ready_send [OF h(4), of i] ready_recv [OF h(4), of i]
      by (auto simp: answer_of_def split: sum.splits)
  qed (use assms in simp)
  then show "mapper_inv env es (snd (mapper_step env (Get_Send i) s))" "mapper_inv env es (snd (mapper_step env (Get_Recv i) s))"
    by auto
qed

lemma mapper_inv_step: "mapper_inv env es s \<Longrightarrow> mapper_inv env (es @ [e]) (snd (mapper_step env e s))"
proof (cases e)
  case Run_Task
  then show "mapper_inv env es s \<Longrightarrow> ?thesis" using inv_run_task inv_same [OF first_other(1,2)] by metis
next
  case Unpacked
  then show "mapper_inv env es s \<Longrightarrow> ?thesis" using inv_unpacked inv_same [OF first_other(3,4)] by metis
next
  case (Get_Send i)
  then show "mapper_inv env es s \<Longrightarrow> ?thesis" using inv_get(1) inv_same [OF first_other(5,6)] by metis
next
  case (Get_Recv i)
  then show "mapper_inv env es s \<Longrightarrow> ?thesis" using inv_get(2) inv_same [OF first_other(7,8)] by metis
next
  case Get_Trainable
  then show "mapper_inv env es s \<Longrightarrow> ?thesis" using inv_same [OF first_other(9,10)] by (metis mapper_step.simps(7) snd_conv)
qed (use inv_policy_report inv_rollout_report in simp_all)

lemma mapper_inv_run: "mapper_inv env es (mapper_run env es new_mapper)"
proof (induction es rule: rev_induct)
  case (snoc e es)
  then show ?case using mapper_inv_step by (simp add: mapper_run_append)
qed (simp add: inv_new)

section \<open>What requests are answered\<close>

definition planned_send :: "shard_plan \<Rightarrow> nat \<Rightarrow> int \<Rightarrow> mapper_answer" where
  "planned_send m n i = (case ebind (py_index n i) (generate_send_insts m) of Inl e \<Rightarrow> Failed e | Inr x \<Rightarrow> Instructions x)"

definition planned_recv :: "shard_plan \<Rightarrow> nat \<Rightarrow> int \<Rightarrow> mapper_answer" where
  "planned_recv m n i = (case ebind (py_index n i) (generate_recv_insts m) of Inl e \<Rightarrow> Failed e | Inr x \<Rightarrow> Instructions x)"

lemma answers_run:
  assumes "first_policy es = Some P" "first_rollout es = Some R"
  shows "answer_after env es (Get_Send i) = (if sm_done (mapper_run env es new_mapper)
      then planned_send (projr (build_plan env P R)) (snd P) i else Waits)"
    and "answer_after env es (Get_Recv i) = (if sm_done (mapper_run env es new_mapper)
      then planned_recv (projr (build_plan env P R)) (snd R) i else Waits)"
    and "sm_done (mapper_run env es new_mapper) \<Longrightarrow> \<exists>m. build_plan env P R = Inr m"
proof -
  let ?s = "mapper_run env es new_mapper"
  have "(answer_after env es (Get_Send i) = (if sm_done ?s then planned_send (projr (build_plan env P R)) (snd P) i else Waits))
    \<and> (answer_after env es (Get_Recv i) = (if sm_done ?s then planned_recv (projr (build_plan env P R)) (snd R) i else Waits))
    \<and> (sm_done ?s \<longrightarrow> (\<exists>m. build_plan env P R = Inr m))"
  proof (cases "sm_done ?s")
    case True
    with mapper_inv_run obtain m where m: "build_plan env P R = Inr m" "plan_ready m (snd P) (snd R) ?s"
      using assms by (metis inv_done option.inject)
    show ?thesis using True m(1) ready_send [OF m(2), of i] ready_recv [OF m(2), of i]
      by (auto simp: answer_after_def answer_of_def planned_send_def planned_recv_def split: sum.splits)
  qed (simp add: answer_after_def)
  then show "answer_after env es (Get_Send i) = (if sm_done ?s then planned_send (projr (build_plan env P R)) (snd P) i else Waits)"
    "answer_after env es (Get_Recv i) = (if sm_done ?s then planned_recv (projr (build_plan env P R)) (snd R) i else Waits)"
    "sm_done ?s \<Longrightarrow> \<exists>m. build_plan env P R = Inr m" by auto
qed

lemma not_done_early:
  assumes "first_policy es = None \<or> first_rollout es = None"
  shows "\<not> sm_done (mapper_run env es new_mapper)"
  using mapper_inv_run [of env es] assms
  by (cases "phase_of (mapper_run env es new_mapper)") (auto simp: mapper_inv_def has_reports_def)

text \<open>Pending tasks: at most one for each event so far.\<close>

lemma pending_finish: "sm_pending (final (post_set_finish env s)) = sm_pending s"
proof -
  have "keeps sm_pending (post_set_finish env)"
    unfolding post_set_finish_def take_policy_def take_rollout_def start_planning_def on_plan_def
    by (intro frame; simp add: keeps_modify)
  then show ?thesis by (rule keepsD)
qed

lemma pending_get: "sm_pending (snd (mapper_step env (Get_Send i) s)) = sm_pending s"
  "sm_pending (snd (mapper_step env (Get_Recv i) s)) = sm_pending s"
  by (auto simp: answer_of_def get_send_insts_for_policy_def get_recv_insts_for_rollout_def bnd_def lift_sum_def cleanup_def
      Let_def split: outcome.splits sum.splits)

lemma pending_step: "sm_pending (snd (mapper_step env e s)) \<le> Suc (sm_pending s)"
proof (cases e)
  case Run_Task
  then show ?thesis by (auto simp: post_set_begin_def)
qed (simp_all add: set_shard_infos_of_policy_def set_shard_infos_of_rollout_def pending_finish pending_get del: mapper_step.simps(5,6))

lemma pending_bound: "sm_pending (mapper_run env es s) \<le> sm_pending s + length es"
proof (induction es arbitrary: s)
  case (Cons e es)
  have "sm_pending (mapper_run env (e # es) s) \<le> sm_pending (snd (mapper_step env e s)) + length es"
    using Cons [of "snd (mapper_step env e s)"] by simp
  also have "\<dots> \<le> Suc (sm_pending s) + length es" using pending_step [of env e s] by simp
  finally show ?case by simp
qed simp

lemma pending_new: "sm_pending (mapper_run env es new_mapper) \<le> length es"
  using pending_bound [of env es new_mapper] by (simp add: new_mapper_def)

text \<open>Running all pending tasks gets a process that has both reports out of collecting.\<close>

lemma run_tasks_pending: "sm_pending (mapper_run env (replicate n Run_Task) s) = sm_pending s - n"
  by (induction n arbitrary: s) (auto simp: post_set_begin_def)

lemma first_append:
  "first_policy es = Some P \<Longrightarrow> first_policy (es @ fs) = Some P"
  "first_rollout es = Some R \<Longrightarrow> first_rollout (es @ fs) = Some R"
proof -
  show "first_policy es = Some P \<Longrightarrow> first_policy (es @ fs) = Some P" by (induction es rule: first_policy.induct) simp_all
  show "first_rollout es = Some R \<Longrightarrow> first_rollout (es @ fs) = Some R" by (induction es rule: first_rollout.induct) simp_all
qed

lemma tasks_leave_collecting:
  assumes "first_policy es = Some P" "first_rollout es = Some R" "length es \<le> n"
  shows "phase_of (mapper_run env (es @ replicate n Run_Task) new_mapper) \<noteq> Collecting"
proof
  assume c: "phase_of (mapper_run env (es @ replicate n Run_Task) new_mapper) = Collecting"
  have "0 < sm_pending (mapper_run env (es @ replicate n Run_Task) new_mapper)"
    using mapper_inv_run [of env "es @ replicate n Run_Task"] c
    by (simp add: mapper_inv_def first_append(1) [OF assms(1)] first_append(2) [OF assms(2)])
  moreover have "sm_pending (mapper_run env (es @ replicate n Run_Task) new_mapper) = 0"
    using pending_new [of env es] assms(3) by (simp add: mapper_run_append run_tasks_pending)
  ultimately show False by simp
qed

lemma tasks_finish:
  assumes "first_policy es = Some P" "first_rollout es = Some R" "length es \<le> n"
  shows "phase_of (mapper_run env (es @ replicate n Run_Task @ [Unpacked]) new_mapper) = Finished"
proof -
  let ?s = "mapper_run env (es @ replicate n Run_Task) new_mapper"
  have run: "mapper_run env (es @ replicate n Run_Task @ [Unpacked]) new_mapper = snd (mapper_step env Unpacked ?s)"
    by (simp add: mapper_run_append)
  show ?thesis
  proof (cases "sm_unpacking ?s")
    case True
    then obtain P R where h: "has_reports (es @ replicate n Run_Task) ?s" "sm_send ?s = Some []" "sm_recv ?s = Some []"
      "first_policy (es @ replicate n Run_Task) = Some P" "first_rollout (es @ replicate n Run_Task) = Some R"
      using mapper_inv_run [of env "es @ replicate n Run_Task"] by (auto simp: mapper_inv_def phase_of_def)
    show ?thesis
      using h True post_set_fails [of ?s "fst P" "fst R" env] post_set_build [of ?s "fst P" "fst R" env]
      unfolding run
      by (cases "build_plan env P R") (auto simp: has_reports_def phase_of_def plan_failed_def plan_ready_def)
  next
    case False
    then show ?thesis using tasks_leave_collecting [OF assms, of env] unfolding run by (auto simp: phase_of_def split: if_splits)
  qed
qed

text \<open>C20: whatever reports and requests come in whatever order, the instructions handed out are always the ones of
  one plan, computed from the first report of the policy side and the first of the rollout side; later
  reports, failed requests and the caching of instructions change nothing.\<close>

theorem instructions_of_first_reports:
  "(answer_after env es (Get_Send i) = Waits \<and> answer_after env es (Get_Recv j) = Waits)
   \<or> (\<exists>P R m. first_policy es = Some P \<and> first_rollout es = Some R \<and> build_plan env P R = Inr m
        \<and> answer_after env es (Get_Send i) = planned_send m (snd P) i
        \<and> answer_after env es (Get_Recv j) = planned_recv m (snd R) j)"
proof (cases "first_policy es = None \<or> first_rollout es = None")
  case True
  then show ?thesis using not_done_early [of es env] by (simp add: answer_after_def)
next
  case False
  then obtain P R where h: "first_policy es = Some P" "first_rollout es = Some R" by auto
  show ?thesis using answers_run [OF h, of env] h by (cases "sm_done (mapper_run env es new_mapper)") auto
qed

text \<open>C21: once both sides have reported, it takes only the background tasks to run for every request to be
  answered, unless the reports make no plan; then no request is ever answered again, whatever is reported.\<close>

theorem requests_answered:
  assumes "first_policy es = Some P" "first_rollout es = Some R" "length es \<le> n"
  shows "case build_plan env P R of
      Inl e \<Rightarrow> (\<forall>later. answer_after env (es @ later) (Get_Send i) = Waits \<and> answer_after env (es @ later) (Get_Recv j) = Waits)
    | Inr m \<Rightarrow> answer_after env (es @ replicate n Run_Task @ [Unpacked]) (Get_Send i) = planned_send m (snd P) i
        \<and> answer_after env (es @ replicate n Run_Task @ [Unpacked]) (Get_Recv j) = planned_recv m (snd R) j"
proof (cases "build_plan env P R")
  case (Inl e)
  have "\<not> sm_done (mapper_run env (es @ later) new_mapper)" for later
    using answers_run(3) [OF first_append(1) [OF assms(1)] first_append(2) [OF assms(2)], of env later] Inl by auto
  then show ?thesis by (simp add: Inl answer_after_def)
next
  case (Inr m)
  let ?es = "es @ replicate n Run_Task @ [Unpacked]" and ?s = "mapper_run env (es @ replicate n Run_Task @ [Unpacked]) new_mapper"
  have f: "first_policy ?es = Some P" "first_rollout ?es = Some R"
    using first_append(1) [OF assms(1)] first_append(2) [OF assms(2)] by auto
  have "mapper_inv env ?es ?s" by (rule mapper_inv_run)
  then have "plan_outcome env P R ?s" using tasks_finish [OF assms, of env] f by (simp add: mapper_inv_def)
  then have "sm_done ?s" by (simp add: plan_outcome_def Inr plan_ready_def)
  then show ?thesis using answers_run(1,2) [OF f, of env] by (simp add: Inr)
qed

text \<open>What a replica reports, as far as the order of the transfers depends on it: the names of a rank's
  pipeline stage are sorted, each listed once, and contain what the rank holds.\<close>

definition well_listed :: "rank_infos list \<Rightarrow> string list list \<Rightarrow> nat list \<Rightarrow> nat \<Rightarrow> bool" where
  "well_listed infos sorted_params pp rank \<longleftrightarrow>
     (let names = sorted_params ! (pp ! rank) in
      sorted names \<and> distinct names \<and> set (dict_keys (infos ! rank)) \<subseteq> set names)"

lemma instructions_planned:
  assumes "first_policy es = Some P" "first_rollout es = Some R" "build_plan env P R = Inr m"
  shows "answer_after env es (Get_Send i) = Instructions S \<Longrightarrow> planned_send m (snd P) i = Instructions S"
    and "answer_after env es (Get_Recv i) = Instructions S \<Longrightarrow> planned_recv m (snd R) i = Instructions S"
  unfolding answers_run(1,2) [OF assms(1,2)] assms(3) sum.sel
  by (cases "sm_done (mapper_run env es new_mapper)"; simp)+

lemma py_index_nat: "ebind (py_index n (int p)) f = Inr x \<Longrightarrow> f p = Inr x"
  by (auto simp: ebind_Inr_iff py_index_def split: if_splits)

text \<open>C19: from the reports to the transfers: the instructions that policy rank \<open>p\<close> and rollout rank \<open>r\<close> are
  handed, at whatever times they ask, make \<open>p\<close> send to \<open>r\<close> the parameters that \<open>r\<close> receives from \<open>p\<close>, in the
  order in which \<open>r\<close> receives them.\<close>

theorem answers_agree:
  assumes "answer_after env es (Get_Send (int p)) = Instructions S"
    and "answer_after env (es @ later) (Get_Recv (int r)) = Instructions T"
    and "first_policy es = Some P" "first_rollout es = Some R" "build_plan env P R = Inr m"
    and "well_listed (pl_policy_infos m) (pl_sorted_policy m) (pl_pp_rank_map_policy m) p"
    and "well_listed (pl_rollout_infos m) (pl_sorted_rollout m) (pl_pp_rank_map_rollout m) r"
  shows "map fst (filter (\<lambda>(n, i). si_rollout_rank i = r) (in_order S))
    = map fst (filter (\<lambda>(n, i). si_policy_rank i = p) (in_order T))"
proof -
  have "planned_send m (snd P) (int p) = Instructions S"
    by (rule instructions_planned(1) [OF assms(3-5,1)])
  then have S: "generate_send_insts m p = Inr S"
    by (auto simp: planned_send_def split: sum.splits dest: py_index_nat)
  have "planned_recv m (snd R) (int r) = Instructions T"
    by (rule instructions_planned(2) [OF first_append(1) [OF assms(3)] first_append(2) [OF assms(4)] assms(5,2)])
  then have T: "generate_recv_insts m r = Inr T"
    by (auto simp: planned_recv_def split: sum.splits dest: py_index_nat)
  show ?thesis
    using assms(6,7) unfolding well_listed_def Let_def by (intro same_order [OF S T refl refl]) auto
qed

section \<open>A sample\<close>

definition sample_parallelism :: parallelism_config where
  "sample_parallelism = \<lparr>pc_n_init_replicas = 1, pc_tp_size = 1, pc_cp_size = 1, pc_ep_size = 1, pc_dp_shard_size = -1,
     pc_pp_size = 1, pc_pp_dynamic_shape = False, pc_pp_micro_batch_size = 1, pc_dp_replicate_size = 1\<rparr>"

text \<open>The policy side reports \<open>True\<close>, the rollout side \<open>False\<close>.\<close>

definition sample_report :: "bool \<Rightarrow> shard_report" where
  "sample_report b = \<lparr>rp_shard_infos = Some (if b then fst sample_infos else snd sample_infos), rp_param_groups = Some [],
     rp_sorted_params = Some [[''w'']], rp_trainable_params = Some [''w'']\<rparr>"

definition sample_env :: "bool mapper_env" where
  "sample_env = \<lparr>me_unpackb = (\<lambda>b. Inr (sample_report b)), me_set_order = (\<lambda>gs. gs), me_split = plain_split,
     me_policy_parallelism = sample_parallelism, me_rollout_parallelism = sample_parallelism\<rparr>"

lemma sample_pp: "pp_rank_map plain_split sample_parallelism 2 = Inr [0, 0]"
  by code_simp

lemma sample_build: "build_plan sample_env (True, 2) (False, 2) = Inr sample_plan"
  using sample_pp
  by (simp add: build_plan_def sample_env_def sample_report_def need_def all_groups_def add_groups_eq empty_plan_def sort_groups_def
      ensure_def grp_entries_def sample_plan_def)

definition sample_reports :: "bool mapper_event list" where
  "sample_reports = [Policy_Report True 2, Rollout_Report False 2]"

lemma sample_firsts: "first_policy (sample_reports @ es) = Some (True, 2)" "first_rollout (sample_reports @ es) = Some (False, 2)"
    "first_policy sample_reports = Some (True, 2)" "first_rollout sample_reports = Some (False, 2)" "length sample_reports = 2"
  by (simp_all add: sample_reports_def)

text \<open>Rank 1 of the policy, and the last one, which is the same; rank 3, which does not exist.\<close>

theorem requests_answered_witness:
  "\<exists>S. let es = sample_reports @ replicate 2 Run_Task @ [Unpacked] in S \<noteq> []
     \<and> answer_after sample_env es (Get_Send 1) = Instructions S
     \<and> answer_after sample_env es (Get_Send (-1)) = Instructions S
     \<and> answer_after sample_env es (Get_Recv 3) = Failed IndexError"
proof -
  obtain out :: "sync_inst list" where S: "generate_send_insts sample_plan 1 = Inr [[\<lparr>pi_param_name = ''w'', pi_instructions = out\<rparr>]]"
    using sample_plan_insts by (elim exE conjE) (rule that)
  note a = requests_answered [OF sample_firsts(3,4), of 2 sample_env 1 3, unfolded sample_build, simplified sample_firsts(5), simplified]
    requests_answered [OF sample_firsts(3,4), of 2 sample_env "-1" 3, unfolded sample_build, simplified sample_firsts(5), simplified]
  show ?thesis
    by (rule exI [of _ "[[\<lparr>pi_param_name = ''w'', pi_instructions = out\<rparr>]]"])
      (use a S in \<open>simp add: Let_def planned_send_def planned_recv_def py_index_def\<close>)
qed

theorem answers_agree_witness:
  "\<exists>S T. let es = sample_reports @ replicate 2 Run_Task @ [Unpacked] in
     answer_after sample_env es (Get_Send 1) = Instructions S
     \<and> answer_after sample_env (es @ [Get_Send 1]) (Get_Recv 0) = Instructions T
     \<and> map fst (filter (\<lambda>(n, i). si_rollout_rank i = 0) (in_order S)) = [''w'']
     \<and> map fst (filter (\<lambda>(n, i). si_policy_rank i = 1) (in_order T)) = [''w'']"
proof -
  let ?es = "sample_reports @ replicate 2 Run_Task @ [Unpacked]"
  obtain out ins :: "sync_inst list" where out: "map si_rollout_rank out = [0, 1]"
    and S: "generate_send_insts sample_plan 1 = Inr [[\<lparr>pi_param_name = ''w'', pi_instructions = out\<rparr>]]"
    and T: "generate_recv_insts sample_plan 0 = Inr [[\<lparr>pi_param_name = ''w'', pi_instructions = ins\<rparr>]]"
    using sample_plan_insts by (elim exE conjE) (rule that)
  let ?S = "[[\<lparr>pi_param_name = ''w'', pi_instructions = out\<rparr>]]" and ?T = "[[\<lparr>pi_param_name = ''w'', pi_instructions = ins\<rparr>]]"
  have fin: "phase_of (mapper_run sample_env ?es new_mapper) = Finished"
    by (rule tasks_finish [OF sample_firsts(3,4)]) (simp add: sample_firsts)
  then have "plan_outcome sample_env (True, 2) (False, 2) (mapper_run sample_env ?es new_mapper)"
    using mapper_inv_run [of sample_env ?es] by (simp add: mapper_inv_def sample_firsts)
  then have ready: "plan_ready sample_plan 2 2 (mapper_run sample_env ?es new_mapper)"
    by (simp add: plan_outcome_def sample_build)
  from ready_send [OF this, of 1] have "answer_after sample_env ?es (Get_Send 1) = Instructions ?S"
    "sm_done (mapper_run sample_env (?es @ [Get_Send 1]) new_mapper)"
    using S ready by (auto simp: py_index_def answer_after_def answer_of_def plan_ready_def mapper_run_append)
  moreover from this(2) have "answer_after sample_env (?es @ [Get_Send 1]) (Get_Recv 0) = Instructions ?T"
    using answers_run(2) [of "?es @ [Get_Send 1]" "(True, 2)" "(False, 2)" sample_env 0] T
    by (simp add: sample_firsts sample_build planned_recv_def py_index_def)
  moreover from calculation have "map fst (filter (\<lambda>(n, i). si_rollout_rank i = 0) (in_order ?S))
      = map fst (filter (\<lambda>(n, i). si_policy_rank i = 1) (in_order ?T))"
    by (intro answers_agree [of sample_env ?es 1 ?S "[Get_Send 1]" 0 ?T "(True, 2)" "(False, 2)" sample_plan])
      (simp_all add: sample_firsts sample_build well_listed_def sample_plan_def sample_infos_def dict_keys_def)
  moreover have "map fst (filter (\<lambda>(n, i). si_rollout_rank i = 0) (in_order ?S)) = [''w'']"
    using out by (auto simp: in_order_simps map_eq_Cons_conv)
  ultimately show ?thesis by (intro exI [of _ ?S] exI [of _ ?T]) (simp add: Let_def)
qed

end
