(* ===== verification/Sharing.thy ===== *)
theory Sharing
  imports Py_Base
begin

text \<open>Slices with a step, by which ranks share out a list: the closed form of a share, and that the shares of all
  ranks together are the list. Used for prompts, rollouts and the samples of a dataset.\<close>

text \<open>\<open>xs[r::n]\<close>.\<close>

definition stride :: "nat \<Rightarrow> nat \<Rightarrow> 'a list \<Rightarrow> 'a list" where
  "stride r n xs = map (\<lambda>i. xs ! i) (filter (\<lambda>i. r \<le> i \<and> (i - r) mod n = 0) [0..<length xs])"

text \<open>The share of a rank, in closed form.\<close>

lemma residue_indices:
  assumes "r < n"
  shows "filter (\<lambda>i. i mod n = r) [0..<m] = map (\<lambda>k. r + k * n) [0..<(m + n - 1 - r) div n]"
proof (induction m)
  case (Suc m)
  have k: "Suc m + n - 1 - r = Suc (m + n - 1 - r)" using assms by simp
  have e: "Suc (m + n - 1 - r) = m + (n - r)" using assms by simp
  show ?case
  proof (cases "m mod n = r")
    case True
    then obtain q where m: "m = r + q * n" by (metis mod_mult_div_eq mult.commute)
    have "m + (n - r) = Suc q * n" using m assms by simp
    then have "Suc (m + n - 1 - r) div n = Suc q" unfolding e using assms by simp
    moreover have "m + n - 1 - r = (n - 1) + q * n" using m assms by simp
    then have "(m + n - 1 - r) div n = q" using assms by (simp only: div_mult_self1) simp
    ultimately show ?thesis using Suc True m k by simp
  next
    case False
    have "(m + (n - r)) mod n \<noteq> 0"
    proof
      assume "(m + (n - r)) mod n = 0"
      then obtain c where "m + (n - r) = c * n" by (metis dvd_def mod_eq_0_iff_dvd mult.commute)
      then have "m + n = r + c * n" using assms by simp
      then have "m mod n = r" by (metis assms mod_add_self2 mod_less mod_mult_self1)
      with False show False by simp
    qed
    then have "Suc (m + n - 1 - r) mod n \<noteq> 0" unfolding e .
    then have "Suc (m + n - 1 - r) div n = (m + n - 1 - r) div n" by (simp add: div_Suc)
    then show ?thesis using Suc False k by simp
  qed
qed (use assms in simp)

lemma stride_filter: "r < n \<Longrightarrow> stride r n xs = map ((!) xs) (filter (\<lambda>i. i mod n = r) [0..<length xs])"
proof -
  assume r: "r < n"
  have "(r \<le> i \<and> (i - r) mod n = 0) \<longleftrightarrow> i mod n = r" for i
  proof
    assume "r \<le> i \<and> (i - r) mod n = 0"
    then obtain c where "i - r = c * n" "r \<le> i" by (metis dvd_def mod_eq_0_iff_dvd mult.commute)
    then have "i = r + c * n" by simp
    then show "i mod n = r" using r by simp
  next
    assume i: "i mod n = r"
    then have "i = r + (i div n) * n" by (metis add.commute mult.commute mult_div_mod_eq)
    then show "r \<le> i \<and> (i - r) mod n = 0" by (metis add_diff_cancel_left' le_add1 mod_mult_self2_is_0)
  qed
  then show ?thesis by (simp add: stride_def)
qed

lemma stride_map: "r < n \<Longrightarrow> stride r n xs = map (\<lambda>k. xs ! (r + k * n)) [0..<(length xs + n - 1 - r) div n]"
  by (simp add: stride_filter residue_indices)

lemma residues_all: "0 < n \<Longrightarrow> mset (concat (map (\<lambda>r. filter (\<lambda>i. i mod n = r) is) [0..<n])) = mset is"
proof (induction "is")
  case (Cons i "is")
  have "mset (concat (map (\<lambda>r. filter (\<lambda>i. i mod n = r) (i # is)) rs))
      = mset (concat (map (\<lambda>r. filter (\<lambda>i. i mod n = r) is) rs)) + replicate_mset (count (mset rs) (i mod n)) i" for rs
    by (induction rs) auto
  moreover have "count (mset [0..<n]) (i mod n) = 1" using Cons.prems by (simp add: count_mset)
  ultimately show ?case using Cons by simp
qed simp

lemma shares_all: "0 < n \<Longrightarrow> mset (concat (map (\<lambda>r. stride r n xs) [0..<n])) = mset xs"
proof -
  assume n: "0 < n"
  have "map (\<lambda>r. stride r n xs) [0..<n] = map (map ((!) xs)) (map (\<lambda>r. filter (\<lambda>i. i mod n = r) [0..<length xs]) [0..<n])"
    by (simp add: stride_filter)
  then have "mset (concat (map (\<lambda>r. stride r n xs) [0..<n]))
      = image_mset ((!) xs) (mset (concat (map (\<lambda>r. filter (\<lambda>i. i mod n = r) [0..<length xs]) [0..<n])))"
    by (simp only: map_concat [symmetric] mset_map)
  then show ?thesis unfolding residues_all [OF n] by (metis map_nth mset_map)
qed

end
