(* ===== verification/Rollout_Worker.thy ===== *)
theory Rollout_Worker
  imports Command_Model Weight_Sync Sharing
begin

text \<open>A rollout worker, \<open>DisaggregatedRolloutControlWorker\<close> of src/cosmos\_rl/rollout/worker/rollout\_control.py with the
  queue of reward tasks of src/cosmos\_rl/reward/dispatcher.py: it executes the controller's commands (meshes,
  weights from the policy, weights from other rollout replicas), fetches prompts, generates, filters, has
  rewards computed and reports. This is one rank in its synchronous mode. What the rank gets from outside -
  commands and the time at which it looks for them, replies with prompts, results of the inference engine,
  whether a reward is already computed - are streams in the state; a read past the end of a stream is
  \<open>QueueBlocked\<close>: the rank waits. What it does to the outside is a history.\<close>

section \<open>Configuration and state\<close>

record worker_env =
  we_name :: string
  we_global_rank :: nat
  we_dp_size :: nat
  we_dp_rank :: nat
  we_should_report :: bool
  we_batch_size :: nat
  we_val_batch_size :: nat
  we_allowed_outdated_steps :: int
  we_val_enable :: bool
  we_val_freq :: int
  we_val_before_train :: bool
  we_dapo :: bool
  we_local_dataset :: bool
  we_rollout_as_token_ids :: bool
  we_non_text :: bool
  we_multi_turn :: bool
  we_bypass_reward :: bool
  we_dispatch_as_rank_in_mesh :: bool
  we_colocated_separated :: bool
  we_quantized :: bool
  we_eos_token :: string
  we_nccl_group_size :: int
  we_wait_times :: int
  we_payload_per_task :: nat
  we_unsplit :: "string \<Rightarrow> string"
  we_model_params :: "string list"
  we_recv_keys :: "string list"
  we_trainable :: "string list"
  we_recv_insts :: "insts_group list"
  we_nccl_id_found :: bool
  we_compute :: "payload list \<Rightarrow> bool \<Rightarrow> int \<Rightarrow> error + payload list"
  we_rollout_output :: "payload \<Rightarrow> payload"
  we_prompt_of :: "bool \<Rightarrow> int \<Rightarrow> pyval"
  we_conversation_of :: "bool \<Rightarrow> int \<Rightarrow> conversation option"
  we_answer_of :: "bool \<Rightarrow> int \<Rightarrow> string option"

text \<open>An entry of the reward queue: already a tuple, or the future of a task given to the executor.\<close>

datatype reward_entry =
    Reward_Tuple "payload list" bool int
  | Reward_Future "payload list" bool int

datatype worker_event =
    Engine_Init string
  | Shards_Posted
  | Nccl_Id_Posted string
  | Nccl_Group_Start
  | Nccl_Group_End
  | Received string nat shard_info
  | Broadcast_Param string int
  | Prompts_Requested nat "int option"
  | Prompts_Queued "payload list"
  | Generated int "payload list"
  | Rollouts_Posted "payload list" "(string, int) dict"
  | Validated int int "payload list"
  | Validation_Posted int "payload list"
  | End_Posted
  | Teacher_End_Posted

text \<open>A look at the clock and at the command queue in the loop of \<open>consume_command\<close>: the time, what has arrived
  since, and for ranks other than 0 the command that rank 0 broadcasts; then the time after it.\<close>

record tick =
  tk_now :: int
  tk_arrived :: "command list"
  tk_broadcast :: "command option"
  tk_after :: int

record worker =
  wk_state :: int
  wk_commands :: "command list"
  wk_prompts :: "payload list list"
  wk_version :: int
  wk_rank :: int
  wk_ranks :: "(string, int) dict option"
  wk_comm :: "(int \<times> nat) option"
  wk_engine :: bool
  wk_recv_insts :: "insts_group list option"
  wk_trainable :: "string list option"
  wk_misc_params :: "string list"
  wk_non_trainable_received :: bool
  wk_p2r_cnt :: "nat option"
  wk_r2r_cnt :: "nat option"
  wk_validation_flag :: bool
  wk_current_step :: "int option"
  wk_shutdown :: bool
  wk_shutdown_mp :: bool
  wk_rewards :: "reward_entry list"
  wk_out :: "worker_event list"
  in_ticks :: "tick list"
  in_replies :: "(payload list \<times> bool) list"
  in_results :: "rollout_result list list"
  in_polls :: "bool list"

definition new_worker :: "tick list \<Rightarrow> (payload list \<times> bool) list \<Rightarrow> rollout_result list list \<Rightarrow> bool list \<Rightarrow> worker" where
  "new_worker ticks replies results polls = \<lparr>wk_state = 0, wk_commands = [], wk_prompts = [], wk_version = 0, wk_rank = -1,
     wk_ranks = None, wk_comm = None, wk_engine = False, wk_recv_insts = None, wk_trainable = None, wk_misc_params = [],
     wk_non_trainable_received = False, wk_p2r_cnt = None, wk_r2r_cnt = None, wk_validation_flag = False,
     wk_current_step = None, wk_shutdown = False, wk_shutdown_mp = False, wk_rewards = [], wk_out = [],
     in_ticks = ticks, in_replies = replies, in_results = results, in_polls = polls\<rparr>"

type_synonym 'a work = "(worker, 'a) exec"

definition emit :: "worker_event \<Rightarrow> unit work" where
  "emit e = modify (\<lambda>s. s\<lparr>wk_out := wk_out s @ [e]\<rparr>)"

text \<open>Reading the next value of a stream.\<close>

definition next_in :: "(worker \<Rightarrow> 'a list) \<Rightarrow> (('a list \<Rightarrow> 'a list) \<Rightarrow> worker \<Rightarrow> worker) \<Rightarrow> 'a work" where
  "next_in sel upd = with_state (\<lambda>s. case sel s of [] \<Rightarrow> raise QueueBlocked
     | x # xs \<Rightarrow> bnd (modify (upd (\<lambda>_. xs))) (\<lambda>_. ret x))"

subsection \<open>The flags of the state\<close>

unbundle bit_operations_syntax

definition WEIGHT_SYNCED :: int where "WEIGHT_SYNCED = 1"

definition PROMPT_FETCH_END :: int where "PROMPT_FETCH_END = push_bit 1 1"

definition PROMPT_CONSUME_END :: int where "PROMPT_CONSUME_END = push_bit 2 1"

definition weight_synced :: "int \<Rightarrow> bool" where
  "weight_synced st = ((st AND WEIGHT_SYNCED) \<noteq> 0)"

definition set_weight_synced :: "int \<Rightarrow> int" where
  "set_weight_synced st = (st OR WEIGHT_SYNCED)"

definition prompt_fetch_end :: "int \<Rightarrow> bool" where
  "prompt_fetch_end st = ((st AND PROMPT_FETCH_END) \<noteq> 0)"

definition set_prompt_fetch_end :: "int \<Rightarrow> int" where
  "set_prompt_fetch_end st = (st OR PROMPT_FETCH_END)"

definition prompt_consume_end :: "int \<Rightarrow> bool" where
  "prompt_consume_end st = ((st AND PROMPT_CONSUME_END) \<noteq> 0)"

definition set_prompt_consume_end :: "int \<Rightarrow> error + int" where
  "set_prompt_consume_end st = ensure AssertionError (\<not> prompt_consume_end st) (Inr (st OR PROMPT_CONSUME_END))"


section \<open>The reward queue\<close>

fun chunks :: "nat \<Rightarrow> 'a list \<Rightarrow> 'a list list" where
  "chunks k xs = (if xs = [] \<or> k = 0 then [] else take k xs # chunks k (drop k xs))"

declare chunks.simps [simp del]

text \<open>Without reward calculation every completion gets zeros.\<close>

definition zero_rewards :: "payload \<Rightarrow> error + payload" where
  "zero_rewards p = ebind (opt_len (pl_completions p)) (\<lambda>n. Inr (p\<lparr>
     pl_rewards := Some (replicate n 0), pl_advantages := Some (replicate n 0), pl_filter_rewards := Some (replicate n 0),
     pl_report_metrics := Some (replicate n []),
     pl_completed_conversations := some_or (pl_completed_conversations p) (replicate n (Some [])),
     pl_completion_logprobs := some_or (pl_completion_logprobs p) (replicate n []),
     pl_completion_token_ids := some_or (pl_completion_token_ids p) (replicate n []),
     pl_n_ignore_prefix_tokens := some_or (pl_n_ignore_prefix_tokens p) (replicate n 0)\<rparr>))"

definition put_reward :: "reward_entry \<Rightarrow> unit work" where
  "put_reward e = modify (\<lambda>s. s\<lparr>wk_rewards := wk_rewards s @ [e]\<rparr>)"

definition reward_entry_of :: "bool \<Rightarrow> bool \<Rightarrow> int \<Rightarrow> payload list \<Rightarrow> error + reward_entry" where
  "reward_entry_of bypass_reward is_validation step chunk =
     (if bypass_reward
      then ebind (efold (\<lambda>p acc. ebind (zero_rewards p) (\<lambda>q. Inr (acc @ [q]))) chunk [])
             (\<lambda>zeroed. Inr (Reward_Tuple zeroed is_validation step))
      else Inr (Reward_Future chunk is_validation step))"

definition enqueue_rewards_cal :: "worker_env \<Rightarrow> payload list \<Rightarrow> bool \<Rightarrow> int \<Rightarrow> bool \<Rightarrow> unit work" where
  "enqueue_rewards_cal env payloads is_validation step bypass_reward =
     bnd (check ValueError (0 < we_payload_per_task env)) (\<lambda>_.
     for_each (chunks (we_payload_per_task env) payloads) (\<lambda>chunk.
       bnd (lift_sum (reward_entry_of bypass_reward is_validation step chunk)) put_reward))"

text \<open>The next result: payloads, whether they are for validation, their step, and whether nothing is pending.\<close>

type_synonym dequeued = "payload list option \<times> bool \<times> int \<times> bool"

definition drop_reward :: "unit work" where
  "drop_reward = modify (\<lambda>s. s\<lparr>wk_rewards := tl (wk_rewards s)\<rparr>)"

definition dequeue_rewards_cal :: "worker_env \<Rightarrow> dequeued work" where
  "dequeue_rewards_cal env = with_state (\<lambda>s. case wk_rewards s of [] \<Rightarrow> ret (None, False, -1, True)
     | Reward_Tuple ps v step # _ \<Rightarrow> bnd drop_reward (\<lambda>_. ret (Some ps, v, step, False))
     | Reward_Future ps v step # _ \<Rightarrow> bnd (next_in in_polls in_polls_update) (\<lambda>ready.
         if ready then bnd drop_reward (\<lambda>_. bnd (lift_sum (we_compute env ps v step)) (\<lambda>qs. ret (Some qs, v, step, False)))
         else ret (None, False, -1, False)))"

section \<open>Reports\<close>

definition count_in :: "string \<Rightarrow> int \<Rightarrow> (string, int) dict \<Rightarrow> (string, int) dict" where
  "count_in key n d = dict_set key ((case dict_get d key of None \<Rightarrow> 0 | Some m \<Rightarrow> m) + n) d"

definition sample_key :: "payload \<Rightarrow> error + string" where
  "sample_key p = (if pl_valid p then Inr ''sampled''
     else case pl_filter_rewards p of None \<Rightarrow> Inl TypeError | Some [] \<Rightarrow> Inl IndexError
       | Some (r # _) \<Rightarrow> Inr (if 0 < r then ''filtered_positive'' else ''filtered_negative''))"

definition dynamic_sampling :: "payload list \<Rightarrow> error + payload list \<times> (string, int) dict" where
  "dynamic_sampling payloads = efold (\<lambda>p (valid, metadata).
     ebind (sample_key p) (\<lambda>key. ebind (opt_len (pl_completions p)) (\<lambda>n.
       Inr (if pl_valid p then valid @ [p] else valid, count_in key (int n) metadata)))) payloads ([], [])"

definition outgoing :: "worker_env \<Rightarrow> payload \<Rightarrow> error + payload" where
  "outgoing env p =
     (let p = we_rollout_output env p;
          p = (if we_local_dataset env then p\<lparr>pl_prompt := VNone, pl_conversation := None\<rparr> else p) in
      if we_rollout_as_token_ids env
      then ebind (opt_len (pl_completions p)) (\<lambda>n. Inr (p\<lparr>pl_completions := Some (replicate n (VStr ''''))\<rparr>))
      else Inr p)"

definition post_rollouts :: "worker_env \<Rightarrow> payload list \<Rightarrow> unit work" where
  "post_rollouts env payloads =
     bnd (lift_sum (if we_dapo env then dynamic_sampling payloads else Inr (payloads, []))) (\<lambda>(kept, metadata).
     bnd (lift_sum (efold (\<lambda>p acc. ebind (outgoing env p) (\<lambda>q. Inr (acc @ [q]))) kept [])) (\<lambda>qs.
     emit (Rollouts_Posted qs metadata)))"

text \<open>The loop of \<open>report_rollouts\<close>; every round but the last takes an entry off the queue or finds it pending.\<close>

primrec report_loop :: "worker_env \<Rightarrow> bool \<Rightarrow> nat \<Rightarrow> dequeued work" where
  "report_loop env blocking 0 = raise OutOfFuel"
| "report_loop env blocking (Suc n) = bnd (dequeue_rewards_cal env) (\<lambda>(ps, v, step, none_left).
     case ps of
       Some payloads \<Rightarrow> if v then ret (ps, v, step, none_left) else bnd (post_rollouts env payloads) (\<lambda>_. report_loop env blocking n)
     | None \<Rightarrow> if \<not> blocking \<or> none_left then ret (ps, v, step, none_left) else report_loop env blocking n)"

definition report_fuel :: "worker \<Rightarrow> nat" where
  "report_fuel s = Suc (length (wk_rewards s) + length (in_polls s))"

definition report_rollouts :: "worker_env \<Rightarrow> bool \<Rightarrow> dequeued work" where
  "report_rollouts env blocking = with_state (\<lambda>s. report_loop env blocking (report_fuel s))"

definition send_end_signal :: "worker_env \<Rightarrow> unit work" where
  "send_end_signal env = bnd (report_rollouts env True) (\<lambda>(ps, v, step, none_left).
     bnd (py_assert (\<not> v \<and> ps = None \<and> none_left)) (\<lambda>_. emit End_Posted))"

section \<open>Prompts\<close>

definition rank_matches :: "worker \<Rightarrow> payload \<Rightarrow> error + unit" where
  "rank_matches s p = (case wk_ranks s of None \<Rightarrow> Inl AttributeError
     | Some ranks \<Rightarrow> ensure ZeroDivisionError (ranks \<noteq> [])
         (ensure AssertionError (pl_prompt_idx p mod int (length ranks) = wk_rank s) (Inr ())))"

definition local_prompt :: "worker_env \<Rightarrow> bool \<Rightarrow> payload \<Rightarrow> payload" where
  "local_prompt env is_validation p =
     p\<lparr>pl_prompt := we_prompt_of env is_validation (pl_prompt_idx p),
       pl_conversation := we_conversation_of env is_validation (pl_prompt_idx p)\<rparr>"

text \<open>Rank 0 asks the controller when its queue is empty and checks what it gets; the others receive its
  result. No prompts are \<open>None\<close> to the code, the empty reply here.\<close>

definition fetch_prompts :: "worker_env \<Rightarrow> nat \<Rightarrow> bool \<Rightarrow> int option \<Rightarrow> (payload list option \<times> bool) work" where
  "fetch_prompts env batch_size queue_empty validation_step =
     (if we_global_rank env = 0 then
        if queue_empty then
          bnd (emit (Prompts_Requested (batch_size * we_dp_size env) validation_step)) (\<lambda>_.
          bnd (next_in in_replies in_replies_update) (\<lambda>(payloads, is_end).
          bnd (py_assert (list_all (\<lambda>p. 0 \<le> pl_prompt_idx p) payloads)) (\<lambda>_.
          bnd (with_state (\<lambda>s. lift_sum (if we_dispatch_as_rank_in_mesh env
                 then efold (\<lambda>p _. rank_matches s p) payloads () else Inr ()))) (\<lambda>_.
          let payloads = (if we_local_dataset env then map (local_prompt env (validation_step \<noteq> None)) payloads else payloads) in
          ret (if payloads = [] then None else Some payloads, is_end)))))
        else ret (None, False)
      else bnd (next_in in_replies in_replies_update) (\<lambda>(payloads, is_end).
        ret (if payloads = [] then None else Some payloads, is_end)))"

text \<open>With several data-parallel ranks each takes its share of the prompts, in turns.\<close>

definition share_of :: "worker_env \<Rightarrow> payload list option \<Rightarrow> payload list option" where
  "share_of env prompts =
     (if 1 < we_dp_size env then map_option (stride (we_dp_rank env) (we_dp_size env)) prompts else prompts)"

text \<open>\<open>request_new_prompts\<close> on a queue: the prompts to put into it, and whether there are no more.\<close>

definition request_new_prompts ::
  "worker_env \<Rightarrow> nat \<Rightarrow> bool \<Rightarrow> int option \<Rightarrow> (payload list option \<times> bool) work" where
  "request_new_prompts env batch_size queue_empty validation_step =
     bnd (fetch_prompts env batch_size queue_empty validation_step) (\<lambda>(prompts, is_end).
     ret (share_of env prompts, is_end))"

definition put_prompts :: "payload list option \<Rightarrow> unit work" where
  "put_prompts prompts = (case prompts of None \<Rightarrow> ret () | Some ps \<Rightarrow>
     bnd (emit (Prompts_Queued ps)) (\<lambda>_. modify (\<lambda>s. s\<lparr>wk_prompts := wk_prompts s @ [ps]\<rparr>)))"

section \<open>Generation\<close>

text \<open>What is kept of the results. With multi-turn rollouts the flag survives from one conversation to the next.\<close>

definition has_answer :: "conversation \<Rightarrow> bool" where
  "has_answer c = list_ex (\<lambda>m. cm_role m = ''assistant'' \<and> cm_content m \<noteq> VStr '''') c"

fun valid_conversations :: "bool \<Rightarrow> conversation list \<Rightarrow> conversation list" where
  "valid_conversations flag [] = []"
| "valid_conversations flag (c # cs) =
     (let flag = (flag \<or> has_answer c) in (if flag then [c] else []) @ valid_conversations flag cs)"

definition valid_result :: "worker_env \<Rightarrow> payload \<times> rollout_result \<Rightarrow> error + (payload \<times> rollout_result) list" where
  "valid_result env x = (case x of (p, rr) \<Rightarrow>
     if we_non_text env then Inr (if rr_completions rr \<noteq> [] then [(p, rr)] else [])
     else if we_multi_turn env then
       (case rr_completed_conversations rr of None \<Rightarrow> Inl TypeError
        | Some cs \<Rightarrow> let kept = valid_conversations False cs in
            Inr (if kept \<noteq> [] then [(p, rr\<lparr>rr_completed_conversations := Some kept\<rparr>)] else []))
     else let texts = map (\<lambda>c. if c \<noteq> VStr '''' then c else VStr (we_eos_token env)) (rr_completions rr) in
       Inr (if texts \<noteq> [] then [(p, rr\<lparr>rr_completions := texts\<rparr>)] else []))"

definition valid_results :: "worker_env \<Rightarrow> (payload \<times> rollout_result) list \<Rightarrow> error + (payload \<times> rollout_result) list" where
  "valid_results env xs = efold (\<lambda>x acc. ebind (valid_result env x) (\<lambda>ys. Inr (acc @ ys))) xs []"

definition with_result :: "worker_env \<Rightarrow> bool \<Rightarrow> int \<Rightarrow> payload \<times> rollout_result \<Rightarrow> payload" where
  "with_result env is_validation version x = (case x of (p, rr) \<Rightarrow>
     let p = p\<lparr>pl_completions := Some (rr_completions rr), pl_completion_logprobs := rr_completion_logprobs rr,
       pl_completion_token_ids := rr_completion_token_ids rr, pl_prompt_logprobs := rr_prompt_logprobs rr,
       pl_prompt_token_ids := rr_prompt_token_ids rr, pl_weight_version := version,
       pl_cumulative_logprob := map_option (map Some) (rr_cumulative_logprob rr), pl_extra_info := rr_extra_info rr\<rparr>;
       p = (if we_multi_turn env then p\<lparr>pl_completed_conversations := map_option (map Some) (rr_completed_conversations rr)\<rparr> else p)
     in if we_local_dataset env then p\<lparr>pl_reference_answer := we_answer_of env is_validation (pl_prompt_idx p)\<rparr> else p)"

definition filter_valid_rollout_results_and_report ::
  "worker_env \<Rightarrow> rollout_result list \<Rightarrow> payload list \<Rightarrow> unit work" where
  "filter_valid_rollout_results_and_report env rollout_results payloads =
     bnd (lift_sum (valid_results env (zip payloads rollout_results))) (\<lambda>kept.
     guarded (we_should_report env \<and> kept \<noteq> []) (with_state (\<lambda>s.
       enqueue_rewards_cal env (map (with_result env False (wk_version s)) kept) False (wk_version s) (we_bypass_reward env))))"

text \<open>\<open>one_step_generation\<close>, on a queue that is not empty; the engine answers with a list of results.\<close>

definition one_step_generation :: "worker_env \<Rightarrow> unit work" where
  "one_step_generation env = with_state (\<lambda>s.
     let payloads = hd (wk_prompts s) in
     bnd (modify (\<lambda>s. s\<lparr>wk_prompts := tl (wk_prompts s)\<rparr>)) (\<lambda>_.
     bnd (emit (Generated (wk_version s) payloads)) (\<lambda>_.
     bnd (next_in in_results in_results_update) (\<lambda>results.
     guarded (results \<noteq> [])
       (bnd (py_assert (length results = length payloads)) (\<lambda>_.
        filter_valid_rollout_results_and_report env results payloads))))))"

section \<open>Validation\<close>

definition current_step :: "int work" where
  "current_step = with_state (\<lambda>s. lift_sum (case wk_current_step s of None \<Rightarrow> Inl AttributeError | Some n \<Rightarrow> Inr n))"

text \<open>The engine is given a batch for validation: the history has the step it is for, the version of the weights, and
  the batch.\<close>

definition validated :: "payload list \<Rightarrow> unit work" where
  "validated ps = bnd current_step (\<lambda>step. with_state (\<lambda>s. emit (Validated step (wk_version s) ps)))"

text \<open>Each round of the loop asks for prompts; the payloads beyond the results stay as they are.\<close>

definition with_results :: "worker_env \<Rightarrow> int \<Rightarrow> payload list \<Rightarrow> rollout_result list \<Rightarrow> payload list" where
  "with_results env version ps rs = map (with_result env True version) (zip ps rs) @ drop (length rs) ps"

primrec validation_loop :: "worker_env \<Rightarrow> nat \<Rightarrow> payload list \<Rightarrow> payload list work" where
  "validation_loop env 0 acc = raise OutOfFuel"
| "validation_loop env (Suc n) acc = bnd current_step (\<lambda>step.
     bnd (request_new_prompts env (we_val_batch_size env) True (Some step)) (\<lambda>(prompts, is_end).
     bnd (case prompts of None \<Rightarrow> ret acc
          | Some ps \<Rightarrow> bnd (validated ps) (\<lambda>_. bnd (next_in in_results in_results_update) (\<lambda>rs. with_state (\<lambda>s.
              ret (if rs \<noteq> [] then acc @ with_results env (wk_version s) ps rs else acc))))) (\<lambda>acc.
     if is_end then ret acc else validation_loop env n acc)))"

definition strip_validation :: "payload \<Rightarrow> payload" where
  "strip_validation p = p\<lparr>pl_completions := None, pl_completed_conversations := None, pl_completion_logprobs := None,
     pl_completion_token_ids := None\<rparr>"

primrec validation_report :: "worker_env \<Rightarrow> nat \<Rightarrow> dequeued \<Rightarrow> unit work" where
  "validation_report env 0 d = raise OutOfFuel"
| "validation_report env (Suc n) d = (case d of (ps, v, step, none_left) \<Rightarrow>
     guarded (\<not> none_left) (bnd (py_assert (v \<or> ps = None)) (\<lambda>_.
       bnd (case ps of None \<Rightarrow> ret () | Some qs \<Rightarrow> emit (Validation_Posted step (map strip_validation qs))) (\<lambda>_.
       bnd (dequeue_rewards_cal env) (validation_report env n)))))"

definition do_validation :: "worker_env \<Rightarrow> unit work" where
  "do_validation env = with_state (\<lambda>s.
     bnd (validation_loop env (Suc (length (in_replies s))) []) (\<lambda>payloads.
     bnd (modify (\<lambda>s. s\<lparr>wk_validation_flag := False\<rparr>)) (\<lambda>_.
     guarded (we_should_report env) (bnd current_step (\<lambda>step.
       bnd (enqueue_rewards_cal env payloads True step False) (\<lambda>_.
       bnd (report_rollouts env True) (\<lambda>(ps, v, n, none_left).
       bnd (py_assert ((v \<and> ps \<noteq> None \<or> ps = None) \<and> (\<not> none_left \<or> payloads = []))) (\<lambda>_.
       with_state (\<lambda>s. validation_report env (Suc (report_fuel s)) (ps, v, n, none_left))))))))))"

section \<open>Commands\<close>

definition initialise :: "worker_env \<Rightarrow> string \<Rightarrow> unit work" where
  "initialise env load_format = with_state (\<lambda>s. guarded (\<not> wk_engine s)
     (block [emit (Engine_Init load_format), modify (\<lambda>s. s\<lparr>wk_engine := True\<rparr>), emit Shards_Posted]))"

definition get_group_unique_key :: "worker_env \<Rightarrow> (string, int) dict \<Rightarrow> string" where
  "get_group_unique_key env ranks =
     concat (map (\<lambda>kv. fst kv @ ''_'') (sort_key snd ranks)) @ py_str_int (int (we_global_rank env))"

definition build_global_mesh :: "worker_env \<Rightarrow> (string, int) dict \<Rightarrow> unit work" where
  "build_global_mesh env ranks = (case dict_get ranks (we_name env) of None \<Rightarrow> raise RuntimeError
     | Some rank \<Rightarrow> bnd (modify (\<lambda>s. s\<lparr>wk_rank := rank, wk_ranks := Some ranks\<rparr>)) (\<lambda>_.
         guarded (length ranks \<noteq> 1)
           (bnd (if rank = 0 then emit (Nccl_Id_Posted (get_group_unique_key env ranks))
                 else check RuntimeError (we_nccl_id_found env)) (\<lambda>_.
            modify (\<lambda>s. s\<lparr>wk_comm := Some (rank, length ranks)\<rparr>)))))"

text \<open>The names under which a trainable parameter may come: as the policy splits it, unsplit, and the scales of
  quantised weights.\<close>

definition ends_with :: "string \<Rightarrow> string \<Rightarrow> bool" where
  "ends_with s suffix \<longleftrightarrow> drop (length s - length suffix) s = suffix \<and> length suffix \<le> length s"

definition prepare_trainable_params :: "worker_env \<Rightarrow> unit work" where
  "prepare_trainable_params env = with_state (\<lambda>s. guarded (wk_trainable s = None)
     (let names = we_trainable env @ map (we_unsplit env) (we_trainable env);
          misc = (if we_quantized env then filter (\<lambda>n. ends_with n ''_scale'') (we_model_params env) else []) in
      modify (\<lambda>s. s\<lparr>wk_trainable := Some (names @ misc), wk_misc_params := wk_misc_params s @ misc\<rparr>)))"

definition is_trainable :: "worker \<Rightarrow> string \<Rightarrow> bool" where
  "is_trainable s name \<longleftrightarrow> (case wk_trainable s of None \<Rightarrow> False | Some names \<Rightarrow> name \<in> set names)"

text \<open>One parameter of a group: skipped, or received slice by slice. The result is the number skipped.\<close>

definition recv_param_shards :: "worker_env \<Rightarrow> bool \<Rightarrow> param_insts \<Rightarrow> nat work" where
  "recv_param_shards env trainable_only pis = with_state (\<lambda>s.
     if \<not> is_trainable s (pi_param_name pis) \<and> trainable_only then ret 1
     else bnd (check KeyError (pi_param_name pis \<in> set (we_recv_keys env))) (\<lambda>_.
       bnd (for_each (pi_instructions pis) (\<lambda>inst.
         bnd (py_assert (si_rollout_rank inst = we_global_rank env)) (\<lambda>_.
         emit (Received (pi_param_name pis) (si_policy_rank inst) (si_slice_strategy inst))))) (\<lambda>_. ret 0)))"

primrec recv_params :: "worker_env \<Rightarrow> bool \<Rightarrow> param_insts list \<Rightarrow> nat work" where
  "recv_params env trainable_only [] = ret 0"
| "recv_params env trainable_only (p # ps) =
     bnd (recv_param_shards env trainable_only p) (\<lambda>m. bnd (recv_params env trainable_only ps) (\<lambda>n. ret (m + n)))"

definition recv_weight_shard :: "worker_env \<Rightarrow> bool \<Rightarrow> insts_group \<Rightarrow> nat work" where
  "recv_weight_shard env trainable_only grp =
     bnd (check IndexError (\<not> we_quantized env \<or> grp \<noteq> [])) (\<lambda>_. recv_params env trainable_only grp)"

text \<open>How many parameters of a group count as transferred: a group that was split from one parameter counts as
  that parameter, and only if nothing of it was skipped.\<close>

definition transferred_of :: "worker_env \<Rightarrow> insts_group \<Rightarrow> nat \<Rightarrow> error + nat" where
  "transferred_of env grp skipped = (case grp of [] \<Rightarrow> Inl IndexError
     | p # _ \<Rightarrow> Inr (if we_unsplit env (pi_param_name p) \<noteq> pi_param_name p
                     then (if 0 < skipped then 0 else 1) else length grp - skipped))"

definition grouped_nccl :: "worker_env \<Rightarrow> bool" where
  "grouped_nccl env \<longleftrightarrow> \<not> we_colocated_separated env \<and> 0 < we_nccl_group_size env"

text \<open>The groups in order; after \<open>COSMOS_P2R_NCCL_GROUP_SIZE\<close> of them the NCCL group is closed and a new one
  opened. Results: the groups pending at the end, and the parameters transferred.\<close>

primrec recv_groups :: "worker_env \<Rightarrow> bool \<Rightarrow> insts_group list \<Rightarrow> int \<Rightarrow> nat \<Rightarrow> nat work" where
  "recv_groups env trainable_only [] pending cnt = ret cnt"
| "recv_groups env trainable_only (g # gs) pending cnt =
     bnd (recv_weight_shard env trainable_only g) (\<lambda>skipped.
     bnd (lift_sum (transferred_of env g skipped)) (\<lambda>n.
     if we_nccl_group_size env \<le> pending + 1
     then bnd (guarded (grouped_nccl env) (block [emit Nccl_Group_End, emit Nccl_Group_Start])) (\<lambda>_.
       recv_groups env trainable_only gs 0 (cnt + n))
     else recv_groups env trainable_only gs (pending + 1) (cnt + n)))"

definition fetch_recv_insts :: "worker_env \<Rightarrow> bool \<Rightarrow> insts_group list work" where
  "fetch_recv_insts env trainable_only = with_state (\<lambda>s. case wk_recv_insts s of
       None \<Rightarrow> bnd (modify (\<lambda>s. s\<lparr>wk_recv_insts := Some (we_recv_insts env)\<rparr>)) (\<lambda>_. ret (we_recv_insts env))
     | Some insts \<Rightarrow> bnd (py_assert trainable_only) (\<lambda>_. ret insts))"

definition check_p2r_count :: "nat \<Rightarrow> unit work" where
  "check_p2r_count cnt = with_state (\<lambda>s. bnd (py_assert (wk_non_trainable_received s)) (\<lambda>_.
     case wk_p2r_cnt s of None \<Rightarrow> modify (\<lambda>s. s\<lparr>wk_p2r_cnt := Some cnt\<rparr>) | Some c \<Rightarrow> py_assert (c = cnt)))"

definition finish_p2r :: "bool \<Rightarrow> nat \<Rightarrow> unit work" where
  "finish_p2r trainable_only cnt = bnd (guarded trainable_only (check_p2r_count cnt)) (\<lambda>_.
     bnd (modify (\<lambda>s. s\<lparr>wk_state := set_weight_synced (wk_state s)\<rparr>)) (\<lambda>_.
     guarded (\<not> trainable_only) (modify (\<lambda>s. s\<lparr>wk_non_trainable_received := True\<rparr>))))"

definition policy_to_rollout_unicast :: "worker_env \<Rightarrow> string \<Rightarrow> bool \<Rightarrow> unit work" where
  "policy_to_rollout_unicast env dst_replica_name trainable_only =
     bnd (initialise env (if dst_replica_name = we_name env then ''auto'' else ''dummy'')) (\<lambda>_.
     guarded (dst_replica_name = we_name env)
       (bnd (fetch_recv_insts env trainable_only) (\<lambda>insts.
        bnd (prepare_trainable_params env) (\<lambda>_.
        bnd (py_assert (sum_list (map length insts) = length (we_recv_keys env))) (\<lambda>_.
        bnd (guarded (grouped_nccl env) (emit Nccl_Group_Start)) (\<lambda>_.
        bnd (recv_groups env trainable_only insts 0 0) (\<lambda>cnt.
        bnd (guarded (grouped_nccl env) (emit Nccl_Group_End)) (\<lambda>_.
        finish_p2r trainable_only cnt))))))))"

subsection \<open>Weights from another rollout replica\<close>

primrec broadcast_params :: "bool \<Rightarrow> int \<Rightarrow> string list \<Rightarrow> nat \<Rightarrow> nat work" where
  "broadcast_params trainable_only src_rank [] cnt = ret cnt"
| "broadcast_params trainable_only src_rank (name # names) cnt = with_state (\<lambda>s.
     if \<not> is_trainable s name \<and> trainable_only then broadcast_params trainable_only src_rank names cnt
     else bnd (emit (Broadcast_Param name src_rank)) (\<lambda>_. broadcast_params trainable_only src_rank names (Suc cnt)))"

definition check_r2r_count :: "nat \<Rightarrow> unit work" where
  "check_r2r_count cnt = with_state (\<lambda>s. bnd (py_assert (wk_non_trainable_received s)) (\<lambda>_.
     bnd (guarded (wk_r2r_cnt s = None) (modify (\<lambda>s. s\<lparr>wk_r2r_cnt := Some cnt\<rparr>))) (\<lambda>_.
     with_state (\<lambda>s. case wk_p2r_cnt s of None \<Rightarrow> ret ()
       | Some c \<Rightarrow> py_assert (the (wk_r2r_cnt s) = c + length (remdups (wk_misc_params s)))))))"

definition source_rank :: "string \<Rightarrow> nat \<Rightarrow> worker \<Rightarrow> error + int" where
  "source_rank src n s = (case wk_ranks s of None \<Rightarrow> Inl AttributeError
     | Some ranks \<Rightarrow> ensure AssertionError (n = length ranks)
         (case dict_get ranks src of None \<Rightarrow> Inl KeyError | Some r \<Rightarrow> Inr r))"

definition finish_broadcast :: "bool \<Rightarrow> nat \<Rightarrow> unit work" where
  "finish_broadcast trainable_only cnt =
     bnd (with_state (\<lambda>s. guarded (\<not> weight_synced (wk_state s))
       (bnd (py_assert (\<not> trainable_only)) (\<lambda>_. modify (\<lambda>s. s\<lparr>wk_state := set_weight_synced (wk_state s)\<rparr>))))) (\<lambda>_.
     bnd (guarded (\<not> trainable_only) (modify (\<lambda>s. s\<lparr>wk_non_trainable_received := True\<rparr>))) (\<lambda>_.
     guarded trainable_only (check_r2r_count cnt)))"

definition broadcast_weights :: "worker_env \<Rightarrow> string \<Rightarrow> string list \<Rightarrow> bool \<Rightarrow> unit work" where
  "broadcast_weights env src dsts trainable_only =
     bnd (prepare_trainable_params env) (\<lambda>_.
     bnd (with_state (\<lambda>s. py_assert (0 \<le> wk_rank s))) (\<lambda>_.
     bnd (with_state (\<lambda>s. lift_sum (source_rank src (length dsts) s))) (\<lambda>src_rank.
     bnd (broadcast_params trainable_only src_rank (we_model_params env) 0) (\<lambda>cnt.
     finish_broadcast trainable_only cnt))))"

definition advance_version :: "int option \<Rightarrow> int work" where
  "advance_version weight_step = with_state (\<lambda>s. case weight_step of None \<Rightarrow> ret (wk_version s)
     | Some n \<Rightarrow> bnd (py_assert (wk_version s \<le> n)) (\<lambda>_. bnd (modify (\<lambda>s. s\<lparr>wk_version := n\<rparr>)) (\<lambda>_. ret n)))"

text \<open>The remainder is only looked at for a positive step.\<close>

definition should_do_validation :: "worker_env \<Rightarrow> int \<Rightarrow> int option \<Rightarrow> error + bool" where
  "should_do_validation env step total_steps =
     (if 0 < step \<and> we_val_freq env = 0 then Inl ZeroDivisionError
      else Inr (we_val_enable env \<and> (step = 0 \<and> we_val_before_train env
             \<or> 0 < step \<and> step mod we_val_freq env = 0 \<or> Some step = total_steps)))"

definition mark_validation :: "worker_env \<Rightarrow> int \<Rightarrow> int option \<Rightarrow> unit work" where
  "mark_validation env step total_steps = guarded (0 \<le> step)
     (bnd (lift_sum (should_do_validation env step total_steps)) (\<lambda>due.
      guarded due (modify (\<lambda>s. s\<lparr>wk_current_step := Some step, wk_validation_flag := True\<rparr>))))"

definition should_stop :: "int option \<Rightarrow> int option \<Rightarrow> bool" where
  "should_stop weight_step total_steps =
     (case (weight_step, total_steps) of (Some n, Some t) \<Rightarrow> t \<le> n | _ \<Rightarrow> False)"

definition stop_worker :: "worker_env \<Rightarrow> unit work" where
  "stop_worker env = bnd (emit Teacher_End_Posted) (\<lambda>_.
     bnd (with_state (\<lambda>s. guarded (wk_validation_flag s) (do_validation env))) (\<lambda>_.
     modify (\<lambda>s. s\<lparr>wk_shutdown := True, wk_shutdown_mp := True\<rparr>)))"

definition broadcast_to_all_rollout_replica ::
  "worker_env \<Rightarrow> string \<Rightarrow> string list \<Rightarrow> int option \<Rightarrow> int option \<Rightarrow> bool \<Rightarrow> unit work" where
  "broadcast_to_all_rollout_replica env src dsts weight_step total_steps trainable_only =
     bnd (guarded (we_name env \<noteq> src) (initialise env ''dummy'')) (\<lambda>_.
     bnd (guarded (1 < length dsts) (broadcast_weights env src dsts trainable_only)) (\<lambda>_.
     bnd (advance_version weight_step) (\<lambda>step.
     bnd (mark_validation env step total_steps) (\<lambda>_.
     guarded (should_stop weight_step total_steps) (stop_worker env)))))"

subsection \<open>Executing commands\<close>

definition execute_command :: "worker_env \<Rightarrow> command \<Rightarrow> unit work" where
  "execute_command env c = (case c of
     BuildMesh u ranks \<Rightarrow> build_global_mesh env ranks
   | PolicyToRolloutUnicast u src dst ss ds chk trainable_only w t \<Rightarrow> policy_to_rollout_unicast env dst trainable_only
   | RolloutToRolloutBroadcast u src dsts weight_step total_steps trainable_only \<Rightarrow>
       broadcast_to_all_rollout_replica env src dsts weight_step total_steps trainable_only
   | _ \<Rightarrow> raise GenericException)"

definition has_handler :: "command \<Rightarrow> bool" where
  "has_handler c = (command_type_of c \<in> {BUILD_MESH, POLICY_TO_ROLLOUT_UNICAST, ROLLOUT_TO_ROLLOUT_BROADCAST})"

text \<open>An exception in a handler comes out as \<open>RuntimeError\<close>; waiting is no exception.\<close>

definition consume_one_command :: "worker_env \<Rightarrow> (command \<Rightarrow> bool) option \<Rightarrow> tick \<Rightarrow> command option work" where
  "consume_one_command env cmd_pred t =
     bnd (if we_global_rank env = 0 then with_state (\<lambda>s. case wk_commands s of [] \<Rightarrow> ret None
            | c # cs \<Rightarrow> if (case cmd_pred of None \<Rightarrow> True | Some p \<Rightarrow> p c)
                then bnd (modify (\<lambda>s. s\<lparr>wk_commands := cs\<rparr>)) (\<lambda>_. ret (Some c)) else ret None)
          else ret (tk_broadcast t)) (\<lambda>cmd.
     bnd (case cmd of None \<Rightarrow> ret ()
          | Some c \<Rightarrow> bnd (check GenericException (has_handler c)) (\<lambda>_.
              try_except (execute_command env c)
                (\<lambda>e. raise (if e = QueueBlocked then QueueBlocked else RuntimeError)))) (\<lambda>_. ret cmd))"

definition is_p2r :: "command \<Rightarrow> bool" where
  "is_p2r c \<longleftrightarrow> command_type_of c = POLICY_TO_ROLLOUT_UNICAST"

definition look :: "tick work" where
  "look = bnd (next_in in_ticks in_ticks_update) (\<lambda>t.
     bnd (modify (\<lambda>s. s\<lparr>wk_commands := wk_commands s @ tk_arrived t\<rparr>)) (\<lambda>_. ret t))"

text \<open>The wait for commands, which goes on after a P2R until the broadcast that must follow it. The result, of
  which the code makes no use, is the last command.\<close>

primrec consume_loop ::
  "worker_env \<Rightarrow> (command \<Rightarrow> bool) option \<Rightarrow> int \<Rightarrow> nat \<Rightarrow> int \<Rightarrow> command option \<Rightarrow> int \<Rightarrow> command option work" where
  "consume_loop env cmd_pred timeout 0 start last_cmd none_cnt = raise QueueBlocked"
| "consume_loop env cmd_pred timeout (Suc n) start last_cmd none_cnt = bnd look (\<lambda>t.
     if tk_now t - start < timeout
     then bnd (consume_one_command env cmd_pred t) (\<lambda>cmd.
       let last_cmd = (if cmd \<noteq> None then cmd else last_cmd); none_cnt = (if cmd \<noteq> None then 0 else none_cnt + 1);
           start = (if cmd \<noteq> None then tk_after t else start) in
       if we_wait_times env \<le> none_cnt \<and> (case last_cmd of None \<Rightarrow> True | Some c \<Rightarrow> \<not> is_p2r c) then ret last_cmd
       else consume_loop env cmd_pred timeout n start last_cmd none_cnt)
     else ret last_cmd)"

definition consume_command :: "worker_env \<Rightarrow> (command \<Rightarrow> bool) option \<Rightarrow> int \<Rightarrow> command option work" where
  "consume_command env cmd_pred timeout = bnd look (\<lambda>t.
     with_state (\<lambda>s. consume_loop env cmd_pred timeout (length (in_ticks s)) (tk_now t) None 0))"

section \<open>The main loop\<close>

definition end_of_prompts :: "worker_env \<Rightarrow> unit work" where
  "end_of_prompts env = with_state (\<lambda>s. bnd (lift_sum (set_prompt_consume_end (wk_state s))) (\<lambda>st.
     bnd (modify (\<lambda>s. s\<lparr>wk_state := st\<rparr>)) (\<lambda>_. guarded (we_global_rank env = 0) (send_end_signal env))))"

definition fetch_step :: "worker_env \<Rightarrow> unit work" where
  "fetch_step env = with_state (\<lambda>s.
     bnd (request_new_prompts env (we_batch_size env) (wk_prompts s = []) None) (\<lambda>(prompts, no_more_prompts).
     bnd (put_prompts prompts) (\<lambda>_.
     guarded no_more_prompts
       (bnd (modify (\<lambda>s. s\<lparr>wk_state := set_prompt_fetch_end (wk_state s)\<rparr>)) (\<lambda>_.
        with_state (\<lambda>s. guarded (wk_prompts s = []) (end_of_prompts env)))))))"

definition fetch_phase :: "worker_env \<Rightarrow> unit work" where
  "fetch_phase env = with_state (\<lambda>s. guarded (\<not> prompt_fetch_end (wk_state s)) (fetch_step env))"

definition generate_step :: "worker_env \<Rightarrow> unit work" where
  "generate_step env = with_state (\<lambda>s.
     if prompt_consume_end (wk_state s) then py_assert (wk_prompts s = [] \<and> prompt_fetch_end (wk_state s))
     else case wk_prompts s of [] \<Rightarrow> ret ()
     | [] # _ \<Rightarrow> raise IndexError
     | (p # ps) # _ \<Rightarrow> guarded (pl_weight_version p \<le> wk_version s + we_allowed_outdated_steps env)
         (bnd (one_step_generation env) (\<lambda>_.
          with_state (\<lambda>s. guarded (prompt_fetch_end (wk_state s) \<and> wk_prompts s = []) (end_of_prompts env)))))"

text \<open>What a round does once the weights have come.\<close>

definition work_phase :: "worker_env \<Rightarrow> unit work" where
  "work_phase env = bnd (report_rollouts env False) (\<lambda>(_, is_validation, _, _).
     bnd (py_assert (\<not> is_validation)) (\<lambda>_. bnd (fetch_phase env) (\<lambda>_. generate_step env)))"

definition main_round :: "worker_env \<Rightarrow> int \<Rightarrow> unit work" where
  "main_round env timeout =
     bnd (consume_command env None timeout) (\<lambda>_.
     bnd (with_state (\<lambda>s. guarded (wk_validation_flag s) (do_validation env))) (\<lambda>_.
     with_state (\<lambda>s. guarded (weight_synced (wk_state s)) (work_phase env))))"

text \<open>\<open>main_loop\<close> for at most \<open>n\<close> rounds.\<close>

primrec main_loop :: "worker_env \<Rightarrow> int \<Rightarrow> nat \<Rightarrow> unit work" where
  "main_loop env timeout 0 = ret ()"
| "main_loop env timeout (Suc n) =
     with_state (\<lambda>s. guarded (\<not> wk_shutdown s) (bnd (main_round env timeout) (\<lambda>_. main_loop env timeout n)))"

section \<open>A worker to try\<close>

definition sample_env :: worker_env where
  "sample_env = \<lparr>we_name = ''r0'', we_global_rank = 0, we_dp_size = 1, we_dp_rank = 0, we_should_report = True,
     we_batch_size = 1, we_val_batch_size = 1, we_allowed_outdated_steps = 0, we_val_enable = False, we_val_freq = 1,
     we_val_before_train = False, we_dapo = False, we_local_dataset = False, we_rollout_as_token_ids = False,
     we_non_text = False, we_multi_turn = False, we_bypass_reward = True, we_dispatch_as_rank_in_mesh = False,
     we_colocated_separated = False, we_quantized = False, we_eos_token = ''</s>'', we_nccl_group_size = 1,
     we_wait_times = 0, we_payload_per_task = 1, we_unsplit = id, we_model_params = [''w'', ''b''],
     we_recv_keys = [''w'', ''b''], we_trainable = [''w''],
     we_recv_insts = [[\<lparr>pi_param_name = ''w'', pi_instructions = [\<lparr>si_policy_rank = 0, si_rollout_rank = 0, si_slice_strategy = []\<rparr>,
        \<lparr>si_policy_rank = 1, si_rollout_rank = 0, si_slice_strategy = []\<rparr>]\<rparr>],
       [\<lparr>pi_param_name = ''b'', pi_instructions = [\<lparr>si_policy_rank = 1, si_rollout_rank = 0, si_slice_strategy = []\<rparr>]\<rparr>]],
     we_nccl_id_found = True, we_compute = (\<lambda>ps v n. Inr ps), we_rollout_output = id, we_prompt_of = (\<lambda>v i. VNone),
     we_conversation_of = (\<lambda>v i. None), we_answer_of = (\<lambda>v i. None)\<rparr>"

text \<open>One round of the main loop in which the worker gets its weights, fetches the last prompts, generates, reports
  and signals the end.\<close>

definition sample_worker :: worker where
  "sample_worker = new_worker
     [\<lparr>tk_now = 0, tk_arrived = [PolicyToRolloutUnicast ''1'' ''p0'' ''r0'' 1 1 False False (Some 3) None,
         RolloutToRolloutBroadcast ''2'' ''r0'' [''r0''] (Some 3) None False], tk_broadcast = None, tk_after = 0\<rparr>,
      \<lparr>tk_now = 1, tk_arrived = [], tk_broadcast = None, tk_after = 1\<rparr>, \<lparr>tk_now = 2, tk_arrived = [], tk_broadcast = None, tk_after = 2\<rparr>]
     [([sample_payload], True)]
     [[\<lparr>rr_prompt = VNone, rr_conversation = None, rr_completions = [VStr ''4''], rr_completed_conversations = None,
        rr_completion_logprobs = None, rr_prompt_logprobs = None, rr_completion_token_ids = None, rr_cumulative_logprob = None,
        rr_prompt_token_ids = None, rr_extra_info = None\<rparr>]] []"

end
