(* ===== verification/Rollout_Runs.thy ===== *)
theory Rollout_Runs
  imports Rollout_Worker "HOL-Library.Sublist"
begin

text \<open>What holds of a rollout worker over any run of its main loop, whatever arrives from outside and whether
  rounds end normally, with an exception or waiting.\<close>

section \<open>The state moves forward\<close>

definition stays :: "('s \<Rightarrow> bool) \<Rightarrow> 's \<Rightarrow> 's \<Rightarrow> bool" where
  "stays P s t \<longleftrightarrow> (P s \<longrightarrow> P t)"

definition set_once :: "('s \<Rightarrow> 'a option) \<Rightarrow> 's \<Rightarrow> 's \<Rightarrow> bool" where
  "set_once f s t \<longleftrightarrow> (f s \<noteq> None \<longrightarrow> f t = f s)"

definition forward :: "worker \<Rightarrow> worker \<Rightarrow> bool" where
  "forward s t \<longleftrightarrow> wk_version s \<le> wk_version t \<and> prefix (wk_out s) (wk_out t)
     \<and> stays (\<lambda>s. weight_synced (wk_state s)) s t \<and> stays (\<lambda>s. prompt_fetch_end (wk_state s)) s t
     \<and> stays (\<lambda>s. prompt_consume_end (wk_state s)) s t \<and> stays wk_non_trainable_received s t
     \<and> set_once wk_recv_insts s t \<and> set_once wk_trainable s t \<and> stays wk_engine s t \<and> stays wk_shutdown s t"

lemma stays_trans: "stays P s t \<Longrightarrow> stays P t u \<Longrightarrow> stays P s u"
  by (simp add: stays_def)

lemma set_once_trans: "set_once f s t \<Longrightarrow> set_once f t u \<Longrightarrow> set_once f s u"
  by (simp add: set_once_def)

lemma forward_refl: "forward s s"
  by (simp add: forward_def stays_def set_once_def)

lemma forward_trans: "forward s t \<Longrightarrow> forward t u \<Longrightarrow> forward s u"
  unfolding forward_def
  by (elim conjE, intro conjI)
    (assumption | erule (1) order_trans | erule (1) prefix_order.order_trans | erule (1) stays_trans | erule (1) set_once_trans)+

interpretation fwd: evolution forward
  by unfold_locales (rule forward_refl, rule forward_trans)

subsection \<open>The flags are independent bits\<close>

lemma and_bit_iff: "and (st :: int) (push_bit n 1) \<noteq> 0 \<longleftrightarrow> bit st n"
  by (simp add: push_bit_eq_mult and_exp_eq_0_iff_not_bit)

lemma flag_bits:
  "weight_synced st \<longleftrightarrow> bit st 0" "prompt_fetch_end st \<longleftrightarrow> bit st 1" "prompt_consume_end st \<longleftrightarrow> bit st 2"
  using and_bit_iff [of st 0] and_bit_iff [of st 1] and_bit_iff [of st 2]
  by (simp_all add: weight_synced_def prompt_fetch_end_def prompt_consume_end_def WEIGHT_SYNCED_def PROMPT_FETCH_END_def
      PROMPT_CONSUME_END_def)

lemma flag_simps [simp]:
  "weight_synced (set_weight_synced st)"
  "prompt_fetch_end (set_weight_synced st) = prompt_fetch_end st"
  "prompt_consume_end (set_weight_synced st) = prompt_consume_end st"
  "prompt_fetch_end (set_prompt_fetch_end st)"
  "weight_synced (set_prompt_fetch_end st) = weight_synced st"
  "prompt_consume_end (set_prompt_fetch_end st) = prompt_consume_end st"
  unfolding flag_bits
  by (simp_all add: set_weight_synced_def set_prompt_fetch_end_def WEIGHT_SYNCED_def PROMPT_FETCH_END_def bit_or_iff
      bit_push_bit_iff bit_1_iff)

lemma consume_end_Inr:
  "set_prompt_consume_end st = Inr st' \<longleftrightarrow> \<not> prompt_consume_end st \<and> st' = or st PROMPT_CONSUME_END"
  by (auto simp: set_prompt_consume_end_def ensure_Inr_iff)

lemma consume_end_flags:
  assumes "set_prompt_consume_end st = Inr st'"
  shows "prompt_consume_end st'" "weight_synced st' = weight_synced st" "prompt_fetch_end st' = prompt_fetch_end st"
  using assms unfolding consume_end_Inr flag_bits
  by (auto simp: PROMPT_CONSUME_END_def bit_or_iff bit_push_bit_iff bit_1_iff)

subsection \<open>Every operation moves forward\<close>

named_theorems forwards \<open>operations under which the state moves forward\<close>

lemmas [forwards] = fwd.steps

lemmas fwd_defs = forward_def stays_def set_once_def

lemma fwd_emit [forwards]: "evolves forward (emit e)"
  unfolding emit_def by (rule fwd.modify) (simp add: fwd_defs)

lemma fwd_next_in [forwards]:
  "evolves forward (next_in in_ticks in_ticks_update)" "evolves forward (next_in in_replies in_replies_update)"
  "evolves forward (next_in in_results in_results_update)" "evolves forward (next_in in_polls in_polls_update)"
  unfolding next_in_def by (intro forwards fwd.modify; simp add: fwd_defs)+

lemma fwd_put_reward [forwards]: "evolves forward (put_reward e)"
  unfolding put_reward_def by (rule fwd.modify) (simp add: fwd_defs)

lemma fwd_drop_reward [forwards]: "evolves forward drop_reward"
  unfolding drop_reward_def by (rule fwd.modify) (simp add: fwd_defs)

lemma fwd_enqueue [forwards]: "evolves forward (enqueue_rewards_cal env ps v n b)"
  unfolding enqueue_rewards_cal_def by (intro forwards)

lemma fwd_dequeue [forwards]: "evolves forward (dequeue_rewards_cal env)"
  unfolding dequeue_rewards_cal_def
  apply (intro forwards)
  subgoal for s e rest by (cases e; simp only: reward_entry.case; intro forwards)
  done

lemma fwd_post [forwards]: "evolves forward (post_rollouts env ps)"
  unfolding post_rollouts_def by (intro forwards)

lemma fwd_report_loop [forwards]: "evolves forward (report_loop env blocking n)"
  by (induction n) (auto intro!: forwards split: option.split)

lemma fwd_report [forwards]: "evolves forward (report_rollouts env blocking)"
  unfolding report_rollouts_def by (intro forwards)

lemma fwd_send_end [forwards]: "evolves forward (send_end_signal env)"
  unfolding send_end_signal_def by (intro forwards)

lemma fwd_fetch_prompts [forwards]: "evolves forward (fetch_prompts env b e v)"
  unfolding fetch_prompts_def Let_def by (intro forwards)

lemma fwd_request [forwards]: "evolves forward (request_new_prompts env b e v)"
  unfolding request_new_prompts_def by (intro forwards)

lemma fwd_put_prompts [forwards]: "evolves forward (put_prompts ps)"
  unfolding put_prompts_def by (intro forwards fwd.modify) (simp add: fwd_defs)

lemma fwd_filter [forwards]: "evolves forward (filter_valid_rollout_results_and_report env rs ps)"
  unfolding filter_valid_rollout_results_and_report_def by (intro forwards)

lemma fwd_one_step [forwards]: "evolves forward (one_step_generation env)"
  unfolding one_step_generation_def Let_def by (intro forwards fwd.modify) (simp add: fwd_defs)

lemma fwd_current_step [forwards]: "evolves forward current_step"
  unfolding current_step_def by (intro forwards)

lemma fwd_validated [forwards]: "evolves forward (validated ps)"
  unfolding validated_def by (intro forwards)

lemma fwd_validation_loop [forwards]: "evolves forward (validation_loop env n acc)"
  by (induction n arbitrary: acc) (auto intro!: forwards split: option.split)

lemma fwd_validation_report [forwards]: "evolves forward (validation_report env n d)"
  by (induction n arbitrary: d) (auto intro!: forwards split: option.split prod.split)

lemma fwd_do_validation [forwards]: "evolves forward (do_validation env)"
  unfolding do_validation_def by (intro forwards fwd.modify) (simp add: fwd_defs)

lemma fwd_initialise [forwards]: "evolves forward (initialise env fmt)"
  unfolding initialise_def by (intro forwards fwd.modify) (simp add: fwd_defs)

lemma fwd_build_mesh [forwards]: "evolves forward (build_global_mesh env ranks)"
  unfolding build_global_mesh_def by (intro forwards fwd.modify; simp add: fwd_defs)

lemma fwd_prepare_trainable [forwards]: "evolves forward (prepare_trainable_params env)"
  unfolding prepare_trainable_params_def Let_def by (rule fwd.with_this_state) (simp add: fwd_defs)

lemma fwd_recv_param [forwards]: "evolves forward (recv_param_shards env tr p)"
  unfolding recv_param_shards_def by (intro forwards)

lemma fwd_recv_params [forwards]: "evolves forward (recv_params env tr ps)"
  by (induction ps) (auto intro!: forwards)

lemma fwd_recv_weight [forwards]: "evolves forward (recv_weight_shard env tr g)"
  unfolding recv_weight_shard_def by (intro forwards)

lemma fwd_recv_groups [forwards]: "evolves forward (recv_groups env tr gs k cnt)"
  by (induction gs arbitrary: k cnt) (auto intro!: forwards)

lemma fwd_fetch_insts [forwards]: "evolves forward (fetch_recv_insts env tr)"
  unfolding fetch_recv_insts_def by (rule fwd.with_this_state) (auto simp: fwd_defs bnd_def split: option.split)

lemma fwd_p2r_count [forwards]: "evolves forward (check_p2r_count cnt)"
  unfolding check_p2r_count_def by (intro forwards fwd.modify) (simp add: fwd_defs)

lemma fwd_finish_p2r [forwards]: "evolves forward (finish_p2r tr cnt)"
  unfolding finish_p2r_def by (intro forwards fwd.modify; simp add: fwd_defs)

lemma fwd_p2r [forwards]: "evolves forward (policy_to_rollout_unicast env dst tr)"
  unfolding policy_to_rollout_unicast_def by (intro forwards)

lemma fwd_broadcast_params [forwards]: "evolves forward (broadcast_params tr r names cnt)"
  by (induction names arbitrary: cnt) (auto intro!: forwards)

lemma fwd_r2r_count [forwards]: "evolves forward (check_r2r_count cnt)"
  unfolding check_r2r_count_def by (intro forwards fwd.modify) (simp add: fwd_defs)

lemma fwd_finish_broadcast [forwards]: "evolves forward (finish_broadcast tr cnt)"
  unfolding finish_broadcast_def by (intro forwards fwd.modify; simp add: fwd_defs)

lemma fwd_broadcast_weights [forwards]: "evolves forward (broadcast_weights env src dsts tr)"
  unfolding broadcast_weights_def by (intro forwards)

lemma fwd_advance [forwards]: "evolves forward (advance_version w)"
  unfolding advance_version_def by (rule fwd.with_this_state) (auto simp: fwd_defs bnd_def split: option.split)

lemma fwd_mark [forwards]: "evolves forward (mark_validation env n t)"
  unfolding mark_validation_def by (intro forwards fwd.modify) (simp add: fwd_defs)

lemma fwd_stop [forwards]: "evolves forward (stop_worker env)"
  unfolding stop_worker_def by (intro forwards fwd.modify) (simp add: fwd_defs)

lemma fwd_r2r [forwards]: "evolves forward (broadcast_to_all_rollout_replica env src dsts w t tr)"
  unfolding broadcast_to_all_rollout_replica_def by (intro forwards)

lemma fwd_execute [forwards]: "evolves forward (execute_command env c)"
  by (cases c) (auto simp: execute_command_def intro!: forwards)

lemma fwd_consume_one [forwards]: "evolves forward (consume_one_command env p t)"
  unfolding consume_one_command_def by (intro forwards fwd.modify) (simp add: fwd_defs)

lemma fwd_look [forwards]: "evolves forward look"
  unfolding look_def by (intro forwards fwd.modify) (simp add: fwd_defs)

lemma fwd_consume_loop [forwards]: "evolves forward (consume_loop env p timeout n start last_cmd k)"
  by (induction n arbitrary: start last_cmd k) (auto simp: Let_def intro!: forwards)

lemma fwd_consume [forwards]: "evolves forward (consume_command env p timeout)"
  unfolding consume_command_def by (intro forwards)

lemma fwd_end_of_prompts [forwards]: "evolves forward (end_of_prompts env)"
proof -
  have "forward s (final (bnd (lift_sum (set_prompt_consume_end (wk_state s))) (\<lambda>st.
      bnd (modify (\<lambda>s. s\<lparr>wk_state := st\<rparr>)) (\<lambda>_. guarded (we_global_rank env = 0) (send_end_signal env))) s))" for s
  proof (cases "set_prompt_consume_end (wk_state s)")
    case (Inr st)
    have "forward s (s\<lparr>wk_state := st\<rparr>)" using consume_end_flags [OF Inr] by (simp add: fwd_defs)
    moreover have "forward t (final (guarded (we_global_rank env = 0) (send_end_signal env) t))" for t
      using fwd.guarded [of "we_global_rank env = 0" "send_end_signal env"] fwd_send_end by (simp add: evolves_def)
    ultimately show ?thesis using Inr forward_trans by (simp add: guarded_def)
  qed (simp add: forward_refl)
  then show ?thesis unfolding end_of_prompts_def by (intro fwd.with_this_state)
qed

lemma fwd_fetch_step [forwards]: "evolves forward (fetch_step env)"
  unfolding fetch_step_def by (intro forwards fwd.modify) (simp add: fwd_defs)

lemma fwd_fetch_phase [forwards]: "evolves forward (fetch_phase env)"
  unfolding fetch_phase_def by (intro forwards)

lemma fwd_generate_step [forwards]: "evolves forward (generate_step env)"
  unfolding generate_step_def by (intro forwards)

lemma fwd_work_phase [forwards]: "evolves forward (work_phase env)"
  unfolding work_phase_def by (intro forwards)

lemma fwd_main_round [forwards]: "evolves forward (main_round env timeout)"
  unfolding main_round_def by (intro forwards)

lemma fwd_main_loop [forwards]: "evolves forward (main_loop env timeout n)"
proof (induction n)
  case (Suc n)
  then show ?case unfolding main_loop.simps by (intro forwards)
qed (simp add: forwards)

section \<open>Invariants of the main loop\<close>

text \<open>What an invariant about prompts, rewards and reports has to show of the operations that are about them, for
  the whole main loop to maintain it; all other operations are taken care of here.\<close>

definition tracked :: "worker_event \<Rightarrow> bool" where
  "tracked e \<longleftrightarrow> (case e of Prompts_Queued _ \<Rightarrow> True | Generated _ _ \<Rightarrow> True | Rollouts_Posted _ _ \<Rightarrow> True
     | End_Posted \<Rightarrow> True | _ \<Rightarrow> False)"

definition untold :: "worker_event \<Rightarrow> bool" where
  "untold e \<longleftrightarrow> \<not> tracked e \<and> (case e of Validated _ _ _ \<Rightarrow> False | _ \<Rightarrow> True)"

definition same_core :: "worker \<Rightarrow> worker \<Rightarrow> bool" where
  "same_core s t \<longleftrightarrow> wk_out t = wk_out s \<and> wk_prompts t = wk_prompts s \<and> wk_rewards t = wk_rewards s
     \<and> wk_state t = wk_state s \<and> wk_version t = wk_version s \<and> wk_current_step t = wk_current_step s
     \<and> wk_non_trainable_received t = wk_non_trainable_received s"

locale worker_invariant =
  fixes env :: worker_env and I :: "worker \<Rightarrow> bool"
  assumes untracked: "untold e \<Longrightarrow> maintains I (emit e)"
    and validation: "maintains I (validated qs)"
    and core: "same_core s t \<Longrightarrow> I s \<Longrightarrow> I t"
    and newer_version: "wk_version s \<le> v \<Longrightarrow> I s \<Longrightarrow> I (s\<lparr>wk_version := v\<rparr>)"
    and marked: "0 \<le> wk_version s \<Longrightarrow> I s \<Longrightarrow> I (s\<lparr>wk_current_step := Some (wk_version s), wk_validation_flag := True\<rparr>)"
    and p2r_finish: "maintains I (finish_p2r tr cnt)"
    and r2r_finish: "maintains I (finish_broadcast tr cnt)"
    and dequeue: "maintains I (dequeue_rewards_cal env)"
    and report: "maintains I (report_rollouts env blocking)"
    and validation_rewards: "maintains I (enqueue_rewards_cal env ps True n False)"
    and fetch: "maintains I (fetch_phase env)"
    and generate: "maintains (\<lambda>s. I s \<and> weight_synced (wk_state s)) (generate_step env)"
begin

lemma update: "(\<And>s. same_core s (f s)) \<Longrightarrow> maintains I (modify f)"
  unfolding maintains_modify using core by blast

lemma input:
  "maintains I (next_in in_ticks in_ticks_update)" "maintains I (next_in in_replies in_replies_update)"
  "maintains I (next_in in_results in_results_update)" "maintains I (next_in in_polls in_polls_update)"
  unfolding next_in_def by (intro invar update; simp add: same_core_def)+

lemmas base = input dequeue report validation_rewards

lemma request: "maintains I (request_new_prompts env b e v)"
  unfolding request_new_prompts_def fetch_prompts_def Let_def
  by (intro invar base untracked) (simp_all add: untold_def tracked_def)

lemma step_known: "maintains I current_step"
  unfolding current_step_def by (intro invar)

lemma validations: "maintains I (validation_loop env n acc)"
proof (induction n arbitrary: acc)
  case (Suc n)
  then show ?case unfolding validation_loop.simps by (intro invar base request step_known validation)
qed (simp add: invar)

lemma validation_reports: "maintains I (validation_report env n d)"
proof (induction n arbitrary: d)
  case (Suc n)
  then show ?case unfolding validation_report.simps by (intro invar base untracked) (simp_all add: untold_def tracked_def)
qed (simp add: invar)

lemma validating: "maintains I (do_validation env)"
  unfolding do_validation_def
  by (intro invar base validations validation_reports step_known update) (simp add: same_core_def)

lemma initialising: "maintains I (initialise env fmt)"
  unfolding initialise_def by (intro invar untracked update) (simp_all add: untold_def tracked_def same_core_def)

lemma mesh: "maintains I (build_global_mesh env ranks)"
  unfolding build_global_mesh_def by (intro invar untracked update) (simp_all add: untold_def tracked_def same_core_def)

lemma trainables: "maintains I (prepare_trainable_params env)"
  unfolding prepare_trainable_params_def Let_def by (intro invar update) (simp add: same_core_def)

lemma receiving: "maintains I (recv_params env tr ps)"
proof (induction ps)
  case (Cons p ps)
  have "maintains I (recv_param_shards env tr p)"
    unfolding recv_param_shards_def by (intro invar untracked) (simp add: untold_def tracked_def)
  with Cons show ?case unfolding recv_params.simps by (intro invar)
qed (simp add: invar)

lemma receiving_groups: "maintains I (recv_groups env tr gs k cnt)"
proof (induction gs arbitrary: k cnt)
  case (Cons g gs)
  then show ?case unfolding recv_groups.simps recv_weight_shard_def
    by (intro invar receiving untracked) (simp_all add: untold_def tracked_def)
qed (simp add: invar)

lemma p2r: "maintains I (policy_to_rollout_unicast env dst tr)"
  unfolding policy_to_rollout_unicast_def fetch_recv_insts_def
  by (intro invar initialising trainables receiving_groups p2r_finish untracked update)
    (simp_all add: untold_def tracked_def same_core_def)

lemma broadcasting: "maintains I (broadcast_params tr r names cnt)"
proof (induction names arbitrary: cnt)
  case (Cons n names)
  then show ?case unfolding broadcast_params.simps by (intro invar untracked) (simp_all add: untold_def tracked_def)
qed (simp add: invar)

lemma versions: "maintains I (advance_version w)"
  unfolding advance_version_def
  by (rule maintains_with_state) (auto simp: bnd_def newer_version split: option.split)

lemma stopping: "maintains I (stop_worker env)"
  unfolding stop_worker_def by (intro invar validating untracked update) (simp_all add: untold_def tracked_def same_core_def)

lemma version_is: "advance_version w s = Ok step t \<Longrightarrow> step = wk_version t"
  by (auto simp: advance_version_def bnd_eq_Ok_iff split: option.splits)

text \<open>The step of a validation is the version of the weights at the time it is marked.\<close>

lemma marking: "maintains I (bnd (advance_version w) (\<lambda>step. mark_validation env step tot))"
proof -
  have "maintains I (\<lambda>s. if n = wk_version s then mark_validation env n tot s else Ok () s)" for n
    using marked by (auto simp: maintains_def mark_validation_def lift_sum_def bnd_def split: sum.splits)
  moreover have "bnd (advance_version w) (\<lambda>step. mark_validation env step tot) =
      bnd (advance_version w) (\<lambda>step s. if step = wk_version s then mark_validation env step tot s else Ok () s)"
    by (rule ext) (auto simp: bnd_def dest: version_is split: outcome.split)
  ultimately show ?thesis by (simp only:) (intro invar versions)
qed

lemma r2r: "maintains I (broadcast_to_all_rollout_replica env src dsts w t tr)"
proof -
  have "broadcast_to_all_rollout_replica env src dsts w t tr =
     bnd (guarded (we_name env \<noteq> src) (initialise env ''dummy'')) (\<lambda>_.
     bnd (guarded (1 < length dsts) (broadcast_weights env src dsts tr)) (\<lambda>_.
     bnd (bnd (advance_version w) (\<lambda>step. mark_validation env step t)) (\<lambda>_.
     guarded (should_stop w t) (stop_worker env))))"
    by (simp only: broadcast_to_all_rollout_replica_def bnd_assoc)
  then show ?thesis unfolding broadcast_weights_def
    by (simp only:) (intro invar initialising trainables broadcasting r2r_finish marking stopping)
qed

lemma commands: "maintains I (execute_command env c)"
proof (cases c)
  case BuildMesh
  then show ?thesis using mesh by (simp add: execute_command_def)
next
  case PolicyToRolloutUnicast
  then show ?thesis using p2r by (simp add: execute_command_def)
next
  case RolloutToRolloutBroadcast
  then show ?thesis using r2r by (simp add: execute_command_def)
qed (simp_all add: execute_command_def invar)

lemma consuming_one: "maintains I (consume_one_command env p t)"
  unfolding consume_one_command_def
  by (intro invar commands update) (simp add: same_core_def)

lemma looking: "maintains I look"
  unfolding look_def by (intro invar input update) (simp add: same_core_def)

lemma consuming_loop: "maintains I (consume_loop env p timeout n start last_cmd k)"
proof (induction n arbitrary: start last_cmd k)
  case (Suc n)
  then show ?case unfolding consume_loop.simps Let_def by (intro invar consuming_one looking)
qed (simp add: invar)

lemma consuming: "maintains I (consume_command env p timeout)"
  unfolding consume_command_def by (intro invar looking consuming_loop)

lemma main: "maintains I (main_loop env timeout n)"
proof (induction n)
  case (Suc n)
  let ?J = "\<lambda>s. I s \<and> weight_synced (wk_state s)"
  have synced: "maintains ?J m" if "maintains I m" "evolves forward m" for m :: "'c work"
    using that by (auto simp: maintains_def evolves_def fwd_defs)
  have "maintains ?J (work_phase env)"
    unfolding work_phase_def by (intro invar synced [OF report fwd_report] synced [OF fetch fwd_fetch_phase] generate)
  then have "maintains I (with_state (\<lambda>s. guarded (weight_synced (wk_state s)) (work_phase env)))"
    by (simp add: maintains_def)
  moreover have "maintains I (with_state (\<lambda>s. guarded (wk_validation_flag s) (do_validation env)))"
    by (intro invar validating)
  ultimately have "maintains I (main_round env timeout)"
    unfolding main_round_def by (intro maintains_bnd [OF consuming] maintains_bnd)
  with Suc show ?case unfolding main_loop.simps by (intro invar)
qed (simp add: invar)

end

section \<open>Histories\<close>

definition gens :: "worker_event list \<Rightarrow> (int \<times> payload list) list" where
  "gens out = concat (map (\<lambda>e. case e of Generated v ps \<Rightarrow> [(v, ps)] | _ \<Rightarrow> []) out)"

text \<open>The batches generated for validation, with the step and the version of the weights.\<close>

definition validations :: "worker_event list \<Rightarrow> (int \<times> int \<times> payload list) list" where
  "validations out = concat (map (\<lambda>e. case e of Validated k v ps \<Rightarrow> [(k, v, ps)] | _ \<Rightarrow> []) out)"

definition batches :: "worker_event list \<Rightarrow> payload list list" where
  "batches out = concat (map (\<lambda>e. case e of Prompts_Queued ps \<Rightarrow> [ps] | _ \<Rightarrow> []) out)"

lemma history_simps [simp]:
  "gens [] = []" "gens (out @ [e]) = gens out @ (case e of Generated v ps \<Rightarrow> [(v, ps)] | _ \<Rightarrow> [])"
  "batches [] = []" "batches (out @ [e]) = batches out @ (case e of Prompts_Queued ps \<Rightarrow> [ps] | _ \<Rightarrow> [])"
  "validations [] = []" "validations (out @ [e]) = validations out @ (case e of Validated k v ps \<Rightarrow> [(k, v, ps)] | _ \<Rightarrow> [])"
  by (simp_all add: gens_def batches_def validations_def)

text \<open>What the invariant of generation observes; reporting leaves it alone.\<close>

definition seen :: "worker \<Rightarrow> (int \<times> payload list) list \<times> payload list list \<times> payload list list \<times> int \<times> int \<times> bool
    \<times> (int \<times> int \<times> payload list) list \<times> int option" where
  "seen s = (gens (wk_out s), batches (wk_out s), wk_prompts s, wk_state s, wk_version s, wk_non_trainable_received s,
     validations (wk_out s), wk_current_step s)"

lemma seen_emit: "(case e of Generated _ _ \<Rightarrow> False | Prompts_Queued _ \<Rightarrow> False | Validated _ _ _ \<Rightarrow> False | _ \<Rightarrow> True) \<Longrightarrow> keeps seen (emit e)"
  unfolding emit_def keeps_modify by (cases e) (simp_all add: seen_def)

lemma seen_polls [frame]: "keeps seen (next_in in_polls in_polls_update)"
  unfolding next_in_def by (intro frame) (simp add: keeps_modify seen_def)

lemma seen_rewards [frame]: "keeps seen (put_reward e)" "keeps seen drop_reward"
  by (simp_all add: put_reward_def drop_reward_def keeps_modify seen_def)

lemma seen_dequeue [frame]: "keeps seen (dequeue_rewards_cal env)"
  unfolding dequeue_rewards_cal_def
  apply (intro frame)
  subgoal for s e rest by (cases e; simp only: reward_entry.case; intro frame)
  done

lemma seen_enqueue [frame]: "keeps seen (enqueue_rewards_cal env ps v n b)"
  unfolding enqueue_rewards_cal_def by (intro frame)

lemma seen_post [frame]: "keeps seen (post_rollouts env ps)"
  unfolding post_rollouts_def by (intro frame seen_emit) simp

lemma seen_report_loop [frame]: "keeps seen (report_loop env b n)"
proof (induction n)
  case (Suc n)
  then show ?case unfolding report_loop.simps by (intro frame)
qed (simp add: frame)

lemma seen_report [frame]: "keeps seen (report_rollouts env b)"
  unfolding report_rollouts_def by (intro frame)

lemma seen_send_end [frame]: "keeps seen (send_end_signal env)"
  unfolding send_end_signal_def by (intro frame seen_emit) simp

lemma seen_filter [frame]: "keeps seen (filter_valid_rollout_results_and_report env rs ps)"
  unfolding filter_valid_rollout_results_and_report_def by (intro frame)

lemma seen_results [frame]: "keeps seen (next_in in_results in_results_update)" "keeps seen (next_in in_replies in_replies_update)"
  unfolding next_in_def by (intro frame; simp add: keeps_modify seen_def)+

lemma seen_request [frame]: "keeps seen (request_new_prompts env b e v)"
  unfolding request_new_prompts_def fetch_prompts_def Let_def by (intro frame seen_emit) simp

text \<open>Generation for training happens only with synchronised weights, for batches whose first version allows it, in the
  order in which they were queued; weights count as synchronised only once all parameters have come. Generation for
  validation happens with weights at least as new as the step that is validated.\<close>

definition gen_inv :: "worker_env \<Rightarrow> worker \<Rightarrow> bool" where
  "gen_inv env s \<longleftrightarrow> (case seen s of (gs, bs, ps, st, v, full, vs, step) \<Rightarrow>
     (weight_synced st \<longrightarrow> full) \<and> (gs \<noteq> [] \<longrightarrow> weight_synced st) \<and> bs = map snd gs @ ps \<and> sorted (map fst gs)
     \<and> (\<forall>(w, b) \<in> set gs. w \<le> v \<and> b \<noteq> [] \<and> pl_weight_version (hd b) \<le> w + we_allowed_outdated_steps env)
     \<and> (\<forall>k. step = Some k \<longrightarrow> 0 \<le> k \<and> k \<le> v) \<and> (\<forall>(k, w, b) \<in> set vs. 0 \<le> k \<and> k \<le> w \<and> w \<le> v))"

lemma gen_inv_keeps: "keeps seen m \<Longrightarrow> maintains (gen_inv env) m"
  unfolding gen_inv_def by (rule maintains_keeps)

lemma gen_inv_cong: "seen t = seen s \<Longrightarrow> gen_inv env s \<Longrightarrow> gen_inv env t"
  by (simp add: gen_inv_def)

lemma seen_counts: "keeps seen (check_p2r_count cnt)" "keeps seen (check_r2r_count cnt)"
  unfolding check_p2r_count_def check_r2r_count_def by (intro frame; simp add: keeps_modify seen_def)+

lemma p2r_count_full: "check_p2r_count cnt s = Ok () t \<Longrightarrow> wk_non_trainable_received t"
  by (auto simp: check_p2r_count_def bnd_eq_Ok_iff split: option.splits if_splits)

lemma gen_inv_finish:
  "maintains (gen_inv env) (finish_p2r tr cnt)" "maintains (gen_inv env) (finish_broadcast tr cnt)"
proof -
  have p2r: "gen_inv env (final (finish_p2r tr cnt s))" if "gen_inv env s" for s
  proof (cases tr)
    case True
    show ?thesis
    proof (cases "check_p2r_count cnt s")
      case (Ok u t)
      then have "seen t = seen s" "wk_non_trainable_received t"
        using keeps_Ok [OF seen_counts(1)] p2r_count_full by simp_all
      then show ?thesis using that True Ok by (auto simp: finish_p2r_def gen_inv_def seen_def)
    next
      case (Raise e t)
      then have "seen t = seen s" using keeps_Raise [OF seen_counts(1)] by simp
      then show ?thesis using that True Raise by (simp add: finish_p2r_def gen_inv_def)
    qed
  next
    case False
    then show ?thesis using that by (auto simp: finish_p2r_def gen_inv_def seen_def)
  qed
  have r2r: "gen_inv env (final (finish_broadcast tr cnt s))" if "gen_inv env s" for s
  proof (cases tr)
    case True
    have "finish_broadcast True cnt s = (if weight_synced (wk_state s) then check_r2r_count cnt s else Raise AssertionError s)"
      by (simp add: finish_broadcast_def bnd_def split: outcome.split)
    then show ?thesis using True that gen_inv_cong [OF keepsD [OF seen_counts(2), of cnt s]] by simp
  next
    case False
    then show ?thesis using that by (auto simp: finish_broadcast_def gen_inv_def seen_def bnd_def)
  qed
  show "maintains (gen_inv env) (finish_p2r tr cnt)" "maintains (gen_inv env) (finish_broadcast tr cnt)"
    using p2r r2r by (simp_all add: maintains_def)
qed

lemma gen_inv_end: "maintains (gen_inv env) (end_of_prompts env)"
proof -
  have "gen_inv env (final (bnd (lift_sum (set_prompt_consume_end (wk_state s))) (\<lambda>st.
      bnd (modify (\<lambda>s. s\<lparr>wk_state := st\<rparr>)) (\<lambda>_. guarded (we_global_rank env = 0) (send_end_signal env))) s))"
    if "gen_inv env s" for s
  proof (cases "set_prompt_consume_end (wk_state s)")
    case (Inr st)
    have "gen_inv env (s\<lparr>wk_state := st\<rparr>)" using that consume_end_flags [OF Inr] by (auto simp: gen_inv_def seen_def)
    then have "gen_inv env (final (guarded (we_global_rank env = 0) (send_end_signal env) (s\<lparr>wk_state := st\<rparr>)))"
      by (intro maintainsD [OF gen_inv_keeps]) (intro frame)
    then show ?thesis using Inr by (simp add: bnd_def)
  qed (simp add: that)
  then show ?thesis unfolding end_of_prompts_def by (intro maintains_with_state)
qed

lemma gen_inv_put: "maintains (gen_inv env) (put_prompts ps)"
  by (cases ps) (auto simp: put_prompts_def emit_def maintains_def gen_inv_def seen_def)

lemma gen_inv_fetch: "maintains (gen_inv env) (fetch_step env)"
proof -
  have "maintains (gen_inv env) (modify (\<lambda>s. s\<lparr>wk_state := set_prompt_fetch_end (wk_state s)\<rparr>))"
    by (auto simp: maintains_modify gen_inv_def seen_def)
  then show ?thesis unfolding fetch_step_def
    by (intro invar gen_inv_put gen_inv_end gen_inv_keeps [OF seen_request])
qed

lemma gen_inv_step:
  assumes "gen_inv env s" "weight_synced (wk_state s)" "wk_prompts s = (p # ps) # rest"
    and "pl_weight_version p \<le> wk_version s + we_allowed_outdated_steps env"
  shows "gen_inv env (final (one_step_generation env s))"
proof -
  let ?t = "s\<lparr>wk_prompts := rest, wk_out := wk_out s @ [Generated (wk_version s) (p # ps)]\<rparr>"
  let ?m = "bnd (next_in in_results in_results_update) (\<lambda>results. guarded (results \<noteq> [])
       (bnd (py_assert (length results = length (p # ps))) (\<lambda>_.
        filter_valid_rollout_results_and_report env results (p # ps))))"
  have t: "gen_inv env ?t" using assms by (auto simp: gen_inv_def seen_def sorted_append)
  have "keeps seen ?m" by (intro frame)
  from gen_inv_cong [OF keepsD [OF this, of ?t] t] have "gen_inv env (final (?m ?t))" .
  moreover have "one_step_generation env s = ?m ?t"
    unfolding one_step_generation_def Let_def emit_def by (simp only: with_state_run bnd_Ok modify_run assms(3) list.sel) simp
  ultimately show ?thesis by (simp only:)
qed

lemma gen_inv_generate: "maintains (\<lambda>s. gen_inv env s \<and> weight_synced (wk_state s)) (generate_step env)"
proof -
  have last: "maintains (gen_inv env) (with_state (\<lambda>s. guarded (prompt_fetch_end (wk_state s) \<and> wk_prompts s = []) (end_of_prompts env)))"
    by (intro invar gen_inv_end)
  have "gen_inv env (final (generate_step env s))" if I: "gen_inv env s" "weight_synced (wk_state s)" for s
  proof (cases "prompt_consume_end (wk_state s) \<or> wk_prompts s = [] \<or> hd (wk_prompts s) = []")
    case True
    then show ?thesis using I by (auto simp: generate_step_def split: list.split)
  next
    case False
    then obtain p ps rest where q: "\<not> prompt_consume_end (wk_state s)" "wk_prompts s = (p # ps) # rest"
      by (metis list.collapse)
    show ?thesis
    proof (cases "pl_weight_version p \<le> wk_version s + we_allowed_outdated_steps env")
      case True
      note g = gen_inv_step [OF I q(2) True]
      show ?thesis
      proof (cases "one_step_generation env s")
        case (Ok u t)
        then show ?thesis using g q True maintainsD [OF last, of t] by (simp add: generate_step_def)
      next
        case (Raise e t)
        then show ?thesis using g q True by (simp add: generate_step_def)
      qed
    qed (use I q in \<open>simp add: generate_step_def\<close>)
  qed
  moreover have "weight_synced (wk_state (final (generate_step env s)))" if "weight_synced (wk_state s)" for s
    using that fwd_generate_step [of env] by (simp add: evolves_def fwd_defs)
  ultimately show ?thesis by (simp add: maintains_def)
qed

lemma gen_inv_version: "wk_version s \<le> v \<Longrightarrow> gen_inv env s \<Longrightarrow> gen_inv env (s\<lparr>wk_version := v\<rparr>)"
  by (auto simp: gen_inv_def seen_def)

lemma gen_inv_marked:
  "0 \<le> wk_version s \<Longrightarrow> gen_inv env s \<Longrightarrow> gen_inv env (s\<lparr>wk_current_step := Some (wk_version s), wk_validation_flag := True\<rparr>)"
  by (auto simp: gen_inv_def seen_def)

lemma gen_inv_validated: "maintains (gen_inv env) (validated qs)"
  by (auto simp: maintains_def validated_def current_step_def emit_def gen_inv_def seen_def bnd_def lift_sum_def split: option.split)

lemma gen_inv_core: "same_core s t \<Longrightarrow> gen_inv env s \<Longrightarrow> gen_inv env t"
  by (rule gen_inv_cong) (simp_all add: same_core_def seen_def)

interpretation genw: worker_invariant env "gen_inv env" for env
proof
  fix e s t v tr cnt blocking ps n
  show "untold e \<Longrightarrow> maintains (gen_inv env) (emit e)"
    by (rule gen_inv_keeps [OF seen_emit]) (auto simp: untold_def tracked_def split: worker_event.splits)
  show "maintains (gen_inv env) (dequeue_rewards_cal env)" "maintains (gen_inv env) (report_rollouts env blocking)"
    "maintains (gen_inv env) (enqueue_rewards_cal env ps True n False)"
    by (intro gen_inv_keeps frame)+
  show "maintains (gen_inv env) (fetch_phase env)"
    unfolding fetch_phase_def by (intro invar gen_inv_fetch)
qed (rule gen_inv_core gen_inv_version gen_inv_marked gen_inv_validated gen_inv_finish gen_inv_generate; assumption?)+

lemma gen_inv_new: "gen_inv env (new_worker ticks replies results polls)"
  by (simp add: gen_inv_def seen_def new_worker_def weight_synced_def)

section \<open>The end signal\<close>

text \<open>After the end signal nothing is fetched, generated or reported for training, and no other end signal sent.\<close>

definition quiet_end :: "worker_event list \<Rightarrow> bool" where
  "quiet_end out \<longleftrightarrow> (End_Posted \<in> set out \<longrightarrow> list_all (\<lambda>e. \<not> tracked e) (tl (dropWhile (\<lambda>e. e \<noteq> End_Posted) out)))"

definition for_validation :: "reward_entry \<Rightarrow> bool" where
  "for_validation e = (case e of Reward_Tuple _ v _ \<Rightarrow> v | Reward_Future _ v _ \<Rightarrow> v)"

definition end_inv :: "worker \<Rightarrow> bool" where
  "end_inv s \<longleftrightarrow> quiet_end (wk_out s) \<and> (End_Posted \<in> set (wk_out s) \<longrightarrow> prompt_fetch_end (wk_state s)
     \<and> prompt_consume_end (wk_state s) \<and> wk_prompts s = [] \<and> list_all for_validation (wk_rewards s))"

lemma quiet_end_snoc:
  "quiet_end out \<Longrightarrow> End_Posted \<notin> set out \<or> \<not> tracked e \<Longrightarrow> quiet_end (out @ [e])"
proof (cases "End_Posted \<in> set out")
  case True
  then have "tl (dropWhile (\<lambda>e. e \<noteq> End_Posted) (out @ [e])) = tl (dropWhile (\<lambda>e. e \<noteq> End_Posted) out) @ [e]"
    by (simp add: dropWhile_append1)
  then show "quiet_end out \<Longrightarrow> End_Posted \<notin> set out \<or> \<not> tracked e \<Longrightarrow> ?thesis" using True by (simp add: quiet_end_def)
next
  case False
  then have "dropWhile (\<lambda>e. e \<noteq> End_Posted) out = []" by simp metis
  then show ?thesis using False by (simp add: quiet_end_def dropWhile_append3)
qed

lemma end_inv_emit: "\<not> tracked e \<Longrightarrow> maintains end_inv (emit e)"
  unfolding emit_def maintains_modify
  by (auto simp: end_inv_def tracked_def intro: quiet_end_snoc)

text \<open>An operation that queues, generates or reports nothing for training, in a state in which the end signal
  has not been sent, cannot send it either.\<close>

definition unended :: "worker \<Rightarrow> bool" where
  "unended s \<longleftrightarrow> End_Posted \<notin> set (wk_out s)"

lemma unended_inv: "unended s \<Longrightarrow> end_inv s"
  by (simp add: unended_def end_inv_def quiet_end_def)

lemma unended_emit: "e \<noteq> End_Posted \<Longrightarrow> keeps unended (emit e)"
  by (auto simp: emit_def keeps_modify unended_def)

lemma unended_next [frame]: "keeps unended (next_in in_polls in_polls_update)" "keeps unended (next_in in_results in_results_update)"
    "keeps unended (next_in in_replies in_replies_update)"
  unfolding next_in_def by (intro frame; simp add: keeps_modify unended_def)+

lemma unended_dequeue [frame]: "keeps unended (dequeue_rewards_cal env)"
  unfolding dequeue_rewards_cal_def drop_reward_def
  apply (intro frame)
  subgoal for s e rest by (cases e; simp only: reward_entry.case; intro frame; simp add: keeps_modify unended_def)
  done

lemma unended_post [frame]: "keeps unended (post_rollouts env ps)"
  unfolding post_rollouts_def by (intro frame unended_emit) simp

lemma unended_report_loop [frame]: "keeps unended (report_loop env b n)"
proof (induction n)
  case (Suc n)
  then show ?case unfolding report_loop.simps by (intro frame)
qed (simp add: frame)

lemma unended_report [frame]: "keeps unended (report_rollouts env b)"
  unfolding report_rollouts_def by (intro frame)

lemma unended_enqueue [frame]: "keeps unended (enqueue_rewards_cal env ps v n b)"
  unfolding enqueue_rewards_cal_def put_reward_def by (intro frame) (simp add: keeps_modify unended_def)

lemma unended_step [frame]: "keeps unended (one_step_generation env)"
  unfolding one_step_generation_def filter_valid_rollout_results_and_report_def Let_def
  by (intro frame unended_emit) (simp_all add: keeps_modify unended_def)

lemma unended_request [frame]: "keeps unended (request_new_prompts env b e v)" "keeps unended (put_prompts ps)"
  unfolding request_new_prompts_def fetch_prompts_def put_prompts_def Let_def
  by (intro frame unended_emit; simp add: keeps_modify unended_def)+

text \<open>Taking entries off a queue of validation tasks.\<close>

lemma dequeue_final:
  "\<exists>k polls. final (dequeue_rewards_cal env s) = s\<lparr>wk_rewards := drop k (wk_rewards s), in_polls := polls\<rparr>"
proof (cases "wk_rewards s")
  case Nil
  then show ?thesis by (auto simp: dequeue_rewards_cal_def intro: exI [of _ 0] exI [of _ "in_polls s"])
next
  case (Cons e rest)
  show ?thesis
  proof (cases e)
    case Reward_Tuple
    then show ?thesis using Cons
      by (intro exI [of _ 1] exI [of _ "in_polls s"]) (simp add: dequeue_rewards_cal_def drop_reward_def)
  next
    case (Reward_Future ps v n)
    show ?thesis
    proof (cases "in_polls s")
      case Nil
      then show ?thesis using Cons Reward_Future
        by (intro exI [of _ 0] exI [of _ "[]"]) (simp add: dequeue_rewards_cal_def next_in_def)
    next
      case (Cons ready polls)
      have "final (bnd (lift_sum r) (\<lambda>qs. ret (Some qs, v, n, False)) t) = t" for r :: "error + payload list" and t :: worker
        by (cases r) simp_all
      then show ?thesis using \<open>wk_rewards s = e # rest\<close> Reward_Future Cons
        by (intro exI [of _ "if ready then 1 else 0"] exI [of _ polls])
          (simp add: dequeue_rewards_cal_def next_in_def drop_reward_def)
    qed
  qed
qed

lemma dequeue_kind:
  "dequeue_rewards_cal env s = Ok (Some qs, v, st, nl) t \<Longrightarrow> list_all for_validation (wk_rewards s) \<Longrightarrow> v"
  by (auto simp: dequeue_rewards_cal_def drop_reward_def next_in_def lift_sum_def bnd_def for_validation_def
      split: list.splits reward_entry.splits sum.splits if_splits)

lemma dequeue_none_left:
  "dequeue_rewards_cal env s = Ok (qs, v, st, True) t \<Longrightarrow> wk_rewards t = []"
  by (auto simp: dequeue_rewards_cal_def drop_reward_def next_in_def lift_sum_def bnd_def
      split: list.splits reward_entry.splits sum.splits if_splits)

lemma end_inv_dequeue: "maintains end_inv (dequeue_rewards_cal env)"
  unfolding maintains_def
proof (intro allI impI)
  fix s assume "end_inv s"
  moreover obtain k polls where "final (dequeue_rewards_cal env s) = s\<lparr>wk_rewards := drop k (wk_rewards s), in_polls := polls\<rparr>"
    using dequeue_final by blast
  ultimately show "end_inv (final (dequeue_rewards_cal env s))"
    by (auto simp: end_inv_def list_all_iff dest: in_set_dropD)
qed

lemma end_inv_report_loop: "maintains end_inv (report_loop env b n)"
  unfolding maintains_def
proof (intro allI impI)
  fix s assume I: "end_inv s"
  show "end_inv (final (report_loop env b n s))"
  proof (cases "unended s")
    case True
    then show ?thesis using keepsD [OF unended_report_loop, of env b n s] by (simp add: unended_inv)
  next
    case False
    have "end_inv (final (report_loop env b n t))" if "end_inv t" "\<not> unended t" for t
      using that
    proof (induction n arbitrary: t)
      case (Suc n)
      have t: "list_all for_validation (wk_rewards t)" using Suc.prems by (simp add: end_inv_def unended_def)
      show ?case
      proof (cases "dequeue_rewards_cal env t")
        case (Ok d u)
        obtain qs v st nl where d: "d = (qs, v, st, nl)" by (cases d)
        have u: "end_inv u" "\<not> unended u"
          using maintainsD [OF end_inv_dequeue Suc.prems(1), of env] keepsD [OF unended_dequeue, of env t] Suc.prems(2) Ok by simp_all
        have "v" if "qs = Some ps" for ps using dequeue_kind [OF Ok [unfolded d that] t] .
        then show ?thesis using Ok d u Suc.IH [OF u] by (auto split: option.split)
      next
        case (Raise e u)
        then show ?thesis using maintainsD [OF end_inv_dequeue Suc.prems(1), of env] by simp
      qed
    qed simp
    then show ?thesis using I False by simp
  qed
qed

lemma end_inv_report: "maintains end_inv (report_rollouts env b)"
  unfolding report_rollouts_def by (intro invar end_inv_report_loop)

lemma end_inv_enqueue: "maintains end_inv (enqueue_rewards_cal env ps True n False)"
proof -
  have "maintains end_inv (put_reward (Reward_Future c True n))" for c
    by (auto simp: put_reward_def maintains_modify end_inv_def for_validation_def)
  moreover have "bnd (lift_sum (Inr e)) put_reward = put_reward e" for e by (rule ext) simp
  ultimately show ?thesis unfolding enqueue_rewards_cal_def reward_entry_of_def by (simp only: if_False) (intro invar)
qed

text \<open>Sending the signal: everything for training has been reported by then.\<close>

lemma report_ended:
  "report_loop env True n s = Ok (ps, v, st, True) t \<Longrightarrow> wk_rewards t = []"
proof (induction n arbitrary: s)
  case (Suc n)
  then obtain qs v' st' nl u where d: "dequeue_rewards_cal env s = Ok (qs, v', st', nl) u"
    by (auto simp: bnd_eq_Ok_iff)
  show ?case
  proof (cases qs)
    case None
    show ?thesis
    proof (cases nl)
      case True
      then show ?thesis using Suc.prems d None dequeue_none_left [of env s] by simp
    next
      case False
      then show ?thesis using Suc d None by simp
    qed
  next
    case (Some q)
    show ?thesis
    proof (cases v')
      case True
      then have "nl" "t = u" using Suc.prems d Some by simp_all
      then show ?thesis using d dequeue_none_left [of env s] by simp
    next
      case False
      then obtain w where "report_loop env True n w = Ok (ps, v, st, True) t"
        using Suc.prems d Some by (auto simp: bnd_eq_Ok_iff)
      then show ?thesis by (rule Suc.IH)
    qed
  qed
qed simp

lemma end_inv_send:
  assumes "unended s" "prompt_fetch_end (wk_state s)" "prompt_consume_end (wk_state s)" "wk_prompts s = []"
  shows "end_inv (final (send_end_signal env s))"
proof (cases "report_rollouts env True s")
  case (Ok d t)
  obtain ps v st nl where d: "d = (ps, v, st, nl)" by (cases d)
  have t: "unended t" using keeps_Ok [OF unended_report Ok] assms(1) by simp
  have "seen t = seen s" using keeps_Ok [OF seen_report Ok] .
  then have st: "wk_state t = wk_state s" "wk_prompts t = wk_prompts s" by (simp_all add: seen_def)
  show ?thesis
  proof (cases "\<not> v \<and> ps = None \<and> nl")
    case True
    then have "wk_rewards t = []" using Ok d report_ended [of env "report_fuel s" s ps v st t] by (simp add: report_rollouts_def)
    moreover have "quiet_end (wk_out t @ [End_Posted])"
      using t by (intro quiet_end_snoc) (simp_all add: unended_def quiet_end_def)
    ultimately show ?thesis using True Ok d st assms
      by (simp add: send_end_signal_def emit_def end_inv_def)
  next
    case False
    then show ?thesis using Ok d t by (auto simp: send_end_signal_def unended_inv)
  qed
next
  case (Raise e t)
  then show ?thesis using keeps_Raise [OF unended_report Raise] assms(1) by (simp add: send_end_signal_def unended_inv)
qed

lemma end_inv_end:
  assumes "unended s" "prompt_fetch_end (wk_state s)" "wk_prompts s = []"
  shows "end_inv (final (end_of_prompts env s))"
proof (cases "set_prompt_consume_end (wk_state s)")
  case (Inl e)
  then show ?thesis using assms by (simp add: end_of_prompts_def unended_inv)
next
  case (Inr st)
  let ?t = "s\<lparr>wk_state := st\<rparr>"
  have "unended ?t" "prompt_fetch_end (wk_state ?t)" "prompt_consume_end (wk_state ?t)" "wk_prompts ?t = []"
    using assms consume_end_flags [OF Inr] by (simp_all add: unended_def)
  from end_inv_send [OF this] this(1) show ?thesis using Inr by (simp add: end_of_prompts_def unended_inv)
qed

lemma end_inv_fetch: "maintains end_inv (fetch_phase env)"
proof -
  have "end_inv (final (fetch_step env s))" if "end_inv s" "\<not> prompt_fetch_end (wk_state s)" for s
  proof -
    have "unended s" using that by (auto simp: end_inv_def unended_def)
    let ?request = "request_new_prompts env (we_batch_size env) (wk_prompts s = []) None"
    let ?tail = "\<lambda>no_more. guarded no_more (bnd (modify (\<lambda>s. s\<lparr>wk_state := set_prompt_fetch_end (wk_state s)\<rparr>)) (\<lambda>_.
        with_state (\<lambda>s. guarded (wk_prompts s = []) (end_of_prompts env))))"
    have tail: "end_inv (final (?tail b u))" if "unended u" for b u
    proof -
      let ?u = "u\<lparr>wk_state := set_prompt_fetch_end (wk_state u)\<rparr>"
      have "unended ?u" using that by (simp add: unended_def)
      then show ?thesis using that end_inv_end [of ?u env] by (simp add: unended_inv)
    qed
    show ?thesis
    proof (cases "?request s")
      case (Ok d t)
      then have t: "unended t" using keeps_Ok [OF unended_request(1)] \<open>unended s\<close> by simp
      obtain prompts b where d: "d = (prompts, b)" by (cases d)
      show ?thesis
      proof (cases "put_prompts prompts t")
        case (Ok a u)
        then have "unended u" using keeps_Ok [OF unended_request(2)] t by simp
        from tail [OF this, of b] show ?thesis using \<open>?request s = Ok d t\<close> d Ok by (simp add: fetch_step_def)
      next
        case (Raise e u)
        then have "unended u" using keeps_Raise [OF unended_request(2)] t by simp
        then show ?thesis using \<open>?request s = Ok d t\<close> d Raise by (simp add: fetch_step_def unended_inv)
      qed
    next
      case (Raise e t)
      then have "unended t" using keeps_Raise [OF unended_request(1)] \<open>unended s\<close> by simp
      then show ?thesis using Raise by (simp add: fetch_step_def unended_inv)
    qed
  qed
  then show ?thesis unfolding fetch_phase_def by (intro maintains_with_state) simp
qed

lemma end_inv_generate: "end_inv s \<Longrightarrow> end_inv (final (generate_step env s))"
proof (cases "prompt_consume_end (wk_state s) \<or> wk_prompts s = [] \<or> hd (wk_prompts s) = []")
  case True
  then show "end_inv s \<Longrightarrow> ?thesis" by (auto simp: generate_step_def split: list.split)
next
  case False
  then obtain p ps rest where q: "\<not> prompt_consume_end (wk_state s)" "wk_prompts s = (p # ps) # rest"
    by (metis list.collapse)
  assume "end_inv s"
  then have u: "unended s" using q by (auto simp: end_inv_def unended_def)
  show ?thesis
  proof (cases "one_step_generation env s")
    case (Ok a t)
    then have "unended t" using keeps_Ok [OF unended_step] u by simp
    then show ?thesis using q Ok \<open>end_inv s\<close> end_inv_end [of t env] by (simp add: generate_step_def unended_inv)
  next
    case (Raise e t)
    then have "unended t" using keeps_Raise [OF unended_step] u by simp
    then show ?thesis using q Raise \<open>end_inv s\<close> by (simp add: generate_step_def unended_inv)
  qed
qed

lemma end_inv_core: "same_core s t \<Longrightarrow> end_inv s \<Longrightarrow> end_inv t"
  by (simp add: same_core_def end_inv_def)

lemma end_inv_cong: "wk_out t = wk_out s \<Longrightarrow> wk_prompts t = wk_prompts s \<Longrightarrow> wk_rewards t = wk_rewards s \<Longrightarrow>
   (prompt_fetch_end (wk_state s) \<longrightarrow> prompt_fetch_end (wk_state t)) \<Longrightarrow>
   (prompt_consume_end (wk_state s) \<longrightarrow> prompt_consume_end (wk_state t)) \<Longrightarrow> end_inv s \<Longrightarrow> end_inv t"
  by (simp add: end_inv_def)

lemma counts_keep:
  "keeps (\<lambda>s. (wk_out s, wk_prompts s, wk_rewards s, wk_state s)) (check_p2r_count cnt)"
  "keeps (\<lambda>s. (wk_out s, wk_prompts s, wk_rewards s, wk_state s)) (check_r2r_count cnt)"
  unfolding check_p2r_count_def check_r2r_count_def by (intro frame; simp add: keeps_modify)+

lemma end_inv_counts: "maintains end_inv (check_p2r_count cnt)" "maintains end_inv (check_r2r_count cnt)"
  unfolding maintains_def using keepsD [OF counts_keep(1), of cnt] keepsD [OF counts_keep(2), of cnt]
  by (auto simp: end_inv_def)

lemma end_inv_finish: "maintains end_inv (finish_p2r tr cnt)" "maintains end_inv (finish_broadcast tr cnt)"
  unfolding finish_p2r_def finish_broadcast_def
  by (intro invar end_inv_counts; simp add: maintains_modify end_inv_def)+

interpretation endw: worker_invariant env end_inv for env
proof
  fix e s t v tr cnt blocking ps n qs
  show "maintains end_inv (validated qs)" unfolding validated_def current_step_def
    by (intro invar end_inv_emit) (simp add: tracked_def)
  show "untold e \<Longrightarrow> maintains end_inv (emit e)" by (intro end_inv_emit) (simp add: untold_def)
  show "end_inv s \<Longrightarrow> end_inv (s\<lparr>wk_current_step := Some (wk_version s), wk_validation_flag := True\<rparr>)"
    by (simp add: end_inv_def)
  show "maintains (\<lambda>s. end_inv s \<and> weight_synced (wk_state s)) (generate_step env)"
    using end_inv_generate fwd_generate_step [of env] by (simp add: maintains_def evolves_def fwd_defs)
  show "end_inv s \<Longrightarrow> end_inv (s\<lparr>wk_version := v\<rparr>)" by (simp add: end_inv_def)
qed (rule end_inv_core end_inv_finish end_inv_dequeue end_inv_report end_inv_enqueue end_inv_fetch; assumption?)+

lemma end_inv_new: "end_inv (new_worker ticks replies results polls)"
  by (simp add: end_inv_def quiet_end_def new_worker_def)

section \<open>Properties of a run\<close>

definition run_worker :: "worker_env \<Rightarrow> int \<Rightarrow> nat \<Rightarrow> worker \<Rightarrow> worker" where
  "run_worker env timeout n s = final (main_loop env timeout n s)"

lemma run_gen_inv: "gen_inv env (run_worker env timeout n (new_worker ticks replies results polls))"
  unfolding run_worker_def by (rule maintainsD [OF genw.main gen_inv_new])

lemma run_end_inv: "end_inv (run_worker env timeout n (new_worker ticks replies results polls))"
  unfolding run_worker_def by (rule maintainsD [OF endw.main end_inv_new])


text \<open>C11: batches of prompts are generated in the order in which they were queued, each exactly once, and the
  versions of the weights they are generated with never decrease; what is left is in the queue.\<close>

theorem batches_in_order:
  "let s = run_worker env timeout n (new_worker ticks replies results polls) in
   batches (wk_out s) = map snd (gens (wk_out s)) @ wk_prompts s \<and> sorted (map fst (gens (wk_out s)))"
  using run_gen_inv [of env timeout n ticks replies results polls]
  by (auto simp: gen_inv_def seen_def Let_def)


text \<open>The state of a worker only moves forward: the weight version never decreases, flags once set stay
  set, instructions and trainable parameters are fetched once, and the history only grows.\<close>

theorem worker_moves_forward:
  "forward s (run_worker env timeout n s)"
  using fwd_main_loop [of env timeout n] by (simp add: evolves_def run_worker_def)

section \<open>A run\<close>

lemma sample_round:
  "map (\<lambda>e. case e of Generated v ps \<Rightarrow> 1 | Rollouts_Posted ps m \<Rightarrow> 2 | End_Posted \<Rightarrow> (3::nat) | _ \<Rightarrow> 0)
     (filter (\<lambda>e. case e of Generated v ps \<Rightarrow> True | Rollouts_Posted ps m \<Rightarrow> True | End_Posted \<Rightarrow> True | _ \<Rightarrow> False)
       (wk_out (run_worker sample_env 60 1 sample_worker))) = [1, 2, 3]"
  by code_simp

text \<open>A broadcast to a single replica transfers nothing, but it marks step 0 for validation, and the worker validates
  although it has not received any parameter.\<close>

definition unsynced_worker :: worker where
  "unsynced_worker = new_worker
     [\<lparr>tk_now = 0, tk_arrived = [RolloutToRolloutBroadcast ''1'' ''r1'' [''r0''] (Some 0) None False], tk_broadcast = None, tk_after = 0\<rparr>,
      \<lparr>tk_now = 1, tk_arrived = [], tk_broadcast = None, tk_after = 1\<rparr>]
     [([sample_payload], True)] [[]] []"

theorem validation_unsynced:
  "let s = run_worker (sample_env\<lparr>we_val_enable := True, we_val_before_train := True\<rparr>) 60 1 unsynced_worker in
   validations (wk_out s) = [(0, 0, [sample_payload])] \<and> \<not> weight_synced (wk_state s) \<and> \<not> wk_non_trainable_received s"
  by code_simp

text \<open>A batch whose second prompt asks for weights five versions ahead of the worker's is generated because of its first.\<close>

definition straddling_worker :: worker where
  "straddling_worker = sample_worker
     \<lparr>in_replies := [([sample_payload, sample_payload\<lparr>pl_weight_version := 8\<rparr>], True)]\<rparr>"

theorem later_prompts_unchecked:
  "map (\<lambda>(w, b). (w, map pl_weight_version b)) (gens (wk_out (run_worker sample_env 60 1 straddling_worker))) = [(3, [3, 8])]"
  by code_simp


end
