(* ===== verification/Prefix_Groups.thy ===== *)
theory Prefix_Groups
  imports Py_Base "HOL-Library.Sublist"
begin

text \<open>Shared prefixes of token sequences, \<open>build_trie\<close> and \<open>find_maximal_prefix_groups\<close> of src/cosmos\_rl/utils/util.py:
  a trie whose nodes hold the indices of the sequences through them, walked with an explicit stack. The
  groups found are the longest prefixes that at least two sequences share.\<close>

section \<open>The trie\<close>

datatype trie = Trie_Node (children: "(int, trie) dict") (idxs: "nat list")

text \<open>The indices are appended on the way down, in the last node as well.\<close>

fun trie_insert :: "nat \<Rightarrow> int list \<Rightarrow> trie \<Rightarrow> trie" where
  "trie_insert i [] (Trie_Node ch js) = Trie_Node ch (js @ [i])"
| "trie_insert i (x # s) (Trie_Node ch js) =
     Trie_Node (dict_set x (trie_insert i s (case dict_get ch x of None \<Rightarrow> Trie_Node [] [] | Some t \<Rightarrow> t)) ch) (js @ [i])"

definition build_trie :: "int list list \<Rightarrow> trie" where
  "build_trie seqs = fold (\<lambda>(i, s). trie_insert i s) (enumerate 0 seqs) (Trie_Node [] [])"

section \<open>The walk\<close>

text \<open>A node, the tokens that lead to it, and whether its children have been done.\<close>

type_synonym frame = "trie \<times> int list \<times> bool"

definition is_group :: "int \<Rightarrow> int list \<Rightarrow> trie \<Rightarrow> bool" where
  "is_group N p t \<longleftrightarrow> N \<le> int (length p) \<and> 1 < length (idxs t)
     \<and> \<not> list_ex (\<lambda>(x, c). 1 < length (idxs c)) (children t)"

definition child_frames :: "int list \<Rightarrow> trie \<Rightarrow> frame list" where
  "child_frames p t = map (\<lambda>(x, c). (c, p @ [x], False)) (children t)"

fun nodes :: "trie \<Rightarrow> nat" where
  "nodes (Trie_Node ch js) = Suc (sum_list (map (\<lambda>xc. nodes (snd xc)) ch))"

definition frame_size :: "frame \<Rightarrow> nat" where
  "frame_size f = (case f of (t, p, visited) \<Rightarrow> if visited then 1 else 2 * nodes t)"

lemma child_frames_size: "sum_list (map frame_size (child_frames p t)) + 2 = 2 * nodes t"
proof (cases t)
  case (Trie_Node ch js)
  have "sum_list (map frame_size (map (\<lambda>(x, c). (c, p @ [x], False)) ch)) = 2 * sum_list (map (\<lambda>xc. nodes (snd xc)) ch)"
    by (induction ch) (auto simp: frame_size_def)
  with Trie_Node show ?thesis by (simp add: child_frames_def)
qed

text \<open>The top of the stack is the head of the list.\<close>

function prefix_loop :: "int \<Rightarrow> frame list \<Rightarrow> (int list, nat list) dict \<Rightarrow> (int list, nat list) dict" where
  "prefix_loop N [] result = result"
| "prefix_loop N ((t, p, visited) # stack) result =
     (if \<not> visited then prefix_loop N (rev (child_frames p t) @ (t, p, True) # stack) result
      else prefix_loop N stack (if is_group N p t then dict_set p (idxs t) result else result))"
  by pat_completeness auto
termination
proof (relation "measure (\<lambda>(N, stack, result). sum_list (map frame_size stack))", goal_cases)
  case (2 N t p visited stack result)
  have "sum_list (map frame_size (rev (child_frames p t))) = sum_list (map frame_size (child_frames p t))"
    by (simp add: rev_map [symmetric])
  with 2 child_frames_size [of p t] show ?case by (simp add: frame_size_def)
qed (auto simp: frame_size_def)

definition find_maximal_prefix_groups :: "int list list \<Rightarrow> int option \<Rightarrow> (int list, nat list) dict" where
  "find_maximal_prefix_groups seqs N = (case N of None \<Rightarrow> []
     | Some n \<Rightarrow> if n < 1 then [] else prefix_loop n [(build_trie seqs, [], False)] [])"

section \<open>What the trie holds\<close>

fun follow :: "trie \<Rightarrow> int list \<Rightarrow> trie option" where
  "follow t [] = Some t"
| "follow t (x # s) = (case dict_get (children t) x of None \<Rightarrow> None | Some c \<Rightarrow> follow c s)"

definition idxs_at :: "trie \<Rightarrow> int list \<Rightarrow> nat list" where
  "idxs_at t p = (case follow t p of None \<Rightarrow> [] | Some c \<Rightarrow> idxs c)"

text \<open>The indices of the sequences that start with \<open>p\<close>.\<close>

definition having :: "int list \<Rightarrow> int list list \<Rightarrow> nat list" where
  "having p seqs = filter (\<lambda>i. prefix p (seqs ! i)) [0..<length seqs]"

lemma follow_append: "follow t (p @ q) = (case follow t p of None \<Rightarrow> None | Some c \<Rightarrow> follow c q)"
  by (induction t p rule: follow.induct) (auto split: option.split)

lemma idxs_at_empty: "idxs_at (Trie_Node [] []) p = []"
  by (cases p) (simp_all add: idxs_at_def dict_get_def)

lemma idxs_at_step: "idxs_at t (x # p) = (case dict_get (children t) x of None \<Rightarrow> [] | Some c \<Rightarrow> idxs_at c p)"
  by (auto simp: idxs_at_def split: option.split)

lemma idxs_insert: "idxs_at (trie_insert i s t) p = idxs_at t p @ (if prefix p s then [i] else [])"
proof (induction i s t arbitrary: p rule: trie_insert.induct)
  case (1 i ch js)
  show ?case by (cases p) (simp_all add: idxs_at_def)
next
  case (2 i x s ch js)
  show ?case
  proof (cases p)
    case (Cons y q)
    then show ?thesis using 2 [of q]
      by (auto simp: idxs_at_step dict_simps idxs_at_empty split: option.split)
  qed (simp add: idxs_at_def)
qed

lemma idxs_build: "idxs_at (build_trie seqs) p = having p seqs"
proof -
  have "idxs_at (fold (\<lambda>(i, s). trie_insert i s) iss t) p = idxs_at t p @ map fst (filter (\<lambda>(i, s). prefix p s) iss)" for iss t
    by (induction iss arbitrary: t) (auto simp: idxs_insert)
  moreover have "enumerate 0 seqs = map (\<lambda>i. (i, seqs ! i)) [0..<length seqs]"
    by (rule nth_equalityI) (simp_all add: nth_enumerate_eq)
  ultimately show ?thesis by (simp add: build_trie_def having_def idxs_at_empty filter_map comp_def)
qed

text \<open>No node has two children for one token.\<close>

fun trie_wf :: "trie \<Rightarrow> bool" where
  "trie_wf (Trie_Node ch js) \<longleftrightarrow> dict_wf ch \<and> list_all (\<lambda>xc. trie_wf (snd xc)) ch"

lemma trie_wf_get: "trie_wf t \<Longrightarrow> dict_get (children t) x = Some c \<Longrightarrow> trie_wf c"
  by (cases t) (force simp: list_all_iff dict_get_def dest: map_of_SomeD)

lemma dict_set_members: "set (dict_set k v d) \<subseteq> insert (k, v) (set d)"
  unfolding dict_set_def by (induction d) auto

lemma trie_wf_insert: "trie_wf t \<Longrightarrow> trie_wf (trie_insert i s t)"
proof (induction i s t rule: trie_insert.induct)
  case (2 i x s ch js)
  have "trie_wf (trie_insert i s (case dict_get ch x of None \<Rightarrow> Trie_Node [] [] | Some t \<Rightarrow> t))"
    using 2 trie_wf_get [of "Trie_Node ch js" x] by (auto simp: dict_wf_def dict_keys_def split: option.split)
  then show ?case using 2(2) dict_set_members [of x _ ch]
    by (fastforce simp: list_all_iff dict_wf_def dict_keys_def dict_set_def distinct_update)
qed simp

lemma trie_wf_build: "trie_wf (build_trie seqs)"
proof -
  have "trie_wf t \<Longrightarrow> trie_wf (fold (\<lambda>(i, s). trie_insert i s) iss t)" for iss t
    by (induction iss arbitrary: t) (auto simp: trie_wf_insert)
  then show ?thesis by (simp add: build_trie_def dict_wf_def dict_keys_def)
qed

lemma trie_wf_follow: "trie_wf t \<Longrightarrow> follow t p = Some c \<Longrightarrow> trie_wf c"
  by (induction t p rule: follow.induct) (auto split: option.splits dest: trie_wf_get)

section \<open>What the walk finds\<close>

text \<open>The groups below a node, children last to first, the node itself last.\<close>

fun groups_below :: "int \<Rightarrow> int list \<Rightarrow> trie \<Rightarrow> (int list \<times> nat list) list" where
  "groups_below N p (Trie_Node ch js) =
     concat (map (\<lambda>xc. groups_below N (p @ [fst xc]) (snd xc)) (rev ch))
     @ (if is_group N p (Trie_Node ch js) then [(p, js)] else [])"

definition record_all :: "(int list \<times> nat list) list \<Rightarrow> (int list, nat list) dict \<Rightarrow> (int list, nat list) dict" where
  "record_all kvs d = fold (\<lambda>(k, v). dict_set k v) kvs d"

lemma record_all_append: "record_all (xs @ ys) d = record_all ys (record_all xs d)"
  by (simp add: record_all_def)

lemma walk_node: "prefix_loop N ((t, p, False) # stack) result = prefix_loop N stack (record_all (groups_below N p t) result)"
proof (induction t arbitrary: p stack result)
  case (Trie_Node ch js)
  have "set cs \<subseteq> set ch \<Longrightarrow> prefix_loop N (map (\<lambda>(x, c). (c, p @ [x], False)) cs @ rest) d
      = prefix_loop N rest (record_all (concat (map (\<lambda>xc. groups_below N (p @ [fst xc]) (snd xc)) cs)) d)" for cs rest d
  proof (induction cs arbitrary: d)
    case (Cons xc cs)
    then show ?case using Trie_Node.IH [of xc "snd xc" "p @ [fst xc]"]
      by (cases xc) (auto simp: record_all_append)
  qed (simp add: record_all_def)
  from this [of "rev ch" "(Trie_Node ch js, p, True) # stack" result]
  show ?case by (simp add: child_frames_def rev_map [symmetric] record_all_append) (simp add: record_all_def)
qed

lemma groups_below_iff:
  "trie_wf t \<Longrightarrow> (k, v) \<in> set (groups_below N p t)
     \<longleftrightarrow> (\<exists>q c. k = p @ q \<and> follow t q = Some c \<and> v = idxs c \<and> is_group N k c)"
proof (induction t arbitrary: p)
  case (Trie_Node ch js)
  have child: "(x, c) \<in> set ch \<longleftrightarrow> dict_get ch x = Some c" for x c
    using Trie_Node.prems by (auto simp: dict_wf_def dict_keys_def dict_get_def intro: map_of_is_SomeI dest: map_of_SomeD)
  have below: "(k, v) \<in> set (groups_below N (p @ [x]) c)
      \<longleftrightarrow> (\<exists>q d. k = p @ x # q \<and> follow c q = Some d \<and> v = idxs d \<and> is_group N k d)" if "dict_get ch x = Some c" for x c
    using Trie_Node.IH [of "(x, c)" c "p @ [x]"] trie_wf_get [OF Trie_Node.prems, of x c] that child [of x c] by simp
  have "(k, v) \<in> set (groups_below N p (Trie_Node ch js))
      \<longleftrightarrow> (\<exists>x c. dict_get ch x = Some c \<and> (k, v) \<in> set (groups_below N (p @ [x]) c))
        \<or> k = p \<and> v = js \<and> is_group N p (Trie_Node ch js)"
    using child by auto force+
  also have "\<dots> \<longleftrightarrow> (\<exists>x c q d. dict_get ch x = Some c \<and> k = p @ x # q \<and> follow c q = Some d \<and> v = idxs d \<and> is_group N k d)
        \<or> k = p \<and> v = js \<and> is_group N p (Trie_Node ch js)" using below by blast
  also have "\<dots> \<longleftrightarrow> (\<exists>q c. k = p @ q \<and> follow (Trie_Node ch js) q = Some c \<and> v = idxs c \<and> is_group N k c)" (is "_ \<longleftrightarrow> ?r")
  proof
    assume ?r
    then obtain q c where "k = p @ q" "follow (Trie_Node ch js) q = Some c" "v = idxs c" "is_group N k c" by blast
    then show "(\<exists>x c q d. dict_get ch x = Some c \<and> k = p @ x # q \<and> follow c q = Some d \<and> v = idxs d \<and> is_group N k d)
        \<or> k = p \<and> v = js \<and> is_group N p (Trie_Node ch js)"
      by (cases q) (auto split: option.splits)
  next
    assume "(\<exists>x c q d. dict_get ch x = Some c \<and> k = p @ x # q \<and> follow c q = Some d \<and> v = idxs d \<and> is_group N k d)
        \<or> k = p \<and> v = js \<and> is_group N p (Trie_Node ch js)"
    then show ?r
    proof
      assume "\<exists>x c q d. dict_get ch x = Some c \<and> k = p @ x # q \<and> follow c q = Some d \<and> v = idxs d \<and> is_group N k d"
      then obtain x c q d where "dict_get ch x = Some c" "k = p @ x # q" "follow c q = Some d" "v = idxs d" "is_group N k d" by blast
      then show ?r by (intro exI [of _ "x # q"] exI [of _ d]) simp
    next
      assume "k = p \<and> v = js \<and> is_group N p (Trie_Node ch js)"
      then show ?r by (intro exI [of _ "[]"] exI [of _ "Trie_Node ch js"]) simp
    qed
  qed
  finally show ?case .
qed

lemma record_all_get:
  assumes "\<And>v v'. (k, v) \<in> set kvs \<Longrightarrow> (k, v') \<in> set kvs \<Longrightarrow> v = v'"
  shows "dict_get (record_all kvs d) k = Some v \<longleftrightarrow> (k, v) \<in> set kvs \<or> dict_get d k = Some v \<and> k \<notin> fst ` set kvs"
  using assms
proof (induction kvs arbitrary: d)
  case (Cons kv kvs)
  obtain k' v' where kv: "kv = (k', v')" by (cases kv)
  have "dict_get (record_all kvs (dict_set k' v' d)) k = Some v
      \<longleftrightarrow> (k, v) \<in> set kvs \<or> dict_get (dict_set k' v' d) k = Some v \<and> k \<notin> fst ` set kvs"
    by (rule Cons.IH) (use Cons.prems in auto)
  then have r: "dict_get (record_all (kv # kvs) d) k = Some v
      \<longleftrightarrow> (k, v) \<in> set kvs \<or> (if k = k' then v' = v else dict_get d k = Some v) \<and> k \<notin> fst ` set kvs"
    by (simp add: kv record_all_def dict_simps)
  show ?case
  proof (cases "k = k'")
    case True
    have "v = v'" if "(k, v) \<in> set kvs" for v using Cons.prems [of v v'] that kv True by simp
    then have "(k, v) \<in> set kvs \<or> v' = v \<and> k \<notin> fst ` set kvs \<longleftrightarrow> v = v'" by force
    with r show ?thesis using True kv by auto
  next
    case False
    with r show ?thesis using kv by auto
  qed
qed (simp add: record_all_def)

lemma deeper_group:
  assumes "trie_wf t" "follow t p = Some c"
  shows "list_ex (\<lambda>(x, c). 1 < length (idxs c)) (children c) \<longleftrightarrow> (\<exists>x. 1 < length (idxs_at t (p @ [x])))"
proof -
  have wf: "trie_wf c" by (rule trie_wf_follow [OF assms])
  obtain ch js where c: "c = Trie_Node ch js" by (cases c)
  have "(x, d) \<in> set ch \<longleftrightarrow> dict_get ch x = Some d" for x d
    using wf c by (auto simp: dict_wf_def dict_keys_def dict_get_def intro: map_of_is_SomeI dest: map_of_SomeD)
  then have "list_ex (\<lambda>(x, c). 1 < length (idxs c)) (children c) \<longleftrightarrow> (\<exists>x d. dict_get ch x = Some d \<and> 1 < length (idxs d))"
    using c by (auto simp: list_ex_iff)
  moreover have "idxs_at t (p @ [x]) = (case dict_get ch x of None \<Rightarrow> [] | Some d \<Rightarrow> idxs d)" for x
    using assms(2) c by (simp add: idxs_at_def follow_append split: option.split)
  ultimately show ?thesis by (force split: option.splits)
qed

lemma group_iff:
  assumes "1 \<le> N"
  shows "dict_get (find_maximal_prefix_groups seqs (Some N)) p = Some js
    \<longleftrightarrow> N \<le> int (length p) \<and> js = having p seqs \<and> 1 < length js \<and> \<not> (\<exists>x. 1 < length (having (p @ [x]) seqs))"
proof -
  let ?t = "build_trie seqs"
  note wf = trie_wf_build [of seqs]
  have at: "idxs c = having q seqs" if "follow ?t q = Some c" for q c
    using idxs_build [of seqs q] that by (simp add: idxs_at_def)
  have none: "having q seqs = []" if "follow ?t q = None" for q
    using idxs_build [of seqs q] that by (simp add: idxs_at_def)
  have "dict_get (find_maximal_prefix_groups seqs (Some N)) p = dict_get (record_all (groups_below N [] ?t) []) p"
    using assms walk_node [of N ?t "[]" "[]" "[]"] by (simp add: find_maximal_prefix_groups_def del: prefix_loop.simps(2))
  also have "\<dots> = Some js \<longleftrightarrow> (p, js) \<in> set (groups_below N [] ?t)"
    by (subst record_all_get) (auto simp: groups_below_iff [OF wf] dict_get_def)
  also have "\<dots> \<longleftrightarrow> (\<exists>c. follow ?t p = Some c \<and> js = idxs c \<and> is_group N p c)" by (simp add: groups_below_iff [OF wf])
  also have "\<dots> \<longleftrightarrow> N \<le> int (length p) \<and> js = having p seqs \<and> 1 < length js \<and> \<not> (\<exists>x. 1 < length (having (p @ [x]) seqs))"
  proof (cases "follow ?t p")
    case (Some c)
    then show ?thesis using deeper_group [OF wf Some] at [OF Some] by (auto simp: is_group_def idxs_build)
  qed (auto simp: none)
  finally show ?thesis .
qed

text \<open>C25: The groups found are exactly the maximal shared prefixes: a prefix of at least \<open>N\<close> tokens is a key
  if and only if two or more sequences start with it and no longer prefix is shared by two of them
  beyond it; its entry lists the indices of all sequences that start with it, in order.\<close>

theorem prefix_groups_exact:
  assumes "1 \<le> N"
  shows "dict_get (find_maximal_prefix_groups seqs (Some N)) p = Some js
    \<longleftrightarrow> N \<le> int (length p) \<and> js = having p seqs \<and> 1 < length js \<and> \<not> (\<exists>x. 1 < length (having (p @ [x]) seqs))"
  using assms by (rule group_iff)

theorem prefix_groups_exact_witness:
  "dict_get (find_maximal_prefix_groups [[1, 2, 3], [1, 2, 4], [1, 5], [1, 2, 3, 9]] (Some 2)) [1, 2, 3] = Some [0, 3]
   \<and> having [1, 2, 3] [[1, 2, 3], [1, 2, 4], [1, 5], [1, 2, 3, 9]] = [0, 3]"
proof -
  let ?seqs = "[[1, 2, 3], [1, 2, 4], [1, 5], [1, 2, 3, 9]] :: int list list"
  have "dict_get (find_maximal_prefix_groups ?seqs (Some 2)) [1, 2, 3] = Some [0, 3]" by code_simp
  with prefix_groups_exact [of 2 ?seqs "[1, 2, 3]" "[0, 3]"] show ?thesis by simp
qed

text \<open>A sequence is in at most one group, so what is done group by group does not depend on their order.\<close>

lemma groups_disjoint:
  assumes "1 \<le> N" "dict_get (find_maximal_prefix_groups seqs (Some N)) p = Some js"
    and "dict_get (find_maximal_prefix_groups seqs (Some N)) q = Some ks" "i \<in> set js" "i \<in> set ks"
  shows "p = q"
proof -
  have longer: "1 < length (having (p @ [x]) seqs)" if "prefix (p @ [x]) q" "1 < length (having q seqs)" for p q x
  proof -
    have "having q seqs = filter (\<lambda>i. prefix q (seqs ! i)) (having (p @ [x]) seqs)"
      using prefix_order.trans [OF that(1)] by (auto simp: having_def intro: filter_cong)
    then have "length (having q seqs) \<le> length (having (p @ [x]) seqs)" by (metis length_filter_le)
    then show ?thesis using that(2) by linarith
  qed
  have i: "prefix p (seqs ! i)" "prefix q (seqs ! i)" using assms by (auto simp: group_iff having_def)
  then have "p = q \<or> (\<exists>x. prefix (p @ [x]) q) \<or> (\<exists>x. prefix (q @ [x]) p)"
    using prefix_same_cases [OF i] by (metis prefix_def append_Cons append_Nil append_assoc append_self_conv list.exhaust)
  then show ?thesis using assms(2,3) longer unfolding group_iff [OF assms(1)] by blast
qed

end
