(* ===== verification/Rewards.thy ===== *)
theory Rewards
  imports Schema Prefix_Groups
begin

text \<open>Rewards and advantages of generated completions: \<open>Reward\<close> of src/cosmos\_rl/dispatcher/algo/reward.py, \<open>GRPO\<close> of
  algo/grpo.py, \<open>RolloutGroup\<close> of src/cosmos\_rl/reward/base.py and \<open>LocalRewardCalculator\<close> of
  reward/local\_calculator.py. Reward functions, the tokenizer and numpy's mean and standard deviation are
  parameters. A finite float is a rational number; the operations on doubles and on single-precision floats
  round their exact result with \<open>rc_rnd\<close> and \<open>rc_rnd32\<close>.\<close>

section \<open>Reward functions\<close>

text \<open>What a reward function returns for one completion, and for all of a prompt at once: rewards, and
  optionally dictionaries of components.\<close>

record reward_fn =
  rf_single :: "pyval \<Rightarrow> string \<Rightarrow> pyval \<Rightarrow> error + rat \<times> metrics option"
  rf_group :: "pyval list \<Rightarrow> string \<Rightarrow> pyval \<Rightarrow> error + rat list \<times> metrics list option"

text \<open>The filter for dynamic sampling names a function, gives its index, or is one.\<close>

datatype filter_item = Filter_Name string | Filter_Index int | Filter_Fn reward_fn

record reward_calc =
  rc_funcs :: "(reward_fn \<times> rat option) list"
  rc_is_filter :: "rat list"
  rc_filter_fns :: "(reward_fn \<times> rat) list"
  rc_group :: bool
  rc_rnd :: "rat \<Rightarrow> rat"
  rc_rnd32 :: "rat \<Rightarrow> rat"
  rc_mean :: "rat list \<Rightarrow> rat"
  rc_std :: "rat list \<Rightarrow> rat"
  rc_unbiased :: bool
  rc_eps :: rat

subsection \<open>Choosing the functions\<close>

text \<open>The three collections filled by the first loop of \<open>Reward.__init__\<close>.\<close>

record filter_spec =
  fs_fns :: "(reward_fn \<times> rat) list"
  fs_indices :: "(int \<times> rat) list"
  fs_names :: "(string, rat) dict"

definition add_filter :: "(string \<Rightarrow> reward_fn option) \<Rightarrow> (string, rat) dict \<Rightarrow> bool \<Rightarrow>
    filter_item \<times> rat option \<Rightarrow> filter_spec \<Rightarrow> error + filter_spec" where
  "add_filter mapping reward_function explicit item spec =
     (let weight = (case snd item of None \<Rightarrow> 1 | Some w \<Rightarrow> w) in
      case fst item of
        Filter_Name name \<Rightarrow> (case mapping name of None \<Rightarrow> Inl ValueError
          | Some fn \<Rightarrow> Inr (if dict_get reward_function name = None
              then spec\<lparr>fs_fns := fs_fns spec @ [(fn, weight)]\<rparr>
              else spec\<lparr>fs_names := dict_set name weight (fs_names spec)\<rparr>))
      | Filter_Index i \<Rightarrow> ensure AssertionError explicit (Inr (spec\<lparr>fs_indices := fs_indices spec @ [(i, weight)]\<rparr>))
      | Filter_Fn fn \<Rightarrow> Inr (spec\<lparr>fs_fns := fs_fns spec @ [(fn, weight)]\<rparr>))"

text \<open>\<open>is_filter[i] = weight\<close>, after the test for \<open>i < len(reward_funcs)\<close>; a negative index counts from the end.\<close>

definition mark_filter :: "int \<times> rat \<Rightarrow> rat list \<Rightarrow> error + rat list" where
  "mark_filter iw ws = (case iw of (i, w) \<Rightarrow>
     ensure AssertionError (i < int (length ws))
       (if 0 \<le> i then Inr (ws[nat i := w])
        else if 0 \<le> int (length ws) + i then Inr (ws[nat (int (length ws) + i) := w]) else Inl IndexError))"

definition named_funcs :: "(string \<Rightarrow> reward_fn option) \<Rightarrow> (string, rat) dict \<Rightarrow> error + (reward_fn \<times> rat option) list" where
  "named_funcs mapping reward_function = emap (\<lambda>(name, w). case mapping name of None \<Rightarrow> Inl ValueError
     | Some fn \<Rightarrow> Inr (fn, Some w)) reward_function"

definition choose_funcs :: "(string \<Rightarrow> reward_fn option) \<Rightarrow> (string, rat) dict \<Rightarrow> (reward_fn \<times> rat option) list option \<Rightarrow>
    (filter_item \<times> rat option) list \<Rightarrow> error + (reward_fn \<times> rat option) list \<times> rat list \<times> (reward_fn \<times> rat) list" where
  "choose_funcs mapping reward_function explicit filters =
     ebind (efold (add_filter mapping reward_function (explicit \<noteq> None)) filters \<lparr>fs_fns = [], fs_indices = [], fs_names = []\<rparr>)
       (\<lambda>spec. case explicit of
          Some (f # fs) \<Rightarrow> ebind (efold mark_filter (fs_indices spec) (replicate (length (f # fs)) 0))
            (\<lambda>ws. Inr (f # fs, ws, fs_fns spec))
        | _ \<Rightarrow> ebind (named_funcs mapping reward_function) (\<lambda>funcs. Inr (funcs,
            map (\<lambda>(name, w). case dict_get (fs_names spec) name of None \<Rightarrow> 0 | Some v \<Rightarrow> v) reward_function, fs_fns spec)))"

subsection \<open>Computing rewards\<close>

definition dict_update :: "('k, 'v) dict \<Rightarrow> ('k, 'v) dict \<Rightarrow> ('k, 'v) dict" where
  "dict_update d new = fold (\<lambda>(k, v). dict_set k v) new d"

text \<open>Totals, filter rewards and metrics, per completion.\<close>

type_synonym reward_sums = "rat list \<times> rat list \<times> metrics list"

definition add_weighted :: "reward_calc \<Rightarrow> rat \<Rightarrow> rat \<Rightarrow> rat \<Rightarrow> rat" where
  "add_weighted rc weight val tot = rc_rnd rc (tot + rc_rnd rc (weight * val))"

definition add_at :: "reward_calc \<Rightarrow> rat \<Rightarrow> rat \<Rightarrow> nat \<Rightarrow> rat \<times> metrics option \<Rightarrow> reward_sums \<Rightarrow> reward_sums" where
  "add_at rc weight fw i val_dict sm = (case (val_dict, sm) of ((val, d), (tot, filt, dicts)) \<Rightarrow>
     (tot[i := add_weighted rc weight val (tot ! i)], filt[i := add_weighted rc fw val (filt ! i)],
      (case d of None \<Rightarrow> dicts | Some new \<Rightarrow> dicts[i := dict_update (dicts ! i) new])))"

definition per_reward_group :: "reward_calc \<Rightarrow> reward_fn \<Rightarrow> rat \<Rightarrow> rat \<Rightarrow> pyval list \<Rightarrow> string \<Rightarrow> pyval \<Rightarrow>
    reward_sums \<Rightarrow> error + reward_sums" where
  "per_reward_group rc f weight fw xs reference prompt sm =
     ebind (rf_group f xs reference prompt) (\<lambda>(vals, ds).
     ensure AssertionError (case ds of None \<Rightarrow> True | Some ds \<Rightarrow> length ds = length xs)
     (ensure AssertionError (length vals = length xs)
     (Inr (fold (\<lambda>i. add_at rc weight fw i (vals ! i, map_option (\<lambda>ds. ds ! i) ds)) [0..<length xs] sm))))"

definition per_reward_single :: "reward_calc \<Rightarrow> reward_fn \<Rightarrow> rat \<Rightarrow> rat \<Rightarrow> pyval list \<Rightarrow> string \<Rightarrow> pyval \<Rightarrow>
    reward_sums \<Rightarrow> error + reward_sums" where
  "per_reward_single rc f weight fw xs reference prompt sm =
     efold (\<lambda>(i, x) sm. ebind (rf_single f x reference prompt) (\<lambda>v. Inr (add_at rc weight fw i v sm)))
       (enumerate 0 xs) sm"

definition compute_per_reward_func :: "reward_calc \<Rightarrow> reward_fn \<Rightarrow> rat \<Rightarrow> rat \<Rightarrow> pyval list \<Rightarrow> string \<Rightarrow> pyval \<Rightarrow>
    reward_sums \<Rightarrow> error + reward_sums" where
  "compute_per_reward_func rc f weight fw xs reference prompt sm =
     (if rc_group rc then per_reward_group rc f weight fw xs reference prompt sm
      else per_reward_single rc f weight fw xs reference prompt sm)"

text \<open>Without a filter the rewards themselves decide.\<close>

definition compute_reward :: "reward_calc \<Rightarrow> pyval list \<Rightarrow> string \<Rightarrow> pyval \<Rightarrow> error + reward_sums" where
  "compute_reward rc xs reference prompt =
     (let n = length xs; zeros = (replicate n 0, replicate n 0, replicate n []) in
      ebind (efold (\<lambda>((f, w), fw). compute_per_reward_func rc f (case w of None \<Rightarrow> 1 | Some w \<Rightarrow> w) fw xs reference prompt)
         (zip (rc_funcs rc) (rc_is_filter rc)) zeros) (\<lambda>sm.
      ebind (efold (\<lambda>(f, fw). compute_per_reward_func rc f 0 fw xs reference prompt) (rc_filter_fns rc) sm)
        (\<lambda>(tot, filt, dicts).
      Inr (tot, (if list_all (\<lambda>w. w = 0) (rc_is_filter rc) \<and> rc_filter_fns rc = [] then tot else filt), dicts))))"

text \<open>Advantages, in single precision: rewards relative to their mean, divided by their spread.\<close>

definition compute_advantage :: "reward_calc \<Rightarrow> rat list \<Rightarrow> rat list" where
  "compute_advantage rc rewards =
     (let rs = map (rc_rnd32 rc) rewards; m = rc_mean rc rs;
          spread = rc_rnd32 rc (rc_std rc rs + rc_eps rc) in
      map (\<lambda>r. let d = rc_rnd32 rc (r - m) in if rc_unbiased rc then d else rc_rnd32 rc (d / spread)) rs)"

section \<open>The rollouts of a prompt\<close>

text \<open>The reward of the most likely completion: the first with the highest cumulative log-probability.\<close>

definition most_likely_reward :: "rat list \<Rightarrow> rat option list \<Rightarrow> rat option" where
  "most_likely_reward rewards logprobs = map_option snd (fold (\<lambda>(r, c) best. case c of None \<Rightarrow> best
     | Some p \<Rightarrow> (case best of None \<Rightarrow> Some (p, r) | Some (q, _) \<Rightarrow> if q < p then Some (p, r) else best))
     (zip rewards logprobs) None)"

definition mark_most_likely :: "payload \<Rightarrow> rat list \<Rightarrow> metrics list \<Rightarrow> error + metrics list" where
  "mark_most_likely p rewards dicts = (case pl_cumulative_logprob p of None \<Rightarrow> Inr dicts
     | Some cs \<Rightarrow> ensure AssertionError (length cs = length rewards)
         (Inr (case most_likely_reward rewards cs of None \<Rightarrow> dicts
           | Some r \<Rightarrow> dicts[0 := dict_set ''most_likely_mode_reward_count'' 1
               (dict_set ''most_likely_mode_reward_mean'' r (dicts ! 0))])))"

definition group_rollout :: "payload \<Rightarrow> bool \<Rightarrow> reward_sums \<Rightarrow> rat list \<Rightarrow> nat \<Rightarrow> rollout" where
  "group_rollout p ended sm advantages i = (case sm of (tot, filt, dicts) \<Rightarrow> \<lparr>
     ro_prompt = pl_prompt p, ro_prompt_idx = pl_prompt_idx p, ro_conversation = pl_conversation p,
     ro_completion = the (pl_completions p) ! i,
     ro_completed_conversation = (case pl_completed_conversations p of None \<Rightarrow> Some [] | Some cs \<Rightarrow> cs ! i),
     ro_is_end = ended, ro_reward = tot ! i, ro_advantage = advantages ! i, ro_n_ignore_prefix_tokens = 0,
     ro_filter_reward = filt ! i,
     ro_completion_token_ids = Some (case pl_completion_token_ids p of None \<Rightarrow> [] | Some ts \<Rightarrow> ts ! i),
     ro_completion_logprobs = Some (case pl_completion_logprobs p of None \<Rightarrow> [] | Some ls \<Rightarrow> ls ! i),
     ro_prompt_logprobs = None, ro_prompt_token_ids = None, ro_extra_info = None, ro_weight_version = 0,
     ro_report_metrics = Some (dicts ! i), ro_teacher_result_uuid = '''', ro_teacher_logprobs = None\<rparr>)"

definition list_limit :: "nat \<Rightarrow> 'a list option \<Rightarrow> nat" where
  "list_limit n xs = (case xs of None \<Rightarrow> n | Some ys \<Rightarrow> min n (length ys))"

text \<open>\<open>zip\<close> ends with the shortest of its lists.\<close>

definition group_length :: "payload \<Rightarrow> nat \<Rightarrow> nat" where
  "group_length p n = list_limit (list_limit (list_limit n (pl_completed_conversations p)) (pl_completion_logprobs p))
     (pl_completion_token_ids p)"

definition compute_rollouts :: "reward_calc \<Rightarrow> bool \<Rightarrow> payload \<Rightarrow> error + rollout list" where
  "compute_rollouts rc ended p = (case (pl_reference_answer p, pl_completions p) of
       (Some reference, Some (x # xs)) \<Rightarrow>
         ebind (compute_reward rc (x # xs) reference (pl_prompt p)) (\<lambda>(tot, filt, dicts).
         ensure AssertionError (length tot = length filt \<and> length filt = length dicts \<and> length dicts = length (x # xs))
         (let advantages = compute_advantage rc tot in
          ebind (mark_most_likely p tot dicts) (\<lambda>dicts.
          Inr (map (group_rollout p ended (tot, filt, dicts) advantages) [0..<group_length p (length (x # xs))]))))
     | _ \<Rightarrow> Inl AssertionError)"

section \<open>The local calculator\<close>

record calc_env =
  ce_train :: reward_calc
  ce_val :: reward_calc
  ce_non_text :: bool
  ce_rollout_as_token_ids :: bool
  ce_min_prefix :: "int option"
  ce_tokenize :: "pyval \<Rightarrow> int list"
  ce_decode :: "int list \<Rightarrow> string"
  ce_eos :: int

definition first_token :: "int list \<Rightarrow> error + int" where
  "first_token t = (case t of [] \<Rightarrow> Inl IndexError | x # _ \<Rightarrow> Inr x)"

definition rollout_tokens :: "calc_env \<Rightarrow> rollout \<Rightarrow> error + int list" where
  "rollout_tokens env r = (if ce_rollout_as_token_ids env
     then (case ro_completion_token_ids r of None \<Rightarrow> Inl TypeError
       | Some ts \<Rightarrow> emap first_token ts)
     else Inr (ce_tokenize env (ro_completion r)))"

definition all_tokens :: "calc_env \<Rightarrow> rollout list \<Rightarrow> error + int list list" where
  "all_tokens env rs = (if ce_non_text env then Inr []
     else emap (rollout_tokens env) rs)"

definition same_values :: "'a list \<Rightarrow> bool" where
  "same_values xs \<longleftrightarrow> list_all (\<lambda>x. x = hd xs) xs"

text \<open>The text of a shared prefix, without an end-of-sequence token at its end.\<close>

definition prefix_text :: "calc_env \<Rightarrow> int list \<Rightarrow> string" where
  "prefix_text env p = ce_decode env (if last p = ce_eos env then butlast p else p)"

definition ignore_prefix :: "calc_env \<Rightarrow> int list \<Rightarrow> rollout \<Rightarrow> rollout" where
  "ignore_prefix env p r = (if VStr (prefix_text env p) \<noteq> ro_completion r
     then r\<lparr>ro_n_ignore_prefix_tokens := int (length p)\<rparr> else r)"

text \<open>Rollouts that share a prefix and differ in reward ignore it, unless the prefix is all there is.\<close>

definition apply_group :: "calc_env \<Rightarrow> int list \<times> nat list \<Rightarrow> rollout list \<Rightarrow> error + rollout list" where
  "apply_group env grp rs = (case grp of (p, is) \<Rightarrow> ensure AssertionError (1 < length is)
     (Inr (if same_values (map (\<lambda>i. ro_reward (rs ! i)) is) then rs
           else fold (\<lambda>i rs. rs[i := ignore_prefix env p (rs ! i)]) is rs)))"

definition apply_groups :: "calc_env \<Rightarrow> int list list \<Rightarrow> rollout list \<Rightarrow> error + rollout list" where
  "apply_groups env tokens rs = efold (apply_group env) (find_maximal_prefix_groups tokens (ce_min_prefix env)) rs"

definition reported :: "payload \<Rightarrow> rollout list \<Rightarrow> bool \<Rightarrow> error + payload" where
  "reported p rs valid = (case rs of [] \<Rightarrow> Inl IndexError | r # _ \<Rightarrow> Inr \<lparr>
     pl_prompt = ro_prompt r, pl_prompt_idx = ro_prompt_idx r, pl_conversation = ro_conversation r,
     pl_reference_answer = None, pl_weight_version = pl_weight_version p,
     pl_completions = Some (map ro_completion rs),
     pl_completed_conversations = Some (map ro_completed_conversation rs),
     pl_n_ignore_prefix_tokens = Some (map ro_n_ignore_prefix_tokens rs),
     pl_rewards = Some (map ro_reward rs), pl_advantages = Some (map ro_advantage rs),
     pl_filter_rewards = Some (map ro_filter_reward rs),
     pl_completion_token_ids = Some (map (\<lambda>r. case ro_completion_token_ids r of None \<Rightarrow> [] | Some t \<Rightarrow> t) rs),
     pl_completion_logprobs = Some (map (\<lambda>r. case ro_completion_logprobs r of None \<Rightarrow> [] | Some l \<Rightarrow> l) rs),
     pl_prompt_logprobs = pl_prompt_logprobs p, pl_prompt_token_ids = pl_prompt_token_ids p, pl_extra_info = None,
     pl_report_metrics = Some (map (\<lambda>r. case ro_report_metrics r of None \<Rightarrow> [] | Some m \<Rightarrow> m) rs),
     pl_teacher_result_uuids = pl_teacher_result_uuids p, pl_valid = valid,
     pl_cumulative_logprob = pl_cumulative_logprob p\<rparr>)"

definition validation_reported :: "payload \<Rightarrow> rollout list \<Rightarrow> error + payload" where
  "validation_reported p rs = ebind (reported p rs True)
     (\<lambda>q. Inr (q\<lparr>pl_completion_token_ids := None, pl_completion_logprobs := None\<rparr>))"

definition report_group :: "calc_env \<Rightarrow> payload \<Rightarrow> rollout list \<Rightarrow> error + payload" where
  "report_group env p rs = ebind (all_tokens env rs) (\<lambda>tokens.
     if same_values (map ro_filter_reward rs) then reported p rs False
     else ebind (apply_groups env tokens rs) (\<lambda>rs. reported p rs True))"

definition rollouts_of_all :: "reward_calc \<Rightarrow> bool \<Rightarrow> payload list \<Rightarrow> error + rollout list list" where
  "rollouts_of_all rc ended ps = ensure AssertionError (list_all (\<lambda>p. 0 \<le> pl_prompt_idx p) ps)
     (emap (compute_rollouts rc ended) ps)"

definition compute_validation_rewards :: "calc_env \<Rightarrow> payload list \<Rightarrow> error + payload list" where
  "compute_validation_rewards env ps = ebind (rollouts_of_all (ce_val env) True ps) (\<lambda>rss.
     emap (\<lambda>(p, rs). validation_reported p rs) (zip ps rss))"

text \<open>Results: the payloads, whether they are for validation, and the step.\<close>

definition compute_rewards :: "calc_env \<Rightarrow> payload list \<Rightarrow> bool \<Rightarrow> int \<Rightarrow> error + payload list \<times> bool \<times> int" where
  "compute_rewards env ps is_validation n =
     (if is_validation then ebind (compute_validation_rewards env ps) (\<lambda>qs. Inr (qs, True, n))
      else ebind (rollouts_of_all (ce_train env) False ps) (\<lambda>rss.
        ebind (emap (\<lambda>(p, rs). report_group env p rs) (zip ps rss))
          (\<lambda>qs. Inr (qs, False, n))))"

section \<open>Every completion gets its reward\<close>

definition sums_length :: "nat \<Rightarrow> reward_sums \<Rightarrow> bool" where
  "sums_length n sm \<longleftrightarrow> (case sm of (tot, filt, dicts) \<Rightarrow> length tot = n \<and> length filt = n \<and> length dicts = n)"

lemma add_at_length: "sums_length n sm \<Longrightarrow> sums_length n (add_at rc w fw i v sm)"
  by (auto simp: sums_length_def add_at_def split: prod.splits option.split)

lemma efold_invariant:
  assumes "efold f xs a = Inr b" "P a" "\<And>x a b. f x a = Inr b \<Longrightarrow> P a \<Longrightarrow> P b"
  shows "P b"
  using assms(1,2) by (induction xs arbitrary: a) (auto simp: ebind_Inr_iff dest: assms(3))

lemma per_reward_length:
  assumes "compute_per_reward_func rc f w fw xs reference prompt sm = Inr sm'" "sums_length n sm"
  shows "sums_length n sm'"
proof -
  have grp: "sums_length n (fold (\<lambda>i. add_at rc w fw i (g i)) is sm)" if "sums_length n sm" for g "is" sm
    using that by (induction "is" arbitrary: sm) (auto simp: add_at_length)
  show ?thesis
  proof (cases "rc_group rc")
    case True
    then show ?thesis using assms grp [OF assms(2)]
      by (auto simp: compute_per_reward_func_def per_reward_group_def ebind_Inr_iff ensure_Inr_iff simp del: fold_simps)
  next
    case False
    let ?f = "\<lambda>ix sm. case ix of (i, x) \<Rightarrow> ebind (rf_single f x reference prompt) (\<lambda>v. Inr (add_at rc w fw i v sm))"
    have e: "efold ?f (enumerate 0 xs) sm = Inr sm'"
      using assms(1) False by (simp add: compute_per_reward_func_def per_reward_single_def case_prod_eta case_prod_unfold)
    show ?thesis
      by (rule efold_invariant [where P = "sums_length n", OF e assms(2)])
        (simp add: case_prod_unfold ebind_Inr_iff, metis add_at_length)
  qed
qed

lemma compute_reward_length:
  assumes "compute_reward rc xs reference prompt = Inr (tot, filt, dicts)"
  shows "length tot = length xs" "length filt = length xs" "length dicts = length xs"
proof -
  let ?n = "length xs"
  obtain s1 s2 where 1: "efold (\<lambda>((f, w), fw). compute_per_reward_func rc f (case w of None \<Rightarrow> 1 | Some w \<Rightarrow> w) fw xs reference prompt)
         (zip (rc_funcs rc) (rc_is_filter rc)) (replicate ?n 0, replicate ?n 0, replicate ?n []) = Inr s1"
    and 2: "efold (\<lambda>(f, fw). compute_per_reward_func rc f 0 fw xs reference prompt) (rc_filter_fns rc) s1 = Inr s2"
    and s2: "tot = fst s2" "dicts = snd (snd s2)" "filt = fst s2 \<or> filt = fst (snd s2)"
    using assms by (auto simp: compute_reward_def Let_def ebind_Inr_iff split: prod.splits if_splits)
  have "sums_length ?n s1"
    by (rule efold_invariant [OF 1]) (auto simp: sums_length_def [of _ "(_, _)"] intro: per_reward_length)
  then have "sums_length ?n s2" by (rule efold_invariant [OF 2 _ ]) (auto intro: per_reward_length)
  then show "length tot = length xs" "length filt = length xs" "length dicts = length xs"
    using s2 by (auto simp: sums_length_def split: prod.splits)
qed

lemma advantage_length [simp]: "length (compute_advantage rc rs) = length rs"
  by (simp add: compute_advantage_def Let_def)

lemma group_length_le: "group_length p n \<le> n"
  by (auto simp: group_length_def list_limit_def split: option.split)

text \<open>What a payload comes back as.\<close>

definition rewarded :: "calc_env \<Rightarrow> payload \<Rightarrow> payload \<Rightarrow> bool" where
  "rewarded env p q \<longleftrightarrow> (case (pl_completions p, pl_reference_answer p) of
     (Some xs, Some reference) \<Rightarrow> (case compute_reward (ce_train env) xs reference (pl_prompt p) of
         Inl e \<Rightarrow> False
       | Inr (tot, filt, dicts) \<Rightarrow> let k = group_length p (length xs) in
           pl_completions q = Some (take k xs) \<and> pl_rewards q = Some (take k tot) \<and> pl_filter_rewards q = Some (take k filt)
         \<and> pl_advantages q = Some (take k (compute_advantage (ce_train env) tot))
         \<and> pl_valid q = (\<not> same_values (take k filt))
         \<and> pl_prompt_idx q = pl_prompt_idx p \<and> pl_weight_version q = pl_weight_version p)
   | _ \<Rightarrow> False)"

text \<open>Ignoring prefixes changes nothing else.\<close>

definition facts :: "rollout \<Rightarrow> rollout" where
  "facts r = r\<lparr>ro_n_ignore_prefix_tokens := 0\<rparr>"

lemma facts_ignore: "facts (ignore_prefix env p r) = facts r"
  by (simp add: facts_def ignore_prefix_def)

lemma facts_obs: "map facts rs = map facts rs' \<Longrightarrow> map (\<lambda>r. f (facts r)) rs = map (\<lambda>r. f (facts r)) rs'"
  by (drule arg_cong [where f = "map f"]) (simp add: comp_def)

lemma facts_same:
  assumes "map facts rs = map facts rs'"
  shows "map ro_completion rs = map ro_completion rs'" "map ro_reward rs = map ro_reward rs'"
    "map ro_filter_reward rs = map ro_filter_reward rs'" "map ro_advantage rs = map ro_advantage rs'"
    "map ro_prompt_idx rs = map ro_prompt_idx rs'"
  using facts_obs [OF assms, of ro_completion] facts_obs [OF assms, of ro_reward] facts_obs [OF assms, of ro_filter_reward]
    facts_obs [OF assms, of ro_advantage] facts_obs [OF assms, of ro_prompt_idx] by (simp_all add: facts_def)

lemma facts_update: "map facts (rs[i := ignore_prefix env p (rs ! i)]) = map facts rs"
proof (cases "i < length rs")
  case True
  then have "facts (ignore_prefix env p (rs ! i)) = map facts rs ! i" by (simp add: facts_ignore)
  then show ?thesis by (simp only: map_update list_update_id)
next
  case False
  then have "rs[i := ignore_prefix env p (rs ! i)] = rs" by (intro list_update_beyond) simp
  then show ?thesis by (simp only:)
qed

lemma facts_apply_group: "apply_group env g rs = Inr rs' \<Longrightarrow> map facts rs' = map facts rs"
proof -
  have "map facts (fold (\<lambda>i rs. rs[i := ignore_prefix env p (rs ! i)]) is rs) = map facts rs" for p "is" rs
    by (induction "is" arbitrary: rs) (simp_all add: facts_update)
  then show "apply_group env g rs = Inr rs' \<Longrightarrow> map facts rs' = map facts rs"
    by (auto simp: apply_group_def ensure_Inr_iff split: prod.splits if_splits)
qed

lemma facts_apply_groups: "apply_groups env tokens rs = Inr rs' \<Longrightarrow> map facts rs' = map facts rs"
  unfolding apply_groups_def
  by (erule efold_invariant [where P = "\<lambda>x. map facts x = map facts rs"]) (auto dest: facts_apply_group)

lemma reported_fields:
  assumes "reported p rs' b = Inr q" "map facts rs' = map facts rs"
  shows "pl_completions q = Some (map ro_completion rs)" "pl_rewards q = Some (map ro_reward rs)"
    "pl_filter_rewards q = Some (map ro_filter_reward rs)" "pl_advantages q = Some (map ro_advantage rs)"
    "pl_valid q = b" "pl_weight_version q = pl_weight_version p" "rs \<noteq> []" "pl_prompt_idx q = ro_prompt_idx (hd rs)"
proof -
  note f = facts_same [OF assms(2)]
  obtain r rest where rs': "rs' = r # rest" using assms(1) by (auto simp: reported_def split: list.splits)
  show "rs \<noteq> []" using assms(2) rs' by auto
  then have "ro_prompt_idx r = ro_prompt_idx (hd rs)" using f(5) rs' by (cases rs) auto
  then show "pl_prompt_idx q = ro_prompt_idx (hd rs)" using assms(1) rs' by (auto simp: reported_def)
  show "pl_completions q = Some (map ro_completion rs)" "pl_rewards q = Some (map ro_reward rs)"
    "pl_filter_rewards q = Some (map ro_filter_reward rs)" "pl_advantages q = Some (map ro_advantage rs)"
    "pl_valid q = b" "pl_weight_version q = pl_weight_version p"
    using assms(1) f rs' by (auto simp: reported_def)
qed

lemma report_group_rollouts:
  "report_group env p rs = Inr q \<Longrightarrow>
   \<exists>rs'. reported p rs' (\<not> same_values (map ro_filter_reward rs)) = Inr q \<and> map facts rs' = map facts rs"
  by (cases "same_values (map ro_filter_reward rs)")
    (auto simp: report_group_def ebind_Inr_iff dest: facts_apply_groups)

lemma map_nth_take: "k \<le> length xs \<Longrightarrow> map ((!) xs) [0..<k] = take k xs"
  by (rule nth_equalityI) auto

lemma compute_rollouts_fields:
  assumes "compute_rollouts rc ended p = Inr rs"
  shows "\<exists>x xs reference tot filt dicts. pl_completions p = Some (x # xs) \<and> pl_reference_answer p = Some reference
    \<and> compute_reward rc (x # xs) reference (pl_prompt p) = Inr (tot, filt, dicts)
    \<and> (let k = group_length p (length (x # xs)) in
         map ro_completion rs = take k (x # xs) \<and> map ro_reward rs = take k tot \<and> map ro_filter_reward rs = take k filt
       \<and> map ro_advantage rs = take k (compute_advantage rc tot) \<and> (\<forall>r \<in> set rs. ro_prompt_idx r = pl_prompt_idx p))"
proof -
  obtain x xs reference tot filt dicts dicts' where *: "pl_completions p = Some (x # xs)" "pl_reference_answer p = Some reference"
      "compute_reward rc (x # xs) reference (pl_prompt p) = Inr (tot, filt, dicts)"
    and rs: "rs = map (group_rollout p ended (tot, filt, dicts') (compute_advantage rc tot)) [0..<group_length p (length (x # xs))]"
    using assms by (auto simp: compute_rollouts_def ebind_Inr_iff ensure_Inr_iff Let_def simp del: map_eq_conv split: option.splits list.splits)
  note len = compute_reward_length [OF *(3)]
  have k: "group_length p (length (x # xs)) \<le> length (x # xs)" by (rule group_length_le)
  have "map ro_completion rs = take (group_length p (length (x # xs))) (x # xs)"
    "map ro_reward rs = take (group_length p (length (x # xs))) tot"
    "map ro_filter_reward rs = take (group_length p (length (x # xs))) filt"
    "map ro_advantage rs = take (group_length p (length (x # xs))) (compute_advantage rc tot)"
    using k len unfolding rs by (simp_all add: comp_def group_rollout_def *(1) map_nth_take [symmetric])
  moreover have "\<forall>r \<in> set rs. ro_prompt_idx r = pl_prompt_idx p" unfolding rs by (simp add: group_rollout_def)
  ultimately show ?thesis using * unfolding Let_def by blast
qed

lemma rewarded_one:
  assumes "compute_rollouts (ce_train env) False p = Inr rs" "report_group env p rs = Inr q"
  shows "rewarded env p q"
proof -
  obtain rs' where rs': "reported p rs' (\<not> same_values (map ro_filter_reward rs)) = Inr q" "map facts rs' = map facts rs"
    using report_group_rollouts [OF assms(2)] by blast
  note q = reported_fields [OF rs']
  obtain x xs reference tot filt dicts where *: "pl_completions p = Some (x # xs)" "pl_reference_answer p = Some reference"
      "compute_reward (ce_train env) (x # xs) reference (pl_prompt p) = Inr (tot, filt, dicts)"
    and r: "let k = group_length p (length (x # xs)) in
         map ro_completion rs = take k (x # xs) \<and> map ro_reward rs = take k tot \<and> map ro_filter_reward rs = take k filt
       \<and> map ro_advantage rs = take k (compute_advantage (ce_train env) tot) \<and> (\<forall>r \<in> set rs. ro_prompt_idx r = pl_prompt_idx p)"
    using compute_rollouts_fields [OF assms(1)] by blast
  have "ro_prompt_idx (hd rs) = pl_prompt_idx p" using r q(7) by (simp add: Let_def)
  with * r q show ?thesis by (simp add: rewarded_def Let_def)
qed

text \<open>C22: The local calculator answers every payload, in order, with its completions and for each of them the
  reward, the filter reward and the advantage that were computed for it; the payload counts as valid for
  dynamic sampling exactly if its filter rewards are not all the same. (Completions beyond a shorter list of
  conversations, log-probabilities or tokens are cut off.)\<close>

theorem rewards_complete:
  assumes "compute_rewards env ps False n = Inr (qs, v, m)"
  shows "list_all2 (rewarded env) ps qs \<and> \<not> v \<and> m = n"
proof -
  obtain rss where rss: "emap (compute_rollouts (ce_train env) False) ps = Inr rss"
    and qs: "emap (\<lambda>(p, rs). report_group env p rs) (zip ps rss) = Inr qs" and v: "\<not> v" "m = n"
    using assms by (auto simp: compute_rewards_def rollouts_of_all_def ebind_Inr_iff ensure_Inr_iff)
  have "list_all2 (rewarded env) ps qs"
  proof (rule list_all2_all_nthI)
    show len: "length ps = length qs" using rss qs by (auto simp: emap_Inr_iff dest!: list_all2_lengthD)
    fix i assume i: "i < length ps"
    have "compute_rollouts (ce_train env) False (ps ! i) = Inr (rss ! i)"
      using rss i by (auto simp: emap_Inr_iff dest: list_all2_nthD)
    moreover have "report_group env (ps ! i) (rss ! i) = Inr (qs ! i)"
      using rss qs i list_all2_nthD [of "\<lambda>x y. (case x of (p, rs) \<Rightarrow> report_group env p rs) = Inr y" "zip ps rss" qs i]
      by (auto simp: emap_Inr_iff dest!: list_all2_lengthD)
    ultimately show "rewarded env (ps ! i) (qs ! i)" by (rule rewarded_one)
  qed
  with v show ?thesis by simp
qed

lemma reported_lengths:
  assumes "reported p rs b = Inr q"
  shows "0 \<le> ro_prompt_idx (hd rs) \<Longrightarrow> fits (length rs) (pl_teacher_result_uuids p) \<Longrightarrow> payload_ok q"
proof -
  assume *: "0 \<le> ro_prompt_idx (hd rs)" "fits (length rs) (pl_teacher_result_uuids p)"
  obtain r rest where "rs = r # rest" using assms by (auto simp: reported_def split: list.splits)
  then show "payload_ok q" using assms * by (cases "pl_teacher_result_uuids p") (auto simp: reported_def payload_ok_def fits_def)
qed

text \<open>C23: What the calculator answers is well-formed for the controller: indices are valid, rewards and advantages
  are there, and every list has one entry for each completion, so that extracting the rollouts raises
  nothing (as long as no teacher is involved).\<close>

theorem answers_well_formed:
  assumes "compute_rewards env ps False n = Inr (qs, v, m)" "list_all (\<lambda>p. pl_teacher_result_uuids p = None) ps"
  shows "list_all payload_ok qs"
proof -
  obtain rss where idx: "list_all (\<lambda>p. 0 \<le> pl_prompt_idx p) ps"
    and rss: "list_all2 (\<lambda>p rs. compute_rollouts (ce_train env) False p = Inr rs) ps rss"
    and qs: "list_all2 (\<lambda>x q. (case x of (p, rs) \<Rightarrow> report_group env p rs) = Inr q) (zip ps rss) qs"
    using assms(1) by (auto simp: compute_rewards_def rollouts_of_all_def ebind_Inr_iff ensure_Inr_iff emap_Inr_iff)
  have len: "length rss = length ps" "length qs = length ps" using rss qs by (auto dest!: list_all2_lengthD)
  have "payload_ok (qs ! i)" if i: "i < length ps" for i
  proof -
    have c: "compute_rollouts (ce_train env) False (ps ! i) = Inr (rss ! i)" using rss i by (rule list_all2_nthD)
    have g: "report_group env (ps ! i) (rss ! i) = Inr (qs ! i)" using list_all2_nthD [OF qs, of i] i len by simp
    obtain rs' b where rs': "reported (ps ! i) rs' b = Inr (qs ! i)" "map facts rs' = map facts (rss ! i)"
      using report_group_rollouts [OF g] by blast
    have "\<forall>r \<in> set (rss ! i). ro_prompt_idx r = pl_prompt_idx (ps ! i)"
      using compute_rollouts_fields [OF c] by (auto simp: Let_def)
    moreover have "rss ! i \<noteq> []" "ro_prompt_idx (hd rs') = ro_prompt_idx (hd (rss ! i))"
      using reported_fields(7,8) [OF rs'] reported_fields(8) [OF rs'(1) refl] by simp_all
    ultimately have "0 \<le> ro_prompt_idx (hd rs')" using idx i by (simp add: list_all_iff)
    then show ?thesis using reported_lengths [OF rs'(1)] assms(2) i by (simp add: list_all_iff fits_def)
  qed
  then show ?thesis using len by (simp add: list_all_length)
qed

section \<open>Which prefixes are ignored\<close>

text \<open>A prefix that the code ignores in rollout \<open>i\<close>: maximal among those shared, with different rewards among the
  rollouts that share it, and not the whole completion.\<close>

definition biased_prefix :: "calc_env \<Rightarrow> int \<Rightarrow> int list list \<Rightarrow> rollout list \<Rightarrow> nat \<Rightarrow> int list \<Rightarrow> bool" where
  "biased_prefix env N tokens rs i p \<longleftrightarrow> N \<le> int (length p) \<and> i \<in> set (having p tokens) \<and> 1 < length (having p tokens)
     \<and> \<not> (\<exists>x. 1 < length (having (p @ [x]) tokens)) \<and> \<not> same_values (map (\<lambda>j. ro_reward (rs ! j)) (having p tokens))
     \<and> VStr (prefix_text env p) \<noteq> ro_completion (rs ! i)"

text \<open>What a group does to one rollout.\<close>

definition touch :: "calc_env \<Rightarrow> rollout list \<Rightarrow> int list \<times> nat list \<Rightarrow> nat \<Rightarrow> rollout \<Rightarrow> rollout" where
  "touch env rs g i r = (if i \<in> set (snd g) \<and> \<not> same_values (map (\<lambda>j. ro_reward (rs ! j)) (snd g)) then ignore_prefix env (fst g) r else r)"

lemma ignore_again [simp]: "ignore_prefix env p (ignore_prefix env p r) = ignore_prefix env p r"
  by (simp add: ignore_prefix_def)

lemma ignore_all:
  "i < length rs \<Longrightarrow> fold (\<lambda>i rs. rs[i := ignore_prefix env p (rs ! i)]) is rs ! i
     = (if i \<in> set is then ignore_prefix env p (rs ! i) else rs ! i)"
proof (induction "is" arbitrary: rs)
  case (Cons k "is")
  then show ?case by (cases "k = i") simp_all
qed simp

lemma touch_cong: "map ro_reward rs = map ro_reward rs' \<Longrightarrow> list_all (\<lambda>j. j < length rs) (snd g) \<Longrightarrow> touch env rs g = touch env rs' g"
proof -
  assume *: "map ro_reward rs = map ro_reward rs'" "list_all (\<lambda>j. j < length rs) (snd g)"
  have "ro_reward (rs ! j) = ro_reward (rs' ! j)" if "j \<in> set (snd g)" for j
    using * that by (metis list_all_iff map_eq_imp_length_eq nth_map)
  then have "map (\<lambda>j. ro_reward (rs ! j)) (snd g) = map (\<lambda>j. ro_reward (rs' ! j)) (snd g)" by simp
  then show ?thesis by (simp only: touch_def fun_eq_iff) simp
qed

lemma apply_group_at:
  assumes "apply_group env g rs = Inr rs'" "i < length rs"
  shows "rs' ! i = touch env rs g i (rs ! i)"
  using assms ignore_all by (cases g) (auto simp: apply_group_def ensure_Inr_iff touch_def split: if_splits)

lemma apply_groups_at:
  assumes "efold (apply_group env) gs rs = Inr rs'" "i < length rs" "map ro_reward rs = map ro_reward rs0"
    and "list_all (\<lambda>g. list_all (\<lambda>j. j < length rs) (snd g)) gs"
  shows "rs' ! i = fold (\<lambda>g. touch env rs0 g i) gs (rs ! i)"
  using assms
proof (induction gs arbitrary: rs)
  case (Cons g gs)
  then obtain rs1 where 1: "apply_group env g rs = Inr rs1" "efold (apply_group env) gs rs1 = Inr rs'"
    by (auto simp: ebind_Inr_iff)
  note f = facts_apply_group [OF 1(1)]
  have len: "length rs1 = length rs" using f by (metis length_map)
  have "map ro_reward rs1 = map ro_reward rs0" using facts_same(2) [OF f] Cons.prems(3) by simp
  then have "rs' ! i = fold (\<lambda>g. touch env rs0 g i) gs (rs1 ! i)" using Cons.IH [OF 1(2)] Cons.prems len by simp
  moreover have "rs1 ! i = touch env rs0 g i (rs ! i)"
    using apply_group_at [OF 1(1) Cons.prems(2)] touch_cong [OF Cons.prems(3), of g env] Cons.prems(4) by simp
  ultimately show ?case by simp
qed simp

lemma groups_wf: "dict_wf (find_maximal_prefix_groups tokens N)"
proof -
  have "dict_wf d \<Longrightarrow> dict_wf (prefix_loop n st d)" for n st d
    by (induction n st d rule: prefix_loop.induct) auto
  then show ?thesis by (simp add: find_maximal_prefix_groups_def split: option.split)
qed

lemma touch_none: "(\<And>g. g \<in> set gs \<Longrightarrow> touch env rs g i r = r) \<Longrightarrow> fold (\<lambda>g. touch env rs g i) gs r = r"
  by (induction gs) auto

lemma touch_once:
  assumes "g \<in> set gs" "\<And>h. h \<in> set gs \<Longrightarrow> h \<noteq> g \<Longrightarrow> i \<notin> set (snd h)"
  shows "fold (\<lambda>g. touch env rs g i) gs r = touch env rs g i r"
proof -
  have *: "fold (\<lambda>g. touch env rs g i) hs r = (if g \<in> set hs then touch env rs g i r else r)"
    if "set hs \<subseteq> set gs" "r = touch env rs g i r0 \<or> r = r0" for hs r r0
    using that
  proof (induction hs arbitrary: r)
    case (Cons h hs)
    have t: "touch env rs g i (touch env rs g i r) = touch env rs g i r" for r by (simp add: touch_def)
    show ?case
    proof (cases "h = g")
      case True
      then show ?thesis using Cons.IH [of "touch env rs g i r"] Cons.prems t by (auto split: if_splits)
    next
      case False
      then have "touch env rs h i r = r" using assms(2) [of h] Cons.prems by (simp add: touch_def)
      then show ?thesis using Cons False by simp
    qed
  qed simp
  show ?thesis using * [of gs r r] assms(1) by simp
qed

text \<open>C24: In a payload with different filter rewards, the tokens of a rollout that are left out of training are
  exactly those of the biased prefix it is in, if there is one: every rollout is changed at most once, and
  nothing but the number of ignored tokens changes.\<close>

theorem ignored_prefixes_exact:
  assumes "apply_groups env tokens rs = Inr rs'" "ce_min_prefix env = Some N" "1 \<le> N"
    and "length tokens = length rs" "i < length rs"
  shows "(biased_prefix env N tokens rs i p \<longrightarrow> rs' ! i = (rs ! i)\<lparr>ro_n_ignore_prefix_tokens := int (length p)\<rparr>)
    \<and> ((\<exists>p. biased_prefix env N tokens rs i p) \<or> rs' ! i = rs ! i)"
proof -
  let ?gs = "find_maximal_prefix_groups tokens (Some N)"
  note wf = groups_wf [of tokens "Some N"]
  have mem: "(p, js) \<in> set ?gs \<longleftrightarrow> dict_get ?gs p = Some js" for p js
    using wf by (auto simp: dict_wf_def dict_keys_def dict_get_def intro: map_of_is_SomeI dest: map_of_SomeD)
  note grp = mem [unfolded group_iff [OF assms(3)]]
  have bound: "list_all (\<lambda>g. list_all (\<lambda>j. j < length rs) (snd g)) ?gs"
    using assms(4) by (auto simp: list_all_iff grp having_def)
  have at: "rs' ! i = fold (\<lambda>g. touch env rs g i) ?gs (rs ! i)"
    using apply_groups_at [OF _ assms(5) refl bound] assms(1,2) by (simp add: apply_groups_def)
  have "rs' ! i = (rs ! i)\<lparr>ro_n_ignore_prefix_tokens := int (length p)\<rparr>" if b: "biased_prefix env N tokens rs i p" for p
  proof -
    have g: "(p, having p tokens) \<in> set ?gs" using b unfolding grp by (simp add: biased_prefix_def)
    have "i \<notin> set (snd h)" if "h \<in> set ?gs" "h \<noteq> (p, having p tokens)" for h
    proof
      assume i: "i \<in> set (snd h)"
      obtain q js where h: "h = (q, js)" by (cases h)
      have "q = p" using groups_disjoint [OF assms(3)] g that(1) i b unfolding h mem by (auto simp: biased_prefix_def)
      then show False using that h grp by auto
    qed
    with touch_once [OF g, of i env rs "rs ! i"] at show ?thesis
      using b by (simp add: touch_def ignore_prefix_def biased_prefix_def)
  qed
  moreover have "rs' ! i = rs ! i" if "\<not> (\<exists>p. biased_prefix env N tokens rs i p)"
    unfolding at
  proof (rule touch_none)
    fix g assume g: "g \<in> set ?gs"
    obtain p js where pj: "g = (p, js)" by (cases g)
    show "touch env rs g i (rs ! i) = rs ! i"
      using that g unfolding pj grp by (auto simp: touch_def ignore_prefix_def biased_prefix_def)
  qed
  ultimately show ?thesis by blast
qed

section \<open>Advantages\<close>

text \<open>A completion never gets a smaller advantage than another one of its prompt with a lower or equal reward.\<close>

theorem advantages_ordered:
  assumes "mono (rc_rnd32 rc)" "0 < rc_rnd32 rc (rc_std rc (map (rc_rnd32 rc) rs) + rc_eps rc)"
    and "i < length rs" "j < length rs" "rs ! i \<le> rs ! j"
  shows "compute_advantage rc rs ! i \<le> compute_advantage rc rs ! j"
proof -
  let ?m = "rc_mean rc (map (rc_rnd32 rc) rs)"
  have "rc_rnd32 rc (rs ! i) \<le> rc_rnd32 rc (rs ! j)" using assms(1,5) by (rule monoD)
  then have "rc_rnd32 rc (rc_rnd32 rc (rs ! i) - ?m) \<le> rc_rnd32 rc (rc_rnd32 rc (rs ! j) - ?m)"
    by (intro monoD [OF assms(1)]) simp
  then show ?thesis using assms(2-4)
    by (auto simp: compute_advantage_def Let_def intro!: monoD [OF assms(1)] divide_right_mono)
qed

section \<open>An example\<close>

definition sample_fn :: reward_fn where
  "sample_fn = \<lparr>rf_single = (\<lambda>x reference prompt. Inr (if x = VStr reference then 1 else 0, None)),
     rf_group = (\<lambda>xs reference prompt. Inr (map (\<lambda>x. if x = VStr reference then 1 else 0) xs, None))\<rparr>"

definition sample_calc :: reward_calc where
  "sample_calc = \<lparr>rc_funcs = [(sample_fn, Some 2)], rc_is_filter = [0], rc_filter_fns = [], rc_group = False,
     rc_rnd = (\<lambda>x. x), rc_rnd32 = (\<lambda>x. x), rc_mean = (\<lambda>xs. sum_list xs / of_nat (length xs)), rc_std = (\<lambda>xs. 1),
     rc_unbiased = False, rc_eps = 1\<rparr>"

definition sample_calc_env :: calc_env where
  "sample_calc_env = \<lparr>ce_train = sample_calc, ce_val = sample_calc, ce_non_text = False, ce_rollout_as_token_ids = False,
     ce_min_prefix = Some 1, ce_tokenize = (\<lambda>v. if v = VStr ''34'' then [3, 4] else if v = VStr ''35'' then [3, 5] else [3]),
     ce_decode = (\<lambda>ts. if ts = [3] then ''3'' else ''''), ce_eos = 0\<rparr>"

definition sample_generated :: payload where
  "sample_generated = sample_payload\<lparr>pl_reference_answer := Some ''34'',
     pl_completions := Some [VStr ''34'', VStr ''35'', VStr ''3'']\<rparr>"

definition sample_group :: "rollout list" where
  "sample_group = (case compute_rollouts sample_calc False sample_generated of Inl e \<Rightarrow> [] | Inr rs \<Rightarrow> rs)"

lemma sample_rewards:
  "case compute_rewards sample_calc_env [sample_generated] False 5 of Inl e \<Rightarrow> False
     | Inr (qs, v, n) \<Rightarrow> map pl_rewards qs = [Some [2, 0, 0]] \<and> map pl_n_ignore_prefix_tokens qs = [Some [1, 1, 0]]
       \<and> map pl_valid qs = [True] \<and> \<not> v \<and> n = 5"
  by code_simp

theorem rewards_complete_witness:
  "\<exists>qs. compute_rewards sample_calc_env [sample_generated] False 5 = Inr (qs, False, 5)
     \<and> list_all2 (rewarded sample_calc_env) [sample_generated] qs \<and> map pl_rewards qs = [Some [2, 0, 0]]"
proof -
  obtain qs v n where r: "compute_rewards sample_calc_env [sample_generated] False 5 = Inr (qs, v, n)"
    and q: "map pl_rewards qs = [Some [2, 0, 0]]"
    using sample_rewards by (cases "compute_rewards sample_calc_env [sample_generated] False 5") auto
  with rewards_complete [OF r] show ?thesis by auto
qed

theorem answers_well_formed_witness:
  "\<exists>qs. compute_rewards sample_calc_env [sample_generated] False 5 = Inr (qs, False, 5) \<and> list_all payload_ok qs \<and> qs \<noteq> []"
proof -
  obtain qs v n where r: "compute_rewards sample_calc_env [sample_generated] False 5 = Inr (qs, v, n)" and q: "qs \<noteq> []"
    and v: "v = False" "n = 5"
    using sample_rewards by (cases "compute_rewards sample_calc_env [sample_generated] False 5")
      auto
  have "list_all (\<lambda>p. pl_teacher_result_uuids p = None) [sample_generated]"
    by (simp add: sample_generated_def sample_payload_def)
  from answers_well_formed [OF r this] r q v show ?thesis by auto
qed

lemma sample_tokens: "apply_groups sample_calc_env [[3, 4], [3, 5], [3]] sample_group
    = Inr (map (\<lambda>r. if ro_completion r = VStr ''3'' then r else r\<lparr>ro_n_ignore_prefix_tokens := 1\<rparr>) sample_group)"
  "length sample_group = 3" "biased_prefix sample_calc_env 1 [[3, 4], [3, 5], [3]] sample_group 0 [3]"
proof -
  show "apply_groups sample_calc_env [[3, 4], [3, 5], [3]] sample_group
    = Inr (map (\<lambda>r. if ro_completion r = VStr ''3'' then r else r\<lparr>ro_n_ignore_prefix_tokens := 1\<rparr>) sample_group)"
    "length sample_group = 3" by code_simp+
  have h: "having [3] [[3, 4], [3, 5], [3]] = [0, 1, 2]" by code_simp
  have "prefix [3, x] [3, y] \<longleftrightarrow> x = y" "\<not> prefix [3, x] [3]" for x y :: int by simp_all
  then have "having [3, x] [[3, 4], [3, 5], [3]] = filter (\<lambda>i. i = 0 \<and> x = 4 \<or> i = 1 \<and> x = 5) [0, 1, 2]" for x :: int
    unfolding having_def by (intro filter_cong) (auto simp: less_Suc_eq numeral_3_eq_3)
  then have "\<not> (\<exists>x. 1 < length (having ([3] @ [x]) [[3, 4], [3, 5], [3 :: int]]))" by simp
  moreover have "\<not> same_values (map (\<lambda>j. ro_reward (sample_group ! j)) [0, 1, 2])" by code_simp
  moreover have "VStr (prefix_text sample_calc_env [3]) \<noteq> ro_completion (sample_group ! 0)" by code_simp
  ultimately show "biased_prefix sample_calc_env 1 [[3, 4], [3, 5], [3]] sample_group 0 [3]"
    unfolding biased_prefix_def h by (intro conjI; (assumption | simp))
qed

theorem ignored_prefixes_exact_witness:
  "\<exists>rs'. apply_groups sample_calc_env [[3, 4], [3, 5], [3]] sample_group = Inr rs'
     \<and> rs' ! 0 = (sample_group ! 0)\<lparr>ro_n_ignore_prefix_tokens := 1\<rparr>"
proof -
  have N: "ce_min_prefix sample_calc_env = Some 1" by (simp add: sample_calc_env_def)
  have len: "length [[3, 4], [3, 5], [3 :: int]] = length sample_group" "0 < length sample_group"
    by (simp_all add: sample_tokens(2))
  have "(1 :: int) \<le> 1" by simp
  note exact = mp [OF conjunct1 [OF ignored_prefixes_exact [OF sample_tokens(1) N this len]] sample_tokens(3)]
  have "(sample_group ! 0)\<lparr>ro_n_ignore_prefix_tokens := int (length [3 :: int])\<rparr> = (sample_group ! 0)\<lparr>ro_n_ignore_prefix_tokens := 1\<rparr>"
    by simp
  from trans [OF exact this] show ?thesis by (intro exI conjI) (rule sample_tokens(1), assumption)
qed

theorem advantages_ordered_witness: "compute_advantage sample_calc [0, 1, 2] ! 1 \<le> compute_advantage sample_calc [0, 1, 2] ! 2"
  by (rule advantages_ordered) (simp_all add: sample_calc_def mono_def)

end
