(* ===== verification/Rollout_Transfers.thy ===== *)
theory Rollout_Transfers
  imports Rollout_Worker
begin

text \<open>Single operations of the rollout worker: a transfer from the policy receives exactly the planned slices
  in order, with its NCCL groups well nested; the wait for commands; shares of prompts; filters.\<close>

section \<open>A transfer from the policy\<close>

definition param_events :: "(string \<Rightarrow> bool) \<Rightarrow> bool \<Rightarrow> param_insts \<Rightarrow> worker_event list" where
  "param_events trainable trainable_only pis = (if \<not> trainable (pi_param_name pis) \<and> trainable_only then []
     else map (\<lambda>i. Received (pi_param_name pis) (si_policy_rank i) (si_slice_strategy i)) (pi_instructions pis))"

fun transfer_events :: "worker_env \<Rightarrow> (string \<Rightarrow> bool) \<Rightarrow> bool \<Rightarrow> insts_group list \<Rightarrow> int \<Rightarrow> worker_event list" where
  "transfer_events env trainable tr [] pending = []"
| "transfer_events env trainable tr (g # gs) pending = concat (map (param_events trainable tr) g) @
     (if we_nccl_group_size env \<le> pending + 1
      then (if grouped_nccl env then [Nccl_Group_End, Nccl_Group_Start] else []) @ transfer_events env trainable tr gs 0
      else transfer_events env trainable tr gs (pending + 1))"

lemma emit_run: "emit e s = Ok () (s\<lparr>wk_out := wk_out s @ [e]\<rparr>)"
  by (simp add: emit_def)

lemma emit_all:
  assumes "\<And>i u. F i u = (if P i then Ok () (u\<lparr>wk_out := wk_out u @ [f i]\<rparr>) else Raise AssertionError u)"
    and "for_each xs F s = Ok () t"
  shows "t = s\<lparr>wk_out := wk_out s @ map f xs\<rparr>"
  using assms(2)
proof (induction xs arbitrary: s)
  case (Cons x xs)
  then obtain u where u: "F x s = Ok () u" "for_each xs F u = Ok () t" by (auto simp: bnd_eq_Ok_iff)
  have "u = s\<lparr>wk_out := wk_out s @ [f x]\<rparr>" using u(1) assms(1) [of x s] by (simp split: if_splits)
  then show ?case using Cons.IH [OF u(2)] by simp
qed simp

lemma bnd_OkE: "bnd m f s = Ok b t \<Longrightarrow> (\<And>a u. m s = Ok a u \<Longrightarrow> f a u = Ok b t \<Longrightarrow> Q) \<Longrightarrow> Q"
  by (auto simp: bnd_eq_Ok_iff)

lemma recv_param_run:
  assumes "recv_param_shards env tr p s = Ok n t"
  shows "t = s\<lparr>wk_out := wk_out s @ param_events (is_trainable s) tr p\<rparr>"
proof (cases "\<not> is_trainable s (pi_param_name p) \<and> tr")
  case True
  then show ?thesis using assms by (simp add: recv_param_shards_def param_events_def)
next
  case False
  then have "for_each (pi_instructions p) (\<lambda>inst. bnd (py_assert (si_rollout_rank inst = we_global_rank env)) (\<lambda>_.
         emit (Received (pi_param_name p) (si_policy_rank inst) (si_slice_strategy inst)))) s = Ok () t"
    using assms unfolding recv_param_shards_def with_state_run by (simp only: if_False) (auto elim!: bnd_OkE split: if_splits)
  from emit_all [OF _ this, of "\<lambda>i. si_rollout_rank i = we_global_rank env"
      "\<lambda>i. Received (pi_param_name p) (si_policy_rank i) (si_slice_strategy i)"]
  show ?thesis using False by (auto simp: emit_run param_events_def)
qed

lemma recv_params_run:
  "recv_params env tr ps s = Ok n t \<Longrightarrow> t = s\<lparr>wk_out := wk_out s @ concat (map (param_events (is_trainable s) tr) ps)\<rparr>"
proof (induction ps arbitrary: s n)
  case (Cons p ps)
  then obtain k l u where u: "recv_param_shards env tr p s = Ok k u" "recv_params env tr ps u = Ok l t"
    by (auto simp: bnd_eq_Ok_iff)
  have "is_trainable u = is_trainable s" using recv_param_run [OF u(1)] by (simp add: is_trainable_def fun_eq_iff)
  then show ?case using Cons.IH [OF u(2)] recv_param_run [OF u(1)] by simp
qed simp

lemma recv_groups_run:
  "recv_groups env tr gs k c s = Ok n t \<Longrightarrow> t = s\<lparr>wk_out := wk_out s @ transfer_events env (is_trainable s) tr gs k\<rparr>"
proof (induction gs arbitrary: k c s)
  case (Cons g gs)
  then obtain m u x where u: "recv_params env tr g s = Ok m u" and x: "transferred_of env g m = Inr x"
    and v: "(if we_nccl_group_size env \<le> k + 1
       then bnd (guarded (grouped_nccl env) (block [emit Nccl_Group_End, emit Nccl_Group_Start])) (\<lambda>_.
         recv_groups env tr gs 0 (c + x)) else recv_groups env tr gs (k + 1) (c + x)) u = Ok n t"
    by (auto simp: recv_weight_shard_def bnd_eq_Ok_iff lift_sum_def split: if_splits sum.splits)
  note u = recv_params_run [OF u]
  have tr: "is_trainable (s\<lparr>wk_out := out\<rparr>) = is_trainable s" for out by (simp add: is_trainable_def fun_eq_iff)
  show ?case
  proof (cases "we_nccl_group_size env \<le> k + 1")
    case True
    let ?u = "u\<lparr>wk_out := wk_out u @ (if grouped_nccl env then [Nccl_Group_End, Nccl_Group_Start] else [])\<rparr>"
    have "recv_groups env tr gs 0 (c + x) ?u = Ok n t" using v True by (auto simp: emit_run split: if_splits)
    from Cons.IH [OF this] show ?thesis using True u tr by simp
  next
    case False
    then have "recv_groups env tr gs (k + 1) (c + x) u = Ok n t" using v by simp
    from Cons.IH [OF this] show ?thesis using False u tr by simp
  qed
qed simp

text \<open>The slices received, and how the calls that receive them are grouped.\<close>

definition slices_of :: "worker_event list \<Rightarrow> (string \<times> nat \<times> shard_info) list" where
  "slices_of out = concat (map (\<lambda>e. case e of Received n p sl \<Rightarrow> [(n, p, sl)] | _ \<Rightarrow> []) out)"

fun nccl_nested :: "bool \<Rightarrow> worker_event list \<Rightarrow> bool" where
  "nccl_nested opened [] = (\<not> opened)"
| "nccl_nested opened (Nccl_Group_Start # es) = (\<not> opened \<and> nccl_nested True es)"
| "nccl_nested opened (Nccl_Group_End # es) = (opened \<and> nccl_nested False es)"
| "nccl_nested opened (Received n p sl # es) = (opened \<and> nccl_nested opened es)"
| "nccl_nested opened (_ # es) = nccl_nested opened es"

definition planned_slices :: "(string \<Rightarrow> bool) \<Rightarrow> bool \<Rightarrow> insts_group list \<Rightarrow> (string \<times> nat \<times> shard_info) list" where
  "planned_slices trainable trainable_only insts =
     map (\<lambda>(n, i). (n, si_policy_rank i, si_slice_strategy i))
       (filter (\<lambda>(n, i). trainable n \<or> \<not> trainable_only) (in_order insts))"

lemma slices_append [simp]: "slices_of (xs @ ys) = slices_of xs @ slices_of ys" "slices_of [] = []"
    "slices_of [Nccl_Group_End, Nccl_Group_Start] = []" "slices_of [Nccl_Group_End] = []"
    "slices_of (Nccl_Group_Start # xs) = slices_of xs"
  by (simp_all add: slices_of_def)

lemma planned_append: "planned_slices trainable tr [] = []" "planned_slices trainable tr [[]] = []"
    "planned_slices trainable tr (g # gs) = planned_slices trainable tr [g] @ planned_slices trainable tr gs"
    "planned_slices trainable tr [p # g] = map (\<lambda>(n, i). (n, si_policy_rank i, si_slice_strategy i))
       (filter (\<lambda>(n, i). trainable n \<or> \<not> tr) (map (Pair (pi_param_name p)) (pi_instructions p))) @ planned_slices trainable tr [g]"
  by (simp_all add: planned_slices_def in_order_def)

lemma slices_param: "slices_of (param_events trainable tr p)
    = map (\<lambda>(n, i). (n, si_policy_rank i, si_slice_strategy i))
        (filter (\<lambda>(n, i). trainable n \<or> \<not> tr) (map (Pair (pi_param_name p)) (pi_instructions p)))"
  by (auto simp: param_events_def slices_of_def comp_def concat_map_singleton filter_map filter_empty_conv)

lemma slices_group: "slices_of (concat (map (param_events trainable tr) g)) = planned_slices trainable tr [g]"
  by (induction g) (simp_all add: planned_append(1,2) planned_append(4) slices_param)

lemma slices_transfer: "slices_of (transfer_events env trainable tr gs k) = planned_slices trainable tr gs"
proof (induction gs arbitrary: k)
  case (Cons g gs)
  then show ?case by (simp add: slices_group planned_append(3) [of trainable tr g gs])
qed (simp add: planned_append)

lemma nested_param: "nccl_nested True (param_events trainable tr p @ es) = nccl_nested True es"
proof -
  have "nccl_nested True (map (\<lambda>i. Received n (f i) (h i)) is @ fs) = nccl_nested True fs" for n f h fs and "is" :: "sync_inst list"
    by (induction "is") auto
  then show ?thesis by (simp add: param_events_def)
qed

lemma nested_params: "nccl_nested True (concat (map (param_events trainable tr) g) @ es) = nccl_nested True es"
  by (induction g) (simp_all add: nested_param)

lemma nested_transfer:
  "grouped_nccl env \<Longrightarrow> nccl_nested True (transfer_events env trainable tr gs k @ es) = nccl_nested True es"
  by (induction gs arbitrary: k) (simp_all add: nested_params)

section \<open>What a transfer does\<close>

definition insts_in_use :: "worker_env \<Rightarrow> worker \<Rightarrow> insts_group list" where
  "insts_in_use env s = (case wk_recv_insts s of None \<Rightarrow> we_recv_insts env | Some insts \<Rightarrow> insts)"

lemma p2r_steps:
  assumes "policy_to_rollout_unicast env (we_name env) tr s = Ok () t"
  shows "\<exists>init. slices_of init = [] \<and> nccl_nested False init
    \<and> wk_out t = wk_out s @ init @ (if grouped_nccl env then [Nccl_Group_Start] else [])
        @ transfer_events env (is_trainable t) tr (insts_in_use env s) 0 @ (if grouped_nccl env then [Nccl_Group_End] else [])"
proof -
  let ?s = "if grouped_nccl env then [Nccl_Group_Start] else []" and ?e = "if grouped_nccl env then [Nccl_Group_End] else []"
  obtain a insts b c cnt d where a: "initialise env ''auto'' s = Ok () a"
    and b: "fetch_recv_insts env tr a = Ok insts b"
    and c: "prepare_trainable_params env b = Ok () c"
    and d: "recv_groups env tr insts 0 0 (c\<lparr>wk_out := wk_out c @ ?s\<rparr>) = Ok cnt d"
    and t: "finish_p2r tr cnt (d\<lparr>wk_out := wk_out d @ ?e\<rparr>) = Ok () t"
    using assms unfolding policy_to_rollout_unicast_def
    by (elim bnd_OkE) (auto simp: emit_run split: if_splits elim!: bnd_OkE)
  have a': "wk_recv_insts a = wk_recv_insts s" and init: "\<exists>init. slices_of init = [] \<and> nccl_nested False init \<and> wk_out a = wk_out s @ init"
    using a by (auto simp: initialise_def emit_run slices_of_def split: if_splits)
  have b': "insts = insts_in_use env s" "wk_out b = wk_out a"
    using b a' by (auto simp: fetch_recv_insts_def insts_in_use_def bnd_eq_Ok_iff split: option.splits if_splits)
  have c': "wk_out c = wk_out b" using c by (auto simp: prepare_trainable_params_def Let_def split: if_splits)
  have d': "d = c\<lparr>wk_out := (wk_out c @ ?s) @ transfer_events env (is_trainable c) tr insts 0\<rparr>"
    using recv_groups_run [OF d] by (simp add: is_trainable_def [abs_def])
  have t': "wk_out t = wk_out d @ ?e \<and> wk_trainable t = wk_trainable d"
    using t by (auto simp: finish_p2r_def check_p2r_count_def bnd_eq_Ok_iff split: if_splits option.splits)
  have tr: "is_trainable t = is_trainable c" using t' d' by (simp add: is_trainable_def [abs_def])
  obtain i where i: "slices_of i = []" "nccl_nested False i" "wk_out a = wk_out s @ i" using init by blast
  have "wk_out t = wk_out s @ i @ ?s @ transfer_events env (is_trainable t) tr (insts_in_use env s) 0 @ ?e"
    using t' d' c' b' i(3) unfolding tr by simp
  then show ?thesis using i(1,2) by blast
qed


lemma nested_after: "nccl_nested b es \<Longrightarrow> nccl_nested b (es @ fs) = nccl_nested False fs"
proof (induction es arbitrary: b)
  case (Cons e es)
  then show ?case by (cases e) auto
qed simp

lemma synced_set: "weight_synced (set_weight_synced st)"
proof -
  have "bit (or st 1 :: int) 0" by (simp add: bit_or_iff)
  then show ?thesis by (auto simp: weight_synced_def set_weight_synced_def WEIGHT_SYNCED_def bit_and_iff
      bit_eq_iff dest!: arg_cong [where f = "\<lambda>x. bit x 0"])
qed

lemma p2r_synced: "policy_to_rollout_unicast env (we_name env) tr s = Ok () t \<Longrightarrow> weight_synced (wk_state t)"
  unfolding policy_to_rollout_unicast_def
  by (elim bnd_OkE) (auto simp: finish_p2r_def synced_set bnd_eq_Ok_iff split: if_splits elim!: bnd_OkE)


text \<open>A transfer from the policy to this replica that returns has received exactly the slices of the plan the
  rank holds, in the plan's order, leaving out only the untrainable parameters of a transfer of trainable ones;
  with grouping on, every slice is received inside an NCCL group and the groups are closed again; the weights
  then count as synchronised.\<close>

theorem p2r_follows_plan:
  assumes "policy_to_rollout_unicast env (we_name env) tr s = Ok () t"
  shows "\<exists>es. wk_out t = wk_out s @ es
    \<and> slices_of es = planned_slices (is_trainable t) tr (insts_in_use env s)
    \<and> (\<not> grouped_nccl env \<or> nccl_nested False es) \<and> weight_synced (wk_state t)"
proof -
  obtain init where i: "slices_of init = []" "nccl_nested False init"
    and o: "wk_out t = wk_out s @ init @ (if grouped_nccl env then [Nccl_Group_Start] else [])
        @ transfer_events env (is_trainable t) tr (insts_in_use env s) 0 @ (if grouped_nccl env then [Nccl_Group_End] else [])"
    using p2r_steps [OF assms] by blast
  have "nccl_nested False (init @ Nccl_Group_Start # transfer_events env (is_trainable t) tr (insts_in_use env s) 0 @ [Nccl_Group_End])"
    if "grouped_nccl env" using nested_after [OF i(2)] nested_transfer [OF that, of "is_trainable t" tr _ 0 "[Nccl_Group_End]"] by simp
  then show ?thesis using o i(1) p2r_synced [OF assms] by (cases "grouped_nccl env") (force simp: slices_transfer)+
qed


lemma sample_p2r: "let r = policy_to_rollout_unicast sample_env ''r0'' False (new_worker [] [] [] []) in
    returned r = Some () \<and> slices_of (wk_out (final r)) = [(''w'', 0, []), (''w'', 1, []), (''b'', 1, [])]"
  by code_simp

theorem p2r_follows_plan_witness:
  "\<exists>t es. policy_to_rollout_unicast sample_env ''r0'' False (new_worker [] [] [] []) = Ok () t
    \<and> wk_out t = es \<and> slices_of es = [(''w'', 0, []), (''w'', 1, []), (''b'', 1, [])]
    \<and> nccl_nested False es \<and> weight_synced (wk_state t)"
proof -
  let ?s = "new_worker [] [] [] []"
  obtain t where t: "policy_to_rollout_unicast sample_env (we_name sample_env) False ?s = Ok () t"
    and sl: "slices_of (wk_out t) = [(''w'', 0, []), (''w'', 1, []), (''b'', 1, [])]"
    using sample_p2r by (cases "policy_to_rollout_unicast sample_env ''r0'' False ?s") (auto simp: Let_def sample_env_def)
  have "wk_out ?s = []" "grouped_nccl sample_env" by (simp_all add: new_worker_def grouped_nccl_def sample_env_def)
  with p2r_follows_plan [OF t] t sl show ?thesis by (auto simp: sample_env_def)
qed


section \<open>Waiting for commands\<close>

lemma look_run: "look s = Ok t u \<Longrightarrow> \<exists>ts. in_ticks s = t # ts \<and> in_ticks u = ts"
  by (auto simp: look_def next_in_def bnd_eq_Ok_iff modify_def split: list.splits)

text \<open>Executing a command does not read the clock.\<close>

lemma clock_emit [frame]: "keeps in_ticks (emit e)"
  by (simp add: emit_def keeps_modify)

lemma clock_streams [frame]: "keeps in_ticks (next_in in_polls in_polls_update)"
  "keeps in_ticks (next_in in_results in_results_update)" "keeps in_ticks (next_in in_replies in_replies_update)"
  unfolding next_in_def by (intro frame; simp add: keeps_modify)+

lemma clock_rewards [frame]: "keeps in_ticks (put_reward e)" "keeps in_ticks drop_reward"
  by (simp_all add: put_reward_def drop_reward_def keeps_modify)

lemma clock_dequeue [frame]: "keeps in_ticks (dequeue_rewards_cal env)"
  unfolding dequeue_rewards_cal_def
  apply (intro frame)
  subgoal for s e rest by (cases e; simp only: reward_entry.case; intro frame)
  done

lemma clock_enqueue [frame]: "keeps in_ticks (enqueue_rewards_cal env ps v n b)"
  unfolding enqueue_rewards_cal_def by (intro frame)

lemma clock_report [frame]: "keeps in_ticks (report_loop env b n)" "keeps in_ticks (report_rollouts env b)"
proof -
  show *: "keeps in_ticks (report_loop env b n)" for n
    by (induction n) (unfold report_loop.simps post_rollouts_def; intro frame; assumption)+
  show "keeps in_ticks (report_rollouts env b)" unfolding report_rollouts_def by (intro frame *)
qed

lemma clock_request [frame]: "keeps in_ticks (request_new_prompts env b e v)"
  unfolding request_new_prompts_def fetch_prompts_def Let_def by (intro frame)

lemma clock_validation [frame]: "keeps in_ticks (validation_loop env n acc)" "keeps in_ticks (validation_report env n d)"
proof -
  show "keeps in_ticks (validation_loop env n acc)"
    by (induction n arbitrary: acc) (unfold validation_loop.simps validated_def current_step_def; intro frame; assumption?)+
  show "keeps in_ticks (validation_report env n d)"
    by (induction n arbitrary: d) (unfold validation_report.simps; intro frame; assumption?)+
qed

lemma clock_do_validation [frame]: "keeps in_ticks (do_validation env)"
  unfolding do_validation_def current_step_def by (intro frame) (simp_all add: keeps_modify)

lemma clock_setup [frame]: "keeps in_ticks (initialise env f)" "keeps in_ticks (build_global_mesh env ranks)"
    "keeps in_ticks (prepare_trainable_params env)" "keeps in_ticks (fetch_recv_insts env tr)" "keeps in_ticks (finish_p2r tr cnt)"
    "keeps in_ticks (finish_broadcast tr cnt)" "keeps in_ticks (advance_version w)" "keeps in_ticks (mark_validation env m w)"
  unfolding initialise_def build_global_mesh_def prepare_trainable_params_def fetch_recv_insts_def finish_p2r_def
    finish_broadcast_def advance_version_def mark_validation_def check_p2r_count_def check_r2r_count_def Let_def
  by (intro frame; simp add: keeps_modify)+

lemma clock_recv [frame]: "keeps in_ticks (recv_param_shards env tr p)" "keeps in_ticks (recv_params env tr ps)"
    "keeps in_ticks (recv_weight_shard env tr ps)" "keeps in_ticks (recv_groups env tr gs k c)"
proof -
  show p: "keeps in_ticks (recv_param_shards env tr p)" for p
    unfolding recv_param_shards_def by (intro frame)
  show ps: "keeps in_ticks (recv_params env tr ps)" for ps
    by (induction ps) (unfold recv_params.simps; intro frame p; assumption?)+
  show g: "keeps in_ticks (recv_weight_shard env tr ps)" for ps
    unfolding recv_weight_shard_def by (intro frame ps)
  show "keeps in_ticks (recv_groups env tr gs k c)"
    by (induction gs arbitrary: k c) (unfold recv_groups.simps; intro frame g; assumption?)+
qed

lemma clock_params [frame]: "keeps in_ticks (broadcast_params tr r names cnt)"
  by (induction names arbitrary: cnt) (unfold broadcast_params.simps; intro frame; assumption?)+

lemma clock_commands [frame]: "keeps in_ticks (policy_to_rollout_unicast env dst tr)"
    "keeps in_ticks (broadcast_to_all_rollout_replica env src dsts w n tr)"
  unfolding policy_to_rollout_unicast_def broadcast_to_all_rollout_replica_def broadcast_weights_def stop_worker_def
  by (intro frame; simp add: keeps_modify)+

lemma clock_execute [frame]: "keeps in_ticks (execute_command env c)"
  by (cases c) (simp_all add: execute_command_def, (intro frame)+)

lemma clock_one [frame]: "keeps in_ticks (consume_one_command env pred t)"
  unfolding consume_one_command_def by (intro frame; simp add: keeps_modify)

lemma wait_goes_on:
  assumes "consume_loop env pred timeout n start lc k s = Ok (Some c) t"
    and "list_all (\<lambda>x. lo \<le> tk_after x \<and> tk_now x < lo + timeout) (in_ticks s)" and "lo \<le> start"
  shows "\<not> is_p2r c"
  using assms
proof (induction n arbitrary: start lc k s)
  case (Suc n)
  obtain x u where x: "look s = Ok x u"
    and r: "(if tk_now x - start < timeout
     then bnd (consume_one_command env pred x) (\<lambda>cmd.
       let lc = (if cmd \<noteq> None then cmd else lc); k = (if cmd \<noteq> None then 0 else k + 1);
           start = (if cmd \<noteq> None then tk_after x else start) in
       if we_wait_times env \<le> k \<and> (case lc of None \<Rightarrow> True | Some c \<Rightarrow> \<not> is_p2r c) then ret lc
       else consume_loop env pred timeout n start lc k)
     else ret lc) u = Ok (Some c) t"
    using Suc.prems(1) by (auto simp: bnd_eq_Ok_iff)
  obtain xs where xs: "in_ticks s = x # xs" "in_ticks u = xs" using look_run [OF x] by blast
  then have time: "tk_now x - start < timeout" "lo \<le> tk_after x" using Suc.prems(2,3) by auto
  then obtain cmd v where v: "consume_one_command env pred x u = Ok cmd v"
    and r: "(let lc = (if cmd \<noteq> None then cmd else lc); k = (if cmd \<noteq> None then 0 else k + 1);
           start = (if cmd \<noteq> None then tk_after x else start) in
       if we_wait_times env \<le> k \<and> (case lc of None \<Rightarrow> True | Some c \<Rightarrow> \<not> is_p2r c) then ret lc
       else consume_loop env pred timeout n start lc k) v = Ok (Some c) t"
    using r by (auto simp: bnd_eq_Ok_iff)
  have "in_ticks v = xs" using keeps_Ok [OF clock_one v] xs(2) by simp
  then have "list_all (\<lambda>x. lo \<le> tk_after x \<and> tk_now x < lo + timeout) (in_ticks v)" using Suc.prems(2) xs(1) by simp
  then show ?case using r Suc.IH time(2) Suc.prems(3) by (fastforce simp: Let_def split: if_splits option.splits)
qed simp

text \<open>A wait for commands that sees the clock only before its time is over never returns with a transfer from
  the policy as the lc command: it goes on until the broadcast that must follow.\<close>

theorem p2r_waits_for_broadcast:
  assumes "consume_command env pred timeout s = Ok (Some c) t"
    and "list_all (\<lambda>x. lo \<le> tk_now x \<and> lo \<le> tk_after x \<and> tk_now x < lo + timeout) (in_ticks s)"
  shows "\<not> is_p2r c"
proof -
  obtain x u where x: "look s = Ok x u" and r: "consume_loop env pred timeout (length (in_ticks u)) (tk_now x) None 0 u = Ok (Some c) t"
    using assms(1) by (auto simp: consume_command_def bnd_eq_Ok_iff)
  obtain xs where xs: "in_ticks s = x # xs" "in_ticks u = xs" using look_run [OF x] by blast
  have "list_all (\<lambda>x. lo \<le> tk_after x \<and> tk_now x < lo + timeout) (in_ticks u)" using assms(2) xs by (auto simp: list_all_iff)
  then show ?thesis using wait_goes_on [OF r] assms(2) xs by auto
qed


definition sample_ticks :: "tick list" where
  "sample_ticks = [\<lparr>tk_now = 0, tk_arrived = [], tk_broadcast = None, tk_after = 0\<rparr>,
     \<lparr>tk_now = 1, tk_arrived = [PolicyToRolloutUnicast ''1'' ''p0'' ''r0'' 1 1 False False (Some 1) None],
       tk_broadcast = None, tk_after = 2\<rparr>,
     \<lparr>tk_now = 3, tk_arrived = [], tk_broadcast = None, tk_after = 3\<rparr>,
     \<lparr>tk_now = 4, tk_arrived = [RolloutToRolloutBroadcast ''2'' ''r0'' [''r0''] (Some 1) None False],
       tk_broadcast = None, tk_after = 5\<rparr>,
     \<lparr>tk_now = 6, tk_arrived = [BuildMesh ''3'' [(''r0'', 0)]], tk_broadcast = None, tk_after = 6\<rparr>]"

lemma sample_wait: "let r = consume_command sample_env None 60 (new_worker sample_ticks [] [] []) in
    returned r = Some (Some (RolloutToRolloutBroadcast ''2'' ''r0'' [''r0''] (Some 1) None False))
    \<and> wk_version (final r) = 1 \<and> length (in_ticks (final r)) = 1"
  by code_simp

theorem p2r_waits_for_broadcast_witness:
  "\<exists>c t. consume_command sample_env None 60 (new_worker sample_ticks [] [] []) = Ok (Some c) t \<and> \<not> is_p2r c"
proof -
  let ?s = "new_worker sample_ticks [] [] []"
  obtain c t where t: "consume_command sample_env None 60 ?s = Ok (Some c) t"
    using sample_wait by (cases "consume_command sample_env None 60 ?s") (auto simp: Let_def)
  have "list_all (\<lambda>x. 0 \<le> tk_now x \<and> 0 \<le> tk_after x \<and> tk_now x < 0 + 60) (in_ticks ?s)"
    by (simp add: new_worker_def sample_ticks_def)
  with p2r_waits_for_broadcast [OF t] t show ?thesis by blast
qed

text \<open>Without waiting times (the default) a wait returns after the first command that is not a transfer from the
  policy, whatever else is queued.\<close>

lemma one_command_per_wait:
  assumes "we_wait_times env \<le> 0" "consume_one_command env pred x u = Ok (Some c) v" "\<not> is_p2r c"
    and "look s = Ok x u" "tk_now x - start < timeout"
  shows "consume_loop env pred timeout (Suc n) start lc k s = Ok (Some c) v"
  using assms by (simp add: Let_def)

section \<open>Prompts\<close>

text \<open>The data-parallel ranks share out the prompts of a reply: together they get each exactly once, each the
  prompt at its rank and every \<open>n\<close>-th after it.\<close>

theorem prompts_shared_out:
  assumes "0 < we_dp_size env"
  shows "mset (concat (map (\<lambda>r. the (share_of (env\<lparr>we_dp_rank := r\<rparr>) (Some ps))) [0..<we_dp_size env])) = mset ps
    \<and> list_all (\<lambda>r. the (share_of (env\<lparr>we_dp_rank := r\<rparr>) (Some ps))
          = map (\<lambda>k. ps ! (r + k * we_dp_size env)) [0..<(length ps + we_dp_size env - 1 - r) div we_dp_size env])
        [0..<we_dp_size env]"
proof -
  let ?n = "we_dp_size env"
  have s: "the (share_of (env\<lparr>we_dp_rank := r\<rparr>) (Some ps)) = stride r ?n ps" if "r < ?n" for r
  proof (cases "1 < ?n")
    case False
    then have "?n = 1" "r = 0" using assms that by simp_all
    then show ?thesis by (simp add: share_of_def stride_map map_nth)
  qed (simp add: share_of_def)
  then have all: "map (\<lambda>r. the (share_of (env\<lparr>we_dp_rank := r\<rparr>) (Some ps))) [0..<?n] = map (\<lambda>r. stride r ?n ps) [0..<?n]" by simp
  show ?thesis unfolding all using s shares_all [OF assms] by (simp add: list_all_iff stride_map)
qed

theorem prompts_shared_out_witness:
  "let q = sample_payload\<lparr>pl_prompt_idx := 8\<rparr> in
   mset (concat (map (\<lambda>r. the (share_of (sample_env\<lparr>we_dp_size := 2, we_dp_rank := r\<rparr>) (Some [sample_payload, q, q]))) [0..<2]))
   = {#sample_payload, q, q#}"
  unfolding Let_def using prompts_shared_out [of "sample_env\<lparr>we_dp_size := 2\<rparr>"
      "[sample_payload, sample_payload\<lparr>pl_prompt_idx := 8\<rparr>, sample_payload\<lparr>pl_prompt_idx := 8\<rparr>]"] by simp


text \<open>With fewer prompts in a reply than data-parallel ranks, a rank beyond them queues an empty batch and its
  next generation step raises \<open>IndexError\<close>, looking for the first prompt of the batch.\<close>

theorem empty_share_stops_the_rank:
  assumes "we_global_rank env \<noteq> 0" "we_dp_rank env < we_dp_size env" "length ps \<le> we_dp_rank env" "ps \<noteq> []"
    and "in_replies s = (ps, False) # rs" "wk_prompts s = []" "\<not> prompt_consume_end (wk_state s)"
  shows "\<exists>t. fetch_step env s = Ok () t \<and> wk_prompts t = [[]] \<and> raised (generate_step env t) = Some IndexError"
proof -
  have "(length ps + we_dp_size env - 1 - we_dp_rank env) div we_dp_size env = 0"
    using assms(2,3) by (intro div_less) simp
  moreover have "1 < we_dp_size env" using assms(2-4) by (cases ps) auto
  ultimately have "share_of env (Some ps) = Some []" using assms(2) by (simp add: share_of_def stride_map)
  then show ?thesis using assms
    by (simp add: fetch_step_def request_new_prompts_def fetch_prompts_def next_in_def put_prompts_def emit_def generate_step_def)
qed

theorem empty_share_stops_the_rank_witness:
  "\<exists>t. fetch_step (sample_env\<lparr>we_global_rank := 1, we_dp_size := 2, we_dp_rank := 1\<rparr>)
      (new_worker [] [([sample_payload], False)] [] []) = Ok () t \<and> wk_prompts t = [[]]
    \<and> raised (generate_step (sample_env\<lparr>we_global_rank := 1, we_dp_size := 2, we_dp_rank := 1\<rparr>) t) = Some IndexError"
  by (rule empty_share_stops_the_rank [where ps = "[sample_payload]" and rs = "[]"])
    (simp_all add: new_worker_def prompt_consume_end_def)

section \<open>Filtering\<close>

text \<open>With multi-turn rollouts everything after the first conversation with an answer is kept, answered or not.\<close>

lemma conversations_kept: "valid_conversations flag cs = (if flag then cs else dropWhile (\<lambda>c. \<not> has_answer c) cs)"
  by (induction cs arbitrary: flag) (auto simp: Let_def)

lemma unanswered_conversation_kept:
  "has_answer c \<Longrightarrow> \<not> has_answer c' \<Longrightarrow> valid_conversations False [c, c'] = [c, c']"
  by (simp add: conversations_kept)

section \<open>Reports\<close>

text \<open>What an entry of the reward queue gives, and what is posted for it.\<close>

definition result_of :: "worker_env \<Rightarrow> reward_entry \<Rightarrow> error + payload list \<times> bool" where
  "result_of env e = (case e of Reward_Tuple ps v k \<Rightarrow> Inr (ps, v)
     | Reward_Future ps v k \<Rightarrow> ebind (we_compute env ps v k) (\<lambda>qs. Inr (qs, v)))"

definition post_of :: "worker_env \<Rightarrow> payload list \<Rightarrow> error + worker_event" where
  "post_of env ps = ebind (if we_dapo env then dynamic_sampling ps else Inr (ps, [])) (\<lambda>(kept, metadata).
     ebind (efold (\<lambda>p acc. ebind (outgoing env p) (\<lambda>q. Inr (acc @ [q]))) kept []) (\<lambda>qs. Inr (Rollouts_Posted qs metadata)))"

definition report_of :: "worker_env \<Rightarrow> reward_entry \<Rightarrow> error + worker_event" where
  "report_of env e = ebind (result_of env e) (\<lambda>(ps, v). if v then Inl AssertionError else post_of env ps)"

lemma post_run: "post_rollouts env ps s = Ok () t \<longleftrightarrow> (\<exists>ev. post_of env ps = Inr ev \<and> t = s\<lparr>wk_out := wk_out s @ [ev]\<rparr>)"
  by (auto simp: post_rollouts_def post_of_def ebind_def bnd_def lift_sum_def emit_run split: sum.splits prod.splits)

lemma dequeue_cases:
  assumes "dequeue_rewards_cal env s = Ok (ps, v, k, none_left) t"
  shows "wk_out t = wk_out s \<and> (if none_left then ps = None \<and> wk_rewards s = [] \<and> t = s
    else case ps of None \<Rightarrow> wk_rewards t = wk_rewards s \<and> report_fuel t < report_fuel s
      | Some qs \<Rightarrow> \<exists>e. wk_rewards s = e # wk_rewards t \<and> result_of env e = Inr (qs, v) \<and> report_fuel t < report_fuel s)"
  using assms by (auto simp: dequeue_rewards_cal_def report_fuel_def drop_reward_def next_in_def bnd_eq_Ok_iff lift_sum_def
      result_of_def ebind_def split: list.splits reward_entry.splits if_splits sum.splits)

lemma report_loop_order:
  "report_loop env blocking n s = Ok (None, v, k, none_left) t \<Longrightarrow> \<exists>m events.
     wk_out t = wk_out s @ events \<and> wk_rewards t = drop m (wk_rewards s)
     \<and> list_all2 (\<lambda>e ev. report_of env e = Inr ev) (take m (wk_rewards s)) events \<and> (\<not> blocking \<or> wk_rewards t = [])"
proof (induction n arbitrary: s)
  case (Suc n)
  obtain ps w i b u where u: "dequeue_rewards_cal env s = Ok (ps, w, i, b) u"
    and r: "(case ps of Some payloads \<Rightarrow> if w then ret (ps, w, i, b) else bnd (post_rollouts env payloads) (\<lambda>_. report_loop env blocking n)
     | None \<Rightarrow> if \<not> blocking \<or> b then ret (ps, w, i, b) else report_loop env blocking n) u = Ok (None, v, k, none_left) t"
    using Suc.prems by (auto simp: bnd_eq_Ok_iff)
  note d = dequeue_cases [OF u]
  show ?case
  proof (cases ps)
    case None
    then have same: "wk_out u = wk_out s" "wk_rewards u = wk_rewards s" using d by (auto split: if_splits)
    show ?thesis
    proof (cases "\<not> blocking \<or> b")
      case True
      then show ?thesis using None r d same by (intro exI [of _ 0] exI [of _ "[]"]) (auto split: if_splits)
    next
      case False
      then show ?thesis using Suc.IH [of u] None r same by simp
    qed
  next
    case (Some qs)
    then have w: "\<not> w" using r by (auto split: if_splits)
    with r Some obtain ev x where ev: "post_of env qs = Inr ev" and x: "x = u\<lparr>wk_out := wk_out u @ [ev]\<rparr>"
      "report_loop env blocking n x = Ok (None, v, k, none_left) t"
      by (auto simp: bnd_eq_Ok_iff post_run)
    obtain e where e: "wk_rewards s = e # wk_rewards u" "result_of env e = Inr (qs, w)" "wk_out u = wk_out s"
      using d Some by (auto split: if_splits)
    from Suc.IH [OF x(2)] obtain m events where i: "wk_out t = wk_out x @ events" "wk_rewards t = drop m (wk_rewards x)"
      "list_all2 (\<lambda>e ev. report_of env e = Inr ev) (take m (wk_rewards x)) events" "\<not> blocking \<or> wk_rewards t = []" by blast
    have "report_of env e = Inr ev" using e(2) w ev by (simp add: report_of_def)
    then show ?thesis using i e x(1) by (intro exI [of _ "Suc m"] exI [of _ "ev # events"]) simp
  qed
qed simp

text \<open>Reports leave in the order in which the results were queued: a call of \<open>report_rollouts\<close> that meets no
  validation result posts one report for each entry it takes off the front of the reward queue, and leaves
  the rest; a blocking call leaves nothing.\<close>

theorem reports_in_queue_order:
  assumes "report_rollouts env blocking s = Ok (None, v, k, none_left) t"
  shows "\<exists>m events. wk_out t = wk_out s @ events \<and> wk_rewards t = drop m (wk_rewards s)
    \<and> list_all2 (\<lambda>e ev. report_of env e = Inr ev) (take m (wk_rewards s)) events \<and> (\<not> blocking \<or> wk_rewards t = [])"
  using assms report_loop_order unfolding report_rollouts_def with_state_run by blast

text \<open>The fuel of a report suffices: every round takes an entry off the queue or looks at one that is pending.\<close>

lemma efold_no_error: "(\<And>x a. f x a \<noteq> Inl e) \<Longrightarrow> efold f xs a \<noteq> Inl e"
proof (induction xs arbitrary: a)
  case (Cons x xs)
  then show ?case by (cases "f x a") auto
qed simp

lemma post_has_fuel: "post_of env ps \<noteq> Inl OutOfFuel"
proof -
  have "dynamic_sampling ps \<noteq> Inl OutOfFuel"
    unfolding dynamic_sampling_def
    by (rule efold_no_error) (auto simp: sample_key_def opt_len_def ebind_def split: option.splits list.splits sum.splits if_splits)
  moreover have "efold (\<lambda>p acc. ebind (outgoing env p) (\<lambda>q. Inr (acc @ [q]))) qs [] \<noteq> Inl OutOfFuel" for qs
    by (rule efold_no_error) (auto simp: outgoing_def opt_len_def ebind_def Let_def split: option.splits sum.splits if_splits)
  ultimately show ?thesis by (auto simp: post_of_def ebind_def split: sum.splits if_splits prod.splits)
qed

lemma post_total: "post_rollouts env ps s = (case post_of env ps of Inl e \<Rightarrow> Raise e s | Inr ev \<Rightarrow> Ok () (s\<lparr>wk_out := wk_out s @ [ev]\<rparr>))"
  by (auto simp: post_rollouts_def post_of_def ebind_def bnd_def lift_sum_def emit_run split: sum.splits prod.splits)

lemma dequeue_has_fuel:
  "(\<And>ps v k. we_compute env ps v k \<noteq> Inl OutOfFuel) \<Longrightarrow> dequeue_rewards_cal env s \<noteq> Raise OutOfFuel t"
  by (auto simp: dequeue_rewards_cal_def drop_reward_def next_in_def bnd_def lift_sum_def
      split: list.splits reward_entry.splits sum.splits if_splits)

lemma report_fuel_enough:
  assumes compute: "\<And>ps v k. we_compute env ps v k \<noteq> Inl OutOfFuel"
  shows "report_fuel s \<le> n \<Longrightarrow> report_loop env blocking n s \<noteq> Raise OutOfFuel t"
proof (induction n arbitrary: s)
  case (Suc n)
  show ?case
  proof (cases "dequeue_rewards_cal env s")
    case (Raise e u)
    then show ?thesis using dequeue_has_fuel [OF compute] by (auto simp: bnd_def)
  next
    case (Ok d u)
    obtain ps v k b where d: "d = (ps, v, k, b)" by (cases d) auto
    note c = dequeue_cases [OF Ok [unfolded d]]
    show ?thesis
    proof (cases "ps = None \<and> (\<not> blocking \<or> b) \<or> ps \<noteq> None \<and> v")
      case True
      then show ?thesis using Ok d by (auto simp: bnd_def)
    next
      case False
      then have less: "report_fuel u \<le> n" using c Suc.prems by (auto split: if_splits option.splits)
      moreover have "report_fuel (u\<lparr>wk_out := out\<rparr>) = report_fuel u" for out by (simp add: report_fuel_def)
      ultimately show ?thesis using Suc.IH False Ok d post_has_fuel [of env]
        by (cases ps; auto simp: bnd_def post_total split: sum.splits)
    qed
  qed
qed (simp add: report_fuel_def)

theorem reports_in_queue_order_witness:
  "\<exists>t events. report_rollouts sample_env True (new_worker [] [] [] []\<lparr>wk_rewards := [Reward_Tuple [sample_payload] False 0]\<rparr>)
      = Ok (None, False, -1, True) t \<and> wk_out t = events
    \<and> list_all2 (\<lambda>e ev. report_of sample_env e = Inr ev) [Reward_Tuple [sample_payload] False 0] events"
proof -
  let ?s = "new_worker [] [] [] []\<lparr>wk_rewards := [Reward_Tuple [sample_payload] False 0]\<rparr>"
  have "returned (report_rollouts sample_env True ?s) = Some (None, False, -1, True)" by code_simp
  then obtain t where t: "report_rollouts sample_env True ?s = Ok (None, False, -1, True) t"
    by (cases "report_rollouts sample_env True ?s") auto
  from reports_in_queue_order [OF t] obtain m events where e: "wk_out t = wk_out ?s @ events"
      "wk_rewards t = drop m (wk_rewards ?s)" "wk_rewards t = []"
      "list_all2 (\<lambda>e ev. report_of sample_env e = Inr ev) (take m (wk_rewards ?s)) events" by blast
  from e(2,3) have "take m (wk_rewards ?s) = [Reward_Tuple [sample_payload] False 0]" by (simp add: drop_Cons' split: if_splits)
  with e(1,4) t show ?thesis by (auto simp: new_worker_def)
qed

end
