(* ===== verification/Policy_Worker.thy ===== *)
theory Policy_Worker
  imports Rollout_Transfers
begin

text \<open>A policy worker, \<open>RLPolicyWorker\<close> of src/cosmos\_rl/policy/worker/rl\_worker.py, one rank: it takes commands and
  rollouts that its background threads fetch, scatters the rollouts of a step over the data-parallel ranks,
  has the trainer train, acknowledges, and sends weights to rollout replicas by the plan. What arrives, and
  when, is a stream of looks in the state; the trainer's results, profiler and signals are streams, too. A
  read past the end of a stream is \<open>QueueBlocked\<close>: the rank waits. What it does is a history.\<close>

section \<open>Configuration and state\<close>

record policy_env =
  pe_name :: string
  pe_global_rank :: nat
  pe_world_size :: nat
  pe_dp_world_size :: nat
  pe_dp_rank_of :: "nat \<Rightarrow> nat"
  pe_master_rank :: bool
  pe_first_in_dp :: bool
  pe_colocated_separated :: bool
  pe_nccl_group_size :: int
  pe_send_insts :: "error + insts_group list"
  pe_trainable :: "string list"
  pe_mapped :: "string list option"
  pe_lora :: bool
  pe_resume :: bool
  pe_local_dataset :: bool
  pe_dispatch_as_rank_in_mesh :: bool
  pe_uncentralized :: bool
  pe_distillation :: bool
  pe_signal_handler :: bool
  pe_prompt_of :: "int \<Rightarrow> pyval"
  pe_conversation_of :: "int \<Rightarrow> conversation option"

text \<open>A look: the commands that have arrived since the last one, the answers to the requests for rollouts - a list of
  messages each, \<open>None\<close> for one that is no rollout -, and the mesh that the thread of the communicator has finished
  building meanwhile, if any.\<close>

record policy_tick =
  pt_commands :: "command list"
  pt_rollouts :: "rollout option list list"
  pt_mesh :: "(string, int) dict option"

datatype policy_event =
    Mesh_Pushed "(string, int) dict"
  | Command_Started command
  | States_Synced bool
  | Send_Group_Start
  | Send_Group_End
  | Sent string nat shard_info
  | Lora_Merged
  | Lora_Unmerged
  | Weights_Resumed
  | Resume_Posted
  | Profile_Started
  | Profile_Step
  | Rollout_Taken rollout
  | Scattered "rollout list list"
  | Teacher_Wanted string
  | Lr_Updated "int option"
  | Trained "rollout list" "int option" "int option" int bool bool
  | Ack_Posted "int option" "int option" bool metrics
  | Final_Wait
  | Shut_Down

record policy_worker =
  pw_ready :: bool
  pw_master :: bool
  pw_ranks :: "(string, int) dict"
  pw_fetching :: bool
  pw_buffer :: "command list"
  pw_commands :: "command list"
  pw_data :: "rollout list"
  pw_prefetch :: "string list"
  pw_shard :: "(string, nat) dict"
  pw_batch :: int
  pw_insts :: "insts_group list option"
  pw_synced :: "nat option"
  pw_signal_handled :: bool
  pw_out :: "policy_event list"
  pi_ticks :: "policy_tick list"
  pi_scatter :: "rollout list list"
  pi_prefetch :: "string list list"
  pi_trained :: "(error + metrics) list"
  pi_signals :: "bool list"
  pi_profiled :: "bool list"

definition new_policy :: "policy_tick list \<Rightarrow> rollout list list \<Rightarrow> string list list \<Rightarrow> (error + metrics) list \<Rightarrow>
    bool list \<Rightarrow> bool list \<Rightarrow> policy_worker" where
  "new_policy ticks scatter prefetch trained signals profiled = \<lparr>pw_ready = False, pw_master = True, pw_ranks = [],
     pw_fetching = True, pw_buffer = [], pw_commands = [], pw_data = [], pw_prefetch = [], pw_shard = [], pw_batch = 0,
     pw_insts = None, pw_synced = None, pw_signal_handled = False, pw_out = [], pi_ticks = ticks, pi_scatter = scatter,
     pi_prefetch = prefetch, pi_trained = trained, pi_signals = signals, pi_profiled = profiled\<rparr>"

type_synonym 'a pol = "(policy_worker, 'a) exec"

definition did :: "policy_event \<Rightarrow> unit pol" where
  "did e = modify (\<lambda>s. s\<lparr>pw_out := pw_out s @ [e]\<rparr>)"

definition read_in :: "(policy_worker \<Rightarrow> 'a list) \<Rightarrow> (('a list \<Rightarrow> 'a list) \<Rightarrow> policy_worker \<Rightarrow> policy_worker) \<Rightarrow> 'a pol" where
  "read_in sel upd = with_state (\<lambda>s. case sel s of [] \<Rightarrow> raise QueueBlocked
     | x # xs \<Rightarrow> bnd (modify (upd (\<lambda>_. xs))) (\<lambda>_. ret x))"

text \<open>\<open>try: m finally: fin\<close>.\<close>

definition try_finally :: "('s, 'a) exec \<Rightarrow> ('s, unit) exec \<Rightarrow> ('s, 'a) exec" where
  "try_finally m fin = (\<lambda>s. case m s of Ok a t \<Rightarrow> bnd fin (\<lambda>_. ret a) t | Raise e t \<Rightarrow> bnd fin (\<lambda>_. raise e) t)"

section \<open>What the background threads fetch\<close>

text \<open>A mesh goes to the communicator at once; the other commands are buffered. An exception ends the thread that
  fetches commands, and nothing else notices.\<close>

definition fetch_one :: "policy_env \<Rightarrow> command \<Rightarrow> unit pol" where
  "fetch_one env c = (case c of
       BuildMesh u ranks \<Rightarrow> (case dict_get ranks (pe_name env) of None \<Rightarrow> raise KeyError
         | Some r \<Rightarrow> bnd (modify (\<lambda>s. s\<lparr>pw_master := (r = 0)\<rparr>)) (\<lambda>_. did (Mesh_Pushed ranks)))
     | _ \<Rightarrow> modify (\<lambda>s. s\<lparr>pw_buffer := pw_buffer s @ [c]\<rparr>))"

definition fetch_command :: "policy_env \<Rightarrow> command list \<Rightarrow> unit pol" where
  "fetch_command env cs = with_state (\<lambda>s. guarded (pw_fetching s)
     (try_except (for_each cs (fetch_one env)) (\<lambda>e. modify (\<lambda>s. s\<lparr>pw_fetching := False\<rparr>))))"

text \<open>Only rank 0 fetches rollouts. The messages of one request are deserialised in one \<open>try\<close> block: one that cannot
  be loses them all.\<close>

definition deserialised :: "rollout option list \<Rightarrow> rollout list" where
  "deserialised messages = (if None \<in> set messages then [] else map the messages)"

definition fetch_policy_rollouts :: "policy_env \<Rightarrow> rollout option list list \<Rightarrow> unit pol" where
  "fetch_policy_rollouts env requests = (let rs = concat (map deserialised requests) in
     guarded (pe_global_rank env = 0) (modify (\<lambda>s. s\<lparr>pw_data := pw_data s @ rs,
       pw_prefetch := pw_prefetch s @ filter (\<lambda>u. u \<noteq> '''') (map ro_teacher_result_uuid rs)\<rparr>)))"

definition look_around :: "policy_env \<Rightarrow> unit pol" where
  "look_around env = bnd (read_in pi_ticks pi_ticks_update) (\<lambda>t.
     bnd (fetch_command env (pt_commands t)) (\<lambda>_.
     bnd (fetch_policy_rollouts env (pt_rollouts t)) (\<lambda>_.
     case pt_mesh t of None \<Rightarrow> ret () | Some ranks \<Rightarrow> modify (\<lambda>s. s\<lparr>pw_ranks := ranks\<rparr>))))"

section \<open>The rollouts of a step\<close>

text \<open>\<open>data_queue.get(block=True)\<close> looks until there is something.\<close>

primrec get_rollout :: "policy_env \<Rightarrow> nat \<Rightarrow> rollout pol" where
  "get_rollout env 0 = raise QueueBlocked"
| "get_rollout env (Suc n) = with_state (\<lambda>s. case pw_data s of
     r # rs \<Rightarrow> bnd (modify (\<lambda>s. s\<lparr>pw_data := rs\<rparr>)) (\<lambda>_. bnd (did (Rollout_Taken r)) (\<lambda>_. ret r))
   | [] \<Rightarrow> bnd (look_around env) (\<lambda>_. get_rollout env n))"

definition next_rollout :: "policy_env \<Rightarrow> rollout pol" where
  "next_rollout env = with_state (\<lambda>s. get_rollout env (Suc (Suc (length (pi_ticks s)))))"

text \<open>The uuids of teacher results are dealt to the data-parallel ranks as they come; the result is the next rank.\<close>

definition next_dp :: "policy_env \<Rightarrow> nat \<Rightarrow> nat" where
  "next_dp env i = (if pe_dp_world_size env \<le> i + 1 then 0 else i + 1)"

definition prefetch_one :: "policy_env \<Rightarrow> string \<Rightarrow> nat \<Rightarrow> nat pol" where
  "prefetch_one env uuid i =
     bnd (modify (\<lambda>s. s\<lparr>pw_prefetch := tl (pw_prefetch s), pw_shard := dict_set uuid i (pw_shard s)\<rparr>)) (\<lambda>_.
     ret (next_dp env i))"

primrec prefetch_all :: "policy_env \<Rightarrow> string list \<Rightarrow> nat \<Rightarrow> string list \<Rightarrow> (nat \<times> string list) pol" where
  "prefetch_all env [] i own = ret (i, own)"
| "prefetch_all env (u # us) i own =
     bnd (prefetch_one env u i) (\<lambda>j. prefetch_all env us j (if i = 0 then own @ [u] else own))"

definition wanted :: "policy_env \<Rightarrow> string list \<Rightarrow> unit pol" where
  "wanted env uuids = guarded (pe_first_in_dp env) (for_each uuids (\<lambda>u. did (Teacher_Wanted u)))"

definition prepare_teacher_uuids_for_prefetch :: "policy_env \<Rightarrow> nat \<Rightarrow> nat \<Rightarrow> nat pol" where
  "prepare_teacher_uuids_for_prefetch env prefetch_dp_id batch =
     (if \<not> pe_distillation env then ret prefetch_dp_id
      else if pe_global_rank env = 0
      then with_state (\<lambda>s. bnd (prefetch_all env (pw_prefetch s) prefetch_dp_id []) (\<lambda>(i, own).
             bnd (wanted env own) (\<lambda>_. ret i)))
      else bnd (guarded (1 < pe_dp_world_size env)
             (for_each [0..<batch] (\<lambda>_. bnd (read_in pi_prefetch pi_prefetch_update) (wanted env))))
             (\<lambda>_. ret prefetch_dp_id))"

definition check_teacher :: "rollout \<Rightarrow> nat \<Rightarrow> unit pol" where
  "check_teacher r dp_id = (let u = ro_teacher_result_uuid r in guarded (u \<noteq> '''') (with_state (\<lambda>s.
     bnd (modify (\<lambda>s. s\<lparr>pw_shard := dict_pop u (pw_shard s)\<rparr>)) (\<lambda>_. py_assert (dict_get (pw_shard s) u = Some dp_id)))))"

text \<open>Every rank of the data-parallel rank whose turn it is gets the rollout.\<close>

definition deal :: "policy_env \<Rightarrow> rollout \<Rightarrow> nat \<Rightarrow> rollout list list \<Rightarrow> rollout list list" where
  "deal env r dp_id scattered =
     map (\<lambda>i. if pe_dp_rank_of env i = dp_id then scattered ! i @ [r] else scattered ! i) [0..<length scattered]"

primrec scatter_loop :: "policy_env \<Rightarrow> nat \<Rightarrow> nat \<Rightarrow> nat \<Rightarrow> nat \<Rightarrow> rollout list list \<Rightarrow> rollout list list pol" where
  "scatter_loop env batch 0 dp_id prefetch_dp_id scattered = ret scattered"
| "scatter_loop env batch (Suc n) dp_id prefetch_dp_id scattered =
     bnd (next_rollout env) (\<lambda>r.
     bnd (prepare_teacher_uuids_for_prefetch env prefetch_dp_id batch) (\<lambda>prefetch_dp_id.
     bnd (check_teacher r dp_id) (\<lambda>_.
     scatter_loop env batch n (next_dp env dp_id) prefetch_dp_id (deal env r dp_id scattered))))"

definition check_rank_of_prompt :: "policy_env \<Rightarrow> rollout \<Rightarrow> unit pol" where
  "check_rank_of_prompt env r = with_state (\<lambda>s.
     bnd (check ZeroDivisionError (pw_ranks s \<noteq> [])) (\<lambda>_.
     case dict_get (pw_ranks s) (pe_name env) of None \<Rightarrow> raise KeyError
     | Some k \<Rightarrow> py_assert (ro_prompt_idx r mod int (length (pw_ranks s)) = k)))"

definition local_rollout :: "policy_env \<Rightarrow> rollout \<Rightarrow> rollout" where
  "local_rollout env r = (if pe_local_dataset env
     then r\<lparr>ro_prompt := pe_prompt_of env (ro_prompt_idx r), ro_conversation := pe_conversation_of env (ro_prompt_idx r)\<rparr> else r)"

definition preprocess_rollouts :: "policy_env \<Rightarrow> rollout list \<Rightarrow> rollout list pol" where
  "preprocess_rollouts env rs = bnd (py_assert (list_all (\<lambda>r. 0 \<le> ro_prompt_idx r) rs)) (\<lambda>_.
     bnd (guarded (pe_local_dataset env \<and> pe_dispatch_as_rank_in_mesh env) (for_each rs (check_rank_of_prompt env))) (\<lambda>_.
     ret (map (local_rollout env) rs)))"

primrec take_rollouts :: "policy_env \<Rightarrow> nat \<Rightarrow> rollout list \<Rightarrow> rollout list pol" where
  "take_rollouts env 0 acc = ret acc"
| "take_rollouts env (Suc n) acc = bnd (next_rollout env) (\<lambda>r. take_rollouts env n (acc @ [r]))"

definition batch_size :: "policy_env \<Rightarrow> int \<Rightarrow> error + nat" where
  "batch_size env items = ensure ZeroDivisionError (pe_dp_world_size env \<noteq> 0)
     (let dp = int (pe_dp_world_size env) in Inr (nat (items div dp * dp)))"

definition scatter_batch :: "policy_env \<Rightarrow> nat \<Rightarrow> rollout list pol" where
  "scatter_batch env batch =
     bnd (if pe_global_rank env = 0
          then scatter_loop env batch batch 0 0 (replicate (pe_world_size env) [])
          else bnd (prepare_teacher_uuids_for_prefetch env 0 batch) (\<lambda>_. ret [])) (\<lambda>scattered.
     bnd (if pe_world_size env = 1 then (case scattered of [] \<Rightarrow> raise IndexError | x # _ \<Rightarrow> ret x)
          else if pe_global_rank env = 0 then bnd (did (Scattered scattered)) (\<lambda>_. ret (scattered ! 0))
          else read_in pi_scatter pi_scatter_update) (preprocess_rollouts env))"

definition dispatch_step_rollouts :: "policy_env \<Rightarrow> rollout list pol" where
  "dispatch_step_rollouts env = with_state (\<lambda>s. bnd (lift_sum (batch_size env (pw_batch s))) (\<lambda>batch.
     if pe_uncentralized env
     then bnd (take_rollouts env (batch div pe_dp_world_size env) []) (preprocess_rollouts env)
     else scatter_batch env batch))"

section \<open>Commands\<close>

definition execute_policy_to_policy_broadcast :: "policy_env \<Rightarrow> string \<Rightarrow> string list \<Rightarrow> bool pol" where
  "execute_policy_to_policy_broadcast env src dsts =
     (let send = (pe_name env = src); recv = (pe_name env \<in> set dsts \<and> \<not> send) in
      if \<not> send \<and> \<not> recv then ret True
      else bnd (did (States_Synced send)) (\<lambda>_.
        bnd (guarded recv (modify (\<lambda>s. s\<lparr>pw_ready := True\<rparr>))) (\<lambda>_. ret False)))"

definition execute_policy_to_policy_unicast :: "policy_env \<Rightarrow> string \<Rightarrow> string \<Rightarrow> bool pol" where
  "execute_policy_to_policy_unicast env src dst =
     (let send = (pe_name env = src); recv = (pe_name env = dst) in
      if \<not> send \<and> \<not> recv then ret False
      else bnd (did (States_Synced send)) (\<lambda>_.
        bnd (guarded recv (modify (\<lambda>s. s\<lparr>pw_ready := True\<rparr>))) (\<lambda>_. ret False)))"

subsection \<open>Weights to a rollout replica\<close>

text \<open>What is to be sent: parameter, rank, slice.\<close>

type_synonym send_op = "string \<times> nat \<times> shard_info"

definition grouped_sends :: "policy_env \<Rightarrow> bool" where
  "grouped_sends env \<longleftrightarrow> \<not> pe_colocated_separated env \<and> 0 < pe_nccl_group_size env"

definition grouped_send :: "policy_env \<Rightarrow> send_op list \<Rightarrow> unit pol" where
  "grouped_send env ops = block [guarded (grouped_sends env) (did Send_Group_Start),
     for_each ops (\<lambda>(n, r, sl). did (Sent n r sl)), guarded (grouped_sends env) (did Send_Group_End)]"

definition ops_of_param :: "policy_env \<Rightarrow> bool \<Rightarrow> param_insts \<Rightarrow> error + send_op list" where
  "ops_of_param env trainable_only p =
     (if pi_param_name p \<notin> set (pe_trainable env) \<and> trainable_only then Inr []
      else emap (\<lambda>inst. ensure RuntimeError (pi_param_name p \<in> set (the (pe_mapped env)))
        (ensure AssertionError (pe_global_rank env = si_policy_rank inst)
          (Inr (pi_param_name p, si_rollout_rank inst, si_slice_strategy inst)))) (pi_instructions p))"

definition ops_of_group :: "policy_env \<Rightarrow> bool \<Rightarrow> insts_group \<Rightarrow> error + send_op list" where
  "ops_of_group env trainable_only g = ebind (emap (ops_of_param env trainable_only) g) (\<lambda>opss. Inr (concat opss))"

definition sent_params :: "policy_env \<Rightarrow> bool \<Rightarrow> insts_group \<Rightarrow> nat" where
  "sent_params env trainable_only g =
     length (filter (\<lambda>p. \<not> (pi_param_name p \<notin> set (pe_trainable env) \<and> trainable_only)) g)"

primrec send_groups :: "policy_env \<Rightarrow> bool \<Rightarrow> insts_group list \<Rightarrow> send_op list \<Rightarrow> int \<Rightarrow> nat \<Rightarrow> nat pol" where
  "send_groups env trainable_only [] ops num cnt = bnd (grouped_send env ops) (\<lambda>_. ret cnt)"
| "send_groups env trainable_only (g # gs) ops num cnt =
     bnd (lift_sum (ops_of_group env trainable_only g)) (\<lambda>more_ops.
     if pe_nccl_group_size env \<le> num + 1
     then bnd (grouped_send env (ops @ more_ops)) (\<lambda>_.
       send_groups env trainable_only gs [] 0 (cnt + sent_params env trainable_only g))
     else send_groups env trainable_only gs (ops @ more_ops) (num + 1) (cnt + sent_params env trainable_only g))"

text \<open>The instructions are asked for once; they are the empty list while the request is under way.\<close>

definition fetch_send_insts :: "policy_env \<Rightarrow> insts_group list pol" where
  "fetch_send_insts env = with_state (\<lambda>s. case pw_insts s of Some insts \<Rightarrow> ret insts
     | None \<Rightarrow> bnd (modify (\<lambda>s. s\<lparr>pw_insts := Some []\<rparr>)) (\<lambda>_.
         bnd (lift_sum (pe_send_insts env)) (\<lambda>insts.
         bnd (modify (\<lambda>s. s\<lparr>pw_insts := Some insts\<rparr>)) (\<lambda>_. ret insts))))"

definition check_synced :: "nat \<Rightarrow> unit pol" where
  "check_synced cnt = with_state (\<lambda>s. case pw_synced s of None \<Rightarrow> modify (\<lambda>s. s\<lparr>pw_synced := Some cnt\<rparr>)
     | Some c \<Rightarrow> py_assert (c = cnt))"

definition send_weights :: "policy_env \<Rightarrow> bool \<Rightarrow> insts_group list \<Rightarrow> nat pol" where
  "send_weights env trainable_only insts =
     try_finally (bnd (guarded (pe_lora env) (did Lora_Merged)) (\<lambda>_. send_groups env trainable_only insts [] 0 0))
       (guarded (pe_lora env) (did Lora_Unmerged))"

definition execute_policy_to_rollout_unicast :: "policy_env \<Rightarrow> string \<Rightarrow> int \<Rightarrow> bool \<Rightarrow> bool pol" where
  "execute_policy_to_rollout_unicast env src src_size trainable_only =
     bnd (py_assert (src_size = int (pe_world_size env))) (\<lambda>_.
     if src \<noteq> pe_name env then ret False
     else bnd (py_assert (pe_mapped env \<noteq> None)) (\<lambda>_.
       bnd (fetch_send_insts env) (\<lambda>insts.
       bnd (send_weights env trainable_only insts) (\<lambda>cnt.
       bnd (guarded trainable_only (check_synced cnt)) (\<lambda>_. ret False)))))"

subsection \<open>Training\<close>

definition execute_weight_resume :: "policy_env \<Rightarrow> bool pol" where
  "execute_weight_resume env = bnd (did Weights_Resumed) (\<lambda>_.
     bnd (guarded (pe_resume env) (did Resume_Posted)) (\<lambda>_. ret False))"

text \<open>A signal makes the next step save a checkpoint, once.\<close>

definition saves_checkpoint :: "policy_env \<Rightarrow> bool \<Rightarrow> bool pol" where
  "saves_checkpoint env do_save =
     (if \<not> pe_signal_handler env then ret do_save
      else bnd (read_in pi_signals pi_signals_update) (\<lambda>received. with_state (\<lambda>s.
        if received \<and> \<not> pw_signal_handled s
        then bnd (modify (\<lambda>s. s\<lparr>pw_signal_handled := True\<rparr>)) (\<lambda>_. ret True) else ret do_save)))"

text \<open>The trainer is given the rollouts, the step, the total of steps, the samples that remain, whether to save a
  checkpoint, and whether this replica is the master.\<close>

definition train_step :: "policy_env \<Rightarrow> bool \<Rightarrow> int option \<Rightarrow> int option \<Rightarrow> int \<Rightarrow> metrics pol" where
  "train_step env do_save global_step total_steps remain_samples_num =
     bnd (saves_checkpoint env do_save) (\<lambda>save.
     bnd (did (Lr_Updated total_steps)) (\<lambda>_.
     bnd (dispatch_step_rollouts env) (\<lambda>rs. with_state (\<lambda>s.
     bnd (did (Trained rs global_step total_steps remain_samples_num save (pw_master s))) (\<lambda>_.
     bnd (read_in pi_trained pi_trained_update) lift_sum)))))"

definition execute_data_fetch :: "policy_env \<Rightarrow> command \<Rightarrow> bool pol" where
  "execute_data_fetch env c =
     bnd (guarded (df_do_profile c = Some True) (did Profile_Started)) (\<lambda>_.
     bnd (py_assert (pe_name env = df_replica_name c)) (\<lambda>_.
     bnd (modify (\<lambda>s. s\<lparr>pw_batch := df_items_count c\<rparr>)) (\<lambda>_.
     bnd (if df_items_count c = 0 then ret []
          else train_step env (df_do_save c) (df_global_step c) (df_total_steps c) (df_remain_samples_num c)) (\<lambda>report.
     bnd (did Profile_Step) (\<lambda>_.
     bnd (guarded (pe_master_rank env) (bnd (read_in pi_profiled pi_profiled_update) (\<lambda>finished.
       did (Ack_Posted (df_global_step c) (df_total_steps c) finished report)))) (\<lambda>_.
     ret (data_fetch_should_stop c)))))))"

section \<open>The main loop\<close>

definition execute_policy_command :: "policy_env \<Rightarrow> command \<Rightarrow> bool pol" where
  "execute_policy_command env c = bnd (did (Command_Started c)) (\<lambda>_. case c of
     PolicyToPolicyBroadcast u src dsts t \<Rightarrow> execute_policy_to_policy_broadcast env src dsts
   | PolicyToPolicyUnicast u src dst t \<Rightarrow> execute_policy_to_policy_unicast env src dst
   | PolicyToRolloutUnicast u src dst ss ds chk trainable_only w t \<Rightarrow> execute_policy_to_rollout_unicast env src ss trainable_only
   | WeightResume u name \<Rightarrow> execute_weight_resume env
   | DataFetch u name items global_step total_steps remain save prof act filt shp mem stk mods \<Rightarrow> execute_data_fetch env c
   | _ \<Rightarrow> raise GenericException)"

definition broadcast_command :: "policy_env \<Rightarrow> unit pol" where
  "broadcast_command env = bnd (look_around env) (\<lambda>_.
     modify (\<lambda>s. s\<lparr>pw_commands := pw_commands s @ pw_buffer s, pw_buffer := []\<rparr>))"

primrec run_commands :: "policy_env \<Rightarrow> nat \<Rightarrow> bool \<Rightarrow> bool pol" where
  "run_commands env 0 abort = ret abort"
| "run_commands env (Suc n) abort = with_state (\<lambda>s. case pw_commands s of [] \<Rightarrow> ret abort
     | c # cs \<Rightarrow> bnd (modify (\<lambda>s. s\<lparr>pw_commands := cs\<rparr>)) (\<lambda>_.
         bnd (execute_policy_command env c) (\<lambda>stop. run_commands env n (stop \<or> abort))))"

definition policy_round :: "policy_env \<Rightarrow> bool \<Rightarrow> bool pol" where
  "policy_round env abort = bnd (guarded abort (did Final_Wait)) (\<lambda>_.
     bnd (broadcast_command env) (\<lambda>_.
     with_state (\<lambda>s. run_commands env (length (pw_commands s)) abort)))"

text \<open>At most \<open>n\<close> rounds; the result says whether the loop has ended.\<close>

primrec policy_loop :: "policy_env \<Rightarrow> nat \<Rightarrow> bool \<Rightarrow> bool pol" where
  "policy_loop env 0 abort = ret False"
| "policy_loop env (Suc n) abort = bnd (policy_round env abort) (\<lambda>next.
     if abort then bnd (did Shut_Down) (\<lambda>_. ret True) else policy_loop env n next)"

end
