(* ===== verification/Weight_Delivery.thy ===== *)
theory Weight_Delivery
  imports Policy_Worker
begin

text \<open>The weights on their way from a policy rank to a rollout rank. A policy rank sends exactly the slices of
  the plan it holds; and when both handlers return, what the one sent to the other is, slice by slice, what the
  other received from it: the same parameters in the same order, and the same part of each.\<close>

section \<open>What a policy rank sends\<close>

definition sends_of :: "policy_event list \<Rightarrow> send_op list" where
  "sends_of out = concat (map (\<lambda>e. case e of Sent n r sl \<Rightarrow> [(n, r, sl)] | _ \<Rightarrow> []) out)"

fun send_nested :: "bool \<Rightarrow> policy_event list \<Rightarrow> bool" where
  "send_nested opened [] = (\<not> opened)"
| "send_nested opened (Send_Group_Start # es) = (\<not> opened \<and> send_nested True es)"
| "send_nested opened (Send_Group_End # es) = (opened \<and> send_nested False es)"
| "send_nested opened (Sent n r sl # es) = (opened \<and> send_nested opened es)"
| "send_nested opened (_ # es) = send_nested opened es"

definition goes :: "policy_env \<Rightarrow> bool \<Rightarrow> string \<Rightarrow> bool" where
  "goes env trainable_only n \<longleftrightarrow> n \<in> set (pe_trainable env) \<or> \<not> trainable_only"

definition planned_sends :: "policy_env \<Rightarrow> bool \<Rightarrow> insts_group list \<Rightarrow> send_op list" where
  "planned_sends env trainable_only insts =
     map (\<lambda>(n, i). (n, si_rollout_rank i, si_slice_strategy i)) (filter (\<lambda>(n, i). goes env trainable_only n) (in_order insts))"

lemma did_run: "did e s = Ok () (s\<lparr>pw_out := pw_out s @ [e]\<rparr>)"
  by (simp add: did_def)

lemma sends_simps [simp]: "sends_of [] = []" "sends_of (a @ b) = sends_of a @ sends_of b"
    "sends_of (Send_Group_Start # es) = sends_of es" "sends_of (Send_Group_End # es) = sends_of es"
    "sends_of (Lora_Merged # es) = sends_of es" "sends_of (Lora_Unmerged # es) = sends_of es"
    "sends_of (Sent n r sl # es) = (n, r, sl) # sends_of es"
  by (simp_all add: sends_of_def)

definition send_events :: "policy_env \<Rightarrow> send_op list \<Rightarrow> policy_event list" where
  "send_events env ops = (if grouped_sends env then [Send_Group_Start] else []) @ map (\<lambda>(n, r, sl). Sent n r sl) ops
     @ (if grouped_sends env then [Send_Group_End] else [])"

lemma send_each: "for_each ops (\<lambda>(n, r, sl). did (Sent n r sl)) s
    = Ok () (s\<lparr>pw_out := pw_out s @ map (\<lambda>(n, r, sl). Sent n r sl) ops\<rparr>)"
  by (induction ops arbitrary: s) (auto simp: did_run)

lemma grouped_send_run: "grouped_send env ops s = Ok () (s\<lparr>pw_out := pw_out s @ send_events env ops\<rparr>)"
  by (simp add: grouped_send_def did_run send_each send_events_def)

lemma sends_events: "sends_of (send_events env ops) = ops"
proof -
  have "sends_of (map (\<lambda>(n, r, sl). Sent n r sl) ops) = ops" by (induction ops) auto
  then show ?thesis by (simp add: send_events_def)
qed

lemma nested_events: "grouped_sends env \<Longrightarrow> send_nested False (send_events env ops @ es) = send_nested False es"
proof -
  have "send_nested True (map (\<lambda>(n, r, sl). Sent n r sl) ops @ es) = send_nested True es" for es
    by (induction ops) auto
  then show "grouped_sends env \<Longrightarrow> ?thesis" by (simp add: send_events_def)
qed

text \<open>The operations of a parameter and of a group, with the checks that they pass.\<close>

definition ours :: "policy_env \<Rightarrow> bool \<Rightarrow> insts_group list \<Rightarrow> bool" where
  "ours env trainable_only insts \<longleftrightarrow>
     (\<forall>(n, i) \<in> set (in_order insts). goes env trainable_only n \<longrightarrow> si_policy_rank i = pe_global_rank env)"

lemma planned_sends_simps: "planned_sends env tr [] = []"
    "planned_sends env tr (a @ b) = planned_sends env tr a @ planned_sends env tr b"
    "planned_sends env tr [[]] = []"
    "planned_sends env tr [p # g] = (if goes env tr (pi_param_name p)
       then map (\<lambda>i. (pi_param_name p, si_rollout_rank i, si_slice_strategy i)) (pi_instructions p) else []) @ planned_sends env tr [g]"
  by (simp_all add: planned_sends_def in_order_def filter_map comp_def)

lemma ours_simps: "ours env tr []" "ours env tr (a @ b) \<longleftrightarrow> ours env tr a \<and> ours env tr b" "ours env tr [[]]"
    "ours env tr [p # g] \<longleftrightarrow> (goes env tr (pi_param_name p) \<longrightarrow>
       (\<forall>i \<in> set (pi_instructions p). si_policy_rank i = pe_global_rank env)) \<and> ours env tr [g]"
proof -
  have "in_order [p # g] = map (Pair (pi_param_name p)) (pi_instructions p) @ in_order [g]" by (simp add: in_order_def)
  then show "ours env tr [p # g] \<longleftrightarrow> (goes env tr (pi_param_name p) \<longrightarrow>
       (\<forall>i \<in> set (pi_instructions p). si_policy_rank i = pe_global_rank env)) \<and> ours env tr [g]"
    by (simp add: ours_def ball_Un)
qed (simp_all add: ours_def in_order_simps ball_Un)

lemma ops_of_param_run:
  assumes "ops_of_param env tr p = Inr ops"
  shows "ops = (if goes env tr (pi_param_name p)
      then map (\<lambda>i. (pi_param_name p, si_rollout_rank i, si_slice_strategy i)) (pi_instructions p) else [])
    \<and> (goes env tr (pi_param_name p) \<longrightarrow> (\<forall>i \<in> set (pi_instructions p). si_policy_rank i = pe_global_rank env))"
proof (cases "goes env tr (pi_param_name p)")
  case True
  then have "list_all2 (\<lambda>i op. pe_global_rank env = si_policy_rank i \<and> (pi_param_name p, si_rollout_rank i, si_slice_strategy i) = op)
      (pi_instructions p) ops"
    using assms by (auto simp: ops_of_param_def goes_def emap_Inr_iff ensure_Inr_iff elim: list_all2_mono split: if_splits)
  then show ?thesis using True by (auto simp: list_all2_conv_all_nth in_set_conv_nth intro: nth_equalityI)
qed (use assms in \<open>simp add: ops_of_param_def goes_def\<close>)

lemma ops_of_group_run: "ops_of_group env tr g = Inr ops \<Longrightarrow> ops = planned_sends env tr [g] \<and> ours env tr [g]"
proof -
  assume "ops_of_group env tr g = Inr ops"
  then obtain opss where "list_all2 (\<lambda>p ops. ops_of_param env tr p = Inr ops) g opss" "ops = concat opss"
    by (auto simp: ops_of_group_def ebind_Inr_iff emap_Inr_iff)
  then show ?thesis
    by (induction g opss arbitrary: ops rule: list_all2_induct)
      (use ops_of_param_run in \<open>auto simp: planned_sends_simps ours_simps\<close>)
qed

lemma send_groups_run:
  "send_groups env tr gs ops num cnt s = Ok n t \<Longrightarrow> \<exists>es. t = s\<lparr>pw_out := pw_out s @ es\<rparr>
     \<and> sends_of es = ops @ planned_sends env tr gs \<and> ours env tr gs \<and> (grouped_sends env \<longrightarrow> send_nested False es)
     \<and> n = cnt + sum_list (map (sent_params env tr) gs)"
proof (induction gs arbitrary: ops num cnt s)
  case Nil
  then show ?case using nested_events [of env ops "[]"]
    by (auto simp: grouped_send_run sends_events planned_sends_simps ours_simps)
next
  case (Cons g gs)
  then obtain new where new: "ops_of_group env tr g = Inr new" by (auto simp: bnd_eq_Ok_iff lift_sum_def split: sum.splits)
  note g = ops_of_group_run [OF new]
  let ?cnt = "cnt + sent_params env tr g"
  have gs: "planned_sends env tr (g # gs) = new @ planned_sends env tr gs" "ours env tr (g # gs) = ours env tr gs"
    using g planned_sends_simps(2) [of env tr "[g]" gs] ours_simps(2) [of env tr "[g]" gs] by simp_all
  show ?case
  proof (cases "pe_nccl_group_size env \<le> num + 1")
    case True
    let ?u = "s\<lparr>pw_out := pw_out s @ send_events env (ops @ new)\<rparr>"
    have "send_groups env tr gs [] 0 ?cnt ?u = Ok n t" using Cons.prems True new by (simp add: grouped_send_run)
    from Cons.IH [OF this] obtain es where es: "t = ?u\<lparr>pw_out := pw_out ?u @ es\<rparr>" "sends_of es = [] @ planned_sends env tr gs"
      "ours env tr gs" "grouped_sends env \<longrightarrow> send_nested False es" "n = ?cnt + sum_list (map (sent_params env tr) gs)"
      by (elim exE conjE) rule
    then show ?thesis using nested_events [of env "ops @ new" es] gs
      by (intro exI [of _ "send_events env (ops @ new) @ es"]) (simp add: sends_events)
  next
    case False
    then have "send_groups env tr gs (ops @ new) (num + 1) ?cnt s = Ok n t" using Cons.prems new by simp
    from Cons.IH [OF this] show ?thesis unfolding gs by (simp add: add.assoc)
  qed
qed

section \<open>The handler\<close>

definition insts_to_send :: "policy_env \<Rightarrow> policy_worker \<Rightarrow> error + insts_group list" where
  "insts_to_send env s = (case pw_insts s of Some insts \<Rightarrow> Inr insts | None \<Rightarrow> pe_send_insts env)"

lemma finally_Ok: "try_finally m fin s = Ok a t \<longleftrightarrow> (\<exists>u. m s = Ok a u \<and> fin u = Ok () t)"
  by (auto simp: try_finally_def bnd_def split: outcome.splits)

definition between_merges :: "policy_env \<Rightarrow> policy_event list \<Rightarrow> policy_event list" where
  "between_merges env es = (if pe_lora env then [Lora_Merged] @ es @ [Lora_Unmerged] else es)"

lemma send_weights_run:
  assumes "send_weights env tr insts s = Ok n t"
  shows "\<exists>es. t = s\<lparr>pw_out := pw_out s @ between_merges env es\<rparr> \<and> sends_of es = planned_sends env tr insts \<and> ours env tr insts
     \<and> (grouped_sends env \<longrightarrow> send_nested False es) \<and> n = sum_list (map (sent_params env tr) insts)"
proof -
  let ?m = "if pe_lora env then [Lora_Merged] else []"
  obtain u where u: "send_groups env tr insts [] 0 0 (s\<lparr>pw_out := pw_out s @ ?m\<rparr>) = Ok n u"
    "t = (if pe_lora env then u\<lparr>pw_out := pw_out u @ [Lora_Unmerged]\<rparr> else u)"
    using assms by (auto simp: send_weights_def finally_Ok bnd_eq_Ok_iff did_run split: if_splits)
  from send_groups_run [OF u(1)] u(2) show ?thesis by (auto simp: between_merges_def)
qed

lemma fetch_send_run:
  "fetch_send_insts env s = Ok insts t \<Longrightarrow> insts_to_send env s = Inr insts \<and> t = s\<lparr>pw_insts := Some insts\<rparr>"
  by (auto simp: fetch_send_insts_def insts_to_send_def bnd_eq_Ok_iff lift_sum_def split: option.splits sum.splits)

lemma p2r_send_run:
  assumes "execute_policy_to_rollout_unicast env (pe_name env) world tr s = Ok stop t"
  shows "\<exists>insts es. insts_to_send env s = Inr insts \<and> pw_insts t = Some insts \<and> pw_out t = pw_out s @ between_merges env es
    \<and> sends_of es = planned_sends env tr insts \<and> ours env tr insts \<and> (grouped_sends env \<longrightarrow> send_nested False es)
    \<and> \<not> stop \<and> (tr \<longrightarrow> pw_synced t = Some (sum_list (map (sent_params env tr) insts)))"
proof -
  obtain insts u cnt v where u: "fetch_send_insts env s = Ok insts u" and v: "send_weights env tr insts u = Ok cnt v"
    and w: "bnd (guarded tr (check_synced cnt)) (\<lambda>_. ret False) v = Ok stop t"
    using assms by (auto simp: execute_policy_to_rollout_unicast_def bnd_eq_Ok_iff split: if_splits)
  have "pw_out t = pw_out v \<and> pw_insts t = pw_insts v \<and> \<not> stop \<and> (tr \<longrightarrow> pw_synced t = Some cnt)"
    using w by (auto simp: check_synced_def bnd_eq_Ok_iff split: if_splits option.splits)
  with send_weights_run [OF v] fetch_send_run [OF u] show ?thesis by auto
qed


text \<open>A policy rank that carries out a transfer to a rollout replica has sent exactly the slices of the plan it
  holds, in the plan's order, leaving out only the untrainable parameters of a transfer of trainable ones; all of
  them are its own to send; with grouping on every slice is sent inside an NCCL group and the groups are closed
  again; with LoRA all of it happens between merging the adapters and unmerging them.\<close>

theorem p2r_sends_plan:
  assumes "execute_policy_to_rollout_unicast env (pe_name env) world tr s = Ok stop t"
  shows "\<exists>insts es. insts_to_send env s = Inr insts \<and> pw_insts t = Some insts \<and> pw_out t = pw_out s @ between_merges env es
    \<and> sends_of es = planned_sends env tr insts \<and> ours env tr insts \<and> (\<not> grouped_sends env \<or> send_nested False es) \<and> \<not> stop"
  using p2r_send_run [OF assms] by blast

subsection \<open>However a transfer ends, the adapters are unmerged\<close>

definition lora_balance :: "policy_worker \<Rightarrow> int" where
  "lora_balance s = int (count_list (pw_out s) Lora_Merged) - int (count_list (pw_out s) Lora_Unmerged)"

lemma balance_sends [frame]: "keeps lora_balance (lift_sum r)" "keeps lora_balance (grouped_send env ops)"
    "keeps lora_balance (send_groups env tr gs ops num cnt)"
proof -
  show l: "keeps lora_balance (lift_sum r)" for r :: "error + 'b" by (cases r) (auto intro!: keepsI)
  have "count_list (send_events env ops) Lora_Merged = 0 \<and> count_list (send_events env ops) Lora_Unmerged = 0" for ops
    unfolding count_list_0_iff by (auto simp: send_events_def)
  then show g: "keeps lora_balance (grouped_send env ops)" for ops
    by (intro keepsI) (simp add: grouped_send_run lora_balance_def)
  show "keeps lora_balance (send_groups env tr gs ops num cnt)"
    by (induction gs arbitrary: ops num cnt) (unfold send_groups.simps; intro frame l g; assumption?)+
qed

lemma balance_weights: "keeps lora_balance (send_weights env tr insts)"
proof (rule keepsI)
  fix s
  let ?m = "\<lambda>s. if pe_lora env then s\<lparr>pw_out := pw_out s @ [Lora_Merged]\<rparr> else s"
  let ?r = "send_groups env tr insts [] 0 0 (?m s)"
  let ?t = "if pe_lora env then (final ?r)\<lparr>pw_out := pw_out (final ?r) @ [Lora_Unmerged]\<rparr> else final ?r"
  have "lora_balance (final ?r) = lora_balance (?m s)" by (rule keepsD) (rule balance_sends)
  moreover have "final (send_weights env tr insts s) = ?t"
    by (cases ?r) (auto simp: send_weights_def try_finally_def bnd_def did_run)
  ultimately show "lora_balance (final (send_weights env tr insts s)) = lora_balance s"
    by (cases "pe_lora env") (simp_all add: lora_balance_def)
qed

text \<open>C29: However a transfer to a rollout replica ends - a parameter that is not in the map, an instruction of another
  rank, no answer from the controller, counts that do not match - every merge of the LoRA adapters has been undone:
  the handler leaves as many merges without their unmerge as it found.\<close>

theorem adapters_unmerged:
  "lora_balance (final (execute_policy_to_rollout_unicast env src world tr s)) = lora_balance s"
proof (rule keepsD)
  have f: "keeps lora_balance (fetch_send_insts env)"
    unfolding fetch_send_insts_def by (intro frame; simp add: keeps_modify lora_balance_def)
  have c: "keeps lora_balance (check_synced cnt)" for cnt
    unfolding check_synced_def by (intro frame; simp add: keeps_modify lora_balance_def)
  show "keeps lora_balance (execute_policy_to_rollout_unicast env src world tr)"
    unfolding execute_policy_to_rollout_unicast_def by (intro frame f c balance_weights)
qed

section \<open>What the rollout rank receives of it\<close>

text \<open>The slices of a pair of instructions match: they belong to the same parameter and were planned together, from the
  shards that the two ranks hold.\<close>

definition planned_pair :: "shard_plan \<Rightarrow> nat \<Rightarrow> nat \<Rightarrow> string \<Rightarrow> shard_info \<Rightarrow> shard_info \<Rightarrow> bool" where
  "planned_pair m p r n ps rs \<longleftrightarrow> (\<exists>pinfo P rinfo R. holds (pl_policy_infos m) p n pinfo P
     \<and> holds (pl_rollout_infos m) r n rinfo R \<and> strategies_of P R = Inr (Some (ps, rs)))"

lemma planned_pairI:
  assumes "planned_pair m p r n ps rs'" "planned_pair m p r n ps' rs"
  shows "planned_pair m p r n ps rs"
  using assms unfolding planned_pair_def holds_def by auto

lemma param_outE:
  assumes "(n, i) \<in> set (concat (map (param_out f dicts) names))"
  obtains info out where "n \<in> set names" "dict_get dicts n = Some info" "f n info = Inr out" "i \<in> set out"
proof -
  obtain k where "k \<in> set names" "(n, i) \<in> set (param_out f dicts k)" using assms by auto
  moreover from this(2) obtain info where "dict_get dicts k = Some info" by (cases "dict_get dicts k") (auto simp: param_out_def)
  ultimately show ?thesis using that by (cases "f k info") (auto simp: param_out_def)
qed

lemma send_planned:
  assumes S: "generate_send_insts m p = Inr S" "(n, i) \<in> set (in_order S)"
  shows "\<exists>rs. planned_pair m p (si_rollout_rank i) n (si_slice_strategy i) rs"
proof -
  note o = generate_send_order [OF S(1) refl refl refl]
  obtain info out where i: "dict_get (pl_policy_infos m ! p) n = Some info" "sends m p n info = Inr out" "i \<in> set out"
    using S(2) unfolding o [THEN conjunct1] by (rule param_outE)
  then have out: "send_param (plan_infos m) n p info = Inr out" by (simp add: sends_def)
  then obtain P where "parse_shard info = Inr P" using param_parsed(1) by blast
  then have h: "holds (pl_policy_infos m) p n info P" using i(1) o by (simp add: holds_def)
  then have "holds (fst (plan_infos m)) p n info P" by (simp add: plan_infos_def)
  from i(3) [unfolded send_mem(1) [OF out this]] show ?thesis using h
    unfolding planned_pair_def by (auto simp: plan_infos_def) blast
qed

lemma recv_planned:
  assumes T: "generate_recv_insts m r = Inr T" "(n, i) \<in> set (in_order T)"
  shows "\<exists>ps. planned_pair m (si_policy_rank i) r n ps (si_slice_strategy i)"
proof -
  note o = generate_recv_order [OF T(1) refl refl refl]
  obtain info out where i: "dict_get (pl_rollout_infos m ! r) n = Some info" "recvs m r n info = Inr out" "i \<in> set out"
    using T(2) unfolding o [THEN conjunct1] by (rule param_outE)
  then have out: "recv_param (plan_infos m) n r info = Inr out" by (simp add: recvs_def)
  then obtain R where "parse_shard info = Inr R" using param_parsed(2) by blast
  then have h: "holds (pl_rollout_infos m) r n info R" using i(1) o by (simp add: holds_def)
  then have "holds (snd (plan_infos m)) r n info R" by (simp add: plan_infos_def)
  from i(3) [unfolded recv_mem(1) [OF out this]] show ?thesis using h
    unfolding planned_pair_def by (auto simp: plan_infos_def) blast
qed

text \<open>The parameters of a rank are listed in sorted order, once each, and the list has all that the rank holds.\<close>

definition listed_in_order :: "string list \<Rightarrow> rank_infos \<Rightarrow> bool" where
  "listed_in_order names infos \<longleftrightarrow> sorted names \<and> distinct names \<and> set (dict_keys infos) \<subseteq> set names"

lemma same_keys_all2:
  assumes "map fst xs = map fst ys" "\<And>x y. x \<in> set xs \<Longrightarrow> y \<in> set ys \<Longrightarrow> fst x = fst y \<Longrightarrow> Q x y"
  shows "list_all2 (\<lambda>x y. fst x = fst y \<and> Q x y) xs ys"
proof (rule list_all2_all_nthI)
  show len: "length xs = length ys" using assms(1) by (rule map_eq_imp_length_eq)
  fix k assume k: "k < length xs"
  have "fst (xs ! k) = fst (ys ! k)" using arg_cong [OF assms(1), of "\<lambda>zs. zs ! k"] k len by simp
  then show "fst (xs ! k) = fst (ys ! k) \<and> Q (xs ! k) (ys ! k)" using assms(2) k len by simp
qed

lemma plans_match:
  assumes S: "generate_send_insts m p = Inr S" and T: "generate_recv_insts m r = Inr T"
    and "listed_in_order (pl_sorted_policy m ! (pl_pp_rank_map_policy m ! p)) (pl_policy_infos m ! p)"
    and "listed_in_order (pl_sorted_rollout m ! (pl_pp_rank_map_rollout m ! r)) (pl_rollout_infos m ! r)"
  shows "list_all2 (\<lambda>x y. fst x = fst y \<and> planned_pair m p r (fst x) (si_slice_strategy (snd x)) (si_slice_strategy (snd y)))
    (filter (\<lambda>(n, i). si_rollout_rank i = r) (in_order S)) (filter (\<lambda>(n, i). si_policy_rank i = p) (in_order T))"
proof (rule same_keys_all2)
  show "map fst (filter (\<lambda>(n, i). si_rollout_rank i = r) (in_order S)) = map fst (filter (\<lambda>(n, i). si_policy_rank i = p) (in_order T))"
    using assms by (intro same_order [OF S T refl refl]) (simp_all add: listed_in_order_def)
  fix x y
  assume x: "x \<in> set (filter (\<lambda>(n, i). si_rollout_rank i = r) (in_order S))"
    and y: "y \<in> set (filter (\<lambda>(n, i). si_policy_rank i = p) (in_order T))" and n: "fst x = fst y"
  obtain rs ps where "planned_pair m p r (fst x) (si_slice_strategy (snd x)) rs" "planned_pair m p r (fst y) ps (si_slice_strategy (snd y))"
    using send_planned [OF S, of "fst x" "snd x"] recv_planned [OF T, of "fst y" "snd y"] x y by (auto simp: case_prod_beta)
  then show "planned_pair m p r (fst x) (si_slice_strategy (snd x)) (si_slice_strategy (snd y))"
    unfolding n by (rule planned_pairI)
qed

lemma list_all2_filter: "list_all2 Q xs ys \<Longrightarrow> (\<And>x y. Q x y \<Longrightarrow> A x = B y) \<Longrightarrow> list_all2 Q (filter A xs) (filter B ys)"
  by (induction rule: list_all2_induct) auto

text \<open>What one rank sends to the other and what the other receives from it.\<close>

definition sent_to :: "nat \<Rightarrow> policy_event list \<Rightarrow> (string \<times> shard_info) list" where
  "sent_to r es = map (\<lambda>(n, k, sl). (n, sl)) (filter (\<lambda>(n, k, sl). k = r) (sends_of es))"

definition received_from :: "nat \<Rightarrow> worker_event list \<Rightarrow> (string \<times> shard_info) list" where
  "received_from p es = map (\<lambda>(n, k, sl). (n, sl)) (filter (\<lambda>(n, k, sl). k = p) (slices_of es))"

lemma sent_planned: "sends_of es = planned_sends env tr S \<Longrightarrow> sent_to r es
    = map (\<lambda>(n, i). (n, si_slice_strategy i)) (filter (\<lambda>(n, i). goes env tr n) (filter (\<lambda>(n, i). si_rollout_rank i = r) (in_order S)))"
  by (simp add: sent_to_def planned_sends_def filter_map comp_def case_prod_beta conj_commute)

lemma received_planned: "slices_of es = planned_slices trainable tr T \<Longrightarrow> received_from p es
    = map (\<lambda>(n, i). (n, si_slice_strategy i)) (filter (\<lambda>(n, i). trainable n \<or> \<not> tr) (filter (\<lambda>(n, i). si_policy_rank i = p) (in_order T)))"
  by (simp add: received_from_def planned_slices_def filter_map comp_def case_prod_beta conj_commute)

text \<open>The part of a parameter that a slice of a rank's shard selects.\<close>

definition part_of :: "rank_infos \<Rightarrow> 'a tensor \<Rightarrow> string \<Rightarrow> shard_info \<Rightarrow> error + 'a tensor" where
  "part_of infos g n sl = (case dict_get infos n of None \<Rightarrow> Inl KeyError | Some info \<Rightarrow>
     ebind (parse_shard info) (\<lambda>P. ebind (sliced g P) (\<lambda>v. apply_strategy v sl)))"

definition shards_fit :: "rank_infos \<Rightarrow> rank_infos \<Rightarrow> (string \<Rightarrow> 'a tensor) \<Rightarrow> bool" where
  "shards_fit ps rs W \<longleftrightarrow> (\<forall>n pinfo rinfo P R. dict_get ps n = Some pinfo \<longrightarrow> parse_shard pinfo = Inr P \<longrightarrow>
     dict_get rs n = Some rinfo \<longrightarrow> parse_shard rinfo = Inr R \<longrightarrow>
     fits (shape (W n)) P \<and> fits (shape (W n)) R \<and> compatible_shards P R)"

lemma pair_same_part:
  assumes "planned_pair m p r n ps rs" "shards_fit (pl_policy_infos m ! p) (pl_rollout_infos m ! r) W"
  shows "\<exists>x. part_of (pl_policy_infos m ! p) (W n) n ps = Inr x \<and> part_of (pl_rollout_infos m ! r) (W n) n rs = Inr x"
proof -
  obtain pinfo P rinfo R where h: "holds (pl_policy_infos m) p n pinfo P" "holds (pl_rollout_infos m) r n rinfo R"
    and st: "strategies_of P R = Inr (Some (ps, rs))" using assms(1) unfolding planned_pair_def by blast
  then have "fits (shape (W n)) P" "fits (shape (W n)) R" "compatible_shards P R"
    using assms(2) by (auto simp: shards_fit_def holds_def)
  from strategies_agree [OF this st] show ?thesis using h by (auto simp: part_of_def holds_def)
qed

text \<open>C5: From the plan to the wire and into place: let a policy rank \<open>p\<close> and a rollout rank \<open>r\<close> hold the
  instructions that the controller's plan has for them, and let the handlers of one transfer return on both. Then what
  \<open>p\<close> sent to \<open>r\<close> and what \<open>r\<close> received from \<open>p\<close> correspond one to one, in order: the same
  parameter each time, and for any weights into which the reported shards fit the slice that is sent is exactly
  the part of the parameter that the receiver's slice of its own shard stands for.\<close>

theorem weights_delivered:
  assumes plan: "generate_send_insts m p = Inr S" "generate_recv_insts m r = Inr T"
    and listed: "listed_in_order (pl_sorted_policy m ! (pl_pp_rank_map_policy m ! p)) (pl_policy_infos m ! p)"
      "listed_in_order (pl_sorted_rollout m ! (pl_pp_rank_map_rollout m ! r)) (pl_rollout_infos m ! r)"
    and have_plan: "insts_to_send penv s = Inr S" "insts_in_use wenv w = T"
    and ran: "execute_policy_to_rollout_unicast penv (pe_name penv) world tr s = Ok stop s'"
      "policy_to_rollout_unicast wenv (we_name wenv) tr w = Ok () w'"
    and agree: "\<not> tr \<or> {n. is_trainable w' n} = set (pe_trainable penv)"
    and fit: "shards_fit (pl_policy_infos m ! p) (pl_rollout_infos m ! r) W"
  shows "\<exists>es fs. pw_out s' = pw_out s @ es \<and> wk_out w' = wk_out w @ fs
    \<and> list_all2 (\<lambda>(n, ps) (k, rs). n = k \<and> (\<exists>x. part_of (pl_policy_infos m ! p) (W n) n ps = Inr x
         \<and> part_of (pl_rollout_infos m ! r) (W n) n rs = Inr x)) (sent_to r es) (received_from p fs)"
proof -
  obtain es where es: "pw_out s' = pw_out s @ between_merges penv es" "sends_of es = planned_sends penv tr S"
    using p2r_send_run [OF ran(1)] have_plan(1) by auto
  obtain init where i: "slices_of init = []"
    "wk_out w' = wk_out w @ init @ (if grouped_nccl wenv then [Nccl_Group_Start] else [])
        @ transfer_events wenv (is_trainable w') tr T 0 @ (if grouped_nccl wenv then [Nccl_Group_End] else [])"
    using p2r_steps [OF ran(2)] have_plan(2) by blast
  then obtain fs where fs: "wk_out w' = wk_out w @ fs" "slices_of fs = planned_slices (is_trainable w') tr T"
    by (cases "grouped_nccl wenv") (auto simp: slices_transfer)
  have es': "sends_of (between_merges penv es) = planned_sends penv tr S" using es(2) by (simp add: between_merges_def)
  have goes: "goes penv tr n = (is_trainable w' n \<or> \<not> tr)" for n using agree by (auto simp: goes_def)
  note m = list_all2_filter [OF plans_match [OF plan listed], of "\<lambda>(n, i). goes penv tr n" "\<lambda>(n, i). is_trainable w' n \<or> \<not> tr"]
  have "list_all2 (\<lambda>(n, ps) (k, rs). n = k \<and> planned_pair m p r n ps rs) (sent_to r (between_merges penv es)) (received_from p fs)"
    unfolding sent_planned [OF es'] received_planned [OF fs(2)] list_all2_map1 list_all2_map2
    by (rule list_all2_mono [OF m]) (auto simp: goes)
  then have "list_all2 (\<lambda>(n, ps) (k, rs). n = k \<and> (\<exists>x. part_of (pl_policy_infos m ! p) (W n) n ps = Inr x
         \<and> part_of (pl_rollout_infos m ! r) (W n) n rs = Inr x)) (sent_to r (between_merges penv es)) (received_from p fs)"
    by (rule list_all2_mono) (use pair_same_part [OF _ fit] in auto)
  then show ?thesis using es(1) fs(1) by blast
qed

section \<open>A transfer of two ranks\<close>

text \<open>Policy rank 1 of two holds the second half of a parameter that rollout rank 0 holds whole.\<close>

definition sample_policy_env :: policy_env where
  "sample_policy_env = \<lparr>pe_name = ''p0'', pe_global_rank = 1, pe_world_size = 2, pe_dp_world_size = 2, pe_dp_rank_of = id,
     pe_master_rank = False, pe_first_in_dp = True, pe_colocated_separated = False, pe_nccl_group_size = 1,
     pe_send_insts = generate_send_insts sample_plan 1, pe_trainable = [''w''], pe_mapped = Some [''w''], pe_lora = True,
     pe_resume = False, pe_local_dataset = False, pe_dispatch_as_rank_in_mesh = False, pe_uncentralized = False,
     pe_distillation = False, pe_signal_handler = False, pe_prompt_of = (\<lambda>i. VNone), pe_conversation_of = (\<lambda>i. None)\<rparr>"

definition fresh_policy :: policy_worker where
  "fresh_policy = new_policy [] [] [] [] [] []"

definition sample_recv_env :: worker_env where
  "sample_recv_env = sample_env\<lparr>we_model_params := [''w''], we_recv_keys := [''w''],
     we_recv_insts := (case generate_recv_insts sample_plan 0 of Inl e \<Rightarrow> [] | Inr T \<Rightarrow> T)\<rparr>"

lemma sample_planned:
  "\<exists>S T. generate_send_insts sample_plan 1 = Inr S \<and> generate_recv_insts sample_plan 0 = Inr T"
  using sample_plan_insts by blast

definition complete_worker :: worker where
  "complete_worker = (new_worker [] [] [] [])\<lparr>wk_non_trainable_received := True\<rparr>"

lemma sample_sends: "\<exists>t. execute_policy_to_rollout_unicast sample_policy_env ''p0'' 2 True fresh_policy = Ok False t
    \<and> sent_to 0 (pw_out t) = [(''w'', [(0, to_dict (mk_slice 0 1 [] 1))])]"
proof -
  let ?r = "execute_policy_to_rollout_unicast sample_policy_env ''p0'' 2 True fresh_policy"
  have "returned ?r = Some False" "sent_to 0 (pw_out (final ?r)) = [(''w'', [(0, to_dict (mk_slice 0 1 [] 1))])]" by code_simp+
  then show ?thesis by (cases ?r) auto
qed

lemma sample_receives: "\<exists>t. policy_to_rollout_unicast sample_recv_env ''r0'' True complete_worker = Ok () t
    \<and> received_from 1 (wk_out t) = [(''w'', half 1)] \<and> wk_trainable t = Some [''w'', ''w'']"
proof -
  let ?r = "policy_to_rollout_unicast sample_recv_env ''r0'' True complete_worker"
  have "returned ?r = Some ()" "received_from 1 (wk_out (final ?r)) = [(''w'', half 1)]"
    "wk_trainable (final ?r) = Some [''w'', ''w'']" by code_simp+
  then show ?thesis by (cases ?r) auto
qed

theorem p2r_sends_plan_witness:
  "\<exists>t insts es. execute_policy_to_rollout_unicast sample_policy_env ''p0'' 2 True fresh_policy = Ok False t
    \<and> generate_send_insts sample_plan 1 = Inr insts \<and> pw_out t = Lora_Merged # es @ [Lora_Unmerged]
    \<and> sends_of es = planned_sends sample_policy_env True insts \<and> send_nested False es"
proof -
  obtain t where t: "execute_policy_to_rollout_unicast sample_policy_env ''p0'' 2 True fresh_policy = Ok False t"
    using sample_sends by blast
  have "pe_name sample_policy_env = ''p0''" "grouped_sends sample_policy_env" "pe_lora sample_policy_env"
    "pw_out fresh_policy = []" "insts_to_send sample_policy_env fresh_policy = generate_send_insts sample_plan 1"
    by (simp_all add: sample_policy_env_def grouped_sends_def fresh_policy_def new_policy_def insts_to_send_def)
  with p2r_sends_plan [of sample_policy_env 2 True fresh_policy False t] t show ?thesis
    by (auto simp: between_merges_def)
qed

lemma sample_shards_fit:
  "shards_fit (pl_policy_infos sample_plan ! 1) (pl_rollout_infos sample_plan ! 0) (\<lambda>n. \<lparr>shape = [8], elems = hd\<rparr> :: int tensor)"
proof -
  have "fits [8] [(0, mk_slice 1 2 [] 1)]" "fits [8] []" "compatible_shards [(0, mk_slice 1 2 [] 1)] []"
    by (simp_all add: fits_def dict_wf_def dict_keys_def valid_slice_def mk_slice_def compatible_shards_def all_dims_def
        rank_at_def compatible_def dict_get_def)
  then show ?thesis
    by (auto simp: shards_fit_def sample_plan_def sample_infos_def dict_get_def half_def from_dict_to_dict split: if_splits)
qed

text \<open>The policy rank sends all that it has, its half; the rollout rank puts it into the second half of its own.\<close>

theorem weights_delivered_witness:
  "\<exists>s' w' x. execute_policy_to_rollout_unicast sample_policy_env ''p0'' 2 True fresh_policy = Ok False s'
    \<and> policy_to_rollout_unicast sample_recv_env ''r0'' True complete_worker = Ok () w'
    \<and> sent_to 0 (pw_out s') = [(''w'', [(0, to_dict (mk_slice 0 1 [] 1))])] \<and> received_from 1 (wk_out w') = [(''w'', half 1)]
    \<and> part_of (pl_policy_infos sample_plan ! 1) \<lparr>shape = [8], elems = hd\<rparr> ''w'' [(0, to_dict (mk_slice 0 1 [] 1))] = Inr x
    \<and> part_of (pl_rollout_infos sample_plan ! 0) \<lparr>shape = [8], elems = hd\<rparr> ''w'' (half 1) = Inr (x :: int tensor)"
proof -
  obtain S T where plan: "generate_send_insts sample_plan 1 = Inr S" "generate_recv_insts sample_plan 0 = Inr T"
    using sample_planned by blast
  obtain s' where s: "execute_policy_to_rollout_unicast sample_policy_env ''p0'' 2 True fresh_policy = Ok False s'"
      "sent_to 0 (pw_out s') = [(''w'', [(0, to_dict (mk_slice 0 1 [] 1))])]" using sample_sends by blast
  obtain w' where w: "policy_to_rollout_unicast sample_recv_env ''r0'' True complete_worker = Ok () w'"
      "received_from 1 (wk_out w') = [(''w'', half 1)]" "wk_trainable w' = Some [''w'', ''w'']" using sample_receives by blast
  have names: "pe_name sample_policy_env = ''p0''" "we_name sample_recv_env = ''r0''" "pw_out fresh_policy = []" "wk_out complete_worker = []"
    by (simp_all add: sample_policy_env_def sample_recv_env_def sample_env_def fresh_policy_def new_policy_def
        complete_worker_def new_worker_def)
  have "listed_in_order (pl_sorted_policy sample_plan ! (pl_pp_rank_map_policy sample_plan ! 1)) (pl_policy_infos sample_plan ! 1)"
    "listed_in_order (pl_sorted_rollout sample_plan ! (pl_pp_rank_map_rollout sample_plan ! 0)) (pl_rollout_infos sample_plan ! 0)"
    "insts_to_send sample_policy_env fresh_policy = Inr S" "insts_in_use sample_recv_env complete_worker = T"
    "{n. is_trainable w' n} = set (pe_trainable sample_policy_env)"
    using plan w(3) by (simp_all add: listed_in_order_def sample_plan_def sample_infos_def dict_keys_def insts_to_send_def
        sample_policy_env_def fresh_policy_def new_policy_def insts_in_use_def complete_worker_def new_worker_def sample_recv_env_def
        is_trainable_def)
  from weights_delivered [OF plan this(1-4), unfolded names, OF s(1) w(1) disjI2 [OF this(5)] sample_shards_fit]
  show ?thesis using s w by auto
qed

end
