(* ===== verification/Policy_Runs.thy ===== *)
theory Policy_Runs
  imports Weight_Delivery
begin

text \<open>Runs of the main loop of a policy worker: what becomes of the commands and rollouts that arrive, how the rollouts
  of a step are shared out, what a \<open>DATA_FETCH\<close> does from its batch to its acknowledgement, and how the loop ends.\<close>

section \<open>Nothing that arrives is lost or overtaken\<close>

definition taken_of :: "policy_event list \<Rightarrow> rollout list" where
  "taken_of out = concat (map (\<lambda>e. case e of Rollout_Taken r \<Rightarrow> [r] | _ \<Rightarrow> []) out)"

definition started_of :: "policy_event list \<Rightarrow> command list" where
  "started_of out = concat (map (\<lambda>e. case e of Command_Started c \<Rightarrow> [c] | _ \<Rightarrow> []) out)"

lemma history_append [simp]: "taken_of (a @ b) = taken_of a @ taken_of b" "started_of (a @ b) = started_of a @ started_of b"
    "taken_of [] = []" "started_of [] = []"
  by (simp_all add: taken_of_def started_of_def)

lemma history_one: "taken_of [e] = (case e of Rollout_Taken r \<Rightarrow> [r] | _ \<Rightarrow> [])"
    "started_of [e] = (case e of Command_Started c \<Rightarrow> [c] | _ \<Rightarrow> [])"
  by (simp_all add: taken_of_def started_of_def)

definition is_mesh :: "command \<Rightarrow> bool" where
  "is_mesh c = (case c of BuildMesh u ranks \<Rightarrow> True | _ \<Rightarrow> False)"

text \<open>A mesh without the replica itself is the last command that its thread fetches.\<close>

definition fetched :: "policy_env \<Rightarrow> command \<Rightarrow> bool" where
  "fetched env c = (case c of BuildMesh u ranks \<Rightarrow> dict_get ranks (pe_name env) \<noteq> None | _ \<Rightarrow> True)"

definition buffered :: "policy_env \<Rightarrow> command list \<Rightarrow> command list" where
  "buffered env cs = filter (\<lambda>c. \<not> is_mesh c) (takeWhile (fetched env) cs)"

definition commands_in_order :: "policy_env \<Rightarrow> policy_worker \<Rightarrow> command list" where
  "commands_in_order env s = started_of (pw_out s) @ pw_commands s @ pw_buffer s
     @ (if pw_fetching s then buffered env (concat (map pt_commands (pi_ticks s))) else [])"

text \<open>The rollouts of a look: those of the requests all of whose messages can be deserialised.\<close>

definition incoming :: "policy_tick \<Rightarrow> rollout list" where
  "incoming t = concat (map deserialised (pt_rollouts t))"

lemma incoming_sent: "pt_rollouts t = map (map Some) rss \<Longrightarrow> incoming t = concat rss"
proof -
  have "deserialised (map Some rs) = rs" for rs by (auto simp: deserialised_def)
  then show "pt_rollouts t = map (map Some) rss \<Longrightarrow> ?thesis" by (simp add: incoming_def comp_def)
qed

text \<open>A message that cannot be deserialised loses the other rollouts of its request: they are off the stream and in no queue.\<close>

lemma request_lost:
  "None \<in> set ms \<Longrightarrow> fetch_policy_rollouts env (before @ ms # after) = fetch_policy_rollouts env (before @ after)"
  by (simp add: fetch_policy_rollouts_def deserialised_def)

definition rollouts_in_order :: "policy_env \<Rightarrow> policy_worker \<Rightarrow> rollout list" where
  "rollouts_in_order env s = taken_of (pw_out s) @ pw_data s
     @ (if pe_global_rank env = 0 then concat (map incoming (pi_ticks s)) else [])"

definition inputs_in_order :: "policy_env \<Rightarrow> policy_worker \<Rightarrow> command list \<times> rollout list" where
  "inputs_in_order env s = (commands_in_order env s, rollouts_in_order env s)"

lemmas in_order_defs = inputs_in_order_def commands_in_order_def rollouts_in_order_def

lemma buffered_append: "buffered env (a @ b) = buffered env a @ (if list_all (fetched env) a then buffered env b else [])"
  by (induction a) (auto simp: buffered_def)

text \<open>An event other than the two that are counted.\<close>

definition counted :: "policy_event \<Rightarrow> bool" where
  "counted e = (case e of Command_Started c \<Rightarrow> True | Rollout_Taken r \<Rightarrow> True | _ \<Rightarrow> False)"

lemma inputs_did [frame]: "\<not> counted e \<Longrightarrow> keeps (inputs_in_order env) (did e)"
  by (rule keepsI) (auto simp: did_run in_order_defs history_one counted_def split: policy_event.splits)

lemma inputs_modify: "(\<And>s. pw_out (f s) = pw_out s \<and> pw_commands (f s) = pw_commands s \<and> pw_buffer (f s) = pw_buffer s
    \<and> pw_fetching (f s) = pw_fetching s \<and> pi_ticks (f s) = pi_ticks s \<and> pw_data (f s) = pw_data s)
  \<Longrightarrow> keeps (inputs_in_order env) (modify f)"
  by (simp add: keeps_modify in_order_defs)

lemma keeps_finally [frame]: "keeps g m \<Longrightarrow> keeps g fin \<Longrightarrow> keeps g (try_finally m fin)"
  unfolding keeps_def try_finally_def bnd_def by (auto split: outcome.split) (metis final.simps)+

lemma inputs_read [frame]: "(\<And>s xs. inputs_in_order env (upd (\<lambda>_. xs) s) = inputs_in_order env s) \<Longrightarrow>
    keeps (inputs_in_order env) (read_in sel upd)"
  unfolding read_in_def by (intro frame) (simp add: keeps_modify)

subsection \<open>The threads\<close>

definition is_push :: "policy_event \<Rightarrow> bool" where
  "is_push e = (case e of Mesh_Pushed ranks \<Rightarrow> True | _ \<Rightarrow> False)"

lemma pushes_uncounted: "list_all is_push out \<Longrightarrow> taken_of out = [] \<and> started_of out = []"
  by (induction out) (auto simp: taken_of_def started_of_def is_push_def split: policy_event.splits)

lemma fetch_commands:
  "pw_fetching s \<Longrightarrow> \<exists>out. list_all is_push out
     \<and> (\<exists>m. final (fetch_command env cs s) = s\<lparr>pw_master := m, pw_out := pw_out s @ out, pw_buffer := pw_buffer s @ buffered env cs,
          pw_fetching := list_all (fetched env) cs\<rparr>)"
proof -
  have "\<exists>out m u. list_all is_push out
      \<and> u = s\<lparr>pw_master := m, pw_out := pw_out s @ out, pw_buffer := pw_buffer s @ buffered env cs\<rparr>
      \<and> for_each cs (fetch_one env) s = (if list_all (fetched env) cs then Ok () u else Raise KeyError u)" for s
  proof (induction cs arbitrary: s)
    case Nil
    show ?case by (intro exI [of _ "[]"] exI [of _ "pw_master s"]) (simp add: buffered_def)
  next
    case (Cons c cs)
    show ?case
    proof (cases "fetched env c")
      case False
      then obtain u ranks where "c = BuildMesh u ranks" "dict_get ranks (pe_name env) = None"
        by (auto simp: fetched_def split: command.splits)
      then show ?thesis by (intro exI [of _ "[]"] exI [of _ "pw_master s"]) (simp add: buffered_def fetched_def fetch_one_def)
    next
      case True
      obtain m out where one: "fetch_one env c s = Ok () (s\<lparr>pw_master := m, pw_out := pw_out s @ out, pw_buffer := pw_buffer s @ buffered env [c]\<rparr>)"
        and out: "list_all is_push out"
      proof (cases "is_mesh c")
        case mesh: True
        then obtain u ranks r where "c = BuildMesh u ranks" "dict_get ranks (pe_name env) = Some r"
          using True by (auto simp: is_mesh_def fetched_def split: command.splits)
        then show ?thesis by (intro that [where m = "r = 0" and out = "[Mesh_Pushed ranks]"])
            (simp_all add: fetch_one_def did_run buffered_def is_mesh_def fetched_def is_push_def)
      next
        case False
        then have "fetch_one env c s = Ok () (s\<lparr>pw_buffer := pw_buffer s @ [c]\<rparr>)"
          by (auto simp: fetch_one_def is_mesh_def split: command.splits)
        then show ?thesis using False True by (intro that [where m = "pw_master s" and out = "[]"]) (simp_all add: buffered_def)
      qed
      let ?s = "s\<lparr>pw_master := m, pw_out := pw_out s @ out, pw_buffer := pw_buffer s @ buffered env [c]\<rparr>"
      from Cons.IH [of ?s] obtain out' n where "list_all is_push out'"
        "for_each cs (fetch_one env) ?s = (if list_all (fetched env) cs then Ok () else Raise KeyError)
           (?s\<lparr>pw_master := n, pw_out := pw_out ?s @ out', pw_buffer := pw_buffer ?s @ buffered env cs\<rparr>)" by auto
      then show ?thesis using True one out buffered_append [of env "[c]" cs]
        by (intro exI [of _ "out @ out'"] exI [of _ n]) (simp add: bnd_def)
    qed
  qed
  from this [of s] obtain out m u where "list_all is_push out"
    "u = s\<lparr>pw_master := m, pw_out := pw_out s @ out, pw_buffer := pw_buffer s @ buffered env cs\<rparr>"
    "for_each cs (fetch_one env) s = (if list_all (fetched env) cs then Ok () u else Raise KeyError u)" by blast
  then show "pw_fetching s \<Longrightarrow> ?thesis"
    by (intro exI [of _ out] conjI exI [of _ m]) (auto simp: fetch_command_def try_except_def intro!: policy_worker.equality)
qed

lemma fetch_quiet: "\<not> pw_fetching s \<Longrightarrow> fetch_command env cs s = Ok () s"
  by (simp add: fetch_command_def)

lemma fetch_returns: "\<exists>u. fetch_command env cs s = Ok () u"
proof (cases "pw_fetching s")
  case True
  then show ?thesis by (cases "for_each cs (fetch_one env) s") (simp_all add: fetch_command_def try_except_def)
qed (simp add: fetch_quiet)

definition after_fetch :: "policy_env \<Rightarrow> policy_tick \<Rightarrow> policy_worker \<Rightarrow> policy_worker" where
  "after_fetch env t u = (let v = (if pe_global_rank env = 0 then u\<lparr>pw_data := pw_data u @ incoming t,
       pw_prefetch := pw_prefetch u @ filter (\<lambda>u. u \<noteq> '''') (map ro_teacher_result_uuid (incoming t))\<rparr> else u) in
     case pt_mesh t of None \<Rightarrow> v | Some ranks \<Rightarrow> v\<lparr>pw_ranks := ranks\<rparr>)"

lemma tick_run:
  assumes "pi_ticks s = t # ts"
  obtains u where "fetch_command env (pt_commands t) (s\<lparr>pi_ticks := ts\<rparr>) = Ok () u"
    "look_around env s = Ok () (after_fetch env t u)"
proof -
  obtain u where u: "fetch_command env (pt_commands t) (s\<lparr>pi_ticks := ts\<rparr>) = Ok () u" using fetch_returns by blast
  then have "look_around env s = Ok () (after_fetch env t u)"
    using assms by (cases "pt_mesh t") (simp_all add: look_around_def read_in_def fetch_policy_rollouts_def Let_def incoming_def after_fetch_def)
  with u show ?thesis by (rule that)
qed

text \<open>A look moves what has arrived from the inputs into the queues.\<close>

lemma inputs_look [frame]: "keeps (inputs_in_order env) (look_around env)"
proof (rule keepsI)
  fix s
  show "inputs_in_order env (final (look_around env s)) = inputs_in_order env s"
  proof (cases "pi_ticks s")
    case Nil
    then show ?thesis by (simp add: look_around_def read_in_def bnd_def)
  next
    case (Cons t ts)
    let ?s = "s\<lparr>pi_ticks := ts\<rparr>"
    obtain u where u: "fetch_command env (pt_commands t) ?s = Ok () u" and l: "look_around env s = Ok () (after_fetch env t u)"
      using Cons by (rule tick_run)
    let ?v = "if pe_global_rank env = 0 then u\<lparr>pw_data := pw_data u @ incoming t\<rparr> else u"
    have v: "inputs_in_order env (final (look_around env s)) = inputs_in_order env ?v"
      unfolding l by (cases "pt_mesh t") (simp_all add: in_order_defs after_fetch_def Let_def)
    show ?thesis
    proof (cases "pw_fetching s")
      case True
      then obtain out m where "list_all is_push out"
        "u = ?s\<lparr>pw_master := m, pw_out := pw_out ?s @ out, pw_buffer := pw_buffer ?s @ buffered env (pt_commands t),
          pw_fetching := list_all (fetched env) (pt_commands t)\<rparr>"
        using fetch_commands [of ?s env "pt_commands t"] u by auto
      then show ?thesis unfolding v using True Cons pushes_uncounted by (simp add: in_order_defs buffered_append)
    next
      case False
      then have "u = ?s" using u by (simp add: fetch_quiet)
      then show ?thesis unfolding v using False Cons by (simp add: in_order_defs)
    qed
  qed
qed

lemma inputs_get_rollout [frame]: "keeps (inputs_in_order env) (get_rollout env n)"
proof (induction n)
  case (Suc n)
  have "inputs_in_order env (final (get_rollout env (Suc n) s)) = inputs_in_order env s" for s
  proof (cases "pw_data s")
    case Nil
    then show ?thesis using keepsD [OF keeps_bnd [OF inputs_look Suc], of s] by simp
  qed (simp add: did_run in_order_defs history_one)
  then show ?case by (rule keepsI)
qed (simp add: frame)

lemma inputs_next [frame]: "keeps (inputs_in_order env) (next_rollout env)"
  unfolding next_rollout_def by (intro frame)

subsection \<open>The handlers\<close>

lemma inputs_prefetch [frame]: "keeps (inputs_in_order env) (prefetch_all env us i own)" "keeps (inputs_in_order env) (wanted env us)"
proof -
  show "keeps (inputs_in_order env) (prefetch_all env us i own)"
    by (induction us arbitrary: i own)
      (unfold prefetch_all.simps prefetch_one_def; intro frame inputs_modify; (assumption | simp)?)+
  show "keeps (inputs_in_order env) (wanted env us)"
    unfolding wanted_def by (intro frame) (simp add: counted_def)
qed

lemma inputs_teacher [frame]: "keeps (inputs_in_order env) (prepare_teacher_uuids_for_prefetch env i n)"
    "keeps (inputs_in_order env) (check_teacher r i)"
  unfolding prepare_teacher_uuids_for_prefetch_def check_teacher_def Let_def
  by (intro frame inputs_modify; simp add: in_order_defs)+

lemma inputs_scatter [frame]: "keeps (inputs_in_order env) (scatter_loop env batch n i k acc)"
    "keeps (inputs_in_order env) (take_rollouts env n rs)"
proof -
  show "keeps (inputs_in_order env) (scatter_loop env batch n i k acc)"
    by (induction n arbitrary: i k acc) (unfold scatter_loop.simps; intro frame; assumption?)+
  show "keeps (inputs_in_order env) (take_rollouts env n rs)"
    by (induction n arbitrary: rs) (unfold take_rollouts.simps; intro frame; assumption?)+
qed

lemma inputs_preprocess [frame]: "keeps (inputs_in_order env) (preprocess_rollouts env rs)"
  unfolding preprocess_rollouts_def check_rank_of_prompt_def by (intro frame)

lemma inputs_dispatch [frame]: "keeps (inputs_in_order env) (dispatch_step_rollouts env)"
  unfolding dispatch_step_rollouts_def scatter_batch_def
  by (intro frame; simp add: in_order_defs counted_def)

lemma inputs_sends [frame]: "keeps (inputs_in_order env) (grouped_send env ops)"
    "keeps (inputs_in_order env) (send_groups env tr gs ops num cnt)"
proof -
  show g: "keeps (inputs_in_order env) (grouped_send env ops)" for ops
    unfolding grouped_send_def by (intro frame; simp add: counted_def)
  show "keeps (inputs_in_order env) (send_groups env tr gs ops num cnt)"
    by (induction gs arbitrary: ops num cnt) (unfold send_groups.simps; intro frame g; assumption?)+
qed

lemma inputs_handlers [frame]: "keeps (inputs_in_order env) (execute_policy_to_policy_broadcast env src dsts)"
    "keeps (inputs_in_order env) (execute_policy_to_policy_unicast env src dst)"
    "keeps (inputs_in_order env) (execute_policy_to_rollout_unicast env src world tr)"
    "keeps (inputs_in_order env) (execute_weight_resume env)"
  unfolding execute_policy_to_policy_broadcast_def execute_policy_to_policy_unicast_def execute_policy_to_rollout_unicast_def
    execute_weight_resume_def fetch_send_insts_def send_weights_def check_synced_def Let_def
  by (intro frame inputs_modify; simp add: counted_def)+

lemma inputs_train [frame]: "keeps (inputs_in_order env) (train_step env save step_no total_steps remain)"
  unfolding train_step_def saves_checkpoint_def
  by (intro frame inputs_modify; simp add: counted_def in_order_defs)

lemma inputs_data_fetch [frame]: "keeps (inputs_in_order env) (execute_data_fetch env c)"
  unfolding execute_data_fetch_def by (intro frame inputs_modify; simp add: counted_def in_order_defs)


subsection \<open>The main loop\<close>

lemma inputs_start:
  "pw_commands s = c # cs \<Longrightarrow> inputs_in_order env (final (execute_policy_command env c (s\<lparr>pw_commands := cs\<rparr>))) = inputs_in_order env s"
proof -
  assume c: "pw_commands s = c # cs"
  let ?u = "s\<lparr>pw_commands := cs, pw_out := pw_out s @ [Command_Started c]\<rparr>"
  have u: "inputs_in_order env ?u = inputs_in_order env s" using c by (simp add: in_order_defs history_one)
  let ?m = "case c of
     PolicyToPolicyBroadcast u src dsts t \<Rightarrow> execute_policy_to_policy_broadcast env src dsts
   | PolicyToPolicyUnicast u src dst t \<Rightarrow> execute_policy_to_policy_unicast env src dst
   | PolicyToRolloutUnicast u src dst ss ds chk trainable_only w t \<Rightarrow> execute_policy_to_rollout_unicast env src ss trainable_only
   | WeightResume u name \<Rightarrow> execute_weight_resume env
   | DataFetch u name items global_step total_steps remain save prof act filt shp mem stk mods \<Rightarrow> execute_data_fetch env c
   | _ \<Rightarrow> raise GenericException"
  have "keeps (inputs_in_order env) ?m" by (cases c) (simp_all add: frame)
  from keepsD [OF this, of ?u] show ?thesis unfolding u by (simp add: execute_policy_command_def did_run)
qed

lemma inputs_run [frame]: "keeps (inputs_in_order env) (run_commands env n abort)"
proof (induction n arbitrary: abort)
  case (Suc n)
  have "inputs_in_order env (final (run_commands env (Suc n) abort s)) = inputs_in_order env s" for s
  proof (cases "pw_commands s")
    case (Cons c cs)
    show ?thesis
    proof (cases "execute_policy_command env c (s\<lparr>pw_commands := cs\<rparr>)")
      case (Ok stop u)
      then show ?thesis using inputs_start [OF Cons, of env] keepsD [OF Suc, of "stop \<or> abort" u] Cons by (simp add: bnd_def)
    next
      case (Raise e u)
      then show ?thesis using inputs_start [OF Cons, of env] Cons by (simp add: bnd_def)
    qed
  qed simp
  then show ?case by (rule keepsI)
qed (simp add: frame)

lemma inputs_round [frame]: "keeps (inputs_in_order env) (policy_round env abort)"
  unfolding policy_round_def broadcast_command_def
  by (intro frame) (simp_all add: counted_def keeps_modify in_order_defs)

lemma inputs_loop: "keeps (inputs_in_order env) (policy_loop env n abort)"
proof (induction n arbitrary: abort)
  case (Suc n)
  show ?case unfolding policy_loop.simps by (intro frame Suc) (simp add: counted_def)
qed (simp add: frame)

text \<open>C6: However long the main loop of a policy worker runs, and whether or not it ends with an exception: the commands
  started, then those waiting, then those still to come are at all times the commands sent to the worker, in order -
  meshes, which its thread takes out, excepted, and up to the first mesh without the worker itself, on which the
  thread ends; and on rank 0 the rollouts taken for training, then those queued, then those still to come are the rollouts
  sent to it, in order, without those of a request one of whose messages cannot be deserialised.\<close>

theorem policy_inputs_in_order:
  "let s = new_policy ticks scatter prefetch trained signals profiled; t = final (policy_loop env n False s) in
   started_of (pw_out t) @ pw_commands t @ pw_buffer t
       @ (if pw_fetching t then buffered env (concat (map pt_commands (pi_ticks t))) else [])
     = buffered env (concat (map pt_commands ticks))
   \<and> taken_of (pw_out t) @ pw_data t @ (if pe_global_rank env = 0 then concat (map incoming (pi_ticks t)) else [])
     = (if pe_global_rank env = 0 then concat (map incoming ticks) else [])"
  using keepsD [OF inputs_loop, of env n False "new_policy ticks scatter prefetch trained signals profiled"]
  unfolding Let_def in_order_defs by (simp add: new_policy_def)

section \<open>How the main loop ends\<close>

section \<open>The rollouts of a step\<close>

text \<open>What happens while the rollouts of a step are handed out.\<close>

definition background :: "policy_event \<Rightarrow> bool" where
  "background e = (case e of Mesh_Pushed ranks \<Rightarrow> True | Rollout_Taken r \<Rightarrow> True | Scattered rss \<Rightarrow> True | Teacher_Wanted u \<Rightarrow> True
     | _ \<Rightarrow> False)"

definition scattered_of :: "policy_event list \<Rightarrow> rollout list list list" where
  "scattered_of out = concat (map (\<lambda>e. case e of Scattered rss \<Rightarrow> [rss] | _ \<Rightarrow> []) out)"

lemma scattered_append [simp]: "scattered_of (a @ b) = scattered_of a @ scattered_of b" "scattered_of [] = []"
  by (simp_all add: scattered_of_def)

text \<open>\<open>hands_out rs rss s t\<close>: between the two states there were only such events, \<open>rs\<close> were taken and \<open>rss\<close> scattered.\<close>

definition hands_out :: "rollout list \<Rightarrow> rollout list list list \<Rightarrow> policy_worker \<Rightarrow> policy_worker \<Rightarrow> bool" where
  "hands_out rs rss s t \<longleftrightarrow> (\<exists>es. pw_out t = pw_out s @ es \<and> list_all background es \<and> taken_of es = rs \<and> scattered_of es = rss)"

lemma hands_out_refl: "pw_out t = pw_out s \<Longrightarrow> hands_out [] [] s t"
  by (auto simp: hands_out_def)

lemma hands_out_trans: "hands_out rs rss s t \<Longrightarrow> hands_out rs' rss' t u \<Longrightarrow> hands_out (rs @ rs') (rss @ rss') s u"
proof -
  assume "hands_out rs rss s t" "hands_out rs' rss' t u"
  then obtain es fs where "pw_out u = pw_out s @ es @ fs" "list_all background (es @ fs)" "taken_of (es @ fs) = rs @ rs'"
    "scattered_of (es @ fs) = rss @ rss'" by (auto simp: hands_out_def)
  then show ?thesis unfolding hands_out_def by blast
qed

lemma hands_out_pushes: "list_all is_push out \<Longrightarrow> pw_out t = pw_out s @ out \<Longrightarrow> hands_out [] [] s t"
proof -
  assume out: "list_all is_push out" "pw_out t = pw_out s @ out"
  from out(1) have "list_all background out \<and> scattered_of out = []"
    by (induction out) (auto simp: is_push_def background_def scattered_of_def split: policy_event.splits)
  then show ?thesis using out pushes_uncounted by (auto simp: hands_out_def)
qed

lemma look_hands_out: "hands_out [] [] s (final (look_around env s))"
proof (cases "pi_ticks s")
  case Nil
  then show ?thesis by (simp add: look_around_def read_in_def bnd_def hands_out_refl)
next
  case (Cons t ts)
  let ?s = "s\<lparr>pi_ticks := ts\<rparr>"
  obtain u where u: "fetch_command env (pt_commands t) ?s = Ok () u" and l: "look_around env s = Ok () (after_fetch env t u)"
    using Cons by (rule tick_run)
  have "hands_out [] [] s u"
  proof (cases "pw_fetching s")
    case True
    then obtain out m where "list_all is_push out" "pw_out u = pw_out s @ out"
      using fetch_commands [of ?s env "pt_commands t"] u by auto
    then show ?thesis by (rule hands_out_pushes)
  qed (use u in \<open>auto simp: fetch_quiet intro!: hands_out_refl\<close>)
  moreover have "pw_out (final (look_around env s)) = pw_out u"
    unfolding l by (cases "pt_mesh t") (simp_all add: after_fetch_def Let_def)
  ultimately show ?thesis by (simp add: hands_out_def)
qed

lemma get_rollout_hands_out: "get_rollout env n s = Ok r t \<Longrightarrow> hands_out [r] [] s t"
proof (induction n arbitrary: s)
  case (Suc n)
  show ?case
  proof (cases "pw_data s")
    case Nil
    then obtain u where u: "look_around env s = Ok () u" "get_rollout env n u = Ok r t"
      using Suc.prems by (auto simp: bnd_eq_Ok_iff)
    have "hands_out [] [] s u" using look_hands_out [of s env] u(1) by simp
    from hands_out_trans [OF this Suc.IH [OF u(2)]] show ?thesis by simp
  next
    case (Cons q qs)
    then have "r = q" "pw_out t = pw_out s @ [Rollout_Taken r]" using Suc.prems by (auto simp: did_run)
    then show ?thesis by (auto simp: hands_out_def background_def scattered_of_def history_one)
  qed
qed simp

lemma next_rollout_hands_out: "next_rollout env s = Ok r t \<Longrightarrow> hands_out [r] [] s t"
  unfolding next_rollout_def with_state_run by (rule get_rollout_hands_out)

text \<open>The rest of the loop neither takes nor scatters.\<close>

definition quiet :: "policy_worker \<Rightarrow> policy_worker \<Rightarrow> bool" where
  "quiet s t \<longleftrightarrow> hands_out [] [] s t"

interpretation silent: evolution quiet
proof
  show "quiet s s" for s by (simp add: quiet_def hands_out_refl)
  show "quiet s t \<Longrightarrow> quiet t u \<Longrightarrow> quiet s u" for s t u using hands_out_trans [of "[]" "[]" s t "[]" "[]" u] by (simp add: quiet_def)
qed

lemma quiet_modify: "(\<And>s. pw_out (f s) = pw_out s) \<Longrightarrow> evolves quiet (modify f)"
  by (rule silent.modify) (simp add: quiet_def hands_out_refl)

lemma quiet_read: "(\<And>s xs. pw_out (upd (\<lambda>_. xs) s) = pw_out s) \<Longrightarrow> evolves quiet (read_in sel upd)"
  unfolding read_in_def by (intro silent.steps) (rule quiet_modify)

lemma quiet_wanted: "evolves quiet (wanted env us)"
proof -
  have "evolves quiet (did (Teacher_Wanted u))" for u
    by (auto simp: evolves_def did_run quiet_def hands_out_def background_def scattered_of_def history_one)
  then show ?thesis unfolding wanted_def by (intro silent.steps)
qed

lemma quiet_prefetch: "evolves quiet (prefetch_all env us i own)"
  by (induction us arbitrary: i own)
    (unfold prefetch_all.simps prefetch_one_def; intro silent.steps quiet_modify; (assumption | simp)?)+

lemma quiet_teacher: "evolves quiet (prepare_teacher_uuids_for_prefetch env i n)" "evolves quiet (check_teacher r k)"
  unfolding prepare_teacher_uuids_for_prefetch_def check_teacher_def Let_def
  by (intro silent.steps quiet_modify quiet_read quiet_prefetch quiet_wanted; simp)+

lemma quiet_Ok: "evolves quiet m \<Longrightarrow> m s = Ok a t \<Longrightarrow> hands_out [] [] s t"
  unfolding evolves_def quiet_def by (metis final.simps(1))

subsection \<open>Dealing\<close>

text \<open>What rank \<open>i\<close> gets of the rollouts taken, when the first of them is dealt to data-parallel rank \<open>k\<close>.\<close>

definition dealt :: "policy_env \<Rightarrow> nat \<Rightarrow> rollout list \<Rightarrow> nat \<Rightarrow> rollout list" where
  "dealt env k rs i = map ((!) rs) (filter (\<lambda>j. (k + j) mod pe_dp_world_size env = pe_dp_rank_of env i) [0..<length rs])"

lemma dealt_Cons:
  assumes "k < pe_dp_world_size env"
  shows "dealt env k (r # rs) i = (if pe_dp_rank_of env i = k then [r] else []) @ dealt env (next_dp env k) rs i"
proof -
  let ?n = "pe_dp_world_size env"
  have "(next_dp env k + j) mod ?n = (k + Suc j) mod ?n" for j
  proof (cases "?n \<le> k + 1")
    case True
    then have "k + Suc j = ?n + j" using assms by simp
    then have "(k + Suc j) mod ?n = j mod ?n" by (simp only: mod_add_self1)
    then show ?thesis using True by (simp add: next_dp_def)
  qed (simp add: next_dp_def)
  then have "map ((!) (r # rs)) (filter (\<lambda>j. (k + j) mod ?n = pe_dp_rank_of env i) (map Suc [0..<length rs]))
      = dealt env (next_dp env k) rs i" by (simp add: dealt_def filter_map comp_def)
  moreover have "[0..<length (r # rs)] = 0 # map Suc [0..<length rs]"
    by (simp only: length_Cons upt_conv_Cons [OF zero_less_Suc] map_Suc_upt)
  ultimately show ?thesis using assms by (auto simp: dealt_def)
qed

lemma next_dp_less: "k < pe_dp_world_size env \<Longrightarrow> next_dp env k < pe_dp_world_size env"
  by (simp add: next_dp_def)

lemma scatter_loop_run:
  "scatter_loop env batch n k p acc s = Ok rss t \<Longrightarrow> k < pe_dp_world_size env \<Longrightarrow>
   \<exists>rs. hands_out rs [] s t \<and> length rs = n \<and> rss = map (\<lambda>i. acc ! i @ dealt env k rs i) [0..<length acc]"
proof (induction n arbitrary: k p acc s)
  case 0
  then show ?case by (intro exI [of _ "[]"]) (simp add: hands_out_refl dealt_def map_nth)
next
  case (Suc n)
  then obtain r u q v w where u: "next_rollout env s = Ok r u" and v: "prepare_teacher_uuids_for_prefetch env p batch u = Ok q v"
    and w: "check_teacher r k v = Ok () w" and l: "scatter_loop env batch n (next_dp env k) q (deal env r k acc) w = Ok rss t"
    by (auto simp: bnd_eq_Ok_iff)
  from Suc.IH [OF l next_dp_less [OF Suc.prems(2)]] obtain rs where rs: "hands_out rs [] w t" "length rs = n"
    "rss = map (\<lambda>i. deal env r k acc ! i @ dealt env (next_dp env k) rs i) [0..<length (deal env r k acc)]" by blast
  have "hands_out (r # rs) [] s t"
    using hands_out_trans [OF next_rollout_hands_out [OF u] hands_out_trans [OF quiet_Ok [OF quiet_teacher(1) v]
        hands_out_trans [OF quiet_Ok [OF quiet_teacher(2) w] rs(1)]]] by simp
  moreover have "rss = map (\<lambda>i. acc ! i @ dealt env k (r # rs) i) [0..<length acc]"
    unfolding rs(3) using dealt_Cons [OF Suc.prems(2)] by (auto simp: deal_def)
  ultimately show ?case using rs(2) by (intro exI [of _ "r # rs"]) simp
qed

lemma dealt_stride: "pe_dp_rank_of env i < pe_dp_world_size env \<Longrightarrow> dealt env 0 rs i = stride (pe_dp_rank_of env i) (pe_dp_world_size env) rs"
  by (simp add: dealt_def stride_filter)

lemma preprocess_run: "preprocess_rollouts env rs s = Ok rs' t \<Longrightarrow> rs' = map (local_rollout env) rs \<and> pw_out t = pw_out s"
proof -
  assume r: "preprocess_rollouts env rs s = Ok rs' t"
  have "keeps pw_out (preprocess_rollouts env rs)" unfolding preprocess_rollouts_def check_rank_of_prompt_def by (intro frame)
  from keepsD [OF this, of s] show ?thesis using r by (auto simp: preprocess_rollouts_def bnd_eq_Ok_iff)
qed


subsection \<open>A dispatch\<close>

lemma nat_times: "nat (a * int n) = nat a * n"
  by (cases "0 \<le> a") (simp_all add: nat_mult_distrib mult_nonpos_nonneg)

lemma batch_size_Inr: "batch_size env items = Inr n \<Longrightarrow> 0 < pe_dp_world_size env
    \<and> n = nat (items div int (pe_dp_world_size env)) * pe_dp_world_size env"
  by (auto simp: batch_size_def ensure_Inr_iff Let_def nat_times)

lemma length_stride: "r < n \<Longrightarrow> length rs = k * n \<Longrightarrow> length (stride r n rs) = k"
proof -
  assume r: "r < n" and l: "length rs = k * n"
  have "(k * n + n - 1 - r) div n = k"
  proof -
    have "k * n + n - 1 - r = k * n + (n - 1 - r)" using r by simp
    moreover have "(k * n + (n - 1 - r)) div n = k + (n - 1 - r) div n" using r by (intro div_mult_self3) simp
    ultimately show ?thesis using r by simp
  qed
  then show ?thesis using l by (simp add: stride_map [OF r])
qed

text \<open>C7: Rank 0 hands out the rollouts of a step: when the dispatch of a batch returns it has taken as many rollouts
  off the queue as the batch has, rounded down to a multiple of the data-parallel ranks, and sent every rank, in one
  scatter, the rollouts at the positions of its data-parallel rank, so that the data-parallel ranks share the
  batch evenly and each rollout goes to exactly one of them; its own share, with prompts from the local
  dataset if there is one, is the result.\<close>

theorem batch_shared_out:
  assumes ran: "dispatch_step_rollouts env s = Ok rs t" and central: "\<not> pe_uncentralized env" and zero: "pe_global_rank env = 0"
    and ranks: "0 < pe_world_size env" "list_all (\<lambda>i. pe_dp_rank_of env i < pe_dp_world_size env) [0..<pe_world_size env]"
  shows "\<exists>taken. hands_out taken (if pe_world_size env = 1 then [] else
        [map (\<lambda>i. stride (pe_dp_rank_of env i) (pe_dp_world_size env) taken) [0..<pe_world_size env]]) s t
    \<and> length taken = nat (pw_batch s div int (pe_dp_world_size env)) * pe_dp_world_size env
    \<and> rs = map (local_rollout env) (stride (pe_dp_rank_of env 0) (pe_dp_world_size env) taken)
    \<and> length rs = nat (pw_batch s div int (pe_dp_world_size env))
    \<and> mset (concat (map (\<lambda>r. stride r (pe_dp_world_size env) taken) [0..<pe_dp_world_size env])) = mset taken"
proof -
  let ?dp = "pe_dp_world_size env" and ?w = "pe_world_size env"
  obtain n where n: "batch_size env (pw_batch s) = Inr n" and sc: "scatter_batch env n s = Ok rs t"
    using ran central by (auto simp: dispatch_step_rollouts_def bnd_eq_Ok_iff lift_sum_def split: sum.splits)
  note b = batch_size_Inr [OF n]
  obtain rss u v w mine where l: "scatter_loop env n n 0 0 (replicate ?w []) s = Ok rss u"
    and v: "(if ?w = 1 then (case rss of [] \<Rightarrow> raise IndexError | x # _ \<Rightarrow> ret x)
          else bnd (did (Scattered rss)) (\<lambda>_. ret (rss ! 0))) u = Ok mine v" and p: "preprocess_rollouts env mine v = Ok rs t"
    using sc unfolding scatter_batch_def if_P [OF zero] by (elim bnd_OkE) (rule that)
  from scatter_loop_run [OF l] b obtain taken where taken: "hands_out taken [] s u" "length taken = n"
    "rss = map (\<lambda>i. replicate ?w [] ! i @ dealt env 0 taken i) [0..<?w]" by auto
  have rank: "pe_dp_rank_of env i < ?dp" if "i < ?w" for i using ranks(2) that by (simp add: list_all_iff)
  then have rss: "rss = map (\<lambda>i. stride (pe_dp_rank_of env i) ?dp taken) [0..<?w]"
    unfolding taken(3) by (simp add: dealt_stride)
  then have first: "rss ! 0 = stride (pe_dp_rank_of env 0) ?dp taken" "rss \<noteq> []" using ranks(1) by simp_all
  have uv: "hands_out [] (if ?w = 1 then [] else [rss]) u v \<and> mine = rss ! 0"
    using v first(2) by (auto simp: did_run hands_out_refl hands_out_def background_def scattered_of_def history_one
        split: if_splits list.splits)
  note t = preprocess_run [OF p]
  have "hands_out taken (if ?w = 1 then [] else [rss]) s t"
    using hands_out_trans [OF taken(1) hands_out_trans [OF uv [THEN conjunct1] hands_out_refl]] t by simp
  note this [unfolded rss]
  moreover have "length (stride (pe_dp_rank_of env 0) ?dp taken) = nat (pw_batch s div int ?dp)"
    by (rule length_stride [OF rank [OF ranks(1)]]) (use taken(2) b in simp)
  ultimately show ?thesis using t uv first(1) taken(2) b shares_all [of ?dp taken] by (intro exI [of _ taken] conjI) simp_all
qed

section \<open>A step of training\<close>

text \<open>Handing out rollouts adds only events of that kind and leaves the trainer alone.\<close>

definition dispatching :: "policy_worker \<Rightarrow> policy_worker \<Rightarrow> bool" where
  "dispatching s t \<longleftrightarrow> (\<exists>ds. pw_out t = pw_out s @ ds \<and> list_all background ds)
     \<and> pi_trained t = pi_trained s \<and> pi_profiled t = pi_profiled s"

interpretation dsp: evolution dispatching
proof
  show "dispatching s s" for s by (simp add: dispatching_def)
  show "dispatching s t \<Longrightarrow> dispatching t u \<Longrightarrow> dispatching s u" for s t u
    unfolding dispatching_def by (metis append.assoc list_all_append)
qed

lemma dsp_modify: "(\<And>s. pw_out (f s) = pw_out s \<and> pi_trained (f s) = pi_trained s \<and> pi_profiled (f s) = pi_profiled s) \<Longrightarrow>
    evolves dispatching (modify f)"
  by (rule dsp.modify) (simp add: dispatching_def)

lemma dsp_did: "background e \<Longrightarrow> evolves dispatching (did e)"
  by (auto simp: evolves_def did_run dispatching_def)

lemma dsp_read: "(\<And>s xs. pw_out (upd (\<lambda>_. xs) s) = pw_out s \<and> pi_trained (upd (\<lambda>_. xs) s) = pi_trained s
    \<and> pi_profiled (upd (\<lambda>_. xs) s) = pi_profiled s) \<Longrightarrow> evolves dispatching (read_in sel upd)"
  unfolding read_in_def by (intro dsp.steps dsp_modify)

lemma trainer_fetch [frame]: "keeps (\<lambda>s. (pi_trained s, pi_profiled s)) (look_around env)"
  unfolding look_around_def fetch_command_def fetch_policy_rollouts_def Let_def read_in_def
proof (intro frame)
  show "keeps (\<lambda>s. (pi_trained s, pi_profiled s)) (fetch_one env c)" for c
    by (cases c) (simp_all add: fetch_one_def keeps_modify, intro frame, simp_all add: keeps_modify did_def)
qed (simp_all add: keeps_modify)

lemma dsp_look: "evolves dispatching (look_around env)"
  unfolding evolves_def
proof
  fix s
  show "dispatching s (final (look_around env s))"
    using look_hands_out [of s env] keepsD [OF trainer_fetch, of env s] by (auto simp: dispatching_def hands_out_def)
qed

lemma dsp_get: "evolves dispatching (get_rollout env n)"
  by (induction n) (unfold get_rollout.simps; intro dsp.steps dsp_modify dsp_did dsp_look; (assumption | simp add: background_def)?)+

lemma dsp_teacher: "evolves dispatching (prepare_teacher_uuids_for_prefetch env i n)" "evolves dispatching (check_teacher r k)"
proof -
  have w: "evolves dispatching (wanted env us)" for us
    unfolding wanted_def by (intro dsp.steps dsp_did) (simp add: background_def)
  have p: "evolves dispatching (prefetch_all env us i own)" for us i own
    by (induction us arbitrary: i own)
      (unfold prefetch_all.simps prefetch_one_def; intro dsp.steps dsp_modify; (assumption | simp)?)+
  show "evolves dispatching (prepare_teacher_uuids_for_prefetch env i n)" "evolves dispatching (check_teacher r k)"
    unfolding prepare_teacher_uuids_for_prefetch_def check_teacher_def Let_def
    by (intro dsp.steps dsp_modify dsp_read p w; simp)+
qed

lemma dsp_loops: "evolves dispatching (scatter_loop env batch n i k acc)" "evolves dispatching (take_rollouts env n rs)"
proof -
  show "evolves dispatching (scatter_loop env batch n i k acc)"
    by (induction n arbitrary: i k acc)
      (unfold scatter_loop.simps next_rollout_def; intro dsp.steps dsp_get dsp_teacher; assumption?)+
  show "evolves dispatching (take_rollouts env n rs)"
    by (induction n arbitrary: rs) (unfold take_rollouts.simps next_rollout_def; intro dsp.steps dsp_get; assumption?)+
qed

lemma dsp_dispatch: "evolves dispatching (dispatch_step_rollouts env)"
  unfolding dispatch_step_rollouts_def scatter_batch_def preprocess_rollouts_def check_rank_of_prompt_def
  by (intro dsp.steps dsp_loops dsp_teacher dsp_did dsp_read; simp add: background_def)

text \<open>The trainer is called once with the rollouts handed out; the report is what it returns.\<close>

definition saves :: "policy_env \<Rightarrow> bool \<Rightarrow> policy_worker \<Rightarrow> bool" where
  "saves env do_save s \<longleftrightarrow> do_save \<or> pe_signal_handler env \<and> hd (pi_signals s) \<and> \<not> pw_signal_handled s"

lemma read_run: "read_in sel upd s = Ok x t \<longleftrightarrow> (\<exists>xs. sel s = x # xs \<and> t = upd (\<lambda>_. xs) s)"
  by (cases "sel s") (auto simp: read_in_def)

lemma saves_run: "saves_checkpoint env do_save s = Ok save t \<Longrightarrow> save = saves env do_save s
    \<and> pw_out t = pw_out s \<and> pi_trained t = pi_trained s \<and> pi_profiled t = pi_profiled s"
proof (cases "pe_signal_handler env")
  case True
  assume "saves_checkpoint env do_save s = Ok save t"
  then obtain x xs where "pi_signals s = x # xs" and
    "(if x \<and> \<not> pw_signal_handled s then bnd (modify (\<lambda>s. s\<lparr>pw_signal_handled := True\<rparr>)) (\<lambda>_. ret True) else ret do_save)
       (s\<lparr>pi_signals := xs\<rparr>) = Ok save t"
    using True by (auto simp: saves_checkpoint_def bnd_eq_Ok_iff read_run)
  then show ?thesis using True by (auto simp: saves_def split: if_splits)
qed (auto simp: saves_checkpoint_def saves_def)

lemma train_step_run:
  assumes "train_step env do_save g n m s = Ok report t"
  shows "\<exists>ds rs master. pw_out t = pw_out s @ Lr_Updated n # ds @ [Trained rs g n m (saves env do_save s) master]
    \<and> list_all background ds \<and> pi_trained s = Inr report # pi_trained t \<and> pi_profiled t = pi_profiled s"
proof -
  obtain save u rs v where u: "saves_checkpoint env do_save s = Ok save u"
    and v: "dispatch_step_rollouts env (u\<lparr>pw_out := pw_out u @ [Lr_Updated n]\<rparr>) = Ok rs v"
    and w: "bnd (read_in pi_trained pi_trained_update) lift_sum
      (v\<lparr>pw_out := pw_out v @ [Trained rs g n m save (pw_master v)]\<rparr>) = Ok report t"
    using assms by (auto simp: train_step_def bnd_eq_Ok_iff did_run)
  have "dispatching (u\<lparr>pw_out := pw_out u @ [Lr_Updated n]\<rparr>) v"
    using dsp_dispatch [of env] v unfolding evolves_def by (metis final.simps(1))
  moreover have "pi_trained v = Inr report # pi_trained t \<and> pi_profiled t = pi_profiled v
      \<and> pw_out t = pw_out v @ [Trained rs g n m save (pw_master v)]"
    using w by (auto simp: read_in_def bnd_eq_Ok_iff lift_sum_def split: list.splits sum.splits)
  ultimately show ?thesis using saves_run [OF u] by (auto simp: dispatching_def)
qed

lemma data_fetch_run:
  assumes "execute_data_fetch env c s = Ok stop t"
  shows "df_replica_name c = pe_name env \<and> stop = data_fetch_should_stop c
    \<and> (\<exists>es report. pw_out t = pw_out s @ (if df_do_profile c = Some True then [Profile_Started] else []) @ es @ [Profile_Step]
         @ (if pe_master_rank env then [Ack_Posted (df_global_step c) (df_total_steps c) (hd (pi_profiled s)) report] else [])
       \<and> (if df_items_count c = 0 then es = [] \<and> report = [] \<and> pi_trained t = pi_trained s
          else \<exists>ds rs master. es = Lr_Updated (df_total_steps c) # ds @ [Trained rs (df_global_step c) (df_total_steps c)
              (df_remain_samples_num c) (saves env (df_do_save c) s) master]
            \<and> list_all background ds \<and> pi_trained s = Inr report # pi_trained t))"
proof -
  let ?p = "if df_do_profile c = Some True then [Profile_Started] else []"
  let ?s = "s\<lparr>pw_out := pw_out s @ ?p, pw_batch := df_items_count c\<rparr>"
  obtain report u where name: "pe_name env = df_replica_name c"
    and u: "(if df_items_count c = 0 then ret [] else train_step env (df_do_save c) (df_global_step c) (df_total_steps c) (df_remain_samples_num c)) ?s = Ok report u"
    and t: "bnd (guarded (pe_master_rank env) (bnd (read_in pi_profiled pi_profiled_update) (\<lambda>finished.
       did (Ack_Posted (df_global_step c) (df_total_steps c) finished report)))) (\<lambda>_.
     ret (data_fetch_should_stop c)) (u\<lparr>pw_out := pw_out u @ [Profile_Step]\<rparr>) = Ok stop t"
    using assms by (auto simp: execute_data_fetch_def bnd_eq_Ok_iff did_run split: if_splits)
  have t': "stop = data_fetch_should_stop c \<and> pi_trained t = pi_trained u \<and> pw_out t = pw_out u @ [Profile_Step]
      @ (if pe_master_rank env then [Ack_Posted (df_global_step c) (df_total_steps c) (hd (pi_profiled u)) report] else [])"
    using t by (auto simp: read_in_def bnd_eq_Ok_iff did_run split: list.splits if_splits)
  have sv: "saves env (df_do_save c) ?s = saves env (df_do_save c) s" by (simp add: saves_def)
  show ?thesis
  proof (cases "df_items_count c = 0")
    case True
    then show ?thesis using u t' name by (intro conjI exI [of _ "[]"] exI [of _ report]) auto
  next
    case False
    then have "train_step env (df_do_save c) (df_global_step c) (df_total_steps c) (df_remain_samples_num c) ?s = Ok report u" using u by simp
    from train_step_run [OF this, unfolded sv] obtain ds rs master where
      d: "pw_out u = pw_out ?s @ Lr_Updated (df_total_steps c) # ds @ [Trained rs (df_global_step c) (df_total_steps c)
              (df_remain_samples_num c) (saves env (df_do_save c) s) master]"
      "list_all background ds" "pi_trained ?s = Inr report # pi_trained u" "pi_profiled u = pi_profiled ?s" by blast
    then have "pw_out t = pw_out s @ ?p @ (Lr_Updated (df_total_steps c) # ds
          @ [Trained rs (df_global_step c) (df_total_steps c)
              (df_remain_samples_num c) (saves env (df_do_save c) s) master]) @ [Profile_Step]
        @ (if pe_master_rank env then [Ack_Posted (df_global_step c) (df_total_steps c) (hd (pi_profiled s)) report] else [])"
      "pi_trained s = Inr report # pi_trained t" using t' by simp_all
    then show ?thesis using t' name False d(2)
      by (intro conjI exI [of _ "Lr_Updated (df_total_steps c) # ds @ [Trained rs (df_global_step c) (df_total_steps c)
              (df_remain_samples_num c) (saves env (df_do_save c) s) master]"]
          exI [of _ report]) simp_all
  qed
qed

text \<open>C8: A \<open>DATA_FETCH\<close> that a policy rank completes was meant for its replica. With nothing to train on the
  trainer is not called and the report is empty; otherwise, after the learning rate has been set for the total of
  steps and the rollouts handed out, the trainer is called exactly once, with the step, total and remaining samples of the command, and told to save a
  checkpoint if the command says so or on the first signal. Then, and only then, the master rank acknowledges that very
  step with the trainer's own report. The worker is asked to stop at the last step.\<close>

theorem data_fetch_trains:
  assumes "execute_data_fetch env c s = Ok stop t"
  shows "df_replica_name c = pe_name env \<and> stop = data_fetch_should_stop c
    \<and> (\<exists>es report. pw_out t = pw_out s @ (if df_do_profile c = Some True then [Profile_Started] else []) @ es @ [Profile_Step]
         @ (if pe_master_rank env then [Ack_Posted (df_global_step c) (df_total_steps c) (hd (pi_profiled s)) report] else [])
       \<and> (if df_items_count c = 0 then es = [] \<and> report = [] \<and> pi_trained t = pi_trained s
          else \<exists>ds rs master. es = Lr_Updated (df_total_steps c) # ds @ [Trained rs (df_global_step c) (df_total_steps c)
              (df_remain_samples_num c) (saves env (df_do_save c) s) master]
            \<and> list_all background ds \<and> pi_trained s = Inr report # pi_trained t))"
  by (rule data_fetch_run [OF assms])

section \<open>The end of the main loop\<close>

text \<open>The events that structure a run: commands started, the last wait, the end.\<close>

definition structural :: "policy_event \<Rightarrow> bool" where
  "structural e \<longleftrightarrow> counted e \<and> \<not> background e \<or> e = Final_Wait \<or> e = Shut_Down"

definition skeleton :: "policy_event list \<Rightarrow> policy_event list" where
  "skeleton out = filter structural out"

lemma skeleton_simps [simp]: "skeleton (a @ b) = skeleton a @ skeleton b" "skeleton [] = []"
  by (simp_all add: skeleton_def)

lemma skel_did: "keeps (\<lambda>s. skeleton (pw_out s)) (did e)" if "\<not> structural e"
  using that by (auto intro!: keepsI simp: did_run skeleton_def)

lemma skel_modify: "(\<And>s. pw_out (f s) = pw_out s) \<Longrightarrow> keeps (\<lambda>s. skeleton (pw_out s)) (modify f)"
  by (simp add: keeps_modify)

lemma skel_dispatch: "evolves dispatching m \<Longrightarrow> keeps (\<lambda>s. skeleton (pw_out s)) m"
proof (rule keepsI)
  fix s
  assume "evolves dispatching m"
  then obtain ds where ds: "pw_out (final (m s)) = pw_out s @ ds" "list_all background ds"
    unfolding evolves_def dispatching_def by blast
  from ds(2) have "skeleton ds = []"
    by (auto simp: skeleton_def structural_def background_def list_all_iff filter_empty_conv)
  then show "skeleton (pw_out (final (m s))) = skeleton (pw_out s)" by (simp add: ds(1))
qed

lemma skel_read [frame]: "(\<And>s xs. pw_out (upd (\<lambda>_. xs) s) = pw_out s) \<Longrightarrow> keeps (\<lambda>s. skeleton (pw_out s)) (read_in sel upd)"
  unfolding read_in_def by (intro frame skel_modify)

lemma skel_sends [frame]: "keeps (\<lambda>s. skeleton (pw_out s)) (send_groups env tr gs ops num cnt)"
proof -
  have g: "keeps (\<lambda>s. skeleton (pw_out s)) (grouped_send env ops)" for ops
    unfolding grouped_send_def by (intro frame skel_did; simp add: structural_def counted_def)
  show ?thesis by (induction gs arbitrary: ops num cnt) (unfold send_groups.simps; intro frame g; assumption?)+
qed

lemma skel_handlers [frame]: "keeps (\<lambda>s. skeleton (pw_out s)) (execute_policy_to_policy_broadcast env src dsts)"
    "keeps (\<lambda>s. skeleton (pw_out s)) (execute_policy_to_policy_unicast env src dst)"
    "keeps (\<lambda>s. skeleton (pw_out s)) (execute_policy_to_rollout_unicast env src world tr)"
    "keeps (\<lambda>s. skeleton (pw_out s)) (execute_weight_resume env)"
    "keeps (\<lambda>s. skeleton (pw_out s)) (execute_data_fetch env c)"
  unfolding execute_policy_to_policy_broadcast_def execute_policy_to_policy_unicast_def execute_policy_to_rollout_unicast_def
    execute_weight_resume_def fetch_send_insts_def send_weights_def check_synced_def Let_def execute_data_fetch_def
    train_step_def saves_checkpoint_def
  by (intro frame skel_modify skel_did skel_dispatch [OF dsp_dispatch]; simp add: structural_def counted_def)+

lemma started_skeleton: "started_of (skeleton out) = started_of out"
  by (induction out)
    (auto simp: started_of_def skeleton_def structural_def counted_def background_def split: policy_event.splits)

lemma started_commands [simp]: "started_of (map Command_Started cs) = cs"
  by (induction cs) (simp_all add: started_of_def)

text \<open>The commands on which a worker asks to stop: the last step, and a broadcast that is not for it.\<close>

definition asks_to_stop :: "policy_env \<Rightarrow> command \<Rightarrow> bool" where
  "asks_to_stop env c = (case c of
     PolicyToPolicyBroadcast u src dsts t \<Rightarrow> pe_name env \<noteq> src \<and> pe_name env \<notin> set dsts
   | DataFetch u name items global_step total_steps remain save prof act filt shp mem stk mods \<Rightarrow> data_fetch_should_stop c
   | _ \<Rightarrow> False)"

lemma execute_stops:
  assumes "execute_policy_command env c s = Ok stop t"
  shows "stop = asks_to_stop env c \<and> skeleton (pw_out t) = skeleton (pw_out s) @ [Command_Started c]"
proof -
  let ?u = "s\<lparr>pw_out := pw_out s @ [Command_Started c]\<rparr>"
  let ?m = "case c of
     PolicyToPolicyBroadcast u src dsts t \<Rightarrow> execute_policy_to_policy_broadcast env src dsts
   | PolicyToPolicyUnicast u src dst t \<Rightarrow> execute_policy_to_policy_unicast env src dst
   | PolicyToRolloutUnicast u src dst ss ds chk trainable_only w t \<Rightarrow> execute_policy_to_rollout_unicast env src ss trainable_only
   | WeightResume u name \<Rightarrow> execute_weight_resume env
   | DataFetch u name items global_step total_steps remain save prof act filt shp mem stk mods \<Rightarrow> execute_data_fetch env c
   | _ \<Rightarrow> raise GenericException"
  have m: "?m ?u = Ok stop t" using assms by (simp add: execute_policy_command_def did_run)
  have "keeps (\<lambda>s. skeleton (pw_out s)) ?m" by (cases c) (simp_all add: frame)
  from keeps_Ok [OF this m] have sk: "skeleton (pw_out t) = skeleton (pw_out s) @ [Command_Started c]"
    by (simp add: skeleton_def structural_def counted_def background_def)
  have "stop = asks_to_stop env c"
  proof (cases c)
    case (PolicyToRolloutUnicast u src dst ss ds chk tr w n)
    then show ?thesis using m
      by (auto simp: asks_to_stop_def execute_policy_to_rollout_unicast_def bnd_eq_Ok_iff split: if_splits)
  next
    case (DataFetch u name items g n remain save prof act filt shp mem stk mods)
    then show ?thesis using data_fetch_run [of env c ?u stop t] m by (simp add: asks_to_stop_def)
  qed (use m in \<open>auto simp: asks_to_stop_def execute_policy_to_policy_broadcast_def execute_policy_to_policy_unicast_def
      execute_weight_resume_def Let_def bnd_eq_Ok_iff split: if_splits\<close>)
  with sk show ?thesis by simp
qed

lemma run_commands_stops:
  "run_commands env n abort s = Ok stop t \<Longrightarrow> \<exists>cs. skeleton (pw_out t) = skeleton (pw_out s) @ map Command_Started cs
     \<and> stop = (abort \<or> list_ex (asks_to_stop env) cs)"
proof (induction n arbitrary: abort s)
  case 0
  then show ?case by (intro exI [of _ "[]"]) simp
next
  case (Suc n)
  show ?case
  proof (cases "pw_commands s")
    case Nil
    then show ?thesis using Suc.prems by (intro exI [of _ "[]"]) simp
  next
    case (Cons c cs)
    then obtain b u where u: "execute_policy_command env c (s\<lparr>pw_commands := cs\<rparr>) = Ok b u" "run_commands env n (b \<or> abort) u = Ok stop t"
      using Suc.prems by (auto simp: bnd_eq_Ok_iff)
    from Suc.IH [OF u(2)] obtain ds where "skeleton (pw_out t) = skeleton (pw_out u) @ map Command_Started ds"
      "stop = ((b \<or> abort) \<or> list_ex (asks_to_stop env) ds)" by blast
    with execute_stops [OF u(1)] show ?thesis by (intro exI [of _ "c # ds"]) auto
  qed
qed

lemma policy_round_stops:
  assumes "policy_round env abort s = Ok stop t"
  shows "\<exists>cs. skeleton (pw_out t) = skeleton (pw_out s) @ (if abort then [Final_Wait] else []) @ map Command_Started cs
    \<and> stop = (abort \<or> list_ex (asks_to_stop env) cs)"
proof -
  let ?s = "if abort then s\<lparr>pw_out := pw_out s @ [Final_Wait]\<rparr> else s"
  obtain u where u: "broadcast_command env ?s = Ok () u" "run_commands env (length (pw_commands u)) abort u = Ok stop t"
    using assms by (auto simp: policy_round_def bnd_eq_Ok_iff did_run split: if_splits)
  have "keeps (\<lambda>s. skeleton (pw_out s)) (broadcast_command env)"
    unfolding broadcast_command_def by (intro frame skel_dispatch [OF dsp_look] skel_modify) simp
  from keeps_Ok [OF this u(1)] run_commands_stops [OF u(2)] show ?thesis
    by (auto simp: skeleton_def structural_def split: if_splits)
qed

text \<open>C30: The main loop of a policy worker ends exactly one round after a command that asks for it: the last step or a
  broadcast between policy replicas that is not for this one. If it has ended, no command of the rounds before
  asked to stop, one of the next round did, and after a single last wait one more round was carried out, and that is all.
  If it is still going on after \<open>n\<close> rounds, nothing asked to stop before the last of them; if one of the last
  did, then with any more rounds at its disposal the loop carries out one, whatever its commands, and ends, and otherwise
  it goes on as a loop that starts there.\<close>

theorem main_loop_ends:
  assumes "policy_loop env n False s = Ok ended t"
  shows "\<exists>before round_end after. \<not> list_ex (asks_to_stop env) before
    \<and> skeleton (pw_out t) = skeleton (pw_out s) @ map Command_Started (before @ round_end)
        @ (if ended then [Final_Wait] @ map Command_Started after @ [Shut_Down] else [])
    \<and> (ended \<longrightarrow> list_ex (asks_to_stop env) round_end)
    \<and> (\<not> ended \<longrightarrow> (\<forall>m. policy_loop env (n + Suc m) False s =
         (if list_ex (asks_to_stop env) round_end
          then bnd (policy_round env True) (\<lambda>_. bnd (did Shut_Down) (\<lambda>_. ret True)) t
          else policy_loop env (Suc m) False t)))"
  using assms
proof (induction n arbitrary: s)
  case 0
  then show ?case by (intro exI [of _ "[]"]) (simp del: policy_loop.simps(2))
next
  case (Suc n)
  then obtain stop u where u: "policy_round env False s = Ok stop u" "policy_loop env n stop u = Ok ended t"
    by (auto simp: bnd_eq_Ok_iff)
  from policy_round_stops [OF u(1)] obtain cs where cs: "skeleton (pw_out u) = skeleton (pw_out s) @ map Command_Started cs"
    "stop = list_ex (asks_to_stop env) cs" by auto
  have first: "policy_loop env (Suc n + Suc m) False s = policy_loop env (n + Suc m) stop u" for m
    using u(1) by simp
  show ?case
  proof (cases stop)
    case False
    then have "policy_loop env n False u = Ok ended t" using u(2) by simp
    from Suc.IH [OF this] obtain before round_end after where ih: "\<not> list_ex (asks_to_stop env) before"
      "skeleton (pw_out t) = skeleton (pw_out u) @ map Command_Started (before @ round_end)
        @ (if ended then [Final_Wait] @ map Command_Started after @ [Shut_Down] else [])"
      "ended \<longrightarrow> list_ex (asks_to_stop env) round_end"
      "\<not> ended \<longrightarrow> (\<forall>m. policy_loop env (n + Suc m) False u =
         (if list_ex (asks_to_stop env) round_end
          then bnd (policy_round env True) (\<lambda>_. bnd (did Shut_Down) (\<lambda>_. ret True)) t
          else policy_loop env (Suc m) False t))" by blast
    show ?thesis unfolding first using cs False ih
      by (intro exI [of _ "cs @ before"] exI [of _ round_end] exI [of _ after]) (simp del: policy_loop.simps)
  next
    case True
    show ?thesis
    proof (cases n)
      case 0
      then have t: "\<not> ended" "t = u" using u(2) by auto
      show ?thesis unfolding first using cs True t 0
        by (intro exI [of _ "[]"] exI [of _ cs]) simp
    next
      case (Suc m)
      then obtain b v where v: "policy_round env True u = Ok b v" "t = v\<lparr>pw_out := pw_out v @ [Shut_Down]\<rparr>" "ended"
        using u(2) True by (auto simp: bnd_eq_Ok_iff did_run)
      from policy_round_stops [OF v(1)] obtain after where
        "skeleton (pw_out v) = skeleton (pw_out u) @ [Final_Wait] @ map Command_Started after" by auto
      with cs True v(2,3) show ?thesis
        by (intro exI [of _ "[]"] exI [of _ cs] exI [of _ after]) (auto simp: skeleton_def structural_def)
    qed
  qed
qed

section \<open>Runs on a concrete worker\<close>

text \<open>Rank 0 of two data-parallel ranks.\<close>

definition train_env :: policy_env where
  "train_env = sample_policy_env\<lparr>pe_global_rank := 0, pe_master_rank := True, pe_lora := False\<rparr>"

definition step_rollout :: "int \<Rightarrow> string \<Rightarrow> rollout" where
  "step_rollout i uuid = \<lparr>ro_prompt = VStr ''q'', ro_prompt_idx = i, ro_conversation = None, ro_completion = VStr ''a'',
     ro_completed_conversation = None, ro_is_end = False, ro_reward = 1, ro_advantage = 0, ro_n_ignore_prefix_tokens = 0,
     ro_filter_reward = 0, ro_completion_token_ids = None, ro_completion_logprobs = None, ro_prompt_logprobs = None,
     ro_prompt_token_ids = None, ro_extra_info = None, ro_weight_version = 0, ro_report_metrics = None,
     ro_teacher_result_uuid = uuid, ro_teacher_logprobs = None\<rparr>"

definition step_command :: "int \<Rightarrow> int \<Rightarrow> command" where
  "step_command items k = DataFetch ''u'' ''p0'' items (Some k) (Some 2) 0 False None None None None None None None"

definition step_tick :: "int \<Rightarrow> int \<Rightarrow> rollout list \<Rightarrow> policy_tick" where
  "step_tick items k rs = \<lparr>pt_commands = [step_command items k], pt_rollouts = [map Some rs], pt_mesh = None\<rparr>"

definition no_tick :: policy_tick where
  "no_tick = \<lparr>pt_commands = [], pt_rollouts = [], pt_mesh = None\<rparr>"

text \<open>Two steps, then the last round. The third rollout of the first step waits for the second.\<close>

definition training_run :: policy_worker where
  "training_run = new_policy [step_tick 3 1 [step_rollout 0 '''', step_rollout 1 '''', step_rollout 2 ''''],
     step_tick 2 2 [step_rollout 3 ''''], no_tick] [] [] [Inr [], Inr []] [] [False, False]"

lemma training_run_ends: "\<exists>t. policy_loop train_env 3 False training_run = Ok True t
    \<and> scattered_of (pw_out t) = [[[step_rollout 0 ''''], [step_rollout 1 '''']], [[step_rollout 2 ''''], [step_rollout 3 '''']]]"
proof -
  let ?r = "policy_loop train_env 3 False training_run"
  have "returned ?r = Some True"
    "scattered_of (pw_out (final ?r)) = [[[step_rollout 0 ''''], [step_rollout 1 '''']], [[step_rollout 2 ''''], [step_rollout 3 '''']]]"
    by code_simp+
  then show ?thesis by (cases ?r) auto
qed

theorem main_loop_ends_witness:
  "\<exists>t u before round_end after. policy_loop train_env 3 False training_run = Ok True t
    \<and> skeleton (pw_out t) = map Command_Started (before @ round_end) @ [Final_Wait] @ map Command_Started after @ [Shut_Down]
    \<and> \<not> list_ex (asks_to_stop train_env) before \<and> list_ex (asks_to_stop train_env) round_end
    \<and> policy_loop train_env 2 False training_run = Ok False u
    \<and> (\<forall>m. policy_loop train_env (2 + Suc m) False training_run
         = bnd (policy_round train_env True) (\<lambda>_. bnd (did Shut_Down) (\<lambda>_. ret True)) u)"
proof -
  let ?two = "policy_loop train_env 2 False training_run"
  obtain t where t: "policy_loop train_env 3 False training_run = Ok True t" using training_run_ends by blast
  have "returned ?two = Some False" and asks: "list_ex (asks_to_stop train_env) (started_of (pw_out (final ?two)))" by code_simp+
  then obtain u where u: "?two = Ok False u" by (cases ?two) auto
  have out: "pw_out training_run = []" by (simp add: training_run_def new_policy_def)
  obtain before round_end where r: "\<not> list_ex (asks_to_stop train_env) before"
    "skeleton (pw_out u) = map Command_Started (before @ round_end)"
    "\<forall>m. policy_loop train_env (2 + Suc m) False training_run =
         (if list_ex (asks_to_stop train_env) round_end
          then bnd (policy_round train_env True) (\<lambda>_. bnd (did Shut_Down) (\<lambda>_. ret True)) u
          else policy_loop train_env (Suc m) False u)"
    using main_loop_ends [OF u] out by auto
  have "started_of (pw_out u) = before @ round_end" using started_skeleton [of "pw_out u"] r(2) by simp
  then have "list_ex (asks_to_stop train_env) round_end" using asks u r(1) by simp
  with main_loop_ends [OF t] t u r(3) out show ?thesis by (auto simp del: policy_loop.simps)
qed

definition batch_worker :: policy_worker where
  "batch_worker = training_run\<lparr>pw_batch := 3\<rparr>"

theorem batch_shared_out_witness:
  "\<exists>rs t taken. dispatch_step_rollouts train_env batch_worker = Ok rs t \<and> length taken = 2
    \<and> hands_out taken [[stride 0 2 taken, stride 1 2 taken]] batch_worker t \<and> rs = stride 0 2 taken"
proof -
  let ?r = "dispatch_step_rollouts train_env batch_worker"
  have "returned ?r = Some [step_rollout 0 '''']" by code_simp
  then obtain t where t: "?r = Ok [step_rollout 0 ''''] t" by (cases ?r) auto
  have env: "\<not> pe_uncentralized train_env" "pe_global_rank train_env = 0" "pe_world_size train_env = 2"
    "pe_dp_world_size train_env = 2" "pe_dp_rank_of train_env = id" "pw_batch batch_worker = 3" "\<not> pe_local_dataset train_env"
    by (simp_all add: train_env_def sample_policy_env_def batch_worker_def)
  have two: "[0..<2::nat] = [0, 1]" by (simp add: upt_rec)
  have "local_rollout train_env r = r" for r by (simp add: local_rollout_def env(7))
  then have l: "map (local_rollout train_env) rs = rs" for rs by (simp add: map_idI)
  from batch_shared_out [OF t env(1,2)] have
    "\<exists>taken. hands_out taken [[stride 0 2 taken, stride 1 2 taken]] batch_worker t \<and> length taken = 2 \<and>
       [step_rollout 0 ''''] = stride 0 2 taken"
    by (simp add: env two l) blast
  with t show ?thesis by blast
qed

theorem data_fetch_trains_witness:
  "\<exists>t es report. execute_data_fetch train_env (step_command 3 1) training_run = Ok False t
    \<and> pw_out t = es @ [Profile_Step, Ack_Posted (Some 1) (Some 2) False report] \<and> pi_trained training_run = Inr report # pi_trained t"
proof -
  let ?r = "execute_data_fetch train_env (step_command 3 1) training_run"
  have "returned ?r = Some False" by code_simp
  then obtain t where t: "?r = Ok False t" by (cases ?r) auto
  have c: "df_items_count (step_command 3 1) = 3" "df_global_step (step_command 3 1) = Some 1" "df_total_steps (step_command 3 1) = Some 2"
    "df_do_profile (step_command 3 1) = None" "pe_master_rank train_env" "pw_out training_run = []" "hd (pi_profiled training_run) = False"
    by (simp_all add: step_command_def train_env_def training_run_def new_policy_def)
  from data_fetch_trains [OF t] t show ?thesis by (auto simp: c)
qed

text \<open>The uuids of teacher results are dealt from data-parallel rank 0 again in every step, whatever was dealt before. When
  a step leaves a rollout over - here the third of three, with two data-parallel ranks - the uuids of the next step are
  dealt to other ranks than their rollouts.\<close>

definition distillation_run :: policy_worker where
  "distillation_run = new_policy [step_tick 3 1 [step_rollout 0 ''a'', step_rollout 1 ''b'', step_rollout 2 ''c''],
     step_tick 3 2 [step_rollout 3 ''d'', step_rollout 4 ''e'', step_rollout 5 ''f''], no_tick] [] [] [Inr [], Inr []] [] [False, False]"

text \<open>With distillation, a batch that is no multiple of the data-parallel ranks makes the policy worker fail in
  its second step: the check that a rollout goes to the rank that fetches its teacher result does not hold.\<close>

theorem teacher_results_misdealt:
  "let r = policy_loop (train_env\<lparr>pe_distillation := True\<rparr>) 3 False distillation_run in
   raised r = Some AssertionError \<and> started_of (pw_out (final r)) = [step_command 3 1, step_command 3 2]
   \<and> taken_of (pw_out (final r)) = [step_rollout 0 ''a'', step_rollout 1 ''b'', step_rollout 2 ''c'', step_rollout 3 ''d'']"
  by code_simp

end
