(* ===== verification/HA_Nccl.thy ===== *)
theory HA_Nccl
  imports Py_Base
begin

text \<open>The communicator between policy replicas that is rebuilt while the program runs, \<open>HighAvailabilitylNccl\<close> of
  src/cosmos\_rl/utils/distributed.py: a background thread destroys and builds communicators on command, the
  thread of the worker runs operations on whatever communicator is there, with retries. The two interleave at
  their accesses to the shared fields; a lock covers building and enqueueing. What NCCL, the controller and the
  GPU answer is part of a step.\<close>

section \<open>State\<close>

datatype ha_cmd = Destroy_Comm | Build_New "(string, int) dict"

datatype nccl_op = All_Reduce | Broadcast_From string | Send_To string | Recv_From string

datatype lock_holder = Build_Thread | Op_Thread

text \<open>Where the background thread is; from \<open>Clearing\<close> to the end of a command it holds the lock.\<close>

datatype build_phase =
    Fetching
  | Fetched ha_cmd
  | Clearing ha_cmd
  | Destroying ha_cmd
  | Building "(string, int) dict"
  | Single_Mesh
  | Single_Marked
  | Exchanging "(string, int) dict"
  | Creating "(string, int) dict"
  | Publishing "(string, int) dict"
  | Unmarking
  | Readying
  | Cleaning
  | Died error

datatype op_result = Op_Succeeded | Op_Skipped | Op_Gave_Up | Op_Raised error

text \<open>Where an operation is: the attempt, counted from 0, the rank of the peer, the communicator in use.\<close>

datatype op_phase =
    Resolving string
  | Reading string
  | Checking "int option"
  | Waiting nat "int option"
  | Locking nat "int option"
  | Running nat "int option" int
  | Flushing nat "int option" int
  | Failing nat "int option"
  | Reporting nat "int option"
  | Op_Done op_result

datatype ha_event = Op_Begun nccl_op | Op_Run int "int option" | Comm_Made int | Comm_Aborted int | Error_Reported

text \<open>\<open>ha_members\<close>: the communicators made so far and the ranks of the replicas in them. No communicator is -1.\<close>

record ha =
  ha_name :: string
  ha_queue :: "ha_cmd list"
  ha_build :: build_phase
  ha_op :: op_phase
  ha_lock :: "lock_holder option"
  ha_comm :: int
  ha_ranks :: "(string, int) dict"
  ha_single :: bool
  ha_ready :: bool
  ha_members :: "(int, (string, int) dict) dict"
  ha_out :: "ha_event list"

definition new_ha :: "string \<Rightarrow> ha" where
  "new_ha name = \<lparr>ha_name = name, ha_queue = [], ha_build = Fetching, ha_op = Op_Done Op_Skipped, ha_lock = None,
     ha_comm = -1, ha_ranks = [], ha_single = False, ha_ready = False, ha_members = [], ha_out = []\<rparr>"

definition max_retry :: nat where
  "max_retry = 3"

section \<open>Steps\<close>

text \<open>A step: a command is pushed, one of the threads goes on, or it is told how a call outside ended.\<close>

datatype ha_label =
    Push ha_cmd
  | Build_Goes_On
  | Request_Fails
  | Comm_Created int
  | Comm_Fails bool
  | Op_Starts nccl_op
  | Op_Goes_On
  | Op_Enqueued
  | Op_Flushed
  | Op_Fails
  | Report_Fails

definition log_ha :: "ha_event \<Rightarrow> ha \<Rightarrow> ha" where
  "log_ha e s = s\<lparr>ha_out := ha_out s @ [e]\<rparr>"

definition release_build :: "build_phase \<Rightarrow> ha \<Rightarrow> ha" where
  "release_build p s = s\<lparr>ha_lock := None, ha_build := p\<rparr>"

text \<open>\<open>__execute_destroy_nccl_comm\<close> without the flag, and \<open>__execute_build_mesh\<close> up to the key exchange.\<close>

definition destroy_comm :: "ha \<Rightarrow> ha" where
  "destroy_comm s = s\<lparr>ha_comm := -1, ha_out := ha_out s @ (if ha_comm s = -1 then [] else [Comm_Aborted (ha_comm s)])\<rparr>"

definition start_building :: "(string, int) dict \<Rightarrow> ha \<Rightarrow> ha" where
  "start_building ranks s = (if length ranks = 1
     then (if ha_name s \<in> set (dict_keys ranks) then s\<lparr>ha_ranks := ranks, ha_build := Single_Mesh\<rparr>
           else release_build (Died AssertionError) (s\<lparr>ha_ranks := ranks\<rparr>))
     else if ha_name s \<in> set (dict_keys ranks) then s\<lparr>ha_build := Exchanging ranks\<rparr>
     else release_build (Died AssertionError) s)"

text \<open>The next step of the background thread when every request succeeds; \<open>None\<close> when it has to wait.\<close>

fun build_goes_on :: "build_phase \<Rightarrow> ha \<Rightarrow> ha option" where
  "build_goes_on Fetching s = (case ha_queue s of [] \<Rightarrow> None | c # cs \<Rightarrow> Some (s\<lparr>ha_queue := cs, ha_build := Fetched c\<rparr>))"
| "build_goes_on (Fetched c) s = (if ha_lock s = None then Some (s\<lparr>ha_lock := Some Build_Thread, ha_build := Clearing c\<rparr>) else None)"
| "build_goes_on (Clearing c) s = Some (s\<lparr>ha_ready := False, ha_build := Destroying c\<rparr>)"
| "build_goes_on (Destroying c) s = Some (case c of Destroy_Comm \<Rightarrow> release_build Fetching (destroy_comm s)
     | Build_New ranks \<Rightarrow> (destroy_comm s)\<lparr>ha_build := Building ranks\<rparr>)"
| "build_goes_on (Building ranks) s = Some (start_building ranks s)"
| "build_goes_on Single_Mesh s = Some (s\<lparr>ha_single := True, ha_build := Single_Marked\<rparr>)"
| "build_goes_on Single_Marked s = Some (release_build Fetching (s\<lparr>ha_ready := True\<rparr>))"
| "build_goes_on (Exchanging ranks) s = Some (s\<lparr>ha_build := Creating ranks\<rparr>)"
| "build_goes_on (Creating ranks) s = None"
| "build_goes_on (Publishing ranks) s = Some (s\<lparr>ha_ranks := ranks, ha_build := Unmarking\<rparr>)"
| "build_goes_on Unmarking s = Some (s\<lparr>ha_single := False, ha_build := Readying\<rparr>)"
| "build_goes_on Readying s = Some (s\<lparr>ha_ready := True, ha_build := Cleaning\<rparr>)"
| "build_goes_on Cleaning s = Some (release_build Fetching s)"
| "build_goes_on (Died e) s = None"

text \<open>The exchange of the key and clearing the store may fail; the exception ends the thread.\<close>

definition request_fails :: "ha \<Rightarrow> ha option" where
  "request_fails s = (case ha_build s of Exchanging ranks \<Rightarrow> Some (release_build (Died RuntimeError) s)
     | Cleaning \<Rightarrow> (if dict_get (ha_ranks s) (ha_name s) = Some 0 then Some (release_build (Died RuntimeError) s) else None)
     | _ \<Rightarrow> None)"

definition comm_created :: "int \<Rightarrow> ha \<Rightarrow> ha option" where
  "comm_created k s = (case ha_build s of Creating ranks \<Rightarrow>
       if k = -1 then None else Some ((log_ha (Comm_Made k) s)\<lparr>ha_comm := k, ha_members := dict_set k ranks (ha_members s),
         ha_build := Publishing ranks\<rparr>)
     | _ \<Rightarrow> None)"

definition comm_fails :: "bool \<Rightarrow> ha \<Rightarrow> ha option" where
  "comm_fails reported s = (case ha_build s of Creating ranks \<Rightarrow>
       Some (if reported then release_build Fetching (destroy_comm ((log_ha Error_Reported s)\<lparr>ha_ready := False\<rparr>))
             else release_build (Died RuntimeError) s)
     | _ \<Rightarrow> None)"

text \<open>\<open>broadcast\<close>, \<open>send\<close> and \<open>recv\<close> look up the rank of their peer first, \<open>allreduce\<close> does not.\<close>

definition op_starts :: "nccl_op \<Rightarrow> ha \<Rightarrow> ha option" where
  "op_starts a s = (case ha_op s of Op_Done r \<Rightarrow> Some ((log_ha (Op_Begun a) s)\<lparr>ha_op := (case a of All_Reduce \<Rightarrow> Checking None
       | Broadcast_From n \<Rightarrow> Resolving n | Send_To n \<Rightarrow> Resolving n | Recv_From n \<Rightarrow> Resolving n)\<rparr>)
     | _ \<Rightarrow> None)"

fun op_goes_on :: "op_phase \<Rightarrow> ha \<Rightarrow> ha option" where
  "op_goes_on (Resolving n) s = (if ha_ready s then Some (s\<lparr>ha_op := Reading n\<rparr>) else None)"
| "op_goes_on (Reading n) s = Some (s\<lparr>ha_op := (case dict_get (ha_ranks s) n of None \<Rightarrow> Op_Done (Op_Raised KeyError)
     | Some r \<Rightarrow> Checking (Some r))\<rparr>)"
| "op_goes_on (Checking r) s = Some (s\<lparr>ha_op := (if ha_single s then Op_Done Op_Skipped else Waiting 0 r)\<rparr>)"
| "op_goes_on (Waiting n r) s = (if ha_ready s then Some (s\<lparr>ha_op := Locking n r\<rparr>) else None)"
| "op_goes_on (Locking n r) s = (if ha_lock s = None
     then Some ((log_ha (Op_Run (ha_comm s) r) s)\<lparr>ha_lock := Some Op_Thread, ha_op := Running n r (ha_comm s)\<rparr>) else None)"
| "op_goes_on (Failing n r) s = Some (s\<lparr>ha_ready := False, ha_op := Reporting n r\<rparr>)"
| "op_goes_on (Reporting n r) s = Some ((log_ha Error_Reported s)\<lparr>ha_op := (if Suc n < max_retry then Waiting (Suc n) r else Op_Done Op_Gave_Up)\<rparr>)"
| "op_goes_on (Running n r c) s = None"
| "op_goes_on (Flushing n r c) s = None"
| "op_goes_on (Op_Done r) s = None"

text \<open>Enqueueing holds the lock; it is released before the watchdog waits for the stream.\<close>

definition op_enqueued :: "ha \<Rightarrow> ha option" where
  "op_enqueued s = (case ha_op s of Running n r c \<Rightarrow> Some (s\<lparr>ha_lock := None, ha_op := Flushing n r c\<rparr>) | _ \<Rightarrow> None)"

definition op_flushed :: "ha \<Rightarrow> ha option" where
  "op_flushed s = (case ha_op s of Flushing n r c \<Rightarrow> Some (s\<lparr>ha_op := Op_Done Op_Succeeded\<rparr>) | _ \<Rightarrow> None)"

definition op_fails :: "ha \<Rightarrow> ha option" where
  "op_fails s = (case ha_op s of Running n r c \<Rightarrow> Some (s\<lparr>ha_lock := None, ha_op := Failing n r\<rparr>)
     | Flushing n r c \<Rightarrow> Some (s\<lparr>ha_op := Failing n r\<rparr>) | _ \<Rightarrow> None)"

definition report_fails :: "ha \<Rightarrow> ha option" where
  "report_fails s = (case ha_op s of Reporting n r \<Rightarrow> Some (s\<lparr>ha_op := Op_Done (Op_Raised RuntimeError)\<rparr>) | _ \<Rightarrow> None)"

fun ha_step :: "ha_label \<Rightarrow> ha \<Rightarrow> ha option" where
  "ha_step (Push c) s = Some (s\<lparr>ha_queue := ha_queue s @ [c]\<rparr>)"
| "ha_step Build_Goes_On s = build_goes_on (ha_build s) s"
| "ha_step Request_Fails s = request_fails s"
| "ha_step (Comm_Created k) s = comm_created k s"
| "ha_step (Comm_Fails reported) s = comm_fails reported s"
| "ha_step (Op_Starts a) s = op_starts a s"
| "ha_step Op_Goes_On s = op_goes_on (ha_op s) s"
| "ha_step Op_Enqueued s = op_enqueued s"
| "ha_step Op_Flushed s = op_flushed s"
| "ha_step Op_Fails s = op_fails s"
| "ha_step Report_Fails s = report_fails s"

inductive ha_reachable :: "string \<Rightarrow> ha \<Rightarrow> bool" for name where
  start: "ha_reachable name (new_ha name)"
| step: "ha_reachable name s \<Longrightarrow> ha_step l s = Some t \<Longrightarrow> ha_reachable name t"

primrec ha_run :: "ha_label list \<Rightarrow> ha \<Rightarrow> ha option" where
  "ha_run [] s = Some s"
| "ha_run (l # ls) s = (case ha_step l s of None \<Rightarrow> None | Some t \<Rightarrow> ha_run ls t)"

lemma step_name: "ha_step l s = Some t \<Longrightarrow> ha_name t = ha_name s"
proof (cases l)
  case Build_Goes_On
  assume "ha_step l s = Some t"
  then show ?thesis using Build_Goes_On
    by (cases "ha_build s") (auto simp: release_build_def destroy_comm_def start_building_def split: list.splits if_splits ha_cmd.splits)
next
  case Op_Goes_On
  assume "ha_step l s = Some t"
  then show ?thesis using Op_Goes_On by (cases "ha_op s") (auto simp: log_ha_def split: if_splits)
qed (auto simp: request_fails_def comm_created_def comm_fails_def op_starts_def op_enqueued_def op_flushed_def op_fails_def
    report_fails_def log_ha_def release_build_def destroy_comm_def split: build_phase.splits op_phase.splits if_splits)

lemma reachable_name: "ha_reachable name s \<Longrightarrow> ha_name s = name"
  by (induction rule: ha_reachable.induct) (simp_all add: new_ha_def step_name)

lemma run_reachable: "ha_reachable name s \<Longrightarrow> ha_run ls s = Some t \<Longrightarrow> ha_reachable name t"
  by (induction ls arbitrary: s) (auto intro: ha_reachable.step split: option.splits)

section \<open>Which communicator an operation uses\<close>

definition holding :: "build_phase \<Rightarrow> bool" where
  "holding p = (case p of Fetching \<Rightarrow> False | Fetched c \<Rightarrow> False | Died e \<Rightarrow> False | _ \<Rightarrow> True)"

definition dark :: "build_phase \<Rightarrow> bool" where
  "dark p = (case p of Fetching \<Rightarrow> False | Fetched c \<Rightarrow> False | Clearing c \<Rightarrow> False | Cleaning \<Rightarrow> False | Died e \<Rightarrow> False | _ \<Rightarrow> True)"

definition run_of :: "op_phase \<Rightarrow> int option" where
  "run_of p = (case p of Running n r c \<Rightarrow> Some c | _ \<Rightarrow> None)"

definition multi :: "string \<Rightarrow> (string, int) dict \<Rightarrow> bool" where
  "multi name ranks \<longleftrightarrow> length ranks \<noteq> 1 \<and> name \<in> set (dict_keys ranks)"

definition alone :: "string \<Rightarrow> (string, int) dict \<Rightarrow> bool" where
  "alone name ranks \<longleftrightarrow> length ranks = 1 \<and> name \<in> set (dict_keys ranks)"

text \<open>What the background thread has achieved at each of its steps.\<close>

fun phase_ok :: "build_phase \<Rightarrow> ha \<Rightarrow> bool" where
  "phase_ok (Building r) s = (ha_comm s = -1)"
| "phase_ok Single_Mesh s = (ha_comm s = -1 \<and> alone (ha_name s) (ha_ranks s))"
| "phase_ok Single_Marked s = (ha_comm s = -1 \<and> alone (ha_name s) (ha_ranks s) \<and> ha_single s)"
| "phase_ok (Exchanging r) s = (ha_comm s = -1 \<and> multi (ha_name s) r)"
| "phase_ok (Creating r) s = (ha_comm s = -1 \<and> multi (ha_name s) r)"
| "phase_ok (Publishing r) s = (ha_comm s \<noteq> -1 \<and> multi (ha_name s) r \<and> dict_get (ha_members s) (ha_comm s) = Some r)"
| "phase_ok Unmarking s = (ha_comm s \<noteq> -1)"
| "phase_ok Readying s = (ha_comm s \<noteq> -1 \<and> \<not> ha_single s)"
| "phase_ok Cleaning s = (ha_comm s \<noteq> -1 \<and> \<not> ha_single s)"
| "phase_ok p s = True"

definition publishing :: "build_phase \<Rightarrow> bool" where
  "publishing p = (case p of Publishing r \<Rightarrow> True | _ \<Rightarrow> False)"

definition comm_ok :: "ha \<Rightarrow> bool" where
  "comm_ok s \<longleftrightarrow> ha_comm s = -1 \<or> publishing (ha_build s)
     \<or> multi (ha_name s) (ha_ranks s) \<and> dict_get (ha_members s) (ha_comm s) = Some (ha_ranks s)"

definition ready_ok :: "ha \<Rightarrow> bool" where
  "ready_ok s \<longleftrightarrow> \<not> ha_ready s \<or> \<not> dark (ha_build s)
     \<and> (if ha_single s then ha_comm s = -1 \<and> alone (ha_name s) (ha_ranks s) else ha_comm s \<noteq> -1)"

definition lock_ok :: "ha \<Rightarrow> bool" where
  "lock_ok s \<longleftrightarrow> (ha_lock s = Some Build_Thread \<longleftrightarrow> holding (ha_build s)) \<and> (ha_lock s = Some Op_Thread \<longleftrightarrow> run_of (ha_op s) \<noteq> None)
     \<and> (run_of (ha_op s) = None \<or> run_of (ha_op s) = Some (ha_comm s))"

definition ha_inv :: "ha \<Rightarrow> bool" where
  "ha_inv s \<longleftrightarrow> phase_ok (ha_build s) s \<and> comm_ok s \<and> ready_ok s \<and> lock_ok s"

lemma phase_simps [simp]:
  "holding (Clearing c)" "holding (Destroying c)" "holding (Building r)" "holding Single_Mesh" "holding Single_Marked"
  "holding (Exchanging r)" "holding (Creating r)" "holding (Publishing r)" "holding Unmarking" "holding Readying" "holding Cleaning"
  "\<not> holding Fetching" "\<not> holding (Fetched c)" "\<not> holding (Died e)"
  "dark (Destroying c)" "dark (Building r)" "dark Single_Mesh" "dark Single_Marked" "dark (Exchanging r)" "dark (Creating r)"
  "dark (Publishing r)" "dark Unmarking" "dark Readying"
  "\<not> dark Fetching" "\<not> dark (Fetched c)" "\<not> dark (Clearing c)" "\<not> dark Cleaning" "\<not> dark (Died e)"
  "publishing (Publishing r)" "\<not> publishing Fetching" "\<not> publishing (Fetched c)" "\<not> publishing (Clearing c)"
  "\<not> publishing (Destroying c)" "\<not> publishing (Building r)" "\<not> publishing Single_Mesh" "\<not> publishing Single_Marked"
  "\<not> publishing (Exchanging r)" "\<not> publishing (Creating r)" "\<not> publishing Unmarking" "\<not> publishing Readying"
  "\<not> publishing Cleaning" "\<not> publishing (Died e)"
  "run_of (Running n k i) = Some i" "run_of (Flushing n k i) = None" "run_of (Resolving a) = None" "run_of (Reading a) = None"
  "run_of (Checking k) = None" "run_of (Waiting n k) = None" "run_of (Locking n k) = None" "run_of (Failing n k) = None"
  "run_of (Reporting n k) = None" "run_of (Op_Done x) = None"
  by (simp_all add: holding_def dark_def publishing_def run_of_def)

lemmas ha_inv_defs = ha_inv_def comm_ok_def ready_ok_def lock_ok_def

lemmas ha_step_defs = log_ha_def release_build_def destroy_comm_def start_building_def

text \<open>The background thread with the lock: no operation is running.\<close>

lemma locked_build: "ha_inv s \<Longrightarrow> holding (ha_build s) \<Longrightarrow> ha_lock s = Some Build_Thread \<and> run_of (ha_op s) = None"
  by (auto simp: ha_inv_def lock_ok_def)

lemma inv_build:
  assumes inv: "ha_inv s" and st: "build_goes_on (ha_build s) s = Some t"
  shows "ha_inv t"
proof (cases "holding (ha_build s)")
  case False
  show ?thesis
  proof (cases "ha_build s")
    case Fetching
    then obtain c cs where t: "t = s\<lparr>ha_queue := cs, ha_build := Fetched c\<rparr>" using st by (auto split: list.splits)
    show ?thesis using inv Fetching unfolding t by (simp add: ha_inv_defs)
  next
    case (Fetched c)
    then have lock: "ha_lock s = None" and t: "t = s\<lparr>ha_lock := Some Build_Thread, ha_build := Clearing c\<rparr>"
      using st by (auto split: if_splits)
    show ?thesis using inv Fetched lock unfolding t by (simp add: ha_inv_defs)
  qed (use st False in simp_all)
next
  case True
  note l = locked_build [OF inv True]
  show ?thesis
  proof (cases "ha_build s")
    case (Destroying c)
    let ?out = "ha_out s @ (if ha_comm s = -1 then [] else [Comm_Aborted (ha_comm s)])"
    have "t = s\<lparr>ha_comm := -1, ha_out := ?out, ha_lock := None, ha_build := Fetching\<rparr>
        \<or> (\<exists>r. t = s\<lparr>ha_comm := -1, ha_out := ?out, ha_build := Building r\<rparr>)"
      using st Destroying by (cases c) (auto simp: destroy_comm_def release_build_def)
    then show ?thesis using inv l Destroying by (elim disjE exE) (simp_all add: ha_inv_defs)
  next
    case (Building r)
    have "t = s\<lparr>ha_ranks := r, ha_build := Single_Mesh\<rparr> \<and> alone (ha_name s) r
        \<or> t = s\<lparr>ha_ranks := r, ha_lock := None, ha_build := Died AssertionError\<rparr>
        \<or> t = s\<lparr>ha_build := Exchanging r\<rparr> \<and> multi (ha_name s) r
        \<or> t = s\<lparr>ha_lock := None, ha_build := Died AssertionError\<rparr>"
      using st Building by (auto simp: start_building_def release_build_def alone_def multi_def split: if_splits)
    then show ?thesis using inv l Building by (elim disjE conjE) (simp_all add: ha_inv_defs)
  next
    case (Clearing c)
    then have t: "t = s\<lparr>ha_ready := False, ha_build := Destroying c\<rparr>" using st by (simp add: release_build_def)
    show ?thesis using inv l Clearing unfolding t by (simp add: ha_inv_defs)
  next
    case Single_Mesh
    then have t: "t = s\<lparr>ha_single := True, ha_build := Single_Marked\<rparr>" using st by (simp add: release_build_def)
    show ?thesis using inv l Single_Mesh unfolding t by (simp add: ha_inv_defs)
  next
    case Single_Marked
    then have t: "t = s\<lparr>ha_ready := True, ha_lock := None, ha_build := Fetching\<rparr>" using st by (simp add: release_build_def)
    show ?thesis using inv l Single_Marked unfolding t by (simp add: ha_inv_defs)
  next
    case (Exchanging r)
    then have t: "t = s\<lparr>ha_build := Creating r\<rparr>" using st by (simp add: release_build_def)
    show ?thesis using inv l Exchanging unfolding t by (simp add: ha_inv_defs)
  next
    case (Publishing r)
    then have t: "t = s\<lparr>ha_ranks := r, ha_build := Unmarking\<rparr>" using st by (simp add: release_build_def)
    show ?thesis using inv l Publishing unfolding t by (simp add: ha_inv_defs)
  next
    case Unmarking
    then have t: "t = s\<lparr>ha_single := False, ha_build := Readying\<rparr>" using st by (simp add: release_build_def)
    show ?thesis using inv l Unmarking unfolding t by (auto simp: ha_inv_defs)
  next
    case Readying
    then have t: "t = s\<lparr>ha_ready := True, ha_build := Cleaning\<rparr>" using st by (simp add: release_build_def)
    show ?thesis using inv l Readying unfolding t by (auto simp: ha_inv_defs)
  next
    case Cleaning
    then have t: "t = s\<lparr>ha_lock := None, ha_build := Fetching\<rparr>" using st by (simp add: release_build_def)
    show ?thesis using inv l Cleaning unfolding t by (auto simp: ha_inv_defs)
  qed (use st True in simp_all)
qed

lemma inv_outside:
  assumes inv: "ha_inv s"
  shows "request_fails s = Some t \<Longrightarrow> ha_inv t" "comm_created k s = Some t \<Longrightarrow> ha_inv t" "comm_fails b s = Some t \<Longrightarrow> ha_inv t"
proof -
  show "request_fails s = Some t \<Longrightarrow> ha_inv t" using inv locked_build [OF inv]
    by (cases "ha_build s") (auto simp: request_fails_def ha_inv_defs ha_step_defs split: if_splits)
  show "comm_created k s = Some t \<Longrightarrow> ha_inv t" using inv locked_build [OF inv]
    by (cases "ha_build s") (auto simp: comm_created_def ha_inv_defs ha_step_defs dict_simps split: if_splits)
  show "comm_fails b s = Some t \<Longrightarrow> ha_inv t" using inv locked_build [OF inv]
    by (cases "ha_build s") (auto simp: comm_fails_def ha_inv_defs ha_step_defs split: if_splits)
qed

text \<open>An operation changes only its own state, the lock and the flag.\<close>

definition op_only :: "ha \<Rightarrow> ha \<Rightarrow> bool" where
  "op_only s t \<longleftrightarrow> ha_name t = ha_name s \<and> ha_build t = ha_build s \<and> ha_comm t = ha_comm s \<and> ha_ranks t = ha_ranks s
     \<and> ha_single t = ha_single s \<and> ha_members t = ha_members s \<and> (ha_ready t \<longrightarrow> ha_ready s)"

lemma inv_op_only: "ha_inv s \<Longrightarrow> op_only s t \<Longrightarrow> lock_ok t \<Longrightarrow> ha_inv t"
proof -
  assume "ha_inv s" "op_only s t" "lock_ok t"
  moreover then have "phase_ok (ha_build t) t" by (cases "ha_build s") (auto simp: ha_inv_def op_only_def)
  ultimately show ?thesis by (auto simp: ha_inv_def comm_ok_def ready_ok_def op_only_def)
qed

lemma op_step_only:
  "op_goes_on (ha_op s) s = Some t \<Longrightarrow> op_only s t" "op_starts a s = Some t \<Longrightarrow> op_only s t" "op_enqueued s = Some t \<Longrightarrow> op_only s t"
  "op_flushed s = Some t \<Longrightarrow> op_only s t" "op_fails s = Some t \<Longrightarrow> op_only s t" "report_fails s = Some t \<Longrightarrow> op_only s t"
  by (cases "ha_op s"; auto simp: op_only_def log_ha_def op_starts_def op_enqueued_def op_flushed_def op_fails_def report_fails_def
      split: if_splits)+

lemma op_step_lock:
  assumes "lock_ok s"
  shows "op_goes_on (ha_op s) s = Some t \<Longrightarrow> lock_ok t" "op_starts a s = Some t \<Longrightarrow> lock_ok t" "op_enqueued s = Some t \<Longrightarrow> lock_ok t"
  "op_flushed s = Some t \<Longrightarrow> lock_ok t" "op_fails s = Some t \<Longrightarrow> lock_ok t" "report_fails s = Some t \<Longrightarrow> lock_ok t"
  using assms
  by (cases "ha_op s"; auto simp: lock_ok_def log_ha_def op_starts_def op_enqueued_def op_flushed_def op_fails_def report_fails_def
      split: if_splits option.splits nccl_op.splits)+

lemma inv_push: "ha_inv s \<Longrightarrow> ha_inv (s\<lparr>ha_queue := q\<rparr>)"
proof -
  assume "ha_inv s"
  moreover have "phase_ok (ha_build s) (s\<lparr>ha_queue := q\<rparr>) = phase_ok (ha_build s) s" by (cases "ha_build s") simp_all
  ultimately show ?thesis by (simp add: ha_inv_defs)
qed

lemma inv_op:
  assumes inv: "ha_inv s"
  shows "op_goes_on (ha_op s) s = Some t \<Longrightarrow> ha_inv t" "op_starts a s = Some t \<Longrightarrow> ha_inv t" "op_enqueued s = Some t \<Longrightarrow> ha_inv t"
  "op_flushed s = Some t \<Longrightarrow> ha_inv t" "op_fails s = Some t \<Longrightarrow> ha_inv t" "report_fails s = Some t \<Longrightarrow> ha_inv t"
proof -
  have l: "lock_ok s" using inv by (simp add: ha_inv_def)
  note r = inv_op_only [OF inv]
  show "op_goes_on (ha_op s) s = Some t \<Longrightarrow> ha_inv t" by (rule r [OF op_step_only(1) op_step_lock(1) [OF l]])
  show "op_starts a s = Some t \<Longrightarrow> ha_inv t" by (rule r [OF op_step_only(2) op_step_lock(2) [OF l]])
  show "op_enqueued s = Some t \<Longrightarrow> ha_inv t" by (rule r [OF op_step_only(3) op_step_lock(3) [OF l]])
  show "op_flushed s = Some t \<Longrightarrow> ha_inv t" by (rule r [OF op_step_only(4) op_step_lock(4) [OF l]])
  show "op_fails s = Some t \<Longrightarrow> ha_inv t" by (rule r [OF op_step_only(5) op_step_lock(5) [OF l]])
  show "report_fails s = Some t \<Longrightarrow> ha_inv t" by (rule r [OF op_step_only(6) op_step_lock(6) [OF l]])
qed

lemma inv_step: "ha_inv s \<Longrightarrow> ha_step l s = Some t \<Longrightarrow> ha_inv t"
  by (cases l) (auto intro: inv_push inv_build inv_outside inv_op)

lemma inv_reachable: "ha_reachable name s \<Longrightarrow> ha_inv s"
proof (induction rule: ha_reachable.induct)
  case start
  show ?case by (simp add: new_ha_def ha_inv_defs)
qed (rule inv_step)

text \<open>C10: However the threads interleave and whatever fails: when the communicator is flagged as ready, this
  replica is in the mesh in force, and either it is alone in it or there is a communicator, made for exactly this
  mesh; and an operation that is being enqueued uses the current communicator, which is none at all or one made for
  the mesh in force.\<close>

theorem communicator_fits_mesh:
  assumes "ha_reachable name s"
  shows "(ha_ready s \<longrightarrow> (if ha_single s then ha_comm s = -1 \<and> alone (ha_name s) (ha_ranks s)
        else ha_comm s \<noteq> -1 \<and> multi (ha_name s) (ha_ranks s) \<and> dict_get (ha_members s) (ha_comm s) = Some (ha_ranks s)))
    \<and> (case run_of (ha_op s) of None \<Rightarrow> True | Some c \<Rightarrow> c = ha_comm s \<and> \<not> holding (ha_build s)
        \<and> (c = -1 \<or> multi (ha_name s) (ha_ranks s) \<and> dict_get (ha_members s) c = Some (ha_ranks s)))"
proof -
  note i = inv_reachable [OF assms]
  have p: "\<not> publishing (ha_build s)" if "\<not> dark (ha_build s)" using that by (cases "ha_build s") simp_all
  have q: "\<not> publishing (ha_build s)" if "\<not> holding (ha_build s)" using that by (cases "ha_build s") simp_all
  show ?thesis using i p q by (auto simp: ha_inv_defs split: option.splits if_splits)
qed

section \<open>Attempts\<close>

text \<open>How often the operation begun last has been run.\<close>

fun runs_since :: "nat \<Rightarrow> ha_event list \<Rightarrow> nat" where
  "runs_since n [] = n"
| "runs_since n (Op_Begun a # es) = runs_since 0 es"
| "runs_since n (Op_Run c r # es) = runs_since (Suc n) es"
| "runs_since n (_ # es) = runs_since n es"

lemma runs_since_append: "runs_since n (a @ b) = runs_since (runs_since n a) b"
  by (induction n a rule: runs_since.induct) auto

definition attempts :: "ha \<Rightarrow> nat" where
  "attempts s = runs_since 0 (ha_out s)"

fun within_limit :: "op_phase \<Rightarrow> nat \<Rightarrow> bool" where
  "within_limit (Resolving a) k = (k = 0)"
| "within_limit (Reading a) k = (k = 0)"
| "within_limit (Checking r) k = (k = 0)"
| "within_limit (Waiting n r) k = (k = n \<and> n < max_retry)"
| "within_limit (Locking n r) k = (k = n \<and> n < max_retry)"
| "within_limit (Running n r c) k = (k = Suc n \<and> n < max_retry)"
| "within_limit (Flushing n r c) k = (k = Suc n \<and> n < max_retry)"
| "within_limit (Failing n r) k = (k = Suc n \<and> n < max_retry)"
| "within_limit (Reporting n r) k = (k = Suc n \<and> n < max_retry)"
| "within_limit (Op_Done Op_Succeeded) k = (1 \<le> k \<and> k \<le> max_retry)"
| "within_limit (Op_Done Op_Skipped) k = (k = 0)"
| "within_limit (Op_Done Op_Gave_Up) k = (k = max_retry)"
| "within_limit (Op_Done (Op_Raised e)) k = (k \<le> max_retry)"

lemma attempts_log: "runs_since n (es @ [Comm_Made k]) = runs_since n es" "runs_since n (es @ [Comm_Aborted k]) = runs_since n es"
    "runs_since n (es @ [Error_Reported]) = runs_since n es" "runs_since n (es @ [Op_Begun a]) = 0"
    "runs_since n (es @ [Op_Run c r]) = Suc (runs_since n es)"
  by (simp_all add: runs_since_append)

text \<open>The background thread leaves the operation and its attempts alone.\<close>

lemma attempts_build: "build_goes_on (ha_build s) s = Some t \<Longrightarrow> ha_op t = ha_op s \<and> attempts t = attempts s"
  by (cases "ha_build s") (auto simp: ha_step_defs attempts_def attempts_log split: list.splits if_splits ha_cmd.splits)

lemma attempts_outside: "request_fails s = Some t \<Longrightarrow> ha_op t = ha_op s \<and> attempts t = attempts s"
    "comm_created k s = Some t \<Longrightarrow> ha_op t = ha_op s \<and> attempts t = attempts s"
    "comm_fails b s = Some t \<Longrightarrow> ha_op t = ha_op s \<and> attempts t = attempts s"
  by (cases "ha_build s"; auto simp: request_fails_def comm_created_def comm_fails_def ha_step_defs attempts_def attempts_log
      runs_since_append split: if_splits)+

lemma attempts_op:
  assumes "within_limit (ha_op s) (attempts s)"
  shows "op_goes_on (ha_op s) s = Some t \<Longrightarrow> within_limit (ha_op t) (attempts t)"
    "op_starts a s = Some t \<Longrightarrow> within_limit (ha_op t) (attempts t)"
    "op_enqueued s = Some t \<Longrightarrow> within_limit (ha_op t) (attempts t)"
    "op_flushed s = Some t \<Longrightarrow> within_limit (ha_op t) (attempts t)"
    "op_fails s = Some t \<Longrightarrow> within_limit (ha_op t) (attempts t)"
    "report_fails s = Some t \<Longrightarrow> within_limit (ha_op t) (attempts t)"
  using assms
  by (cases "ha_op s"; auto simp: attempts_def attempts_log log_ha_def op_starts_def op_enqueued_def op_flushed_def
      op_fails_def report_fails_def max_retry_def split: if_splits option.splits nccl_op.splits)+

lemma attempts_step:
  assumes ok: "within_limit (ha_op s) (attempts s)" and st: "ha_step l s = Some t"
  shows "within_limit (ha_op t) (attempts t)"
proof (cases l)
  case (Push c)
  then show ?thesis using assms by (auto simp: attempts_def)
next
  case Build_Goes_On
  then show ?thesis using attempts_build [of s t] assms by simp
next
  case Request_Fails
  then show ?thesis using attempts_outside(1) [of s t] assms by simp
next
  case (Comm_Created k)
  then show ?thesis using attempts_outside(2) [of k s t] assms by simp
next
  case (Comm_Fails b)
  then show ?thesis using attempts_outside(3) [of b s t] assms by simp
qed (use st in \<open>auto intro: attempts_op [OF ok]\<close>)

lemma limit_three: "within_limit p k \<Longrightarrow> k \<le> max_retry"
  by (induction p k rule: within_limit.induct) (auto simp: max_retry_def)

text \<open>An operation is run at most three times; it counts as done after at least one run, as skipped only without
  any, and it gives up after exactly three.\<close>

theorem at_most_three_attempts:
  assumes "ha_reachable name s"
  shows "within_limit (ha_op s) (attempts s) \<and> attempts s \<le> 3"
  using assms
proof (induction rule: ha_reachable.induct)
  case start
  show ?case by (simp add: attempts_def new_ha_def)
next
  case (step s l t)
  then show ?case using attempts_step [of s l t] limit_three [of "ha_op t" "attempts t"] by (simp add: max_retry_def)
qed

section \<open>A mesh gets its communicator\<close>

text \<open>What the background thread does for a mesh when all requests succeed and the communicator made is \<open>k\<close>.\<close>

definition build_run :: "(string, int) dict \<Rightarrow> int \<Rightarrow> ha_label list" where
  "build_run ranks k = (if length ranks = 1 then replicate 7 Build_Goes_On
     else replicate 6 Build_Goes_On @ [Comm_Created k] @ replicate 4 Build_Goes_On)"

lemma ha_run_append: "ha_run (a @ b) s = (case ha_run a s of None \<Rightarrow> None | Some t \<Rightarrow> ha_run b t)"
  by (induction a arbitrary: s) (auto split: option.splits)

text \<open>C28: Whatever happened before, as long as the background thread is alive and idle and nothing is being enqueued, a
  mesh that contains this replica is built by that thread alone in a fixed number of steps; then the communicator is
  ready, and operations are skipped exactly if the replica is alone in the mesh.\<close>

theorem mesh_becomes_ready:
  assumes "ha_reachable name s" "ha_build s = Fetching" "run_of (ha_op s) = None" "ha_queue s = []"
    and "name \<in> set (dict_keys ranks)" "k \<noteq> -1"
  shows "\<exists>t. ha_run (Push (Build_New ranks) # build_run ranks k) s = Some t \<and> ha_ready t \<and> ha_ranks t = ranks
    \<and> (ha_single t \<longleftrightarrow> length ranks = 1) \<and> ha_comm t = (if length ranks = 1 then -1 else k) \<and> ha_op t = ha_op s
    \<and> ha_build t = Fetching"
proof -
  have name: "ha_name s = name" using assms(1) by (rule reachable_name)
  have "lock_ok s" using inv_reachable [OF assms(1)] by (simp add: ha_inv_def)
  then have "ha_lock s \<noteq> Some Build_Thread" "ha_lock s \<noteq> Some Op_Thread" using assms(2,3) by (auto simp: lock_ok_def)
  then have lock: "ha_lock s = None" by (metis (full_types) lock_holder.exhaust option.exhaust)
  have seven: "7 = Suc (Suc (Suc (Suc (Suc (Suc (Suc 0))))))" and six: "6 = Suc (Suc (Suc (Suc (Suc (Suc 0)))))"
    and four: "4 = Suc (Suc (Suc (Suc 0)))" by simp_all
  show ?thesis
  proof (cases "length ranks = 1")
    case True
    then show ?thesis using assms(2-5) name lock
      by (simp add: build_run_def seven ha_step_defs split: if_splits)
  next
    case False
    then show ?thesis using assms(2-6) name lock
      by (simp add: build_run_def six four ha_step_defs comm_created_def split: if_splits)
  qed
qed

section \<open>Races\<close>

definition two :: "(string, int) dict" where
  "two = [(''p0'', 0), (''p1'', 1)]"

definition swapped :: "(string, int) dict" where
  "swapped = [(''p1'', 0), (''p0'', 1)]"

definition built :: "(string, int) dict \<Rightarrow> int \<Rightarrow> ha_label list" where
  "built ranks k = Push (Build_New ranks) # build_run ranks k"

text \<open>Four things that the lock and the flags do not rule out, each as a run. An all-reduce is skipped although the mesh is
  no longer just this replica, because the flag for a single replica is only cleared once the new communicator is
  there. After a failure and a new mesh a broadcast is repeated with the rank that the source had in the old
  mesh. A communicator is aborted while an operation on it is in flight. An operation is run without a communicator.\<close>

theorem communicator_races:
  "(case ha_run (built [(''p0'', 0)] 5 @ Push (Build_New two) # replicate 5 Build_Goes_On @ [Op_Starts All_Reduce, Op_Goes_On])
      (new_ha ''p0'') of None \<Rightarrow> False | Some s \<Rightarrow> ha_op s = Op_Done Op_Skipped \<and> ha_build s = Exchanging two)
   \<and> (case ha_run (built two 7 @ Op_Starts (Broadcast_From ''p1'') # replicate 5 Op_Goes_On @ [Op_Fails, Op_Goes_On, Op_Goes_On]
        @ built swapped 8 @ [Op_Goes_On, Op_Goes_On]) (new_ha ''p0'') of None \<Rightarrow> False
      | Some s \<Rightarrow> ha_op s = Running 1 (Some 1) 8 \<and> dict_get (ha_ranks s) ''p1'' = Some 0)
   \<and> (case ha_run (built two 7 @ Op_Starts All_Reduce # replicate 3 Op_Goes_On @ [Op_Enqueued, Push Destroy_Comm]
        @ replicate 4 Build_Goes_On) (new_ha ''p0'') of None \<Rightarrow> False
      | Some s \<Rightarrow> ha_op s = Flushing 0 None 7 \<and> Comm_Aborted 7 \<in> set (ha_out s))
   \<and> (case ha_run (built two 7 @ Op_Starts All_Reduce # replicate 2 Op_Goes_On @ [Push Destroy_Comm]
        @ replicate 4 Build_Goes_On @ [Op_Goes_On]) (new_ha ''p0'') of None \<Rightarrow> False | Some s \<Rightarrow> ha_op s = Running 0 None (-1))"
  by code_simp

section \<open>Examples\<close>

lemma two_running: "\<exists>s. ha_run (built two 7 @ Op_Starts All_Reduce # replicate 3 Op_Goes_On) (new_ha ''p0'') = Some s
    \<and> run_of (ha_op s) = Some 7 \<and> ha_ready s \<and> ha_ranks s = two \<and> attempts s = 1"
proof -
  have "case ha_run (built two 7 @ Op_Starts All_Reduce # replicate 3 Op_Goes_On) (new_ha ''p0'') of None \<Rightarrow> False
      | Some s \<Rightarrow> run_of (ha_op s) = Some 7 \<and> ha_ready s \<and> ha_ranks s = two \<and> attempts s = 1" by code_simp
  then show ?thesis by (auto split: option.splits)
qed

theorem communicator_fits_mesh_witness:
  "\<exists>s. ha_reachable ''p0'' s \<and> ha_ready s \<and> run_of (ha_op s) = Some 7 \<and> ha_comm s = 7 \<and> dict_get (ha_members s) 7 = Some two"
proof -
  obtain s where s: "ha_run (built two 7 @ Op_Starts All_Reduce # replicate 3 Op_Goes_On) (new_ha ''p0'') = Some s"
    "run_of (ha_op s) = Some 7" "ha_ready s" "ha_ranks s = two" using two_running by blast
  then have "ha_reachable ''p0'' s" using run_reachable [OF ha_reachable.start] by blast
  from communicator_fits_mesh [OF this] this s show ?thesis by auto
qed

theorem at_most_three_attempts_witness:
  "\<exists>s. ha_reachable ''p0'' s \<and> attempts s = 1 \<and> within_limit (ha_op s) 1"
proof -
  obtain s where s: "ha_run (built two 7 @ Op_Starts All_Reduce # replicate 3 Op_Goes_On) (new_ha ''p0'') = Some s"
    "attempts s = 1" using two_running by blast
  then have r: "ha_reachable ''p0'' s" using run_reachable [OF ha_reachable.start] by blast
  from at_most_three_attempts [OF r] r s show ?thesis by auto
qed

theorem mesh_becomes_ready_witness:
  "\<exists>t. ha_run (built two 7) (new_ha ''p0'') = Some t \<and> ha_ready t \<and> ha_comm t = 7 \<and> \<not> ha_single t"
  using mesh_becomes_ready [OF ha_reachable.start, of "''p0''" two 7]
  by (auto simp: new_ha_def built_def two_def dict_keys_def)

end
