(* ===== verification/Load_Balancing.thy ===== *)
theory Load_Balancing
  imports Sharing
begin

text \<open>Load-balanced batches for supervised training, src/cosmos\_rl/dispatcher/data/load\_balanced\_dataset.py: a
  dataset is sharded over ranks and loader workers, each shard is read through a pool of samples, and batches are
  packed greedily out of the pool within a budget of tokens. The generators of the code are states: which indices
  a shard still has to yield, and the step to the next item. Random shuffles and the dataset are parameters.\<close>

section \<open>Samples and their lengths\<close>

text \<open>What a field of a sample can be for \<open>get_sample_length\<close>: a list, a tensor (its shape), another value with
  a \<open>__len__\<close>, or a value without one.\<close>

datatype field_value = List_Value "field_value list" | Tensor_Value "nat list" | Sized_Value nat | Plain_Value int

type_synonym sample = "(string, field_value) dict"

fun fallback_length :: "sample \<Rightarrow> error + int" where
  "fallback_length [] = Inl ValueError"
| "fallback_length ((k, v) # fields) = (case v of
     Tensor_Value (n # dims) \<Rightarrow> Inr (int n)
   | List_Value (x # xs) \<Rightarrow> Inr (int (length (x # xs)))
   | _ \<Rightarrow> fallback_length fields)"

definition get_sample_length :: "string \<Rightarrow> sample \<Rightarrow> error + int" where
  "get_sample_length key x = (case dict_get x key of
     Some (List_Value xs) \<Rightarrow> Inr (int (length xs))
   | Some (Tensor_Value []) \<Rightarrow> Inl TypeError
   | Some (Tensor_Value (n # dims)) \<Rightarrow> Inr (int n)
   | Some (Sized_Value n) \<Rightarrow> Inr (int n)
   | _ \<Rightarrow> fallback_length x)"

section \<open>Configuration and state\<close>

text \<open>The constructor's arguments, the worker of the data loader, the dataset (its length, and what \<open>base_dataset[i]\<close>
  returns or raises) and \<open>random.Random(seed).shuffle\<close>, which is \<open>lb_shuffle seed\<close>.\<close>

record lb_env =
  lb_size :: nat
  lb_item :: "nat \<Rightarrow> error + sample"
  lb_shuffle :: "int \<Rightarrow> nat list \<Rightarrow> nat list"
  lb_worker_id :: nat
  lb_num_workers :: nat
  lb_dp_rank :: nat
  lb_dp_world :: nat
  lb_seed :: int
  lb_pool_size :: int
  lb_max_tokens :: int
  lb_max_len :: int
  lb_key :: string
  lb_strategy :: string
  lb_packing :: bool
  lb_accumulate :: int
  lb_infinite :: bool

text \<open>The iterator of a shard: its generator computes the indices when it is first advanced.\<close>

datatype shard_iter = Not_Started | Running "nat list" | Finished

record lb_state =
  lb_pool :: "sample list"
  lb_iter :: "shard_iter option"
  lb_tokens :: int
  lb_samples :: int
  lb_batches :: int
  lb_skip :: int
  lb_epoch :: int
  lb_completed :: int
  lb_shard_epoch :: int

type_synonym 'a lb = "(lb_state, 'a) exec"

text \<open>\<open>max_tokens_len or max_tokens_for_batch\<close>: an absent or zero \<open>max_tokens_len\<close> is replaced.\<close>

definition balanced_dataset :: "lb_env \<Rightarrow> int option \<Rightarrow> error + (lb_env \<times> lb_state)" where
  "balanced_dataset env max_tokens_len =
     ensure ValueError (1 \<le> lb_accumulate env)
       (Inr (env\<lparr>lb_max_len := (case max_tokens_len of None \<Rightarrow> lb_max_tokens env
                                | Some m \<Rightarrow> if m = 0 then lb_max_tokens env else m)\<rparr>,
             \<lparr>lb_pool = [], lb_iter = None, lb_tokens = 0, lb_samples = 0, lb_batches = 0, lb_skip = 0,
              lb_epoch = 0, lb_completed = 0, lb_shard_epoch = 0\<rparr>))"

definition sharded_length :: "lb_env \<Rightarrow> error + int" where
  "sharded_length env = ensure ZeroDivisionError (lb_dp_world env \<noteq> 0)
     (Inr ((int (lb_size env) + int (lb_dp_world env) - 1) div int (lb_dp_world env)))"

definition balanced_length :: "lb_env \<Rightarrow> error + int" where
  "balanced_length env = ebind (sharded_length env) (\<lambda>n.
     if n = 0 then Inr 0
     else if 1 < lb_accumulate env then Inr ((n + lb_accumulate env - 1) div lb_accumulate env)
     else Inr n)"

section \<open>A shard\<close>

definition total_shards :: "lb_env \<Rightarrow> nat" where
  "total_shards env = lb_dp_world env * lb_num_workers env"

definition shard_id :: "lb_env \<Rightarrow> nat" where
  "shard_id env = lb_dp_rank env * lb_num_workers env + lb_worker_id env"

text \<open>\<open>list(range(shard_id, total_samples, total_shards))\<close>, shuffled.\<close>

definition shard_indices :: "lb_env \<Rightarrow> nat list" where
  "shard_indices env = stride (shard_id env) (total_shards env) [0..<lb_size env]"

definition epoch_indices :: "lb_env \<Rightarrow> int \<Rightarrow> nat list" where
  "epoch_indices env epoch = lb_shuffle env (lb_seed env + int (shard_id env) + epoch * 1000) (shard_indices env)"

text \<open>Advancing the generator: a finished or failed generator stays finished, and a \<open>StopIteration\<close> out of the
  dataset becomes a \<open>RuntimeError\<close>, as in any generator.\<close>

definition advance_shard :: "lb_env \<Rightarrow> nat list \<Rightarrow> sample lb" where
  "advance_shard env is = (case is of
     [] \<Rightarrow> bnd (modify (\<lambda>s. s\<lparr>lb_iter := Some Finished\<rparr>)) (\<lambda>_. raise StopIteration)
   | i # is' \<Rightarrow> (case lb_item env i of
       Inl e \<Rightarrow> bnd (modify (\<lambda>s. s\<lparr>lb_iter := Some Finished\<rparr>))
                 (\<lambda>_. raise (if e = StopIteration then RuntimeError else e))
     | Inr x \<Rightarrow> bnd (modify (\<lambda>s. s\<lparr>lb_iter := Some (Running is')\<rparr>)) (\<lambda>_. ret x)))"

definition next_of_shard :: "lb_env \<Rightarrow> shard_iter \<Rightarrow> sample lb" where
  "next_of_shard env it = (case it of
     Not_Started \<Rightarrow>
       if total_shards env = 0 then bnd (modify (\<lambda>s. s\<lparr>lb_iter := Some Finished\<rparr>)) (\<lambda>_. raise ValueError)
       else with_state (\<lambda>s. advance_shard env (epoch_indices env (lb_shard_epoch s)))
   | Running is \<Rightarrow> advance_shard env is
   | Finished \<Rightarrow> raise StopIteration)"

definition get_next_sample :: "lb_env \<Rightarrow> sample option lb" where
  "get_next_sample env = with_state (\<lambda>s. case lb_iter s of None \<Rightarrow> ret None
     | Some it \<Rightarrow> try_except (bnd (next_of_shard env it) (\<lambda>x. ret (Some x)))
         (\<lambda>e. if e = StopIteration \<or> e = IndexError \<or> e = KeyError then ret None else raise e))"

definition recreate_iterator :: "unit lb" where
  "recreate_iterator = modify (\<lambda>s. s\<lparr>lb_completed := lb_completed s + 1, lb_epoch := lb_epoch s + 1,
     lb_shard_epoch := lb_epoch s + 1, lb_iter := Some Not_Started\<rparr>)"

section \<open>The pool\<close>

definition put_in_pool :: "sample \<Rightarrow> unit lb" where
  "put_in_pool x = modify (\<lambda>s. s\<lparr>lb_pool := lb_pool s @ [x]\<rparr>)"

text \<open>Every round of the loop puts one sample into the pool, so a loop that runs while the pool is smaller than
  \<open>pool_size\<close> has as many rounds as samples are missing, unless the data end first.\<close>

fun fill_rounds :: "lb_env \<Rightarrow> nat \<Rightarrow> unit lb" where
  "fill_rounds env 0 = ret ()"
| "fill_rounds env (Suc n) = bnd (get_next_sample env) (\<lambda>x. case x of
     Some a \<Rightarrow> bnd (put_in_pool a) (\<lambda>_. fill_rounds env n)
   | None \<Rightarrow> if lb_infinite env
       then bnd (recreate_iterator) (\<lambda>_. bnd (get_next_sample env) (\<lambda>y. case y of
         Some a \<Rightarrow> bnd (put_in_pool a) (\<lambda>_. fill_rounds env n)
       | None \<Rightarrow> ret ()))
       else ret ())"

definition fill_pool :: "lb_env \<Rightarrow> unit lb" where
  "fill_pool env = with_state (\<lambda>s. fill_rounds env (nat (lb_pool_size env - int (length (lb_pool s)))))"

text \<open>A deque turned by \<open>n\<close> to the right, and the removal of one item by turning.\<close>

definition deque_rotate :: "int \<Rightarrow> 'a list \<Rightarrow> 'a list" where
  "deque_rotate n xs = rotate (nat ((- n) mod int (length xs))) xs"

definition remove_item :: "nat \<Rightarrow> 'a list \<Rightarrow> 'a \<times> 'a list" where
  "remove_item i xs =
     (if i = 0 then (hd xs, tl xs)
      else if i = length xs - 1 then (last xs, butlast xs)
      else let ys = deque_rotate (- int i) xs in (hd ys, deque_rotate (int i) (tl ys)))"

definition remove_from_pool :: "nat \<Rightarrow> sample lb" where
  "remove_from_pool i = with_state (\<lambda>s. let (x, rest) = remove_item i (lb_pool s) in
     bnd (modify (\<lambda>s. s\<lparr>lb_pool := rest\<rparr>)) (\<lambda>_. ret x))"

section \<open>Candidates\<close>

text \<open>The searches keep the best index with its total, and its distance to the current maximum.\<close>

fun first_search :: "lb_env \<Rightarrow> int \<Rightarrow> int \<Rightarrow> (nat \<times> sample) list \<Rightarrow> (nat \<times> int) option \<Rightarrow> error + (nat \<times> int) option" where
  "first_search env cur n [] best = Inr best"
| "first_search env cur n ((i, c) # cs) best = ebind (get_sample_length (lb_key env) c) (\<lambda>l.
     let total = max cur l * (n + 1) in
     first_search env cur n cs
       (if total \<le> lb_max_tokens env \<and> (case best of None \<Rightarrow> True | Some (_, b) \<Rightarrow> total < b)
        then Some (i, total) else best))"

definition prefer_first :: "lb_env \<Rightarrow> int \<Rightarrow> int \<Rightarrow> sample list \<Rightarrow> error + nat option" where
  "prefer_first env cur n pool =
     ebind (first_search env cur n (zip [0..<length pool] pool) None) (\<lambda>b. Inr (map_option fst b))"

fun closest_search :: "lb_env \<Rightarrow> int \<Rightarrow> int \<Rightarrow> (nat \<times> sample) list \<Rightarrow> (nat \<times> int \<times> int) option
    \<Rightarrow> error + (nat \<times> int \<times> int) option" where
  "closest_search env cur n [] best = Inr best"
| "closest_search env cur n ((i, c) # cs) best = ebind (get_sample_length (lb_key env) c) (\<lambda>l.
     let total = max cur l * (n + 1); diff = \<bar>l - cur\<bar> in
     closest_search env cur n cs
       (if total \<le> lb_max_tokens env \<and> (case best of None \<Rightarrow> True
            | Some (_, b, d) \<Rightarrow> total < b \<or> (total = b \<and> diff < d))
        then Some (i, total, diff) else best))"

definition prefer_closest :: "lb_env \<Rightarrow> int \<Rightarrow> int \<Rightarrow> sample list \<Rightarrow> error + nat option" where
  "prefer_closest env cur n pool =
     ebind (closest_search env cur n (zip [0..<length pool] pool) None) (\<lambda>b. Inr (map_option fst b))"

definition total_length :: "lb_env \<Rightarrow> sample list \<Rightarrow> error + int" where
  "total_length env xs = ebind (emap (get_sample_length (lb_key env)) xs) (\<lambda>ls. Inr (sum_list ls))"

fun packing_search :: "lb_env \<Rightarrow> int \<Rightarrow> (nat \<times> sample) list \<Rightarrow> error + nat option" where
  "packing_search env used [] = Inr None"
| "packing_search env used ((i, c) # cs) = ebind (get_sample_length (lb_key env) c) (\<lambda>l.
     if lb_max_tokens env < used + l then packing_search env used cs else Inr (Some i))"

definition prefer_packing :: "lb_env \<Rightarrow> sample list \<Rightarrow> sample list \<Rightarrow> error + nat option" where
  "prefer_packing env chosen pool =
     (if pool = [] then Inr None
      else ebind (total_length env chosen) (\<lambda>t. packing_search env t (zip [0..<length pool] pool)))"

definition find_best_candidate :: "lb_env \<Rightarrow> int \<Rightarrow> sample list \<Rightarrow> sample list \<Rightarrow> error + nat option" where
  "find_best_candidate env cur chosen pool =
     (if lb_packing env then prefer_packing env chosen pool
      else if lb_strategy env = ''prefer_closest'' then prefer_closest env cur (int (length chosen)) pool
      else prefer_first env cur (int (length chosen)) pool)"

section \<open>Batches\<close>

text \<open>Every round takes a sample out of the pool; the fuel is the size of the pool.\<close>

fun grow_batch :: "lb_env \<Rightarrow> nat \<Rightarrow> int \<Rightarrow> sample list \<Rightarrow> (int \<times> sample list) lb" where
  "grow_batch env 0 cur chosen = with_state (\<lambda>s. if lb_pool s = [] then ret (cur, chosen) else raise OutOfFuel)"
| "grow_batch env (Suc n) cur chosen = with_state (\<lambda>s.
     if lb_pool s = [] then ret (cur, chosen)
     else bnd (lift_sum (find_best_candidate env cur chosen (lb_pool s))) (\<lambda>best. case best of
       None \<Rightarrow> ret (cur, chosen)
     | Some i \<Rightarrow> bnd (remove_from_pool i) (\<lambda>c.
         bnd (lift_sum (get_sample_length (lb_key env) c)) (\<lambda>l. grow_batch env n (max cur l) (chosen @ [c])))))"

definition batch_tokens :: "lb_env \<Rightarrow> int \<Rightarrow> sample list \<Rightarrow> error + int" where
  "batch_tokens env cur chosen =
     (if lb_packing env then total_length env chosen else Inr (cur * int (length chosen)))"

definition best_fit_batch :: "lb_env \<Rightarrow> sample list lb" where
  "best_fit_batch env = bnd (fill_pool env) (\<lambda>_. with_state (\<lambda>s. case lb_pool s of
     [] \<Rightarrow> raise StopIteration
   | seed # rest \<Rightarrow> bnd (modify (\<lambda>s. s\<lparr>lb_pool := rest\<rparr>)) (\<lambda>_.
       bnd (lift_sum (get_sample_length (lb_key env) seed)) (\<lambda>l.
         if lb_max_len env \<le> l \<or> lb_max_tokens env \<le> l then ret [seed]
         else bnd (grow_batch env (length rest) l [seed]) (\<lambda>(cur, chosen).
           bnd (lift_sum (batch_tokens env cur chosen)) (\<lambda>tokens.
             bnd (modify (\<lambda>s. s\<lparr>lb_tokens := lb_tokens s + tokens,
                 lb_samples := lb_samples s + int (length chosen), lb_batches := lb_batches s + 1\<rparr>))
               (\<lambda>_. ret chosen)))))))"

definition set_epoch :: "int \<Rightarrow> unit lb" where
  "set_epoch epoch = modify (\<lambda>s. s\<lparr>lb_epoch := epoch, lb_shard_epoch := epoch\<rparr>)"

definition skip_batches :: "int \<Rightarrow> unit lb" where
  "skip_batches n = modify (\<lambda>s. s\<lparr>lb_skip := n\<rparr>)"

text \<open>One attempt: a batch, or the end of the data, which \<open>_build_accumulated_batches\<close> sees as a
  \<open>StopIteration\<close>; then it fills the pool and tries once more.\<close>

definition or_none :: "'a lb \<Rightarrow> 'a option lb \<Rightarrow> 'a option lb" where
  "or_none m h = try_except (bnd m (\<lambda>x. ret (Some x))) (\<lambda>e. if e = StopIteration then h else raise e)"

definition attempt_batch :: "lb_env \<Rightarrow> sample list option lb" where
  "attempt_batch env = or_none (best_fit_batch env)
     (bnd (fill_pool env) (\<lambda>_. with_state (\<lambda>s. if lb_pool s = [] then ret None
        else or_none (best_fit_batch env) (ret None))))"

fun accumulate :: "lb_env \<Rightarrow> nat \<Rightarrow> sample list list \<Rightarrow> sample list list lb" where
  "accumulate env 0 acc = ret acc"
| "accumulate env (Suc n) acc = bnd (attempt_batch env) (\<lambda>b. case b of
     None \<Rightarrow> ret acc | Some b \<Rightarrow> accumulate env n (acc @ [b]))"

definition build_accumulated_batches :: "lb_env \<Rightarrow> sample list list lb" where
  "build_accumulated_batches env = accumulate env (nat (lb_accumulate env)) []"

section \<open>The generator\<close>

text \<open>One round of the loop that yields: the next item, or the end (\<open>None\<close>). The loop that skips does the same
  and drops the item.\<close>

definition next_item :: "lb_env \<Rightarrow> sample list list option lb" where
  "next_item env = bnd (build_accumulated_batches env) (\<lambda>bs.
     if bs \<noteq> [] then ret (Some bs)
     else if lb_infinite env
     then bnd (recreate_iterator) (\<lambda>_. bnd (build_accumulated_batches env) (\<lambda>bs.
       ret (if bs \<noteq> [] then Some bs else None)))
     else ret None)"

fun skip_items :: "lb_env \<Rightarrow> nat \<Rightarrow> unit lb" where
  "skip_items env 0 = ret ()"
| "skip_items env (Suc n) = bnd (next_item env) (\<lambda>item. case item of
     None \<Rightarrow> ret () | Some bs \<Rightarrow> skip_items env n)"

definition begin_iteration :: "lb_env \<Rightarrow> unit lb" where
  "begin_iteration env =
     bnd (modify (\<lambda>s. s\<lparr>lb_shard_epoch := lb_epoch s, lb_iter := Some Not_Started, lb_pool := []\<rparr>)) (\<lambda>_.
     with_state (\<lambda>s. guarded (0 < lb_skip s)
       (bnd (skip_items env (nat (lb_skip s))) (\<lambda>_. modify (\<lambda>s. s\<lparr>lb_skip := 0\<rparr>)))))"

text \<open>What a consumer that asks for \<open>n\<close> items gets.\<close>

fun take_items :: "lb_env \<Rightarrow> nat \<Rightarrow> sample list list list lb" where
  "take_items env 0 = ret []"
| "take_items env (Suc n) = bnd (next_item env) (\<lambda>item. case item of
     None \<Rightarrow> ret [] | Some bs \<Rightarrow> bnd (take_items env n) (\<lambda>items. ret (bs # items)))"

definition iterate :: "lb_env \<Rightarrow> nat \<Rightarrow> sample list list list lb" where
  "iterate env n = bnd (begin_iteration env) (\<lambda>_. take_items env n)"


section \<open>Removing from the pool\<close>

text \<open>The turning of the deque is a removal by index.\<close>

lemma remove_item_at: "i < length xs \<Longrightarrow> remove_item i xs = (xs ! i, take i xs @ drop (Suc i) xs)"
proof -
  assume i: "i < length xs"
  consider "i = 0" | "0 < i" "i = length xs - 1" | "0 < i" "i < length xs - 1" using i by linarith
  then show ?thesis
  proof cases
    case 1
    then show ?thesis using i by (cases xs) (simp_all add: remove_item_def)
  next
    case 2
    then have "xs \<noteq> []" using i by auto
    then show ?thesis using 2 i by (simp add: remove_item_def last_conv_nth butlast_conv_take)
  next
    case 3
    have "nat (int i mod int (length xs)) = i" using i by simp
    then have turned: "deque_rotate (- int i) xs = drop i xs @ take i xs"
      using i by (simp add: deque_rotate_def rotate_drop_take)
    have d: "drop i xs = xs ! i # drop (Suc i) xs" using i by (rule Cons_nth_drop_Suc [symmetric])
    let ?l = "length xs - 1"
    have n: "int ?l = int (length xs) - 1" using i by simp
    have "nat ((- int i) mod int ?l) = length (drop (Suc i) xs)"
    proof -
      have "(- int i) mod int ?l = int ?l - int i mod int ?l" using 3 by (simp add: zmod_zminus1_eq_if)
      then show ?thesis using 3 by simp
    qed
    moreover have "length (drop (Suc i) xs @ take i xs) = ?l" using i by simp
    ultimately have turned_back: "deque_rotate (int i) (drop (Suc i) xs @ take i xs) = take i xs @ drop (Suc i) xs"
      unfolding deque_rotate_def by (metis rotate_append)
    show ?thesis using 3 by (simp add: remove_item_def Let_def turned d turned_back)
  qed
qed

lemma mset_remove_item: "i < length xs \<Longrightarrow> add_mset (xs ! i) (mset (snd (remove_item i xs))) = mset xs"
  by (subst (3) id_take_nth_drop [of i xs]) (simp_all add: remove_item_at)

section \<open>The chosen candidate\<close>

text \<open>A search of the first least element among those that qualify, and what it finds.\<close>

fun argmin_loop :: "('x \<Rightarrow> bool) \<Rightarrow> ('x \<Rightarrow> 'k::linorder) \<Rightarrow> (nat \<times> 'x) list \<Rightarrow> (nat \<times> 'k) option \<Rightarrow> (nat \<times> 'k) option" where
  "argmin_loop F K [] best = best"
| "argmin_loop F K ((i, c) # cs) best = argmin_loop F K cs
     (if F c \<and> (case best of None \<Rightarrow> True | Some (_, k) \<Rightarrow> K c < k) then Some (i, K c) else best)"

definition first_least :: "('x \<Rightarrow> bool) \<Rightarrow> ('x \<Rightarrow> 'k::linorder) \<Rightarrow> 'x list \<Rightarrow> nat option \<Rightarrow> bool" where
  "first_least F K xs r = (case r of None \<Rightarrow> \<forall>x\<in>set xs. \<not> F x
     | Some i \<Rightarrow> i < length xs \<and> F (xs ! i)
         \<and> (\<forall>j<length xs. F (xs ! j) \<longrightarrow> K (xs ! i) \<le> K (xs ! j))
         \<and> (\<forall>j<i. F (xs ! j) \<longrightarrow> K (xs ! i) < K (xs ! j)))"

definition tracks :: "('x \<Rightarrow> bool) \<Rightarrow> ('x \<Rightarrow> 'k::linorder) \<Rightarrow> 'x list \<Rightarrow> (nat \<times> 'k) option \<Rightarrow> bool" where
  "tracks F K xs b \<longleftrightarrow> first_least F K xs (map_option fst b) \<and> (\<forall>i k. b = Some (i, k) \<longrightarrow> k = K (xs ! i))"

lemma tracks_snoc:
  assumes "tracks F K xs b"
  shows "tracks F K (xs @ [x])
     (if F x \<and> (case b of None \<Rightarrow> True | Some (_, k) \<Rightarrow> K x < k) then Some (length xs, K x) else b)"
proof (cases b)
  case None
  then have none: "\<And>j. j < length xs \<Longrightarrow> \<not> F (xs ! j)" using assms by (simp add: tracks_def first_least_def)
  then have "\<And>y. y \<in> set xs \<Longrightarrow> \<not> F y" by (auto simp: in_set_conv_nth)
  then show ?thesis using none None by (auto simp: tracks_def first_least_def nth_append less_Suc_eq)
next
  case (Some p)
  obtain i k where b: "b = Some (i, k)" using Some by (cases p) simp
  have t: "i < length xs" "F (xs ! i)" "k = K (xs ! i)"
      "\<And>j. j < length xs \<Longrightarrow> F (xs ! j) \<Longrightarrow> k \<le> K (xs ! j)" "\<And>j. j < i \<Longrightarrow> F (xs ! j) \<Longrightarrow> k < K (xs ! j)"
    using assms by (auto simp: tracks_def first_least_def b)
  show ?thesis
  proof (cases "F x \<and> K x < k")
    case True
    then show ?thesis using t
      by (auto simp: tracks_def first_least_def b nth_append less_Suc_eq intro: less_imp_le less_le_trans)
  next
    case False
    then show ?thesis using t
      by (auto simp: tracks_def first_least_def b nth_append less_Suc_eq)
  qed
qed

lemma tracks_loop:
  "tracks F K ds b \<Longrightarrow>
   tracks F K (ds @ xs) (argmin_loop F K (zip [length ds..<length ds + length xs] xs) b)"
proof (induction xs arbitrary: ds b)
  case (Cons x xs)
  have r: "[length ds..<length ds + length (x # xs)] = length ds # [Suc (length ds)..<Suc (length ds) + length xs]"
    by (simp add: upt_conv_Cons del: upt_Suc)
  show ?case
    using Cons.IH [OF tracks_snoc [OF Cons.prems, of x]] unfolding r by simp
qed simp

lemma argmin_loop_finds: "first_least F K xs (map_option fst (argmin_loop F K (zip [0..<length xs] xs) None))"
proof -
  have "tracks F K [] None" by (simp add: tracks_def first_least_def)
  from tracks_loop [OF this, of xs] show ?thesis by (simp add: tracks_def)
qed

text \<open>The length of a sample that has one, the cost of a batch and what candidates are compared by.\<close>

definition sample_len :: "lb_env \<Rightarrow> sample \<Rightarrow> int" where
  "sample_len env x = (case get_sample_length (lb_key env) x of Inl e \<Rightarrow> 0 | Inr l \<Rightarrow> l)"

definition measured :: "lb_env \<Rightarrow> sample \<Rightarrow> bool" where
  "measured env x \<longleftrightarrow> get_sample_length (lb_key env) x = Inr (sample_len env x)"

definition batch_cost :: "lb_env \<Rightarrow> sample list \<Rightarrow> int" where
  "batch_cost env xs =
     (if lb_packing env then sum_list (map (sample_len env) xs)
      else Max (set (map (sample_len env) xs)) * int (length xs))"

definition fits :: "lb_env \<Rightarrow> sample list \<Rightarrow> sample \<Rightarrow> bool" where
  "fits env chosen x \<longleftrightarrow> batch_cost env (chosen @ [x]) \<le> lb_max_tokens env"

definition preference :: "lb_env \<Rightarrow> sample list \<Rightarrow> sample \<Rightarrow> int \<times> int" where
  "preference env chosen x =
     (if lb_packing env then (0, 0)
      else (batch_cost env (chosen @ [x]),
            if lb_strategy env = ''prefer_closest'' then \<bar>sample_len env x - Max (set (map (sample_len env) chosen))\<bar> else 0))"

lemma measuredI: "get_sample_length (lb_key env) x = Inr l \<Longrightarrow> measured env x \<and> sample_len env x = l"
  by (simp add: measured_def sample_len_def)

lemma first_search_argmin:
  "first_search env cur n cs b = Inr r \<Longrightarrow>
   r = argmin_loop (\<lambda>x. max cur (sample_len env x) * (n + 1) \<le> lb_max_tokens env)
         (\<lambda>x. max cur (sample_len env x) * (n + 1)) cs b"
proof (induction cs arbitrary: b)
  case (Cons ic cs)
  obtain i c where ic: "ic = (i, c)" by (cases ic)
  from Cons.prems have l: "get_sample_length (lb_key env) c = Inr (sample_len env c)"
    by (auto simp: ic ebind_Inr_iff sample_len_def)
  show ?case using Cons.prems Cons.IH by (simp add: ic l Let_def)
qed simp

lemma closest_search_argmin:
  "closest_search env cur n cs b = Inr r \<Longrightarrow>
   r = argmin_loop (\<lambda>x. max cur (sample_len env x) * (n + 1) \<le> lb_max_tokens env)
         (\<lambda>x. (max cur (sample_len env x) * (n + 1), \<bar>sample_len env x - cur\<bar>)) cs b"
proof (induction cs arbitrary: b)
  case (Cons ic cs)
  obtain i c where ic: "ic = (i, c)" by (cases ic)
  have lex: "(case b of None \<Rightarrow> True | Some (_, t, d) \<Rightarrow> u < t \<or> u = t \<and> v < d)
      = (case b of None \<Rightarrow> True | Some (_, k) \<Rightarrow> (u, v) < k)" for u v
    by (auto split: option.splits)
  from Cons.prems have l: "get_sample_length (lb_key env) c = Inr (sample_len env c)"
    by (auto simp: ic ebind_Inr_iff sample_len_def)
  show ?case using Cons.prems Cons.IH by (simp add: ic l Let_def lex)
qed simp

lemma argmin_loop_const: "argmin_loop F (\<lambda>_. k) cs (Some (i, k)) = Some (i, k)"
  by (induction cs) auto

lemma packing_search_argmin:
  "packing_search env used cs = Inr r \<Longrightarrow>
   r = map_option fst (argmin_loop (\<lambda>x. used + sample_len env x \<le> lb_max_tokens env) (\<lambda>_. (0::int, 0::int)) cs None)"
proof (induction cs)
  case (Cons ic cs)
  obtain i c where ic: "ic = (i, c)" by (cases ic)
  from Cons.prems have l: "get_sample_length (lb_key env) c = Inr (sample_len env c)"
    by (auto simp: ic ebind_Inr_iff sample_len_def)
  show ?case
  proof (cases "lb_max_tokens env < used + sample_len env c")
    case True
    then have "packing_search env used cs = Inr r" using Cons.prems by (simp add: ic l)
    from Cons.IH [OF this] show ?thesis using True by (simp add: ic)
  next
    case False
    then show ?thesis using Cons.prems by (simp add: ic l argmin_loop_const)
  qed
qed simp

lemma batch_cost_snoc:
  "chosen \<noteq> [] \<Longrightarrow> batch_cost env (chosen @ [x]) =
    (if lb_packing env then sum_list (map (sample_len env) chosen) + sample_len env x
     else max (Max (set (map (sample_len env) chosen))) (sample_len env x) * (int (length chosen) + 1))"
  by (simp add: batch_cost_def max.commute algebra_simps)

lemma total_lengthD:
  "total_length env xs = Inr t \<Longrightarrow> t = sum_list (map (sample_len env) xs) \<and> list_all (measured env) xs"
proof -
  assume "total_length env xs = Inr t"
  then obtain ls where ls: "list_all2 (\<lambda>x y. get_sample_length (lb_key env) x = Inr y) xs ls" "t = sum_list ls"
    by (auto simp: total_length_def ebind_Inr_iff emap_Inr_iff)
  have "ls = map (sample_len env) xs \<and> list_all (measured env) xs"
    using ls(1) by (induction rule: list_all2_induct) (auto dest: measuredI)
  then show ?thesis using ls(2) by simp
qed

lemma total_length_measured: "list_all (measured env) xs \<Longrightarrow> total_length env xs = Inr (sum_list (map (sample_len env) xs))"
proof -
  assume "list_all (measured env) xs"
  then have "emap (get_sample_length (lb_key env)) xs = Inr (map (sample_len env) xs)"
    unfolding emap_Inr_iff by (induction xs) (simp_all add: measured_def)
  then show ?thesis by (simp add: total_length_def)
qed

text \<open>Whichever strategy is configured, the candidate is the first, among the samples of the pool that keep the batch
  within the budget, of the least preference; there is none exactly when no sample fits.\<close>

lemma best_candidate:
  assumes "find_best_candidate env cur chosen pool = Inr r" "chosen \<noteq> []" "cur = Max (set (map (sample_len env) chosen))"
  shows "first_least (fits env chosen) (preference env chosen) pool r"
proof (cases "lb_packing env")
  case True
  show ?thesis
  proof (cases "pool = []")
    case True
    then show ?thesis using assms(1) \<open>lb_packing env\<close> by (simp add: find_best_candidate_def prefer_packing_def first_least_def)
  next
    case False
    obtain t where "total_length env chosen = Inr t" and s: "packing_search env t (zip [0..<length pool] pool) = Inr r"
      using assms(1) True False by (auto simp: find_best_candidate_def prefer_packing_def ebind_Inr_iff)
    then have t: "t = sum_list (map (sample_len env) chosen)" by (simp add: total_lengthD)
    have "(\<lambda>x. t + sample_len env x \<le> lb_max_tokens env) = fits env chosen"
      using True assms(2) by (simp add: fits_def batch_cost_snoc t fun_eq_iff)
    moreover have "(\<lambda>_. (0, 0)) = preference env chosen" using True by (simp add: preference_def fun_eq_iff)
    ultimately show ?thesis unfolding packing_search_argmin [OF s] by (metis argmin_loop_finds)
  qed
next
  case False
  have F: "(\<lambda>x. max cur (sample_len env x) * (int (length chosen) + 1) \<le> lb_max_tokens env) = fits env chosen"
    using False assms(2,3) by (simp add: fits_def batch_cost_snoc fun_eq_iff)
  show ?thesis
  proof (cases "lb_strategy env = ''prefer_closest''")
    case True
    then obtain b where b: "closest_search env cur (int (length chosen)) (zip [0..<length pool] pool) None = Inr b" "r = map_option fst b"
      using assms(1) False by (auto simp: find_best_candidate_def prefer_closest_def ebind_Inr_iff)
    have "(\<lambda>x. (max cur (sample_len env x) * (int (length chosen) + 1), \<bar>sample_len env x - cur\<bar>)) = preference env chosen"
      using False True assms(2,3) by (simp add: preference_def batch_cost_snoc fun_eq_iff)
    then show ?thesis unfolding b(2) closest_search_argmin [OF b(1)] using argmin_loop_finds F by metis
  next
    case pf: False
    then obtain b where b: "first_search env cur (int (length chosen)) (zip [0..<length pool] pool) None = Inr b" "r = map_option fst b"
      using assms(1) False by (auto simp: find_best_candidate_def prefer_first_def ebind_Inr_iff)
    have "first_least (fits env chosen) (\<lambda>x. max cur (sample_len env x) * (int (length chosen) + 1)) pool r"
      unfolding b(2) first_search_argmin [OF b(1)] F by (rule argmin_loop_finds)
    moreover have "preference env chosen = (\<lambda>x. (max cur (sample_len env x) * (int (length chosen) + 1), 0))"
      using False pf assms(2,3) by (simp add: preference_def batch_cost_snoc fun_eq_iff)
    ultimately show ?thesis by (simp add: first_least_def split: option.splits)
  qed
qed


section \<open>A batch\<close>

definition too_long :: "lb_env \<Rightarrow> sample \<Rightarrow> bool" where
  "too_long env x \<longleftrightarrow> lb_max_len env \<le> sample_len env x \<or> lb_max_tokens env \<le> sample_len env x"

definition batch_ok :: "lb_env \<Rightarrow> sample list \<Rightarrow> bool" where
  "batch_ok env b \<longleftrightarrow> b \<noteq> [] \<and> list_all (measured env) b
     \<and> (if too_long env (hd b) then length b = 1 else batch_cost env b \<le> lb_max_tokens env)"

text \<open>Where the samples come from: all of the state but the pool and the statistics.\<close>

definition feed :: "lb_state \<Rightarrow> shard_iter option \<times> int \<times> int \<times> int \<times> int" where
  "feed s = (lb_iter s, lb_skip s, lb_epoch s, lb_completed s, lb_shard_epoch s)"

lemma remove_from_pool_run:
  "i < length (lb_pool s) \<Longrightarrow>
   remove_from_pool i s = Ok (lb_pool s ! i) (s\<lparr>lb_pool := take i (lb_pool s) @ drop (Suc i) (lb_pool s)\<rparr>)"
  by (simp add: remove_from_pool_def remove_item_at Let_def)

lemma mset_take_out: "i < length xs \<Longrightarrow> add_mset (xs ! i) (mset (take i xs @ drop (Suc i) xs)) = mset xs"
  using mset_remove_item [of i xs] by (simp add: remove_item_at)

lemma Max_snoc: "xs \<noteq> [] \<Longrightarrow> Max (set (map f (xs @ [x]))) = max (Max (set (map f xs))) (f x :: int)"
  by (simp add: max.commute)

text \<open>The loop that grows a batch keeps it within the budget, takes its additions out of the pool, and stops
  only when nothing in the pool fits any more.\<close>

lemma grow_batch_Ok:
  "grow_batch env n cur chosen s = Ok (cur', chosen') t \<Longrightarrow> chosen \<noteq> [] \<Longrightarrow> list_all (measured env) chosen \<Longrightarrow>
   cur = Max (set (map (sample_len env) chosen)) \<Longrightarrow> batch_cost env chosen \<le> lb_max_tokens env \<Longrightarrow>
   \<exists>added. chosen' = chosen @ added \<and> list_all (measured env) chosen' \<and> cur' = Max (set (map (sample_len env) chosen'))
     \<and> batch_cost env chosen' \<le> lb_max_tokens env \<and> mset added + mset (lb_pool t) = mset (lb_pool s)
     \<and> feed t = feed s \<and> (\<forall>x\<in>set (lb_pool t). \<not> fits env chosen' x)"
proof (induction n arbitrary: cur chosen s)
  case 0
  then show ?case by (auto split: if_splits)
next
  case (Suc n)
  show ?case
  proof (cases "lb_pool s = []")
    case True
    then show ?thesis using Suc.prems by auto
  next
    case False
    obtain best where best: "find_best_candidate env cur chosen (lb_pool s) = Inr best"
      using Suc.prems(1) False by (cases "find_best_candidate env cur chosen (lb_pool s)") simp_all
    note least = best_candidate [OF best Suc.prems(2,4)]
    show ?thesis
    proof (cases best)
      case None
      then show ?thesis using Suc.prems False best least by (auto simp: first_least_def)
    next
      case (Some i)
      let ?c = "lb_pool s ! i" and ?s = "s\<lparr>lb_pool := take i (lb_pool s) @ drop (Suc i) (lb_pool s)\<rparr>"
      have i: "i < length (lb_pool s)" "fits env chosen ?c" using least Some by (simp_all add: first_least_def)
      obtain l where l: "get_sample_length (lb_key env) ?c = Inr l"
        using Suc.prems(1) False best Some i(1)
        by (cases "get_sample_length (lb_key env) ?c") (simp_all add: remove_from_pool_run)
      note m = measuredI [OF l]
      have run: "grow_batch env n (max cur l) (chosen @ [?c]) ?s = Ok (cur', chosen') t"
        using Suc.prems(1) False best Some i(1) l by (simp add: remove_from_pool_run)
      have cur: "max cur l = Max (set (map (sample_len env) (chosen @ [?c])))"
        unfolding Max_snoc [OF Suc.prems(2)] Suc.prems(4) using m by simp
      have "list_all (measured env) (chosen @ [?c])" "batch_cost env (chosen @ [?c]) \<le> lb_max_tokens env"
        using Suc.prems(3) m i(2) by (simp_all add: fits_def)
      note inner = Suc.IH [OF run _ this(1) cur this(2)]
      obtain added where "chosen' = (chosen @ [?c]) @ added" "list_all (measured env) chosen'"
          "cur' = Max (set (map (sample_len env) chosen'))" "batch_cost env chosen' \<le> lb_max_tokens env"
          "mset added + mset (lb_pool t) = mset (lb_pool ?s)" "feed t = feed ?s"
          "\<forall>x\<in>set (lb_pool t). \<not> fits env chosen' x"
        using inner by blast
      then show ?thesis using mset_take_out [OF i(1)]
        by (intro exI [of _ "?c # added"]) (simp add: feed_def)
    qed
  qed
qed

lemma best_fit_Ok:
  assumes "best_fit_batch env s = Ok b t"
  obtains u where "fill_pool env s = Ok () u" "lb_pool u \<noteq> []" "hd b = hd (lb_pool u)" "batch_ok env b"
    "mset b + mset (lb_pool t) = mset (lb_pool u)" "feed t = feed u"
    "too_long env (hd b) \<or> (\<forall>x\<in>set (lb_pool t). \<not> fits env b x)"
proof -
  obtain u where u: "fill_pool env s = Ok () u" using assms by (cases "fill_pool env s") (simp_all add: best_fit_batch_def)
  obtain seed rest where p: "lb_pool u = seed # rest"
    using assms u by (cases "lb_pool u") (simp_all add: best_fit_batch_def)
  obtain l where l: "get_sample_length (lb_key env) seed = Inr l"
    using assms u p by (cases "get_sample_length (lb_key env) seed") (simp_all add: best_fit_batch_def)
  note m = measuredI [OF l]
  show thesis
  proof (cases "too_long env seed")
    case True
    then have "b = [seed]" "t = u\<lparr>lb_pool := rest\<rparr>"
      using assms u p l m by (auto simp: best_fit_batch_def too_long_def)
    then show thesis using that [OF u] p m True by (simp add: batch_ok_def feed_def)
  next
    case False
    let ?u = "u\<lparr>lb_pool := rest\<rparr>"
    obtain cur chosen v where g: "grow_batch env (length rest) l [seed] ?u = Ok (cur, chosen) v"
      using assms u p l m False
      by (cases "grow_batch env (length rest) l [seed] ?u") (auto simp: best_fit_batch_def too_long_def)
    have t: "b = chosen" "lb_pool t = lb_pool v" "feed t = feed v"
      using assms u p l m False g by (cases "batch_tokens env cur chosen"; auto simp: best_fit_batch_def too_long_def feed_def)+
    have "batch_cost env [seed] \<le> lb_max_tokens env" using False m by (simp add: batch_cost_def too_long_def)
    then obtain added where a: "chosen = [seed] @ added" "list_all (measured env) chosen" "batch_cost env chosen \<le> lb_max_tokens env"
        "mset added + mset (lb_pool v) = mset rest" "feed v = feed ?u" "\<forall>x\<in>set (lb_pool v). \<not> fits env chosen x"
      using grow_batch_Ok [OF g] m by auto
    show thesis by (rule that [OF u]) (use p t a False in \<open>simp_all add: batch_ok_def feed_def\<close>)
  qed
qed

lemma first_search_total: "list_all (measured env) (map snd cs) \<Longrightarrow> \<exists>r. first_search env cur n cs b = Inr r"
  by (induction cs arbitrary: b) (auto simp: measured_def Let_def)

lemma closest_search_total: "list_all (measured env) (map snd cs) \<Longrightarrow> \<exists>r. closest_search env cur n cs b = Inr r"
  by (induction cs arbitrary: b) (auto simp: measured_def Let_def)

lemma packing_search_total: "list_all (measured env) (map snd cs) \<Longrightarrow> \<exists>r. packing_search env used cs = Inr r"
  by (induction cs) (auto simp: measured_def)

lemma best_candidate_total:
  assumes "list_all (measured env) chosen" "list_all (measured env) pool"
  shows "\<exists>r. find_best_candidate env cur chosen pool = Inr r"
proof -
  let ?cs = "zip [0..<length pool] pool"
  have cs: "list_all (measured env) (map snd ?cs)" using assms(2) by simp
  show ?thesis
    using first_search_total [OF cs, of cur "int (length chosen)" None]
      closest_search_total [OF cs, of cur "int (length chosen)" None]
      packing_search_total [OF cs, of "sum_list (map (sample_len env) chosen)"]
    by (auto simp: find_best_candidate_def prefer_first_def prefer_closest_def prefer_packing_def
        total_length_measured [OF assms(1)])
qed

lemma grow_batch_total:
  "list_all (measured env) chosen \<Longrightarrow> list_all (measured env) (lb_pool s) \<Longrightarrow> length (lb_pool s) \<le> n \<Longrightarrow> chosen \<noteq> [] \<Longrightarrow>
   cur = Max (set (map (sample_len env) chosen)) \<Longrightarrow> \<exists>r t. grow_batch env n cur chosen s = Ok r t"
proof (induction n arbitrary: cur chosen s)
  case (Suc n)
  show ?case
  proof (cases "lb_pool s = []")
    case False
    obtain best where best: "find_best_candidate env cur chosen (lb_pool s) = Inr best"
      using best_candidate_total Suc.prems(1,2) by blast
    note least = best_candidate [OF best Suc.prems(4,5)]
    show ?thesis
    proof (cases best)
      case (Some i)
      let ?c = "lb_pool s ! i" and ?s = "s\<lparr>lb_pool := take i (lb_pool s) @ drop (Suc i) (lb_pool s)\<rparr>"
      have i: "i < length (lb_pool s)" using least Some by (simp add: first_least_def)
      then have m: "measured env ?c" using Suc.prems(2) by (simp add: list_all_length)
      then have l: "get_sample_length (lb_key env) ?c = Inr (sample_len env ?c)" by (simp add: measured_def)
      have cur: "max cur (sample_len env ?c) = Max (set (map (sample_len env) (chosen @ [?c])))"
        unfolding Max_snoc [OF Suc.prems(4)] Suc.prems(5) ..
      have "set (take i (lb_pool s) @ drop (Suc i) (lb_pool s)) \<subseteq> set (lb_pool s)"
        using set_take_subset set_drop_subset by (metis Un_least set_append)
      then have "list_all (measured env) (lb_pool ?s)" using Suc.prems(2) by (auto simp: list_all_iff)
      then have "\<exists>r t. grow_batch env n (max cur (sample_len env ?c)) (chosen @ [?c]) ?s = Ok r t"
        using Suc.IH [OF _ _ _ _ cur] Suc.prems(1,3) m i by simp
      then show ?thesis using False best Some i l by (simp add: remove_from_pool_run)
    qed (use False best in simp)
  qed simp
qed simp

lemma best_fit_total:
  assumes "fill_pool env s = Ok () u" "list_all (measured env) (lb_pool u)"
  shows "if lb_pool u = [] then best_fit_batch env s = Raise StopIteration u else \<exists>b t. best_fit_batch env s = Ok b t"
proof (cases "lb_pool u")
  case (Cons seed rest)
  then have l: "get_sample_length (lb_key env) seed = Inr (sample_len env seed)" "list_all (measured env) [seed]"
    using assms(2) by (simp_all add: measured_def)
  let ?u = "u\<lparr>lb_pool := rest\<rparr>"
  obtain cur chosen v where g: "grow_batch env (length rest) (sample_len env seed) [seed] ?u = Ok (cur, chosen) v"
    using grow_batch_total [OF l(2), of ?u "length rest"] assms(2) Cons by fastforce
  show ?thesis
  proof (cases "too_long env seed")
    case True
    then show ?thesis using assms(1) Cons l by (auto simp: best_fit_batch_def too_long_def)
  next
    case False
    then have c: "batch_cost env [seed] \<le> lb_max_tokens env" by (simp add: batch_cost_def too_long_def)
    then have "list_all (measured env) chosen" using grow_batch_Ok [OF g] l(2) by auto
    then have "\<exists>k. batch_tokens env cur chosen = Inr k"
      by (simp add: batch_tokens_def total_length_measured)
    then show ?thesis using assms(1) Cons l g False by (auto simp: best_fit_batch_def too_long_def)
  qed
qed (use assms in \<open>simp add: best_fit_batch_def\<close>)


section \<open>One pass over a shard\<close>

text \<open>What an iterator still has to deliver: the samples of its indices up to the first one that cannot be read.\<close>

definition upcoming :: "lb_env \<Rightarrow> lb_state \<Rightarrow> nat list" where
  "upcoming env s = (case lb_iter s of Some Not_Started \<Rightarrow> epoch_indices env (lb_shard_epoch s)
     | Some (Running is) \<Rightarrow> is | _ \<Rightarrow> [])"

fun read_until :: "lb_env \<Rightarrow> nat list \<Rightarrow> sample list" where
  "read_until env [] = []"
| "read_until env (i # is) = (case lb_item env i of Inl e \<Rightarrow> [] | Inr x \<Rightarrow> x # read_until env is)"

definition remaining :: "lb_env \<Rightarrow> lb_state \<Rightarrow> sample list" where
  "remaining env s = read_until env (upcoming env s)"

definition stock :: "lb_env \<Rightarrow> lb_state \<Rightarrow> sample list" where
  "stock env s = lb_pool s @ remaining env s"

text \<open>The only errors are those that \<open>_get_next_sample\<close> takes for the end of the data.\<close>

definition readable :: "lb_env \<Rightarrow> bool" where
  "readable env \<longleftrightarrow> total_shards env \<noteq> 0 \<and> (\<forall>i e. lb_item env i = Inl e \<longrightarrow> e = IndexError \<or> e = KeyError)"

lemma remaining_feed: "feed t = feed s \<Longrightarrow> remaining env t = remaining env s"
  by (auto simp: remaining_def upcoming_def feed_def split: option.split shard_iter.split)

lemma advance_readable:
  assumes "readable env"
  shows "case read_until env is of
      [] \<Rightarrow> \<exists>e. advance_shard env is s = Raise e (s\<lparr>lb_iter := Some Finished\<rparr>) \<and> (e = StopIteration \<or> e = IndexError \<or> e = KeyError)
    | x # xs \<Rightarrow> \<exists>is'. advance_shard env is s = Ok x (s\<lparr>lb_iter := Some (Running is')\<rparr>) \<and> read_until env is' = xs"
proof (cases "is")
  case (Cons i is')
  then show ?thesis using assms by (cases "lb_item env i") (auto simp: advance_shard_def readable_def)
qed (simp add: advance_shard_def)

lemma next_sample_finite:
  assumes r: "readable env"
  shows "case remaining env s of
      [] \<Rightarrow> \<exists>it. get_next_sample env s = Ok None (s\<lparr>lb_iter := it\<rparr>) \<and> remaining env (s\<lparr>lb_iter := it\<rparr>) = []
    | x # xs \<Rightarrow> \<exists>it. get_next_sample env s = Ok (Some x) (s\<lparr>lb_iter := it\<rparr>) \<and> remaining env (s\<lparr>lb_iter := it\<rparr>) = xs"
proof -
  have ended: "case remaining env s of
      [] \<Rightarrow> \<exists>it. get_next_sample env s = Ok None (s\<lparr>lb_iter := it\<rparr>) \<and> remaining env (s\<lparr>lb_iter := it\<rparr>) = []
    | x # xs \<Rightarrow> \<exists>it. get_next_sample env s = Ok (Some x) (s\<lparr>lb_iter := it\<rparr>) \<and> remaining env (s\<lparr>lb_iter := it\<rparr>) = xs"
    if e: "remaining env s = []" "get_next_sample env s = Ok None s"
    unfolding e list.case by (intro exI [of _ "lb_iter s"]) (simp add: e)
  have "(case remaining env s of
      [] \<Rightarrow> \<exists>it. get_next_sample env s = Ok None (s\<lparr>lb_iter := it\<rparr>) \<and> remaining env (s\<lparr>lb_iter := it\<rparr>) = []
    | x # xs \<Rightarrow> \<exists>it. get_next_sample env s = Ok (Some x) (s\<lparr>lb_iter := it\<rparr>) \<and> remaining env (s\<lparr>lb_iter := it\<rparr>) = xs)"
    if "lb_iter s = Some it" "next_of_shard env it s = advance_shard env (upcoming env s) s" for it
  proof (cases "remaining env s")
    case Nil
    then obtain e where "advance_shard env (upcoming env s) s = Raise e (s\<lparr>lb_iter := Some Finished\<rparr>)"
        "e = StopIteration \<or> e = IndexError \<or> e = KeyError"
      using advance_readable [OF r, of "upcoming env s" s] by (auto simp: remaining_def)
    then show ?thesis unfolding Nil list.case using that
      by (intro exI [of _ "Some Finished"]) (auto simp: get_next_sample_def try_except_def remaining_def upcoming_def)
  next
    case (Cons x xs)
    then obtain is' where "advance_shard env (upcoming env s) s = Ok x (s\<lparr>lb_iter := Some (Running is')\<rparr>)" "read_until env is' = xs"
      using advance_readable [OF r, of "upcoming env s" s] by (auto simp: remaining_def)
    then show ?thesis unfolding Cons list.case using that
      by (intro exI [of _ "Some (Running is')"]) (simp add: get_next_sample_def try_except_def remaining_def upcoming_def)
  qed
  note going = this
  have t: "total_shards env \<noteq> 0" using r by (simp add: readable_def)
  show ?thesis
  proof (cases "lb_iter s")
    case None
    then have "remaining env s = []" "get_next_sample env s = Ok None s"
      by (simp_all add: remaining_def upcoming_def get_next_sample_def)
    then show ?thesis by (intro ended)
  next
    case (Some it)
    show ?thesis
    proof (cases it)
      case Not_Started
      then show ?thesis using Some t by (intro going [of it]) (simp_all add: next_of_shard_def upcoming_def)
    next
      case (Running "is")
      then show ?thesis using Some by (intro going [of it]) (simp_all add: next_of_shard_def upcoming_def)
    next
      case Finished
      then have "remaining env s = []" "get_next_sample env s = Ok None s"
        using Some by (simp_all add: remaining_def upcoming_def get_next_sample_def try_except_def next_of_shard_def)
      then show ?thesis by (intro ended)
    qed
  qed
qed

lemma fill_rounds_finite:
  assumes "readable env" "\<not> lb_infinite env"
  shows "\<exists>it. fill_rounds env n s = Ok () (s\<lparr>lb_pool := lb_pool s @ take n (remaining env s), lb_iter := it\<rparr>)
    \<and> remaining env (s\<lparr>lb_pool := lb_pool s @ take n (remaining env s), lb_iter := it\<rparr>) = drop n (remaining env s)"
proof (induction n arbitrary: s)
  case 0
  have "s = s\<lparr>lb_pool := lb_pool s, lb_iter := lb_iter s\<rparr>" by simp
  then show ?case by (intro exI [of _ "lb_iter s"]) simp
next
  case (Suc n)
  have pool: "remaining env (u\<lparr>lb_pool := p\<rparr>) = remaining env u" for u :: lb_state and p
    by (rule remaining_feed) (simp add: feed_def)
  show ?case
  proof (cases "remaining env s")
    case Nil
    then obtain it where "get_next_sample env s = Ok None (s\<lparr>lb_iter := it\<rparr>)" "remaining env (s\<lparr>lb_iter := it\<rparr>) = []"
      using next_sample_finite [OF assms(1), of s] by auto
    then show ?thesis using Nil assms(2) by (intro exI [of _ it]) simp
  next
    case (Cons x xs)
    then obtain it where g: "get_next_sample env s = Ok (Some x) (s\<lparr>lb_iter := it\<rparr>)" "remaining env (s\<lparr>lb_iter := it\<rparr>) = xs"
      using next_sample_finite [OF assms(1), of s] by auto
    let ?u = "s\<lparr>lb_iter := it, lb_pool := lb_pool s @ [x]\<rparr>"
    have "remaining env ?u = xs" using g(2) pool [of "lb_pool s @ [x]" "s\<lparr>lb_iter := it\<rparr>"] by simp
    then obtain it' where "fill_rounds env n ?u = Ok () (?u\<lparr>lb_pool := lb_pool ?u @ take n xs, lb_iter := it'\<rparr>)"
        "remaining env (?u\<lparr>lb_pool := lb_pool ?u @ take n xs, lb_iter := it'\<rparr>) = drop n xs"
      using Suc.IH [of ?u] by auto
    then show ?thesis using g Cons by (intro exI [of _ it']) (simp add: put_in_pool_def)
  qed
qed

lemma fill_pool_finite:
  assumes "readable env" "\<not> lb_infinite env" "1 \<le> lb_pool_size env"
  obtains u where "fill_pool env s = Ok () u" "stock env u = stock env s" "lb_pool u = [] \<longleftrightarrow> stock env s = []"
    "lb_pool u \<noteq> [] \<Longrightarrow> hd (lb_pool u) = hd (stock env s)"
proof -
  define n where "n = nat (lb_pool_size env - int (length (lb_pool s)))"
  obtain it where f: "fill_rounds env n s = Ok () (s\<lparr>lb_pool := lb_pool s @ take n (remaining env s), lb_iter := it\<rparr>)"
    and r: "remaining env (s\<lparr>lb_pool := lb_pool s @ take n (remaining env s), lb_iter := it\<rparr>) = drop n (remaining env s)"
    using fill_rounds_finite [OF assms(1,2)] by blast
  let ?u = "s\<lparr>lb_pool := lb_pool s @ take n (remaining env s), lb_iter := it\<rparr>"
  have n: "lb_pool s = [] \<Longrightarrow> n \<noteq> 0" using assms(3) by (simp add: n_def)
  show thesis
  proof (rule that)
    show "fill_pool env s = Ok () ?u" using f by (simp add: fill_pool_def n_def)
    show st: "stock env ?u = stock env s" using r by (simp add: stock_def)
    show "lb_pool ?u = [] \<longleftrightarrow> stock env s = []" using n by (auto simp: stock_def)
    show "hd (lb_pool ?u) = hd (stock env s)" if "lb_pool ?u \<noteq> []"
      using that st by (metis hd_append2 stock_def)
  qed
qed


text \<open>Without looping, every operation only moves samples from the stock into batches.\<close>

definition finite_pass :: "lb_env \<Rightarrow> bool" where
  "finite_pass env \<longleftrightarrow> readable env \<and> \<not> lb_infinite env \<and> 1 \<le> lb_pool_size env"

definition stocked :: "lb_env \<Rightarrow> lb_state \<Rightarrow> bool" where
  "stocked env s \<longleftrightarrow> list_all (measured env) (stock env s)"

lemma list_all_mset_sub: "list_all P xs \<Longrightarrow> mset ys + mset zs = mset xs \<Longrightarrow> list_all P zs"
  by (metis list_all_iff set_mset_mset set_mset_union Un_iff)

lemma stocked_part: "stocked env s \<Longrightarrow> mset b + mset (stock env t) = mset (stock env s) \<Longrightarrow> stocked env t"
  by (auto simp: stocked_def intro: list_all_mset_sub)

lemma best_fit_finite:
  assumes "finite_pass env" "stocked env s"
  shows "if stock env s = [] then \<exists>t. best_fit_batch env s = Raise StopIteration t \<and> stock env t = []
    else \<exists>b t. best_fit_batch env s = Ok b t \<and> b \<noteq> [] \<and> mset b + mset (stock env t) = mset (stock env s)"
proof -
  obtain u where u: "fill_pool env s = Ok () u" "stock env u = stock env s" "lb_pool u = [] \<longleftrightarrow> stock env s = []"
    using fill_pool_finite assms(1) unfolding finite_pass_def by metis
  have "list_all (measured env) (lb_pool u)" using assms(2) u(2) unfolding stocked_def stock_def by (metis list_all_append)
  note total = best_fit_total [OF u(1) this]
  show ?thesis
  proof (cases "stock env s = []")
    case True
    then show ?thesis using total u by auto
  next
    case False
    then obtain b t where b: "best_fit_batch env s = Ok b t" using total u by auto
    from best_fit_Ok [OF b] obtain v where v: "fill_pool env s = Ok () v" "mset b + mset (lb_pool t) = mset (lb_pool v)"
        "feed t = feed v" "batch_ok env b" by metis
    have "mset b + mset (stock env t) = mset (stock env u)"
      using v u(1) remaining_feed [OF v(3)] by (simp add: stock_def add.assoc [symmetric])
    then have "mset b + mset (stock env t) = mset (stock env s)" unfolding u(2) .
    then show ?thesis using b v(4) False by (auto simp: batch_ok_def)
  qed
qed

lemma attempt_finite:
  assumes "finite_pass env" "stocked env s"
  shows "if stock env s = [] then \<exists>t. attempt_batch env s = Ok None t \<and> stock env t = []
    else \<exists>b t. attempt_batch env s = Ok (Some b) t \<and> b \<noteq> [] \<and> mset b + mset (stock env t) = mset (stock env s)"
proof (cases "stock env s = []")
  case True
  then obtain t where t: "best_fit_batch env s = Raise StopIteration t" "stock env t = []"
    using best_fit_finite [OF assms] by auto
  obtain u where "fill_pool env t = Ok () u" "stock env u = stock env t" "lb_pool u = [] \<longleftrightarrow> stock env t = []"
    using fill_pool_finite assms(1) unfolding finite_pass_def by metis
  then show ?thesis using t True by (simp add: attempt_batch_def or_none_def try_except_def)
next
  case False
  then show ?thesis using best_fit_finite [OF assms] by (auto simp: attempt_batch_def or_none_def try_except_def)
qed

lemma accumulate_finite:
  assumes "finite_pass env"
  shows "stocked env s \<Longrightarrow> \<exists>bs t. accumulate env n acc s = Ok (acc @ bs) t
    \<and> mset (concat bs) + mset (stock env t) = mset (stock env s) \<and> [] \<notin> set bs
    \<and> (n \<noteq> 0 \<and> stock env s \<noteq> [] \<longrightarrow> bs \<noteq> [])"
proof (induction n arbitrary: s acc)
  case (Suc n)
  show ?case
  proof (cases "stock env s = []")
    case True
    then show ?thesis using attempt_finite [OF assms Suc.prems] by auto
  next
    case False
    then obtain b t where b: "attempt_batch env s = Ok (Some b) t" "b \<noteq> []" "mset b + mset (stock env t) = mset (stock env s)"
      using attempt_finite [OF assms Suc.prems] by auto
    obtain bs u where "accumulate env n (acc @ [b]) t = Ok ((acc @ [b]) @ bs) u"
        "mset (concat bs) + mset (stock env u) = mset (stock env t)" "[] \<notin> set bs"
      using Suc.IH [OF stocked_part [OF Suc.prems b(3)], of "acc @ [b]"] by blast
    then show ?thesis using b by (intro exI [of _ "b # bs"] exI [of _ u]) (simp add: add.assoc b(3) [symmetric])
  qed
qed simp

lemma next_item_finite:
  assumes "finite_pass env" "1 \<le> lb_accumulate env" "stocked env s"
  shows "if stock env s = [] then \<exists>t. next_item env s = Ok None t \<and> stock env t = []
    else \<exists>bs t. next_item env s = Ok (Some bs) t \<and> concat bs \<noteq> [] \<and> mset (concat bs) + mset (stock env t) = mset (stock env s)"
proof -
  obtain bs t where bs: "build_accumulated_batches env s = Ok bs t"
      "mset (concat bs) + mset (stock env t) = mset (stock env s)" "[] \<notin> set bs" "stock env s \<noteq> [] \<longrightarrow> bs \<noteq> []"
    using accumulate_finite [OF assms(1,3), of "nat (lb_accumulate env)" "[]"] assms(2)
    by (auto simp: build_accumulated_batches_def)
  have i: "\<not> lb_infinite env" using assms(1) by (simp add: finite_pass_def)
  show ?thesis
  proof (cases "bs = []")
    case True
    then show ?thesis using bs i by (simp add: next_item_def)
  next
    case False
    then have "concat bs \<noteq> []" using bs(3) by (cases bs) auto
    moreover have "stock env s \<noteq> []" using bs(2) calculation by auto
    ultimately show ?thesis using bs False by (simp add: next_item_def)
  qed
qed

lemma take_items_finite:
  assumes "finite_pass env" "1 \<le> lb_accumulate env"
  shows "stocked env s \<Longrightarrow> \<exists>items t. take_items env n s = Ok items t
    \<and> mset (concat (concat items)) + mset (stock env t) = mset (stock env s)
    \<and> (length (stock env s) \<le> n \<longrightarrow> stock env t = [])"
proof (induction n arbitrary: s)
  case (Suc n)
  show ?case
  proof (cases "stock env s = []")
    case True
    then show ?thesis using next_item_finite [OF assms Suc.prems] by auto
  next
    case False
    then obtain bs t where bs: "next_item env s = Ok (Some bs) t" "concat bs \<noteq> []"
        "mset (concat bs) + mset (stock env t) = mset (stock env s)"
      using next_item_finite [OF assms Suc.prems] by auto
    have "length (concat bs) + length (stock env t) = length (stock env s)"
      using arg_cong [OF bs(3), of size] by simp
    then have l: "length (stock env t) < length (stock env s)" using bs(2) by (cases "concat bs") auto
    obtain items u where "take_items env n t = Ok items u"
        "mset (concat (concat items)) + mset (stock env u) = mset (stock env t)"
        "length (stock env t) \<le> n \<longrightarrow> stock env u = []"
      using Suc.IH [OF stocked_part [OF Suc.prems bs(3)]] by blast
    then show ?thesis using bs(1) l bs(3) [symmetric] by (intro exI [of _ "bs # items"] exI [of _ u]) (simp add: add.assoc)
  qed
qed simp

definition all_measured :: "lb_env \<Rightarrow> bool" where
  "all_measured env \<longleftrightarrow> (\<forall>i x. lb_item env i = Inr x \<longrightarrow> measured env x)"

lemma read_until_measured: "all_measured env \<Longrightarrow> list_all (measured env) (read_until env is)"
  by (induction env "is" rule: read_until.induct) (auto simp: all_measured_def split: sum.split)

lemma length_read_until: "length (read_until env is) \<le> length is"
  by (induction env "is" rule: read_until.induct) (auto split: sum.split)

text \<open>What an iteration without looping delivers: the samples of its epoch up to the first unreadable one, and
  then it ends.\<close>

lemma iterate_finite:
  assumes "finite_pass env" "1 \<le> lb_accumulate env" "all_measured env" "lb_skip s \<le> 0"
    "length (epoch_indices env (lb_epoch s)) \<le> n"
  shows "\<exists>items t. iterate env n s = Ok items t \<and> (\<exists>u. next_item env t = Ok None u)
    \<and> mset (concat (concat items)) = mset (read_until env (epoch_indices env (lb_epoch s)))"
proof -
  let ?s = "s\<lparr>lb_shard_epoch := lb_epoch s, lb_iter := Some Not_Started, lb_pool := []\<rparr>"
  have b: "begin_iteration env s = Ok () ?s" using assms(4) by (simp add: begin_iteration_def)
  have st: "stock env ?s = read_until env (epoch_indices env (lb_epoch s))"
    by (simp add: stock_def remaining_def upcoming_def)
  then have k: "stocked env ?s" using read_until_measured assms(3) by (simp add: stocked_def)
  have "length (stock env ?s) \<le> n" unfolding st using length_read_until assms(5) by (metis le_trans)
  then obtain items t where t: "take_items env n ?s = Ok items t" "stock env t = []"
      "mset (concat (concat items)) = mset (stock env ?s)"
    using take_items_finite [OF assms(1,2) k, of n] by auto
  have "stocked env t" using t(2) by (simp add: stocked_def)
  then have "\<exists>u. next_item env t = Ok None u" using next_item_finite [OF assms(1,2)] t(2) by fastforce
  then show ?thesis using t b st by (simp add: iterate_def)
qed


section \<open>Every item\<close>

lemma attempt_Ok: "attempt_batch env s = Ok (Some b) t \<Longrightarrow> batch_ok env b"
proof -
  assume a: "attempt_batch env s = Ok (Some b) t"
  have "\<exists>u v. best_fit_batch env u = Ok b v"
    using a unfolding attempt_batch_def or_none_def try_except_def bnd_def
    by (auto split: outcome.splits if_splits)
  then show ?thesis by (metis best_fit_Ok)
qed

lemma accumulate_Ok:
  "accumulate env n acc s = Ok bs t \<Longrightarrow> list_all (batch_ok env) acc \<Longrightarrow> list_all (batch_ok env) bs \<and> length bs \<le> length acc + n"
proof (induction n arbitrary: acc s)
  case (Suc n)
  then obtain ob u where o: "attempt_batch env s = Ok ob u" by (cases "attempt_batch env s") simp_all
  show ?case
  proof (cases ob)
    case (Some b)
    then have "accumulate env n (acc @ [b]) u = Ok bs t" using Suc.prems(1) o by simp
    from Suc.IH [OF this] show ?thesis using Suc.prems(2) attempt_Ok o Some by auto
  qed (use Suc.prems o in simp)
qed simp

lemma next_item_Ok:
  assumes "next_item env s = Ok (Some bs) t"
  shows "bs \<noteq> [] \<and> length bs \<le> nat (lb_accumulate env) \<and> list_all (batch_ok env) bs"
proof -
  have "bs \<noteq> [] \<and> (\<exists>u v. build_accumulated_batches env u = Ok bs v)"
    using assms unfolding next_item_def bnd_def by (auto split: outcome.splits if_splits)
  then obtain u v where "bs \<noteq> []" "accumulate env (nat (lb_accumulate env)) [] u = Ok bs v"
    unfolding build_accumulated_batches_def by blast
  then show ?thesis using accumulate_Ok by fastforce
qed

definition item_ok :: "lb_env \<Rightarrow> sample list list \<Rightarrow> bool" where
  "item_ok env bs \<longleftrightarrow> bs \<noteq> [] \<and> length bs \<le> nat (lb_accumulate env) \<and> list_all (batch_ok env) bs"

lemma take_items_Ok: "take_items env n s = Ok items t \<Longrightarrow> length items \<le> n \<and> list_all (item_ok env) items"
proof (induction n arbitrary: s items t)
  case (Suc n)
  then obtain ob u where o: "next_item env s = Ok ob u" by (cases "next_item env s") simp_all
  show ?case
  proof (cases ob)
    case (Some bs)
    then obtain rest v where r: "take_items env n u = Ok rest v" "items = bs # rest"
      using Suc.prems o by (cases "take_items env n u") auto
    then show ?thesis using Suc.IH [OF r(1)] next_item_Ok [of env s bs u] o Some by (simp add: item_ok_def)
  qed (use Suc.prems o in simp)
qed simp

section \<open>Looping over the data\<close>

definition endless :: "lb_env \<Rightarrow> bool" where
  "endless env \<longleftrightarrow> lb_infinite env \<and> 1 \<le> lb_pool_size env \<and> 1 \<le> lb_accumulate env \<and> total_shards env \<noteq> 0
     \<and> (\<forall>i. \<exists>x. lb_item env i = Inr x \<and> measured env x) \<and> (\<forall>e. epoch_indices env e \<noteq> [])"

lemma endless_readable: "endless env \<Longrightarrow> readable env"
  unfolding endless_def readable_def by (metis Inl_Inr_False)

lemma endless_measured: "endless env \<Longrightarrow> all_measured env"
  unfolding endless_def all_measured_def by (metis Inr_inject)

lemma remaining_measured: "endless env \<Longrightarrow> list_all (measured env) (remaining env s)"
  by (simp add: remaining_def read_until_measured endless_measured)

lemma next_sample_endless:
  assumes "endless env"
  shows "\<exists>x u. get_next_sample env s = Ok (Some x) u \<and> measured env x \<and> lb_pool u = lb_pool s
    \<or> get_next_sample env s = Ok None u \<and> lb_pool u = lb_pool s"
proof (cases "remaining env s")
  case Nil
  then show ?thesis using next_sample_finite [OF endless_readable [OF assms], of s] by auto
next
  case (Cons x xs)
  then obtain it where "get_next_sample env s = Ok (Some x) (s\<lparr>lb_iter := it\<rparr>)"
    using next_sample_finite [OF endless_readable [OF assms], of s] by auto
  moreover have "measured env x" using remaining_measured [OF assms, of s] Cons by simp
  ultimately show ?thesis by (intro exI [of _ x] exI [of _ "s\<lparr>lb_iter := it\<rparr>"]) simp
qed

lemma next_sample_restarted:
  assumes "endless env" "lb_iter s = Some Not_Started"
  shows "\<exists>x u. get_next_sample env s = Ok (Some x) u \<and> measured env x \<and> lb_pool u = lb_pool s"
proof -
  obtain i "is" where "epoch_indices env (lb_shard_epoch s) = i # is" using assms(1) unfolding endless_def by (meson neq_Nil_conv)
  moreover obtain y where "lb_item env i = Inr y" using assms(1) unfolding endless_def by blast
  ultimately obtain x xs where x: "remaining env s = x # xs" using assms(2) by (simp add: remaining_def upcoming_def)
  then obtain it where "get_next_sample env s = Ok (Some x) (s\<lparr>lb_iter := it\<rparr>)"
    using next_sample_finite [OF endless_readable [OF assms(1)], of s] by auto
  moreover have "measured env x" using remaining_measured [OF assms(1), of s] x by simp
  ultimately show ?thesis by (intro exI [of _ x] exI [of _ "s\<lparr>lb_iter := it\<rparr>"]) simp
qed

lemma fill_rounds_endless:
  assumes "endless env"
  shows "list_all (measured env) (lb_pool s) \<Longrightarrow>
    \<exists>u. fill_rounds env n s = Ok () u \<and> length (lb_pool u) = length (lb_pool s) + n \<and> list_all (measured env) (lb_pool u)"
proof (induction n arbitrary: s)
  case (Suc n)
  have more: "\<exists>w. fill_rounds env n (u\<lparr>lb_pool := lb_pool u @ [x]\<rparr>) = Ok () w
      \<and> length (lb_pool w) = length (lb_pool s) + Suc n \<and> list_all (measured env) (lb_pool w)"
    if "measured env x" "lb_pool u = lb_pool s" for x u
    using Suc.IH [of "u\<lparr>lb_pool := lb_pool u @ [x]\<rparr>"] Suc.prems that by simp
  obtain x u where "get_next_sample env s = Ok (Some x) u \<and> measured env x \<and> lb_pool u = lb_pool s
      \<or> get_next_sample env s = Ok None u \<and> lb_pool u = lb_pool s"
    using next_sample_endless [OF assms] by blast
  then show ?case
  proof
    assume "get_next_sample env s = Ok (Some x) u \<and> measured env x \<and> lb_pool u = lb_pool s"
    then show ?thesis using more [of x u] by (simp add: put_in_pool_def)
  next
    assume n: "get_next_sample env s = Ok None u \<and> lb_pool u = lb_pool s"
    let ?u = "u\<lparr>lb_completed := lb_completed u + 1, lb_epoch := lb_epoch u + 1, lb_shard_epoch := lb_epoch u + 1,
      lb_iter := Some Not_Started\<rparr>"
    obtain y v where "get_next_sample env ?u = Ok (Some y) v" "measured env y" "lb_pool v = lb_pool ?u"
      using next_sample_restarted [OF assms, of ?u] by auto
    then show ?thesis using n more [of y v] assms by (simp add: recreate_iterator_def put_in_pool_def endless_def)
  qed
qed simp

lemma best_fit_endless:
  assumes "endless env" "list_all (measured env) (lb_pool s)"
  shows "\<exists>b t. best_fit_batch env s = Ok b t \<and> list_all (measured env) (lb_pool t)"
proof -
  define n where "n = nat (lb_pool_size env - int (length (lb_pool s)))"
  obtain u where "fill_rounds env n s = Ok () u" "length (lb_pool u) = length (lb_pool s) + n" "list_all (measured env) (lb_pool u)"
    using fill_rounds_endless [OF assms] by blast
  then have u: "fill_pool env s = Ok () u" "lb_pool u \<noteq> []" "list_all (measured env) (lb_pool u)"
    using assms(1) by (auto simp: fill_pool_def n_def endless_def)
  then obtain b t where b: "best_fit_batch env s = Ok b t" using best_fit_total [OF u(1,3)] by auto
  from best_fit_Ok [OF this] obtain v where "fill_pool env s = Ok () v" "mset b + mset (lb_pool t) = mset (lb_pool v)" by metis
  then show ?thesis using b u list_all_mset_sub by fastforce
qed

lemma accumulate_endless:
  assumes "endless env"
  shows "list_all (measured env) (lb_pool s) \<Longrightarrow>
    \<exists>bs t. accumulate env n acc s = Ok bs t \<and> length bs = length acc + n \<and> list_all (measured env) (lb_pool t)"
proof (induction n arbitrary: acc s)
  case (Suc n)
  obtain b t where b: "best_fit_batch env s = Ok b t" "list_all (measured env) (lb_pool t)"
    using best_fit_endless [OF assms Suc.prems] by blast
  then have "attempt_batch env s = Ok (Some b) t" by (simp add: attempt_batch_def or_none_def try_except_def)
  then show ?case using Suc.IH [OF b(2), of "acc @ [b]"] by simp
qed simp

lemma next_item_endless:
  assumes "endless env" "list_all (measured env) (lb_pool s)"
  shows "\<exists>bs t. next_item env s = Ok (Some bs) t \<and> length bs = nat (lb_accumulate env) \<and> list_all (measured env) (lb_pool t)"
proof -
  obtain bs t where "build_accumulated_batches env s = Ok bs t" "length bs = nat (lb_accumulate env)" "list_all (measured env) (lb_pool t)"
    using accumulate_endless [OF assms, of "nat (lb_accumulate env)" "[]"] by (auto simp: build_accumulated_batches_def)
  moreover have "bs \<noteq> []" using calculation(2) assms(1) by (auto simp: endless_def)
  ultimately show ?thesis by (simp add: next_item_def)
qed

lemma take_items_endless:
  assumes "endless env"
  shows "list_all (measured env) (lb_pool s) \<Longrightarrow>
    \<exists>items t. take_items env n s = Ok items t \<and> length items = n \<and> list_all (\<lambda>bs. length bs = nat (lb_accumulate env)) items"
proof (induction n arbitrary: s)
  case (Suc n)
  obtain bs t where bs: "next_item env s = Ok (Some bs) t" "length bs = nat (lb_accumulate env)" "list_all (measured env) (lb_pool t)"
    using next_item_endless [OF assms Suc.prems] by blast
  obtain items u where "take_items env n t = Ok items u" "length items = n" "list_all (\<lambda>bs. length bs = nat (lb_accumulate env)) items"
    using Suc.IH [OF bs(3)] by blast
  then show ?case using bs by simp
qed simp

lemma skip_items_endless:
  assumes "endless env"
  shows "list_all (measured env) (lb_pool s) \<Longrightarrow> \<exists>t. skip_items env n s = Ok () t \<and> list_all (measured env) (lb_pool t)"
proof (induction n arbitrary: s)
  case (Suc n)
  obtain bs t where bs: "next_item env s = Ok (Some bs) t" "list_all (measured env) (lb_pool t)"
    using next_item_endless [OF assms Suc.prems] by blast
  then show ?case using Suc.IH [OF bs(2)] by simp
qed simp

section \<open>Skipping\<close>

text \<open>Operations that neither read nor write the number of batches to skip.\<close>

definition ignores_skip :: "'a lb \<Rightarrow> bool" where
  "ignores_skip m \<longleftrightarrow> (\<forall>s v. m (s\<lparr>lb_skip := v\<rparr>) = (case m s of Ok a t \<Rightarrow> Ok a (t\<lparr>lb_skip := v\<rparr>) | Raise e t \<Rightarrow> Raise e (t\<lparr>lb_skip := v\<rparr>)))"

named_theorems skip_free \<open>operations that ignore the number of batches to skip\<close>

lemma ignores_basic [skip_free]: "ignores_skip (ret a)" "ignores_skip (raise e)" "ignores_skip (lift_sum r)"
    "ignores_skip (Ok a)" "ignores_skip (Raise e)"
  by (auto simp: ignores_skip_def lift_sum_def split: sum.split)

lemma ignores_bnd [skip_free]: "ignores_skip m \<Longrightarrow> (\<And>a. ignores_skip (f a)) \<Longrightarrow> ignores_skip (bnd m f)"
  unfolding ignores_skip_def bnd_def by (auto split: outcome.splits)

lemma ignores_try [skip_free]: "ignores_skip m \<Longrightarrow> (\<And>e. ignores_skip (h e)) \<Longrightarrow> ignores_skip (try_except m h)"
  unfolding ignores_skip_def try_except_def by (auto split: outcome.splits)

lemma ignores_modify: "(\<And>s v. f (s\<lparr>lb_skip := v\<rparr>) = (f s)\<lparr>lb_skip := v\<rparr>) \<Longrightarrow> ignores_skip (modify f)"
  by (simp add: ignores_skip_def)

lemma ignores_with_state: "(\<And>s. ignores_skip (f s)) \<Longrightarrow> (\<And>s v. f (s\<lparr>lb_skip := v\<rparr>) = f s) \<Longrightarrow> ignores_skip (with_state f)"
  by (simp add: ignores_skip_def)

lemma ignores_if [skip_free]: "(b \<Longrightarrow> ignores_skip m) \<Longrightarrow> (\<not> b \<Longrightarrow> ignores_skip m') \<Longrightarrow> ignores_skip (if b then m else m')"
  by simp

lemma ignores_option [skip_free]:
  "ignores_skip m \<Longrightarrow> (\<And>y. ignores_skip (f y)) \<Longrightarrow> ignores_skip (case x of None \<Rightarrow> m | Some y \<Rightarrow> f y)"
  by (cases x) simp_all

lemma ignores_pair [skip_free]: "(\<And>a b. ignores_skip (f a b)) \<Longrightarrow> ignores_skip (case z of (a, b) \<Rightarrow> f a b)"
  by (cases z) simp

lemma ignores_next_sample [skip_free]: "ignores_skip (get_next_sample env)"
proof -
  have "ignores_skip (advance_shard env is)" for "is"
    unfolding advance_shard_def by (auto split: list.split sum.split intro!: skip_free ignores_modify)
  then have "ignores_skip (next_of_shard env it)" for it
    unfolding next_of_shard_def by (auto split: shard_iter.split intro!: skip_free ignores_modify ignores_with_state)
  then show ?thesis unfolding get_next_sample_def
    by (auto split: option.split intro!: skip_free ignores_with_state)
qed

lemma ignores_recreate [skip_free]: "ignores_skip recreate_iterator" "ignores_skip (put_in_pool x)"
  by (simp_all add: recreate_iterator_def put_in_pool_def ignores_modify)

lemma ignores_fill [skip_free]: "ignores_skip (fill_rounds env n)"
  by (induction n) (auto intro!: skip_free split: option.split)

lemma ignores_fill_pool [skip_free]: "ignores_skip (fill_pool env)"
  by (auto simp: fill_pool_def intro!: skip_free ignores_with_state)

lemma ignores_remove [skip_free]: "ignores_skip (remove_from_pool i)"
  by (auto simp: remove_from_pool_def Let_def split: prod.split intro!: skip_free ignores_with_state ignores_modify)

lemma ignores_grow [skip_free]: "ignores_skip (grow_batch env n cur chosen)"
  by (induction n arbitrary: cur chosen)
    (auto intro!: skip_free ignores_with_state split: option.split)

lemma ignores_best_fit [skip_free]: "ignores_skip (best_fit_batch env)"
  by (auto simp: best_fit_batch_def intro!: skip_free ignores_with_state ignores_modify split: list.split)

lemma ignores_attempt [skip_free]: "ignores_skip (attempt_batch env)"
  by (auto simp: attempt_batch_def or_none_def intro!: skip_free ignores_with_state)

lemma ignores_accumulate [skip_free]: "ignores_skip (accumulate env n acc)"
  by (induction n arbitrary: acc) (auto intro!: skip_free split: option.split)

lemma ignores_next_item [skip_free]: "ignores_skip (next_item env)"
  by (auto simp: next_item_def build_accumulated_batches_def intro!: skip_free)

lemma ignores_take [skip_free]: "ignores_skip (take_items env n)"
  by (induction n) (auto intro!: skip_free split: option.split)

lemma ignores_skipD: "ignores_skip m \<Longrightarrow> m s = Ok a t \<Longrightarrow> m (s\<lparr>lb_skip := v\<rparr>) = Ok a (t\<lparr>lb_skip := v\<rparr>)"
  by (simp add: ignores_skip_def)

lemma skip_then_take:
  "take_items env (k + n) s = Ok items t \<Longrightarrow> k \<le> length items \<Longrightarrow>
   \<exists>u. skip_items env k s = Ok () u \<and> take_items env n u = Ok (drop k items) t"
proof (induction k arbitrary: s items)
  case (Suc k)
  obtain ob u where o: "next_item env s = Ok ob u" using Suc.prems(1) by (cases "next_item env s") simp_all
  obtain bs where "ob = Some bs" using Suc.prems o by (cases ob) auto
  moreover obtain rest v where r: "take_items env (k + n) u = Ok rest v"
    using Suc.prems(1) o calculation by (cases "take_items env (k + n) u") auto
  ultimately have "items = bs # rest" "v = t" using Suc.prems(1) o by auto
  then show ?case using Suc.IH [of u rest] Suc.prems(2) o r \<open>ob = Some bs\<close> by simp
qed simp


lemma ignores_skip_items [skip_free]: "ignores_skip (skip_items env n)"
  by (induction n) (auto intro!: skip_free split: option.split)

section \<open>The shards\<close>

definition on_shard :: "lb_env \<Rightarrow> nat \<Rightarrow> nat \<Rightarrow> lb_env" where
  "on_shard env r w = env\<lparr>lb_dp_rank := r, lb_worker_id := w\<rparr>"

lemma concat_grid: "concat (map (\<lambda>r. map (\<lambda>w. f (r * m + w)) [0..<m]) [0..<n]) = map f [0..<n * m]"
proof (induction n)
  case (Suc n)
  have "[0..<Suc n * m] = [0..<n * m] @ map (\<lambda>w. w + n * m) [0..<m]"
    using upt_add_eq_append [of 0 "n * m" m] by (simp only: map_add_upt mult_Suc add.commute le0)
  then show ?case using Suc by (simp add: add.commute)
qed simp

lemma concat_of_concats: "concat (map concat xss) = concat (concat xss)"
  by (induction xss) simp_all

text \<open>The shards of all ranks and workers share out the indices.\<close>

lemma shards_partition:
  assumes "0 < lb_dp_world env" "0 < lb_num_workers env"
  shows "mset (concat (map (\<lambda>r. concat (map (\<lambda>w. shard_indices (on_shard env r w)) [0..<lb_num_workers env])) [0..<lb_dp_world env]))
    = mset [0..<lb_size env]"
proof -
  let ?n = "lb_dp_world env" and ?m = "lb_num_workers env" and ?is = "[0..<lb_size env]"
  have "shard_indices (on_shard env r w) = stride (r * ?m + w) (?n * ?m) ?is" for r w
    by (simp add: shard_indices_def on_shard_def shard_id_def total_shards_def)
  then have "concat (map (\<lambda>r. concat (map (\<lambda>w. shard_indices (on_shard env r w)) [0..<?m])) [0..<?n])
      = concat (concat (map (\<lambda>r. map (\<lambda>w. stride (r * ?m + w) (?n * ?m) ?is) [0..<?m]) [0..<?n]))"
    unfolding concat_of_concats [symmetric] by (simp add: comp_def)
  also have "\<dots> = concat (map (\<lambda>k. stride k (?n * ?m) ?is) [0..<?n * ?m])"
    by (simp only: concat_grid [of "\<lambda>k. stride k (?n * ?m) ?is"])
  finally show ?thesis using shares_all [of "?n * ?m" ?is] assms by simp
qed


definition delivered :: "lb_env \<Rightarrow> nat \<Rightarrow> lb_state \<Rightarrow> sample list" where
  "delivered env n s = (case iterate env n s of Ok items t \<Rightarrow> concat (concat items) | Raise e t \<Rightarrow> [])"

text \<open>A dataset without unreadable or unmeasurable samples, and a shuffle that permutes.\<close>

definition good_data :: "lb_env \<Rightarrow> bool" where
  "good_data env \<longleftrightarrow> (\<forall>i. \<exists>x. lb_item env i = Inr x \<and> measured env x)
     \<and> (\<forall>seed is. mset (lb_shuffle env seed is) = mset is)"

lemma read_until_good:
  "\<forall>i. \<exists>x. lb_item env i = Inr x \<Longrightarrow> read_until env is = map (\<lambda>i. projr (lb_item env i)) is"
proof (induction "is")
  case (Cons i "is")
  then obtain x where "lb_item env i = Inr x" by blast
  then show ?case using Cons by simp
qed simp

lemma on_shard_same [simp]:
  "lb_item (on_shard env r w) = lb_item env" "lb_shuffle (on_shard env r w) = lb_shuffle env"
  "lb_size (on_shard env r w) = lb_size env" "lb_key (on_shard env r w) = lb_key env"
  "lb_accumulate (on_shard env r w) = lb_accumulate env" "lb_infinite (on_shard env r w) = lb_infinite env"
  "lb_pool_size (on_shard env r w) = lb_pool_size env" "total_shards (on_shard env r w) = total_shards env"
  by (simp_all add: on_shard_def total_shards_def)

lemma measured_on_shard [simp]: "measured (on_shard env r w) = measured env"
  by (simp add: measured_def sample_len_def fun_eq_iff)

lemma delivered_on_shard:
  assumes good: "good_data env" and config: "\<not> lb_infinite env" "1 \<le> lb_pool_size env" "1 \<le> lb_accumulate env"
      "total_shards env \<noteq> 0" "lb_skip s \<le> 0" "lb_size env \<le> n"
  shows "mset (delivered (on_shard env r w) n s) = image_mset (\<lambda>i. projr (lb_item env i)) (mset (shard_indices (on_shard env r w)))"
proof -
  let ?e = "on_shard env r w"
  have items: "\<forall>i. \<exists>x. lb_item ?e i = Inr x" using good unfolding good_data_def by (metis on_shard_same(1))
  then have "readable ?e" using config(4) unfolding readable_def by (metis Inl_Inr_False on_shard_same(8))
  then have fin: "finite_pass ?e" using config by (simp add: finite_pass_def)
  have meas: "all_measured ?e" using good unfolding good_data_def all_measured_def by (metis Inr_inject measured_on_shard on_shard_same(1))
  have perm: "mset (epoch_indices ?e (lb_epoch s)) = mset (shard_indices ?e)"
    using good by (simp add: epoch_indices_def good_data_def)
  have "length (shard_indices ?e) \<le> lb_size env"
    unfolding shard_indices_def stride_def length_map on_shard_same by (metis diff_zero length_filter_le length_upt)
  then have "length (epoch_indices ?e (lb_epoch s)) \<le> n" using config(6) perm by (metis le_trans size_mset)
  from iterate_finite [OF fin _ meas config(5) this] config(3)
  obtain items t where "iterate ?e n s = Ok items t"
      "mset (concat (concat items)) = mset (read_until ?e (epoch_indices ?e (lb_epoch s)))" by auto
  then show ?thesis using perm by (simp add: delivered_def read_until_good [OF items])
qed

section \<open>Properties\<close>

text \<open>C32: Every item of the generator is a list of one to \<open>accumulate_steps\<close> batches. A batch is not empty, all its
  samples have a length, and it stays within the budget of tokens (padded length times number of samples, or the sum
  of the lengths under sequence packing), unless its first sample alone reaches \<open>max_tokens_len\<close> or the budget; then
  it holds only that sample. This holds for every dataset, shuffle, strategy and state, errors of the dataset
  included.\<close>

theorem batches_within_budget:
  assumes "iterate env n s = Ok items t" "bs \<in> set items"
  shows "bs \<noteq> [] \<and> length bs \<le> nat (lb_accumulate env) \<and>
    list_all (\<lambda>b. b \<noteq> [] \<and> list_all (measured env) b \<and>
      (if too_long env (hd b) then length b = 1 else batch_cost env b \<le> lb_max_tokens env)) bs"
proof -
  obtain u where "take_items env n u = Ok items t"
    using assms(1) by (auto simp: iterate_def bnd_def split: outcome.splits)
  then have "item_ok env bs" using assms(2) take_items_Ok by (auto simp: list_all_iff)
  then show ?thesis unfolding item_ok_def batch_ok_def .
qed

text \<open>C33: A batch starts with the oldest sample of the filled pool, takes its other samples out of the pool and leaves
  the rest there, and it is maximal: unless its first sample was too long to share, no sample left in the pool
  would still fit. Only the first sample is compared with \<open>max_tokens_len\<close>: a sample that is to be alone according to the
  comments is so when it comes first, and else shares the batch of another (\<open>long_sample_shared\<close>).\<close>

theorem batch_greedy:
  assumes "best_fit_batch env s = Ok b t"
  shows "\<exists>u. fill_pool env s = Ok () u \<and> lb_pool u \<noteq> [] \<and> hd b = hd (lb_pool u)
    \<and> mset b + mset (lb_pool t) = mset (lb_pool u)
    \<and> (too_long env (hd b) \<or> (\<forall>x\<in>set (lb_pool t). lb_max_tokens env < batch_cost env (b @ [x])))"
proof -
  obtain u where "fill_pool env s = Ok () u" "lb_pool u \<noteq> []" "hd b = hd (lb_pool u)"
      "mset b + mset (lb_pool t) = mset (lb_pool u)" "too_long env (hd b) \<or> (\<forall>x\<in>set (lb_pool t). \<not> fits env b x)"
    using best_fit_Ok [OF assms] by metis
  then show ?thesis by (auto simp: fits_def not_le)
qed

text \<open>The candidate that is added next, under each of the three strategies: of the samples of the pool that keep
  the batch within the budget it is one with the least cost of the grown batch (then the least distance in length to the
  longest sample, if the strategy prefers the closest; any fitting one under sequence packing), and among equals
  the oldest; when there is none, no sample fits.\<close>

theorem candidate_first_least:
  assumes "find_best_candidate env cur chosen pool = Inr r"
    "chosen \<noteq> []" "cur = Max (set (map (sample_len env) chosen))"
  shows "case r of None \<Rightarrow> \<forall>x\<in>set pool. lb_max_tokens env < batch_cost env (chosen @ [x])
    | Some i \<Rightarrow> i < length pool \<and> batch_cost env (chosen @ [pool ! i]) \<le> lb_max_tokens env
        \<and> (\<forall>j<length pool. batch_cost env (chosen @ [pool ! j]) \<le> lb_max_tokens env \<longrightarrow>
             preference env chosen (pool ! i) \<le> preference env chosen (pool ! j))
        \<and> (\<forall>j<i. batch_cost env (chosen @ [pool ! j]) \<le> lb_max_tokens env \<longrightarrow>
             preference env chosen (pool ! i) < preference env chosen (pool ! j))"
  using best_candidate [OF assms] by (simp add: first_least_def fits_def not_le split: option.splits)

text \<open>C31: Without looping, one iteration on every data-parallel rank and in every worker of its loader delivers the
  dataset, every sample exactly once, whatever the sizes, the budget and the strategy.\<close>

theorem dataset_delivered_once:
  assumes "good_data env" "\<not> lb_infinite env" "1 \<le> lb_pool_size env" "1 \<le> lb_accumulate env"
    "0 < lb_dp_world env" "0 < lb_num_workers env" "lb_skip s \<le> 0" "lb_size env \<le> n"
  shows "mset (concat (map (\<lambda>r. concat (map (\<lambda>w. delivered (on_shard env r w) n s) [0..<lb_num_workers env])) [0..<lb_dp_world env]))
    = mset (map (\<lambda>i. projr (lb_item env i)) [0..<lb_size env])"
proof -
  let ?f = "\<lambda>i. projr (lb_item env i)"
  have "total_shards env \<noteq> 0" using assms by (simp add: total_shards_def)
  note d = delivered_on_shard [OF assms(1-4) this assms(7,8)]
  have "mset (concat (map (\<lambda>r. concat (map (\<lambda>w. delivered (on_shard env r w) n s) ws)) rs))
      = image_mset ?f (mset (concat (map (\<lambda>r. concat (map (\<lambda>w. shard_indices (on_shard env r w)) ws)) rs)))" for ws rs
  proof (induction rs)
    case (Cons r rs)
    have "mset (concat (map (\<lambda>w. delivered (on_shard env r w) n s) ws))
        = image_mset ?f (mset (concat (map (\<lambda>w. shard_indices (on_shard env r w)) ws)))"
      by (induction ws) (simp_all add: d)
    then show ?case using Cons by simp
  qed simp
  from this [of "[0..<lb_num_workers env]" "[0..<lb_dp_world env]"]
  show ?thesis unfolding shards_partition [OF assms(5,6)] mset_map .
qed

text \<open>C35: A sample whose lookup raises \<open>IndexError\<close> or \<open>KeyError\<close> ends the pass of its shard: without looping, an
  iteration delivers exactly the samples before the first unreadable one in the shuffled order, and ends as if
  the data were exhausted.\<close>

theorem pass_stops_at_unreadable:
  assumes "finite_pass env" "1 \<le> lb_accumulate env" "all_measured env" "lb_skip s \<le> 0"
    "length (epoch_indices env (lb_epoch s)) \<le> n"
  shows "\<exists>items t. iterate env n s = Ok items t \<and> (\<exists>u. next_item env t = Ok None u)
    \<and> mset (concat (concat items)) = mset (read_until env (epoch_indices env (lb_epoch s)))"
  using assms by (rule iterate_finite)

text \<open>In looping mode a shard that is not empty never runs out: whatever was skipped, a consumer gets every item it
  asks for, each with exactly \<open>accumulate_steps\<close> batches.\<close>

theorem stream_never_ends:
  assumes "endless env"
  shows "\<exists>items t. iterate env n s = Ok items t \<and> length items = n \<and> list_all (\<lambda>bs. length bs = nat (lb_accumulate env)) items"
proof -
  let ?s = "s\<lparr>lb_shard_epoch := lb_epoch s, lb_iter := Some Not_Started, lb_pool := []\<rparr>"
  obtain t where t: "begin_iteration env s = Ok () t" "list_all (measured env) (lb_pool t)"
    using skip_items_endless [OF assms, of ?s "nat (lb_skip s)"] that
    by (cases "0 < lb_skip s") (auto simp: begin_iteration_def)
  then show ?thesis using take_items_endless [OF assms t(2), of n] by (simp add: iterate_def)
qed

text \<open>C34: Resuming by \<open>skip_batches k\<close> continues exactly where an uninterrupted iteration was after \<open>k\<close> items: the
  same items in the same order, and the same state after them. The number is counted in items of this iterator, so each
  worker of a loader skips \<open>k\<close> items of its own.\<close>

theorem resume_continues:
  assumes "iterate env (k + n) (s\<lparr>lb_skip := 0\<rparr>) = Ok items t" "k \<le> length items"
  shows "bnd (skip_batches (int k)) (\<lambda>_. iterate env n) s = Ok (drop k items) t"
proof -
  let ?s = "\<lambda>v. s\<lparr>lb_skip := v, lb_shard_epoch := lb_epoch s, lb_iter := Some Not_Started, lb_pool := []\<rparr>"
  have "take_items env (k + n) (?s 0) = Ok items t"
    using assms(1) by (simp add: iterate_def begin_iteration_def)
  then obtain u where u: "skip_items env k (?s 0) = Ok () u" "take_items env n u = Ok (drop k items) t"
    using skip_then_take assms(2) by blast
  have again: "(?s 0)\<lparr>lb_skip := v\<rparr> = ?s v" for v by simp
  have free: "skip_items env k (?s v) = Ok () (u\<lparr>lb_skip := v\<rparr>)" for v
    using ignores_skipD [OF ignores_skip_items u(1), of v] unfolding again .
  have same: "u\<lparr>lb_skip := 0\<rparr> = u" using free [of 0] u(1) by simp
  show ?thesis
  proof (cases "k = 0")
    case True
    have "begin_iteration env (s\<lparr>lb_skip := 0\<rparr>) = Ok () (?s 0)" by (simp add: begin_iteration_def)
    moreover have "take_items env n (?s 0) = Ok items t" using u True by simp
    ultimately show ?thesis using True by (simp add: skip_batches_def iterate_def)
  next
    case False
    then have "begin_iteration env (s\<lparr>lb_skip := int k\<rparr>) = Ok () u"
      using free [of "int k"] same by (simp add: begin_iteration_def)
    then show ?thesis using u(2) by (simp add: skip_batches_def iterate_def)
  qed
qed


section \<open>Witnesses\<close>

text \<open>Samples of lengths 1, 2 and 3 in turn; the shuffle reverses.\<close>

definition lb_example :: lb_env where
  "lb_example = \<lparr>lb_size = 5, lb_item = (\<lambda>i. Inr [(''input_ids'', Sized_Value (i mod 3 + 1))]), lb_shuffle = (\<lambda>_. rev),
     lb_worker_id = 0, lb_num_workers = 1, lb_dp_rank = 0, lb_dp_world = 2, lb_seed = 7, lb_pool_size = 2, lb_max_tokens = 6,
     lb_max_len = 6, lb_key = ''input_ids'', lb_strategy = ''prefer_closest'', lb_packing = False, lb_accumulate = 1,
     lb_infinite = False\<rparr>"

definition lb_fresh :: lb_state where
  "lb_fresh = \<lparr>lb_pool = [], lb_iter = None, lb_tokens = 0, lb_samples = 0, lb_batches = 0, lb_skip = 0,
     lb_epoch = 0, lb_completed = 0, lb_shard_epoch = 0\<rparr>"

definition tokens :: "nat \<Rightarrow> sample" where
  "tokens n = [(''input_ids'', Sized_Value n)]"

lemma example_items: "returned (iterate lb_example 3 lb_fresh) = Some [[[tokens 2, tokens 3]], [[tokens 1]]]"
  by code_simp

lemma example_outcome: "iterate lb_example 3 lb_fresh
  = Ok [[[tokens 2, tokens 3]], [[tokens 1]]] (final (iterate lb_example 3 lb_fresh))"
  using example_items by (cases "iterate lb_example 3 lb_fresh") simp_all


theorem batches_within_budget_witness:
  "batch_cost lb_example [tokens 2, tokens 3] \<le> 6 \<and> \<not> too_long lb_example (tokens 2)"
  using batches_within_budget [OF example_outcome, of "[[tokens 2, tokens 3]]"]
  by (simp add: too_long_def sample_len_def get_sample_length_def dict_get_def tokens_def lb_example_def)

definition lb_started :: lb_state where
  "lb_started = lb_fresh\<lparr>lb_iter := Some Not_Started\<rparr>"

theorem batch_greedy_witness:
  "\<exists>u (t :: lb_state). fill_pool lb_example lb_started = Ok () u \<and> hd (lb_pool u) = tokens 2
     \<and> mset [tokens 2, tokens 3] + mset (lb_pool t) = mset (lb_pool u)"
proof -
  have "returned (best_fit_batch lb_example lb_started) = Some [tokens 2, tokens 3]" by code_simp
  then obtain t where "best_fit_batch lb_example lb_started = Ok [tokens 2, tokens 3] t"
    by (cases "best_fit_batch lb_example lb_started") simp_all
  from batch_greedy [OF this] obtain u where "fill_pool lb_example lb_started = Ok () u"
      "hd (lb_pool u) = tokens 2" "mset [tokens 2, tokens 3] + mset (lb_pool t) = mset (lb_pool u)" by auto
  then show ?thesis by (intro exI [of _ u] exI [of _ t] conjI)
qed

text \<open>A sample of three tokens, with 3 as the length from which samples are to be alone, in a batch with another.\<close>

theorem long_sample_shared:
  "lb_max_len (lb_example\<lparr>lb_max_len := 3\<rparr>) \<le> sample_len lb_example (tokens 3)
   \<and> returned (best_fit_batch (lb_example\<lparr>lb_max_len := 3\<rparr>) lb_started) = Some [tokens 2, tokens 3]"
  by code_simp

theorem candidate_first_least_witness:
  "preference lb_example [tokens 2] (tokens 1) \<le> preference lb_example [tokens 2] (tokens 3)
   \<and> preference lb_example [tokens 2] (tokens 1) < preference lb_example [tokens 2] (tokens 3)"
proof -
  have run: "find_best_candidate lb_example 2 [tokens 2] [tokens 3, tokens 1] = Inr (Some 1)" by code_simp
  have cur: "2 = Max (set (map (sample_len lb_example) [tokens 2]))" by code_simp
  have fit: "batch_cost lb_example [tokens 2, tokens 3] \<le> lb_max_tokens lb_example" by code_simp
  have "\<forall>j<2. batch_cost lb_example [tokens 2, [tokens 3, tokens 1] ! j] \<le> lb_max_tokens lb_example \<longrightarrow>
      preference lb_example [tokens 2] (tokens 1) \<le> preference lb_example [tokens 2] ([tokens 3, tokens 1] ! j)"
    and "\<forall>j<1. batch_cost lb_example [tokens 2, [tokens 3, tokens 1] ! j] \<le> lb_max_tokens lb_example \<longrightarrow>
      preference lb_example [tokens 2] (tokens 1) < preference lb_example [tokens 2] ([tokens 3, tokens 1] ! j)"
    using candidate_first_least [OF run _ cur] by (simp_all add: numeral_2_eq_2)
  from this(1) [rule_format, of 0] this(2) [rule_format, of 0] show ?thesis using fit by simp
qed

lemma example_items_good: "good_data lb_example"
  by (simp add: good_data_def lb_example_def measured_def sample_len_def get_sample_length_def dict_get_def)

theorem dataset_delivered_once_witness:
  "mset (delivered (on_shard lb_example 0 0) 5 lb_fresh @ delivered (on_shard lb_example 1 0) 5 lb_fresh)
   = {# tokens 1, tokens 2, tokens 3, tokens 1, tokens 2 #}"
proof -
  have d: "lb_dp_world lb_example = 2" "lb_num_workers lb_example = 1" "lb_size lb_example = 5" "lb_skip lb_fresh = 0"
      "\<not> lb_infinite lb_example" "lb_pool_size lb_example = 2" "lb_accumulate lb_example = 1"
    by (simp_all add: lb_example_def lb_fresh_def)
  have items: "map (\<lambda>i. projr (lb_item lb_example i)) [0..<5] = [tokens 1, tokens 2, tokens 3, tokens 1, tokens 2]"
    by code_simp
  have "[0..<2] = [0, 1::nat]" by code_simp
  then show ?thesis using dataset_delivered_once [OF example_items_good, of lb_fresh 5] unfolding d items using d(5) by simp
qed

text \<open>The second of the three samples of the shard cannot be read: the third is lost.\<close>

definition lb_broken :: lb_env where
  "lb_broken = lb_example\<lparr>lb_item := (\<lambda>i. if i = 2 then Inl KeyError else Inr (tokens (i mod 3 + 1)))\<rparr>"

theorem pass_stops_at_unreadable_witness:
  "epoch_indices lb_broken 0 = [4, 2, 0] \<and> (\<exists>items t. iterate lb_broken 3 lb_fresh = Ok items t
     \<and> mset (concat (concat items)) = {# tokens 2 #})"
proof -
  have e: "epoch_indices lb_broken 0 = [4, 2, 0]" by code_simp
  have r: "read_until lb_broken [4, 2, 0] = [tokens 2]" by code_simp
  have "finite_pass lb_broken" "1 \<le> lb_accumulate lb_broken" "all_measured lb_broken"
    by (simp_all add: finite_pass_def readable_def all_measured_def measured_def sample_len_def get_sample_length_def
        dict_get_def lb_broken_def lb_example_def total_shards_def tokens_def)
  from pass_stops_at_unreadable [OF this, of lb_fresh 3] show ?thesis using e r by (auto simp: lb_fresh_def)
qed

definition lb_looping :: lb_env where
  "lb_looping = lb_example\<lparr>lb_infinite := True, lb_accumulate := 2\<rparr>"

theorem stream_never_ends_witness:
  "\<exists>items t. iterate lb_looping 100 (lb_fresh\<lparr>lb_skip := 3\<rparr>) = Ok items t \<and> length items = 100
     \<and> list_all (\<lambda>bs. length bs = 2) items"
proof -
  have "shard_indices lb_looping = [0, 2, 4]" by code_simp
  then have "endless lb_looping"
    by (simp add: endless_def lb_looping_def lb_example_def total_shards_def measured_def sample_len_def
        get_sample_length_def dict_get_def epoch_indices_def)
  from stream_never_ends [OF this, of 100 "lb_fresh\<lparr>lb_skip := 3\<rparr>"] show ?thesis by (simp add: lb_looping_def)
qed

theorem resume_continues_witness:
  "\<exists>t. bnd (skip_batches 1) (\<lambda>_. iterate lb_example 2) lb_fresh = Ok [[[tokens 1]]] t"
proof -
  have fresh: "lb_fresh\<lparr>lb_skip := 0\<rparr> = lb_fresh" by (simp add: lb_fresh_def)
  have three: "1 + 2 = (3::nat)" by simp
  have run: "iterate lb_example (1 + 2) (lb_fresh\<lparr>lb_skip := 0\<rparr>)
      = Ok [[[tokens 2, tokens 3]], [[tokens 1]]] (final (iterate lb_example 3 lb_fresh))"
    unfolding fresh three by (rule example_outcome)
  show ?thesis using resume_continues [OF run] by auto
qed

end
