(* ===== verification/Spec2Isabelle.thy ===== *)
theory Spec2Isabelle
  imports Arith_Utils Dim_Slice Seq_Balance Controller_Model Controller_Runs Step_Acks Task_Scheduler Topo_Mapper Shard_Mapper
    Rollout_Runs Rewards Policy_Runs HA_Nccl Load_Balancing
begin

text \<open>
  A model of the core of Cosmos-RL (src/cosmos\_rl), a framework for reinforcement learning of large models.
  A \<^emph>\<open>controller\<close> (dispatcher/) hands out prompts to \<^emph>\<open>rollout\<close> replicas, collects their completions,
  lets the \<^emph>\<open>policy\<close> replicas train on them and decides when weights travel from policy to rollout. The
  replicas work out between themselves which slice of which parameter goes from which rank to which.

  \<^bold>\<open>Language.\<close> \<open>Py_Base\<close> is the prelude: errors as values, executions that return or raise and keep the
  state they leave behind (an exception does not undo assignments), dictionaries in insertion order with
  the laws of the locale \<open>ordered_dict\<close>, weakest preconditions (\<open>wp_eqs\<close>) and frame rules (\<open>frame\<close>).
  \<open>Py_Strings\<close> has the string methods. Python's integers are \<open>int\<close> or \<open>nat\<close>; nothing overflows. Floats are
  only stored or passed on, except in \<open>Rewards\<close>.

  \<^bold>\<open>The controller.\<close> \<open>Schema\<close> (data/schema.py, utils/payload.py): payloads and rollouts. \<open>Replica_Model\<close>
  (protocol.py, replica.py): registration requests, replicas and their atoms. \<open>Command_Model\<close> (command.py):
  commands, their dictionaries, the handler registries; \<open>Triggers\<close> adds the \<open>trigger\<close> methods. \<open>Ctl_State\<close>
  is the state of the controller process, the fields of both status managers, the data fetcher and the
  controller, with what has been published to the replicas as a history; its locale \<open>replica_store\<close> is the
  interface to the replicas of either side. \<open>Data_Fetcher\<close> (data/data\_fetcher.py) fetches prompts;
  \<open>Policy_Manager\<close>, \<open>Training_Flow\<close> (status.py, \<open>PolicyStatusManager\<close>) keep statuses, rebuild meshes, count
  samples, buffer and dispatch rollouts, start steps and process their acknowledgements; \<open>Rollout_Manager\<close>
  (status.py) is the rollout side; \<open>Controller_Model\<close> (controller.py, run\_web\_panel.py) the controller and
  the request handlers. \<open>Controller_Runs\<close> closes the system: a state is reachable by any sequence of
  requests, and the registries and statuses stay consistent. \<open>Step_Acks\<close> shows what acknowledgements do:
  the end of a step, the weight transfers it triggers, checkpoints.
  Loops with a bound that depends on data (\<open>fetch_rounds\<close>, \<open>next_version\<close>) run with fuel; for the versions the
  fuel is shown to be enough, and running out is the error value \<open>OutOfFuel\<close>, which is no value of the code.

  \<^bold>\<open>Rollout.\<close> \<open>Task_Scheduler\<close> (rollout\_task\_scheduler.py): the worker thread or task, the generations and
  the client as an interleaving, for as long as there is one worker; no task is lost, what \<open>paused()\<close> guarantees
  and what it does not.
  \<open>Rollout_Worker\<close> (rollout/worker/rollout\_control.py, reward/dispatcher.py): one rank of a rollout worker in
  synchronous mode, a state machine over streams of inputs (commands and clock, prompts, engine results) that
  writes a history of what it sends, receives and generates. \<open>Rollout_Runs\<close> has its invariants over every run
  of the main loop, errors included: generation for training only with complete weights of a version that the first
  prompt of the batch allows, validation with weights no older than its step, batches in order, nothing after the end
  signal. \<open>Rollout_Transfers\<close> has single operations: a transfer follows the plan,
  the wait for commands, shares of prompts, filters and reports, with the fuel of the report loop shown to be
  enough. Locale \<open>worker_invariant\<close> is the interface between an invariant and the operations of the worker.

  \<^bold>\<open>Policy.\<close> \<open>Policy_Worker\<close> (policy/worker/rl\_worker.py): one rank of a policy worker, in the same style; what its
  background threads have fetched arrives in \<^emph>\<open>looks\<close>, and the trainer, profiler and signals are streams of results.
  \<open>Weight_Delivery\<close> puts both ends of a transfer and the plan together: a policy rank sends what the plan
  says, and what it sends to a rollout rank is, slice by slice, the part of the parameter that this rank receives
  and needs. \<open>Policy_Runs\<close>: nothing that arrives is lost or overtaken, the batch of a step is shared out
  evenly, one training and one acknowledgement for a \<open>DATA_FETCH\<close>, the end of the loop one round after it is asked for.

  \<open>HA_Nccl\<close> (utils/distributed.py): the communicator between policy replicas, which a background thread rebuilds while
  operations run on it: an invariant over every interleaving of the two, and the races that the code leaves.

  \<^bold>\<open>Data.\<close> \<open>Load_Balancing\<close> (dispatcher/data/load\_balanced\_dataset.py): shards, the pool and the greedy batches of
  supervised training. A generator is its state and the step to its next item. Every batch is within the budget of
  tokens and maximal, a pass over all shards delivers the dataset once, skipping resumes exactly; \<open>grow_batch\<close> takes as
  fuel the size of the pool, which every round shrinks (\<open>grow_batch_total\<close>). \<open>Sharing\<close> has the slices with a step that
  prompts, rollouts and samples are shared out by.

  \<^bold>\<open>Rewards.\<close> \<open>Rewards\<close> (reward/local\_calculator.py, reward/base.py, dispatcher/algo): reward functions and their weights,
  advantages, dynamic sampling; every completion gets its own reward, the answers are well-formed for the
  controller, and exactly the biased shared prefixes are left out of training, which rests on
  \<open>Prefix_Groups\<close> (utils/util.py), a trie walked with an explicit stack (terminating by a measure on it). A
  finite float is a rational number here, and rounding a parameter.

  \<^bold>\<open>Weights.\<close> \<open>Parallel_Dims\<close> (utils/parallelism.py): degrees of parallelism and the coordinates of a rank.
  \<open>Topo_Mapper\<close> (utils/parallelism\_map.py, utils/mxfp4/quantizer.py): the shards that a rank holds.
  \<open>Dim_Slice\<close> (utils/dim\_slice\_info.py): the arithmetic of slices. \<open>Weight_Sync\<close> (utils/parallelism\_map.py):
  who sends which slice to whom; both ends of a transfer select the same elements, every shard is sent
  once, and both sides go through the parameters in the same order. \<open>Shard_Mapper\<close> is the process around
  it (and its handlers in run\_web\_panel.py): reports arrive, a background task builds the plan, requests wait
  for it; every answer is the plan's of the first reports.

  \<^bold>\<open>Helpers.\<close> \<open>Seq_Balance\<close> (utils/balance\_seqlen.py): partitions of similar total length, with its heap behind
  the locale \<open>min_queue\<close>. \<open>Arith_Utils\<close> (utils/arithmetic.py).

  \<^bold>\<open>Parameters.\<close> What is not in the repository is an argument of the definitions: numpy's \<open>array_split\<close> with
  its documented result, msgpack, Redis (whether a request succeeds), the data loader's batches, the ranks in
  a torch device mesh, the functions of a model's weight mapper and tokenizer, the clock.

  \<^bold>\<open>Not modelled.\<close> Tensor programs (models, kernels, losses, optimisers), NCCL and CUDA, inference engines,
  HTTP and Redis transport, logging and metrics text, process start-up. Threads appear only where the code's
  own logic depends on their interleaving.
\<close>

end
